(* ===== verification/Prelude.thy ===== *)
theory Prelude
  imports Main "HOL-Library.Word"
begin

text \<open>
  The shared vocabulary of the development.

  Types: \<open>byte\<close> is Rust's \<open>u8\<close>, \<open>u32\<close> and \<open>u64\<close> are machine words, byte slices and vectors
  are byte lists, a Rust \<open>Result<T, E>\<close> is the sum \<open>'e + 'a\<close> with the error on the left, an
  \<open>Instant\<close> and a \<open>Duration\<close> are natural numbers of nanoseconds, a \<open>HashMap\<close> is a map.

  Operations of the Rust standard library that the source uses: saturating arithmetic, the
  big- and little-endian conversions, UTF-8 validation, durations.

  Interfaces: \<open>machine\<close> (a state, its operations and an invariant every operation keeps) and
  \<open>prefix_codec\<close> (an encoding whose decoder recovers the value and the bytes after it). Their
  consequences are proved once here and instantiated in the theories of the components.
\<close>

section \<open>Types\<close>

type_synonym byte = "8 word"
type_synonym u32 = "32 word"
type_synonym u64 = "64 word"
type_synonym instant = nat
type_synonym duration = nat

named_theorems result_simps "rules that evaluate and invert the result type"
named_theorems codec_simps "lengths and inverses of the byte encodings"

section \<open>Results\<close>

text \<open>Rust's \<open>?\<close>: stop at the first error, otherwise go on with the value.\<close>

definition rbind :: "'e + 'a \<Rightarrow> ('a \<Rightarrow> 'e + 'b) \<Rightarrow> 'e + 'b" where
  "rbind r f = (case r of Inl e \<Rightarrow> Inl e | Inr a \<Rightarrow> f a)"

definition map_err :: "('e \<Rightarrow> 'f) \<Rightarrow> 'e + 'a \<Rightarrow> 'f + 'a" where
  "map_err f r = (case r of Inl e \<Rightarrow> Inl (f e) | Inr a \<Rightarrow> Inr a)"

definition ok_or :: "'e \<Rightarrow> 'a option \<Rightarrow> 'e + 'a" where
  "ok_or e x = (case x of None \<Rightarrow> Inl e | Some a \<Rightarrow> Inr a)"

lemma rbind_simps [simp, result_simps]:
  "rbind (Inl e) f = Inl e"
  "rbind (Inr a) f = f a"
  by (simp_all add: rbind_def)

lemma rbind_Inr_iff [result_simps]:
  "rbind r f = Inr y \<longleftrightarrow> (\<exists>a. r = Inr a \<and> f a = Inr y)"
  by (cases r) simp_all

lemma rbind_Inl_iff [result_simps]:
  "rbind r f = Inl e \<longleftrightarrow> r = Inl e \<or> (\<exists>a. r = Inr a \<and> f a = Inl e)"
  by (cases r) simp_all

lemma rbind_cong [fundef_cong]:
  "r = r' \<Longrightarrow> (\<And>a. r' = Inr a \<Longrightarrow> f a = g a) \<Longrightarrow> rbind r f = rbind r' g"
  by (cases r') simp_all

lemma map_err_simps [simp, result_simps]:
  "map_err f (Inl e) = Inl (f e)"
  "map_err f (Inr a) = Inr a"
  by (simp_all add: map_err_def)

lemma map_err_Inr_iff [result_simps]: "map_err f r = Inr a \<longleftrightarrow> r = Inr a"
  by (cases r) simp_all

lemma map_err_Inl_iff [result_simps]: "map_err f r = Inl e \<longleftrightarrow> (\<exists>d. r = Inl d \<and> e = f d)"
  by (cases r) auto

lemma ok_or_simps [simp, result_simps]:
  "ok_or e None = Inl e"
  "ok_or e (Some a) = Inr a"
  by (simp_all add: ok_or_def)

lemma ok_or_Inr_iff [result_simps]: "ok_or e x = Inr a \<longleftrightarrow> x = Some a"
  by (cases x) simp_all

lemma ok_or_Inl_iff [result_simps]: "ok_or e x = Inl d \<longleftrightarrow> x = None \<and> d = e"
  by (cases x) auto

definition is_ok :: "'e + 'a \<Rightarrow> bool" where "is_ok r = (\<not> isl r)"

lemma is_ok_simps [simp, result_simps]: "\<not> is_ok (Inl e)" "is_ok (Inr a)"
  by (simp_all add: is_ok_def)

lemma is_ok_map_err [simp]: "is_ok (map_err f r) = is_ok r"
  by (cases r) simp_all

lemma is_ok_iff: "is_ok r \<longleftrightarrow> (\<exists>x. r = Inr x)"
  by (cases r) simp_all

section \<open>Saturating arithmetic on machine words\<close>

definition sat_add :: "'l::len word \<Rightarrow> 'l word \<Rightarrow> 'l word" where
  "sat_add a b = (if unat a + unat b < 2 ^ LENGTH('l) then a + b else - 1)"

definition sat_sub :: "'l::len word \<Rightarrow> 'l word \<Rightarrow> 'l word" where
  "sat_sub a b = (if b \<le> a then a - b else 0)"

definition sat_mul :: "'l::len word \<Rightarrow> 'l word \<Rightarrow> 'l word" where
  "sat_mul a b = (if unat a * unat b < 2 ^ LENGTH('l) then a * b else - 1)"

lemma unat_minus_one: "unat (- 1 :: 'l::len word) = 2 ^ LENGTH('l) - 1"
  by (simp add: unsigned_minus_1_eq_mask mask_eq_exp_minus_1)

lemma unat_less_exp: "unat w < 2 ^ LENGTH('l)" for w :: "'l::len word"
  by (rule unsigned_less)

lemma unat_sat_add: "unat (sat_add a b) = min (unat a + unat b) (2 ^ LENGTH('l) - 1)"
  for a b :: "'l::len word"
  by (auto simp: sat_add_def unat_word_ariths unat_minus_one)

lemma unat_sat_sub: "unat (sat_sub a b) = unat a - unat b"
  by (auto simp: sat_sub_def unat_sub word_le_nat_alt)

lemma unat_sat_mul: "unat (sat_mul a b) = min (unat a * unat b) (2 ^ LENGTH('l) - 1)"
  for a b :: "'l::len word"
  by (auto simp: sat_mul_def unat_word_ariths unat_minus_one)

lemma unat_Suc_word:
  "unat (w + 1) = Suc (unat w)" if "unat w < 2 ^ LENGTH('l) - 1" for w :: "'l::len word"
proof -
  have "unat w + 1 < 2 ^ LENGTH('l)" using that by linarith
  then show ?thesis
    by (metis Suc_eq_plus1 unat_1 unat_add_lem)
qed

section \<open>Durations\<close>

definition from_secs :: "nat \<Rightarrow> duration" where "from_secs s = s * 10 ^ 9"
definition from_millis :: "nat \<Rightarrow> duration" where "from_millis ms = ms * 10 ^ 6"
definition as_millis :: "duration \<Rightarrow> nat" where "as_millis d = d div 10 ^ 6"

lemma as_millis_from_millis [simp]: "as_millis (from_millis n) = n"
  by (simp add: as_millis_def from_millis_def)

lemma as_millis_from_secs [simp]: "as_millis (from_secs n) = n * 1000"
  by (simp add: as_millis_def from_secs_def)

lemma from_millis_mono: "from_millis a \<le> from_millis b \<longleftrightarrow> a \<le> b"
  by (simp add: from_millis_def)

lemma from_secs_millis: "from_secs n = from_millis (n * 1000)"
  by (simp add: from_secs_def from_millis_def)

section \<open>Interface: a state machine with an invariant\<close>

text \<open>
  A component whose state changes only through its operations: \<open>init\<close> describes the states its
  constructors make, \<open>step\<close> is one operation, \<open>inv\<close> what every operation keeps. A run is a list of
  operations, folded over the state.
\<close>

locale machine =
  fixes init :: "'s \<Rightarrow> bool"
    and step :: "'e \<Rightarrow> 's \<Rightarrow> 's"
    and inv :: "'s \<Rightarrow> bool"
  assumes inv_init: "init s \<Longrightarrow> inv s"
    and inv_step: "inv s \<Longrightarrow> inv (step e s)"
begin

lemma inv_fold: "inv s \<Longrightarrow> inv (fold step es s)"
  by (induction es arbitrary: s) (auto intro: inv_step)

lemma inv_run: "init s \<Longrightarrow> inv (fold step es s)"
  by (rule inv_fold [OF inv_init])

lemma inv_prefix: "init s \<Longrightarrow> inv (fold step (take n es) s)"
  by (rule inv_run)

text \<open>
  A relation between the state before and after an operation that is reflexive and transitive
  and holds for every operation holds across every run.
\<close>

lemma rel_fold:
  assumes refl: "\<And>s. R s s"
    and trans: "\<And>s t u. R s t \<Longrightarrow> R t u \<Longrightarrow> R s u"
    and step: "\<And>s e. inv s \<Longrightarrow> R s (step e s)"
    and "inv s"
  shows "R s (fold step es s)"
  using \<open>inv s\<close>
proof (induction es arbitrary: s)
  case Nil
  show ?case by (simp add: refl)
next
  case (Cons e es)
  have "R s (step e s)" using Cons.prems by (rule step)
  moreover have "R (step e s) (fold step es (step e s))"
    using Cons.IH [OF inv_step [OF Cons.prems]] .
  ultimately show ?case by (auto intro: trans)
qed

end

section \<open>Interface: encodings\<close>

text \<open>
  \<open>enc\<close> writes a value, \<open>dec\<close> reads one from the front of a buffer and returns it with the bytes
  after it. \<open>wf\<close> is what the source's types guarantee of the value (array lengths, presence
  rules). The law is the round trip; that encodings cannot be re-split follows from it.
\<close>

locale prefix_codec =
  fixes enc :: "'a \<Rightarrow> byte list"
    and dec :: "byte list \<Rightarrow> 'e + ('a \<times> byte list)"
    and wf :: "'a \<Rightarrow> bool"
  assumes dec_enc: "wf x \<Longrightarrow> dec (enc x @ rest) = Inr (x, rest)"
begin

lemma enc_append_inj:
  assumes "wf x" and "wf y" and "enc x @ r = enc y @ s"
  shows "x = y \<and> r = s"
proof -
  have "dec (enc x @ r) = Inr (x, r)" using assms(1) by (rule dec_enc)
  moreover have "dec (enc x @ r) = Inr (y, s)" using assms(2,3) by (simp add: dec_enc)
  ultimately show ?thesis by simp
qed

lemma enc_inj: "wf x \<Longrightarrow> wf y \<Longrightarrow> enc x = enc y \<Longrightarrow> x = y"
  using enc_append_inj [of x y "[]" "[]"] by simp

lemma dec_enc_whole: "wf x \<Longrightarrow> dec (enc x) = Inr (x, [])"
  using dec_enc [of x "[]"] by simp

end

text \<open>A decoder that accepts nothing but what the encoder writes.\<close>

locale exact_codec = prefix_codec enc dec wf
  for enc :: "'a \<Rightarrow> byte list"
    and dec :: "byte list \<Rightarrow> 'e + ('a \<times> byte list)"
    and wf :: "'a \<Rightarrow> bool" +
  assumes dec_sound: "dec bs = Inr (x, rest) \<Longrightarrow> wf x \<and> bs = enc x @ rest"
begin

lemma dec_iff: "dec bs = Inr (x, rest) \<longleftrightarrow> wf x \<and> bs = enc x @ rest"
  using dec_sound dec_enc by blast

end

end
