(* ===== verification/Bytes.thy ===== *)
theory Bytes
  imports Prelude
begin

text \<open>
  Byte-level encodings shared by the record formats: the fixed-width big- and little-endian
  integers of the Rust standard library, UTF-8 validation, and the length-prefixed field of
  \<^verbatim>\<open>dm/mod.rs\<close> (\<open>push_lp\<close>, \<open>unpad\<close>).
\<close>

section \<open>Fixed-width integers\<close>

fun be_enc :: "nat \<Rightarrow> nat \<Rightarrow> byte list" where
  "be_enc 0 v = []"
| "be_enc (Suc k) v = be_enc k (v div 256) @ [word_of_nat (v mod 256)]"

definition be_dec :: "byte list \<Rightarrow> nat" where
  "be_dec bs = foldl (\<lambda>a b. a * 256 + unat b) 0 bs"

lemma length_be_enc [simp, codec_simps]: "length (be_enc k v) = k"
  by (induction k v rule: be_enc.induct) simp_all

lemma be_dec_Nil [simp]: "be_dec [] = 0"
  by (simp add: be_dec_def)

lemma be_dec_snoc [simp]: "be_dec (bs @ [b]) = be_dec bs * 256 + unat b"
  by (simp add: be_dec_def)

lemma be_dec_be_enc: "be_dec (be_enc k v) = v mod 256 ^ k"
proof (induction k v rule: be_enc.induct)
  case (2 k v)
  have "unat (word_of_nat (v mod 256) :: byte) = v mod 256"
    by (simp add: unat_of_nat)
  with 2 show ?case
    by (simp add: mod_mult2_eq mult.commute)
qed simp

lemma be_dec_less: "be_dec bs < 256 ^ length bs"
proof (induction bs rule: rev_induct)
  case (snoc b bs)
  have "unat b < 256" using unat_less_exp [of b] by simp
  with snoc show ?case by simp
qed simp

lemma be_enc_be_dec: "be_enc (length bs) (be_dec bs) = bs"
proof (induction bs rule: rev_induct)
  case (snoc b bs)
  have "unat b < 256" using unat_less_exp [of b] by simp
  with snoc show ?case by simp
qed simp

definition u64_be :: "u64 \<Rightarrow> byte list" where "u64_be w = be_enc 8 (unat w)"
definition u32_be :: "u32 \<Rightarrow> byte list" where "u32_be w = be_enc 4 (unat w)"
definition u64_of_be :: "byte list \<Rightarrow> u64" where "u64_of_be bs = word_of_nat (be_dec bs)"
definition u32_of_be :: "byte list \<Rightarrow> u32" where "u32_of_be bs = word_of_nat (be_dec bs)"
definition u64_of_le :: "byte list \<Rightarrow> u64" where "u64_of_le bs = u64_of_be (rev bs)"
definition u32_le :: "u32 \<Rightarrow> byte list" where "u32_le w = rev (u32_be w)"
definition u32_of_le :: "byte list \<Rightarrow> u32" where "u32_of_le bs = u32_of_be (rev bs)"

lemma length_uint_be [simp, codec_simps]:
  "length (u64_be w) = 8" "length (u32_be v) = 4" "length (u32_le v) = 4"
  by (simp_all add: u64_be_def u32_be_def u32_le_def)

lemma u64_of_be_u64_be [simp, codec_simps]: "u64_of_be (u64_be w) = w"
proof -
  have "unat w < 256 ^ 8" using unat_less_exp [of w] by simp
  then show ?thesis by (simp add: u64_of_be_def u64_be_def be_dec_be_enc del: power_numeral)
qed

lemma u32_of_be_u32_be [simp, codec_simps]: "u32_of_be (u32_be w) = w"
proof -
  have "unat w < 256 ^ 4" using unat_less_exp [of w] by simp
  then show ?thesis by (simp add: u32_of_be_def u32_be_def be_dec_be_enc del: power_numeral)
qed

lemma u32_of_le_u32_le [simp, codec_simps]: "u32_of_le (u32_le w) = w"
  by (simp add: u32_of_le_def u32_le_def)

lemma u64_be_u64_of_be [codec_simps]: "length bs = 8 \<Longrightarrow> u64_be (u64_of_be bs) = bs"
  using be_dec_less [of bs] be_enc_be_dec [of bs]
  by (simp add: u64_of_be_def u64_be_def unat_of_nat)

lemma u32_be_u32_of_be [codec_simps]: "length bs = 4 \<Longrightarrow> u32_be (u32_of_be bs) = bs"
  using be_dec_less [of bs] be_enc_be_dec [of bs]
  by (simp add: u32_of_be_def u32_be_def unat_of_nat)

section \<open>UTF-8\<close>

text \<open>
  \<open>core::str::from_utf8\<close> accepts exactly the well-formed sequences of the Unicode standard:
  no overlong form, no surrogate, nothing above U+10FFFF.
\<close>

definition in_range :: "nat \<Rightarrow> nat \<Rightarrow> byte \<Rightarrow> bool" where
  "in_range lo hi b = (lo \<le> unat b \<and> unat b \<le> hi)"

fun utf8_valid :: "byte list \<Rightarrow> bool" where
  "utf8_valid [] = True"
| "utf8_valid (b # bs) =
    (if in_range 0x00 0x7F b then utf8_valid bs
     else case bs of [] \<Rightarrow> False | c # cs \<Rightarrow>
      (if in_range 0xC2 0xDF b then in_range 0x80 0xBF c \<and> utf8_valid cs
       else case cs of [] \<Rightarrow> False | d # ds \<Rightarrow>
        (if in_range 0xE0 0xEF b
         then in_range (if unat b = 0xE0 then 0xA0 else 0x80)
                (if unat b = 0xED then 0x9F else 0xBF) c
              \<and> in_range 0x80 0xBF d \<and> utf8_valid ds
         else case ds of [] \<Rightarrow> False | e # es \<Rightarrow>
           in_range 0xF0 0xF4 b
           \<and> in_range (if unat b = 0xF0 then 0x90 else 0x80)
               (if unat b = 0xF4 then 0x8F else 0xBF) c
           \<and> in_range 0x80 0xBF d \<and> in_range 0x80 0xBF e \<and> utf8_valid es)))"

lemma utf8_ascii: "in_range 0x00 0x7F b \<Longrightarrow> utf8_valid (b # s) = utf8_valid s"
  by simp

lemma utf8_two:
  assumes "\<not> in_range 0x00 0x7F b" "in_range 0xC2 0xDF b"
  shows "utf8_valid [b] = False" "utf8_valid (b # c # s) = (in_range 0x80 0xBF c \<and> utf8_valid s)"
  using assms by simp_all

lemma utf8_three:
  assumes "\<not> in_range 0x00 0x7F b" "\<not> in_range 0xC2 0xDF b" "in_range 0xE0 0xEF b"
  shows "utf8_valid [b] = False" "utf8_valid [b, c] = False"
    "utf8_valid (b # c # d # s) = (in_range (if unat b = 0xE0 then 0xA0 else 0x80)
       (if unat b = 0xED then 0x9F else 0xBF) c \<and> in_range 0x80 0xBF d \<and> utf8_valid s)"
  using assms by simp_all

lemma utf8_four:
  assumes "\<not> in_range 0x00 0x7F b" "\<not> in_range 0xC2 0xDF b" "\<not> in_range 0xE0 0xEF b"
  shows "utf8_valid [b] = False" "utf8_valid [b, c] = False" "utf8_valid [b, c, d] = False"
    "utf8_valid (b # c # d # e # s) = (in_range 0xF0 0xF4 b \<and> in_range (if unat b = 0xF0 then 0x90 else 0x80)
       (if unat b = 0xF4 then 0x8F else 0xBF) c \<and> in_range 0x80 0xBF d \<and> in_range 0x80 0xBF e \<and> utf8_valid s)"
  using assms by simp_all

lemma in_range_continuation:
  "in_range (if x then 0xA0 else 0x80) (if y then 0x9F else 0xBF) c \<Longrightarrow> in_range 0x80 0xBF c"
  "in_range (if x then 0x90 else 0x80) (if y then 0x8F else 0xBF) c \<Longrightarrow> in_range 0x80 0xBF c"
  by (auto simp: in_range_def split: if_splits)

text \<open>The first character of a string: its bytes, after the first, are continuations.\<close>

definition utf8_char :: "byte list \<Rightarrow> bool" where
  "utf8_char ch = (ch \<noteq> [] \<and> list_all (in_range 0x80 0xBF) (tl ch) \<and>
     (\<forall>s. utf8_valid (ch @ s) = utf8_valid s))"

lemma utf8_firstI:
  "s = ch @ r \<Longrightarrow> utf8_char ch \<Longrightarrow> utf8_valid r \<Longrightarrow> \<exists>ch r. s = ch @ r \<and> utf8_char ch \<and> utf8_valid r"
  by blast

lemma utf8_first:
  assumes "utf8_valid s" "s \<noteq> []"
  shows "\<exists>ch r. s = ch @ r \<and> utf8_char ch \<and> utf8_valid r"
proof -
  obtain b t where s: "s = b # t" using assms(2) by (cases s) auto
  consider (1) "in_range 0x00 0x7F b" | (2) "\<not> in_range 0x00 0x7F b" "in_range 0xC2 0xDF b"
    | (3) "\<not> in_range 0x00 0x7F b" "\<not> in_range 0xC2 0xDF b" "in_range 0xE0 0xEF b"
    | (4) "\<not> in_range 0x00 0x7F b" "\<not> in_range 0xC2 0xDF b" "\<not> in_range 0xE0 0xEF b" by blast
  then show ?thesis
  proof cases
    case 1
    with assms(1) s show ?thesis
      by (intro utf8_firstI [of s "[b]" t]) (simp_all add: utf8_char_def utf8_ascii del: utf8_valid.simps(2))
  next
    case 2
    with assms(1) s obtain c r where "t = c # r" by (cases t) (auto simp: utf8_two del: utf8_valid.simps(2))
    with 2 assms(1) s show ?thesis
      by (intro utf8_firstI [of s "[b, c]" r]) (simp_all add: utf8_char_def utf8_two del: utf8_valid.simps(2))
  next
    case 3
    with assms(1) s obtain c d r where t: "t = c # d # r"
      by (cases t; cases "tl t") (auto simp: utf8_three simp del: utf8_valid.simps(2))
    with 3 assms(1) s have v: "utf8_valid r" "list_all (in_range 0x80 0xBF) (tl [b, c, d])"
      by (auto simp: utf8_three intro: in_range_continuation simp del: utf8_valid.simps(2))
    have "\<forall>x. utf8_valid (b # c # d # x) = utf8_valid x"
      using 3 assms(1) s t by (simp add: utf8_three del: utf8_valid.simps(2))
    with t s v show ?thesis
      by (intro utf8_firstI [of s "[b, c, d]" r]) (simp_all add: utf8_char_def del: utf8_valid.simps(2))
  next
    case 4
    with assms(1) s obtain c d e r where t: "t = c # d # e # r"
      by (cases t; cases "tl t"; cases "tl (tl t)") (auto simp: utf8_four simp del: utf8_valid.simps(2))
    with 4 assms(1) s have v: "utf8_valid r" "list_all (in_range 0x80 0xBF) (tl [b, c, d, e])"
      by (auto simp: utf8_four intro: in_range_continuation simp del: utf8_valid.simps(2))
    have "\<forall>x. utf8_valid (b # c # d # e # x) = utf8_valid x"
      using 4 assms(1) s t by (simp add: utf8_four del: utf8_valid.simps(2))
    with t s v show ?thesis
      by (intro utf8_firstI [of s "[b, c, d, e]" r]) (simp_all add: utf8_char_def del: utf8_valid.simps(2))
  qed
qed

lemma utf8_valid_prefix:
  "utf8_valid (xs @ ys) \<Longrightarrow> ys = [] \<or> \<not> in_range 0x80 0xBF (hd ys) \<Longrightarrow> utf8_valid xs"
proof (induction "length xs" arbitrary: xs rule: less_induct)
  case less
  show ?case
  proof (cases "xs = []")
    case False
    with utf8_first [OF less.prems(1)] obtain ch r where c: "xs @ ys = ch @ r" "utf8_char ch" "utf8_valid r"
      by auto
    then obtain zs where z: "xs = ch @ zs \<and> zs @ ys = r \<or> xs @ zs = ch \<and> ys = zs @ r"
      by (auto simp: append_eq_append_conv2)
    show ?thesis
    proof (cases "xs = ch @ zs \<and> zs @ ys = r")
      case True
      with c less show ?thesis by (auto simp: utf8_char_def)
    next
      case o: False
      with z have o: "xs @ zs = ch" "ys = zs @ r" by auto
      have "zs = []"
      proof (rule ccontr)
        assume "zs \<noteq> []"
        then obtain y zs' where "zs = y # zs'" by (cases zs) auto
        with o False c(2) have "in_range 0x80 0xBF y" "hd ys = y" "ys \<noteq> []"
          by (auto simp: utf8_char_def list_all_iff tl_append split: list.splits)
        with less.prems(2) show False by simp
      qed
      with o c(2) have "utf8_valid (xs @ []) = utf8_valid []" unfolding utf8_char_def by (metis append_Nil2)
      then show ?thesis by simp
    qed
  qed simp
qed

lemma utf8_valid_head:
  assumes "utf8_valid s" "s \<noteq> []"
  shows "\<not> in_range 0x80 0xBF (hd s)"
proof
  assume c: "in_range 0x80 0xBF (hd s)"
  obtain b t where s: "s = b # t" using assms(2) by (cases s) auto
  have n: "\<not> in_range 0x00 0x7F b" "\<not> in_range 0xC2 0xDF b" "\<not> in_range 0xE0 0xEF b" "\<not> in_range 0xF0 0xF4 b"
    using c s by (auto simp: in_range_def)
  show False
    using assms(1) n s by (cases t; cases "tl t"; cases "tl (tl t)") (auto simp: utf8_four simp del: utf8_valid.simps(2))
qed

section \<open>Length-prefixed fields (\<open>dm/mod.rs\<close>)\<close>

text \<open>
  \<open>push_lp\<close> appends the length of the field as a big-endian \<open>u64\<close> and then the field. Its
  model returns what is appended. \<open>usize\<close> is 64 bits on every platform the clients ship for,
  so \<open>bytes.len() as u64\<close> loses nothing: a Rust slice is shorter than 2^64 bytes
  (\<open>lp_ok\<close>).
\<close>

definition push_lp :: "byte list \<Rightarrow> byte list" where
  "push_lp bs = u64_be (word_of_nat (length bs)) @ bs"

definition lp_ok :: "byte list \<Rightarrow> bool" where
  "lp_ok bs = (length bs < 2 ^ 64)"

lemma length_push_lp [simp, codec_simps]: "length (push_lp bs) = 8 + length bs"
  by (simp add: push_lp_def)

lemma unat_length_lp: "lp_ok bs \<Longrightarrow> unat (word_of_nat (length bs) :: u64) = length bs"
  by (simp add: lp_ok_def unat_of_nat)

lemma lp_okI: "length bs < 2 ^ 64 \<Longrightarrow> lp_ok bs"
  by (simp add: lp_ok_def)

text \<open>
  \<open>LEN_PREFIX\<close> and \<open>unpad\<close>: the body of a plaintext padded to a fixed size carries its length
  as a little-endian \<open>u32\<close>; a length that runs past the buffer is \<open>None\<close>.
\<close>

definition LEN_PREFIX :: nat where "LEN_PREFIX = 4"

definition unpad :: "byte list \<Rightarrow> byte list option" where
  "unpad padded =
    (if length padded < LEN_PREFIX then None
     else let len = unat (u32_of_le (take LEN_PREFIX padded));
              end = LEN_PREFIX + len
          in if end \<le> length padded then Some (take len (drop LEN_PREFIX padded)) else None)"

lemma unpad_framed:
  assumes "length body < 2 ^ 32"
  shows "unpad (u32_le (word_of_nat (length body)) @ body @ pad) = Some body"
  using assms by (simp add: unpad_def LEN_PREFIX_def Let_def unat_of_nat)

end
