(* ===== verification/Oxi.thy ===== *)
theory Oxi
  imports Bytes
begin

text \<open>
  The cryptographic module as the source reaches it (\<^verbatim>\<open>oxi.rs\<close>), the signature calls of
  \<^verbatim>\<open>identity/keys.rs\<close> and the one AEAD envelope of \<^verbatim>\<open>aead_envelope.rs\<close>.

  The library behind it (the \<open>oxicrypt\<close> binding) is not part of the repository. It is the record
  \<open>oxi\<close>, a parameter of every definition that uses it: one field per service of the library's
  \<open>Module\<close>, and \<open>operational\<close> for the process-wide token that \<open>initialize_module\<close> sets. Lengths
  are the ones FIPS 203 and FIPS 204 give for ML-KEM-1024 and ML-DSA-87. What the source relies on
  is stated as predicates on the record (\<open>gcm_law\<close>, \<open>kem_law\<close>), which the properties take as
  hypotheses. Zeroization of buffers has no counterpart in the model: values here have no address.
\<close>

section \<open>The library\<close>

text \<open>
  The variants of \<open>oxicrypt::Error\<close> that the source names; every other one is \<open>OtherError\<close>.
\<close>

datatype oxi_error =
    NotOperational
  | InvalidIvLength
  | InvalidInput
  | TagMismatch
  | SignatureInvalid
  | OtherError nat

record oxi =
  operational :: bool
  lib_sha384 :: "byte list \<Rightarrow> oxi_error + byte list"
  lib_hkdf_extract :: "byte list option \<Rightarrow> byte list \<Rightarrow> oxi_error + byte list"
  lib_hkdf_expand :: "byte list \<Rightarrow> byte list \<Rightarrow> nat \<Rightarrow> oxi_error + byte list"
  lib_aes256_key :: "byte list \<Rightarrow> oxi_error + byte list"
  lib_gcm_encrypt :: "byte list \<Rightarrow> byte list \<Rightarrow> byte list \<Rightarrow> byte list \<Rightarrow> oxi_error + (byte list \<times> byte list)"
  lib_gcm_decrypt :: "byte list \<Rightarrow> byte list \<Rightarrow> byte list \<Rightarrow> byte list \<Rightarrow> byte list \<Rightarrow> oxi_error + byte list"
  lib_dsa_sign :: "byte list \<Rightarrow> byte list \<Rightarrow> byte list \<Rightarrow> oxi_error + byte list"
  lib_dsa_verify :: "byte list \<Rightarrow> byte list \<Rightarrow> byte list \<Rightarrow> byte list \<Rightarrow> oxi_error + unit"
  lib_kem_keygen :: "byte list \<Rightarrow> byte list \<Rightarrow> oxi_error + (byte list \<times> byte list)"
  lib_kem_encapsulate :: "byte list \<Rightarrow> byte list \<Rightarrow> oxi_error + (byte list \<times> byte list)"
  lib_kem_decapsulate :: "byte list \<Rightarrow> byte list \<Rightarrow> oxi_error + byte list"

definition DSA_PK_LEN :: nat where "DSA_PK_LEN = 2592"
definition DSA_SIG_LEN :: nat where "DSA_SIG_LEN = 4627"
definition KEM_EK_LEN :: nat where "KEM_EK_LEN = 1568"
definition KEM_CT_LEN :: nat where "KEM_CT_LEN = 1568"
definition KEM_SEED_LEN :: nat where "KEM_SEED_LEN = 32"
definition KEM_SS_LEN :: nat where "KEM_SS_LEN = 32"

lemmas crypto_lens = DSA_PK_LEN_def DSA_SIG_LEN_def KEM_EK_LEN_def KEM_CT_LEN_def
  KEM_SEED_LEN_def KEM_SS_LEN_def

section \<open>\<open>oxi.rs\<close>: nothing runs before the module is up\<close>

definition oxi_module :: "oxi \<Rightarrow> oxi_error + oxi" where
  "oxi_module ox = (if operational ox then Inr ox else Inl NotOperational)"

definition sha384 :: "oxi \<Rightarrow> byte list \<Rightarrow> oxi_error + byte list" where
  "sha384 ox d = rbind (oxi_module ox) (\<lambda>m. lib_sha384 m d)"

definition hkdf_extract :: "oxi \<Rightarrow> byte list option \<Rightarrow> byte list \<Rightarrow> oxi_error + byte list" where
  "hkdf_extract ox salt ikm = rbind (oxi_module ox) (\<lambda>m. lib_hkdf_extract m salt ikm)"

definition hkdf_expand :: "oxi \<Rightarrow> byte list \<Rightarrow> byte list \<Rightarrow> nat \<Rightarrow> oxi_error + byte list" where
  "hkdf_expand ox prk info len = rbind (oxi_module ox)
     (\<lambda>m. if len = 0 then Inr [] else lib_hkdf_expand m prk info len)"

definition aes256_key :: "oxi \<Rightarrow> byte list \<Rightarrow> oxi_error + byte list" where
  "aes256_key ox k = rbind (oxi_module ox) (\<lambda>m. lib_aes256_key m k)"

definition gcm_nonce :: "byte list \<Rightarrow> oxi_error + byte list" where
  "gcm_nonce iv = (if length iv = 12 then Inr iv else Inl InvalidIvLength)"

definition gcm_encrypt ::
  "oxi \<Rightarrow> byte list \<Rightarrow> byte list \<Rightarrow> byte list \<Rightarrow> byte list \<Rightarrow> oxi_error + (byte list \<times> byte list)" where
  "gcm_encrypt ox key iv aad pt =
     rbind (gcm_nonce iv) (\<lambda>n. rbind (oxi_module ox) (\<lambda>m. lib_gcm_encrypt m key n aad pt))"

definition gcm_decrypt ::
  "oxi \<Rightarrow> byte list \<Rightarrow> byte list \<Rightarrow> byte list \<Rightarrow> byte list \<Rightarrow> byte list \<Rightarrow> oxi_error + byte list" where
  "gcm_decrypt ox key iv aad ct tag =
     rbind (gcm_nonce iv) (\<lambda>n. rbind (oxi_module ox) (\<lambda>m. lib_gcm_decrypt m key n aad ct tag))"

definition ml_dsa_sign :: "oxi \<Rightarrow> byte list \<Rightarrow> byte list \<Rightarrow> byte list \<Rightarrow> oxi_error + byte list" where
  "ml_dsa_sign ox sk msg ctx = rbind (oxi_module ox) (\<lambda>m. lib_dsa_sign m sk msg ctx)"

definition ml_dsa_verify ::
  "oxi \<Rightarrow> byte list \<Rightarrow> byte list \<Rightarrow> byte list \<Rightarrow> byte list \<Rightarrow> oxi_error + unit" where
  "ml_dsa_verify ox pk msg ctx sig = rbind (oxi_module ox) (\<lambda>m. lib_dsa_verify m pk msg ctx sig)"

definition ml_kem_keygen :: "oxi \<Rightarrow> byte list \<Rightarrow> byte list \<Rightarrow> oxi_error + (byte list \<times> byte list)" where
  "ml_kem_keygen ox d z = rbind (oxi_module ox) (\<lambda>m. lib_kem_keygen m d z)"

definition ml_kem_encapsulate :: "oxi \<Rightarrow> byte list \<Rightarrow> byte list \<Rightarrow> oxi_error + (byte list \<times> byte list)" where
  "ml_kem_encapsulate ox ek m = rbind (oxi_module ox) (\<lambda>md. lib_kem_encapsulate md ek m)"

definition ml_kem_decapsulate :: "oxi \<Rightarrow> byte list \<Rightarrow> byte list \<Rightarrow> oxi_error + byte list" where
  "ml_kem_decapsulate ox dk ct = rbind (oxi_module ox) (\<lambda>m. lib_kem_decapsulate m dk ct)"

lemmas oxi_defs = oxi_module_def sha384_def hkdf_extract_def hkdf_expand_def aes256_key_def
  gcm_encrypt_def gcm_decrypt_def ml_dsa_sign_def ml_dsa_verify_def ml_kem_keygen_def
  ml_kem_encapsulate_def ml_kem_decapsulate_def

section \<open>What the source relies on\<close>

text \<open>
  Documented behaviour of the library: AES-256-GCM decryption under the same key, nonce and
  associated data recovers the plaintext, ciphertext and plaintext have one length and the tag
  is 16 bytes; ML-KEM decapsulation with the key of a generated pair recovers the secret that
  encapsulation to the pair's public half gave, and the outputs have the standard's lengths.
\<close>

definition gcm_law :: "oxi \<Rightarrow> bool" where
  "gcm_law ox = (\<forall>k n aad pt ct tag. gcm_encrypt ox k n aad pt = Inr (ct, tag) \<longrightarrow>
     length ct = length pt \<and> length tag = 16 \<and> gcm_decrypt ox k n aad ct tag = Inr pt)"

definition kem_law :: "oxi \<Rightarrow> bool" where
  "kem_law ox = (\<forall>d z ek dk. ml_kem_keygen ox d z = Inr (ek, dk) \<longrightarrow>
     length ek = KEM_EK_LEN \<and>
     (\<forall>m ss ct. ml_kem_encapsulate ox ek m = Inr (ss, ct) \<longrightarrow>
        length ct = KEM_CT_LEN \<and> ml_kem_decapsulate ox dk ct = Inr ss))"

lemma gcm_lawD:
  assumes "gcm_law ox" and "gcm_encrypt ox k n aad pt = Inr (ct, tag)"
  shows "length ct = length pt" and "length tag = 16" and "gcm_decrypt ox k n aad ct tag = Inr pt"
  using assms by (auto simp: gcm_law_def)

lemma kem_law_keygen:
  "kem_law ox \<Longrightarrow> ml_kem_keygen ox d z = Inr (ek, dk) \<Longrightarrow> length ek = KEM_EK_LEN"
  by (simp add: kem_law_def)

lemma kem_law_decapsulate:
  assumes "kem_law ox" and "ml_kem_keygen ox d z = Inr (ek, dk)"
    and "ml_kem_encapsulate ox ek m = Inr (ss, ct)"
  shows "length ct = KEM_CT_LEN" and "ml_kem_decapsulate ox dk ct = Inr ss"
  using assms unfolding kem_law_def by blast+

section \<open>Signatures (\<open>identity/keys.rs\<close>)\<close>

datatype signature_error = SigModule oxi_error | BadSignature

record sign_keypair =
  sk_public_key :: "byte list"
  sk_secret_key :: "byte list"

definition keypair_sign :: "oxi \<Rightarrow> sign_keypair \<Rightarrow> byte list \<Rightarrow> signature_error + byte list" where
  "keypair_sign ox kp msg = map_err SigModule (ml_dsa_sign ox (sk_secret_key kp) msg [])"

definition verify_signature ::
  "oxi \<Rightarrow> byte list \<Rightarrow> byte list \<Rightarrow> byte list \<Rightarrow> signature_error + unit" where
  "verify_signature ox pk msg sig =
     (case ml_dsa_verify ox pk msg [] sig of Inr _ \<Rightarrow> Inr () | Inl _ \<Rightarrow> Inl BadSignature)"

text \<open>Signing under a key pair verifies under its public half.\<close>

definition dsa_law :: "oxi \<Rightarrow> sign_keypair \<Rightarrow> bool" where
  "dsa_law ox kp = (length (sk_public_key kp) = DSA_PK_LEN \<and>
     (\<forall>msg sig. ml_dsa_sign ox (sk_secret_key kp) msg [] = Inr sig \<longrightarrow>
        length sig = DSA_SIG_LEN \<and> ml_dsa_verify ox (sk_public_key kp) msg [] sig = Inr ()))"

lemma verify_signature_sign:
  assumes "dsa_law ox kp" and "keypair_sign ox kp msg = Inr sig"
  shows "verify_signature ox (sk_public_key kp) msg sig = Inr () \<and> length sig = DSA_SIG_LEN"
  using assms
  by (auto simp: dsa_law_def keypair_sign_def verify_signature_def map_err_Inr_iff)

section \<open>The AEAD envelope (\<open>aead_envelope.rs\<close>)\<close>

text \<open>
  \<open>nonce \<parallel> ciphertext \<parallel> tag\<close>. The nonce is drawn from the operating system: \<open>draw\<close> is what
  \<open>getrandom::fill\<close> wrote, \<open>None\<close> where it failed.
\<close>

definition NONCE_LEN :: nat where "NONCE_LEN = 12"
definition TAG_LEN :: nat where "TAG_LEN = 16"

datatype envelope_error = EntropySource | Encrypt oxi_error | TooShort | Decrypt oxi_error

definition seal_envelope ::
  "oxi \<Rightarrow> byte list option \<Rightarrow> byte list \<Rightarrow> byte list \<Rightarrow> byte list \<Rightarrow> envelope_error + byte list" where
  "seal_envelope ox draw key aad plaintext =
    rbind (ok_or EntropySource draw) (\<lambda>nonce.
    rbind (map_err Encrypt (gcm_encrypt ox key nonce aad plaintext)) (\<lambda>(ct, tag).
    Inr (nonce @ ct @ tag)))"

definition open_envelope ::
  "oxi \<Rightarrow> byte list \<Rightarrow> byte list \<Rightarrow> byte list \<Rightarrow> envelope_error + byte list" where
  "open_envelope ox key aad sealed =
    (if length sealed < NONCE_LEN + TAG_LEN then Inl TooShort
     else let nonce = take NONCE_LEN sealed;
              after_nonce = drop NONCE_LEN sealed;
              ciphertext_len = length after_nonce - TAG_LEN;
              ciphertext = take ciphertext_len after_nonce;
              tag = drop ciphertext_len after_nonce
          in map_err Decrypt (gcm_decrypt ox key nonce aad ciphertext tag))"

lemma seal_envelope_InrE:
  assumes "seal_envelope ox draw key aad pt = Inr sealed"
  obtains nonce ct tag where "draw = Some nonce" "length nonce = NONCE_LEN"
    "gcm_encrypt ox key nonce aad pt = Inr (ct, tag)" "sealed = nonce @ ct @ tag"
proof -
  from assms obtain nonce ct tag where a: "draw = Some nonce"
    "gcm_encrypt ox key nonce aad pt = Inr (ct, tag)" "sealed = nonce @ ct @ tag"
    by (auto simp: seal_envelope_def result_simps)
  then have "length nonce = NONCE_LEN"
    by (simp add: gcm_encrypt_def gcm_nonce_def NONCE_LEN_def split: if_splits)
  with a that show thesis by blast
qed

lemma open_seal_envelope:
  assumes law: "gcm_law ox" and sealed: "seal_envelope ox draw key aad pt = Inr sealed"
  shows "open_envelope ox key aad sealed = Inr pt"
proof -
  from sealed obtain nonce ct tag where n: "length nonce = NONCE_LEN"
    and e: "gcm_encrypt ox key nonce aad pt = Inr (ct, tag)" and s: "sealed = nonce @ ct @ tag"
    by (rule seal_envelope_InrE)
  from gcm_lawD [OF law e] show ?thesis
    by (simp add: open_envelope_def s n TAG_LEN_def)
qed

lemma length_seal_envelope:
  assumes "gcm_law ox" and "seal_envelope ox draw key aad pt = Inr sealed"
  shows "length sealed = NONCE_LEN + length pt + TAG_LEN"
  using assms(2)
proof (rule seal_envelope_InrE)
  fix nonce ct tag
  assume "length nonce = NONCE_LEN" "gcm_encrypt ox key nonce aad pt = Inr (ct, tag)"
    "sealed = nonce @ ct @ tag"
  with gcm_lawD [OF assms(1)] show ?thesis by (simp add: TAG_LEN_def)
qed

section \<open>Interface: an authenticated box\<close>

text \<open>
  What every sealed record relies on: opening under the key and associated data of the seal gives
  the plaintext back, and the sealed length is a function of the plaintext's length alone.
\<close>

locale sealed_box =
  fixes law :: "'ox \<Rightarrow> bool"
    and seal :: "'ox \<Rightarrow> 'n \<Rightarrow> 'k \<Rightarrow> byte list \<Rightarrow> byte list \<Rightarrow> 'e + byte list"
    and unseal :: "'ox \<Rightarrow> 'k \<Rightarrow> byte list \<Rightarrow> byte list \<Rightarrow> 'f + byte list"
    and overhead :: nat
  assumes unseal_seal: "law ox \<Longrightarrow> seal ox n k aad pt = Inr s \<Longrightarrow> unseal ox k aad s = Inr pt"
    and seal_length: "law ox \<Longrightarrow> seal ox n k aad pt = Inr s \<Longrightarrow> length s = length pt + overhead"
begin

lemma unseal_then:
  "law ox \<Longrightarrow> seal ox n k aad pt = Inr s \<Longrightarrow> rbind (map_err h (unseal ox k aad s)) f = f pt"
  by (simp add: unseal_seal)

lemma seal_determines_plaintext:
  assumes "law ox" "seal ox n k aad pt = Inr s" "seal ox n' k aad pt' = Inr s"
  shows "pt = pt'"
  using unseal_seal [OF assms(1,2)] unseal_seal [OF assms(1,3)] by simp

lemma same_length_same_size:
  assumes "law ox" "seal ox n k aad pt = Inr s" "seal ox n' k' aad' pt' = Inr s'"
    and "length pt = length pt'"
  shows "length s = length s'"
  using assms by (simp add: seal_length)

end

interpretation envelope: sealed_box gcm_law seal_envelope open_envelope "NONCE_LEN + TAG_LEN"
  by unfold_locales (simp_all add: open_seal_envelope length_seal_envelope)

section \<open>A library that satisfies the laws\<close>

text \<open>
  A small computable instance, for evaluating the definitions on concrete inputs: the ciphertext is
  the plaintext, the tag counts the key's and the associated data's bytes, an encapsulation carries
  the secret, a signature repeats the message's length.
\<close>

definition demo_oxi :: oxi where
  "demo_oxi = \<lparr>operational = True,
     lib_sha384 = (\<lambda>d. Inr (replicate 48 (word_of_nat (length d)))),
     lib_hkdf_extract = (\<lambda>salt ikm. Inr (take 48 ikm)),
     lib_hkdf_expand = (\<lambda>prk info n. Inr (replicate n (word_of_nat (length info)))),
     lib_aes256_key = (\<lambda>k. Inr k),
     lib_gcm_encrypt = (\<lambda>k n aad pt. Inr (pt, replicate 16 (word_of_nat (length k + length aad)))),
     lib_gcm_decrypt = (\<lambda>k n aad ct tag.
       if tag = replicate 16 (word_of_nat (length k + length aad)) then Inr ct else Inl TagMismatch),
     lib_dsa_sign = (\<lambda>sk msg ctx. Inr (replicate DSA_SIG_LEN (word_of_nat (length msg)))),
     lib_dsa_verify = (\<lambda>pk msg ctx sig.
       if sig = replicate DSA_SIG_LEN (word_of_nat (length msg)) then Inr () else Inl SignatureInvalid),
     lib_kem_keygen = (\<lambda>d z. Inr (replicate KEM_EK_LEN 7, z)),
     lib_kem_encapsulate = (\<lambda>ek m. if length m = KEM_SS_LEN
       then Inr (m, m @ replicate (KEM_CT_LEN - KEM_SS_LEN) 0) else Inl InvalidInput),
     lib_kem_decapsulate = (\<lambda>dk ct. Inr (take KEM_SS_LEN ct))\<rparr>"

lemma demo_gcm_law: "gcm_law demo_oxi"
  by (auto simp: gcm_law_def gcm_encrypt_def gcm_decrypt_def gcm_nonce_def oxi_module_def demo_oxi_def
      split: if_splits)

lemma demo_kem_law: "kem_law demo_oxi"
  by (auto simp: kem_law_def ml_kem_keygen_def ml_kem_encapsulate_def ml_kem_decapsulate_def
      oxi_module_def demo_oxi_def crypto_lens split: if_splits)

lemma demo_dsa_law: "length (sk_public_key kp) = DSA_PK_LEN \<Longrightarrow> dsa_law demo_oxi kp"
  by (auto simp: dsa_law_def ml_dsa_sign_def ml_dsa_verify_def oxi_module_def demo_oxi_def)

end
