(* ===== verification/Channel_Ring.thy ===== *)
theory Channel_Ring
  imports Bytes
begin

text \<open>
  The message ring of a channel (\<^verbatim>\<open>dm/channel.rs\<close>): 63 slots above the control subkey, the
  send side's counters, and the rule that an uncollected slot is never overwritten.
\<close>

type_synonym u16 = "16 word"

definition CHANNEL_SUBKEYS :: nat where "CHANNEL_SUBKEYS = 64"
definition CONTROL_SUBKEY :: u16 where "CONTROL_SUBKEY = 0"
definition RING_SLOTS :: u64 where "RING_SLOTS = 63"

text \<open>Every way a channel operation fails; \<open>'s\<close> is a signing failure, \<open>'x\<close> a module failure.\<close>

datatype ('s, 'x) channel_error =
    ChKdf 'x
  | ChLength nat nat
  | Malformed
  | TurnFieldsIncomplete
  | FieldLength nat nat
  | CorruptState u64 u64
  | RingFull u64 u64
  | Recipient
  | LookupKey
  | Signature
  | AdvertSerial u64 u64
  | ChAead
  | MessagePlaintext
  | Signing 's
  | ChModule 'x

definition slot_for :: "u64 \<Rightarrow> u16" where
  "slot_for seq = 1 + ucast (seq mod RING_SLOTS)"

definition collected :: "u64 \<Rightarrow> u64 \<Rightarrow> bool" where
  "collected seq peer_cursor = (seq < peer_cursor)"

record ring =
  send_seq :: u64
  peer_collected :: u64

definition ring_new :: ring where
  "ring_new = \<lparr>send_seq = 0, peer_collected = 0\<rparr>"

definition ring_restore :: "u64 \<Rightarrow> u64 \<Rightarrow> ('s, 'x) channel_error + ring" where
  "ring_restore s c = (if c > s then Inl (CorruptState s c) else Inr \<lparr>send_seq = s, peer_collected = c\<rparr>)"

definition uncollected :: "ring \<Rightarrow> u64" where
  "uncollected r = sat_sub (send_seq r) (peer_collected r)"

definition ring_reserve :: "ring \<Rightarrow> (('s, 'x) channel_error + u64) \<times> ring" where
  "ring_reserve r =
    (if uncollected r \<ge> RING_SLOTS
     then (Inl (RingFull (send_seq r) (peer_collected r)), r)
     else (Inr (send_seq r), r\<lparr>send_seq := sat_add (send_seq r) 1\<rparr>))"

definition advance_peer_collected :: "ring \<Rightarrow> u64 \<Rightarrow> ring" where
  "advance_peer_collected r cursor =
    (let bounded = min cursor (send_seq r)
     in if bounded > peer_collected r then r\<lparr>peer_collected := bounded\<rparr> else r)"

section \<open>Slots\<close>

lemma unat_slot_for: "unat (slot_for s) = 1 + unat s mod 63"
proof -
  have m: "unat (s mod RING_SLOTS) = unat s mod 63"
    by (simp add: RING_SLOTS_def unat_mod_distrib)
  have "unat s mod 63 < 63" by simp
  then have "unat (ucast (s mod RING_SLOTS) :: u16) = unat s mod 63"
    by (simp add: m unsigned_ucast_eq take_bit_nat_eq_self_iff)
  then show ?thesis
    by (simp add: slot_for_def unat_word_ariths)
qed

lemma slot_for_bounds: "1 \<le> unat (slot_for s) \<and> unat (slot_for s) < CHANNEL_SUBKEYS"
  by (simp add: unat_slot_for CHANNEL_SUBKEYS_def Suc_le_eq less_Suc_eq_le)

lemma slot_for_not_control: "slot_for s \<noteq> CONTROL_SUBKEY"
  using slot_for_bounds [of s] by (auto simp: CONTROL_SUBKEY_def)

text \<open>Within a window of 63 sequences no two share a slot.\<close>

lemma slot_for_inj_window:
  assumes "slot_for s = slot_for t" and "unat s \<le> unat t" and "unat t < unat s + 63"
  shows "s = t"
proof -
  from assms(1) have "unat s mod 63 = unat t mod 63"
    using unat_slot_for [of s] unat_slot_for [of t] by simp
  then have "(unat t - unat s) mod 63 = 0"
    using assms(2) by (simp add: mod_eq_dvd_iff_nat [symmetric])
  moreover have "unat t - unat s < 63" using assms(2,3) by linarith
  ultimately have "unat t = unat s" using assms(2) by simp
  then show ?thesis by (simp add: word_unat_eq_iff)
qed

section \<open>The counters\<close>

definition ring_ok :: "ring \<Rightarrow> bool" where
  "ring_ok r = (peer_collected r \<le> send_seq r \<and>
     unat (send_seq r) - unat (peer_collected r) \<le> 63)"

lemma unat_uncollected: "unat (uncollected r) = unat (send_seq r) - unat (peer_collected r)"
  by (simp add: uncollected_def unat_sat_sub)

lemma full_iff: "RING_SLOTS \<le> uncollected r \<longleftrightarrow> 63 \<le> unat (send_seq r) - unat (peer_collected r)"
  by (simp add: word_le_nat_alt unat_uncollected RING_SLOTS_def)

lemma sat_Suc_bounds:
  "unat w \<le> unat (sat_add w 1)" "unat (sat_add w 1) \<le> Suc (unat w)" for w :: "'l::len word"
proof -
  have "unat w \<le> 2 ^ LENGTH('l) - 1" using unat_less_exp [of w] by linarith
  then show "unat w \<le> unat (sat_add w 1)" "unat (sat_add w 1) \<le> Suc (unat w)"
    by (auto simp: unat_sat_add min_def)
qed

lemma ring_new_ok [simp]: "ring_ok ring_new"
  by (simp add: ring_ok_def ring_new_def)

lemma ring_reserve_ok:
  assumes "ring_ok r"
  shows "ring_ok (snd (ring_reserve r))"
proof (cases "RING_SLOTS \<le> uncollected r")
  case True
  with assms show ?thesis by (simp add: ring_reserve_def)
next
  case False
  then have "unat (send_seq r) - unat (peer_collected r) < 63" by (simp add: full_iff)
  with assms sat_Suc_bounds [of "send_seq r"] False show ?thesis
    by (simp add: ring_reserve_def ring_ok_def word_le_nat_alt)
qed

lemma advance_ok: "ring_ok r \<Longrightarrow> ring_ok (advance_peer_collected r c)"
  by (auto simp: ring_ok_def advance_peer_collected_def Let_def word_le_nat_alt word_less_nat_alt
      min_def split: if_splits)

section \<open>What the slots hold\<close>

text \<open>
  The ring next to the record it addresses: a successful \<open>reserve\<close> is followed by the write of
  that sequence into its slot, and the peer's cursor arrives at any time with any value.
\<close>

datatype ring_event = Reserve | Advance u64

record ring_world =
  rw_ring :: ring
  rw_slots :: "u16 \<rightharpoonup> u64"

definition ring_world_new :: ring_world where
  "ring_world_new = \<lparr>rw_ring = ring_new, rw_slots = Map.empty\<rparr>"

fun ring_world_step :: "ring_event \<Rightarrow> ring_world \<Rightarrow> ring_world" where
  "ring_world_step Reserve w =
    (case ring_reserve (rw_ring w) :: ((unit, unit) channel_error + u64) \<times> ring of
       (Inl e, r) \<Rightarrow> w\<lparr>rw_ring := r\<rparr>
     | (Inr s, r) \<Rightarrow> w\<lparr>rw_ring := r, rw_slots := (rw_slots w)(slot_for s \<mapsto> s)\<rparr>)"
| "ring_world_step (Advance c) w = w\<lparr>rw_ring := advance_peer_collected (rw_ring w) c\<rparr>"

definition slots_hold :: "ring_world \<Rightarrow> bool" where
  "slots_hold w = (ring_ok (rw_ring w) \<and>
     (\<forall>s. peer_collected (rw_ring w) \<le> s \<longrightarrow> s < send_seq (rw_ring w) \<longrightarrow>
        rw_slots w (slot_for s) = Some s))"

lemma reserve_keeps_slots:
  assumes "slots_hold w"
  shows "slots_hold (ring_world_step Reserve w)"
proof (cases "RING_SLOTS \<le> uncollected (rw_ring w)")
  case True
  with assms show ?thesis by (simp add: ring_reserve_def slots_hold_def)
next
  case False
  let ?r = "rw_ring w" and ?t = "send_seq (rw_ring w)"
  let ?r' = "?r\<lparr>send_seq := sat_add ?t 1\<rparr>"
  have ok: "ring_ok ?r'" using assms ring_reserve_ok [of ?r] False
    by (simp add: slots_hold_def ring_reserve_def)
  have lt: "unat ?t < unat (peer_collected ?r) + 63"
    using False by (simp add: full_iff)
  have "((rw_slots w)(slot_for ?t \<mapsto> ?t)) (slot_for s) = Some s"
    if s: "peer_collected ?r \<le> s" "s < sat_add ?t 1" for s
  proof (cases "s = ?t")
    case False
    have le: "unat s \<le> unat ?t"
      using s(2) sat_Suc_bounds(2) [of ?t] by (simp add: word_less_nat_alt)
    have "slot_for s \<noteq> slot_for ?t"
    proof
      assume "slot_for s = slot_for ?t"
      moreover have "unat ?t < unat s + 63" using lt s(1) by (simp add: word_le_nat_alt)
      ultimately show False using slot_for_inj_window [OF _ le] False by blast
    qed
    moreover have "s < ?t" using le False by (simp add: word_less_nat_alt word_unat_eq_iff)
    then have "rw_slots w (slot_for s) = Some s" using assms s(1) by (simp add: slots_hold_def)
    ultimately show ?thesis by simp
  qed simp
  with ok False show ?thesis
    by (simp add: ring_reserve_def slots_hold_def)
qed

lemma advance_keeps_slots: "slots_hold w \<Longrightarrow> slots_hold (ring_world_step (Advance c) w)"
  using advance_ok [of "rw_ring w" c]
  by (auto simp: slots_hold_def advance_peer_collected_def Let_def min_le_iff_disj)

interpretation ring_run: machine "\<lambda>w. w = ring_world_new" ring_world_step slots_hold
proof unfold_locales
  fix w :: ring_world assume "w = ring_world_new"
  then show "slots_hold w"
    by (simp add: slots_hold_def ring_world_new_def) (simp add: ring_new_def)
next
  fix w e assume "slots_hold w"
  then show "slots_hold (ring_world_step e w)"
    by (cases e) (simp_all only: reserve_keeps_slots advance_keeps_slots)
qed

section \<open>Properties\<close>

text \<open>
  C19. Whatever the order of sends and of collection cursors heard from the peer, and whatever those
  cursors claim, the counters never hold more than 63 uncollected sequences and every uncollected
  sequence is still in its slot: no message is overwritten before the peer has collected it.
\<close>

theorem ring_never_overwrites:
  "let w = fold ring_world_step es ring_world_new in
     ring_ok (rw_ring w) \<and>
     (\<forall>s. peer_collected (rw_ring w) \<le> s \<and> s < send_seq (rw_ring w) \<longrightarrow> rw_slots w (slot_for s) = Some s)"
  using ring_run.inv_run [OF refl, of es] by (simp add: slots_hold_def)

theorem ring_never_overwrites_witness:
  "let w = fold ring_world_step [Reserve, Reserve, Advance 1, Reserve] ring_world_new in
     rw_slots w (slot_for 2) = Some 2 \<and> send_seq (rw_ring w) = 3 \<and> peer_collected (rw_ring w) = 1"
proof -
  let ?w = "fold ring_world_step [Reserve, Reserve, Advance 1, Reserve] ring_world_new"
  have s: "send_seq (rw_ring ?w) = 3 \<and> peer_collected (rw_ring ?w) = 1"
    by (simp add: ring_world_new_def ring_new_def ring_reserve_def uncollected_def sat_sub_def
        sat_add_def RING_SLOTS_def advance_peer_collected_def word_le_nat_alt)
  with ring_never_overwrites [of "[Reserve, Reserve, Advance 1, Reserve]"] show ?thesis
    by (simp add: Let_def del: fold_simps)
qed

text \<open>
  \<open>reserve\<close> is refused exactly when all 63 message slots hold an uncollected message, and then
  the counters stay; otherwise it hands out the next sequence, whose slot is a message subkey, never
  the control subkey. A restored ring never has a cursor past its send counter.
\<close>

theorem ring_reserve_behaviour:
  "(fst (ring_reserve r) = Inl (RingFull (send_seq r) (peer_collected r) :: ('s, 'x) channel_error) \<and>
      snd (ring_reserve r) = r
    \<longleftrightarrow> 63 \<le> unat (send_seq r) - unat (peer_collected r)) \<and>
   (fst (ring_reserve r) = (Inr q :: ('s, 'x) channel_error + u64) \<longleftrightarrow>
      q = send_seq r \<and> unat (send_seq r) - unat (peer_collected r) < 63) \<and>
   slot_for q \<noteq> CONTROL_SUBKEY \<and> unat (slot_for q) < CHANNEL_SUBKEYS \<and>
   (ring_restore a b = (Inr r' :: ('s, 'x) channel_error + ring) \<longleftrightarrow>
      b \<le> a \<and> r' = \<lparr>send_seq = a, peer_collected = b\<rparr>)"
  using slot_for_bounds [of q] slot_for_not_control [of q]
  by (auto simp: ring_reserve_def full_iff ring_restore_def)

end
