(* ===== verification/Channel_Wire.thy ===== *)
theory Channel_Wire
  imports Channel_Ring Oxi
begin

text \<open>
  The byte formats of a channel (\<^verbatim>\<open>dm/channel.rs\<close>): the reader that runs out rather than
  panicking, the clear message header, the message plaintext and the associated data.
\<close>

type_synonym ch_error = "(signature_error, oxi_error) channel_error"

section \<open>Domain labels (\<open>dm/domain.rs\<close>)\<close>

definition ascii :: "string \<Rightarrow> byte list" where "ascii s = map of_char s"

definition DM_CHANNEL_SALT :: "byte list" where
  "DM_CHANNEL_SALT = ascii ''daemonseed/dm/channel/salt/v1''"
definition DM_CHANNEL_OWNER :: "byte list" where
  "DM_CHANNEL_OWNER = ascii ''daemonseed/dm/channel/owner/v1''"
definition DM_CHANNEL_CONTROL_SALT :: "byte list" where
  "DM_CHANNEL_CONTROL_SALT = ascii ''daemonseed/dm/channel/control-salt/v1''"
definition DM_CHANNEL_CONTROL :: "byte list" where
  "DM_CHANNEL_CONTROL = ascii ''daemonseed/dm/channel/control/v1''"
definition DM_CHANNEL_CONTROL_AAD :: "byte list" where
  "DM_CHANNEL_CONTROL_AAD = ascii ''daemonseed/dm/channel/control-aad/v1''"
definition DM_CHANNEL_MSG_AAD :: "byte list" where
  "DM_CHANNEL_MSG_AAD = ascii ''daemonseed/dm/channel/msg-aad/v1''"
definition DM_CHANNEL_OPENING_SIG :: "byte list" where
  "DM_CHANNEL_OPENING_SIG = ascii ''daemonseed/dm/channel/opening-sig/v1''"
definition DM_CHANNEL_ROOT_SALT :: "byte list" where
  "DM_CHANNEL_ROOT_SALT = ascii ''daemonseed/dm/channel/root-salt/v1''"
definition DM_CHANNEL_ROOT :: "byte list" where
  "DM_CHANNEL_ROOT = ascii ''daemonseed/dm/channel/root/v1''"
definition DM_CHANNEL_CHAIN_SALT :: "byte list" where
  "DM_CHANNEL_CHAIN_SALT = ascii ''daemonseed/dm/channel/chain-salt/v1''"
definition DM_CHANNEL_CHAIN :: "byte list" where
  "DM_CHANNEL_CHAIN = ascii ''daemonseed/dm/channel/chain/v1''"
definition DM_CHANNEL_STEP_SALT :: "byte list" where
  "DM_CHANNEL_STEP_SALT = ascii ''daemonseed/dm/channel/step-salt/v1''"
definition DM_CHANNEL_MK :: "byte list" where
  "DM_CHANNEL_MK = ascii ''daemonseed/dm/channel/mk/v1''"
definition DM_CHANNEL_CK :: "byte list" where
  "DM_CHANNEL_CK = ascii ''daemonseed/dm/channel/ck/v1''"

section \<open>The reader\<close>

definition rd_take :: "nat \<Rightarrow> byte list \<Rightarrow> ch_error + (byte list \<times> byte list)" where
  "rd_take n bs = (if length bs < n then Inl Malformed else Inr (take n bs, drop n bs))"

definition rd_u64 :: "byte list \<Rightarrow> ch_error + (u64 \<times> byte list)" where
  "rd_u64 bs = rbind (rd_take 8 bs) (\<lambda>(h, t). Inr (u64_of_be h, t))"

definition rd_u32 :: "byte list \<Rightarrow> ch_error + (u32 \<times> byte list)" where
  "rd_u32 bs = rbind (rd_take 4 bs) (\<lambda>(h, t). Inr (u32_of_be h, t))"

definition rd_lp :: "byte list \<Rightarrow> ch_error + (byte list \<times> byte list)" where
  "rd_lp bs = rbind (rd_u64 bs) (\<lambda>(len, t). rd_take (unat len) t)"

definition optional_field :: "nat \<Rightarrow> byte list \<Rightarrow> ch_error + byte list option" where
  "optional_field n field =
    (if field = [] then Inr None
     else if length field = n then Inr (Some field)
     else Inl (FieldLength n (length field)))"

lemma rd_take_iff [result_simps]:
  "rd_take n bs = Inr (h, t) \<longleftrightarrow> length h = n \<and> bs = h @ t"
  by (auto simp: rd_take_def)

lemma rd_u64_iff [result_simps]: "rd_u64 bs = Inr (w, t) \<longleftrightarrow> bs = u64_be w @ t"
  by (force simp: rd_u64_def result_simps codec_simps)

lemma rd_u32_iff [result_simps]: "rd_u32 bs = Inr (w, t) \<longleftrightarrow> bs = u32_be w @ t"
  by (force simp: rd_u32_def result_simps codec_simps)

lemma rd_lp_iff [result_simps]: "rd_lp bs = Inr (f, t) \<longleftrightarrow> lp_ok f \<and> bs = push_lp f @ t"
proof
  assume "rd_lp bs = Inr (f, t)"
  then obtain w where "length f = unat w" "bs = u64_be w @ f @ t"
    by (auto simp: rd_lp_def result_simps)
  then show "lp_ok f \<and> bs = push_lp f @ t"
    using unat_less_exp [of w] by (simp add: lp_ok_def push_lp_def)
next
  assume "lp_ok f \<and> bs = push_lp f @ t"
  then show "rd_lp bs = Inr (f, t)"
    by (auto simp: rd_lp_def push_lp_def result_simps unat_length_lp)
qed

lemma optional_field_iff [result_simps]:
  "optional_field n f = Inr x \<longleftrightarrow>
     x = None \<and> f = [] \<or> (x = Some f \<and> length f = n \<and> f \<noteq> [])"
  by (auto simp: optional_field_def)

lemma rd_enc [codec_simps]:
  "rd_u64 (u64_be w @ t) = Inr (w, t)"
  "rd_u32 (u32_be v @ t) = Inr (v, t)"
  "lp_ok f \<Longrightarrow> rd_lp (push_lp f @ t) = Inr (f, t)"
  "optional_field n [] = Inr None"
  "f \<noteq> [] \<Longrightarrow> length f = n \<Longrightarrow> optional_field n f = Inr (Some f)"
  by (simp_all add: result_simps)

interpretation u64_codec: exact_codec u64_be rd_u64 "\<lambda>_. True"
  by unfold_locales (simp_all add: result_simps)

interpretation lp_codec: exact_codec push_lp rd_lp lp_ok
  by unfold_locales (simp_all add: result_simps)

lemma u64_be_eq [simp]: "u64_be a = u64_be b \<longleftrightarrow> a = b"
  using u64_codec.enc_inj by blast

lemma push_lp_append_eq:
  "lp_ok f \<Longrightarrow> lp_ok g \<Longrightarrow> push_lp f @ r = push_lp g @ s \<longleftrightarrow> f = g \<and> r = s"
  using lp_codec.enc_append_inj by blast

lemma push_lp_eq: "lp_ok f \<Longrightarrow> lp_ok g \<Longrightarrow> push_lp f = push_lp g \<longleftrightarrow> f = g"
  using lp_codec.enc_inj by blast

section \<open>The message header\<close>

record message_header =
  h_device_id :: u32
  h_n :: u64
  h_m :: u64
  h_seq :: u64
  h_cursor :: u64
  h_kem_ct :: "byte list option"
  h_kem_pk :: "byte list option"

definition continuing :: "u32 \<Rightarrow> u64 \<Rightarrow> u64 \<Rightarrow> u64 \<Rightarrow> u64 \<Rightarrow> message_header" where
  "continuing device_id n m seq cursor =
     \<lparr>h_device_id = device_id, h_n = n, h_m = m, h_seq = seq, h_cursor = cursor,
      h_kem_ct = None, h_kem_pk = None\<rparr>"

definition starts_turn :: "message_header \<Rightarrow> bool" where
  "starts_turn h = (h_kem_ct h \<noteq> None \<and> h_kem_pk h \<noteq> None)"

definition opt_bytes :: "byte list option \<Rightarrow> byte list" where
  "opt_bytes x = (case x of None \<Rightarrow> [] | Some b \<Rightarrow> b)"

definition header_encode :: "message_header \<Rightarrow> byte list" where
  "header_encode h =
     u32_be (h_device_id h) @ u64_be (h_n h) @ u64_be (h_m h) @ u64_be (h_seq h)
     @ u64_be (h_cursor h) @ push_lp (opt_bytes (h_kem_ct h)) @ push_lp (opt_bytes (h_kem_pk h))"

definition header_decode :: "byte list \<Rightarrow> ch_error + (message_header \<times> byte list)" where
  "header_decode bytes =
    rbind (rd_u32 bytes) (\<lambda>(device_id, b).
    rbind (rd_u64 b) (\<lambda>(n, b).
    rbind (rd_u64 b) (\<lambda>(m, b).
    rbind (rd_u64 b) (\<lambda>(seq, b).
    rbind (rd_u64 b) (\<lambda>(cursor, b).
    rbind (rd_lp b) (\<lambda>(ct_field, b).
    rbind (rd_lp b) (\<lambda>(pk_field, b).
    rbind (optional_field KEM_CT_LEN ct_field) (\<lambda>kem_ct.
    rbind (optional_field KEM_EK_LEN pk_field) (\<lambda>kem_pk.
    if (kem_ct \<noteq> None) \<noteq> (kem_pk \<noteq> None) then Inl TurnFieldsIncomplete
    else Inr (\<lparr>h_device_id = device_id, h_n = n, h_m = m, h_seq = seq, h_cursor = cursor,
               h_kem_ct = kem_ct, h_kem_pk = kem_pk\<rparr>, b))))))))))"

text \<open>What the Rust type guarantees (the array lengths), and that the turn fields travel together.\<close>

definition header_wf :: "message_header \<Rightarrow> bool" where
  "header_wf h =
    ((\<forall>ct. h_kem_ct h = Some ct \<longrightarrow> length ct = KEM_CT_LEN) \<and>
     (\<forall>pk. h_kem_pk h = Some pk \<longrightarrow> length pk = KEM_EK_LEN) \<and>
     (h_kem_ct h = None \<longleftrightarrow> h_kem_pk h = None))"

lemma opt_bytes_simps [simp]: "opt_bytes None = []" "opt_bytes (Some b) = b"
  by (simp_all add: opt_bytes_def)

lemma header_decode_encode:
  assumes wf: "header_wf h"
  shows "header_decode (header_encode h @ rest) = Inr (h, rest)"
proof (cases "h_kem_ct h")
  case None
  with wf show ?thesis
    by (cases h) (simp add: header_wf_def header_encode_def header_decode_def codec_simps lp_ok_def)
next
  case (Some ct)
  with wf obtain pk where pk: "h_kem_pk h = Some pk" by (auto simp: header_wf_def)
  have "length ct = KEM_CT_LEN" "length pk = KEM_EK_LEN" "ct \<noteq> []" "pk \<noteq> []"
    using wf Some pk by (auto simp: header_wf_def crypto_lens)
  then show ?thesis using Some pk
    by (cases h) (simp add: header_encode_def header_decode_def codec_simps lp_ok_def crypto_lens)
qed

lemma header_decode_sound:
  assumes "header_decode bs = Inr (h, rest)"
  shows "header_wf h \<and> bs = header_encode h @ rest"
  using assms
  by (auto simp: header_decode_def result_simps header_wf_def header_encode_def
      split: if_splits)

interpretation header_codec: exact_codec header_encode header_decode header_wf
  by unfold_locales (use header_decode_encode header_decode_sound in blast)+

definition message_aad :: "message_header \<Rightarrow> byte list" where
  "message_aad h = DM_CHANNEL_MSG_AAD @ header_encode h"

lemma message_aad_inj: "header_wf h \<Longrightarrow> header_wf h' \<Longrightarrow> message_aad h = message_aad h' \<Longrightarrow> h = h'"
  by (simp add: message_aad_def header_codec.enc_inj)

definition MESSAGE_HEADER_MAX_LEN :: nat where
  "MESSAGE_HEADER_MAX_LEN = 4 + 8 + 8 + 8 + 8 + (8 + KEM_CT_LEN) + (8 + KEM_EK_LEN)"

lemma header_encode_bound: "header_wf h \<Longrightarrow> length (header_encode h) \<le> MESSAGE_HEADER_MAX_LEN"
  by (cases "h_kem_ct h"; cases "h_kem_pk h")
    (auto simp: header_wf_def header_encode_def MESSAGE_HEADER_MAX_LEN_def)

section \<open>The message plaintext\<close>

definition MESSAGE_PLAINTEXT_VERSION :: byte where "MESSAGE_PLAINTEXT_VERSION = 1"
definition MESSAGE_PLAINTEXT_PREFIX_LEN :: nat where "MESSAGE_PLAINTEXT_PREFIX_LEN = 1 + 8"

definition encode_message_plaintext :: "u64 \<Rightarrow> byte list \<Rightarrow> byte list" where
  "encode_message_plaintext sent_at_ms body =
     MESSAGE_PLAINTEXT_VERSION # u64_be sent_at_ms @ body"

definition decode_message_plaintext :: "byte list \<Rightarrow> ch_error + (u64 \<times> byte list)" where
  "decode_message_plaintext plaintext =
    (if length plaintext < MESSAGE_PLAINTEXT_PREFIX_LEN then Inl MessagePlaintext
     else let prefix = take MESSAGE_PLAINTEXT_PREFIX_LEN plaintext;
              body = drop MESSAGE_PLAINTEXT_PREFIX_LEN plaintext
          in (case prefix of [] \<Rightarrow> Inl MessagePlaintext
              | version # sent_at \<Rightarrow>
                  if version \<noteq> MESSAGE_PLAINTEXT_VERSION then Inl MessagePlaintext
                  else if length sent_at \<noteq> 8 then Inl MessagePlaintext
                  else Inr (u64_of_be sent_at, body)))"

lemma decode_message_plaintext_iff:
  "decode_message_plaintext p = Inr (t, body) \<longleftrightarrow> p = encode_message_plaintext t body"
proof
  assume d: "decode_message_plaintext p = Inr (t, body)"
  then obtain q where p: "p = MESSAGE_PLAINTEXT_VERSION # q" "8 \<le> length q"
    "t = u64_of_be (take 8 q)" "body = drop 8 q"
    by (cases p) (auto simp: decode_message_plaintext_def MESSAGE_PLAINTEXT_PREFIX_LEN_def Let_def
        split: if_splits)
  then show "p = encode_message_plaintext t body"
    by (simp add: encode_message_plaintext_def u64_be_u64_of_be)
next
  assume "p = encode_message_plaintext t body"
  then show "decode_message_plaintext p = Inr (t, body)"
    by (simp add: decode_message_plaintext_def encode_message_plaintext_def
        MESSAGE_PLAINTEXT_PREFIX_LEN_def Let_def)
qed

section \<open>Properties\<close>

text \<open>
  The header decoder accepts exactly the encodings of well-formed headers (a turn's two fields
  together or neither, each of its one length) and leaves the sealed body after it untouched; two
  headers never bind the same associated data.
\<close>

lemma header_codec_exact:
  "(header_decode bs = Inr (h, rest) \<longleftrightarrow> header_wf h \<and> bs = header_encode h @ rest) \<and>
   (header_wf h \<and> header_wf h' \<longrightarrow> (message_aad h = message_aad h' \<longleftrightarrow> h = h')) \<and>
   (header_wf h \<longrightarrow> length (header_encode h) \<le> MESSAGE_HEADER_MAX_LEN)"
  using header_codec.dec_iff header_encode_bound message_aad_inj by blast

lemma header_codec_exact_witness:
  "header_decode (header_encode (continuing 0 4 3 18 9) @ [1, 2]) = Inr (continuing 0 4 3 18 9, [1, 2]) \<and>
   message_aad (continuing 0 4 3 18 9) \<noteq> message_aad (continuing 0 4 3 19 9)"
proof -
  have "header_wf (continuing 0 4 3 q 9)" for q by (simp add: header_wf_def continuing_def)
  then show ?thesis
    using header_codec_exact [of "header_encode (continuing 0 4 3 18 9) @ [1, 2]" "continuing 0 4 3 18 9"
        "[1, 2]" "continuing 0 4 3 19 9"]
    by (simp add: continuing_def)
qed

text \<open>
  A message plaintext decodes exactly when it is the version byte, a big-endian time and a body,
  and gives back that time and that body.
\<close>

theorem message_plaintext_exact:
  "decode_message_plaintext p = Inr (t, body) \<longleftrightarrow> p = encode_message_plaintext t body"
  by (rule decode_message_plaintext_iff)

end
