(* ===== verification/Channel_Control.thy ===== *)
theory Channel_Control
  imports Channel_Wire
begin

text \<open>
  The control subkey of a channel (\<^verbatim>\<open>dm/channel.rs\<close>): the channel opening and its
  verification, the control record with its two older layouts, the keys derived for it, and its
  sealed form.
\<close>

section \<open>The channel opening\<close>

definition HELLO_LOOKUP_KEY_LEN :: nat where "HELLO_LOOKUP_KEY_LEN = 32"

definition OPENING_LEN :: nat where
  "OPENING_LEN = DSA_PK_LEN + DSA_PK_LEN + HELLO_LOOKUP_KEY_LEN + KEM_EK_LEN + 8 + DSA_SIG_LEN"

definition RECIPIENT_PK_AT :: nat where "RECIPIENT_PK_AT = DSA_PK_LEN"
definition LOOKUP_KEY_AT :: nat where "LOOKUP_KEY_AT = RECIPIENT_PK_AT + DSA_PK_LEN"
definition RATCHET_PK_AT :: nat where "RATCHET_PK_AT = LOOKUP_KEY_AT + HELLO_LOOKUP_KEY_LEN"
definition SERIAL_AT :: nat where "SERIAL_AT = RATCHET_PK_AT + KEM_EK_LEN"
definition SIGNATURE_AT :: nat where "SIGNATURE_AT = SERIAL_AT + 8"

lemmas opening_offsets = OPENING_LEN_def RECIPIENT_PK_AT_def LOOKUP_KEY_AT_def RATCHET_PK_AT_def
  SERIAL_AT_def SIGNATURE_AT_def HELLO_LOOKUP_KEY_LEN_def

record channel_opening =
  o_writer_identity_pk :: "byte list"
  o_recipient_identity_pk :: "byte list"
  o_channel_lookup_key :: "byte list"
  o_first_ratchet_pk :: "byte list"
  o_advert_serial :: u64
  o_signature :: "byte list"

definition opening_signing_input ::
  "byte list \<Rightarrow> byte list \<Rightarrow> byte list \<Rightarrow> byte list \<Rightarrow> u64 \<Rightarrow> byte list" where
  "opening_signing_input writer_pk recipient_pk lookup_key ratchet_pk serial =
     DM_CHANNEL_OPENING_SIG @ push_lp writer_pk @ push_lp recipient_pk @ push_lp lookup_key
     @ push_lp ratchet_pk @ push_lp (u64_be serial)"

definition opening_build ::
  "oxi \<Rightarrow> sign_keypair \<Rightarrow> byte list \<Rightarrow> byte list \<Rightarrow> byte list \<Rightarrow> u64 \<Rightarrow> ch_error + channel_opening" where
  "opening_build ox signer recipient_pk lookup_key ratchet_pk serial =
    (let preimage = opening_signing_input (sk_public_key signer) recipient_pk lookup_key ratchet_pk serial
     in rbind (map_err Signing (keypair_sign ox signer preimage)) (\<lambda>signature.
        Inr \<lparr>o_writer_identity_pk = sk_public_key signer, o_recipient_identity_pk = recipient_pk,
             o_channel_lookup_key = lookup_key, o_first_ratchet_pk = ratchet_pk,
             o_advert_serial = serial, o_signature = signature\<rparr>))"

definition opening_encode :: "channel_opening \<Rightarrow> byte list" where
  "opening_encode o' =
     o_writer_identity_pk o' @ o_recipient_identity_pk o' @ o_channel_lookup_key o'
     @ o_first_ratchet_pk o' @ u64_be (o_advert_serial o') @ o_signature o'"

definition byte_slice :: "nat \<Rightarrow> nat \<Rightarrow> byte list \<Rightarrow> byte list" where
  "byte_slice a b bs = take (b - a) (drop a bs)"

definition opening_decode :: "byte list \<Rightarrow> ch_error + channel_opening" where
  "opening_decode bytes =
    (if length bytes \<noteq> OPENING_LEN then Inl (ChLength OPENING_LEN (length bytes))
     else Inr \<lparr>o_writer_identity_pk = byte_slice 0 RECIPIENT_PK_AT bytes,
               o_recipient_identity_pk = byte_slice RECIPIENT_PK_AT LOOKUP_KEY_AT bytes,
               o_channel_lookup_key = byte_slice LOOKUP_KEY_AT RATCHET_PK_AT bytes,
               o_first_ratchet_pk = byte_slice RATCHET_PK_AT SERIAL_AT bytes,
               o_advert_serial = u64_of_be (byte_slice SERIAL_AT SIGNATURE_AT bytes),
               o_signature = drop SIGNATURE_AT bytes\<rparr>)"

definition opening_verify ::
  "oxi \<Rightarrow> channel_opening \<Rightarrow> byte list \<Rightarrow> byte list \<Rightarrow> u64 \<Rightarrow> ch_error + unit" where
  "opening_verify ox o' expected_recipient_pk expected_lookup_key expected_serial =
    (let preimage = opening_signing_input (o_writer_identity_pk o') (o_recipient_identity_pk o')
                      (o_channel_lookup_key o') (o_first_ratchet_pk o') (o_advert_serial o')
     in rbind (map_err (\<lambda>_. Signature)
                 (verify_signature ox (o_writer_identity_pk o') preimage (o_signature o'))) (\<lambda>_.
        if o_recipient_identity_pk o' \<noteq> expected_recipient_pk then Inl Recipient
        else if o_channel_lookup_key o' \<noteq> expected_lookup_key then Inl LookupKey
        else if o_advert_serial o' \<noteq> expected_serial
             then Inl (AdvertSerial expected_serial (o_advert_serial o'))
        else Inr ()))"

definition opening_wf :: "channel_opening \<Rightarrow> bool" where
  "opening_wf o' =
    (length (o_writer_identity_pk o') = DSA_PK_LEN \<and>
     length (o_recipient_identity_pk o') = DSA_PK_LEN \<and>
     length (o_channel_lookup_key o') = HELLO_LOOKUP_KEY_LEN \<and>
     length (o_first_ratchet_pk o') = KEM_EK_LEN \<and>
     length (o_signature o') = DSA_SIG_LEN)"

lemma length_opening_encode: "opening_wf o' \<Longrightarrow> length (opening_encode o') = OPENING_LEN"
  by (simp add: opening_wf_def opening_encode_def OPENING_LEN_def)

lemma opening_decode_encode: "opening_wf o' \<Longrightarrow> opening_decode (opening_encode o') = Inr o'"
  using length_opening_encode [of o']
  by (cases o') (simp add: opening_decode_def byte_slice_def opening_wf_def opening_encode_def
      opening_offsets crypto_lens)

lemma byte_slice_drop: "a \<le> b \<Longrightarrow> byte_slice a b bs @ drop b bs = drop a bs"
  using append_take_drop_id [of "b - a" "drop a bs"] by (simp add: byte_slice_def)

lemma opening_decode_sound:
  assumes "opening_decode bs = Inr o'"
  shows "opening_wf o' \<and> bs = opening_encode o'"
proof
  have len: "length bs = OPENING_LEN" using assms by (simp add: opening_decode_def split: if_splits)
  have dec: "o' = \<lparr>o_writer_identity_pk = byte_slice 0 RECIPIENT_PK_AT bs,
     o_recipient_identity_pk = byte_slice RECIPIENT_PK_AT LOOKUP_KEY_AT bs,
     o_channel_lookup_key = byte_slice LOOKUP_KEY_AT RATCHET_PK_AT bs,
     o_first_ratchet_pk = byte_slice RATCHET_PK_AT SERIAL_AT bs,
     o_advert_serial = u64_of_be (byte_slice SERIAL_AT SIGNATURE_AT bs),
     o_signature = drop SIGNATURE_AT bs\<rparr>"
    using assms by (simp add: opening_decode_def split: if_splits)
  show "opening_wf o'"
    using len by (simp add: dec opening_wf_def byte_slice_def opening_offsets crypto_lens)
  have s8: "length (byte_slice SERIAL_AT SIGNATURE_AT bs) = 8"
    using len by (simp add: byte_slice_def opening_offsets crypto_lens)
  have o: "0 \<le> RECIPIENT_PK_AT" "RECIPIENT_PK_AT \<le> LOOKUP_KEY_AT" "LOOKUP_KEY_AT \<le> RATCHET_PK_AT"
    "RATCHET_PK_AT \<le> SERIAL_AT" "SERIAL_AT \<le> SIGNATURE_AT"
    by (simp_all add: opening_offsets)
  show "bs = opening_encode o'"
    by (simp add: dec opening_encode_def u64_be_u64_of_be [OF s8] byte_slice_drop o
        del: append_assoc add: append_assoc)
qed

lemma opening_verify_Ok_iff:
  "opening_verify ox o' r l s = Inr () \<longleftrightarrow>
    verify_signature ox (o_writer_identity_pk o')
      (opening_signing_input (o_writer_identity_pk o') (o_recipient_identity_pk o')
        (o_channel_lookup_key o') (o_first_ratchet_pk o') (o_advert_serial o')) (o_signature o') = Inr ()
    \<and> o_recipient_identity_pk o' = r \<and> o_channel_lookup_key o' = l \<and> o_advert_serial o' = s"
  by (auto simp: opening_verify_def Let_def result_simps)

lemma signing_input_inj:
  assumes "opening_signing_input w r l k s = opening_signing_input w' r' l' k' s'"
    and "list_all lp_ok [w, r, l, k, w', r', l', k']"
  shows "w = w' \<and> r = r' \<and> l = l' \<and> k = k' \<and> s = s'"
  using assms by (simp add: opening_signing_input_def push_lp_append_eq push_lp_eq lp_ok_def)

section \<open>The control record\<close>

text \<open>
  A handle is a Rust \<open>String\<close>: its bytes, which the type guarantees to be UTF-8.
\<close>

definition REACH_ROUTE_MAX_LEN :: nat where "REACH_ROUTE_MAX_LEN = 4096"
definition REACH_HANDLE_MAX_LEN :: nat where "REACH_HANDLE_MAX_LEN = 256"

record reach =
  r_route :: "byte list option"
  r_handle :: "byte list option"

definition reach_default :: reach where
  "reach_default = \<lparr>r_route = None, r_handle = None\<rparr>"

record control =
  c_opening :: "channel_opening option"
  c_collected_cursor :: u64
  c_closed :: bool
  c_generation :: u64
  c_reach :: reach
  c_serial :: u64

definition control_default :: control where
  "control_default = \<lparr>c_opening = None, c_collected_cursor = 0, c_closed = False,
     c_generation = 0, c_reach = reach_default, c_serial = 0\<rparr>"

definition within :: "nat \<Rightarrow> byte list option \<Rightarrow> byte list" where
  "within bound x = (case x of None \<Rightarrow> [] | Some b \<Rightarrow> if length b \<le> bound then b else [])"

definition flag_byte :: "bool \<Rightarrow> byte" where "flag_byte b = (if b then 1 else 0)"

definition encoded_opening :: "channel_opening option \<Rightarrow> byte list" where
  "encoded_opening x = (case x of None \<Rightarrow> [] | Some o' \<Rightarrow> opening_encode o')"

definition control_encode :: "control \<Rightarrow> byte list" where
  "control_encode c =
    (let route = within REACH_ROUTE_MAX_LEN (r_route (c_reach c));
         handle = within REACH_HANDLE_MAX_LEN (r_handle (c_reach c))
     in push_lp (encoded_opening (c_opening c)) @ u64_be (c_collected_cursor c)
        @ [flag_byte (c_closed c)] @ u64_be (c_generation c) @ push_lp route @ push_lp handle
        @ u64_be (c_serial c))"

definition rd_flag :: "byte list \<Rightarrow> ch_error + (bool \<times> byte list)" where
  "rd_flag bs = rbind (rd_take 1 bs) (\<lambda>(f, t).
     if f = [0] then Inr (False, t) else if f = [1] then Inr (True, t) else Inl Malformed)"

definition non_empty :: "byte list \<Rightarrow> byte list option" where
  "non_empty bs = (if bs = [] then None else Some bs)"

definition rd_serial :: "byte list \<Rightarrow> ch_error + (u64 \<times> byte list)" where
  "rd_serial bs = (if bs = [] then Inr (0, []) else rd_u64 bs)"

definition rd_tail :: "byte list \<Rightarrow> ch_error + ((u64 \<times> reach \<times> u64) \<times> byte list)" where
  "rd_tail bs =
    (if bs = [] then Inr ((0, reach_default, 0), [])
     else rbind (rd_u64 bs) (\<lambda>(generation, b).
          rbind (rd_lp b) (\<lambda>(route, b).
          rbind (rd_lp b) (\<lambda>(handle, b).
          if length route > REACH_ROUTE_MAX_LEN \<or> length handle > REACH_HANDLE_MAX_LEN
          then Inl Malformed
          else if \<not> utf8_valid handle then Inl Malformed
          else rbind (rd_serial b) (\<lambda>(serial, b).
               Inr ((generation, \<lparr>r_route = non_empty route, r_handle = non_empty handle\<rparr>, serial),
                    b))))))"

definition control_decode :: "byte list \<Rightarrow> ch_error + control" where
  "control_decode bytes =
    rbind (rd_lp bytes) (\<lambda>(opening_field, b).
    rbind (rd_u64 b) (\<lambda>(collected_cursor, b).
    rbind (rd_flag b) (\<lambda>(closed, b).
    rbind (rd_tail b) (\<lambda>((generation, reach, serial), b).
    if b \<noteq> [] then Inl Malformed
    else rbind (if opening_field = [] then Inr None
                else rbind (opening_decode opening_field) (\<lambda>o'. Inr (Some o'))) (\<lambda>opening.
         Inr \<lparr>c_opening = opening, c_collected_cursor = collected_cursor, c_closed = closed,
              c_generation = generation, c_reach = reach, c_serial = serial\<rparr>)))))"

text \<open>
  What a round trip gives back: an overlong or empty route or handle is absent. The two older
  layouts a reader still accepts end at the flag, or at the handle.
\<close>

definition reach_canon :: "reach \<Rightarrow> reach" where
  "reach_canon r = \<lparr>r_route = non_empty (within REACH_ROUTE_MAX_LEN (r_route r)),
                   r_handle = non_empty (within REACH_HANDLE_MAX_LEN (r_handle r))\<rparr>"

definition control_wf :: "control \<Rightarrow> bool" where
  "control_wf c = ((\<forall>o'. c_opening c = Some o' \<longrightarrow> opening_wf o') \<and>
     (\<forall>h. r_handle (c_reach c) = Some h \<longrightarrow> utf8_valid h))"

definition control_head :: "control \<Rightarrow> byte list" where
  "control_head c = push_lp (encoded_opening (c_opening c)) @ u64_be (c_collected_cursor c)
     @ [flag_byte (c_closed c)]"

definition control_layout2 :: "control \<Rightarrow> byte list" where
  "control_layout2 c = control_head c @ u64_be (c_generation c)
     @ push_lp (within REACH_ROUTE_MAX_LEN (r_route (c_reach c)))
     @ push_lp (within REACH_HANDLE_MAX_LEN (r_handle (c_reach c)))"

lemma rd_flag_iff [result_simps]: "rd_flag bs = Inr (f, t) \<longleftrightarrow> bs = flag_byte f # t"
  by (cases bs) (auto simp: rd_flag_def rd_take_def flag_byte_def split: if_splits)

lemma length_within [simp]: "length (within n x) \<le> n"
  by (simp add: within_def split: option.split)

lemma within_lp_ok: "n < 2 ^ 64 \<Longrightarrow> lp_ok (within n x)"
  using length_within [of n x] unfolding lp_ok_def by linarith

lemma within_reach_lp_ok [simp]:
  "lp_ok (within REACH_ROUTE_MAX_LEN x)" "lp_ok (within REACH_HANDLE_MAX_LEN x)"
  by (simp_all add: within_lp_ok REACH_ROUTE_MAX_LEN_def REACH_HANDLE_MAX_LEN_def)

lemma encoded_opening_lp_ok:
  "control_wf c \<Longrightarrow> lp_ok (encoded_opening (c_opening c))"
  by (cases "c_opening c") (auto simp: encoded_opening_def control_wf_def lp_ok_def
      length_opening_encode opening_offsets crypto_lens)

lemma utf8_within: "control_wf c \<Longrightarrow> utf8_valid (within n (r_handle (c_reach c)))"
  by (auto simp: within_def control_wf_def split: option.split)

lemma within_canon: "x = non_empty (within n y) \<Longrightarrow> within n x = within n y"
  by (auto simp: within_def non_empty_def split: option.splits)

lemma opening_field_decode:
  assumes "control_wf c"
  shows "(if encoded_opening (c_opening c) = [] then Inr None
          else rbind (opening_decode (encoded_opening (c_opening c))) (\<lambda>o'. Inr (Some o')))
         = (Inr (c_opening c) :: ch_error + channel_opening option)"
proof (cases "c_opening c")
  case (Some o')
  with assms have wf: "opening_wf o'" by (simp add: control_wf_def)
  then have "opening_encode o' \<noteq> []"
    using length_opening_encode [OF wf] by (auto simp: opening_offsets)
  with Some wf show ?thesis by (simp add: encoded_opening_def opening_decode_encode)
qed (simp add: encoded_opening_def)

lemma rd_tail_current:
  assumes "control_wf c"
  shows "rd_tail (u64_be (c_generation c) @ push_lp (within REACH_ROUTE_MAX_LEN (r_route (c_reach c)))
      @ push_lp (within REACH_HANDLE_MAX_LEN (r_handle (c_reach c))) @ u64_be (c_serial c))
    = Inr ((c_generation c, reach_canon (c_reach c), c_serial c), [])"
proof -
  have ne: "u64_be w @ t \<noteq> []" for w t
    using length_uint_be(1) [of w] by (metis Nil_is_append_conv list.size(3) zero_neq_numeral)
  have s: "rd_u64 (u64_be w) = Inr (w, [])" for w using rd_enc(1) [of w "[]"] by simp
  have "u64_be w \<noteq> []" for w using ne [of w "[]"] by simp
  with s show ?thesis
    by (simp add: rd_tail_def ne codec_simps rd_serial_def utf8_within [OF assms] reach_canon_def
        linorder_not_less)
qed

lemma control_decode_encode:
  assumes "control_wf c"
  shows "control_decode (control_encode c) = Inr (c\<lparr>c_reach := reach_canon (c_reach c)\<rparr>)"
proof -
  have f: "rd_flag (flag_byte b # t) = Inr (b, t)" for b t by (simp add: result_simps)
  show ?thesis
    by (simp add: control_decode_def control_encode_def Let_def codec_simps
        encoded_opening_lp_ok [OF assms] f rd_tail_current [OF assms]
        opening_field_decode [OF assms])
qed

lemma rd_tail_sound:
  assumes "rd_tail b = Inr ((g, r, s), t)" and "t = []"
  shows "b = [] \<and> g = 0 \<and> r = reach_default \<and> s = 0 \<or>
    (reach_canon r = r \<and> (\<forall>h. r_handle r = Some h \<longrightarrow> utf8_valid h) \<and>
     (b = u64_be g @ push_lp (within REACH_ROUTE_MAX_LEN (r_route r))
          @ push_lp (within REACH_HANDLE_MAX_LEN (r_handle r)) @ u64_be s \<or>
      s = 0 \<and> b = u64_be g @ push_lp (within REACH_ROUTE_MAX_LEN (r_route r))
          @ push_lp (within REACH_HANDLE_MAX_LEN (r_handle r))))"
proof -
  have w: "within n (non_empty x) = x" if "length x \<le> n" for n x
    using that by (simp add: within_def non_empty_def)
  show ?thesis
  proof (cases "b = []")
    case True
    with assms show ?thesis by (simp add: rd_tail_def)
  next
    case False
    with assms obtain b0 route b1 handle b2 where
      d: "rd_u64 b = Inr (g, b0)" "rd_lp b0 = Inr (route, b1)" "rd_lp b1 = Inr (handle, b2)"
      and l: "length route \<le> REACH_ROUTE_MAX_LEN" "length handle \<le> REACH_HANDLE_MAX_LEN"
        "utf8_valid handle"
      and s: "rd_serial b2 = Inr (s, [])"
      and r: "r = \<lparr>r_route = non_empty route, r_handle = non_empty handle\<rparr>"
      by (auto simp: rd_tail_def rbind_Inr_iff linorder_not_less split: if_splits)
    have b: "b = u64_be g @ push_lp route @ push_lp handle @ b2"
      using d by (simp add: result_simps)
    have b2: "b2 = u64_be s \<or> s = 0 \<and> b2 = []"
      using s by (auto simp: rd_serial_def result_simps split: if_splits)
    have h: "r_handle r = Some h \<Longrightarrow> utf8_valid h" for h
      using l(3) by (auto simp: r non_empty_def split: if_splits)
    have "reach_canon r = r" by (simp add: reach_canon_def r w l)
    with b b2 h show ?thesis by (auto simp: r w l)
  qed
qed

lemma control_decode_sound:
  assumes "control_decode bs = Inr c"
  shows "control_wf c \<and> reach_canon (c_reach c) = c_reach c \<and>
    (bs = control_encode c \<or>
     c_serial c = 0 \<and> bs = control_layout2 c \<or>
     c_serial c = 0 \<and> c_generation c = 0 \<and> c_reach c = reach_default \<and> bs = control_head c)"
proof -
  from assms obtain f b tl where 1: "rd_tail tl = Inr ((c_generation c, c_reach c, c_serial c), [])"
    "bs = push_lp f @ u64_be (c_collected_cursor c) @ [flag_byte (c_closed c)] @ tl"
    and o: "(if f = [] then Inr None else rbind (opening_decode f) (\<lambda>o'. Inr (Some o')))
       = (Inr (c_opening c) :: ch_error + channel_opening option)"
    by (auto simp: control_decode_def result_simps split: if_splits)
  have f: "f = encoded_opening (c_opening c) \<and> (\<forall>o'. c_opening c = Some o' \<longrightarrow> opening_wf o')"
    using o by (cases "c_opening c") (auto simp: encoded_opening_def result_simps
        dest!: opening_decode_sound split: if_splits)
  have canon: "reach_canon reach_default = reach_default"
    by (simp add: reach_canon_def reach_default_def within_def non_empty_def)
  have "r_handle reach_default = None" by (simp add: reach_default_def)
  with rd_tail_sound [OF 1(1) refl] 1(2) f canon show ?thesis
    by (auto simp: control_wf_def control_encode_def control_layout2_def control_head_def Let_def)
qed

section \<open>Keys and sealing\<close>

definition derive_owner_seed :: "oxi \<Rightarrow> byte list \<Rightarrow> byte list \<Rightarrow> u64 \<Rightarrow> ch_error + byte list" where
  "derive_owner_seed ox channel_root peer_identity_pk generation =
    rbind (map_err ChKdf (hkdf_extract ox (Some DM_CHANNEL_SALT) channel_root)) (\<lambda>prk.
    map_err ChKdf (hkdf_expand ox prk
      (DM_CHANNEL_OWNER @ push_lp peer_identity_pk @ push_lp (u64_be generation)) 32))"

definition control_key :: "oxi \<Rightarrow> byte list \<Rightarrow> ch_error + byte list" where
  "control_key ox ss_hello =
    rbind (map_err ChKdf (hkdf_extract ox (Some DM_CHANNEL_CONTROL_SALT) ss_hello)) (\<lambda>prk.
    map_err ChKdf (hkdf_expand ox prk DM_CHANNEL_CONTROL 32))"

definition control_aad :: "byte list" where
  "control_aad = DM_CHANNEL_CONTROL_AAD @ push_lp (u32_be (ucast CONTROL_SUBKEY))"

definition seal_control_with_key ::
  "oxi \<Rightarrow> byte list option \<Rightarrow> byte list \<Rightarrow> control \<Rightarrow> ch_error + byte list" where
  "seal_control_with_key ox draw key control =
    rbind (map_err ChModule (aes256_key ox key)) (\<lambda>aes.
    map_err (\<lambda>_. ChAead) (seal_envelope ox draw aes control_aad (control_encode control)))"

definition open_control_with_key :: "oxi \<Rightarrow> byte list \<Rightarrow> byte list \<Rightarrow> ch_error + control" where
  "open_control_with_key ox key bytes =
    rbind (map_err ChModule (aes256_key ox key)) (\<lambda>aes.
    rbind (map_err (\<lambda>_. ChAead) (open_envelope ox aes control_aad bytes)) control_decode)"

definition seal_control ::
  "oxi \<Rightarrow> byte list option \<Rightarrow> byte list \<Rightarrow> control \<Rightarrow> ch_error + byte list" where
  "seal_control ox draw ss_hello control =
    rbind (control_key ox ss_hello) (\<lambda>key. seal_control_with_key ox draw key control)"

definition open_control :: "oxi \<Rightarrow> byte list \<Rightarrow> byte list \<Rightarrow> ch_error + control" where
  "open_control ox ss_hello bytes =
    rbind (control_key ox ss_hello) (\<lambda>key. open_control_with_key ox key bytes)"

lemma open_seal_control_with_key:
  assumes "gcm_law ox" "control_wf c" "seal_control_with_key ox draw key c = Inr sealed"
  shows "open_control_with_key ox key sealed = Inr (c\<lparr>c_reach := reach_canon (c_reach c)\<rparr>)"
proof -
  from assms(3) obtain aes where a: "aes256_key ox key = Inr aes"
    and s: "seal_envelope ox draw aes control_aad (control_encode c) = Inr sealed"
    by (auto simp: seal_control_with_key_def result_simps)
  show ?thesis
    by (simp add: open_control_with_key_def a envelope.unseal_then [OF assms(1) s]
        control_decode_encode [OF assms(2)])
qed

lemma open_seal_control:
  assumes "gcm_law ox" "control_wf c" "seal_control ox draw ss c = Inr sealed"
  shows "open_control ox ss sealed = Inr (c\<lparr>c_reach := reach_canon (c_reach c)\<rparr>)"
  using assms
  by (auto simp: seal_control_def open_control_def result_simps
      intro: open_seal_control_with_key)

text \<open>The sealed record fits the subkey it is written to.\<close>

definition CHANNEL_SUBKEY_LEN :: nat where
  "CHANNEL_SUBKEY_LEN = (let per_subkey = (1024 * 1024) div CHANNEL_SUBKEYS
     in if per_subkey < 32 * 1024 then per_subkey else 32 * 1024)"

definition ENVELOPE_OVERHEAD :: nat where "ENVELOPE_OVERHEAD = NONCE_LEN + TAG_LEN"

definition SEALED_CONTROL_MAX_LEN :: nat where
  "SEALED_CONTROL_MAX_LEN = ENVELOPE_OVERHEAD + 8 + OPENING_LEN + 8 + 1 + 8
     + 8 + REACH_ROUTE_MAX_LEN + 8 + REACH_HANDLE_MAX_LEN + 8"

definition MESSAGE_BODY_MAX_LEN :: nat where
  "MESSAGE_BODY_MAX_LEN = CHANNEL_SUBKEY_LEN - MESSAGE_HEADER_MAX_LEN - ENVELOPE_OVERHEAD
     - MESSAGE_PLAINTEXT_PREFIX_LEN"

lemmas channel_sizes = CHANNEL_SUBKEY_LEN_def CHANNEL_SUBKEYS_def ENVELOPE_OVERHEAD_def
  SEALED_CONTROL_MAX_LEN_def MESSAGE_BODY_MAX_LEN_def MESSAGE_HEADER_MAX_LEN_def
  MESSAGE_PLAINTEXT_PREFIX_LEN_def NONCE_LEN_def TAG_LEN_def REACH_ROUTE_MAX_LEN_def
  REACH_HANDLE_MAX_LEN_def

lemma sealed_control_fits: "SEALED_CONTROL_MAX_LEN \<le> CHANNEL_SUBKEY_LEN"
  by (simp add: channel_sizes opening_offsets crypto_lens)

lemma length_encoded_opening:
  "control_wf c \<Longrightarrow> length (encoded_opening (c_opening c)) \<le> OPENING_LEN"
  by (cases "c_opening c") (auto simp: encoded_opening_def control_wf_def length_opening_encode)

lemma length_control_encode:
  assumes "control_wf c"
  shows "length (control_encode c) + ENVELOPE_OVERHEAD \<le> SEALED_CONTROL_MAX_LEN"
proof -
  have "length (within REACH_ROUTE_MAX_LEN (r_route (c_reach c))) \<le> REACH_ROUTE_MAX_LEN"
    "length (within REACH_HANDLE_MAX_LEN (r_handle (c_reach c))) \<le> REACH_HANDLE_MAX_LEN"
    by simp_all
  moreover have "length (control_encode c) = 8 + length (encoded_opening (c_opening c)) + 8 + 1 + 8
      + 8 + length (within REACH_ROUTE_MAX_LEN (r_route (c_reach c)))
      + 8 + length (within REACH_HANDLE_MAX_LEN (r_handle (c_reach c))) + 8"
    by (simp add: control_encode_def Let_def)
  ultimately show ?thesis
    using length_encoded_opening [OF assms] unfolding SEALED_CONTROL_MAX_LEN_def by linarith
qed

lemma length_seal_control_with_key:
  assumes "gcm_law ox" "control_wf c" "seal_control_with_key ox draw key c = Inr sealed"
  shows "length sealed \<le> CHANNEL_SUBKEY_LEN"
proof -
  from assms(3) obtain aes where
    "seal_envelope ox draw aes control_aad (control_encode c) = Inr sealed"
    by (auto simp: seal_control_with_key_def result_simps)
  then have "length sealed = length (control_encode c) + ENVELOPE_OVERHEAD"
    using envelope.seal_length [OF assms(1)] by (simp add: ENVELOPE_OVERHEAD_def)
  with length_control_encode [OF assms(2)] sealed_control_fits show ?thesis by linarith
qed

section \<open>Properties\<close>

text \<open>
  A channel opening decodes exactly from the fixed-length encoding of a well-formed opening, and
  the bytes its signature covers determine every field it covers: no two different openings share a
  preimage.
\<close>

lemma opening_codec_and_binding:
  "(opening_decode bs = Inr o' \<longleftrightarrow> opening_wf o' \<and> bs = opening_encode o') \<and>
   (list_all lp_ok [w, r, l, k, w', r', l', k'] \<longrightarrow>
      (opening_signing_input w r l k s = opening_signing_input w' r' l' k' s'
       \<longleftrightarrow> w = w' \<and> r = r' \<and> l = l' \<and> k = k' \<and> s = s'))"
  using opening_decode_sound opening_decode_encode signing_input_inj by blast

lemma opening_codec_and_binding_witness:
  "opening_signing_input [1] [2] [3] [4] 5 \<noteq> opening_signing_input [1] [2, 3] [] [4] 5"
  using opening_codec_and_binding [of "[]" undefined "[1]" "[2]" "[3]" "[4]" "[1]" "[2, 3]" "[]" "[4]" 5 5]
  by (simp add: lp_ok_def)



text \<open>
  A control record survives its encoding, except that a route or handle past its maximum, or
  empty, comes back absent; and every record the decoder accepts is in one of three layouts: the
  current one, the one without the serial, or the one without generation, reach and serial, whose
  missing fields read as their defaults.
\<close>

theorem control_codec:
  "(control_wf c \<longrightarrow> control_decode (control_encode c) = Inr (c\<lparr>c_reach := reach_canon (c_reach c)\<rparr>)) \<and>
   (control_decode bs = Inr d \<longrightarrow> control_wf d \<and> reach_canon (c_reach d) = c_reach d \<and>
      (bs = control_encode d \<or> c_serial d = 0 \<and> bs = control_layout2 d \<or>
       c_serial d = 0 \<and> c_generation d = 0 \<and> c_reach d = reach_default \<and> bs = control_head d))"
  using control_decode_encode control_decode_sound by blast

theorem control_codec_witness:
  "control_decode (control_encode (control_default\<lparr>c_collected_cursor := 7, c_generation := 2\<rparr>))
   = Inr (control_default\<lparr>c_collected_cursor := 7, c_generation := 2\<rparr>)"
proof -
  have "control_wf (control_default\<lparr>c_collected_cursor := 7, c_generation := 2\<rparr>)"
    by (simp add: control_wf_def control_default_def reach_default_def)
  with control_codec [of "control_default\<lparr>c_collected_cursor := 7, c_generation := 2\<rparr>"] show ?thesis
    by (simp add: control_default_def reach_default_def reach_canon_def within_def non_empty_def)
qed

text \<open>
  A sealed control record opens under the same hello secret to the record that was sealed (its
  reach within bounds), and always fits one subkey of the channel record.
\<close>

lemma sealed_control_opens_and_fits:
  assumes "gcm_law ox" "control_wf c" "seal_control ox draw ss c = Inr sealed"
  shows "open_control ox ss sealed = Inr (c\<lparr>c_reach := reach_canon (c_reach c)\<rparr>) \<and>
    length sealed \<le> CHANNEL_SUBKEY_LEN"
  using open_seal_control [OF assms] assms length_seal_control_with_key
  by (auto simp: seal_control_def result_simps)

lemma sealed_control_opens_and_fits_witness:
  "\<exists>sealed. seal_control demo_oxi (Some (replicate 12 3)) [9] control_default = Inr sealed \<and>
     open_control demo_oxi [9] sealed = Inr control_default \<and> length sealed \<le> CHANNEL_SUBKEY_LEN"
proof -
  have wf: "control_wf control_default" "reach_canon (c_reach control_default) = c_reach control_default"
    by (simp_all add: control_wf_def control_default_def reach_default_def reach_canon_def within_def
        non_empty_def)
  have "\<exists>s. seal_control demo_oxi (Some (replicate 12 3)) [9] control_default = Inr s"
    by (simp add: seal_control_def seal_control_with_key_def control_key_def seal_envelope_def
        gcm_nonce_def oxi_defs demo_oxi_def)
  then obtain s where s: "seal_control demo_oxi (Some (replicate 12 3)) [9] control_default = Inr s" by blast
  from sealed_control_opens_and_fits [OF demo_gcm_law wf(1) s] s wf(2) show ?thesis by simp
qed

end
