(* ===== verification/Chain.thy ===== *)
theory Chain
  imports Channel_Wire
begin

text \<open>
  The key schedule (\<^verbatim>\<open>dm/chain.rs\<close>): one root chain per direction, re-keyed by an ML-KEM
  encapsulation at the start of every turn. This theory holds the state and the operations, in the
  order of the source, and the facts about each operation alone; \<open>Chain_Sync\<close> proves that the
  two ends of a conversation stay in step.

  A key or secret is its bytes. An operation that takes \<open>&mut self\<close> returns its result and the
  state after it. The caller's entropy function is \<open>fill\<close>: \<open>fill i\<close> is what its i-th call in one
  operation wrote, \<open>None\<close> where that call failed. The AEAD nonce the envelope draws is \<open>draw\<close>.
\<close>

datatype chain_error =
    CKdf oxi_error
  | Entropy
  | NoPeerKey
  | SecretGone u64
  | AlreadyOpened u64
  | OutOfOrder u64 u64
  | NoTurn
  | CTurnFieldsIncomplete
  | PendingTurnNotTaken
  | CAead
  | CModule oxi_error

type_synonym fill = "nat \<Rightarrow> byte list option"

definition ROOT_LEN :: nat where "ROOT_LEN = 32"
definition CHAIN_KEY_LEN :: nat where "CHAIN_KEY_LEN = 32"
definition MESSAGE_KEY_LEN :: nat where "MESSAGE_KEY_LEN = 32"

section \<open>Derivations\<close>

definition seed_root :: "oxi \<Rightarrow> byte list \<Rightarrow> chain_error + byte list" where
  "seed_root ox ss0 =
    rbind (map_err CKdf (hkdf_extract ox (Some DM_CHANNEL_ROOT_SALT) ss0)) (\<lambda>hkdf.
    map_err CKdf (hkdf_expand ox hkdf DM_CHANNEL_ROOT ROOT_LEN))"

definition advance_root ::
  "oxi \<Rightarrow> byte list \<Rightarrow> byte list option \<Rightarrow> byte list \<Rightarrow> chain_error + byte list" where
  "advance_root ox previous peer_ss own_ss =
    (let ikm = push_lp (opt_bytes peer_ss) @ push_lp own_ss
     in rbind (map_err CKdf (hkdf_extract ox (Some previous) ikm)) (\<lambda>hkdf.
        map_err CKdf (hkdf_expand ox hkdf DM_CHANNEL_ROOT ROOT_LEN)))"

definition chain_from_root :: "oxi \<Rightarrow> byte list \<Rightarrow> chain_error + byte list" where
  "chain_from_root ox root =
    rbind (map_err CKdf (hkdf_extract ox (Some DM_CHANNEL_CHAIN_SALT) root)) (\<lambda>hkdf.
    map_err CKdf (hkdf_expand ox hkdf DM_CHANNEL_CHAIN CHAIN_KEY_LEN))"

definition chain_step :: "oxi \<Rightarrow> byte list \<Rightarrow> chain_error + (byte list \<times> byte list)" where
  "chain_step ox ck =
    rbind (map_err CKdf (hkdf_extract ox (Some DM_CHANNEL_STEP_SALT) ck)) (\<lambda>hkdf.
    rbind (map_err CKdf (hkdf_expand ox hkdf DM_CHANNEL_MK MESSAGE_KEY_LEN)) (\<lambda>mk.
    rbind (map_err CKdf (hkdf_expand ox hkdf DM_CHANNEL_CK CHAIN_KEY_LEN)) (\<lambda>next.
    Inr (mk, next))))"

record ratchet_keypair =
  kp_pk :: "byte list"
  kp_dk :: "byte list"

definition mint :: "oxi \<Rightarrow> fill \<Rightarrow> chain_error + ratchet_keypair" where
  "mint ox fill =
    rbind (ok_or Entropy (fill 0)) (\<lambda>d.
    rbind (ok_or Entropy (fill 1)) (\<lambda>z.
    rbind (map_err CModule (ml_kem_keygen ox d z)) (\<lambda>(ek, dk).
    Inr \<lparr>kp_pk = ek, kp_dk = dk\<rparr>)))"

text \<open>The third draw of a seal, after the two of \<open>mint\<close>.\<close>

definition encapsulate ::
  "oxi \<Rightarrow> byte list \<Rightarrow> fill \<Rightarrow> chain_error + (byte list \<times> byte list)" where
  "encapsulate ox peer_pk fill =
    rbind (ok_or Entropy (fill 2)) (\<lambda>m. map_err CModule (ml_kem_encapsulate ox peer_pk m))"

definition seal_under ::
  "oxi \<Rightarrow> byte list option \<Rightarrow> byte list \<Rightarrow> byte list \<Rightarrow> byte list \<Rightarrow> chain_error + byte list" where
  "seal_under ox draw mk aad body =
    (case aes256_key ox mk of
       Inr key \<Rightarrow> map_err (\<lambda>_. CAead) (seal_envelope ox draw key aad body)
     | Inl e \<Rightarrow> Inl (CModule e))"

definition open_under ::
  "oxi \<Rightarrow> byte list \<Rightarrow> byte list \<Rightarrow> byte list \<Rightarrow> chain_error + byte list" where
  "open_under ox mk aad sealed =
    (case aes256_key ox mk of
       Inr key \<Rightarrow> map_err (\<lambda>_. CAead) (open_envelope ox key aad sealed)
     | Inl e \<Rightarrow> Inl (CModule e))"

lemma open_seal_under:
  assumes "gcm_law ox" "seal_under ox draw mk aad body = Inr sealed"
  shows "open_under ox mk aad sealed = Inr body"
proof -
  from assms(2) obtain key where k: "aes256_key ox mk = Inr key"
    and s: "seal_envelope ox draw key aad body = Inr sealed"
    by (auto simp: seal_under_def result_simps split: sum.splits)
  with envelope.unseal_seal [OF assms(1) s] show ?thesis by (simp add: open_under_def)
qed

lemma mint_encapsulate:
  assumes "kem_law ox" "ml_kem_keygen ox d z = Inr (pk, dk)" "encapsulate ox pk fill = Inr (ss, ct)"
  shows "ml_kem_decapsulate ox dk ct = Inr ss" and "length ct = KEM_CT_LEN"
  using assms kem_law_decapsulate by (auto simp: encapsulate_def result_simps)

section \<open>State\<close>

record own_turn =
  ot_m :: u64
  ot_keypair :: ratchet_keypair
  ot_ss :: "byte list option"

record peer_turn =
  pt_m :: u64
  pt_pk :: "byte list"
  pt_ss :: "byte list option"

datatype turn_input = Unchanged | PeerTurn u64 "byte list" "byte list option"

datatype reset_action = RotateAdvert

record direction =
  d_root :: "byte list"
  d_chain :: "byte list option"
  d_n :: u64
  d_m_seen :: "u64 option"
  d_seq :: u64
  d_cursor :: u64
  d_peer_pk :: "byte list option"
  d_peer_ss :: "byte list option"
  d_pending_turn :: "own_turn option"
  d_force_turn :: bool

text \<open>\<open>own_turns\<close> is the two-element array, newest first.\<close>

record receiving =
  v_root :: "byte list"
  v_chain :: "byte list option"
  v_n :: u64
  v_next_seq :: u64
  v_own_turns :: "own_turn option \<times> own_turn option"
  v_peer_latest :: "peer_turn option"

record conversation =
  cv_sending :: direction
  cv_receiving :: receiving

section \<open>The sending half\<close>

definition set_cursor :: "u64 \<Rightarrow> direction \<Rightarrow> direction" where
  "set_cursor cursor d = d\<lparr>d_cursor := cursor\<rparr>"

definition force_next_turn :: "direction \<Rightarrow> direction" where
  "force_next_turn d = d\<lparr>d_force_turn := True\<rparr>"

definition newer :: "u64 \<Rightarrow> u64 option \<Rightarrow> bool" where
  "newer m seen = (case seen of None \<Rightarrow> True | Some s \<Rightarrow> m > s)"

definition turn_due :: "direction \<Rightarrow> turn_input \<Rightarrow> bool" where
  "turn_due d input =
    (if d_force_turn d then True
     else case input of Unchanged \<Rightarrow> False | PeerTurn m _ _ \<Rightarrow> newer m (d_m_seen d))"

definition take_pending_turn :: "direction \<Rightarrow> own_turn option \<times> direction" where
  "take_pending_turn d = (d_pending_turn d, d\<lparr>d_pending_turn := None\<rparr>)"

text \<open>The peer key, the peer secret and the peer turn this message's \<open>m\<close> reports.\<close>

definition peer_inputs ::
  "direction \<Rightarrow> turn_input \<Rightarrow> byte list option \<times> byte list option \<times> u64 option" where
  "peer_inputs d input =
    (case input of
       PeerTurn m pk ss \<Rightarrow>
         if newer m (d_m_seen d) then (Some pk, ss, Some m)
         else (d_peer_pk d, d_peer_ss d, d_m_seen d)
     | Unchanged \<Rightarrow> (d_peer_pk d, d_peer_ss d, d_m_seen d))"

text \<open>
  The root, the chain, the turn number and what the turn minted (the key pair, the secret and the
  ciphertext), where one is due; otherwise the chain as it stands.
\<close>

type_synonym minted = "ratchet_keypair \<times> byte list \<times> byte list"

definition turn_material ::
  "oxi \<Rightarrow> fill \<Rightarrow> direction \<Rightarrow> bool \<Rightarrow> byte list option \<Rightarrow> byte list option \<Rightarrow>
   chain_error + (byte list \<times> byte list \<times> u64 \<times> minted option)" where
  "turn_material ox fill d due peer_pk peer_ss =
    (if due then
       rbind (ok_or NoPeerKey peer_pk) (\<lambda>pk.
       rbind (mint ox fill) (\<lambda>keypair.
       rbind (encapsulate ox pk fill) (\<lambda>(own_ss, kem_ct).
       rbind (advance_root ox (d_root d) peer_ss own_ss) (\<lambda>root.
       rbind (chain_from_root ox root) (\<lambda>chain.
       Inr (root, chain, (if d_chain d \<noteq> None then d_n d + 1 else d_n d),
            Some (keypair, own_ss, kem_ct)))))))
     else
       rbind (ok_or NoTurn (d_chain d)) (\<lambda>chain. Inr (d_root d, chain, d_n d, None)))"

definition direction_seal ::
  "oxi \<Rightarrow> byte list option \<Rightarrow> fill \<Rightarrow> turn_input \<Rightarrow> byte list \<Rightarrow> u32 \<Rightarrow> direction \<Rightarrow>
   (chain_error + (message_header \<times> byte list)) \<times> direction" where
  "direction_seal ox draw fill input body device_id d =
    (let outcome =
       (if d_pending_turn d \<noteq> None then Inl PendingTurnNotTaken
        else let due = turn_due d input; (peer_pk, peer_ss, m_seen) = peer_inputs d input
        in rbind (turn_material ox fill d due peer_pk peer_ss) (\<lambda>(root, chain, n, minted).
           let header = \<lparr>h_device_id = device_id, h_n = n,
                 h_m = (case m_seen of None \<Rightarrow> 0 | Some m \<Rightarrow> m), h_seq = d_seq d, h_cursor = d_cursor d,
                 h_kem_ct = map_option (\<lambda>(_, _, ct). ct) minted,
                 h_kem_pk = map_option (\<lambda>(pair, _, _). kp_pk pair) minted\<rparr>
           in rbind (chain_step ox chain) (\<lambda>(mk, next_chain).
              rbind (seal_under ox draw mk (message_aad header) body) (\<lambda>sealed.
              Inr ((header, sealed),
                d\<lparr>d_root := root, d_chain := Some next_chain, d_n := n, d_m_seen := m_seen,
                  d_seq := d_seq d + 1, d_peer_pk := peer_pk, d_peer_ss := peer_ss,
                  d_force_turn := False,
                  d_pending_turn := (case minted of None \<Rightarrow> d_pending_turn d
                    | Some (keypair, own_ss, _) \<Rightarrow>
                        Some \<lparr>ot_m = n, ot_keypair = keypair, ot_ss = Some own_ss\<rparr>)\<rparr>)))))
     in case outcome of Inl e \<Rightarrow> (Inl e, d) | Inr (r, d') \<Rightarrow> (Inr r, d'))"

section \<open>The reading half\<close>

definition retained_own_turns :: "receiving \<Rightarrow> nat" where
  "retained_own_turns r = length (filter (\<lambda>t. t \<noteq> None) [fst (v_own_turns r), snd (v_own_turns r)])"

definition retain :: "own_turn \<Rightarrow> receiving \<Rightarrow> receiving" where
  "retain turn r = r\<lparr>v_own_turns := (Some turn, fst (v_own_turns r))\<rparr>"

definition find_own :: "u64 \<Rightarrow> own_turn option \<times> own_turn option \<Rightarrow> own_turn option" where
  "find_own m turns = List.find (\<lambda>t. ot_m t = m)
     ((case fst turns of None \<Rightarrow> [] | Some t \<Rightarrow> [t]) @ (case snd turns of None \<Rightarrow> [] | Some t \<Rightarrow> [t]))"

definition read_material ::
  "oxi \<Rightarrow> receiving \<Rightarrow> message_header \<Rightarrow>
   chain_error + (byte list \<times> byte list \<times> u64 \<times> peer_turn option)" where
  "read_material ox r h =
    (case (h_kem_ct h, h_kem_pk h) of
       (Some _, None) \<Rightarrow> Inl CTurnFieldsIncomplete
     | (None, Some _) \<Rightarrow> Inl CTurnFieldsIncomplete
     | (Some kem_ct, Some kem_pk) \<Rightarrow>
         rbind (ok_or (SecretGone (h_m h)) (find_own (h_m h) (v_own_turns r))) (\<lambda>own.
         rbind (map_err CModule (ml_kem_decapsulate ox (kp_dk (ot_keypair own)) kem_ct)) (\<lambda>peer_ss.
         rbind (advance_root ox (v_root r) (ot_ss own) peer_ss) (\<lambda>root.
         rbind (chain_from_root ox root) (\<lambda>chain.
         Inr (root, chain, h_n h, Some \<lparr>pt_m = h_n h, pt_pk = kem_pk, pt_ss = Some peer_ss\<rparr>)))))
     | (None, None) \<Rightarrow>
         rbind (ok_or NoTurn (v_chain r)) (\<lambda>chain. Inr (v_root r, chain, v_n r, None)))"

text \<open>The retention rule at the end of an open that read a turn.\<close>

definition note_read :: "message_header \<Rightarrow> peer_turn option \<Rightarrow> receiving \<Rightarrow> receiving" where
  "note_read h read r =
    (case read of None \<Rightarrow> r
     | Some p \<Rightarrow> r\<lparr>v_own_turns := (fst (v_own_turns r),
                     (case fst (v_own_turns r) of
                        Some t \<Rightarrow> if ot_m t = h_m h then None else snd (v_own_turns r)
                      | None \<Rightarrow> snd (v_own_turns r))),
                   v_peer_latest := Some p\<rparr>)"

definition receiving_open ::
  "oxi \<Rightarrow> message_header \<Rightarrow> byte list \<Rightarrow> receiving \<Rightarrow> (chain_error + byte list) \<times> receiving" where
  "receiving_open ox h ciphertext r =
    (let outcome =
       (if h_seq h < v_next_seq r then Inl (AlreadyOpened (h_seq h))
        else if h_seq h > v_next_seq r then Inl (OutOfOrder (v_next_seq r) (h_seq h))
        else rbind (read_material ox r h) (\<lambda>(root, chain, n, read).
             rbind (chain_step ox chain) (\<lambda>(mk, next_chain).
             rbind (open_under ox mk (message_aad h) ciphertext) (\<lambda>body.
             Inr (body, note_read h read
               (r\<lparr>v_root := root, v_chain := Some next_chain, v_n := n,
                  v_next_seq := v_next_seq r + 1\<rparr>))))))
     in case outcome of Inl e \<Rightarrow> (Inl e, r) | Inr (b, r') \<Rightarrow> (Inr b, r'))"

section \<open>Both halves\<close>

definition conversation_seal ::
  "oxi \<Rightarrow> byte list option \<Rightarrow> fill \<Rightarrow> byte list \<Rightarrow> u32 \<Rightarrow> conversation \<Rightarrow>
   (chain_error + (message_header \<times> byte list)) \<times> conversation" where
  "conversation_seal ox draw fill body device_id cv =
    (let input = (case v_peer_latest (cv_receiving cv) of
                    Some peer \<Rightarrow> PeerTurn (pt_m peer) (pt_pk peer) (pt_ss peer)
                  | None \<Rightarrow> Unchanged);
         sending = set_cursor (v_next_seq (cv_receiving cv)) (cv_sending cv)
     in case direction_seal ox draw fill input body device_id sending of
          (Inl e, d) \<Rightarrow> (Inl e, cv\<lparr>cv_sending := d\<rparr>)
        | (Inr sealed, d) \<Rightarrow>
            (case take_pending_turn d of
               (None, d') \<Rightarrow> (Inr sealed, cv\<lparr>cv_sending := d'\<rparr>)
             | (Some turn, d') \<Rightarrow>
                 (Inr sealed, cv\<lparr>cv_sending := d', cv_receiving := retain turn (cv_receiving cv)\<rparr>)))"

definition conversation_open ::
  "oxi \<Rightarrow> message_header \<Rightarrow> byte list \<Rightarrow> conversation \<Rightarrow> (chain_error + byte list) \<times> conversation" where
  "conversation_open ox h ciphertext cv =
    (case receiving_open ox h ciphertext (cv_receiving cv) of
       (res, r) \<Rightarrow> (res, cv\<lparr>cv_receiving := r\<rparr>))"

definition fresh_receiving :: "byte list \<Rightarrow> byte list option \<Rightarrow> receiving" where
  "fresh_receiving root chain =
    \<lparr>v_root = root, v_chain = chain, v_n = 0, v_next_seq = 0, v_own_turns = (None, None),
     v_peer_latest = None\<rparr>"

definition fresh_direction :: "byte list \<Rightarrow> byte list option \<Rightarrow> direction" where
  "fresh_direction root chain =
    \<lparr>d_root = root, d_chain = chain, d_n = 0, d_m_seen = None, d_seq = 0, d_cursor = 0,
     d_peer_pk = None, d_peer_ss = None, d_pending_turn = None, d_force_turn = False\<rparr>"

definition initiate :: "oxi \<Rightarrow> byte list \<Rightarrow> fill \<Rightarrow> chain_error + (byte list \<times> conversation)" where
  "initiate ox ss0 fill =
    rbind (seed_root ox ss0) (\<lambda>root.
    rbind (chain_from_root ox root) (\<lambda>chain.
    rbind (mint ox fill) (\<lambda>keypair.
    Inr (kp_pk keypair,
      \<lparr>cv_sending = fresh_direction root (Some chain),
       cv_receiving = retain \<lparr>ot_m = 0, ot_keypair = keypair, ot_ss = None\<rparr>
         (fresh_receiving root None)\<rparr>))))"

definition chain_accept :: "oxi \<Rightarrow> byte list \<Rightarrow> byte list \<Rightarrow> chain_error + conversation" where
  "chain_accept ox ss0 initiator_ratchet_pk =
    rbind (seed_root ox ss0) (\<lambda>root.
    rbind (chain_from_root ox root) (\<lambda>chain.
    Inr \<lparr>cv_sending = fresh_direction root None,
         cv_receiving = (fresh_receiving root (Some chain))\<lparr>v_peer_latest :=
           Some \<lparr>pt_m = 0, pt_pk = initiator_ratchet_pk, pt_ss = None\<rparr>\<rparr>\<rparr>))"

definition reset_all :: "conversation list \<Rightarrow> reset_action \<times> conversation list" where
  "reset_all cvs = (RotateAdvert, map (\<lambda>cv. cv\<lparr>cv_sending := force_next_turn (cv_sending cv)\<rparr>) cvs)"


section \<open>At rest\<close>

text \<open>
  A snapshot has its own types (\<open>ConversationSnapshot\<close>, \<open>DirectionState\<close>, \<open>ReceivingState\<close>), filled
  by copy field by field, and is read back by \<open>restore\<close>.
\<close>

record direction_state =
  ds_root :: "byte list"
  ds_chain :: "byte list option"
  ds_n :: u64
  ds_m_seen :: "u64 option"
  ds_seq :: u64
  ds_cursor :: u64
  ds_peer_pk :: "byte list option"
  ds_peer_ss :: "byte list option"
  ds_pending_turn :: "own_turn option"
  ds_force_turn :: bool

record receiving_state =
  rs_root :: "byte list"
  rs_chain :: "byte list option"
  rs_n :: u64
  rs_next_seq :: u64
  rs_own_turns :: "own_turn option \<times> own_turn option"
  rs_peer_latest :: "peer_turn option"

record conversation_snapshot =
  sn_sending :: direction_state
  sn_receiving :: receiving_state

definition own_turn_duplicate :: "own_turn \<Rightarrow> own_turn" where
  "own_turn_duplicate t = \<lparr>ot_m = ot_m t,
     ot_keypair = \<lparr>kp_pk = kp_pk (ot_keypair t), kp_dk = kp_dk (ot_keypair t)\<rparr>, ot_ss = ot_ss t\<rparr>"

definition peer_turn_duplicate :: "peer_turn \<Rightarrow> peer_turn" where
  "peer_turn_duplicate p = \<lparr>pt_m = pt_m p, pt_pk = pt_pk p, pt_ss = pt_ss p\<rparr>"

definition snapshot :: "conversation \<Rightarrow> conversation_snapshot" where
  "snapshot cv = \<lparr>
     sn_sending = \<lparr>ds_root = d_root (cv_sending cv), ds_chain = d_chain (cv_sending cv),
       ds_n = d_n (cv_sending cv), ds_m_seen = d_m_seen (cv_sending cv),
       ds_seq = d_seq (cv_sending cv), ds_cursor = d_cursor (cv_sending cv),
       ds_peer_pk = d_peer_pk (cv_sending cv), ds_peer_ss = d_peer_ss (cv_sending cv),
       ds_pending_turn = map_option own_turn_duplicate (d_pending_turn (cv_sending cv)),
       ds_force_turn = d_force_turn (cv_sending cv)\<rparr>,
     sn_receiving = \<lparr>rs_root = v_root (cv_receiving cv), rs_chain = v_chain (cv_receiving cv),
       rs_n = v_n (cv_receiving cv), rs_next_seq = v_next_seq (cv_receiving cv),
       rs_own_turns = (map_option own_turn_duplicate (fst (v_own_turns (cv_receiving cv))),
                       map_option own_turn_duplicate (snd (v_own_turns (cv_receiving cv)))),
       rs_peer_latest = map_option peer_turn_duplicate (v_peer_latest (cv_receiving cv))\<rparr>\<rparr>"

definition restore :: "conversation_snapshot \<Rightarrow> conversation" where
  "restore st = \<lparr>
     cv_sending = \<lparr>d_root = ds_root (sn_sending st), d_chain = ds_chain (sn_sending st),
       d_n = ds_n (sn_sending st), d_m_seen = ds_m_seen (sn_sending st), d_seq = ds_seq (sn_sending st),
       d_cursor = ds_cursor (sn_sending st), d_peer_pk = ds_peer_pk (sn_sending st),
       d_peer_ss = ds_peer_ss (sn_sending st), d_pending_turn = ds_pending_turn (sn_sending st),
       d_force_turn = ds_force_turn (sn_sending st)\<rparr>,
     cv_receiving = \<lparr>v_root = rs_root (sn_receiving st), v_chain = rs_chain (sn_receiving st),
       v_n = rs_n (sn_receiving st), v_next_seq = rs_next_seq (sn_receiving st),
       v_own_turns = rs_own_turns (sn_receiving st), v_peer_latest = rs_peer_latest (sn_receiving st)\<rparr>\<rparr>"

lemma restore_snapshot: "restore (snapshot cv) = cv"
proof -
  have t: "own_turn_duplicate = (\<lambda>t. t)" "peer_turn_duplicate = (\<lambda>p. p)"
    by (simp_all add: own_turn_duplicate_def peer_turn_duplicate_def fun_eq_iff)
  show ?thesis
    by (simp add: restore_def snapshot_def t option.map_ident)
qed

end
