(* ===== verification/Chain_Sync.thy ===== *)
theory Chain_Sync
  imports Chain
begin

text \<open>
  The two ends of a conversation stay in step. A reader's state next to the messages in flight
  determines the writer's (\<open>feeds\<close>); of the two parties one is a turn ahead (\<open>leads\<close>), and a seal,
  an open or a restart on either side keeps that. The section at the end composes the operations
  into a system of two parties with the slots' bytes between them, an instance of \<open>machine\<close>.
  A user-triggered reset (\<open>reset_all\<close>) is not one of its events.
\<close>

section \<open>One seal, one open\<close>

lemma direction_seal_failed: "direction_seal ox draw fill i body dev d = (Inl e, d') \<Longrightarrow> d' = d"
  by (auto simp: direction_seal_def Let_def split: sum.splits)

lemma receiving_open_failed: "receiving_open ox h c r = (Inl e, r') \<Longrightarrow> r' = r"
  by (auto simp: receiving_open_def Let_def split: sum.splits)

lemma peer_inputs_stale:
  "\<not> turn_due d i \<Longrightarrow> peer_inputs d i = (d_peer_pk d, d_peer_ss d, d_m_seen d)"
  by (auto simp: turn_due_def peer_inputs_def split: if_splits turn_input.splits)

text \<open>A message that opens no turn: the chain steps, the root and the turn stay.\<close>

lemma direction_seal_quietE:
  assumes "direction_seal ox draw fill i body dev d = (Inr (h, c), d')" and "\<not> turn_due d i"
  obtains ck mk ck' where "d_pending_turn d = None" "d_chain d = Some ck" "chain_step ox ck = Inr (mk, ck')"
    "seal_under ox draw mk (message_aad h) body = Inr c"
    "h = \<lparr>h_device_id = dev, h_n = d_n d, h_m = (case d_m_seen d of None \<Rightarrow> 0 | Some m \<Rightarrow> m),
          h_seq = d_seq d, h_cursor = d_cursor d, h_kem_ct = None, h_kem_pk = None\<rparr>"
    "d' = d\<lparr>d_chain := Some ck', d_seq := d_seq d + 1, d_force_turn := False\<rparr>"
  using assms
  by (auto simp: direction_seal_def Let_def peer_inputs_stale turn_material_def result_simps
      split: sum.splits if_splits)

text \<open>A message that opens a turn.\<close>

lemma direction_seal_turnE:
  assumes "direction_seal ox draw fill i body dev d = (Inr (h, c), d')" and "turn_due d i"
    and "peer_inputs d i = (peer_pk, peer_ss, m_seen)"
  obtains pk kp own_ss ct root chain n mk ck' where
    "d_pending_turn d = None" "peer_pk = Some pk" "mint ox fill = Inr kp"
    "encapsulate ox pk fill = Inr (own_ss, ct)" "advance_root ox (d_root d) peer_ss own_ss = Inr root"
    "chain_from_root ox root = Inr chain" "n = (if d_chain d \<noteq> None then d_n d + 1 else d_n d)"
    "chain_step ox chain = Inr (mk, ck')" "seal_under ox draw mk (message_aad h) body = Inr c"
    "h = \<lparr>h_device_id = dev, h_n = n, h_m = (case m_seen of None \<Rightarrow> 0 | Some m \<Rightarrow> m),
          h_seq = d_seq d, h_cursor = d_cursor d, h_kem_ct = Some ct, h_kem_pk = Some (kp_pk kp)\<rparr>"
    "d' = d\<lparr>d_root := root, d_chain := Some ck', d_n := n, d_m_seen := m_seen,
          d_seq := d_seq d + 1, d_peer_pk := peer_pk, d_peer_ss := peer_ss, d_force_turn := False,
          d_pending_turn := Some \<lparr>ot_m = n, ot_keypair = kp, ot_ss = Some own_ss\<rparr>\<rparr>"
  using assms
  by (auto simp: direction_seal_def Let_def turn_material_def result_simps
      split: sum.splits if_splits)

lemma receiving_openE:
  assumes "receiving_open ox h c r = (Inr body, r')"
  obtains root chain n read mk ck' where "h_seq h = v_next_seq r"
    "read_material ox r h = Inr (root, chain, n, read)" "chain_step ox chain = Inr (mk, ck')"
    "open_under ox mk (message_aad h) c = Inr body"
    "r' = note_read h read (r\<lparr>v_root := root, v_chain := Some ck', v_n := n,
             v_next_seq := v_next_seq r + 1\<rparr>)"
  using assms
  by (auto simp: receiving_open_def Let_def result_simps split: sum.splits if_splits)

lemma receiving_openI:
  assumes "h_seq h = v_next_seq r"
    "read_material ox r h = Inr (root, chain, n, read)" "chain_step ox chain = Inr (mk, ck')"
    "open_under ox mk (message_aad h) c = Inr body"
  shows "receiving_open ox h c r = (Inr body, note_read h read (r\<lparr>v_root := root,
     v_chain := Some ck', v_n := n, v_next_seq := v_next_seq r + 1\<rparr>))"
  using assms by (simp add: receiving_open_def)

section \<open>Quiet headers\<close>

definition quiet :: "message_header \<Rightarrow> bool" where
  "quiet h = (h_kem_ct h = None \<and> h_kem_pk h = None)"

lemma quiet_wf: "quiet h \<Longrightarrow> header_wf h"
  by (simp add: quiet_def header_wf_def)

lemma read_material_quiet:
  "quiet h \<Longrightarrow> read_material ox r h =
     rbind (ok_or NoTurn (v_chain r)) (\<lambda>chain. Inr (v_root r, chain, v_n r, None))"
  by (simp add: read_material_def quiet_def)

text \<open>An open of a quiet header neither reads nor changes the retained turns.\<close>

lemma receiving_open_quiet:
  assumes "quiet h" "receiving_open ox h c r = (Inr b, r')"
  shows "v_own_turns r' = v_own_turns r \<and> v_peer_latest r' = v_peer_latest r \<and>
    receiving_open ox h c (r\<lparr>v_own_turns := t\<rparr>) = (Inr b, r'\<lparr>v_own_turns := t\<rparr>)"
  using assms(2)
proof (rule receiving_openE)
  fix root chain n read mk ck'
  assume a: "h_seq h = v_next_seq r" "read_material ox r h = Inr (root, chain, n, read)"
    "chain_step ox chain = Inr (mk, ck')" "open_under ox mk (message_aad h) c = Inr b"
    "r' = note_read h read (r\<lparr>v_root := root, v_chain := Some ck', v_n := n,
             v_next_seq := v_next_seq r + 1\<rparr>)"
  have rd: "v_chain r = Some chain" "root = v_root r" "n = v_n r" "read = None"
    using a(2) by (auto simp: read_material_quiet [OF assms(1)] result_simps)
  with a show ?thesis
    by (simp add: note_read_def receiving_open_def read_material_quiet [OF assms(1)])
qed


section \<open>A reader fed by a writer\<close>

text \<open>
  What is in flight: the header, the sealed body and, for the statement only, the body that was
  sealed. \<open>feeds\<close>: opening everything in flight, in order, gives the sealed bodies and leaves the
  reader where the writer stands.
\<close>

type_synonym flight = "(message_header \<times> byte list \<times> byte list) list"

fun feeds :: "oxi \<Rightarrow> receiving \<Rightarrow> flight \<Rightarrow> direction \<Rightarrow> bool" where
  "feeds ox r [] d = (v_root r = d_root d \<and> v_chain r = d_chain d \<and> v_n r = d_n d \<and>
     v_next_seq r = d_seq d)"
| "feeds ox r ((h, c, b) # q) d =
     (fst (receiving_open ox h c r) = Inr b \<and> feeds ox (snd (receiving_open ox h c r)) q d)"

definition all_quiet :: "flight \<Rightarrow> bool" where
  "all_quiet q = (\<forall>x\<in>set q. quiet (fst x))"

lemma all_quiet_simps [simp]:
  "all_quiet []" "all_quiet ((h, x) # q) \<longleftrightarrow> quiet h \<and> all_quiet q"
  "all_quiet (p @ q) \<longleftrightarrow> all_quiet p \<and> all_quiet q"
  by (auto simp: all_quiet_def)

lemma feeds_cong:
  "d_root d = d_root d' \<Longrightarrow> d_chain d = d_chain d' \<Longrightarrow> d_n d = d_n d' \<Longrightarrow> d_seq d = d_seq d'
   \<Longrightarrow> feeds ox r q d = feeds ox r q d'"
  by (induction ox r q d rule: feeds.induct) auto

lemma feeds_own_turns:
  "all_quiet q \<Longrightarrow> feeds ox r q d \<Longrightarrow> feeds ox (r\<lparr>v_own_turns := t\<rparr>) q d"
proof (induction q arbitrary: r)
  case (Cons x q)
  obtain h c b where x: "x = (h, c, b)" by (cases x)
  obtain r' where o: "receiving_open ox h c r = (Inr b, r')"
    using Cons.prems(2) x by (cases "receiving_open ox h c r") simp
  with receiving_open_quiet [OF _ o, of t] Cons x show ?case by simp
qed simp

text \<open>The reader once everything in flight is open.\<close>

lemma feeds_end:
  assumes "feeds ox r q d" "all_quiet q"
  shows "\<exists>r'. v_own_turns r' = v_own_turns r \<and> feeds ox r' [] d \<and>
    (\<forall>p d'. feeds ox r' p d' \<longrightarrow> feeds ox r (q @ p) d')"
  using assms
proof (induction q arbitrary: r)
  case Nil
  then show ?case by auto
next
  case (Cons x q)
  obtain h c b where x: "x = (h, c, b)" by (cases x)
  obtain r1 where o: "receiving_open ox h c r = (Inr b, r1)"
    using Cons.prems(1) x by (cases "receiving_open ox h c r") simp
  have f: "feeds ox r1 q d" "all_quiet q" "quiet h" using Cons.prems x o by simp_all
  with receiving_open_quiet [OF f(3) o] Cons.IH [OF f(1,2)] show ?case by (simp add: x o)
qed

text \<open>A quiet message extends what is in flight, whatever turns are in flight before it.\<close>

lemma feeds_quiet_message:
  assumes law: "gcm_law ox" and f: "feeds ox r q d"
    and s: "direction_seal ox draw fill i body dev d = (Inr (h, c), d')" "\<not> turn_due d i"
  shows "feeds ox r (q @ [(h, c, body)]) d' \<and> quiet h"
  using s
proof (rule direction_seal_quietE)
  fix ck mk ck'
  assume a: "d_chain d = Some ck" "chain_step ox ck = Inr (mk, ck')"
    "seal_under ox draw mk (message_aad h) body = Inr c"
    and h: "h = \<lparr>h_device_id = dev, h_n = d_n d, h_m = (case d_m_seen d of None \<Rightarrow> 0 | Some m \<Rightarrow> m),
          h_seq = d_seq d, h_cursor = d_cursor d, h_kem_ct = None, h_kem_pk = None\<rparr>"
    and d': "d' = d\<lparr>d_chain := Some ck', d_seq := d_seq d + 1, d_force_turn := False\<rparr>"
  have qh: "quiet h" by (simp add: quiet_def h)
  have o: "open_under ox mk (message_aad h) c = Inr body" using open_seal_under [OF law a(3)] .
  have "feeds ox r (q @ [(h, c, body)]) d'" using f
  proof (induction q arbitrary: r)
    case Nil
    have "receiving_open ox h c r = (Inr body, note_read h None (r\<lparr>v_root := v_root r,
       v_chain := Some ck', v_n := v_n r, v_next_seq := v_next_seq r + 1\<rparr>))"
      using Nil a(1,2) o by (intro receiving_openI [where chain = ck and mk = mk])
        (simp_all add: h read_material_quiet quiet_def)
    with Nil show ?case by (simp add: d' note_read_def)
  next
    case (Cons x q)
    then show ?case by (cases x) simp
  qed
  with qh show ?thesis by simp
qed


text \<open>
  A message that opens a turn extends what is in flight, where everything before it is quiet and
  the reader still retains the own turn it was encapsulated to.
\<close>

definition valid_turn :: "oxi \<Rightarrow> own_turn \<Rightarrow> bool" where
  "valid_turn ox t = (\<exists>d z. ml_kem_keygen ox d z = Inr (kp_pk (ot_keypair t), kp_dk (ot_keypair t)))"

lemma feeds_turn_message:
  assumes law: "gcm_law ox" "kem_law ox" and f: "feeds ox r q d" "all_quiet q"
    and s: "direction_seal ox draw fill i body dev d = (Inr (h, c), d')" "turn_due d i"
    and p: "peer_inputs d i = (Some (kp_pk (ot_keypair own)), ot_ss own, Some (ot_m own))"
    and own: "fst (v_own_turns r) = Some own" "valid_turn ox own"
  obtains t ct ss where "feeds ox r (q @ [(h, c, body)]) d'" "valid_turn ox t" "ot_m t = d_n d'"
    "d_n d' = (if d_chain d \<noteq> None then d_n d + 1 else d_n d)" "d_chain d' \<noteq> None"
    "h_kem_ct h = Some ct" "h_kem_pk h = Some (kp_pk (ot_keypair t))" "h_n h = ot_m t"
    "h_m h = ot_m own" "ot_ss t = Some ss" "header_wf h"
    "ml_kem_decapsulate ox (kp_dk (ot_keypair own)) ct = Inr ss"
    "d_pending_turn d' = Some t" "\<not> d_force_turn d'" "d_m_seen d' = Some (ot_m own)"
  using s p
proof (rule direction_seal_turnE)
  fix pk kp own_ss ct root chain n mk ck'
  assume pk: "Some (kp_pk (ot_keypair own)) = Some pk" and kp: "mint ox fill = Inr kp"
    and e: "encapsulate ox pk fill = Inr (own_ss, ct)"
    and root: "advance_root ox (d_root d) (ot_ss own) own_ss = Inr root"
    and chain: "chain_from_root ox root = Inr chain"
    and n: "n = (if d_chain d \<noteq> None then d_n d + 1 else d_n d)"
    and st: "chain_step ox chain = Inr (mk, ck')"
    and sl: "seal_under ox draw mk (message_aad h) body = Inr c"
    and h: "h = \<lparr>h_device_id = dev, h_n = n, h_m = (case Some (ot_m own) of None \<Rightarrow> 0 | Some m \<Rightarrow> m),
          h_seq = d_seq d, h_cursor = d_cursor d, h_kem_ct = Some ct, h_kem_pk = Some (kp_pk kp)\<rparr>"
    and d': "d' = d\<lparr>d_root := root, d_chain := Some ck', d_n := n, d_m_seen := Some (ot_m own),
          d_seq := d_seq d + 1, d_peer_pk := Some (kp_pk (ot_keypair own)), d_peer_ss := ot_ss own,
          d_force_turn := False,
          d_pending_turn := Some \<lparr>ot_m = n, ot_keypair = kp, ot_ss = Some own_ss\<rparr>\<rparr>"
  let ?t = "\<lparr>ot_m = n, ot_keypair = kp, ot_ss = Some own_ss\<rparr>"
  obtain a z where kg: "ml_kem_keygen ox a z = Inr (kp_pk kp, kp_dk kp)"
    using kp by (auto simp: mint_def result_simps)
  obtain a' z' where kg': "ml_kem_keygen ox a' z' = Inr (kp_pk (ot_keypair own), kp_dk (ot_keypair own))"
    using own(2) by (auto simp: valid_turn_def)
  have dec: "ml_kem_decapsulate ox (kp_dk (ot_keypair own)) ct = Inr own_ss" "length ct = KEM_CT_LEN"
    using mint_encapsulate [OF law(2) kg'] e pk by simp_all
  obtain r' where r': "v_own_turns r' = v_own_turns r" "feeds ox r' [] d"
    "\<And>p d'. feeds ox r' p d' \<Longrightarrow> feeds ox r (q @ p) d'"
    using feeds_end [OF f] by blast
  have "find_own (h_m h) (v_own_turns r') = Some own"
    using own(1) by (simp add: find_own_def r'(1) h)
  then have "read_material ox r' h
      = Inr (root, chain, n, Some \<lparr>pt_m = n, pt_pk = kp_pk kp, pt_ss = Some own_ss\<rparr>)"
    using dec root chain r'(2) by (simp add: read_material_def h)
  from receiving_openI [OF _ this st, of c body] have "feeds ox r' [(h, c, body)] d'"
    using open_seal_under [OF law(1) sl] r'(2) by (simp add: h d' note_read_def)
  from r'(3) [OF this] have fd: "feeds ox r (q @ [(h, c, body)]) d'" .
  have "header_wf h"
    using dec(2) kem_law_keygen [OF law(2) kg] by (simp add: header_wf_def h)
  moreover have "valid_turn ox ?t" using kg by (auto simp: valid_turn_def)
  ultimately show thesis
    using fd dec(1) by (intro that [of ?t ct own_ss]) (simp_all add: d' h n)
qed

section \<open>Which side is a turn ahead\<close>

text \<open>
  One party (the leader) has minted the latest turn; the other (the follower) has answered every
  turn before it. Either the leader's turn-opening message is still in flight, or the follower has
  read it and its next message opens its own next turn. Everything the follower has in flight is
  quiet, since the leader has read all its turns.
\<close>

definition own_latest :: "conversation \<Rightarrow> own_turn option" where
  "own_latest cv = fst (v_own_turns (cv_receiving cv))"

definition turn_state :: "oxi \<Rightarrow> conversation \<Rightarrow> bool" where
  "turn_state ox cv =
    (d_pending_turn (cv_sending cv) = None \<and> \<not> d_force_turn (cv_sending cv) \<and>
     (d_chain (cv_sending cv) = None \<longleftrightarrow> own_latest cv = None) \<and>
     (own_latest cv = None \<longrightarrow> d_n (cv_sending cv) = 0) \<and>
     (\<forall>t. own_latest cv = Some t \<longrightarrow> valid_turn ox t \<and> ot_m t = d_n (cv_sending cv)))"

definition caught_up :: "conversation \<Rightarrow> bool" where
  "caught_up cv = (map_option pt_m (v_peer_latest (cv_receiving cv)) = d_m_seen (cv_sending cv))"

definition turn_start :: "oxi \<Rightarrow> own_turn \<Rightarrow> conversation \<Rightarrow> message_header \<Rightarrow> bool" where
  "turn_start ox t F h =
    (\<exists>u ct ss. own_latest F = Some u \<and> h_kem_ct h = Some ct \<and>
       h_kem_pk h = Some (kp_pk (ot_keypair t)) \<and> h_n h = ot_m t \<and> h_m h = ot_m u \<and>
       ot_ss t = Some ss \<and> ml_kem_decapsulate ox (kp_dk (ot_keypair u)) ct = Inr ss \<and> header_wf h)"

definition turn_read :: "own_turn \<Rightarrow> conversation \<Rightarrow> bool" where
  "turn_read t F = (v_peer_latest (cv_receiving F) =
     Some \<lparr>pt_m = ot_m t, pt_pk = kp_pk (ot_keypair t), pt_ss = ot_ss t\<rparr>)"

definition awaiting :: "oxi \<Rightarrow> own_turn \<Rightarrow> conversation \<Rightarrow> flight \<Rightarrow> bool" where
  "awaiting ox t F q =
    (caught_up F \<and> (\<exists>p x s. q = p @ x # s \<and> all_quiet p \<and> all_quiet s \<and> turn_start ox t F (fst x))
     \<or> all_quiet q \<and> turn_read t F)"

definition leads :: "oxi \<Rightarrow> conversation \<Rightarrow> conversation \<Rightarrow> flight \<Rightarrow> flight \<Rightarrow> bool" where
  "leads ox L F qLF qFL =
    (turn_state ox L \<and> turn_state ox F \<and> caught_up L \<and>
     d_m_seen (cv_sending L) = map_option ot_m (own_latest F) \<and>
     newer (d_n (cv_sending L)) (d_m_seen (cv_sending F)) \<and>
     all_quiet qFL \<and> feeds ox (cv_receiving L) qFL (cv_sending F) \<and>
     feeds ox (cv_receiving F) qLF (cv_sending L) \<and>
     (\<exists>t. own_latest L = Some t \<and> awaiting ox t F qLF))"

definition seal_input :: "conversation \<Rightarrow> turn_input" where
  "seal_input cv = (case v_peer_latest (cv_receiving cv) of
     Some peer \<Rightarrow> PeerTurn (pt_m peer) (pt_pk peer) (pt_ss peer) | None \<Rightarrow> Unchanged)"

abbreviation with_cursor :: "conversation \<Rightarrow> direction" where
  "with_cursor cv \<equiv> set_cursor (v_next_seq (cv_receiving cv)) (cv_sending cv)"

lemma set_cursor_simps [simp]:
  "d_root (set_cursor x d) = d_root d" "d_chain (set_cursor x d) = d_chain d"
  "d_n (set_cursor x d) = d_n d" "d_m_seen (set_cursor x d) = d_m_seen d"
  "d_seq (set_cursor x d) = d_seq d" "d_peer_pk (set_cursor x d) = d_peer_pk d"
  "d_peer_ss (set_cursor x d) = d_peer_ss d" "d_pending_turn (set_cursor x d) = d_pending_turn d"
  "d_force_turn (set_cursor x d) = d_force_turn d"
  by (simp_all add: set_cursor_def)

lemma feeds_set_cursor [simp]: "feeds ox r q (set_cursor x d) = feeds ox r q d"
  by (rule feeds_cong) simp_all

lemma conversation_seal_eq:
  "conversation_seal ox draw fill body dev cv =
    (case direction_seal ox draw fill (seal_input cv) body dev (with_cursor cv) of
       (Inl e, d) \<Rightarrow> (Inl e, cv\<lparr>cv_sending := d\<rparr>)
     | (Inr sealed, d) \<Rightarrow> (Inr sealed,
         (case d_pending_turn d of
            None \<Rightarrow> cv\<lparr>cv_sending := d\<lparr>d_pending_turn := None\<rparr>\<rparr>
          | Some t \<Rightarrow> cv\<lparr>cv_sending := d\<lparr>d_pending_turn := None\<rparr>,
                        cv_receiving := retain t (cv_receiving cv)\<rparr>)))"
  by (simp add: conversation_seal_def seal_input_def take_pending_turn_def Let_def
      split: sum.split prod.split option.split)

text \<open>A failed seal publishes nothing and moves nothing but the cursor field.\<close>

lemma conversation_seal_failed:
  "conversation_seal ox draw fill body dev cv = (Inl e, cv') \<Longrightarrow> cv' = cv\<lparr>cv_sending := with_cursor cv\<rparr>"
  by (auto simp: conversation_seal_eq split: prod.splits sum.splits dest: direction_seal_failed)

lemma leads_cursor [simp]:
  "leads ox (L\<lparr>cv_sending := set_cursor x (cv_sending L)\<rparr>) F p q = leads ox L F p q"
  "leads ox L (F\<lparr>cv_sending := set_cursor x (cv_sending F)\<rparr>) p q = leads ox L F p q"
  by (simp_all add: leads_def turn_state_def caught_up_def own_latest_def awaiting_def turn_start_def
      turn_read_def)

lemma not_due:
  "turn_state ox cv \<Longrightarrow> caught_up cv \<Longrightarrow> \<not> turn_due (with_cursor cv) (seal_input cv)"
  by (auto simp: turn_due_def seal_input_def turn_state_def caught_up_def newer_def
      split: option.splits)

section \<open>Each operation keeps the parties in step\<close>

lemma seal_when_caught_up:
  assumes "gcm_law ox" "turn_state ox cv" "caught_up cv" "feeds ox r q (cv_sending cv)"
    and "conversation_seal ox draw fill body dev cv = (Inr (h, c), cv')"
  shows "feeds ox r (q @ [(h, c, body)]) (cv_sending cv') \<and> quiet h \<and> turn_state ox cv' \<and>
    cv_receiving cv' = cv_receiving cv \<and> d_m_seen (cv_sending cv') = d_m_seen (cv_sending cv) \<and>
    d_n (cv_sending cv') = d_n (cv_sending cv)"
proof -
  let ?d = "with_cursor cv"
  obtain d' where s: "direction_seal ox draw fill (seal_input cv) body dev ?d = (Inr (h, c), d')"
    using assms(5) by (auto simp: conversation_seal_eq split: prod.splits sum.splits option.splits)
  have nd: "\<not> turn_due ?d (seal_input cv)" using assms(2,3) by (rule not_due)
  have "feeds ox r q ?d" using assms(4) by simp
  from feeds_quiet_message [OF assms(1) this s nd]
  have f: "feeds ox r (q @ [(h, c, body)]) d' \<and> quiet h" .
  from s nd obtain ck' where d': "d' = ?d\<lparr>d_chain := Some ck', d_seq := d_seq ?d + 1, d_force_turn := False\<rparr>"
    and ck: "d_chain ?d \<noteq> None"
    by (rule direction_seal_quietE) auto
  have "cv' = cv\<lparr>cv_sending := d'\<rparr>"
    using assms(2,5) s d'
    by (auto simp: conversation_seal_eq turn_state_def split: prod.splits sum.splits option.splits)
  with f d' ck assms(2) show ?thesis by (auto simp: turn_state_def own_latest_def)
qed

lemma awaiting_snoc: "awaiting ox t F q \<Longrightarrow> quiet h \<Longrightarrow> awaiting ox t F (q @ [(h, x)])"
  unfolding awaiting_def by (metis all_quiet_simps(2,3) append_Cons append_assoc append_Nil all_quiet_simps(1))

lemma leads_leader_seal:
  assumes "gcm_law ox" "leads ox L F p q"
    and "conversation_seal ox draw fill body dev L = (Inr (h, c), L')"
  shows "leads ox L' F (p @ [(h, c, body)]) q"
proof -
  from assms(2) have l: "turn_state ox L" "caught_up L" "feeds ox (cv_receiving F) p (cv_sending L)"
    by (simp_all add: leads_def)
  from seal_when_caught_up [OF assms(1) l assms(3)] assms(2) show ?thesis
    by (auto simp: leads_def caught_up_def own_latest_def intro: awaiting_snoc)
qed

lemma leads_caught_up_follower_seal:
  assumes "gcm_law ox" "leads ox L F p q" "caught_up F"
    and "conversation_seal ox draw fill body dev F = (Inr (h, c), F')"
  shows "leads ox L F' p (q @ [(h, c, body)])"
proof -
  from assms(2) have l: "turn_state ox F" "feeds ox (cv_receiving L) q (cv_sending F)"
    by (simp_all add: leads_def)
  from seal_when_caught_up [OF assms(1) l(1) assms(3) l(2) assms(4)] assms(2) show ?thesis
    by (auto simp: leads_def caught_up_def own_latest_def awaiting_def turn_start_def turn_read_def)
qed

text \<open>The follower has read the leader's turn: its next message opens its own, and it leads.\<close>

lemma leads_turn_seal:
  assumes law: "gcm_law ox" "kem_law ox" and l: "leads ox L F p q" and nc: "\<not> caught_up F"
    and s: "conversation_seal ox draw fill body dev F = (Inr (h, c), F')"
    and room: "unat (d_n (cv_sending F)) + 1 < 2 ^ 64"
  shows "leads ox F' L (q @ [(h, c, body)]) p \<and> unat (d_n (cv_sending F')) \<le> unat (d_n (cv_sending F)) + 1"
proof -
  let ?d = "with_cursor F"
  from l nc obtain own where own: "own_latest L = Some own" "all_quiet p" "turn_read own F"
    "valid_turn ox own" "ot_m own = d_n (cv_sending L)"
    by (auto simp: leads_def awaiting_def turn_state_def)
  have inp: "seal_input F = PeerTurn (ot_m own) (kp_pk (ot_keypair own)) (ot_ss own)"
    using own(3) by (simp add: seal_input_def turn_read_def)
  have nw: "newer (ot_m own) (d_m_seen (cv_sending F))" using l own(5) by (simp add: leads_def)
  obtain d' where sd: "direction_seal ox draw fill (seal_input F) body dev ?d = (Inr (h, c), d')"
    using s by (auto simp: conversation_seal_eq split: prod.splits sum.splits option.splits)
  have due: "turn_due ?d (seal_input F)" using nw by (simp add: turn_due_def inp)
  have pi: "peer_inputs ?d (seal_input F) = (Some (kp_pk (ot_keypair own)), ot_ss own, Some (ot_m own))"
    using nw by (simp add: peer_inputs_def inp)
  have f: "feeds ox (cv_receiving L) q ?d" "all_quiet q" using l by (simp_all add: leads_def)
  have o: "fst (v_own_turns (cv_receiving L)) = Some own" using own(1) by (simp add: own_latest_def)
  from feeds_turn_message [OF law f sd due pi o own(4)]
  obtain t ct ss where t: "feeds ox (cv_receiving L) (q @ [(h, c, body)]) d'" "valid_turn ox t"
    "ot_m t = d_n d'" "d_n d' = (if d_chain ?d \<noteq> None then d_n ?d + 1 else d_n ?d)"
    "d_chain d' \<noteq> None" "h_kem_ct h = Some ct" "h_kem_pk h = Some (kp_pk (ot_keypair t))"
    "h_n h = ot_m t" "h_m h = ot_m own" "ot_ss t = Some ss" "header_wf h"
    "ml_kem_decapsulate ox (kp_dk (ot_keypair own)) ct = Inr ss"
    "d_pending_turn d' = Some t" "\<not> d_force_turn d'" "d_m_seen d' = Some (ot_m own)"
    by blast
  have F': "F' = F\<lparr>cv_sending := d'\<lparr>d_pending_turn := None\<rparr>, cv_receiving := retain t (cv_receiving F)\<rparr>"
    using s sd t(13) by (simp add: conversation_seal_eq)
  have n': "unat (d_n d') \<le> unat (d_n (cv_sending F)) + 1"
    using t(4) room unat_Suc_word [of "d_n (cv_sending F)"] by (auto split: if_splits)
  have ts: "turn_state ox F" using l by (simp add: leads_def)
  have nw': "newer (d_n d') (d_m_seen (cv_sending L))"
  proof (cases "own_latest F")
    case None
    with l show ?thesis by (simp add: leads_def newer_def)
  next
    case (Some u)
    with ts t(4) have "d_n d' = d_n (cv_sending F) + 1" by (auto simp: turn_state_def)
    with l Some ts room unat_Suc_word [of "d_n (cv_sending F)"] show ?thesis
      by (auto simp: leads_def newer_def turn_state_def word_less_nat_alt)
  qed
  have fd: "feeds ox (retain t (cv_receiving F)) p (cv_sending L)"
    using l own(2) by (simp add: retain_def leads_def feeds_own_turns)
  have st: "turn_start ox t L h"
    using t own(1) by (auto simp: turn_start_def)
  have aw: "awaiting ox t L (q @ [(h, c, body)])"
    using l f(2) st unfolding awaiting_def leads_def
    by (intro disjI1 conjI exI [of _ q] exI [of _ "(h, c, body)"] exI [of _ "[]"]) simp_all
  have "feeds ox (cv_receiving L) (q @ [(h, c, body)]) (d'\<lparr>d_pending_turn := None\<rparr>)"
    using t(1) feeds_cong [of "d'\<lparr>d_pending_turn := None\<rparr>" d'] by simp
  with l t own nw' fd aw n' show ?thesis
    by (simp add: F' leads_def turn_state_def caught_up_def own_latest_def retain_def turn_read_def)
qed

section \<open>Delivery\<close>

lemma leads_deliver_to_leader:
  assumes "leads ox L F p ((h, c, b) # q)"
  shows "\<exists>L'. conversation_open ox h c L = (Inr b, L') \<and> leads ox L' F p q \<and> cv_sending L' = cv_sending L"
proof -
  from assms have f: "feeds ox (cv_receiving L) ((h, c, b) # q) (cv_sending F)" "quiet h" "all_quiet q"
    by (simp_all add: leads_def)
  obtain r where o: "receiving_open ox h c (cv_receiving L) = (Inr b, r)"
    using f(1) by (cases "receiving_open ox h c (cv_receiving L)") simp
  from receiving_open_quiet [OF f(2) o] assms f o show ?thesis
    by (simp add: conversation_open_def leads_def turn_state_def caught_up_def own_latest_def)
qed

lemma open_turn_start:
  assumes "turn_start ox t F h" "receiving_open ox h c (cv_receiving F) = (Inr b, r)"
    and "\<forall>u. own_latest F = Some u \<longrightarrow> ot_m u = d_n (cv_sending F)"
  shows "fst (v_own_turns r) = own_latest F \<and> turn_read t (F\<lparr>cv_receiving := r\<rparr>)"
  using assms(2)
proof (rule receiving_openE)
  fix root chain n read mk ck'
  assume rm: "read_material ox (cv_receiving F) h = Inr (root, chain, n, read)"
    and r: "r = note_read h read ((cv_receiving F)\<lparr>v_root := root, v_chain := Some ck', v_n := n,
             v_next_seq := v_next_seq (cv_receiving F) + 1\<rparr>)"
  from assms(1) obtain u ct ss where h: "own_latest F = Some u" "h_kem_ct h = Some ct"
    "h_kem_pk h = Some (kp_pk (ot_keypair t))" "h_n h = ot_m t" "h_m h = ot_m u" "ot_ss t = Some ss"
    "ml_kem_decapsulate ox (kp_dk (ot_keypair u)) ct = Inr ss"
    by (auto simp: turn_start_def)
  have "find_own (h_m h) (v_own_turns (cv_receiving F)) = Some u"
    using h(1,5) by (simp add: find_own_def own_latest_def)
  with rm h have "read = Some \<lparr>pt_m = ot_m t, pt_pk = kp_pk (ot_keypair t), pt_ss = Some ss\<rparr>"
    by (auto simp: read_material_def result_simps)
  with h r show ?thesis by (simp add: note_read_def own_latest_def turn_read_def)
qed

lemma leads_deliver_to_follower:
  assumes l: "leads ox L F ((h, c, b) # p) q"
  shows "\<exists>F'. conversation_open ox h c F = (Inr b, F') \<and> leads ox L F' p q \<and> cv_sending F' = cv_sending F"
proof -
  from l have f: "feeds ox (cv_receiving F) ((h, c, b) # p) (cv_sending L)" by (simp add: leads_def)
  obtain r where o: "receiving_open ox h c (cv_receiving F) = (Inr b, r)"
    using f by (cases "receiving_open ox h c (cv_receiving F)") simp
  let ?F = "F\<lparr>cv_receiving := r\<rparr>"
  from l obtain t where t: "own_latest L = Some t" "awaiting ox t F ((h, c, b) # p)"
    by (auto simp: leads_def)
  have fp: "feeds ox r p (cv_sending L)" using f o by simp
  have main: "own_latest ?F = own_latest F \<and> awaiting ox t ?F p"
  proof (cases "quiet h")
    case True
    from receiving_open_quiet [OF True o] have k: "v_own_turns r = v_own_turns (cv_receiving F)"
      "v_peer_latest r = v_peer_latest (cv_receiving F)" by simp_all
    have "awaiting ox t F p"
      using t(2) unfolding awaiting_def
    proof (elim disjE conjE exE)
      fix p1 x s
      assume a: "caught_up F" "(h, c, b) # p = p1 @ x # s" "all_quiet p1" "all_quiet s"
        "turn_start ox t F (fst x)"
      have "p1 \<noteq> []" using True a(2,5) by (auto simp: turn_start_def quiet_def)
      with a(2) obtain p2 where "p1 = (h, c, b) # p2" "p = p2 @ x # s" by (auto simp: Cons_eq_append_conv)
      with a show "caught_up F \<and> (\<exists>p' x s. p = p' @ x # s \<and> all_quiet p' \<and> all_quiet s \<and>
          turn_start ox t F (fst x)) \<or> all_quiet p \<and> turn_read t F"
        by (intro disjI1 conjI exI [of _ p2] exI [of _ x] exI [of _ s]) simp_all
    qed simp
    with k show ?thesis
      by (simp add: awaiting_def own_latest_def turn_read_def caught_up_def turn_start_def)
  next
    case False
    with t(2) have a: "all_quiet p" "turn_start ox t F h"
      by (auto simp: awaiting_def Cons_eq_append_conv)
    from open_turn_start [OF a(2) o] l a(1) show ?thesis
      by (auto simp: leads_def turn_state_def awaiting_def own_latest_def)
  qed
  with l t(1) fp o show ?thesis
    by (simp add: conversation_open_def leads_def turn_state_def)
qed

section \<open>Two parties and the messages between them\<close>

datatype side = Alice | Bob

fun other :: "side \<Rightarrow> side" where
  "other Alice = Bob"
| "other Bob = Alice"

lemma other_other [simp]: "other (other s) = s" "other s \<noteq> s" "s \<noteq> other s"
  by (cases s; simp)+

lemma side_eq_iff: "t = s \<or> t = other s"
  by (cases s; cases t) simp_all

text \<open>
  A slot's bytes are the header and the sealed body after it. \<open>pt_wire s\<close> is what \<open>s\<close> has
  published and its peer has not opened, \<open>pt_sent s\<close> every body \<open>s\<close> sealed, \<open>pt_got s\<close> every body
  \<open>s\<close> opened, all oldest first. A message that does not decode or does not open stays where it is.
\<close>

record parties =
  pt_conv :: "side \<Rightarrow> conversation"
  pt_wire :: "side \<Rightarrow> byte list list"
  pt_sent :: "side \<Rightarrow> byte list list"
  pt_got :: "side \<Rightarrow> byte list list"

datatype party_event =
    Seal side "byte list option" fill "byte list" u32
  | Deliver side
  | Restart side

definition party_seal ::
  "oxi \<Rightarrow> side \<Rightarrow> byte list option \<Rightarrow> fill \<Rightarrow> byte list \<Rightarrow> u32 \<Rightarrow> parties \<Rightarrow> parties" where
  "party_seal ox s draw fill body dev w =
    (case conversation_seal ox draw fill body dev (pt_conv w s) of
       (Inl e, cv) \<Rightarrow> w\<lparr>pt_conv := (pt_conv w)(s := cv)\<rparr>
     | (Inr (h, c), cv) \<Rightarrow> w\<lparr>pt_conv := (pt_conv w)(s := cv),
         pt_wire := (pt_wire w)(s := pt_wire w s @ [header_encode h @ c]),
         pt_sent := (pt_sent w)(s := pt_sent w s @ [body])\<rparr>)"

text \<open>\<open>Deliver s\<close>: \<open>s\<close> reads the oldest message its peer has published and it has not opened.\<close>

definition party_deliver :: "oxi \<Rightarrow> side \<Rightarrow> parties \<Rightarrow> parties" where
  "party_deliver ox s w =
    (case pt_wire w (other s) of [] \<Rightarrow> w
     | slot # rest \<Rightarrow>
       (case header_decode slot of Inl e \<Rightarrow> w
        | Inr (h, c) \<Rightarrow>
          (case conversation_open ox h c (pt_conv w s) of
             (Inl e, cv) \<Rightarrow> w\<lparr>pt_conv := (pt_conv w)(s := cv)\<rparr>
           | (Inr b, cv) \<Rightarrow> w\<lparr>pt_conv := (pt_conv w)(s := cv),
               pt_wire := (pt_wire w)(other s := rest),
               pt_got := (pt_got w)(s := pt_got w s @ [b])\<rparr>)))"

fun party_step :: "oxi \<Rightarrow> party_event \<Rightarrow> parties \<Rightarrow> parties" where
  "party_step ox (Seal s draw fill body dev) w = party_seal ox s draw fill body dev w"
| "party_step ox (Deliver s) w = party_deliver ox s w"
| "party_step ox (Restart s) w =
     w\<lparr>pt_conv := (pt_conv w)(s := restore (snapshot (pt_conv w s)))\<rparr>"

definition wire :: "message_header \<times> byte list \<times> byte list \<Rightarrow> byte list" where
  "wire x = header_encode (fst x) @ fst (snd x)"

definition parties_synced :: "oxi \<Rightarrow> parties \<Rightarrow> bool" where
  "parties_synced ox w =
    ((\<forall>s. length (pt_sent w s) < 2 ^ 64) \<longrightarrow>
     (\<forall>s. unat (d_n (cv_sending (pt_conv w s))) \<le> length (pt_sent w s)) \<and>
     (\<exists>q. (\<forall>s. pt_wire w s = map wire (q s)) \<and>
       (\<forall>s. pt_sent w s = pt_got w (other s) @ map (\<lambda>x. snd (snd x)) (q s)) \<and>
       (\<exists>l. leads ox (pt_conv w l) (pt_conv w (other l)) (q l) (q (other l)))))"

lemma all_quiet_wf: "all_quiet q \<Longrightarrow> \<forall>x\<in>set q. header_wf (fst x)"
  by (auto simp: all_quiet_def intro: quiet_wf)

lemma leads_header_wf:
  assumes "leads ox L F p q"
  shows "(\<forall>x\<in>set p. header_wf (fst x)) \<and> (\<forall>x\<in>set q. header_wf (fst x))"
proof -
  have "\<forall>x\<in>set q. header_wf (fst x)" using assms by (intro all_quiet_wf) (simp add: leads_def)
  moreover from assms obtain t where "awaiting ox t F p" by (auto simp: leads_def)
  then have "\<forall>x\<in>set p. header_wf (fst x)"
    unfolding awaiting_def turn_start_def using all_quiet_wf
    by (metis (no_types, lifting) Un_iff set_ConsD set_append)
  ultimately show ?thesis by blast
qed

text \<open>One seal, whichever side is ahead.\<close>

lemma leads_seal:
  assumes law: "gcm_law ox" "kem_law ox"
    and l: "leads ox (cv l) (cv (other l)) (q l) (q (other l))"
    and s: "conversation_seal ox draw fill body dev (cv s) = (Inr (h, c), cv')"
    and room: "unat (d_n (cv_sending (cv s))) + 1 < 2 ^ 64"
  shows "unat (d_n (cv_sending cv')) \<le> unat (d_n (cv_sending (cv s))) + 1 \<and>
    (\<exists>l'. leads ox ((cv(s := cv')) l') ((cv(s := cv')) (other l'))
       ((q(s := q s @ [(h, c, body)])) l') ((q(s := q s @ [(h, c, body)])) (other l')))"
proof (cases "caught_up (cv s)")
  case True
  have ts: "turn_state ox (cv s)" "feeds ox (cv_receiving (cv (other s))) (q s) (cv_sending (cv s))"
    using l side_eq_iff [of s l] by (auto simp: leads_def)
  have n: "d_n (cv_sending cv') = d_n (cv_sending (cv s))"
    using seal_when_caught_up [OF law(1) ts(1) True ts(2) s] by blast
  show ?thesis
  proof (cases "s = l")
    case True
    with leads_leader_seal [OF law(1) l, of draw fill body dev h c cv'] s n show ?thesis
      by (intro conjI exI [of _ l]) simp_all
  next
    case False
    then have "s = other l" using side_eq_iff [of s l] by blast
    with leads_caught_up_follower_seal [OF law(1) l _ , of draw fill body dev h c cv'] s n True
    show ?thesis by (intro conjI exI [of _ l]) simp_all
  qed
next
  case False
  then have "s \<noteq> l" using l by (auto simp: leads_def)
  then have o: "s = other l" using side_eq_iff [of s l] by blast
  with leads_turn_seal [OF law l, of draw fill body dev h c cv'] s False room show ?thesis
    by (intro conjI exI [of _ s]) simp_all
qed

lemma leads_deliver:
  assumes l: "leads ox (cv l) (cv (other l)) (q l) (q (other l))" and q: "q (other s) = (h, c, b) # p"
  shows "\<exists>cv'. conversation_open ox h c (cv s) = (Inr b, cv') \<and> cv_sending cv' = cv_sending (cv s) \<and>
    leads ox ((cv(s := cv')) l) ((cv(s := cv')) (other l)) ((q(other s := p)) l) ((q(other s := p)) (other l))"
proof (cases "s = l")
  case True
  with leads_deliver_to_leader [of ox "cv l" "cv (other l)" "q l" h c b p] l q show ?thesis by fastforce
next
  case False
  then have "s = other l" using side_eq_iff [of s l] by blast
  with leads_deliver_to_follower [of ox "cv l" "cv (other l)" h c b p "q (other l)"] l q
  show ?thesis by fastforce
qed

lemma party_seal_synced:
  assumes law: "gcm_law ox" "kem_law ox" and i: "parties_synced ox w"
  shows "parties_synced ox (party_seal ox s draw fill body dev w)"
proof (cases "conversation_seal ox draw fill body dev (pt_conv w s)")
  case (Pair res cv')
  show ?thesis
  proof (cases res)
    case (Inl e)
    with Pair have cv': "cv' = (pt_conv w s)\<lparr>cv_sending := with_cursor (pt_conv w s)\<rparr>"
      using conversation_seal_failed by blast
    have "leads ox (((pt_conv w)(s := cv')) l) (((pt_conv w)(s := cv')) (other l)) p q =
        leads ox (pt_conv w l) (pt_conv w (other l)) p q" for l p q
      using side_eq_iff [of s l] by (auto simp: cv' fun_upd_apply)
    with i Pair Inl show ?thesis
      by (simp add: parties_synced_def party_seal_def) (simp add: cv' fun_upd_apply)
  next
    case (Inr hc)
    obtain h c where hc: "hc = (h, c)" by (cases hc)
    let ?w = "party_seal ox s draw fill body dev w"
    have w': "?w = w\<lparr>pt_conv := (pt_conv w)(s := cv'),
         pt_wire := (pt_wire w)(s := pt_wire w s @ [header_encode h @ c]),
         pt_sent := (pt_sent w)(s := pt_sent w s @ [body])\<rparr>"
      using Pair Inr hc by (simp add: party_seal_def)
    show ?thesis
      unfolding parties_synced_def
    proof
      assume len: "\<forall>t. length (pt_sent ?w t) < 2 ^ 64"
      have lens: "length (pt_sent w t) < 2 ^ 64" for t using len [rule_format, of t]
        by (auto simp: w' split: if_splits)
      from i lens obtain q l where n: "\<And>t. unat (d_n (cv_sending (pt_conv w t))) \<le> length (pt_sent w t)"
        and wr: "\<And>t. pt_wire w t = map wire (q t)"
        and bd: "\<And>t. pt_sent w t = pt_got w (other t) @ map (\<lambda>x. snd (snd x)) (q t)"
        and l: "leads ox (pt_conv w l) (pt_conv w (other l)) (q l) (q (other l))"
        unfolding parties_synced_def by blast
      have s: "conversation_seal ox draw fill body dev (pt_conv w s) = (Inr (h, c), cv')"
        using Pair Inr hc by simp
      have "unat (d_n (cv_sending (pt_conv w s))) + 1 < 2 ^ 64"
        using n [of s] len [rule_format, of s] by (simp add: w')
      from leads_seal [OF law l s this] obtain l' where
        n': "unat (d_n (cv_sending cv')) \<le> unat (d_n (cv_sending (pt_conv w s))) + 1"
        and l': "leads ox (((pt_conv w)(s := cv')) l') (((pt_conv w)(s := cv')) (other l'))
           ((q(s := q s @ [(h, c, body)])) l') ((q(s := q s @ [(h, c, body)])) (other l'))" by blast
      have a: "\<forall>t. unat (d_n (cv_sending (pt_conv ?w t))) \<le> length (pt_sent ?w t)"
        using n le_trans [OF n'] n [of s] by (simp add: w')
      have b: "\<forall>t. pt_wire ?w t = map wire ((q(s := q s @ [(h, c, body)])) t)"
        using wr by (simp add: w' wire_def)
      have c: "\<forall>t. pt_sent ?w t =
          pt_got ?w (other t) @ map (\<lambda>x. snd (snd x)) ((q(s := q s @ [(h, c, body)])) t)"
        using bd by (simp add: w')
      show "(\<forall>t. unat (d_n (cv_sending (pt_conv ?w t))) \<le> length (pt_sent ?w t)) \<and>
        (\<exists>q. (\<forall>t. pt_wire ?w t = map wire (q t)) \<and>
         (\<forall>t. pt_sent ?w t = pt_got ?w (other t) @ map (\<lambda>x. snd (snd x)) (q t)) \<and>
         (\<exists>l. leads ox (pt_conv ?w l) (pt_conv ?w (other l)) (q l) (q (other l))))"
        using a b c l' by (intro conjI exI [of _ "q(s := q s @ [(h, c, body)])"] exI [of _ l']) (simp_all add: w')
    qed
  qed
qed

text \<open>What one delivery does to parties in step: the oldest message opens to its body.\<close>

lemma party_deliver_synced:
  assumes i: "parties_synced ox w" and len: "\<forall>s. length (pt_sent w s) < 2 ^ 64"
  shows "parties_synced ox (party_deliver ox s w) \<and>
    pt_sent (party_deliver ox s w) = pt_sent w \<and>
    length (pt_wire (party_deliver ox s w) (other s)) = length (pt_wire w (other s)) - 1"
proof -
  from i len obtain q l where n: "\<And>t. unat (d_n (cv_sending (pt_conv w t))) \<le> length (pt_sent w t)"
    and wr: "\<And>t. pt_wire w t = map wire (q t)"
    and bd: "\<And>t. pt_sent w t = pt_got w (other t) @ map (\<lambda>x. snd (snd x)) (q t)"
    and l: "leads ox (pt_conv w l) (pt_conv w (other l)) (q l) (q (other l))"
    unfolding parties_synced_def by blast
  show ?thesis
  proof (cases "q (other s)")
    case Nil
    then show ?thesis using wr i by (simp add: party_deliver_def)
  next
    case (Cons x p)
    obtain h c b where x: "x = (h, c, b)" by (cases x)
    have q: "q (other s) = (h, c, b) # p" using Cons x by simp
    have "header_wf h" using leads_header_wf [OF l] q side_eq_iff [of "other s" l] by auto
    then have dec: "header_decode (header_encode h @ c) = Inr (h, c)" by (rule header_codec.dec_enc)
    from leads_deliver [OF l q] obtain cv' where o: "conversation_open ox h c (pt_conv w s) = (Inr b, cv')"
      and sd: "cv_sending cv' = cv_sending (pt_conv w s)"
      and l': "leads ox (((pt_conv w)(s := cv')) l) (((pt_conv w)(s := cv')) (other l))
        ((q(other s := p)) l) ((q(other s := p)) (other l))" by blast
    let ?w = "party_deliver ox s w"
    have w': "?w = w\<lparr>pt_conv := (pt_conv w)(s := cv'), pt_wire := (pt_wire w)(other s := map wire p),
        pt_got := (pt_got w)(s := pt_got w s @ [b])\<rparr>"
      using wr [of "other s"] q dec o by (simp add: party_deliver_def wire_def)
    have "parties_synced ox ?w"
      unfolding parties_synced_def
    proof (intro impI conjI exI [of _ "q(other s := p)"] exI [of _ l] allI)
      fix t show "unat (d_n (cv_sending (pt_conv ?w t))) \<le> length (pt_sent ?w t)"
        using n [of t] n [of s] sd by (simp add: w')
      show "pt_wire ?w t = map wire ((q(other s := p)) t)" using wr by (simp add: w')
      show "pt_sent ?w t = pt_got ?w (other t) @ map (\<lambda>x. snd (snd x)) ((q(other s := p)) t)"
        using bd [of t] q side_eq_iff [of t s] by (auto simp: w')
    qed (use l' in \<open>simp add: w'\<close>)
    then show ?thesis using wr [of "other s"] q by (simp add: w')
  qed
qed

lemma party_step_synced:
  assumes "gcm_law ox" "kem_law ox" "parties_synced ox w"
  shows "parties_synced ox (party_step ox e w)"
proof (cases e)
  case (Deliver s)
  show ?thesis
  proof (cases "\<forall>t. length (pt_sent w t) < 2 ^ 64")
    case True
    with party_deliver_synced [OF assms(3)] Deliver show ?thesis by simp
  next
    case False
    moreover have "pt_sent (party_deliver ox s w) = pt_sent w"
      by (simp add: party_deliver_def split: list.split sum.split prod.split)
    ultimately show ?thesis using Deliver by (simp only: parties_synced_def party_step.simps) blast
  qed
qed (use assms in \<open>simp_all add: party_seal_synced restore_snapshot\<close>)

text \<open>The opening of a conversation: the initiator leads, its turn already read.\<close>

definition parties_open :: "oxi \<Rightarrow> parties \<Rightarrow> bool" where
  "parties_open ox w = (\<exists>ss0 fill pk A B. initiate ox ss0 fill = Inr (pk, A) \<and>
     chain_accept ox ss0 pk = Inr B \<and>
     w = \<lparr>pt_conv = (\<lambda>s. case s of Alice \<Rightarrow> A | Bob \<Rightarrow> B), pt_wire = (\<lambda>_. []), pt_sent = (\<lambda>_. []),
          pt_got = (\<lambda>_. [])\<rparr>)"

lemma initial_leads:
  assumes "initiate ox ss0 fill = Inr (pk, A)" "chain_accept ox ss0 pk = Inr B"
  shows "leads ox A B [] [] \<and> d_n (cv_sending A) = 0 \<and> d_n (cv_sending B) = 0"
proof -
  from assms(1) obtain root chain kp where r: "seed_root ox ss0 = Inr root"
    "chain_from_root ox root = Inr chain" "mint ox fill = Inr kp" "pk = kp_pk kp"
    and A: "A = \<lparr>cv_sending = fresh_direction root (Some chain),
       cv_receiving = retain \<lparr>ot_m = 0, ot_keypair = kp, ot_ss = None\<rparr> (fresh_receiving root None)\<rparr>"
    by (auto simp: initiate_def result_simps)
  have B: "B = \<lparr>cv_sending = fresh_direction root None,
         cv_receiving = (fresh_receiving root (Some chain))\<lparr>v_peer_latest :=
           Some \<lparr>pt_m = 0, pt_pk = pk, pt_ss = None\<rparr>\<rparr>\<rparr>"
    using assms(2) r by (simp add: chain_accept_def)
  have "valid_turn ox \<lparr>ot_m = 0, ot_keypair = kp, ot_ss = None\<rparr>"
    using r(3) by (auto simp: mint_def valid_turn_def result_simps) blast
  then show ?thesis
    by (simp add: A B leads_def turn_state_def caught_up_def own_latest_def awaiting_def turn_read_def
        fresh_direction_def fresh_receiving_def retain_def newer_def r(4))
qed

lemma parties_open_synced:
  assumes "parties_open ox w"
  shows "parties_synced ox w"
proof -
  from assms obtain ss0 fill pk A B where i: "initiate ox ss0 fill = Inr (pk, A)"
    "chain_accept ox ss0 pk = Inr B"
    and w: "w = \<lparr>pt_conv = (\<lambda>s. case s of Alice \<Rightarrow> A | Bob \<Rightarrow> B), pt_wire = (\<lambda>_. []),
          pt_sent = (\<lambda>_. []), pt_got = (\<lambda>_. [])\<rparr>"
    by (auto simp: parties_open_def)
  from initial_leads [OF i] show ?thesis
    unfolding parties_synced_def
    by (intro impI conjI exI [of _ "\<lambda>_. []"] exI [of _ Alice]) (auto simp: w split: side.split)
qed

interpretation chain_run: machine
  "\<lambda>(ox, w). gcm_law ox \<and> kem_law ox \<and> parties_open ox w"
  "\<lambda>e (ox, w). (ox, party_step ox e w)"
  "\<lambda>(ox, w). gcm_law ox \<and> kem_law ox \<and> parties_synced ox w"
  by unfold_locales (auto simp: parties_open_synced party_step_synced)

lemma fold_pair: "fold (\<lambda>e (ox, w). (ox, f ox e w)) es (ox, w) = (ox, fold (f ox) es w)"
  by (induction es arbitrary: w) simp_all

lemma run_synced:
  assumes "gcm_law ox" "kem_law ox" "parties_open ox w"
  shows "parties_synced ox (fold (party_step ox) es w)"
  using chain_run.inv_run [of "(ox, w)" es] assms by (simp add: fold_pair)

text \<open>Delivering everything in flight.\<close>

lemma drain_synced:
  assumes "parties_synced ox w" "\<forall>s. length (pt_sent w s) < 2 ^ 64" "n = length (pt_wire w (other s))"
  shows "pt_got ((party_deliver ox s ^^ n) w) s = pt_sent w (other s)"
  using assms
proof (induction n arbitrary: w)
  case 0
  then obtain q where "\<And>t. pt_wire w t = map wire (q t)"
    "\<And>t. pt_sent w t = pt_got w (other t) @ map (\<lambda>x. snd (snd x)) (q t)"
    unfolding parties_synced_def by blast
  from this [of "other s"] 0(3) show ?case by simp
next
  case (Suc n)
  note d = party_deliver_synced [OF Suc.prems(1,2), of s]
  have "pt_got ((party_deliver ox s ^^ n) (party_deliver ox s w)) s = pt_sent (party_deliver ox s w) (other s)"
    using d Suc.prems by (intro Suc.IH) auto
  with d show ?case by (simp add: funpow_swap1)
qed

section \<open>Progress\<close>


text \<open>
  The randomness answers, and so do the library's services on the inputs they document: the length
  of every expanded key is the one asked for, AES takes any 32-byte key, the drawn nonce encrypts
  this body, and encapsulation takes any generated public key. Then a party that is in step can seal.
\<close>

definition services_answer :: "oxi \<Rightarrow> byte list option \<Rightarrow> fill \<Rightarrow> byte list \<Rightarrow> bool" where
  "services_answer ox draw fill body =
    ((\<exists>nonce. draw = Some nonce \<and>
        (\<forall>k key aad. aes256_key ox k = Inr key \<longrightarrow> is_ok (gcm_encrypt ox key nonce aad body))) \<and>
     (\<exists>d z m. fill 0 = Some d \<and> fill 1 = Some z \<and> fill 2 = Some m \<and> is_ok (ml_kem_keygen ox d z) \<and>
        (\<forall>d z ek dk. ml_kem_keygen ox d z = Inr (ek, dk) \<longrightarrow> is_ok (ml_kem_encapsulate ox ek m))) \<and>
     (\<forall>salt ikm. is_ok (hkdf_extract ox salt ikm)) \<and>
     (\<forall>prk info. \<exists>okm. hkdf_expand ox prk info 32 = Inr okm \<and> length okm = 32) \<and>
     (\<forall>k. length k = 32 \<longrightarrow> is_ok (aes256_key ox k)))"

lemma services_steps:
  assumes "services_answer ox draw fill body"
  shows "is_ok (mint ox fill)" "ml_kem_keygen ox d z = Inr (pk, dk) \<Longrightarrow> is_ok (encapsulate ox pk fill)"
    "is_ok (advance_root ox p s k)" "is_ok (chain_from_root ox root)"
    "\<exists>mk ck'. chain_step ox ck = Inr (mk, ck') \<and> length mk = 32"
    "length mk = 32 \<Longrightarrow> is_ok (seal_under ox draw mk aad body)"
proof -
  from assms have x: "\<forall>salt ikm. \<exists>prk. hkdf_extract ox salt ikm = Inr prk"
    "\<forall>prk info. \<exists>okm. hkdf_expand ox prk info 32 = Inr okm \<and> length okm = 32"
    "length mk = 32 \<Longrightarrow> \<exists>key. aes256_key ox mk = Inr key" for mk
    by (simp_all add: services_answer_def is_ok_iff)
  obtain prk :: "byte list option \<Rightarrow> byte list \<Rightarrow> byte list" where p: "hkdf_extract ox s i = Inr (prk s i)" for s i
    using x(1) by metis
  obtain okm :: "byte list \<Rightarrow> byte list \<Rightarrow> byte list"
    where e: "hkdf_expand ox k i 32 = Inr (okm k i)" "length (okm k i) = 32" for k i
    using x(2) by metis
  show "is_ok (advance_root ox p s k)" "is_ok (chain_from_root ox root)"
    "\<exists>mk ck'. chain_step ox ck = Inr (mk, ck') \<and> length mk = 32"
    by (simp_all add: advance_root_def chain_from_root_def chain_step_def p e Let_def ROOT_LEN_def
        CHAIN_KEY_LEN_def MESSAGE_KEY_LEN_def)
  from assms obtain d' z' m where f: "fill 0 = Some d'" "fill 1 = Some z'" "fill 2 = Some m"
    "is_ok (ml_kem_keygen ox d' z')"
    "\<forall>d z ek dk. ml_kem_keygen ox d z = Inr (ek, dk) \<longrightarrow> is_ok (ml_kem_encapsulate ox ek m)"
    unfolding services_answer_def by blast
  then show "is_ok (mint ox fill)"
    by (auto simp: mint_def is_ok_iff result_simps)
  show "is_ok (encapsulate ox pk fill)" if "ml_kem_keygen ox d z = Inr (pk, dk)"
    using f(3) f(5) that by (fastforce simp: encapsulate_def)
  from assms obtain nonce where n: "draw = Some nonce"
    "\<And>k key. aes256_key ox k = Inr key \<Longrightarrow> is_ok (gcm_encrypt ox key nonce aad body)"
    by (auto simp: services_answer_def)
  show "is_ok (seal_under ox draw mk aad body)" if l: "length mk = 32"
  proof -
    obtain key where k: "aes256_key ox mk = Inr key" using x(3) [OF l] by blast
    with n(2) [OF k] n(1) show ?thesis
      by (auto simp: seal_under_def seal_envelope_def is_ok_iff result_simps)
  qed
qed

lemma direction_seal_succeeds:
  assumes "services_answer ox draw fill body" "d_pending_turn d = None"
    and due: "turn_due d i \<Longrightarrow> \<exists>pk a z dk. fst (peer_inputs d i) = Some pk \<and> ml_kem_keygen ox a z = Inr (pk, dk)"
    and quiet: "\<not> turn_due d i \<Longrightarrow> d_chain d \<noteq> None"
  shows "is_ok (fst (direction_seal ox draw fill i body dev d))"
proof -
  note s = services_steps [OF assms(1)]
  obtain pk ss m where p: "peer_inputs d i = (pk, ss, m)" by (cases "peer_inputs d i")
  have "is_ok (turn_material ox fill d (turn_due d i) pk ss)"
  proof (cases "turn_due d i")
    case True
    with due p obtain k a z dk where k: "pk = Some k" "ml_kem_keygen ox a z = Inr (k, dk)" by auto
    obtain kp where kp: "mint ox fill = Inr kp" using s(1) by (auto simp: is_ok_iff)
    obtain ek ct where ek: "encapsulate ox k fill = Inr (ek, ct)" using s(2) [OF k(2)] by (auto simp: is_ok_iff)
    obtain root where root: "advance_root ox (d_root d) ss ek = Inr root" using s(3) unfolding is_ok_iff by blast
    obtain chain where "chain_from_root ox root = Inr chain" using s(4) unfolding is_ok_iff by blast
    with True k kp ek root show ?thesis by (simp add: turn_material_def)
  next
    case False
    with quiet show ?thesis by (auto simp: turn_material_def)
  qed
  then obtain root chain n minted where t: "turn_material ox fill d (turn_due d i) pk ss = Inr (root, chain, n, minted)"
    by (auto simp: is_ok_iff)
  obtain mk ck' where c: "chain_step ox chain = Inr (mk, ck')" "length mk = 32" using s(5) [of chain] by auto
  have "\<exists>x. seal_under ox draw mk aad body = Inr x" for aad using s(6) [OF c(2)] by (simp add: is_ok_iff)
  then obtain sealed where "seal_under ox draw mk aad body = Inr (sealed aad)" for aad by metis
  with assms(2) p t c show ?thesis by (simp add: direction_seal_def Let_def)
qed

lemma leads_can_seal:
  assumes "leads ox L F p q" "services_answer ox draw fill body"
  shows "is_ok (fst (conversation_seal ox draw fill body dev L)) \<and>
    is_ok (fst (conversation_seal ox draw fill body dev F))"
proof -
  have ok: "is_ok (fst (conversation_seal ox draw fill body dev cv))"
    if "is_ok (fst (direction_seal ox draw fill (seal_input cv) body dev (with_cursor cv)))" for cv
    using that by (auto simp: conversation_seal_eq split: prod.splits sum.splits option.splits)
  from assms(1) obtain t where a: "turn_state ox L" "turn_state ox F" "caught_up L"
    "own_latest L = Some t" "awaiting ox t F p" "newer (d_n (cv_sending L)) (d_m_seen (cv_sending F))"
    by (auto simp: leads_def)
  have "is_ok (fst (direction_seal ox draw fill (seal_input L) body dev (with_cursor L)))"
    using a(1,4) not_due [OF a(1,3)] by (intro direction_seal_succeeds assms(2)) (simp_all add: turn_state_def)
  moreover have "is_ok (fst (direction_seal ox draw fill (seal_input F) body dev (with_cursor F)))"
  proof (cases "turn_due (with_cursor F) (seal_input F)")
    case True
    then have "\<not> caught_up F" using not_due [OF a(2)] by blast
    with a(5) have "turn_read t F" by (simp add: awaiting_def)
    then have "fst (peer_inputs (with_cursor F) (seal_input F)) = Some (kp_pk (ot_keypair t))"
      using a(1,4,6) by (simp add: peer_inputs_def seal_input_def turn_read_def turn_state_def)
    moreover have "valid_turn ox t" using a(1,4) by (simp add: turn_state_def)
    ultimately show ?thesis using True a(2)
      by (intro direction_seal_succeeds assms(2)) (auto simp: turn_state_def valid_turn_def)
  next
    case False
    have "\<not> turn_read t F"
    proof
      assume "turn_read t F"
      then have "turn_due (with_cursor F) (seal_input F)"
        using a(1,4,6) by (simp add: turn_due_def seal_input_def turn_read_def turn_state_def)
      with False show False by simp
    qed
    with a(2,5) False have "d_chain (cv_sending F) \<noteq> None"
      by (auto simp: awaiting_def turn_start_def turn_state_def)
    with False a(2) show ?thesis by (intro direction_seal_succeeds assms(2)) (simp_all add: turn_state_def)
  qed
  ultimately show ?thesis by (simp add: ok)
qed

lemma synced_can_seal:
  assumes "parties_synced ox w" "\<forall>s. length (pt_sent w s) < 2 ^ 64" "services_answer ox draw fill body"
  shows "pt_sent (party_seal ox s draw fill body dev w) s = pt_sent w s @ [body]"
proof -
  from assms(1,2) obtain q l where "leads ox (pt_conv w l) (pt_conv w (other l)) (q l) (q (other l))"
    unfolding parties_synced_def by blast
  from leads_can_seal [OF this assms(3), of dev]
  have "is_ok (fst (conversation_seal ox draw fill body dev (pt_conv w s)))"
    using side_eq_iff [of s l] by auto
  then show ?thesis by (auto simp: party_seal_def split: prod.split sum.split)
qed

lemma party_step_sent:
  "length (pt_sent (party_step ox e w) s) \<le> length (pt_sent w s) + 1"
  by (cases e) (auto simp: party_seal_def party_deliver_def split: list.split sum.split prod.split)

lemma run_sent_length: "length (pt_sent (fold (party_step ox) es w) s) \<le> length (pt_sent w s) + length es"
proof (induction es arbitrary: w)
  case (Cons e es)
  have "length (pt_sent (fold (party_step ox) es (party_step ox e w)) s)
      \<le> length (pt_sent (party_step ox e w) s) + length es" by (rule Cons.IH)
  with party_step_sent [of ox e w s] show ?case by simp
qed simp

lemma run_sent_bound:
  assumes "parties_open ox w" "length es < 2 ^ 64"
  shows "\<forall>s. length (pt_sent (fold (party_step ox) es w) s) < 2 ^ 64"
proof
  fix s
  have "pt_sent w s = []" using assms(1) by (auto simp: parties_open_def)
  with run_sent_length [of ox es w s] assms(2) show "length (pt_sent (fold (party_step ox) es w) s) < 2 ^ 64"
    by simp
qed

section \<open>A concrete conversation\<close>

definition demo_fill :: fill where "demo_fill i = Some (replicate 32 (word_of_nat i))"

definition demo_parties :: parties where
  "demo_parties = (case initiate demo_oxi (replicate 32 9) demo_fill of
     Inr (pk, A) \<Rightarrow> (case chain_accept demo_oxi (replicate 32 9) pk of
       Inr B \<Rightarrow> \<lparr>pt_conv = (\<lambda>s. case s of Alice \<Rightarrow> A | Bob \<Rightarrow> B), pt_wire = (\<lambda>_. []),
                 pt_sent = (\<lambda>_. []), pt_got = (\<lambda>_. [])\<rparr>))"

definition demo_seal :: "side \<Rightarrow> byte \<Rightarrow> party_event" where
  "demo_seal s x = Seal s (Some (replicate 12 0)) demo_fill [x] 0"

definition demo_events :: "party_event list" where
  "demo_events = [demo_seal Alice 1, demo_seal Bob 2, demo_seal Alice 3, Deliver Bob, Restart Bob,
     Deliver Alice, demo_seal Bob 4, demo_seal Alice 5]"

lemma demo_open: "parties_open demo_oxi demo_parties"
proof -
  have "\<exists>pk A. initiate demo_oxi (replicate 32 9) demo_fill = Inr (pk, A)"
    by (simp add: initiate_def seed_root_def chain_from_root_def mint_def oxi_defs demo_oxi_def demo_fill_def)
  then obtain pk A where a: "initiate demo_oxi (replicate 32 9) demo_fill = Inr (pk, A)" by blast
  have "\<exists>B. chain_accept demo_oxi (replicate 32 9) pk = Inr B"
    by (simp add: chain_accept_def seed_root_def chain_from_root_def oxi_defs demo_oxi_def)
  then obtain B where b: "chain_accept demo_oxi (replicate 32 9) pk = Inr B" by blast
  have "demo_parties = \<lparr>pt_conv = (\<lambda>s. case s of Alice \<Rightarrow> A | Bob \<Rightarrow> B), pt_wire = (\<lambda>_. []),
                 pt_sent = (\<lambda>_. []), pt_got = (\<lambda>_. [])\<rparr>" using a b by (simp add: demo_parties_def)
  with a b show ?thesis unfolding parties_open_def by blast
qed

lemma demo_services: "services_answer demo_oxi (Some (replicate 12 0)) demo_fill body"
  by (simp add: services_answer_def oxi_defs demo_oxi_def demo_fill_def gcm_nonce_def crypto_lens)

lemma synced_prefix:
  assumes "parties_synced ox w" "\<forall>s. length (pt_sent w s) < 2 ^ 64"
  shows "\<exists>rest. pt_sent w (other s) = pt_got w s @ rest"
  using assms unfolding parties_synced_def by (metis other_other(1))

section \<open>Properties\<close>

text \<open>
  C4. In every run of two parties from the opening of a conversation (seals that succeed or fail,
  deliveries and restarts from the snapshot, in any interleaving), what a party has opened is a
  prefix of what its peer sealed, in order, and delivering the messages still in flight opens every
  one of them: no interleaving of turns leaves a message whose key the reader cannot derive.
\<close>

theorem chain_delivers_in_order:
  assumes "gcm_law ox" "kem_law ox" "parties_open ox w" "length es < 2 ^ 64"
  shows "let w' = fold (party_step ox) es w in
    (\<exists>rest. pt_sent w' (other s) = pt_got w' s @ rest) \<and>
    pt_got ((party_deliver ox s ^^ length (pt_wire w' (other s))) w') s = pt_sent w' (other s)"
proof -
  let ?w = "fold (party_step ox) es w"
  note i = run_synced [OF assms(1-3), of es] and l = run_sent_bound [OF assms(3,4)]
  have "\<exists>rest. pt_sent ?w (other s) = pt_got ?w s @ rest" using synced_prefix [OF i l] .
  with drain_synced [OF i l refl, of s] show ?thesis by simp
qed

theorem chain_delivers_in_order_witness:
  "let w' = fold (party_step demo_oxi) demo_events demo_parties in
    (\<exists>rest. pt_sent w' Alice = pt_got w' Bob @ rest) \<and>
    pt_got ((party_deliver demo_oxi Bob ^^ length (pt_wire w' Alice)) w') Bob = pt_sent w' Alice"
  using chain_delivers_in_order [OF demo_gcm_law demo_kem_law demo_open, of demo_events Bob]
  by (simp add: demo_events_def)

text \<open>
  In every such run, whenever the library's services and the randomness answer, either party's
  next seal succeeds: the party ahead continues its turn, the other opens its own.
\<close>

lemma party_can_always_seal:
  assumes "gcm_law ox" "kem_law ox" "parties_open ox w" "length es < 2 ^ 64"
    and "services_answer ox draw fill body"
  shows "let w' = fold (party_step ox) es w in
    pt_sent (party_seal ox s draw fill body dev w') s = pt_sent w' s @ [body]"
  using synced_can_seal [OF run_synced [OF assms(1-3)] run_sent_bound [OF assms(3,4)] assms(5)]
  by simp

lemma party_can_always_seal_witness:
  "let w' = fold (party_step demo_oxi) demo_events demo_parties in
    pt_sent (party_seal demo_oxi Bob (Some (replicate 12 0)) demo_fill [42] 0 w') Bob
      = pt_sent w' Bob @ [[42]]"
  using party_can_always_seal [OF demo_gcm_law demo_kem_law demo_open _ demo_services, of demo_events Bob]
  by (simp add: demo_events_def)

text \<open>
  C20. A message opens only in its turn: a sequence already opened is refused \<open>AlreadyOpened\<close>, a
  later one \<open>OutOfOrder\<close>, and no refusal, whatever its cause, changes the conversation.
\<close>

theorem conversation_open_refusals:
  "(h_seq h < v_next_seq (cv_receiving cv) \<longrightarrow>
      conversation_open ox h c cv = (Inl (AlreadyOpened (h_seq h)), cv)) \<and>
   (h_seq h > v_next_seq (cv_receiving cv) \<longrightarrow>
      conversation_open ox h c cv = (Inl (OutOfOrder (v_next_seq (cv_receiving cv)) (h_seq h)), cv)) \<and>
   (\<forall>e cv'. conversation_open ox h c cv = (Inl e, cv') \<longrightarrow> cv' = cv) \<and>
   (\<forall>b cv'. conversation_open ox h c cv = (Inr b, cv') \<longrightarrow>
      h_seq h = v_next_seq (cv_receiving cv) \<and>
      v_next_seq (cv_receiving cv') = h_seq h + 1 \<and> cv_sending cv' = cv_sending cv)"
proof (intro conjI allI impI)
  fix e cv' assume "conversation_open ox h c cv = (Inl e, cv')"
  then show "cv' = cv"
    by (cases "receiving_open ox h c (cv_receiving cv)")
      (auto simp: conversation_open_def dest: receiving_open_failed)
next
  fix b cv' assume o: "conversation_open ox h c cv = (Inr b, cv')"
  obtain r where r: "receiving_open ox h c (cv_receiving cv) = (Inr b, r)" "cv' = cv\<lparr>cv_receiving := r\<rparr>"
    using o by (cases "receiving_open ox h c (cv_receiving cv)") (simp add: conversation_open_def)
  from r(1) have "h_seq h = v_next_seq (cv_receiving cv) \<and> v_next_seq r = h_seq h + 1"
    by (rule receiving_openE) (simp add: note_read_def split: option.split)
  with r(2) show "h_seq h = v_next_seq (cv_receiving cv)" "v_next_seq (cv_receiving cv') = h_seq h + 1"
    "cv_sending cv' = cv_sending cv" by simp_all
qed (simp_all add: conversation_open_def receiving_open_def)

theorem conversation_open_refusals_witness:
  "conversation_open demo_oxi (continuing 0 0 0 3 0) [] \<lparr>cv_sending = fresh_direction [] None,
     cv_receiving = (fresh_receiving [] None)\<lparr>v_next_seq := 5\<rparr>\<rparr>
   = (Inl (AlreadyOpened 3), \<lparr>cv_sending = fresh_direction [] None,
     cv_receiving = (fresh_receiving [] None)\<lparr>v_next_seq := 5\<rparr>\<rparr>)"
  using conversation_open_refusals [of "continuing 0 0 0 3 0"
    "\<lparr>cv_sending = fresh_direction [] None, cv_receiving = (fresh_receiving [] None)\<lparr>v_next_seq := 5\<rparr>\<rparr>"
    demo_oxi "[]"]
  by (simp add: continuing_def)

text \<open>
  A seal that fails, whatever its cause, publishes nothing, opens no turn and takes no sequence
  number: the only field it writes is the cursor the next header carries. A conversation read back
  from its snapshot is the one that was saved.
\<close>

lemma failed_seal_and_restart:
  "(\<forall>e cv'. conversation_seal ox draw fill body dev cv = (Inl e, cv') \<longrightarrow>
      cv' = cv\<lparr>cv_sending := set_cursor (v_next_seq (cv_receiving cv)) (cv_sending cv)\<rparr>) \<and>
   restore (snapshot cv) = cv"
  using conversation_seal_failed by (auto simp: restore_snapshot)

lemma failed_seal_and_restart_witness:
  "snd (conversation_seal demo_oxi None demo_fill [1] 0
     \<lparr>cv_sending = fresh_direction [] (Some []), cv_receiving = (fresh_receiving [] None)\<lparr>v_next_seq := 5\<rparr>\<rparr>)
   = \<lparr>cv_sending = (fresh_direction [] (Some []))\<lparr>d_cursor := 5\<rparr>,
      cv_receiving = (fresh_receiving [] None)\<lparr>v_next_seq := 5\<rparr>\<rparr>"
proof -
  let ?cv = "\<lparr>cv_sending = fresh_direction [] (Some []), cv_receiving = (fresh_receiving [] None)\<lparr>v_next_seq := 5\<rparr>\<rparr>"
  have "\<exists>e cv'. conversation_seal demo_oxi None demo_fill [1] 0 ?cv = (Inl e, cv')"
    by (simp add: conversation_seal_def direction_seal_def turn_due_def peer_inputs_def turn_material_def
        fresh_direction_def fresh_receiving_def set_cursor_def chain_step_def seal_under_def
        seal_envelope_def oxi_defs demo_oxi_def Let_def)
  then obtain e cv' where "conversation_seal demo_oxi None demo_fill [1] 0 ?cv = (Inl e, cv')" by blast
  with failed_seal_and_restart [of demo_oxi None demo_fill "[1]" 0 ?cv] show ?thesis
    by (simp add: set_cursor_def fresh_receiving_def)
qed

end
