(* ===== verification/Store_Codec.thy ===== *)
theory Store_Codec
  imports Chain Channel_Control
begin

text \<open>
  The records a profile keeps for its direct messages (\<^verbatim>\<open>dm/store.rs\<close>): the state of one
  correspondence and the encodings of the conversation, outbox, advert-keys, reach-serial, route and
  handle records. Every record has one width, whatever it holds. The errors of the layer below
  (\<^verbatim>\<open>storage/dm_store.rs\<close>) are the datatype \<open>dm_store_error\<close>; paths, operating-system errors and
  the lock's reason are not carried.
\<close>

section \<open>Errors\<close>

datatype record_kind =
    RkResume | RkProvisional | RkOutbox | RkReceiveCursor | RkContactCache | RkBlockList
  | RkAdvertKeys | RkConversation | RkConversationOutbox | RkCorrespondentHandle
  | RkCorrespondentRoute | RkReachSerial

datatype atomic_replace_error =
    NotLanded | Indeterminate | LandedNotDurable | NoParent | AtomicEntropy

datatype dm_store_error =
    DmIo | DmLock | Reentrant | WrongScope record_kind | DmWrite record_kind atomic_replace_error
  | DmKdf | DmModule | DmEntropySource | NotAuthentic record_kind | WrongFileLen record_kind nat nat
  | ErasureInterrupted record_kind | ErasureBlocked record_kind bool
  | PayloadTooLong record_kind nat nat | CorruptPayloadLen record_kind nat nat

datatype store_error =
    StStore dm_store_error
  | Corrupt record_kind string
  | OutboxSlotOccupied u64 u64
  | CiphertextTooLong nat
  | MissingConversation
  | ConversationExists
  | MissingAdvertKeys
  | UnbuiltAdvertSerial u64 u64

section \<open>Constants\<close>

definition ADVERT_KEYS_MAGIC :: "byte list" where
  "ADVERT_KEYS_MAGIC = ascii ''daemonseed/dm/store/self/v1'' @ [0]"
definition CONV_MAGIC :: "byte list" where
  "CONV_MAGIC = ascii ''daemonseed/dm/store/conv/v1'' @ [0]"
definition CONV_OUTBOX_MAGIC :: "byte list" where
  "CONV_OUTBOX_MAGIC = ascii ''daemonseed/dm/store/obox/v1'' @ [0]"
definition HANDLE_MAGIC :: "byte list" where
  "HANDLE_MAGIC = ascii ''daemonseed/dm/store/hndl/v1'' @ [0]"
definition ROUTE_MAGIC :: "byte list" where
  "ROUTE_MAGIC = ascii ''daemonseed/dm/store/rout/v1'' @ [0]"
definition REACH_SERIAL_MAGIC :: "byte list" where
  "REACH_SERIAL_MAGIC = ascii ''daemonseed/dm/store/rser/v1'' @ [0]"

definition CONV_OUTBOX_RECORD_VERSION :: byte where "CONV_OUTBOX_RECORD_VERSION = 2"
definition CONV_RECORD_VERSION :: byte where "CONV_RECORD_VERSION = 3"
definition HANDLE_RECORD_VERSION :: byte where "HANDLE_RECORD_VERSION = 1"
definition HANDLE_MAX_LEN :: nat where "HANDLE_MAX_LEN = 256"
definition ROUTE_RECORD_VERSION :: byte where "ROUTE_RECORD_VERSION = 2"
definition REACH_SERIAL_RECORD_VERSION :: byte where "REACH_SERIAL_RECORD_VERSION = 1"
definition ADVERT_KEYS_RECORD_VERSION :: byte where "ADVERT_KEYS_RECORD_VERSION = 2"
definition ABSENT :: byte where "ABSENT = 0"
definition PRESENT :: byte where "PRESENT = 1"

definition KEM_DK_LEN :: nat where "KEM_DK_LEN = 3168"
definition HELLO_R_LEN :: nat where "HELLO_R_LEN = 32"
definition CARRIED_LEN :: nat where "CARRIED_LEN = KEM_SS_LEN"
definition DROP_POW_TAG_LEN :: nat where "DROP_POW_TAG_LEN = 8"
definition HELLO_PLAINTEXT_LEN :: nat where
  "HELLO_PLAINTEXT_LEN = HELLO_LOOKUP_KEY_LEN + HELLO_R_LEN + 1 + CARRIED_LEN"
definition HELLO_LEN :: nat where
  "HELLO_LEN = KEM_CT_LEN + NONCE_LEN + HELLO_PLAINTEXT_LEN + TAG_LEN + DROP_POW_TAG_LEN"
definition DROP_SUBKEYS :: u16 where "DROP_SUBKEYS = 256"

definition OWN_TURN_LEN :: nat where
  "OWN_TURN_LEN = 8 + KEM_EK_LEN + KEM_DK_LEN + 1 + KEM_SS_LEN"
definition PEER_TURN_LEN :: nat where "PEER_TURN_LEN = 8 + KEM_EK_LEN + 1 + KEM_SS_LEN"
definition SENDING_LEN :: nat where
  "SENDING_LEN = ROOT_LEN + (1 + CHAIN_KEY_LEN) + 8 + (1 + 8) + 8 + 8 + (1 + KEM_EK_LEN)
     + (1 + KEM_SS_LEN) + (1 + OWN_TURN_LEN) + 1"
definition OWN_TURNS_RETAINED :: nat where "OWN_TURNS_RETAINED = 2"
definition RECEIVING_LEN :: nat where
  "RECEIVING_LEN = ROOT_LEN + (1 + CHAIN_KEY_LEN) + 8 + 8 + OWN_TURNS_RETAINED * (1 + OWN_TURN_LEN)
     + (1 + PEER_TURN_LEN)"
definition SNAPSHOT_LEN :: nat where "SNAPSHOT_LEN = SENDING_LEN + RECEIVING_LEN"
definition HELLO_FIELD_LEN :: nat where
  "HELLO_FIELD_LEN = 1 + 2 + HELLO_R_LEN + KEM_CT_LEN + HELLO_LEN + 8"
definition CONTROL_KEY_LEN :: nat where "CONTROL_KEY_LEN = 32"
definition ADVERT_KEYS_RECORD_LEN :: nat where
  "ADVERT_KEYS_RECORD_LEN = length ADVERT_KEYS_MAGIC + 1 + 8 + 8 + KEM_DK_LEN
     + (1 + 8 + 8 + KEM_DK_LEN) + (1 + 8)"
definition CONV_RECORD_LEN :: nat where
  "CONV_RECORD_LEN = length CONV_MAGIC + 1 + DSA_PK_LEN + HELLO_LOOKUP_KEY_LEN
     + HELLO_LOOKUP_KEY_LEN + 8 + 8 + 8 + 8 + 8 + 1 + HELLO_FIELD_LEN + (1 + KEM_SS_LEN)
     + (1 + KEM_CT_LEN) + (1 + CONTROL_KEY_LEN) + (1 + CONTROL_KEY_LEN) + (1 + 8)
     + (1 + OPENING_LEN) + SNAPSHOT_LEN + 1 + 1"
definition CONV_OUTBOX_ENTRY_LEN :: nat where "CONV_OUTBOX_ENTRY_LEN = 1 + 8 + 8 + 4 + CHANNEL_SUBKEY_LEN"
definition CONV_OUTBOX_RECORD_LEN :: nat where
  "CONV_OUTBOX_RECORD_LEN = length CONV_OUTBOX_MAGIC + 1 + unat RING_SLOTS * CONV_OUTBOX_ENTRY_LEN"
definition HANDLE_RECORD_LEN :: nat where
  "HANDLE_RECORD_LEN = length HANDLE_MAGIC + 1 + 2 + HANDLE_MAX_LEN"
definition ROUTE_RECORD_LEN :: nat where
  "ROUTE_RECORD_LEN = length ROUTE_MAGIC + 1 + 2 + REACH_ROUTE_MAX_LEN + 8"
definition REACH_SERIAL_RECORD_LEN :: nat where
  "REACH_SERIAL_RECORD_LEN = length REACH_SERIAL_MAGIC + 1 + 8"

lemmas store_lens = OWN_TURN_LEN_def PEER_TURN_LEN_def SENDING_LEN_def OWN_TURNS_RETAINED_def
  RECEIVING_LEN_def SNAPSHOT_LEN_def HELLO_FIELD_LEN_def CONTROL_KEY_LEN_def
  ADVERT_KEYS_RECORD_LEN_def CONV_RECORD_LEN_def CONV_OUTBOX_ENTRY_LEN_def
  CONV_OUTBOX_RECORD_LEN_def HANDLE_RECORD_LEN_def ROUTE_RECORD_LEN_def REACH_SERIAL_RECORD_LEN_def

section \<open>State\<close>

record outstanding_hello =
  oh_slot :: u16
  oh_r :: "byte list"
  oh_kem_ct :: "byte list"
  oh_sealed :: "byte list"
  oh_advert_serial :: u64

record conv_state =
  cs_peer_identity_pk :: "byte list"
  cs_outgoing_lookup_key :: "byte list"
  cs_incoming_lookup_key :: "byte list"
  cs_generation :: u64
  cs_conversation :: conversation_snapshot
  cs_send_seq :: u64
  cs_peer_collected :: u64
  cs_my_collected :: u64
  cs_cursor_published :: u64
  cs_awaiting_acceptance :: bool
  cs_acceptance_pending :: bool
  cs_outstanding_hello :: "outstanding_hello option"
  cs_own_hello_secret :: "byte list option"
  cs_own_hello_kem_ct :: "byte list option"
  cs_own_control_key :: "byte list option"
  cs_peer_control_key :: "byte list option"
  cs_peer_advert_serial :: "u64 option"
  cs_own_opening :: "byte list option"
  cs_delete_pending :: bool

record outbox_entry =
  oe_seq :: u64
  oe_sent_at :: u64
  oe_ciphertext :: "byte list"

type_synonym outbox_table = "outbox_entry option list"

record retired_snapshot =
  rt_serial :: u64
  rt_retired_at :: u64
  rt_decapsulation_key :: "byte list"

record advert_snapshot =
  av_serial :: u64
  av_not_before :: u64
  av_decapsulation_key :: "byte list"
  av_previous :: "retired_snapshot option"

section \<open>The writer\<close>

definition u16_be :: "u16 \<Rightarrow> byte list" where "u16_be w = be_enc 2 (unat w)"
definition u16_of_be :: "byte list \<Rightarrow> u16" where "u16_of_be bs = word_of_nat (be_dec bs)"

definition padded :: "byte list \<Rightarrow> nat \<Rightarrow> byte list" where
  "padded v width = v @ replicate (width - length v) 0"

definition w_opt :: "byte list option \<Rightarrow> nat \<Rightarrow> byte list" where
  "w_opt v width = (case v of Some b \<Rightarrow> [PRESENT] @ padded b width | None \<Rightarrow> [ABSENT] @ padded [] width)"

definition w_opt_u64 :: "u64 option \<Rightarrow> byte list" where
  "w_opt_u64 v = w_opt (map_option u64_be v) 8"

definition w_own_turn :: "own_turn option \<Rightarrow> byte list" where
  "w_own_turn turn = (case turn of
     Some t \<Rightarrow> [PRESENT] @ u64_be (ot_m t) @ kp_pk (ot_keypair t) @ kp_dk (ot_keypair t)
       @ w_opt (ot_ss t) KEM_SS_LEN
   | None \<Rightarrow> [ABSENT] @ padded [] OWN_TURN_LEN)"

definition w_peer_turn :: "peer_turn option \<Rightarrow> byte list" where
  "w_peer_turn turn = (case turn of
     Some t \<Rightarrow> [PRESENT] @ u64_be (pt_m t) @ pt_pk t @ w_opt (pt_ss t) KEM_SS_LEN
   | None \<Rightarrow> [ABSENT] @ padded [] PEER_TURN_LEN)"

section \<open>The reader\<close>

type_synonym 'a store_read = "store_error + ('a \<times> byte list)"

definition sr_take :: "record_kind \<Rightarrow> nat \<Rightarrow> byte list \<Rightarrow> byte list store_read" where
  "sr_take k n bs = (if length bs < n then Inl (Corrupt k ''the record ended inside a field'')
     else Inr (take n bs, drop n bs))"

definition sr_u8 :: "record_kind \<Rightarrow> byte list \<Rightarrow> byte store_read" where
  "sr_u8 k bs = rbind (sr_take k 1 bs) (\<lambda>(h, t). Inr (hd h, t))"

definition sr_u16 :: "record_kind \<Rightarrow> byte list \<Rightarrow> u16 store_read" where
  "sr_u16 k bs = rbind (sr_take k 2 bs) (\<lambda>(h, t). Inr (u16_of_be h, t))"

definition sr_u32 :: "record_kind \<Rightarrow> byte list \<Rightarrow> u32 store_read" where
  "sr_u32 k bs = rbind (sr_take k 4 bs) (\<lambda>(h, t). Inr (u32_of_be h, t))"

definition sr_u64 :: "record_kind \<Rightarrow> byte list \<Rightarrow> u64 store_read" where
  "sr_u64 k bs = rbind (sr_take k 8 bs) (\<lambda>(h, t). Inr (u64_of_be h, t))"

definition sr_flag :: "record_kind \<Rightarrow> byte list \<Rightarrow> bool store_read" where
  "sr_flag k bs = rbind (sr_u8 k bs) (\<lambda>(b, t).
     if b = ABSENT then Inr (False, t) else if b = PRESENT then Inr (True, t)
     else Inl (Corrupt k ''a presence flag held neither 0 nor 1''))"

definition sr_opt :: "record_kind \<Rightarrow> nat \<Rightarrow> byte list \<Rightarrow> byte list option store_read" where
  "sr_opt k n bs = rbind (sr_flag k bs) (\<lambda>(present, t).
     rbind (sr_take k n t) (\<lambda>(v, t). Inr (if present then Some v else None, t)))"

definition sr_opt_u64 :: "record_kind \<Rightarrow> byte list \<Rightarrow> u64 option store_read" where
  "sr_opt_u64 k bs = rbind (sr_opt k 8 bs) (\<lambda>(v, t). Inr (map_option u64_of_be v, t))"

definition sr_own_turn :: "record_kind \<Rightarrow> byte list \<Rightarrow> own_turn option store_read" where
  "sr_own_turn k bs =
    rbind (sr_flag k bs) (\<lambda>(present, b).
    rbind (sr_u64 k b) (\<lambda>(m, b).
    rbind (sr_take k KEM_EK_LEN b) (\<lambda>(pk, b).
    rbind (sr_take k KEM_DK_LEN b) (\<lambda>(dk, b).
    rbind (sr_opt k KEM_SS_LEN b) (\<lambda>(ss, b).
    Inr (if present then Some \<lparr>ot_m = m, ot_keypair = \<lparr>kp_pk = pk, kp_dk = dk\<rparr>, ot_ss = ss\<rparr> else None,
         b))))))"

definition sr_peer_turn :: "record_kind \<Rightarrow> byte list \<Rightarrow> peer_turn option store_read" where
  "sr_peer_turn k bs =
    rbind (sr_flag k bs) (\<lambda>(present, b).
    rbind (sr_u64 k b) (\<lambda>(m, b).
    rbind (sr_take k KEM_EK_LEN b) (\<lambda>(pk, b).
    rbind (sr_opt k KEM_SS_LEN b) (\<lambda>(ss, b).
    Inr (if present then Some \<lparr>pt_m = m, pt_pk = pk, pt_ss = ss\<rparr> else None, b)))))"

definition sr_header_version :: "record_kind \<Rightarrow> byte list \<Rightarrow> byte \<Rightarrow> byte list \<Rightarrow> unit store_read" where
  "sr_header_version k magic version bs =
    rbind (sr_take k (length magic) bs) (\<lambda>(h, b).
    if h \<noteq> magic then Inl (Corrupt k ''the record does not begin with its magic'')
    else rbind (sr_u8 k b) (\<lambda>(v, b).
    if v \<noteq> version then Inl (Corrupt k ''the record carries an unknown version'')
    else Inr ((), b)))"

definition sr_finish :: "record_kind \<Rightarrow> byte list \<Rightarrow> store_error + unit" where
  "sr_finish k bs = (if bs = [] then Inr ()
     else Inl (Corrupt k ''the record is not its kind's fixed width''))"

section \<open>The records\<close>

definition encode_advert_keys :: "advert_snapshot \<Rightarrow> u64 option \<Rightarrow> byte list" where
  "encode_advert_keys s published =
     ADVERT_KEYS_MAGIC @ [ADVERT_KEYS_RECORD_VERSION] @ u64_be (av_serial s) @ u64_be (av_not_before s)
     @ av_decapsulation_key s
     @ (case av_previous s of
          Some p \<Rightarrow> [PRESENT] @ u64_be (rt_serial p) @ u64_be (rt_retired_at p) @ rt_decapsulation_key p
        | None \<Rightarrow> [ABSENT] @ padded [] (8 + 8 + KEM_DK_LEN))
     @ (case published of Some serial \<Rightarrow> [PRESENT] @ u64_be serial | None \<Rightarrow> [ABSENT] @ padded [] 8)"

definition decode_advert_keys :: "byte list \<Rightarrow> store_error + (advert_snapshot \<times> u64 option)" where
  "decode_advert_keys bytes =
    (let k = RkAdvertKeys in
     rbind (sr_header_version k ADVERT_KEYS_MAGIC ADVERT_KEYS_RECORD_VERSION bytes) (\<lambda>(_, b).
     rbind (sr_u64 k b) (\<lambda>(serial, b).
     rbind (sr_u64 k b) (\<lambda>(not_before, b).
     rbind (sr_take k KEM_DK_LEN b) (\<lambda>(dk, b).
     rbind (sr_flag k b) (\<lambda>(has_previous, b).
     rbind (sr_u64 k b) (\<lambda>(prev_serial, b).
     rbind (sr_u64 k b) (\<lambda>(retired_at, b).
     rbind (sr_take k KEM_DK_LEN b) (\<lambda>(prev_dk, b).
     rbind (sr_opt_u64 k b) (\<lambda>(published, b).
     rbind (sr_finish k b) (\<lambda>_.
     Inr (\<lparr>av_serial = serial, av_not_before = not_before, av_decapsulation_key = dk,
           av_previous = (if has_previous then Some \<lparr>rt_serial = prev_serial, rt_retired_at = retired_at,
             rt_decapsulation_key = prev_dk\<rparr> else None)\<rparr>, published))))))))))))"

definition w_hello :: "outstanding_hello option \<Rightarrow> byte list" where
  "w_hello hello = (case hello of
     Some h \<Rightarrow> [PRESENT] @ u16_be (oh_slot h) @ oh_r h @ oh_kem_ct h @ oh_sealed h @ u64_be (oh_advert_serial h)
   | None \<Rightarrow> [ABSENT] @ padded [] (HELLO_FIELD_LEN - 1))"

definition w_sending :: "direction_state \<Rightarrow> byte list" where
  "w_sending d = ds_root d @ w_opt (ds_chain d) CHAIN_KEY_LEN @ u64_be (ds_n d) @ w_opt_u64 (ds_m_seen d)
     @ u64_be (ds_seq d) @ u64_be (ds_cursor d) @ w_opt (ds_peer_pk d) KEM_EK_LEN
     @ w_opt (ds_peer_ss d) KEM_SS_LEN @ w_own_turn (ds_pending_turn d) @ [flag_byte (ds_force_turn d)]"

definition w_receiving :: "receiving_state \<Rightarrow> byte list" where
  "w_receiving r = rs_root r @ w_opt (rs_chain r) CHAIN_KEY_LEN @ u64_be (rs_n r) @ u64_be (rs_next_seq r)
     @ w_own_turn (fst (rs_own_turns r)) @ w_own_turn (snd (rs_own_turns r)) @ w_peer_turn (rs_peer_latest r)"

definition encode_conv :: "conv_state \<Rightarrow> byte list" where
  "encode_conv s =
     CONV_MAGIC @ [CONV_RECORD_VERSION] @ cs_peer_identity_pk s @ cs_outgoing_lookup_key s
     @ cs_incoming_lookup_key s @ u64_be (cs_generation s) @ u64_be (cs_send_seq s)
     @ u64_be (cs_peer_collected s) @ u64_be (cs_my_collected s) @ u64_be (cs_cursor_published s)
     @ [flag_byte (cs_awaiting_acceptance s)] @ w_hello (cs_outstanding_hello s)
     @ w_opt (cs_own_hello_secret s) KEM_SS_LEN @ w_opt (cs_own_hello_kem_ct s) KEM_CT_LEN
     @ w_opt (cs_own_control_key s) CONTROL_KEY_LEN @ w_opt (cs_peer_control_key s) CONTROL_KEY_LEN
     @ w_opt_u64 (cs_peer_advert_serial s) @ w_opt (cs_own_opening s) OPENING_LEN
     @ w_sending (sn_sending (cs_conversation s)) @ w_receiving (sn_receiving (cs_conversation s))
     @ [flag_byte (cs_acceptance_pending s)] @ [flag_byte (cs_delete_pending s)]"

definition sr_hello :: "record_kind \<Rightarrow> byte list \<Rightarrow> outstanding_hello option store_read" where
  "sr_hello k b =
    rbind (sr_flag k b) (\<lambda>(has_hello, b).
    rbind (sr_u16 k b) (\<lambda>(slot, b).
    rbind (sr_take k HELLO_R_LEN b) (\<lambda>(r, b).
    rbind (sr_take k KEM_CT_LEN b) (\<lambda>(kem_ct, b).
    rbind (sr_take k HELLO_LEN b) (\<lambda>(sealed, b).
    rbind (sr_u64 k b) (\<lambda>(serial, b).
    if has_hello \<and> slot \<ge> DROP_SUBKEYS
    then Inl (Corrupt k ''the outstanding hello names a slot the drop does not have'')
    else if has_hello \<and> take KEM_CT_LEN sealed \<noteq> kem_ct
    then Inl (Corrupt k ''the outstanding hello's encapsulation is not the one it opens with'')
    else Inr (if has_hello then Some \<lparr>oh_slot = slot, oh_r = r, oh_kem_ct = kem_ct, oh_sealed = sealed,
           oh_advert_serial = serial\<rparr> else None, b)))))))"

definition sr_sending :: "record_kind \<Rightarrow> byte list \<Rightarrow> direction_state store_read" where
  "sr_sending k b =
    rbind (sr_take k ROOT_LEN b) (\<lambda>(root, b).
    rbind (sr_opt k CHAIN_KEY_LEN b) (\<lambda>(chain, b).
    rbind (sr_u64 k b) (\<lambda>(n, b).
    rbind (sr_opt_u64 k b) (\<lambda>(m_seen, b).
    rbind (sr_u64 k b) (\<lambda>(seq, b).
    rbind (sr_u64 k b) (\<lambda>(cursor, b).
    rbind (sr_opt k KEM_EK_LEN b) (\<lambda>(peer_pk, b).
    rbind (sr_opt k KEM_SS_LEN b) (\<lambda>(peer_ss, b).
    rbind (sr_own_turn k b) (\<lambda>(pending_turn, b).
    rbind (sr_flag k b) (\<lambda>(force_turn, b).
    Inr (\<lparr>ds_root = root, ds_chain = chain, ds_n = n, ds_m_seen = m_seen, ds_seq = seq, ds_cursor = cursor,
          ds_peer_pk = peer_pk, ds_peer_ss = peer_ss, ds_pending_turn = pending_turn,
          ds_force_turn = force_turn\<rparr>, b)))))))))))"

definition sr_receiving :: "record_kind \<Rightarrow> byte list \<Rightarrow> receiving_state store_read" where
  "sr_receiving k b =
    rbind (sr_take k ROOT_LEN b) (\<lambda>(root, b).
    rbind (sr_opt k CHAIN_KEY_LEN b) (\<lambda>(chain, b).
    rbind (sr_u64 k b) (\<lambda>(n, b).
    rbind (sr_u64 k b) (\<lambda>(next_seq, b).
    rbind (sr_own_turn k b) (\<lambda>(turn0, b).
    rbind (sr_own_turn k b) (\<lambda>(turn1, b).
    rbind (sr_peer_turn k b) (\<lambda>(peer_latest, b).
    Inr (\<lparr>rs_root = root, rs_chain = chain, rs_n = n, rs_next_seq = next_seq,
          rs_own_turns = (turn0, turn1), rs_peer_latest = peer_latest\<rparr>, b))))))))"

definition decode_conv :: "byte list \<Rightarrow> store_error + conv_state" where
  "decode_conv bytes =
    (let k = RkConversation in
     rbind (sr_header_version k CONV_MAGIC CONV_RECORD_VERSION bytes) (\<lambda>(_, b).
     rbind (sr_take k DSA_PK_LEN b) (\<lambda>(pk, b).
     rbind (sr_take k HELLO_LOOKUP_KEY_LEN b) (\<lambda>(outgoing, b).
     rbind (sr_take k HELLO_LOOKUP_KEY_LEN b) (\<lambda>(incoming, b).
     rbind (sr_u64 k b) (\<lambda>(generation, b).
     rbind (sr_u64 k b) (\<lambda>(send_seq, b).
     rbind (sr_u64 k b) (\<lambda>(peer_collected, b).
     rbind (sr_u64 k b) (\<lambda>(my_collected, b).
     rbind (sr_u64 k b) (\<lambda>(cursor_published, b).
     rbind (sr_flag k b) (\<lambda>(awaiting_acceptance, b).
     if cursor_published > my_collected
     then Inl (Corrupt k ''the published cursor is above this side's collection cursor'')
     else if peer_collected > send_seq
     then Inl (Corrupt k ''the correspondent's cursor is above this side's send sequence'')
     else
     rbind (sr_hello k b) (\<lambda>(hello, b).
     rbind (sr_opt k KEM_SS_LEN b) (\<lambda>(own_hello_secret, b).
     rbind (sr_opt k KEM_CT_LEN b) (\<lambda>(own_hello_kem_ct, b).
     rbind (sr_opt k CONTROL_KEY_LEN b) (\<lambda>(own_control_key, b).
     rbind (sr_opt k CONTROL_KEY_LEN b) (\<lambda>(peer_control_key, b).
     rbind (sr_opt_u64 k b) (\<lambda>(peer_advert_serial, b).
     rbind (sr_opt k OPENING_LEN b) (\<lambda>(own_opening, b).
     rbind (sr_sending k b) (\<lambda>(sending, b).
     rbind (sr_receiving k b) (\<lambda>(receiving, b).
     rbind (sr_flag k b) (\<lambda>(acceptance_pending, b).
     rbind (sr_flag k b) (\<lambda>(delete_pending, b).
     rbind (sr_finish k b) (\<lambda>_.
     Inr \<lparr>cs_peer_identity_pk = pk, cs_outgoing_lookup_key = outgoing, cs_incoming_lookup_key = incoming,
       cs_generation = generation, cs_conversation = \<lparr>sn_sending = sending, sn_receiving = receiving\<rparr>,
       cs_send_seq = send_seq, cs_peer_collected = peer_collected, cs_my_collected = my_collected,
       cs_cursor_published = cursor_published, cs_awaiting_acceptance = awaiting_acceptance,
       cs_acceptance_pending = acceptance_pending, cs_outstanding_hello = hello,
       cs_own_hello_secret = own_hello_secret, cs_own_hello_kem_ct = own_hello_kem_ct,
       cs_own_control_key = own_control_key, cs_peer_control_key = peer_control_key,
       cs_peer_advert_serial = peer_advert_serial, cs_own_opening = own_opening,
       cs_delete_pending = delete_pending\<rparr>)))))))))))))))))))))))"

text \<open>A slot's ciphertext length is cast to \<open>u32\<close>; the table has one entry per ring slot.\<close>

definition w_outbox_entry :: "outbox_entry option \<Rightarrow> byte list" where
  "w_outbox_entry slot = (case slot of
     Some e \<Rightarrow> [PRESENT] @ u64_be (oe_seq e) @ u64_be (oe_sent_at e)
       @ u32_be (word_of_nat (length (oe_ciphertext e))) @ padded (oe_ciphertext e) CHANNEL_SUBKEY_LEN
   | None \<Rightarrow> [ABSENT] @ padded [] (CONV_OUTBOX_ENTRY_LEN - 1))"

definition encode_conv_outbox :: "outbox_table \<Rightarrow> byte list" where
  "encode_conv_outbox table = CONV_OUTBOX_MAGIC @ [CONV_OUTBOX_RECORD_VERSION] @ concat (map w_outbox_entry table)"

definition sr_outbox_entry :: "u64 \<Rightarrow> byte list \<Rightarrow> outbox_entry option store_read" where
  "sr_outbox_entry index b =
    (let k = RkConversationOutbox in
     rbind (sr_flag k b) (\<lambda>(present, b).
     rbind (sr_u64 k b) (\<lambda>(seq, b).
     rbind (sr_u64 k b) (\<lambda>(sent_at, b).
     rbind (sr_u32 k b) (\<lambda>(len, b).
     rbind (sr_take k CHANNEL_SUBKEY_LEN b) (\<lambda>(body, b).
     if \<not> present then Inr (None, b)
     else if seq mod RING_SLOTS \<noteq> index
     then Inl (Corrupt k ''an entry holds a sequence that is not its ring position'')
     else if length body < unat len then Inl (Corrupt k ''an entry's length runs past its slot'')
     else Inr (Some \<lparr>oe_seq = seq, oe_sent_at = sent_at, oe_ciphertext = take (unat len) body\<rparr>, b)))))))"

fun sr_outbox_entries :: "u64 list \<Rightarrow> byte list \<Rightarrow> outbox_table store_read" where
  "sr_outbox_entries [] b = Inr ([], b)"
| "sr_outbox_entries (index # rest) b =
    rbind (sr_outbox_entry index b) (\<lambda>(e, b).
    rbind (sr_outbox_entries rest b) (\<lambda>(es, b). Inr (e # es, b)))"

definition ring_indices :: "u64 list" where
  "ring_indices = map word_of_nat [0..<unat RING_SLOTS]"

definition decode_conv_outbox :: "byte list \<Rightarrow> store_error + outbox_table" where
  "decode_conv_outbox bytes =
    rbind (sr_header_version RkConversationOutbox CONV_OUTBOX_MAGIC CONV_OUTBOX_RECORD_VERSION bytes) (\<lambda>(_, b).
    rbind (sr_outbox_entries ring_indices b) (\<lambda>(table, b).
    rbind (sr_finish RkConversationOutbox b) (\<lambda>_. Inr table)))"

definition empty_outbox :: outbox_table where
  "empty_outbox = replicate (unat RING_SLOTS) None"

definition read_outbox :: "byte list option \<Rightarrow> store_error + outbox_table" where
  "read_outbox bytes = (case bytes of
     Some raw \<Rightarrow> if raw \<noteq> [] then decode_conv_outbox raw else Inr empty_outbox
   | None \<Rightarrow> Inr empty_outbox)"

definition encode_reach_serial :: "u64 \<Rightarrow> byte list" where
  "encode_reach_serial serial = REACH_SERIAL_MAGIC @ [REACH_SERIAL_RECORD_VERSION] @ u64_be serial"

definition decode_reach_serial :: "byte list \<Rightarrow> store_error + u64" where
  "decode_reach_serial bytes =
    rbind (sr_header_version RkReachSerial REACH_SERIAL_MAGIC REACH_SERIAL_RECORD_VERSION bytes) (\<lambda>(_, b).
    rbind (sr_u64 RkReachSerial b) (\<lambda>(serial, b).
    rbind (sr_finish RkReachSerial b) (\<lambda>_. Inr serial)))"

definition encode_route :: "byte list \<Rightarrow> u64 \<Rightarrow> byte list" where
  "encode_route route serial =
    (let route = take REACH_ROUTE_MAX_LEN route
     in ROUTE_MAGIC @ [ROUTE_RECORD_VERSION] @ u16_be (word_of_nat (length route))
        @ padded route REACH_ROUTE_MAX_LEN @ u64_be serial)"

definition decode_route :: "byte list \<Rightarrow> store_error + (byte list option \<times> u64)" where
  "decode_route bytes =
    (let k = RkCorrespondentRoute in
     rbind (sr_header_version k ROUTE_MAGIC ROUTE_RECORD_VERSION bytes) (\<lambda>(_, b).
     rbind (sr_u16 k b) (\<lambda>(len, b).
     rbind (sr_take k REACH_ROUTE_MAX_LEN b) (\<lambda>(field, b).
     if length field < unat len then Inl (Corrupt k ''the route's length runs past its field'')
     else rbind (sr_u64 k b) (\<lambda>(serial, b).
     rbind (sr_finish k b) (\<lambda>_.
     Inr (if take (unat len) field \<noteq> [] then Some (take (unat len) field) else None, serial)))))))"

text \<open>A string is its UTF-8 bytes; a character boundary is an end or a byte that continues no character.\<close>

definition is_char_boundary :: "byte list \<Rightarrow> nat \<Rightarrow> bool" where
  "is_char_boundary s i = (i = 0 \<or> i = length s \<or> i < length s \<and> \<not> in_range 0x80 0xBF (s ! i))"

fun cut_back :: "byte list \<Rightarrow> nat \<Rightarrow> nat" where
  "cut_back s 0 = 0"
| "cut_back s (Suc i) = (if is_char_boundary s (Suc i) then Suc i else cut_back s i)"

definition cut_handle :: "byte list \<Rightarrow> byte list" where
  "cut_handle handle = take (cut_back handle (min (length handle) HANDLE_MAX_LEN)) handle"

definition encode_handle :: "byte list \<Rightarrow> byte list" where
  "encode_handle handle =
    (let handle = cut_handle handle
     in HANDLE_MAGIC @ [HANDLE_RECORD_VERSION] @ u16_be (word_of_nat (length handle)) @ padded handle HANDLE_MAX_LEN)"

definition decode_handle :: "byte list \<Rightarrow> store_error + byte list" where
  "decode_handle bytes =
    (let k = RkCorrespondentHandle in
     rbind (sr_header_version k HANDLE_MAGIC HANDLE_RECORD_VERSION bytes) (\<lambda>(_, b).
     rbind (sr_u16 k b) (\<lambda>(len, b).
     rbind (sr_take k HANDLE_MAX_LEN b) (\<lambda>(field, b).
     if length field < unat len then Inl (Corrupt k ''the handle's length runs past its field'')
     else if \<not> utf8_valid (take (unat len) field) then Inl (Corrupt k ''the handle is not UTF-8'')
     else rbind (sr_finish k b) (\<lambda>_. Inr (take (unat len) field))))))"

section \<open>Round trips\<close>

lemma u16_codec [simp, codec_simps]: "length (u16_be w) = 2" "u16_of_be (u16_be w) = w"
proof -
  have "unat w < 256 ^ 2" using unat_less_exp [of w] by simp
  then show "u16_of_be (u16_be w) = w"
    by (simp add: u16_of_be_def u16_be_def be_dec_be_enc del: power_numeral)
qed (simp add: u16_be_def)

lemma u16_be_u16_of_be: "length bs = 2 \<Longrightarrow> u16_be (u16_of_be bs) = bs"
  using be_dec_less [of bs] be_enc_be_dec [of bs] by (simp add: u16_of_be_def u16_be_def unat_of_nat)

lemma sr_take_append: "length v = n \<Longrightarrow> sr_take k n (v @ t) = Inr (v, t)"
  by (auto simp: sr_take_def)

lemma sr_ints:
  "sr_u16 k (u16_be a @ t) = Inr (a, t)" "sr_u32 k (u32_be b @ t) = Inr (b, t)"
  "sr_u64 k (u64_be c @ t) = Inr (c, t)" "sr_u8 k (x # t) = Inr (x, t)"
  by (simp_all add: sr_u16_def sr_u32_def sr_u64_def sr_take_append)
    (simp add: sr_u8_def sr_take_def)

lemma sr_flags:
  "sr_flag k (flag_byte f # t) = Inr (f, t)" "sr_flag k (PRESENT # t) = Inr (True, t)"
  "sr_flag k (ABSENT # t) = Inr (False, t)" "sr_flag k (0 # t) = Inr (False, t)"
  by (simp_all add: sr_flag_def sr_ints flag_byte_def PRESENT_def ABSENT_def)

lemma length_padded [simp]: "length v \<le> n \<Longrightarrow> length (padded v n) = n"
  by (simp add: padded_def)

lemma padded_full [simp]: "length v = n \<Longrightarrow> padded v n = v"
  by (simp add: padded_def)

definition opt_len :: "nat \<Rightarrow> byte list option \<Rightarrow> bool" where
  "opt_len n v = (\<forall>b. v = Some b \<longrightarrow> length b = n)"

lemma opt_len_simps [simp]: "opt_len n None" "opt_len n (Some b) \<longleftrightarrow> length b = n"
  by (simp_all add: opt_len_def)

lemma length_w_opt [simp]: "opt_len n v \<Longrightarrow> length (w_opt v n) = 1 + n"
  by (cases v) (simp_all add: w_opt_def)

lemma length_w_opt_u64 [simp]: "length (w_opt_u64 v) = 9"
  by (cases v) (simp_all add: w_opt_u64_def)

lemma sr_opt_w_opt: "opt_len n v \<Longrightarrow> sr_opt k n (w_opt v n @ t) = Inr (v, t)"
  by (cases v) (simp_all add: sr_opt_def w_opt_def sr_flags sr_take_append padded_def)

lemma sr_opt_u64_w: "sr_opt_u64 k (w_opt_u64 v @ t) = Inr (v, t)"
  by (cases v) (simp_all add: sr_opt_u64_def w_opt_u64_def sr_opt_w_opt)

text \<open>An absent turn's zeros read as a number, two keys and an absent secret.\<close>

lemma replicate_split: "replicate (m + n) x @ t = replicate m x @ replicate n x @ t"
  by (simp add: replicate_add)

lemma sr_zeros:
  "sr_u64 k (replicate 8 0 @ t) = Inr (u64_of_be (replicate 8 0), t)"
  "sr_u16 k (replicate 2 0 @ t) = Inr (u16_of_be (replicate 2 0), t)"
  "sr_opt k n (replicate (1 + n) 0 @ t) = Inr (None, t)"
  "sr_opt k n (0 # replicate n 0 @ t) = Inr (None, t)"
  "sr_take k n (replicate n 0 @ t) = Inr (replicate n 0, t)"
  by (simp_all add: sr_u64_def sr_u16_def sr_opt_def sr_take_append sr_flags)

definition own_turn_wf :: "own_turn option \<Rightarrow> bool" where
  "own_turn_wf x = (\<forall>t. x = Some t \<longrightarrow> length (kp_pk (ot_keypair t)) = KEM_EK_LEN \<and>
     length (kp_dk (ot_keypair t)) = KEM_DK_LEN \<and> opt_len KEM_SS_LEN (ot_ss t))"

definition peer_turn_wf :: "peer_turn option \<Rightarrow> bool" where
  "peer_turn_wf x = (\<forall>t. x = Some t \<longrightarrow> length (pt_pk t) = KEM_EK_LEN \<and> opt_len KEM_SS_LEN (pt_ss t))"

lemma sr_own_turn_w: "own_turn_wf x \<Longrightarrow> sr_own_turn k (w_own_turn x @ t) = Inr (x, t)"
proof (cases x)
  case None
  have l: "OWN_TURN_LEN = 8 + (KEM_EK_LEN + (KEM_DK_LEN + (1 + KEM_SS_LEN)))"
    by (simp add: OWN_TURN_LEN_def)
  show ?thesis
    by (simp only: None w_own_turn_def option.case padded_def append_Nil list.size diff_zero l
        append_Cons append_assoc replicate_split sr_own_turn_def sr_flags rbind_simps prod.case
        sr_zeros) (simp add: sr_zeros)
next
  case (Some u)
  assume "own_turn_wf x"
  with Some show ?thesis
    by (cases u; cases "ot_keypair u") (simp add: own_turn_wf_def w_own_turn_def sr_own_turn_def sr_flags
        sr_ints sr_take_append sr_opt_w_opt)
qed

lemma sr_peer_turn_w: "peer_turn_wf x \<Longrightarrow> sr_peer_turn k (w_peer_turn x @ t) = Inr (x, t)"
proof (cases x)
  case None
  have l: "PEER_TURN_LEN = 8 + (KEM_EK_LEN + (1 + KEM_SS_LEN))"
    by (simp add: PEER_TURN_LEN_def)
  show ?thesis
    by (simp only: None w_peer_turn_def option.case padded_def append_Nil list.size diff_zero l
        append_Cons append_assoc replicate_split sr_peer_turn_def sr_flags rbind_simps prod.case
        sr_zeros) (simp add: sr_zeros)
next
  case (Some u)
  assume "peer_turn_wf x"
  with Some show ?thesis
    by (cases u) (simp add: peer_turn_wf_def w_peer_turn_def sr_peer_turn_def sr_flags
        sr_ints sr_take_append sr_opt_w_opt)
qed

lemma sr_header_version_w:
  "sr_header_version k magic v (magic @ v # t) = Inr ((), t)"
  by (simp add: sr_header_version_def sr_take_append sr_ints)

lemma sr_finish_Nil [simp]: "sr_finish k [] = Inr ()"
  by (simp add: sr_finish_def)

lemmas sr_rules = sr_take_append sr_ints sr_flags sr_opt_w_opt sr_opt_u64_w sr_own_turn_w sr_peer_turn_w
  sr_header_version_w

definition hello_wf :: "outstanding_hello option \<Rightarrow> bool" where
  "hello_wf x = (\<forall>h. x = Some h \<longrightarrow> length (oh_r h) = HELLO_R_LEN \<and> length (oh_kem_ct h) = KEM_CT_LEN \<and>
     length (oh_sealed h) = HELLO_LEN \<and> oh_slot h < DROP_SUBKEYS \<and> take KEM_CT_LEN (oh_sealed h) = oh_kem_ct h)"

lemma sr_hello_w: "hello_wf x \<Longrightarrow> sr_hello k (w_hello x @ t) = Inr (x, t)"
proof (cases x)
  case None
  have l: "HELLO_FIELD_LEN - 1 = 2 + (HELLO_R_LEN + (KEM_CT_LEN + (HELLO_LEN + 8)))"
    by (simp add: HELLO_FIELD_LEN_def)
  show ?thesis
    by (simp only: None w_hello_def option.case padded_def append_Nil list.size diff_zero l
        append_Cons append_assoc replicate_split sr_hello_def sr_flags rbind_simps prod.case
        sr_zeros) (simp add: sr_zeros)
next
  case (Some h)
  assume "hello_wf x"
  with Some show ?thesis
    by (cases h) (simp add: hello_wf_def w_hello_def sr_hello_def sr_rules linorder_not_le)
qed

definition sending_wf :: "direction_state \<Rightarrow> bool" where
  "sending_wf d = (length (ds_root d) = ROOT_LEN \<and> opt_len CHAIN_KEY_LEN (ds_chain d) \<and>
     opt_len KEM_EK_LEN (ds_peer_pk d) \<and> opt_len KEM_SS_LEN (ds_peer_ss d) \<and>
     own_turn_wf (ds_pending_turn d))"

definition receiving_wf :: "receiving_state \<Rightarrow> bool" where
  "receiving_wf r = (length (rs_root r) = ROOT_LEN \<and> opt_len CHAIN_KEY_LEN (rs_chain r) \<and>
     own_turn_wf (fst (rs_own_turns r)) \<and> own_turn_wf (snd (rs_own_turns r)) \<and>
     peer_turn_wf (rs_peer_latest r))"

lemma sr_sending_w: "sending_wf d \<Longrightarrow> sr_sending k (w_sending d @ t) = Inr (d, t)"
  by (cases d) (simp add: sending_wf_def w_sending_def sr_sending_def sr_rules)

lemma sr_receiving_w: "receiving_wf r \<Longrightarrow> sr_receiving k (w_receiving r @ t) = Inr (r, t)"
  by (cases r) (simp add: receiving_wf_def w_receiving_def sr_receiving_def sr_rules)

text \<open>
  What the field types guarantee, and the two orders between counters that the decoder checks.
\<close>

definition conv_wf :: "conv_state \<Rightarrow> bool" where
  "conv_wf s = (length (cs_peer_identity_pk s) = DSA_PK_LEN \<and>
     length (cs_outgoing_lookup_key s) = HELLO_LOOKUP_KEY_LEN \<and>
     length (cs_incoming_lookup_key s) = HELLO_LOOKUP_KEY_LEN \<and>
     cs_cursor_published s \<le> cs_my_collected s \<and> cs_peer_collected s \<le> cs_send_seq s \<and>
     hello_wf (cs_outstanding_hello s) \<and> opt_len KEM_SS_LEN (cs_own_hello_secret s) \<and>
     opt_len KEM_CT_LEN (cs_own_hello_kem_ct s) \<and> opt_len CONTROL_KEY_LEN (cs_own_control_key s) \<and>
     opt_len CONTROL_KEY_LEN (cs_peer_control_key s) \<and> opt_len OPENING_LEN (cs_own_opening s) \<and>
     sending_wf (sn_sending (cs_conversation s)) \<and> receiving_wf (sn_receiving (cs_conversation s)))"

lemma decode_encode_conv:
  assumes "conv_wf s"
  shows "decode_conv (encode_conv s) = Inr s"
proof -
  have snap: "\<lparr>sn_sending = sn_sending c, sn_receiving = sn_receiving c\<rparr> = c" for c :: conversation_snapshot
    by (cases c) simp
  have flag: "sr_flag k [flag_byte b] = Inr (b, [])" for k b using sr_flags(1) [of k b "[]"] by simp
  from assms show ?thesis
    by (cases s) (simp add: conv_wf_def encode_conv_def decode_conv_def Let_def sr_rules sr_hello_w sr_sending_w
        sr_receiving_w linorder_not_less [symmetric] flag snap)
qed

lemma encode_conv_inj: "conv_wf s \<Longrightarrow> conv_wf t \<Longrightarrow> encode_conv s = encode_conv t \<longleftrightarrow> s = t"
  using decode_encode_conv by (metis sum.inject(2))

section \<open>One width per record\<close>

lemma length_w_own_turn [simp]: "own_turn_wf x \<Longrightarrow> length (w_own_turn x) = 1 + OWN_TURN_LEN"
  by (cases x) (auto simp: w_own_turn_def own_turn_wf_def OWN_TURN_LEN_def)

lemma length_w_peer_turn [simp]: "peer_turn_wf x \<Longrightarrow> length (w_peer_turn x) = 1 + PEER_TURN_LEN"
  by (cases x) (auto simp: w_peer_turn_def peer_turn_wf_def PEER_TURN_LEN_def)

lemma length_w_hello [simp]: "hello_wf x \<Longrightarrow> length (w_hello x) = HELLO_FIELD_LEN"
  by (cases x) (auto simp: w_hello_def hello_wf_def HELLO_FIELD_LEN_def)

lemma length_w_sending [simp]: "sending_wf d \<Longrightarrow> length (w_sending d) = SENDING_LEN"
  by (simp add: w_sending_def sending_wf_def SENDING_LEN_def)

lemma length_w_receiving [simp]: "receiving_wf r \<Longrightarrow> length (w_receiving r) = RECEIVING_LEN"
  by (simp add: w_receiving_def receiving_wf_def RECEIVING_LEN_def OWN_TURNS_RETAINED_def)

lemma length_encode_conv: "conv_wf s \<Longrightarrow> length (encode_conv s) = CONV_RECORD_LEN"
  by (simp add: conv_wf_def encode_conv_def CONV_RECORD_LEN_def SNAPSHOT_LEN_def)

section \<open>The outbox\<close>

definition entry_wf :: "u64 \<Rightarrow> outbox_entry option \<Rightarrow> bool" where
  "entry_wf i x = (\<forall>e. x = Some e \<longrightarrow> oe_seq e mod RING_SLOTS = i \<and> length (oe_ciphertext e) \<le> CHANNEL_SUBKEY_LEN)"

definition outbox_wf :: "outbox_table \<Rightarrow> bool" where
  "outbox_wf table = list_all2 entry_wf ring_indices table"

lemma unat_subkey_len:
  assumes "length c \<le> CHANNEL_SUBKEY_LEN"
  shows "unat (word_of_nat (length c) :: u32) = length c"
proof -
  have "CHANNEL_SUBKEY_LEN < 2 ^ 32" by (simp add: channel_sizes)
  with assms show ?thesis by (simp add: unat_of_nat)
qed

lemma sr_outbox_entry_w: "entry_wf i x \<Longrightarrow> sr_outbox_entry i (w_outbox_entry x @ t) = Inr (x, t)"
proof (cases x)
  case None
  have l: "CONV_OUTBOX_ENTRY_LEN - 1 = 8 + (8 + (4 + CHANNEL_SUBKEY_LEN))"
    by (simp add: CONV_OUTBOX_ENTRY_LEN_def)
  have z: "sr_u32 k (replicate 4 0 @ t) = Inr (u32_of_be (replicate 4 0), t)" for k t
    by (simp add: sr_u32_def sr_take_append)
  show ?thesis
    by (simp only: None w_outbox_entry_def option.case padded_def append_Nil list.size diff_zero l
        append_Cons append_assoc replicate_split sr_outbox_entry_def Let_def sr_flags rbind_simps prod.case
        sr_zeros z) simp
next
  case (Some e)
  assume "entry_wf i x"
  with Some have e: "oe_seq e mod RING_SLOTS = i" "length (oe_ciphertext e) \<le> CHANNEL_SUBKEY_LEN"
    by (simp_all add: entry_wf_def)
  with Some show ?thesis
    by (cases e) (simp add: w_outbox_entry_def sr_outbox_entry_def Let_def sr_rules unat_subkey_len,
        simp add: padded_def)
qed

lemma sr_outbox_entries_w:
  "list_all2 entry_wf is table \<Longrightarrow> sr_outbox_entries is (concat (map w_outbox_entry table) @ t) = Inr (table, t)"
  by (induction "is" table rule: list_all2_induct) (simp_all add: sr_outbox_entry_w)

lemma decode_encode_conv_outbox: "outbox_wf table \<Longrightarrow> decode_conv_outbox (encode_conv_outbox table) = Inr table"
  using sr_outbox_entries_w [of ring_indices table "[]"]
  by (simp add: decode_conv_outbox_def encode_conv_outbox_def sr_rules outbox_wf_def)

lemma length_w_outbox_entry: "entry_wf i x \<Longrightarrow> length (w_outbox_entry x) = CONV_OUTBOX_ENTRY_LEN"
  by (cases x) (auto simp: w_outbox_entry_def entry_wf_def CONV_OUTBOX_ENTRY_LEN_def)

lemma length_outbox_entries:
  "list_all2 entry_wf is table \<Longrightarrow> length (concat (map w_outbox_entry table)) = length is * CONV_OUTBOX_ENTRY_LEN"
  by (induction "is" table rule: list_all2_induct) (simp_all add: length_w_outbox_entry)

lemma length_encode_conv_outbox: "outbox_wf table \<Longrightarrow> length (encode_conv_outbox table) = CONV_OUTBOX_RECORD_LEN"
  using length_outbox_entries [of ring_indices table]
  by (simp add: encode_conv_outbox_def outbox_wf_def CONV_OUTBOX_RECORD_LEN_def ring_indices_def)

text \<open>Nothing the decoder accepts sits at a ring position that is not its sequence's.\<close>

lemma sr_outbox_entry_sound: "sr_outbox_entry i b = Inr (x, t) \<Longrightarrow> entry_wf i x"
  by (auto simp: sr_outbox_entry_def Let_def result_simps sr_take_def entry_wf_def split: if_splits)

lemma sr_outbox_entries_sound: "sr_outbox_entries is b = Inr (table, t) \<Longrightarrow> list_all2 entry_wf is table"
proof (induction "is" arbitrary: b table)
  case (Cons i "is")
  then show ?case by (auto simp: result_simps dest: sr_outbox_entry_sound)
qed simp

lemma decode_conv_outbox_sound: "decode_conv_outbox bs = Inr table \<Longrightarrow> outbox_wf table"
  by (auto simp: decode_conv_outbox_def result_simps outbox_wf_def dest: sr_outbox_entries_sound)

section \<open>The other records\<close>

definition advert_wf :: "advert_snapshot \<Rightarrow> bool" where
  "advert_wf s = (length (av_decapsulation_key s) = KEM_DK_LEN \<and>
     (\<forall>p. av_previous s = Some p \<longrightarrow> length (rt_decapsulation_key p) = KEM_DK_LEN))"

lemma published_eq:
  "(case p of Some serial \<Rightarrow> [PRESENT] @ u64_be serial | None \<Rightarrow> [ABSENT] @ padded [] 8) = w_opt_u64 p"
  by (cases p) (simp_all add: w_opt_u64_def w_opt_def)

lemma decode_encode_advert_keys:
  assumes "advert_wf s"
  shows "decode_advert_keys (encode_advert_keys s published) = Inr (s, published)"
proof -
  have o: "sr_opt_u64 k (w_opt_u64 p) = Inr (p, [])" for k p using sr_opt_u64_w [of k p "[]"] by simp
  have l: "16 + KEM_DK_LEN = 8 + (8 + KEM_DK_LEN)" by simp
  show ?thesis
  proof (cases "av_previous s")
    case None
    have z: "padded [] (16 + KEM_DK_LEN) @ t = replicate 8 0 @ replicate 8 0 @ replicate KEM_DK_LEN 0 @ t" for t
      by (simp only: padded_def append_Nil list.size diff_zero l replicate_split)
    from None assms show ?thesis
      by (cases s) (simp add: decode_advert_keys_def encode_advert_keys_def Let_def sr_rules published_eq o
          advert_wf_def z sr_zeros)
  next
    case (Some p)
    with assms show ?thesis
      by (cases s; cases p) (simp add: decode_advert_keys_def encode_advert_keys_def Let_def sr_rules published_eq o
          advert_wf_def)
  qed
qed

lemma decode_encode_reach_serial: "decode_reach_serial (encode_reach_serial n) = Inr n"
proof -
  have "sr_u64 k (u64_be n) = Inr (n, [])" for k using sr_ints(3) [of k n "[]"] by simp
  then show ?thesis by (simp add: decode_reach_serial_def encode_reach_serial_def sr_rules)
qed

lemma unat_u16_len: "n \<le> 4096 \<Longrightarrow> unat (word_of_nat n :: u16) = n"
  by (simp add: unat_of_nat)

lemma decode_encode_route:
  "decode_route (encode_route route n) = Inr (non_empty (take REACH_ROUTE_MAX_LEN route), n)"
proof -
  have u: "sr_u64 k (u64_be n) = Inr (n, [])" for k using sr_ints(3) [of k n "[]"] by simp
  define r where "r = take REACH_ROUTE_MAX_LEN route"
  have l: "length r \<le> REACH_ROUTE_MAX_LEN" "length r \<le> 4096" by (simp_all add: r_def REACH_ROUTE_MAX_LEN_def)
  have "take (length r) (padded r REACH_ROUTE_MAX_LEN) = r" by (simp add: padded_def)
  with l show ?thesis
    unfolding decode_route_def encode_route_def Let_def r_def [symmetric]
    by (simp add: sr_rules u unat_u16_len non_empty_def)
qed

lemma cut_back_le: "cut_back s n \<le> n"
  by (induction n) (simp_all add: le_SucI)

lemma cut_back_boundary: "is_char_boundary s (cut_back s n)"
  by (induction n) (simp_all add: is_char_boundary_def)

lemma length_cut_handle: "length (cut_handle h) \<le> HANDLE_MAX_LEN"
  using cut_back_le [of h "min (length h) HANDLE_MAX_LEN"] by (simp add: cut_handle_def)

lemma cut_handle_short: "length h \<le> HANDLE_MAX_LEN \<Longrightarrow> cut_handle h = h"
  by (cases "length h") (simp_all add: cut_handle_def is_char_boundary_def)

text \<open>A valid string cut at a character boundary is valid.\<close>

lemma utf8_valid_cut:
  assumes "utf8_valid h"
  shows "utf8_valid (cut_handle h)"
proof -
  let ?i = "cut_back h (min (length h) HANDLE_MAX_LEN)"
  have b: "is_char_boundary h ?i" by (rule cut_back_boundary)
  show ?thesis
    unfolding cut_handle_def
  proof (rule utf8_valid_prefix)
    show "utf8_valid (take ?i h @ drop ?i h)" using assms by simp
    show "drop ?i h = [] \<or> \<not> in_range 0x80 0xBF (hd (drop ?i h))"
    proof (cases "?i = 0")
      case True
      show ?thesis
      proof (cases "h = []")
        case False
        from utf8_valid_head [OF assms False] True show ?thesis by simp
      qed simp
    next
      case False
      with b show ?thesis by (auto simp: is_char_boundary_def hd_drop_conv_nth)
    qed
  qed
qed

lemma decode_encode_handle:
  assumes "utf8_valid h"
  shows "decode_handle (encode_handle h) = Inr (cut_handle h)"
proof -
  define r where "r = cut_handle h"
  have l: "length r \<le> HANDLE_MAX_LEN" "length r \<le> 4096"
    using length_cut_handle [of h] by (simp_all add: r_def HANDLE_MAX_LEN_def)
  have t: "take (length r) (padded r HANDLE_MAX_LEN) = r" by (simp add: padded_def)
  have p: "sr_take k HANDLE_MAX_LEN (padded r HANDLE_MAX_LEN) = Inr (padded r HANDLE_MAX_LEN, [])" for k
    using sr_take_append [of "padded r HANDLE_MAX_LEN" HANDLE_MAX_LEN k "[]"] l by simp
  from l t p utf8_valid_cut [OF assms] show ?thesis
    unfolding decode_handle_def encode_handle_def Let_def r_def [symmetric]
    by (simp add: sr_rules unat_u16_len)
qed

section \<open>Properties\<close>

text \<open>
  A conversation record reads back as the state it was written from, key schedule included, and
  its length says nothing of what it holds: every well-formed state encodes to
  \<open>CONV_RECORD_LEN\<close> bytes.
\<close>

lemma conv_record_round_trip:
  assumes "conv_wf s"
  shows "decode_conv (encode_conv s) = Inr s \<and> length (encode_conv s) = CONV_RECORD_LEN"
  using decode_encode_conv [OF assms] length_encode_conv [OF assms] by simp

definition demo_snapshot :: conversation_snapshot where
  "demo_snapshot = snapshot \<lparr>cv_sending = fresh_direction (replicate 32 1) None,
     cv_receiving = fresh_receiving (replicate 32 1) (Some (replicate 32 2))\<rparr>"

definition demo_conv :: conv_state where
  "demo_conv = \<lparr>cs_peer_identity_pk = replicate DSA_PK_LEN 1, cs_outgoing_lookup_key = replicate 32 2,
     cs_incoming_lookup_key = replicate 32 3, cs_generation = 0, cs_conversation = demo_snapshot,
     cs_send_seq = 5, cs_peer_collected = 2, cs_my_collected = 4, cs_cursor_published = 3,
     cs_awaiting_acceptance = False, cs_acceptance_pending = False, cs_outstanding_hello = None,
     cs_own_hello_secret = None, cs_own_hello_kem_ct = None, cs_own_control_key = None,
     cs_peer_control_key = Some (replicate 32 7), cs_peer_advert_serial = Some 9, cs_own_opening = None,
     cs_delete_pending = False\<rparr>"

lemma demo_conv_wf: "conv_wf demo_conv"
  by (simp add: conv_wf_def demo_conv_def demo_snapshot_def snapshot_def fresh_direction_def
      fresh_receiving_def hello_wf_def sending_wf_def receiving_wf_def own_turn_wf_def peer_turn_wf_def
      HELLO_LOOKUP_KEY_LEN_def CONTROL_KEY_LEN_def ROOT_LEN_def CHAIN_KEY_LEN_def)

lemma conv_record_round_trip_witness:
  "decode_conv (encode_conv demo_conv) = Inr demo_conv \<and> length (encode_conv demo_conv) = CONV_RECORD_LEN"
  by (rule conv_record_round_trip [OF demo_conv_wf])

text \<open>
  An outbox reads back as the table it was written from and always has one length; and no record
  the decoder accepts, whoever wrote it, holds an entry at a ring position that is not its sequence's
  or a ciphertext longer than a subkey.
\<close>

lemma outbox_record_exact:
  "(outbox_wf table \<longrightarrow> decode_conv_outbox (encode_conv_outbox table) = Inr table \<and>
      length (encode_conv_outbox table) = CONV_OUTBOX_RECORD_LEN) \<and>
   (decode_conv_outbox bs = Inr table \<longrightarrow> outbox_wf table)"
  using decode_encode_conv_outbox length_encode_conv_outbox decode_conv_outbox_sound by blast

lemma empty_outbox_wf: "outbox_wf empty_outbox"
  by (simp add: outbox_wf_def empty_outbox_def ring_indices_def list_all2_conv_all_nth entry_wf_def)

lemma outbox_record_exact_witness:
  "decode_conv_outbox (encode_conv_outbox empty_outbox) = Inr empty_outbox"
  using outbox_record_exact [of empty_outbox "[]"] empty_outbox_wf by blast

text \<open>
  The profile's other records read back: the advert keys with their published serial, the reach
  serial, a route (cut to its maximum, absent where empty) with its serial, and a handle, cut at a
  character boundary so that what is kept is still valid UTF-8 of at most 256 bytes.
\<close>

theorem small_records_round_trip:
  "(advert_wf s \<longrightarrow> decode_advert_keys (encode_advert_keys s published) = Inr (s, published)) \<and>
   decode_reach_serial (encode_reach_serial n) = Inr n \<and>
   decode_route (encode_route route n) = Inr (non_empty (take REACH_ROUTE_MAX_LEN route), n) \<and>
   (utf8_valid h \<longrightarrow> decode_handle (encode_handle h) = Inr (cut_handle h) \<and> utf8_valid (cut_handle h) \<and>
      length (cut_handle h) \<le> HANDLE_MAX_LEN \<and> (length h \<le> HANDLE_MAX_LEN \<longrightarrow> cut_handle h = h))"
  using decode_encode_advert_keys decode_encode_reach_serial decode_encode_route decode_encode_handle
    utf8_valid_cut length_cut_handle cut_handle_short by blast

theorem small_records_round_trip_witness:
  "decode_advert_keys (encode_advert_keys \<lparr>av_serial = 3, av_not_before = 1,
     av_decapsulation_key = replicate KEM_DK_LEN 5, av_previous = None\<rparr> (Some 2))
   = Inr (\<lparr>av_serial = 3, av_not_before = 1, av_decapsulation_key = replicate KEM_DK_LEN 5,
       av_previous = None\<rparr>, Some 2) \<and>
   decode_handle (encode_handle [0x62, 0x6F, 0x62]) = Inr [0x62, 0x6F, 0x62]"
  using small_records_round_trip [of "\<lparr>av_serial = 3, av_not_before = 1,
     av_decapsulation_key = replicate KEM_DK_LEN 5, av_previous = None\<rparr>" "Some 2" 0 "[]" "[0x62, 0x6F, 0x62]"]
  by (simp add: advert_wf_def in_range_def HANDLE_MAX_LEN_def)

end
