(* ===== verification/Store.thy ===== *)
theory Store
  imports Store_Codec "HOL-Library.List_Lexorder"
begin

text \<open>
  The durable store of a profile's conversations (\<^verbatim>\<open>dm/store.rs\<close>, \<open>Store\<close>): one conversation
  record and one outbox per correspondence, read and changed in critical sections.

  A record is held decoded: \<open>Store_Codec\<close> proves that what \<open>replace\<close> writes is what \<open>read\<close>
  decodes. It can also be \<open>Scrubbed\<close>: a delete overwrote it and stopped before the unlink. The layer
  below (\<^verbatim>\<open>storage/dm_store.rs\<close>) enters here as the outcome of one critical section: it succeeds,
  it fails before anything is written, or its write lands and its durability barrier fails.
\<close>

type_synonym correspondence_label = "byte list"

datatype 'a stored = Absent | Scrubbed | Held 'a

datatype io = IoOk | IoFails dm_store_error | IoLands dm_store_error

record files =
  f_conv :: "conv_state stored"
  f_outbox :: "outbox_table stored"
  f_handle :: "byte list stored"
  f_route :: "(byte list \<times> u64) stored"

record dm_store =
  sto_peers :: "correspondence_label list"
  sto_files :: "correspondence_label \<Rightarrow> files"

definition no_files :: files where
  "no_files = \<lparr>f_conv = Absent, f_outbox = Absent, f_handle = Absent, f_route = Absent\<rparr>"

text \<open>
  \<open>sto_peers\<close> is \<open>correspondences()\<close>: the labels with a directory, sorted. Entering a critical section
  establishes the directory.
\<close>

definition establish :: "correspondence_label \<Rightarrow> correspondence_label list \<Rightarrow> correspondence_label list" where
  "establish peer ps = (if peer \<in> set ps then ps else insort peer ps)"

definition set_files :: "correspondence_label \<Rightarrow> files \<Rightarrow> dm_store \<Rightarrow> dm_store" where
  "set_files peer fs s = s\<lparr>sto_peers := establish peer (sto_peers s), sto_files := (sto_files s)(peer := fs)\<rparr>"

lemma establish_simps [simp]: "peer \<in> set ps \<Longrightarrow> establish peer ps = ps" "set (establish peer ps) = insert peer (set ps)"
  "distinct (establish peer ps) = distinct ps"
  by (auto simp: establish_def set_insort_key distinct_insort)

text \<open>\<open>read_finishing_delete\<close>: a scrubbed record is removed and reads as absent.\<close>

fun finish_delete_of :: "'a stored \<Rightarrow> 'a stored" where
  "finish_delete_of Scrubbed = Absent"
| "finish_delete_of r = r"

fun held :: "'a stored \<Rightarrow> 'a option" where
  "held (Held a) = Some a"
| "held r = None"

definition read_conv :: "files \<Rightarrow> conv_state option \<times> files" where
  "read_conv fs = (held (f_conv fs), fs\<lparr>f_conv := finish_delete_of (f_conv fs)\<rparr>)"

definition read_outbox_table :: "files \<Rightarrow> outbox_table \<times> files" where
  "read_outbox_table fs =
    ((case held (f_outbox fs) of Some t \<Rightarrow> t | None \<Rightarrow> empty_outbox),
     fs\<lparr>f_outbox := finish_delete_of (f_outbox fs)\<rparr>)"

section \<open>A critical section\<close>

text \<open>
  \<open>body\<close> reads and changes the files and returns its result; \<open>io\<close> is how the section's reads and
  writes went.
\<close>

definition critical_section ::
  "io \<Rightarrow> correspondence_label \<Rightarrow> (files \<Rightarrow> (store_error + 'a) \<times> files) \<Rightarrow> dm_store \<Rightarrow>
   (store_error + 'a) \<times> dm_store" where
  "critical_section io peer body s =
    (case io of
       IoFails e \<Rightarrow> (Inl (StStore e), s)
     | IoOk \<Rightarrow> (case body (sto_files s peer) of (r, fs) \<Rightarrow> (r, set_files peer fs s))
     | IoLands e \<Rightarrow> (case body (sto_files s peer) of
         (Inl d, fs) \<Rightarrow> (Inl d, set_files peer fs s)
       | (Inr a, fs) \<Rightarrow> (Inl (StStore e), set_files peer fs s)))"

section \<open>Conversations\<close>

definition create_conv :: "io \<Rightarrow> correspondence_label \<Rightarrow> conv_state \<Rightarrow> dm_store \<Rightarrow> (store_error + unit) \<times> dm_store" where
  "create_conv io peer state = critical_section io peer (\<lambda>fs.
     case f_conv fs of
       Held _ \<Rightarrow> (Inl ConversationExists, fs)
     | Scrubbed \<Rightarrow> (Inl (StStore (ErasureInterrupted RkConversation)), fs)
     | Absent \<Rightarrow> (Inr (), fs\<lparr>f_conv := Held state\<rparr>))"

definition load_conv :: "io \<Rightarrow> correspondence_label \<Rightarrow> dm_store \<Rightarrow> (store_error + conv_state option) \<times> dm_store" where
  "load_conv io peer = critical_section io peer (\<lambda>fs. case read_conv fs of (c, fs) \<Rightarrow> (Inr c, fs))"

definition update_conv ::
  "io \<Rightarrow> correspondence_label \<Rightarrow> (conv_state \<Rightarrow> 'r \<times> conv_state) \<Rightarrow> dm_store \<Rightarrow> (store_error + 'r) \<times> dm_store" where
  "update_conv io peer f = critical_section io peer (\<lambda>fs. case read_conv fs of
     (None, fs) \<Rightarrow> (Inl MissingConversation, fs)
   | (Some state, fs) \<Rightarrow> (case f state of (out, state') \<Rightarrow> (Inr out, fs\<lparr>f_conv := Held state'\<rparr>)))"

text \<open>The record is written only where \<open>f\<close> succeeds.\<close>

definition try_update_conv ::
  "io \<Rightarrow> correspondence_label \<Rightarrow> (conv_state \<Rightarrow> 'e + ('t \<times> conv_state)) \<Rightarrow> dm_store \<Rightarrow>
   (store_error + ('e + 't)) \<times> dm_store" where
  "try_update_conv io peer f = critical_section io peer (\<lambda>fs. case read_conv fs of
     (None, fs) \<Rightarrow> (Inl MissingConversation, fs)
   | (Some state, fs) \<Rightarrow> (case f state of
         Inl e \<Rightarrow> (Inr (Inl e), fs)
       | Inr (t, state') \<Rightarrow> (Inr (Inr t), fs\<lparr>f_conv := Held state'\<rparr>)))"

text \<open>
  The removals of \<open>delete_conv\<close> run in order, conversation record first, each a scrub and then an
  unlink. \<open>n\<close> is how many of these eight acts were done before the process stopped.
\<close>

definition delete_acts :: "nat \<Rightarrow> 'a stored \<Rightarrow> 'a stored" where
  "delete_acts n r = (if n = 0 \<or> r = Absent then r else if n = 1 then Scrubbed else Absent)"

definition delete_conv :: "nat \<Rightarrow> correspondence_label \<Rightarrow> dm_store \<Rightarrow> dm_store" where
  "delete_conv n peer s =
    (let fs = sto_files s peer
     in set_files peer \<lparr>f_conv = delete_acts n (f_conv fs), f_outbox = delete_acts (n - 2) (f_outbox fs),
          f_handle = delete_acts (n - 4) (f_handle fs), f_route = delete_acts (n - 6) (f_route fs)\<rparr> s)"

definition mark_delete_pending ::
  "io \<Rightarrow> correspondence_label \<Rightarrow> dm_store \<Rightarrow> (store_error + conv_state) \<times> dm_store" where
  "mark_delete_pending io peer = critical_section io peer (\<lambda>fs. case read_conv fs of
     (None, fs) \<Rightarrow> (Inl MissingConversation, fs)
   | (Some state, fs) \<Rightarrow> (let state = state\<lparr>cs_delete_pending := True\<rparr>
       in (Inr state, fs\<lparr>f_conv := Held state\<rparr>)))"

fun pending_deletes_of :: "correspondence_label list \<Rightarrow> dm_store \<Rightarrow> correspondence_label list \<times> dm_store" where
  "pending_deletes_of [] s = ([], s)"
| "pending_deletes_of (peer # rest) s =
    (case read_conv (sto_files s peer) of (c, fs) \<Rightarrow>
     (case pending_deletes_of rest (set_files peer fs s) of (pending, s') \<Rightarrow>
       (case c of Some st \<Rightarrow> if cs_delete_pending st then (peer # pending, s') else (pending, s')
        | None \<Rightarrow> (pending, s'))))"

section \<open>The outbox\<close>

definition ring_index :: "u64 \<Rightarrow> nat" where
  "ring_index seq = unat (seq mod RING_SLOTS)"

definition persist_outbox ::
  "io \<Rightarrow> correspondence_label \<Rightarrow> u64 \<Rightarrow> byte list \<Rightarrow> u64 \<Rightarrow> dm_store \<Rightarrow> (store_error + unit) \<times> dm_store" where
  "persist_outbox io peer seq ciphertext sent_at s =
    (if length ciphertext > CHANNEL_SUBKEY_LEN then (Inl (CiphertextTooLong (length ciphertext)), s)
     else critical_section io peer (\<lambda>fs. case read_outbox_table fs of (table, fs) \<Rightarrow>
       let at = ring_index seq; entry = Some \<lparr>oe_seq = seq, oe_sent_at = sent_at, oe_ciphertext = ciphertext\<rparr>
       in case table ! at of
            Some h \<Rightarrow> if oe_seq h \<noteq> seq then (Inl (OutboxSlotOccupied seq (oe_seq h)), fs)
                      else (Inr (), fs\<lparr>f_outbox := Held (table[at := entry])\<rparr>)
          | None \<Rightarrow> (Inr (), fs\<lparr>f_outbox := Held (table[at := entry])\<rparr>)) s)"

definition drop_collected :: "u64 \<Rightarrow> outbox_entry option \<Rightarrow> outbox_entry option" where
  "drop_collected cursor slot = (case slot of
     Some e \<Rightarrow> if collected (oe_seq e) cursor then None else Some e | None \<Rightarrow> None)"

definition delete_outbox_through ::
  "io \<Rightarrow> correspondence_label \<Rightarrow> u64 \<Rightarrow> dm_store \<Rightarrow> (store_error + unit) \<times> dm_store" where
  "delete_outbox_through io peer cursor = critical_section io peer (\<lambda>fs.
     case f_outbox fs of
       Held table \<Rightarrow> (let table' = map (drop_collected cursor) table
         in (Inr (), if table' \<noteq> table then fs\<lparr>f_outbox := Held table'\<rparr> else fs))
     | r \<Rightarrow> (Inr (), fs\<lparr>f_outbox := finish_delete_of r\<rparr>))"

definition sweep_one :: "files \<Rightarrow> bool \<times> files" where
  "sweep_one fs =
    (case read_conv fs of
       (Some _, fs) \<Rightarrow> (False, fs)
     | (None, fs) \<Rightarrow> (case f_outbox fs of
           Held _ \<Rightarrow> (True, fs\<lparr>f_outbox := Absent\<rparr>)
         | r \<Rightarrow> (False, fs\<lparr>f_outbox := finish_delete_of r\<rparr>)))"

fun sweep_orphaned_outboxes :: "correspondence_label list \<Rightarrow> dm_store \<Rightarrow> nat \<times> dm_store" where
  "sweep_orphaned_outboxes [] s = (0, s)"
| "sweep_orphaned_outboxes (peer # rest) s =
    (case sweep_one (sto_files s peer) of (orphan, fs) \<Rightarrow>
     (case sweep_orphaned_outboxes rest (set_files peer fs s) of (n, s') \<Rightarrow>
       (if orphan then Suc n else n, s')))"

section \<open>A launch\<close>

record loaded_conv =
  lc_peer :: correspondence_label
  lc_state :: conv_state
  lc_outstanding_outbox :: "outbox_entry list"
  lc_handle :: "byte list option"
  lc_route :: "byte list option"

definition outstanding :: "conv_state \<Rightarrow> outbox_table \<Rightarrow> outbox_entry list" where
  "outstanding state table = sort_key oe_seq
     (filter (\<lambda>e. \<not> cs_delete_pending state \<and> oe_seq e \<ge> cs_peer_collected state
                \<and> oe_seq e < cs_send_seq state)
       (concat (map (\<lambda>slot. case slot of Some e \<Rightarrow> [e] | None \<Rightarrow> []) table)))"

definition load_one :: "correspondence_label \<Rightarrow> files \<Rightarrow> loaded_conv option \<times> files" where
  "load_one peer fs =
    (let delete_stopped = (f_conv fs = Scrubbed)
     in case read_conv fs of
          (None, fs) \<Rightarrow>
            (None, fs\<lparr>f_outbox := (if delete_stopped then Absent else finish_delete_of (f_outbox fs)),
                      f_handle := Absent, f_route := Absent\<rparr>)
        | (Some state, fs) \<Rightarrow> (case read_outbox_table fs of (table, fs) \<Rightarrow>
            (Some \<lparr>lc_peer = peer, lc_state = state, lc_outstanding_outbox = outstanding state table,
                   lc_handle = held (f_handle fs),
                   lc_route = (case held (f_route fs) of Some (r, _) \<Rightarrow> non_empty r | None \<Rightarrow> None)\<rparr>,
             fs\<lparr>f_handle := finish_delete_of (f_handle fs), f_route := finish_delete_of (f_route fs)\<rparr>)))"

fun load_all :: "correspondence_label list \<Rightarrow> dm_store \<Rightarrow> loaded_conv list \<times> dm_store" where
  "load_all [] s = ([], s)"
| "load_all (peer # rest) s =
    (case load_one peer (sto_files s peer) of (c, fs) \<Rightarrow>
     (case load_all rest (set_files peer fs s) of (cs, s') \<Rightarrow>
       ((case c of Some l \<Rightarrow> l # cs | None \<Rightarrow> cs), s')))"

section \<open>A launch, correspondence by correspondence\<close>

definition launch :: "dm_store \<Rightarrow> loaded_conv list \<times> dm_store" where
  "launch s = (let s1 = snd (sweep_orphaned_outboxes (sto_peers s) s) in load_all (sto_peers s1) s1)"

lemma sweep_files:
  "distinct ps \<Longrightarrow> set ps \<subseteq> set (sto_peers s) \<Longrightarrow> sto_peers (snd (sweep_orphaned_outboxes ps s)) = sto_peers s \<and>
     sto_files (snd (sweep_orphaned_outboxes ps s)) p =
       (if p \<in> set ps then snd (sweep_one (sto_files s p)) else sto_files s p)"
proof (induction ps arbitrary: s)
  case (Cons a ps)
  have "snd (sweep_orphaned_outboxes (a # ps) s) =
      snd (sweep_orphaned_outboxes ps (set_files a (snd (sweep_one (sto_files s a))) s))"
    by (simp split: prod.split)
  moreover have f: "sto_files (set_files a fs s) p = (if p = a then fs else sto_files s p)"
    "sto_peers (set_files a fs s) = sto_peers s" for fs
    using Cons.prems(2) by (simp_all add: set_files_def)
  ultimately show ?case using Cons.IH [of "set_files a (snd (sweep_one (sto_files s a))) s"] Cons.prems by auto
qed simp

lemma load_all_files:
  "distinct ps \<Longrightarrow> fst (load_all ps s) = List.map_filter (\<lambda>p. fst (load_one p (sto_files s p))) ps \<and>
     sto_files (snd (load_all ps s)) p = (if p \<in> set ps then snd (load_one p (sto_files s p)) else sto_files s p)"
proof (induction ps arbitrary: s)
  case (Cons a ps)
  obtain c fs where l: "load_one a (sto_files s a) = (c, fs)" by fastforce
  have e: "List.map_filter (\<lambda>p. fst (load_one p (sto_files (set_files a fs s) p))) ps =
      List.map_filter (\<lambda>p. fst (load_one p (sto_files s p))) ps"
    using Cons.prems by (auto simp: List.map_filter_def set_files_def intro!: map_cong filter_cong)
  have f: "sto_files (set_files a fs s) p = (if p = a then fs else sto_files s p)"
    by (simp add: set_files_def)
  have IH: "fst (load_all ps (set_files a fs s)) = List.map_filter (\<lambda>p. fst (load_one p (sto_files s p))) ps \<and>
     sto_files (snd (load_all ps (set_files a fs s))) p =
       (if p \<in> set ps then snd (load_one p (sto_files (set_files a fs s) p)) else sto_files (set_files a fs s) p)"
    using Cons.IH [of "set_files a fs s"] Cons.prems e by simp
  from IH Cons.prems l f show ?case
    by (auto simp: map_filter_simps split: prod.split option.split)
qed (simp add: map_filter_simps)

definition launched :: "dm_store \<Rightarrow> correspondence_label \<Rightarrow> loaded_conv option \<times> files" where
  "launched s p = load_one p (snd (sweep_one (sto_files s p)))"

lemma launch_eq:
  assumes "distinct (sto_peers s)"
  shows "fst (launch s) = List.map_filter (\<lambda>p. fst (launched s p)) (sto_peers s)"
    "p \<in> set (sto_peers s) \<Longrightarrow> sto_files (snd (launch s)) p = snd (launched s p)"
  using assms
  by (auto simp: launch_def Let_def load_all_files sweep_files launched_def List.map_filter_def intro!: map_cong filter_cong)


section \<open>Properties\<close>

lemma delete_acts_Absent [simp]: "delete_acts n Absent = Absent"
  by (simp add: delete_acts_def)

lemma stopped_delete_launched:
  assumes "1 \<le> n"
  shows "launched (delete_conv n peer s) peer = (None, no_files)"
proof -
  let ?fs = "sto_files (delete_conv n peer s) peer"
  have c: "f_conv ?fs = Absent \<or> f_conv ?fs = Scrubbed"
    using assms by (auto simp: delete_conv_def Let_def set_files_def delete_acts_def)
  have o: "f_outbox (snd (sweep_one ?fs)) = Absent" "f_conv (snd (sweep_one ?fs)) = Absent"
    using c by (auto simp: sweep_one_def read_conv_def split: stored.split)
  show ?thesis unfolding launched_def load_one_def
    using o by (simp add: read_conv_def no_files_def Let_def)
qed

lemma delete_conv_other: "p \<noteq> peer \<Longrightarrow> launched (delete_conv n peer s) p = launched s p"
  by (simp add: launched_def delete_conv_def Let_def set_files_def)

lemma launched_peer: "fst (launched s p) = Some lc \<Longrightarrow> lc_peer lc = p"
  by (auto simp: launched_def load_one_def Let_def split: prod.splits option.splits)

text \<open>
  C8. A deletion stopped anywhere after its first act is finished by the next launch: the
  conversation is not listed and none of its four records is left, scrubbed or whole, while every
  other conversation is listed with the same state and outstanding messages and keeps the same files
  as if nothing had been deleted. Stopped before its first act, it has changed nothing.
\<close>

theorem stopped_delete_finishes:
  assumes "distinct (sto_peers s)" "peer \<in> set (sto_peers s)"
  shows "delete_conv 0 peer s = s \<and>
    (1 \<le> n \<longrightarrow>
      fst (launch (delete_conv n peer s)) = filter (\<lambda>lc. lc_peer lc \<noteq> peer) (fst (launch s)) \<and>
      sto_files (snd (launch (delete_conv n peer s))) peer = no_files \<and>
      (\<forall>p \<in> set (sto_peers s). p \<noteq> peer \<longrightarrow>
         sto_files (snd (launch (delete_conv n peer s))) p = sto_files (snd (launch s)) p))"
proof (intro conjI impI ballI)
  show "delete_conv 0 peer s = s"
    using assms(2) by (cases s; cases "sto_files s peer") (simp add: delete_conv_def Let_def set_files_def delete_acts_def fun_upd_idem)
  let ?d = "delete_conv n peer s"
  have d: "distinct (sto_peers ?d)" "sto_peers ?d = sto_peers s"
    using assms by (simp_all add: delete_conv_def Let_def set_files_def)
  show "sto_files (snd (launch ?d)) p = sto_files (snd (launch s)) p" if "p \<in> set (sto_peers s)" "p \<noteq> peer" for p
    using that d assms(1) by (simp add: launch_eq delete_conv_other)
  assume n: "1 \<le> n"
  show "sto_files (snd (launch ?d)) peer = no_files"
    using assms d stopped_delete_launched [OF n] by (simp add: launch_eq)
  have "List.map_filter (\<lambda>p. fst (launched ?d p)) ps =
      filter (\<lambda>lc. lc_peer lc \<noteq> peer) (List.map_filter (\<lambda>p. fst (launched s p)) ps)" for ps
  proof (induction ps)
    case (Cons p ps)
    then show ?case
      using stopped_delete_launched [OF n, of peer s] delete_conv_other [of p peer n s] launched_peer [of s p]
      by (cases "p = peer"; cases "fst (launched s p)") (simp_all add: map_filter_simps)
  qed (simp add: map_filter_simps)
  then show "fst (launch ?d) = filter (\<lambda>lc. lc_peer lc \<noteq> peer) (fst (launch s))"
    using d assms(1) by (simp add: launch_eq)
qed


definition two_convs :: dm_store where
  "two_convs = \<lparr>sto_peers = [[1], [2]], sto_files = (\<lambda>_. no_files\<lparr>f_conv := Held demo_conv,
     f_outbox := Held empty_outbox, f_handle := Held [97]\<rparr>)\<rparr>"

theorem stopped_delete_finishes_witness:
  "fst (launch (delete_conv 3 [1] two_convs)) = filter (\<lambda>lc. lc_peer lc \<noteq> [1]) (fst (launch two_convs)) \<and>
   sto_files (snd (launch (delete_conv 3 [1] two_convs))) [1] = no_files"
proof -
  have "distinct (sto_peers two_convs)" "[1] \<in> set (sto_peers two_convs)" by (simp_all add: two_convs_def)
  from stopped_delete_finishes [OF this, of 3] show ?thesis by simp
qed

lemma distinct_table_entries:
  assumes "\<forall>i < length t. \<forall>e. t ! i = Some e \<longrightarrow> ring_index (oe_seq e) = k + i"
  shows "distinct (map oe_seq (concat (map (\<lambda>slot. case slot of Some e \<Rightarrow> [e] | None \<Rightarrow> []) t)))"
  using assms
proof (induction t arbitrary: k)
  case (Cons a t)
  have t: "\<forall>i < length t. \<forall>e. t ! i = Some e \<longrightarrow> ring_index (oe_seq e) = Suc k + i"
  proof (intro allI impI)
    fix i e assume "i < length t" "t ! i = Some e"
    with Cons.prems [rule_format, of "Suc i" e] show "ring_index (oe_seq e) = Suc k + i" by simp
  qed
  have "oe_seq x \<noteq> oe_seq e" if "a = Some e" "Some x \<in> set t" for e x
  proof -
    from that(2) obtain i where "i < length t" "t ! i = Some x" by (auto simp: in_set_conv_nth)
    with t have "ring_index (oe_seq x) = Suc k + i" by blast
    moreover have "ring_index (oe_seq e) = k" using Cons.prems [rule_format, of 0 e] that(1) by simp
    ultimately show ?thesis by auto
  qed
  note ne = this
  show ?case
  proof (cases a)
    case (Some e)
    have "oe_seq e \<notin> oe_seq ` set (concat (map (\<lambda>slot. case slot of Some e \<Rightarrow> [e] | None \<Rightarrow> []) t))"
      using ne [OF Some] by (force split: option.splits)
    with Cons.IH [OF t] Some show ?thesis by simp
  qed (use Cons.IH [OF t] in simp)
qed simp

text \<open>
  C9. A launch hands back each conversation whose record is held, with exactly the outbox entries
  it still owes, in sending order and each once: not the ones the peer has collected, not one that was
  sealed and persisted by a send that never committed, and none while a deletion is pending.
\<close>

theorem launch_outstanding_exact:
  assumes "distinct (sto_peers s)" "peer \<in> set (sto_peers s)"
    and "f_conv (sto_files s peer) = Held st" "f_outbox (sto_files s peer) = Held table" "outbox_wf table"
  shows "\<exists>lc \<in> set (fst (launch s)). lc_peer lc = peer \<and> lc_state lc = st \<and>
    sorted_wrt (<) (map oe_seq (lc_outstanding_outbox lc)) \<and>
    set (lc_outstanding_outbox lc) = {e. Some e \<in> set table \<and> \<not> cs_delete_pending st \<and>
       cs_peer_collected st \<le> oe_seq e \<and> oe_seq e < cs_send_seq st}"
proof -
  have l: "fst (launched s peer) = Some \<lparr>lc_peer = peer, lc_state = st, lc_outstanding_outbox = outstanding st table,
      lc_handle = held (f_handle (sto_files s peer)),
      lc_route = (case held (f_route (sto_files s peer)) of Some (r, _) \<Rightarrow> non_empty r | None \<Rightarrow> None)\<rparr>"
    (is "_ = Some ?lc")
    using assms by (simp add: launched_def sweep_one_def load_one_def read_conv_def read_outbox_table_def Let_def)
  then have m: "?lc \<in> set (fst (launch s))"
    using assms(1,2) by (force simp: launch_eq List.map_filter_def)
  have "\<forall>i < length table. \<forall>e. table ! i = Some e \<longrightarrow> ring_index (oe_seq e) = 0 + i"
  proof (intro allI impI)
    fix i e assume i: "i < length table" "table ! i = Some e"
    then have "oe_seq e mod RING_SLOTS = ring_indices ! i" "i < 63"
      using assms(5) by (auto simp: outbox_wf_def list_all2_conv_all_nth entry_wf_def ring_indices_def RING_SLOTS_def)
    then show "ring_index (oe_seq e) = 0 + i"
      by (simp add: ring_index_def ring_indices_def RING_SLOTS_def unat_of_nat)
  qed
  note d = distinct_table_entries [OF this]
  have "distinct (map oe_seq (outstanding st table))"
    using d by (auto simp: outstanding_def distinct_map intro: inj_on_subset)
  then have "sorted_wrt (<) (map oe_seq (outstanding st table))"
    by (simp add: strict_sorted_iff outstanding_def)
  moreover have "set (outstanding st table) = {e. Some e \<in> set table \<and> \<not> cs_delete_pending st \<and>
       cs_peer_collected st \<le> oe_seq e \<and> oe_seq e < cs_send_seq st}"
    by (auto simp: outstanding_def split: option.splits)
  ultimately show ?thesis using m by (intro bexI [of _ ?lc]) simp_all
qed

theorem launch_outstanding_exact_witness:
  "\<exists>lc \<in> set (fst (launch two_convs)). lc_peer lc = [2] \<and> lc_state lc = demo_conv \<and>
    set (lc_outstanding_outbox lc) = {}"
  using launch_outstanding_exact [of two_convs "[2]" demo_conv empty_outbox, OF _ _ _ _ empty_outbox_wf]
  by (fastforce simp: two_convs_def empty_outbox_def)

end
