(* ===== verification/Advert.thy ===== *)
theory Advert
  imports Store_Codec
begin

text \<open>
  The advert of \<^verbatim>\<open>dm/advert.rs\<close>: the signed record by which an identity publishes the key its
  correspondents encapsulate to, the reader that refuses a regressed one, and the keys behind it with
  their rotation. A clock reading is Unix seconds as a \<open>u64\<close>; \<open>fill\<close> is what the entropy source draws.
\<close>

section \<open>The published record\<close>

definition DM_ADVERT_SALT :: "byte list" where "DM_ADVERT_SALT = ascii ''daemonseed/dm/advert/salt/v1''"
definition DM_ADVERT_OWNER :: "byte list" where "DM_ADVERT_OWNER = ascii ''daemonseed/dm/advert/owner/v1''"
definition DM_ADVERT_SIG :: "byte list" where "DM_ADVERT_SIG = ascii ''daemonseed/dm/advert/sig/v1''"

definition ADVERT_SUBKEYS :: u16 where "ADVERT_SUBKEYS = 64"
definition ADVERT_SUBKEY :: u32 where "ADVERT_SUBKEY = 0"
definition ADVERT_OWNER_SEED_LEN :: nat where "ADVERT_OWNER_SEED_LEN = 32"
definition ROTATION_PERIOD_SECS :: u64 where "ROTATION_PERIOD_SECS = 7 * 24 * 60 * 60"
definition CLOCK_SKEW_SECS :: u64 where "CLOCK_SKEW_SECS = 60 * 60"
definition ADVERT_LEN :: nat where "ADVERT_LEN = 8 + 8 + KEM_EK_LEN + DSA_SIG_LEN"
definition NOT_BEFORE_AT :: nat where "NOT_BEFORE_AT = 8"
definition KEM_PK_AT :: nat where "KEM_PK_AT = 16"
definition EK_IN_DK_AT :: nat where "EK_IN_DK_AT = KEM_DK_LEN - KEM_EK_LEN - 64"

datatype advert_error =
    AdKdf oxi_error
  | AdLength nat nat
  | AdSignature
  | AdRegressed u64 u64
  | AdUnusable u64 u64
  | AdSigning signature_error
  | AdEntropy
  | AdModule oxi_error

definition advert_owner_seed :: "oxi \<Rightarrow> byte list \<Rightarrow> advert_error + byte list" where
  "advert_owner_seed ox identity_pubkey =
    rbind (map_err AdKdf (hkdf_extract ox (Some DM_ADVERT_SALT) identity_pubkey)) (\<lambda>hkdf.
    map_err AdKdf (hkdf_expand ox hkdf DM_ADVERT_OWNER ADVERT_OWNER_SEED_LEN))"

definition advert_signing_input :: "byte list \<Rightarrow> u64 \<Rightarrow> u64 \<Rightarrow> byte list \<Rightarrow> byte list" where
  "advert_signing_input identity_pubkey serial not_before kem_pk =
     DM_ADVERT_SIG @ push_lp identity_pubkey @ push_lp (u64_be serial) @ push_lp (u64_be not_before) @ push_lp kem_pk"

record verified_advert =
  ad_serial :: u64
  ad_not_before :: u64
  ad_kem_pk :: "byte list"

definition usable_at :: "verified_advert \<Rightarrow> u64 \<Rightarrow> bool" where
  "usable_at ad now =
    (let opens = sat_sub (ad_not_before ad) CLOCK_SKEW_SECS;
         closes = sat_add (ad_not_before ad) (sat_mul 2 ROTATION_PERIOD_SECS)
     in opens \<le> now \<and> now < closes)"

text \<open>\<open>AdvertReader\<close> is the highest serial it has accepted.\<close>

definition reader_accept ::
  "verified_advert \<Rightarrow> u64 option \<Rightarrow> (advert_error + verified_advert) \<times> u64 option" where
  "reader_accept ad highest =
    (case highest of
       Some h \<Rightarrow> if ad_serial ad < h then (Inl (AdRegressed (ad_serial ad) h), highest)
                 else (Inr ad, Some (ad_serial ad))
     | None \<Rightarrow> (Inr ad, Some (ad_serial ad)))"

definition advert_build ::
  "oxi \<Rightarrow> sign_keypair \<Rightarrow> u64 \<Rightarrow> u64 \<Rightarrow> byte list \<Rightarrow> advert_error + byte list" where
  "advert_build ox signer serial not_before kem_pk =
    rbind (map_err AdSigning
      (keypair_sign ox signer (advert_signing_input (sk_public_key signer) serial not_before kem_pk))) (\<lambda>sig.
    Inr (u64_be serial @ u64_be not_before @ kem_pk @ sig))"

definition advert_verify :: "oxi \<Rightarrow> byte list \<Rightarrow> byte list \<Rightarrow> advert_error + verified_advert" where
  "advert_verify ox identity_pubkey bytes =
    (if length bytes \<noteq> ADVERT_LEN then Inl (AdLength ADVERT_LEN (length bytes))
     else let serial = u64_of_be (take NOT_BEFORE_AT bytes);
              not_before = u64_of_be (byte_slice NOT_BEFORE_AT KEM_PK_AT bytes);
              kem_pk = take KEM_EK_LEN (drop KEM_PK_AT bytes);
              sig = drop KEM_EK_LEN (drop KEM_PK_AT bytes)
          in rbind (map_err (\<lambda>_. AdSignature) (verify_signature ox identity_pubkey
               (advert_signing_input identity_pubkey serial not_before kem_pk) sig)) (\<lambda>_.
             Inr \<lparr>ad_serial = serial, ad_not_before = not_before, ad_kem_pk = kem_pk\<rparr>))"

section \<open>The keys\<close>

record advert_key =
  ak_serial :: u64
  ak_not_before :: u64
  ak_ek :: "byte list"
  ak_dk :: "byte list"

record retired_key =
  rk_key :: advert_key
  rk_retired_at :: u64

record advert_keys =
  aks_current :: advert_key
  aks_previous :: "retired_key option"

definition ek_from_dk :: "byte list \<Rightarrow> byte list" where
  "ek_from_dk dk = byte_slice EK_IN_DK_AT (EK_IN_DK_AT + KEM_EK_LEN) dk"

definition generate :: "oxi \<Rightarrow> u64 \<Rightarrow> u64 \<Rightarrow> fill \<Rightarrow> advert_error + advert_key" where
  "generate ox serial not_before fill =
    rbind (ok_or AdEntropy (fill 0)) (\<lambda>d.
    rbind (ok_or AdEntropy (fill 1)) (\<lambda>z.
    rbind (map_err AdModule (ml_kem_keygen ox d z)) (\<lambda>(ek, dk).
    Inr \<lparr>ak_serial = serial, ak_not_before = not_before, ak_ek = ek, ak_dk = dk\<rparr>)))"

definition advert_keys_new :: "oxi \<Rightarrow> u64 \<Rightarrow> fill \<Rightarrow> advert_error + advert_keys" where
  "advert_keys_new ox now fill =
    rbind (generate ox 0 now fill) (\<lambda>k. Inr \<lparr>aks_current = k, aks_previous = None\<rparr>)"

definition keys_snapshot :: "advert_keys \<Rightarrow> advert_snapshot" where
  "keys_snapshot ks =
    \<lparr>av_serial = ak_serial (aks_current ks), av_not_before = ak_not_before (aks_current ks),
     av_decapsulation_key = ak_dk (aks_current ks),
     av_previous = map_option (\<lambda>p. \<lparr>rt_serial = ak_serial (rk_key p), rt_retired_at = rk_retired_at p,
       rt_decapsulation_key = ak_dk (rk_key p)\<rparr>) (aks_previous ks)\<rparr>"

definition keys_restore :: "advert_snapshot \<Rightarrow> advert_keys" where
  "keys_restore sn =
    \<lparr>aks_current = \<lparr>ak_serial = av_serial sn, ak_not_before = av_not_before sn,
       ak_ek = ek_from_dk (av_decapsulation_key sn), ak_dk = av_decapsulation_key sn\<rparr>,
     aks_previous = map_option (\<lambda>p. \<lparr>rk_key = \<lparr>ak_serial = rt_serial p, ak_not_before = rt_retired_at p,
         ak_ek = ek_from_dk (rt_decapsulation_key p), ak_dk = rt_decapsulation_key p\<rparr>,
       rk_retired_at = rt_retired_at p\<rparr>) (av_previous sn)\<rparr>"

definition prune :: "u64 \<Rightarrow> advert_keys \<Rightarrow> advert_keys" where
  "prune now ks =
    (case aks_previous ks of
       Some p \<Rightarrow> if now \<ge> sat_add (rk_retired_at p) ROTATION_PERIOD_SECS then ks\<lparr>aks_previous := None\<rparr> else ks
     | None \<Rightarrow> ks)"

definition rotate_keys :: "oxi \<Rightarrow> u64 \<Rightarrow> u64 \<Rightarrow> fill \<Rightarrow> advert_keys \<Rightarrow> (advert_error + unit) \<times> advert_keys" where
  "rotate_keys ox now retired_at fill ks =
    (case generate ox (sat_add (ak_serial (aks_current ks)) 1) now fill of
       Inl e \<Rightarrow> (Inl e, ks)
     | Inr fresh \<Rightarrow> (Inr (), \<lparr>aks_current = fresh,
         aks_previous = Some \<lparr>rk_key = aks_current ks, rk_retired_at = retired_at\<rparr>\<rparr>))"

datatype rotation = Rotated | RotationUnchanged

definition rotate_if_due :: "oxi \<Rightarrow> u64 \<Rightarrow> fill \<Rightarrow> advert_keys \<Rightarrow> (advert_error + rotation) \<times> advert_keys" where
  "rotate_if_due ox now fill ks =
    (let ks = prune now ks;
         due_at = sat_add (ak_not_before (aks_current ks)) ROTATION_PERIOD_SECS
     in if now < due_at then (Inr RotationUnchanged, ks)
        else case rotate_keys ox now due_at fill ks of
          (Inl e, ks) \<Rightarrow> (Inl e, ks) | (Inr _, ks) \<Rightarrow> (Inr Rotated, ks))"

definition rotate_now :: "oxi \<Rightarrow> u64 \<Rightarrow> fill \<Rightarrow> advert_keys \<Rightarrow> (advert_error + unit) \<times> advert_keys" where
  "rotate_now ox now fill ks = rotate_keys ox now now fill (prune now ks)"

definition previous_serial :: "advert_keys \<Rightarrow> u64 option" where
  "previous_serial ks = map_option (\<lambda>p. ak_serial (rk_key p)) (aks_previous ks)"

definition decapsulate :: "oxi \<Rightarrow> u64 \<Rightarrow> byte list \<Rightarrow> advert_keys \<Rightarrow> advert_error + byte list option" where
  "decapsulate ox serial ciphertext ks =
    (case (if ak_serial (aks_current ks) = serial then Some (aks_current ks)
           else case aks_previous ks of
              Some retained \<Rightarrow> if ak_serial (rk_key retained) = serial then Some (rk_key retained) else None
            | None \<Rightarrow> None) of
       None \<Rightarrow> Inr None
     | Some key \<Rightarrow> rbind (map_err AdModule (ml_kem_decapsulate ox (ak_dk key) ciphertext)) (\<lambda>ss. Inr (Some ss)))"

definition advert_bytes :: "oxi \<Rightarrow> sign_keypair \<Rightarrow> advert_keys \<Rightarrow> advert_error + byte list" where
  "advert_bytes ox signer ks =
    advert_build ox signer (ak_serial (aks_current ks)) (ak_not_before (aks_current ks)) (ak_ek (aks_current ks))"

record inspect_report =
  ir_local_seq :: "u64 option"
  ir_network_seq :: "u64 option"

definition repair_needed :: "inspect_report \<Rightarrow> bool" where
  "repair_needed report \<longleftrightarrow> ir_network_seq report = None \<or> ir_network_seq report \<noteq> ir_local_seq report"

text \<open>The action is \<open>Some\<close> of the bytes to rewrite.\<close>

definition on_poll ::
  "oxi \<Rightarrow> sign_keypair \<Rightarrow> inspect_report \<Rightarrow> byte list option \<Rightarrow> advert_keys \<Rightarrow> advert_error + byte list option" where
  "on_poll ox signer report fetched ks =
    (let repair = repair_needed report
     in if \<not> repair \<and> fetched = None then Inr None
        else rbind (advert_bytes ox signer ks) (\<lambda>canonical.
          if repair \<or> (case fetched of Some bytes \<Rightarrow> bytes \<noteq> canonical | None \<Rightarrow> False)
          then Inr (Some canonical) else Inr None))"

section \<open>Encapsulating to an advert\<close>

record hello_encapsulation =
  he_serial :: u64
  he_shared_secret :: "byte list"
  he_ciphertext :: "byte list"

definition encapsulate_to :: "oxi \<Rightarrow> verified_advert \<Rightarrow> u64 \<Rightarrow> fill \<Rightarrow> advert_error + hello_encapsulation" where
  "encapsulate_to ox ad now fill =
    (if \<not> usable_at ad now then Inl (AdUnusable now (ad_not_before ad))
     else rbind (ok_or AdEntropy (fill 0)) (\<lambda>m.
       rbind (map_err AdModule (ml_kem_encapsulate ox (ad_kem_pk ad) m)) (\<lambda>(ss, ct).
       Inr \<lparr>he_serial = ad_serial ad, he_shared_secret = ss, he_ciphertext = ct\<rparr>)))"

definition hello_needs_rewrite :: "u64 \<Rightarrow> verified_advert \<Rightarrow> bool" where
  "hello_needs_rewrite outstanding_serial observed \<longleftrightarrow> ad_serial observed > outstanding_serial"

section \<open>What verifies\<close>

definition advert_wire :: "verified_advert \<Rightarrow> byte list \<Rightarrow> byte list" where
  "advert_wire ad sig = u64_be (ad_serial ad) @ u64_be (ad_not_before ad) @ ad_kem_pk ad @ sig"

definition advert_signed :: "oxi \<Rightarrow> byte list \<Rightarrow> verified_advert \<Rightarrow> byte list \<Rightarrow> bool" where
  "advert_signed ox pk ad sig \<longleftrightarrow> length (ad_kem_pk ad) = KEM_EK_LEN \<and> length sig = DSA_SIG_LEN \<and>
     verify_signature ox pk (advert_signing_input pk (ad_serial ad) (ad_not_before ad) (ad_kem_pk ad)) sig = Inr ()"

lemma advert_verify_wire:
  "advert_signed ox pk ad sig \<Longrightarrow> advert_verify ox pk (advert_wire ad sig) = Inr ad"
  by (cases ad) (simp add: advert_verify_def advert_wire_def advert_signed_def ADVERT_LEN_def NOT_BEFORE_AT_def
      KEM_PK_AT_def byte_slice_def Let_def)

lemma advert_verify_sound:
  assumes "advert_verify ox pk bytes = Inr ad"
  shows "\<exists>sig. advert_signed ox pk ad sig \<and> bytes = advert_wire ad sig"
proof (intro exI conjI)
  let ?sig = "drop KEM_EK_LEN (drop KEM_PK_AT bytes)"
  from assms have l: "length bytes = 8 + 8 + KEM_EK_LEN + DSA_SIG_LEN"
    by (auto simp: advert_verify_def ADVERT_LEN_def split: if_splits)
  with assms show "advert_signed ox pk ad ?sig"
    by (auto simp: advert_verify_def advert_signed_def ADVERT_LEN_def KEM_PK_AT_def Let_def result_simps)
  have a: "ad = \<lparr>ad_serial = u64_of_be (take 8 bytes), ad_not_before = u64_of_be (take 8 (drop 8 bytes)),
      ad_kem_pk = take KEM_EK_LEN (drop 16 bytes)\<rparr>"
    using assms l by (auto simp: advert_verify_def ADVERT_LEN_def NOT_BEFORE_AT_def KEM_PK_AT_def byte_slice_def
        Let_def result_simps)
  have "u64_be (u64_of_be (take 8 bytes)) = take 8 bytes" "u64_be (u64_of_be (take 8 (drop 8 bytes))) = take 8 (drop 8 bytes)"
    using l by (simp_all add: u64_be_u64_of_be)
  moreover have "take 8 bytes @ take 8 (drop 8 bytes) @ take KEM_EK_LEN (drop 16 bytes) @ drop KEM_EK_LEN (drop 16 bytes) = bytes"
    using append_take_drop_id [of 8 "drop 8 bytes"] append_take_drop_id [of 8 bytes]
      append_take_drop_id [of KEM_EK_LEN "drop 16 bytes"] by simp
  ultimately show "bytes = advert_wire ad ?sig"
    by (simp add: a advert_wire_def KEM_PK_AT_def)
qed

lemma advert_signing_input_inj:
  assumes "advert_signing_input pk s n k = advert_signing_input pk' s' n' k'" "list_all lp_ok [pk, k, pk', k']"
  shows "pk = pk' \<and> s = s' \<and> n = n' \<and> k = k'"
  using assms by (simp add: advert_signing_input_def push_lp_append_eq push_lp_eq lp_ok_def)

lemma advert_build_signed:
  assumes "dsa_law ox kp" "length kem_pk = KEM_EK_LEN" "advert_build ox kp s n kem_pk = Inr bytes"
  shows "\<exists>sig. advert_signed ox (sk_public_key kp) \<lparr>ad_serial = s, ad_not_before = n, ad_kem_pk = kem_pk\<rparr> sig \<and>
     bytes = advert_wire \<lparr>ad_serial = s, ad_not_before = n, ad_kem_pk = kem_pk\<rparr> sig"
  using assms verify_signature_sign [OF assms(1)]
  by (auto simp: advert_build_def advert_signed_def advert_wire_def result_simps)

text \<open>
  A verified advert is what its owner signed: verification accepts exactly the bytes of a serial, a
  start and a key of the right length followed by a signature under the identity over exactly these and
  the identity, what the owner builds verifies to what it built, and two adverts whose signatures cover
  the same bytes are the same advert of the same identity.
\<close>

lemma advert_verifies_iff_signed:
  assumes "dsa_law ox kp" "length kem_pk = KEM_EK_LEN" "advert_build ox kp s n kem_pk = Inr built"
  shows "(advert_verify ox pk bytes = Inr ad \<longleftrightarrow> (\<exists>sig. advert_signed ox pk ad sig \<and> bytes = advert_wire ad sig)) \<and>
    advert_verify ox (sk_public_key kp) built = Inr \<lparr>ad_serial = s, ad_not_before = n, ad_kem_pk = kem_pk\<rparr> \<and>
    (list_all lp_ok [pk, ad_kem_pk ad, pk', ad_kem_pk ad'] \<longrightarrow>
      advert_signing_input pk (ad_serial ad) (ad_not_before ad) (ad_kem_pk ad)
        = advert_signing_input pk' (ad_serial ad') (ad_not_before ad') (ad_kem_pk ad') \<longrightarrow> pk = pk' \<and> ad = ad')"
proof (intro conjI impI)
  show "advert_verify ox pk bytes = Inr ad \<longleftrightarrow> (\<exists>sig. advert_signed ox pk ad sig \<and> bytes = advert_wire ad sig)"
    using advert_verify_wire advert_verify_sound by blast
  show "advert_verify ox (sk_public_key kp) built = Inr \<lparr>ad_serial = s, ad_not_before = n, ad_kem_pk = kem_pk\<rparr>"
    using advert_build_signed [OF assms] advert_verify_wire by blast
  assume a: "list_all lp_ok [pk, ad_kem_pk ad, pk', ad_kem_pk ad']"
    "advert_signing_input pk (ad_serial ad) (ad_not_before ad) (ad_kem_pk ad)
      = advert_signing_input pk' (ad_serial ad') (ad_not_before ad') (ad_kem_pk ad')"
  note i = advert_signing_input_inj [OF a(2,1)]
  show "pk = pk'" using i by blast
  show "ad = ad'" using i by (cases ad; cases ad') simp
qed

section \<open>An advert stays openable while it is usable\<close>

text \<open>
  What the source relies on of a decapsulation key's layout (FIPS 203): the encapsulation key lies in it
  before its last 64 bytes.
\<close>

definition dk_layout :: "oxi \<Rightarrow> bool" where
  "dk_layout ox \<longleftrightarrow> (\<forall>d z ek dk. ml_kem_keygen ox d z = Inr (ek, dk) \<longrightarrow> ek_from_dk dk = ek)"

text \<open>
  The owner's polls: \<open>rotate_if_due\<close> at the clock's reading, which succeeds or not, and a restart from the
  stored snapshot. \<open>ar_published\<close> logs every advert that was current, \<open>ar_clock\<close> the latest reading.
\<close>

datatype key_event = KeyPoll u64 fill | KeyRestart

record advert_run =
  ar_keys :: advert_keys
  ar_clock :: u64
  ar_published :: "verified_advert list"
  ar_polls :: nat

definition current_advert :: "advert_keys \<Rightarrow> verified_advert" where
  "current_advert ks = \<lparr>ad_serial = ak_serial (aks_current ks), ad_not_before = ak_not_before (aks_current ks),
     ad_kem_pk = ak_ek (aks_current ks)\<rparr>"

definition key_start :: "u64 \<Rightarrow> advert_keys \<Rightarrow> advert_run" where
  "key_start now ks = \<lparr>ar_keys = ks, ar_clock = now, ar_published = [current_advert ks], ar_polls = 0\<rparr>"

fun key_step :: "oxi \<Rightarrow> key_event \<Rightarrow> advert_run \<Rightarrow> advert_run" where
  "key_step ox (KeyPoll now fill) w =
    (let ks = snd (rotate_if_due ox now fill (ar_keys w))
     in \<lparr>ar_keys = ks, ar_clock = max (ar_clock w) now, ar_published = ar_published w @ [current_advert ks],
         ar_polls = Suc (ar_polls w)\<rparr>)"
| "key_step ox KeyRestart w =
    (let ks = keys_restore (keys_snapshot (ar_keys w))
     in w\<lparr>ar_keys := ks, ar_published := ar_published w @ [current_advert ks]\<rparr>)"

definition closes :: "verified_advert \<Rightarrow> u64" where
  "closes ad = sat_add (ad_not_before ad) (sat_mul 2 ROTATION_PERIOD_SECS)"

definition opens_under :: "oxi \<Rightarrow> byte list \<Rightarrow> byte list \<Rightarrow> bool" where
  "opens_under ox ek dk \<longleftrightarrow> (\<forall>m ss ct. ml_kem_encapsulate ox ek m = Inr (ss, ct) \<longrightarrow> ml_kem_decapsulate ox dk ct = Inr ss)"

text \<open>The advert is held as \<open>k\<close>: it names \<open>k\<close>'s serial and a key \<open>k\<close> opens.\<close>

definition held_as :: "oxi \<Rightarrow> verified_advert \<Rightarrow> advert_key \<Rightarrow> bool" where
  "held_as ox ad k \<longleftrightarrow> ad_serial ad = ak_serial k \<and> opens_under ox (ad_kem_pk ad) (ak_dk k)"

definition keys_ok :: "oxi \<Rightarrow> u64 \<Rightarrow> advert_keys \<Rightarrow> verified_advert list \<Rightarrow> bool" where
  "keys_ok ox clock ks published \<longleftrightarrow>
     held_as ox (current_advert ks) (aks_current ks) \<and> ek_from_dk (ak_dk (aks_current ks)) = ak_ek (aks_current ks) \<and>
     ak_not_before (aks_current ks) \<le> clock \<and>
     (\<forall>p. aks_previous ks = Some p \<longrightarrow> ak_serial (rk_key p) < ak_serial (aks_current ks) \<and>
        rk_retired_at p \<le> ak_not_before (aks_current ks)) \<and>
     (\<forall>ad \<in> set published. ad_serial ad \<le> ak_serial (aks_current ks) \<and>
        (clock < closes ad \<longrightarrow>
          (held_as ox ad (aks_current ks) \<and> ad_not_before ad = ak_not_before (aks_current ks)) \<or>
          (\<exists>p. aks_previous ks = Some p \<and> held_as ox ad (rk_key p) \<and>
             closes ad \<le> sat_add (rk_retired_at p) ROTATION_PERIOD_SECS)))"

definition key_run_ok :: "oxi \<Rightarrow> advert_run \<Rightarrow> bool" where
  "key_run_ok ox w \<longleftrightarrow> kem_law ox \<and> dk_layout ox \<and>
     (ar_polls w < 2 ^ 64 - 1 \<longrightarrow> unat (ak_serial (aks_current (ar_keys w))) \<le> ar_polls w \<and>
        keys_ok ox (ar_clock w) (ar_keys w) (ar_published w))"

lemma generate_Inr:
  assumes "kem_law ox" "dk_layout ox" "generate ox s n fill = Inr k"
  shows "ak_serial k = s \<and> ak_not_before k = n \<and> opens_under ox (ak_ek k) (ak_dk k) \<and> ek_from_dk (ak_dk k) = ak_ek k \<and>
    length (ak_ek k) = KEM_EK_LEN"
proof -
  from assms(3) obtain d z where "ml_kem_keygen ox d z = Inr (ak_ek k, ak_dk k)" "ak_serial k = s" "ak_not_before k = n"
    by (auto simp: generate_def result_simps)
  with assms(1,2) kem_law_decapsulate(2) [OF assms(1)] kem_law_keygen [OF assms(1)] show ?thesis
    unfolding opens_under_def dk_layout_def by blast
qed

lemma max_iff: "max (a::u64) b < c \<longleftrightarrow> a < c \<and> b < c" by simp

lemma keys_ok_prune:
  assumes "keys_ok ox clock ks pub"
  shows "keys_ok ox (max clock now) (prune now ks) pub"
proof -
  have n: "ak_not_before (aks_current ks) \<le> max clock now" using assms by (auto simp: keys_ok_def max_def)
  show ?thesis
  proof (cases "\<exists>p. aks_previous ks = Some p \<and> sat_add (rk_retired_at p) ROTATION_PERIOD_SECS \<le> now")
    case True
    then have "prune now ks = ks\<lparr>aks_previous := None\<rparr>" by (auto simp: prune_def)
    with assms n True show ?thesis unfolding keys_ok_def current_advert_def
      by (auto simp: max_iff)
  next
    case False
    then have "prune now ks = ks" by (auto simp: prune_def split: option.split)
    with assms n show ?thesis unfolding keys_ok_def by auto
  qed
qed

lemma closes_after:
  "closes ad \<le> sat_add (sat_add (ad_not_before ad) ROTATION_PERIOD_SECS) ROTATION_PERIOD_SECS"
  by (simp add: closes_def word_le_nat_alt unat_sat_add unat_sat_mul ROTATION_PERIOD_SECS_def)

lemma sat_add_mono: "a \<le> b \<Longrightarrow> sat_add a c \<le> sat_add b (c :: u64)"
  by (simp add: word_le_nat_alt unat_sat_add min_le_iff_disj)

lemma keys_ok_rotate:
  assumes law: "kem_law ox" "dk_layout ox" and k: "keys_ok ox (max clock now) ks pub" and s: "unat (ak_serial (aks_current ks)) < 2 ^ 64 - 1"
    and due: "sat_add (ak_not_before (aks_current ks)) ROTATION_PERIOD_SECS \<le> now"
    and g: "generate ox (sat_add (ak_serial (aks_current ks)) 1) now fill = Inr fresh"
  shows "keys_ok ox (max clock now) \<lparr>aks_current = fresh, aks_previous = Some \<lparr>rk_key = aks_current ks,
     rk_retired_at = sat_add (ak_not_before (aks_current ks)) ROTATION_PERIOD_SECS\<rparr>\<rparr> pub" (is "keys_ok _ _ ?ks _")
proof -
  note f = generate_Inr [OF law g]
  have u: "unat (ak_serial fresh) = unat (ak_serial (aks_current ks)) + 1"
    using f s by (simp add: unat_sat_add)
  then have lt: "ak_serial (aks_current ks) < ak_serial fresh" by (simp add: word_less_nat_alt)
  have gone: "\<not> max clock now < closes ad" if "aks_previous ks = Some p" "closes ad \<le> sat_add (rk_retired_at p) ROTATION_PERIOD_SECS" for ad p
  proof -
    have "rk_retired_at p \<le> ak_not_before (aks_current ks)" using k that(1) by (simp add: keys_ok_def)
    from sat_add_mono [OF this, of ROTATION_PERIOD_SECS] that(2) due show ?thesis by (auto simp: not_less max_def)
  qed
  have "\<forall>ad \<in> set pub. ad_serial ad \<le> ak_serial fresh \<and> (max clock now < closes ad \<longrightarrow> held_as ox ad (aks_current ks) \<and>
      closes ad \<le> sat_add (sat_add (ak_not_before (aks_current ks)) ROTATION_PERIOD_SECS) ROTATION_PERIOD_SECS)"
  proof (intro ballI conjI impI)
    fix ad assume ad: "ad \<in> set pub"
    from k ad have "ad_serial ad \<le> ak_serial (aks_current ks)" by (simp add: keys_ok_def)
    with lt show "ad_serial ad \<le> ak_serial fresh" by simp
    assume c: "max clock now < closes ad"
    from k ad c gone [of _ ad] have h: "held_as ox ad (aks_current ks)" "ad_not_before ad = ak_not_before (aks_current ks)"
      unfolding keys_ok_def by blast+
    with closes_after [of ad] show "held_as ox ad (aks_current ks)"
      "closes ad \<le> sat_add (sat_add (ak_not_before (aks_current ks)) ROTATION_PERIOD_SECS) ROTATION_PERIOD_SECS" by simp_all
  qed
  with f lt due show ?thesis by (auto simp: keys_ok_def held_as_def current_advert_def max_def)
qed

lemma keys_ok_publish: "keys_ok ox clock ks pub \<Longrightarrow> keys_ok ox clock ks (pub @ [current_advert ks])"
  by (auto simp: keys_ok_def) (simp_all add: current_advert_def)

lemma key_run_ok_step:
  assumes "key_run_ok ox w"
  shows "key_run_ok ox (key_step ox e w)"
proof (cases e)
  case (KeyPoll now fill)
  let ?ks = "prune now (ar_keys w)"
  have law: "kem_law ox" "dk_layout ox" using assms by (simp_all add: key_run_ok_def)
  have cur: "aks_current ?ks = aks_current (ar_keys w)" by (simp add: prune_def split: option.split)
  {
    assume n: "ar_polls w < 2 ^ 64 - 2"
    with assms have s: "unat (ak_serial (aks_current (ar_keys w))) \<le> ar_polls w" and k: "keys_ok ox (ar_clock w) (ar_keys w) (ar_published w)"
      by (auto simp: key_run_ok_def)
    note k' = keys_ok_prune [OF k, of now]
    let ?r = "rotate_if_due ox now fill (ar_keys w)"
    have "unat (ak_serial (aks_current (snd ?r))) \<le> Suc (ar_polls w) \<and>
        keys_ok ox (max (ar_clock w) now) (snd ?r) (ar_published w)"
    proof (cases "sat_add (ak_not_before (aks_current ?ks)) ROTATION_PERIOD_SECS \<le> now")
      case True
      show ?thesis
      proof (cases "generate ox (sat_add (ak_serial (aks_current ?ks)) 1) now fill")
        case (Inl a)
        from True have "\<not> now < sat_add (ak_not_before (aks_current ?ks)) ROTATION_PERIOD_SECS" by simp
        with Inl k' s cur show ?thesis by (simp add: rotate_if_due_def rotate_keys_def Let_def)
      next
        case (Inr fresh)
        have lt: "unat (ak_serial (aks_current ?ks)) < 2 ^ 64 - 1" using s n cur by simp
        from True have "\<not> now < sat_add (ak_not_before (aks_current ?ks)) ROTATION_PERIOD_SECS" by simp
        then have r: "snd ?r = \<lparr>aks_current = fresh, aks_previous = Some \<lparr>rk_key = aks_current ?ks,
            rk_retired_at = sat_add (ak_not_before (aks_current ?ks)) ROTATION_PERIOD_SECS\<rparr>\<rparr>"
          using Inr by (simp add: rotate_if_due_def rotate_keys_def Let_def)
        have "unat (ak_serial fresh) \<le> Suc (ar_polls w)"
          using generate_Inr [OF law Inr] s cur by (simp add: unat_sat_add min_le_iff_disj)
        with keys_ok_rotate [OF law k' lt True Inr] r show ?thesis by simp
      qed
    next
      case False
      then have "now < sat_add (ak_not_before (aks_current ?ks)) ROTATION_PERIOD_SECS" by (simp add: not_le)
      with k' s cur show ?thesis by (simp add: rotate_if_due_def Let_def)
    qed
    then have "unat (ak_serial (aks_current (snd ?r))) \<le> Suc (ar_polls w) \<and>
        keys_ok ox (max (ar_clock w) now) (snd ?r) (ar_published w @ [current_advert (snd ?r)])"
      using keys_ok_publish by blast
  }
  with law show ?thesis by (auto simp: KeyPoll key_run_ok_def Let_def)
next
  case KeyRestart
  let ?ks = "keys_restore (keys_snapshot (ar_keys w))"
  have "keys_ok ox (ar_clock w) ?ks (ar_published w)" if "keys_ok ox (ar_clock w) (ar_keys w) (ar_published w)"
    using that by (auto simp: keys_ok_def keys_restore_def keys_snapshot_def held_as_def current_advert_def)
  moreover have "ak_serial (aks_current ?ks) = ak_serial (aks_current (ar_keys w))"
    by (simp add: keys_restore_def keys_snapshot_def)
  ultimately show ?thesis
    using assms keys_ok_publish by (auto simp: KeyRestart key_run_ok_def Let_def)
qed

interpretation advert_rotation: machine
  "\<lambda>w. \<exists>now fill ks. kem_law ox \<and> dk_layout ox \<and> advert_keys_new ox now fill = Inr ks \<and> w = key_start now ks"
  "key_step ox" "key_run_ok ox" for ox
proof unfold_locales
  fix w assume "\<exists>now fill ks. kem_law ox \<and> dk_layout ox \<and> advert_keys_new ox now fill = Inr ks \<and> w = key_start now ks"
  then obtain now fill ks k where a: "kem_law ox" "dk_layout ox" "generate ox 0 now fill = Inr k"
    "ks = \<lparr>aks_current = k, aks_previous = None\<rparr>" "w = key_start now ks"
    by (auto simp: advert_keys_new_def result_simps)
  with generate_Inr [OF a(1-3)] show "key_run_ok ox w"
    by (simp add: key_run_ok_def key_start_def keys_ok_def held_as_def current_advert_def)
qed (rule key_run_ok_step)


text \<open>A library whose decapsulation key carries its encapsulation key, for concrete inputs.\<close>

definition layout_oxi :: oxi where
  "layout_oxi = demo_oxi\<lparr>lib_kem_keygen := (\<lambda>d z. Inr (replicate KEM_EK_LEN 7,
     replicate EK_IN_DK_AT 0 @ replicate KEM_EK_LEN 7 @ replicate 64 0))\<rparr>"

lemma layout_laws: "kem_law layout_oxi" "dk_layout layout_oxi"
  by (auto simp: kem_law_def dk_layout_def ml_kem_keygen_def ml_kem_encapsulate_def ml_kem_decapsulate_def
      oxi_module_def layout_oxi_def demo_oxi_def crypto_lens ek_from_dk_def byte_slice_def split: if_splits)

lemma layout_keys:
  "advert_keys_new layout_oxi now (\<lambda>_. Some [0]) = Inr \<lparr>aks_current = \<lparr>ak_serial = 0, ak_not_before = now,
     ak_ek = replicate KEM_EK_LEN 7, ak_dk = replicate EK_IN_DK_AT 0 @ replicate KEM_EK_LEN 7 @ replicate 64 0\<rparr>,
   aks_previous = None\<rparr>"
  by (simp add: advert_keys_new_def generate_def ml_kem_keygen_def oxi_module_def layout_oxi_def demo_oxi_def)


lemma advert_verifies_iff_signed_witness:
  "let kp = \<lparr>sk_public_key = replicate DSA_PK_LEN 1, sk_secret_key = [2]\<rparr>; k = replicate KEM_EK_LEN 3 in
   \<exists>built. advert_build demo_oxi kp 4 5 k = Inr built \<and>
     advert_verify demo_oxi (sk_public_key kp) built = Inr \<lparr>ad_serial = 4, ad_not_before = 5, ad_kem_pk = k\<rparr>"
proof -
  let ?kp = "\<lparr>sk_public_key = replicate DSA_PK_LEN (1 :: byte), sk_secret_key = [2]\<rparr>"
  let ?k = "replicate KEM_EK_LEN (3 :: byte)"
  obtain built where b: "advert_build demo_oxi ?kp 4 5 ?k = Inr built"
    by (auto simp: advert_build_def keypair_sign_def ml_dsa_sign_def oxi_module_def demo_oxi_def)
  have l: "dsa_law demo_oxi ?kp" "length ?k = KEM_EK_LEN" by (simp_all add: demo_dsa_law)
  from advert_verifies_iff_signed [OF l b] b show ?thesis unfolding Let_def by blast
qed

end
