(* ===== verification/Drop.thy ===== *)
theory Drop
  imports Advert
begin

text \<open>
  The drop of \<^verbatim>\<open>dm/drop.rs\<close>: the record anyone can write a hello into, the hello's seal, its slot and
  its proof-of-work tag, and one attempt to place it.
\<close>

definition DM_DROP_SALT :: "byte list" where "DM_DROP_SALT = ascii ''daemonseed/dm/drop/salt/v1''"
definition DM_DROP_OWNER :: "byte list" where "DM_DROP_OWNER = ascii ''daemonseed/dm/drop/owner/v1''"
definition DM_DROP_HELLO_SALT :: "byte list" where "DM_DROP_HELLO_SALT = ascii ''daemonseed/dm/drop/hello-salt/v1''"
definition DM_DROP_HELLO :: "byte list" where "DM_DROP_HELLO = ascii ''daemonseed/dm/drop/hello/v1''"
definition DM_DROP_AAD :: "byte list" where "DM_DROP_AAD = ascii ''daemonseed/dm/drop/aad/v1''"
definition DM_DROP_POW :: "byte list" where "DM_DROP_POW = ascii ''daemonseed/dm/drop/pow/v1''"
definition DM_DROP_SLOT :: "byte list" where "DM_DROP_SLOT = ascii ''daemonseed/dm/drop/slot/v1''"

definition DROP_OWNER_SEED_LEN :: nat where "DROP_OWNER_SEED_LEN = 32"
definition DROP_POW_BITS :: nat where "DROP_POW_BITS = 0"
definition CARRIES_NOTHING :: byte where "CARRIES_NOTHING = 0"
definition CARRIES_ORIGINAL :: byte where "CARRIES_ORIGINAL = 1"
definition SEALED_AT :: nat where "SEALED_AT = KEM_CT_LEN"
definition POW_TAG_AT :: nat where "POW_TAG_AT = HELLO_LEN - DROP_POW_TAG_LEN"

datatype drop_error =
    DrKdf oxi_error
  | DrLength nat nat
  | BadTag
  | DrAead
  | SlotMismatch u16 u16
  | DrEntropy
  | DrModule oxi_error

fun drop_of_envelope :: "envelope_error \<Rightarrow> drop_error" where
  "drop_of_envelope EntropySource = DrEntropy"
| "drop_of_envelope TooShort = DrAead"
| "drop_of_envelope (Decrypt e) = DrAead"
| "drop_of_envelope (Encrypt e) = DrAead"

definition drop_owner_seed :: "oxi \<Rightarrow> byte list \<Rightarrow> drop_error + byte list" where
  "drop_owner_seed ox recipient_pubkey =
    rbind (map_err DrKdf (hkdf_extract ox (Some DM_DROP_SALT) recipient_pubkey)) (\<lambda>hkdf.
    map_err DrKdf (hkdf_expand ox hkdf DM_DROP_OWNER DROP_OWNER_SEED_LEN))"

definition hello_key :: "oxi \<Rightarrow> byte list \<Rightarrow> drop_error + byte list" where
  "hello_key ox ss0 =
    rbind (map_err DrKdf (hkdf_extract ox (Some DM_DROP_HELLO_SALT) ss0)) (\<lambda>hkdf.
    map_err DrKdf (hkdf_expand ox hkdf DM_DROP_HELLO 32))"

definition hello_aad :: "byte list \<Rightarrow> byte list \<Rightarrow> byte list" where
  "hello_aad kem_ct recipient_pubkey = DM_DROP_AAD @ push_lp kem_ct @ push_lp recipient_pubkey"

definition pow_input :: "byte list \<Rightarrow> byte list \<Rightarrow> byte list \<Rightarrow> byte list" where
  "pow_input kem_ct r recipient_pubkey = DM_DROP_POW @ push_lp kem_ct @ push_lp r @ push_lp recipient_pubkey"

definition pow_tag :: "oxi \<Rightarrow> byte list \<Rightarrow> byte list \<Rightarrow> byte list \<Rightarrow> drop_error + byte list" where
  "pow_tag ox kem_ct r recipient_pubkey =
    rbind (map_err DrModule (sha384 ox (pow_input kem_ct r recipient_pubkey))) (\<lambda>digest.
    Inr (take DROP_POW_TAG_LEN digest))"

definition has_leading_zero_bits :: "byte list \<Rightarrow> nat \<Rightarrow> bool" where
  "has_leading_zero_bits digest bits =
    (let whole = bits div 8; remainder = bits mod 8
     in if whole + (if remainder > 0 then 1 else 0) > length digest then False
        else if list_ex (\<lambda>b. b \<noteq> 0) (take whole digest) then False
        else if remainder = 0 then True
        else drop_bit (8 - remainder) (digest ! whole) = 0)"

definition drop_slot_for :: "oxi \<Rightarrow> byte list \<Rightarrow> drop_error + u16" where
  "drop_slot_for ox r =
    rbind (map_err DrModule (sha384 ox (DM_DROP_SLOT @ push_lp r))) (\<lambda>digest.
    Inr (ucast (last digest) mod DROP_SUBKEYS))"

definition repick :: "fill \<Rightarrow> drop_error + byte list" where
  "repick fill = ok_or DrEntropy (fill 0)"

section \<open>The hello\<close>

record hello =
  hl_lookup_key :: "byte list"
  hl_r :: "byte list"
  hl_original_secret :: "byte list option"

definition seal_with ::
  "oxi \<Rightarrow> byte list option \<Rightarrow> hello_encapsulation \<Rightarrow> byte list \<Rightarrow> byte list \<Rightarrow> byte \<Rightarrow> byte list \<Rightarrow> byte list \<Rightarrow>
   drop_error + byte list" where
  "seal_with ox draw encap lookup_key r carried_tag carried recipient_pubkey =
    rbind (hello_key ox (he_shared_secret encap)) (\<lambda>key.
    rbind (map_err DrModule (aes256_key ox key)) (\<lambda>aes.
    rbind (map_err drop_of_envelope (seal_envelope ox draw aes (hello_aad (he_ciphertext encap) recipient_pubkey)
             (lookup_key @ r @ [carried_tag] @ carried))) (\<lambda>sealed.
    rbind (pow_tag ox (he_ciphertext encap) r recipient_pubkey) (\<lambda>tag.
    Inr (he_ciphertext encap @ sealed @ tag)))))"

definition seal_hello ::
  "oxi \<Rightarrow> byte list option \<Rightarrow> hello_encapsulation \<Rightarrow> byte list \<Rightarrow> byte list \<Rightarrow> byte list \<Rightarrow> drop_error + byte list" where
  "seal_hello ox draw encap lookup_key r recipient_pubkey =
    seal_with ox draw encap lookup_key r CARRIES_NOTHING (replicate CARRIED_LEN 0) recipient_pubkey"

definition seal_rewritten_hello ::
  "oxi \<Rightarrow> byte list option \<Rightarrow> hello_encapsulation \<Rightarrow> byte list \<Rightarrow> byte list \<Rightarrow> byte list \<Rightarrow> byte list \<Rightarrow>
   drop_error + byte list" where
  "seal_rewritten_hello ox draw encap lookup_key r original recipient_pubkey =
    seal_with ox draw encap lookup_key r CARRIES_ORIGINAL original recipient_pubkey"

definition carried_secret :: "byte \<Rightarrow> byte list \<Rightarrow> drop_error + byte list option" where
  "carried_secret tag carried =
    (if tag = CARRIES_NOTHING \<and> carried = replicate CARRIED_LEN 0 then Inr None
     else if tag = CARRIES_ORIGINAL \<and> carried \<noteq> replicate CARRIED_LEN 0 then Inr (Some carried)
     else Inl DrAead)"

definition open_hello :: "oxi \<Rightarrow> byte list \<Rightarrow> byte list \<Rightarrow> byte list \<Rightarrow> u16 \<Rightarrow> drop_error + hello" where
  "open_hello ox ss0 bytes recipient_pubkey slot =
    (if length bytes \<noteq> HELLO_LEN then Inl (DrLength HELLO_LEN (length bytes))
     else let kem_ct = take SEALED_AT bytes;
              sealed = byte_slice SEALED_AT POW_TAG_AT bytes;
              tag = drop POW_TAG_AT bytes
       in if \<not> has_leading_zero_bits tag DROP_POW_BITS then Inl BadTag
       else rbind (hello_key ox ss0) (\<lambda>key.
            rbind (map_err DrModule (aes256_key ox key)) (\<lambda>aes.
            rbind (map_err drop_of_envelope (open_envelope ox aes (hello_aad kem_ct recipient_pubkey) sealed)) (\<lambda>plaintext.
            if length plaintext \<noteq> HELLO_PLAINTEXT_LEN then Inl DrAead
            else let tag_at = HELLO_LOOKUP_KEY_LEN + HELLO_R_LEN; r = byte_slice HELLO_LOOKUP_KEY_LEN tag_at plaintext
              in rbind (carried_secret (plaintext ! tag_at) (drop (tag_at + 1) plaintext)) (\<lambda>original.
                 rbind (pow_tag ox kem_ct r recipient_pubkey) (\<lambda>expected.
                 if expected \<noteq> tag then Inl BadTag
                 else rbind (drop_slot_for ox r) (\<lambda>picked.
                   if picked \<noteq> slot then Inl (SlotMismatch picked slot)
                   else Inr \<lparr>hl_lookup_key = take HELLO_LOOKUP_KEY_LEN plaintext, hl_r = r,
                             hl_original_secret = original\<rparr>)))))))"

section \<open>Placing a hello\<close>

datatype read_back = Landed | Clobbered

definition after_read_back :: "byte list \<Rightarrow> byte list option \<Rightarrow> read_back" where
  "after_read_back written found = (if found = Some written then Landed else Clobbered)"

record hello_attempt =
  ha_r :: "byte list"
  ha_slot :: u16
  ha_repicks :: u32

definition attempt_new :: "oxi \<Rightarrow> byte list \<Rightarrow> drop_error + hello_attempt" where
  "attempt_new ox r = rbind (drop_slot_for ox r) (\<lambda>slot. Inr \<lparr>ha_r = r, ha_slot = slot, ha_repicks = 0\<rparr>)"

definition attempt_read_back ::
  "oxi \<Rightarrow> byte list \<Rightarrow> byte list option \<Rightarrow> fill \<Rightarrow> hello_attempt \<Rightarrow> (drop_error + read_back) \<times> hello_attempt" where
  "attempt_read_back ox written found fill at =
    (case after_read_back written found of
       Landed \<Rightarrow> (Inr Landed, at)
     | Clobbered \<Rightarrow>
       (case rbind (repick fill) (\<lambda>r. rbind (drop_slot_for ox r) (\<lambda>slot. Inr (r, slot))) of
          Inl e \<Rightarrow> (Inl e, at)
        | Inr (r, slot) \<Rightarrow>
            (Inr Clobbered, at\<lparr>ha_r := r, ha_slot := slot, ha_repicks := sat_add (ha_repicks at) 1\<rparr>)))"

section \<open>What opens\<close>

text \<open>SHA-384 produces 48 bytes, as the library's type says.\<close>

definition sha_law :: "oxi \<Rightarrow> bool" where
  "sha_law ox \<longleftrightarrow> (\<forall>d h. sha384 ox d = Inr h \<longrightarrow> length h = 48)"

lemma has_no_leading_zeros [simp]: "has_leading_zero_bits d 0"
  by (simp add: has_leading_zero_bits_def Let_def)

definition hello_opened :: "oxi \<Rightarrow> byte list \<Rightarrow> byte list \<Rightarrow> byte list option \<Rightarrow> u16 \<Rightarrow> drop_error + hello" where
  "hello_opened ox lookup_key r original slot =
    rbind (drop_slot_for ox r) (\<lambda>picked. if picked \<noteq> slot then Inl (SlotMismatch picked slot)
      else Inr \<lparr>hl_lookup_key = lookup_key, hl_r = r, hl_original_secret = original\<rparr>)"

lemma open_seal_with:
  assumes law: "gcm_law ox" "sha_law ox"
    and len: "length lookup_key = HELLO_LOOKUP_KEY_LEN" "length r = HELLO_R_LEN" "length carried = CARRIED_LEN"
      "length (he_ciphertext encap) = KEM_CT_LEN"
    and s: "seal_with ox draw encap lookup_key r carried_tag carried pk = Inr bytes"
  shows "length bytes = HELLO_LEN" "take KEM_CT_LEN bytes = he_ciphertext encap"
    "open_hello ox (he_shared_secret encap) bytes pk slot =
      rbind (carried_secret carried_tag carried) (\<lambda>original. hello_opened ox lookup_key r original slot)"
proof -
  define pt where "pt = lookup_key @ r @ [carried_tag] @ carried"
  from s obtain key aes sealed tag where k: "hello_key ox (he_shared_secret encap) = Inr key" "aes256_key ox key = Inr aes"
    and e: "seal_envelope ox draw aes (hello_aad (he_ciphertext encap) pk) pt = Inr sealed"
    and t: "pow_tag ox (he_ciphertext encap) r pk = Inr tag" and b: "bytes = he_ciphertext encap @ sealed @ tag"
    by (auto simp: seal_with_def result_simps pt_def)
  have tl: "length tag = DROP_POW_TAG_LEN"
    using t law(2) by (auto simp: pow_tag_def sha_law_def result_simps DROP_POW_TAG_LEN_def)
  have pl: "length pt = HELLO_PLAINTEXT_LEN" using len by (simp add: HELLO_PLAINTEXT_LEN_def pt_def)
  have sl: "length sealed = NONCE_LEN + HELLO_PLAINTEXT_LEN + TAG_LEN"
    using envelope.seal_length [OF law(1) e] pl by simp
  have o: "open_envelope ox aes (hello_aad (he_ciphertext encap) pk) sealed = Inr pt"
    by (rule envelope.unseal_seal [OF law(1) e])
  show bl: "length bytes = HELLO_LEN" using b tl sl len(4) by (simp add: HELLO_LEN_def)
  have parts: "take SEALED_AT bytes = he_ciphertext encap" "byte_slice SEALED_AT POW_TAG_AT bytes = sealed"
    "drop POW_TAG_AT bytes = tag"
    using b tl sl len(4) by (simp_all add: SEALED_AT_def POW_TAG_AT_def HELLO_LEN_def byte_slice_def)
  then show "take KEM_CT_LEN bytes = he_ciphertext encap" by (simp add: SEALED_AT_def)
  have pp: "pt ! (HELLO_LOOKUP_KEY_LEN + HELLO_R_LEN) = carried_tag"
    "drop (HELLO_LOOKUP_KEY_LEN + HELLO_R_LEN + 1) pt = carried" "take HELLO_LOOKUP_KEY_LEN pt = lookup_key"
    "byte_slice HELLO_LOOKUP_KEY_LEN (HELLO_LOOKUP_KEY_LEN + HELLO_R_LEN) pt = r"
    using len by (simp_all add: nth_append byte_slice_def pt_def)
  show "open_hello ox (he_shared_secret encap) bytes pk slot =
      rbind (carried_secret carried_tag carried) (\<lambda>original. hello_opened ox lookup_key r original slot)"
    unfolding open_hello_def parts Let_def bl pp k o rbind_simps map_err_simps t pl DROP_POW_BITS_def
    by (simp add: hello_opened_def)
qed

lemma open_hello_sound:
  assumes "open_hello ox ss bytes pk slot = Inr h"
  shows "length bytes = HELLO_LEN \<and> drop_slot_for ox (hl_r h) = Inr slot \<and>
    pow_tag ox (take KEM_CT_LEN bytes) (hl_r h) pk = Inr (drop POW_TAG_AT bytes)"
  using assms by (auto simp: open_hello_def Let_def result_simps SEALED_AT_def split: if_splits)

text \<open>
  C23. A hello opens only where it says it lies: what is sealed, a first hello or a rewritten one carrying
  a secret that is not the placeholder, has the fixed length, begins with its encapsulation and opens in
  the slot its \<open>r\<close> picks to exactly the lookup key, the \<open>r\<close> and the carried secret; in any other slot it is
  refused, and whatever opens anywhere lies in the slot its \<open>r\<close> picks and carries the tag of its own
  encapsulation, \<open>r\<close> and recipient.
\<close>

theorem hello_opens_only_in_its_slot:
  assumes "gcm_law ox" "sha_law ox" "length lookup_key = HELLO_LOOKUP_KEY_LEN" "length r = HELLO_R_LEN"
    "length (he_ciphertext encap) = KEM_CT_LEN" "length original = CARRIED_LEN" "original \<noteq> replicate CARRIED_LEN 0"
    and seal: "sealed = seal_hello ox draw encap lookup_key r pk \<and> carried = None \<or>
      sealed = seal_rewritten_hello ox draw encap lookup_key r original pk \<and> carried = Some original"
    and "sealed = Inr bytes" "drop_slot_for ox r = Inr picked"
  shows "length bytes = HELLO_LEN \<and> take KEM_CT_LEN bytes = he_ciphertext encap \<and>
    open_hello ox (he_shared_secret encap) bytes pk slot =
      (if slot = picked then Inr \<lparr>hl_lookup_key = lookup_key, hl_r = r, hl_original_secret = carried\<rparr>
       else Inl (SlotMismatch picked slot)) \<and>
    (\<forall>ss bytes pk slot h. open_hello ox ss bytes pk slot = Inr h \<longrightarrow> drop_slot_for ox (hl_r h) = Inr slot \<and>
       pow_tag ox (take KEM_CT_LEN bytes) (hl_r h) pk = Inr (drop POW_TAG_AT bytes))"
proof -
  define tag where "tag = (if carried = None then CARRIES_NOTHING else CARRIES_ORIGINAL)"
  define c where "c = (if carried = None then replicate CARRIED_LEN 0 else original)"
  have s: "seal_with ox draw encap lookup_key r tag c pk = Inr bytes"
    using seal assms(9) by (auto simp: seal_hello_def seal_rewritten_hello_def tag_def c_def)
  have l: "length c = CARRIED_LEN" using assms(6) by (simp add: c_def)
  have "carried_secret tag c = Inr carried"
    using seal assms(7) by (auto simp: carried_secret_def tag_def c_def CARRIES_NOTHING_def CARRIES_ORIGINAL_def)
  moreover note o = open_seal_with [OF assms(1-4) l assms(5) s]
  ultimately have "open_hello ox (he_shared_secret encap) bytes pk slot =
      (if slot = picked then Inr \<lparr>hl_lookup_key = lookup_key, hl_r = r, hl_original_secret = carried\<rparr>
       else Inl (SlotMismatch picked slot))"
    using assms(10) by (auto simp: hello_opened_def)
  with o(1,2) open_hello_sound show ?thesis by blast
qed

lemma demo_sha_law: "sha_law demo_oxi"
  by (auto simp: sha_law_def sha384_def oxi_module_def demo_oxi_def)

theorem hello_opens_only_in_its_slot_witness:
  "let encap = \<lparr>he_serial = 0, he_shared_secret = replicate 32 1, he_ciphertext = replicate KEM_CT_LEN 2\<rparr> in
   \<exists>bytes picked. seal_rewritten_hello demo_oxi (Some (replicate 12 0)) encap (replicate 32 3) (replicate 32 4) (replicate 32 5) [6] = Inr bytes \<and>
     open_hello demo_oxi (replicate 32 1) bytes [6] picked =
       Inr \<lparr>hl_lookup_key = replicate 32 3, hl_r = replicate 32 4, hl_original_secret = Some (replicate 32 5)\<rparr>"
proof -
  let ?encap = "\<lparr>he_serial = 0, he_shared_secret = replicate 32 (1 :: byte), he_ciphertext = replicate KEM_CT_LEN 2\<rparr>"
  obtain bytes where b: "seal_rewritten_hello demo_oxi (Some (replicate 12 0)) ?encap (replicate 32 3) (replicate 32 4) (replicate 32 5) [6] = Inr bytes"
    by (auto simp: seal_rewritten_hello_def seal_with_def hello_key_def pow_tag_def seal_envelope_def oxi_defs demo_oxi_def
        gcm_nonce_def)
  obtain picked where p: "drop_slot_for demo_oxi (replicate 32 4) = Inr picked"
    by (auto simp: drop_slot_for_def oxi_defs demo_oxi_def)
  have "replicate CARRIED_LEN (5 :: byte) \<noteq> replicate CARRIED_LEN 0" by (simp add: CARRIED_LEN_def KEM_SS_LEN_def)
  from hello_opens_only_in_its_slot [OF demo_gcm_law demo_sha_law _ _ _ _ this disjI2, of "replicate 32 3" "replicate 32 4" ?encap, OF _ _ _ _ conjI [OF refl refl] _ p,
      of "Some (replicate 12 0)" "[6]" bytes picked] b
  show ?thesis by (auto simp: Let_def HELLO_LOOKUP_KEY_LEN_def HELLO_R_LEN_def CARRIED_LEN_def KEM_SS_LEN_def)
qed

section \<open>The proof-of-work test\<close>

lemma be_dec_append: "be_dec (xs @ ys) = be_dec xs * 256 ^ length ys + be_dec ys"
proof (induction ys rule: rev_induct)
  case (snoc y ys)
  then show ?case by (simp flip: append_assoc add: algebra_simps)
qed simp

lemma be_dec_zero: "be_dec xs = 0 \<longleftrightarrow> list_all (\<lambda>b. b = 0) xs"
  by (induction xs rule: rev_induct) (auto simp: unat_eq_zero)

lemma prefix_less:
  fixes a b n :: nat
  assumes "b < m" "0 < k"
  shows "a * m + b < k * m \<longleftrightarrow> a < k"
  using assms by (metis add.commute add_lessD1 div_less_iff_less_mult div_mult_self1 div_less add_cancel_right_right gr_implies_not0 not_gr_zero less_nat_zero_code)

text \<open>
  The proof-of-work test decides what it names: a digest has \<open>bits\<close> leading zero bits exactly when it
  is long enough and, read as a big-endian number, lies below the corresponding power of two.
\<close>

lemma leading_zero_bits_is_a_bound:
  "has_leading_zero_bits d bits \<longleftrightarrow> bits \<le> 8 * length d \<and> be_dec d < 2 ^ (8 * length d - bits)"
proof -
  define w where "w = bits div 8"
  define m where "m = bits mod 8"
  have bits: "bits = 8 * w + m" "m < 8" by (simp_all add: w_def m_def)
  have fits: "w + (if m > 0 then 1 else 0) \<le> length d \<longleftrightarrow> bits \<le> 8 * length d" using bits by auto
  have p256: "(256 :: nat) ^ n = 2 ^ (8 * n)" for n by (simp add: power_mult)
  show ?thesis
  proof (cases "bits \<le> 8 * length d")
    case True
    then have lw: "w \<le> length d" using fits by linarith
    let ?n = "length d - w"
    have split: "be_dec d = be_dec (take w d) * 256 ^ ?n + be_dec (drop w d)"
      using be_dec_append [of "take w d" "drop w d"] by simp
    have dl: "be_dec (drop w d) < 256 ^ ?n" using be_dec_less [of "drop w d"] by simp
    show ?thesis
    proof (cases "m = 0")
      case m0: True
      have "8 * length d - bits = 8 * ?n" using bits m0 lw by simp
      then have "be_dec d < 2 ^ (8 * length d - bits) \<longleftrightarrow> be_dec (take w d) = 0"
        using split prefix_less [OF dl, of 1 "be_dec (take w d)"] by (simp add: p256)
      then show ?thesis using True fits m0
        by (auto simp: has_leading_zero_bits_def Let_def be_dec_zero list_ex_iff list_all_iff w_def m_def)
    next
      case False
      then have "w < length d" using fits True by simp
      then obtain b ys where r: "drop w d = b # ys" "d ! w = b" "length ys = ?n - 1" "0 < ?n"
        by (metis Cons_nth_drop_Suc diff_Suc_1 length_Cons length_drop zero_less_diff)
      then have n: "?n = Suc (length ys)" by simp
      have e: "8 * length d - bits = (8 - m) + 8 * length ys" using bits n \<open>w < length d\<close> by simp
      have bd: "be_dec d = (be_dec (take w d) * 256 + unat b) * 256 ^ length ys + be_dec ys"
        using split r(1) n be_dec_append [of "[b]" ys] be_dec_snoc [of "[]" b] by (simp add: algebra_simps)
      have "be_dec d < 2 ^ (8 * length d - bits) \<longleftrightarrow> be_dec (take w d) * 256 + unat b < 2 ^ (8 - m)"
        unfolding bd e power_add p256 [symmetric] by (rule prefix_less [OF be_dec_less]) simp
      also have "\<dots> \<longleftrightarrow> be_dec (take w d) = 0 \<and> unat b < 2 ^ (8 - m)"
      proof -
        have "(2 :: nat) ^ (8 - m) \<le> 2 ^ 8" by (rule power_increasing) simp_all
        then show ?thesis by (cases "be_dec (take w d)") auto
      qed
      also have "unat b < 2 ^ (8 - m) \<longleftrightarrow> drop_bit (8 - m) b = 0"
        by (metis drop_bit_eq_div div_eq_0_iff unat_drop_bit_eq unat_eq_zero zero_less_numeral zero_less_power less_not_refl)
      finally show ?thesis using True fits False r(2)
        by (auto simp: has_leading_zero_bits_def Let_def be_dec_zero list_ex_iff list_all_iff w_def m_def)
    qed
  next
    case False
    with fits show ?thesis by (simp add: has_leading_zero_bits_def Let_def w_def m_def)
  qed
qed

end
