(* ===== verification/Flows.thy ===== *)
theory Flows
  imports Store Chain_Sync Drop
begin

text \<open>
  The flows of an established conversation (\<^verbatim>\<open>dm/flows.rs\<close>): seal a message and commit it, write
  its slot, collect the correspondent's next message, publish the collection cursor.

  The record network behind the trait \<open>Records\<close> is a map from a channel's lookup key and a subkey to
  the bytes last written there (\<open>records\<close>); a read or write it refuses is an argument. A flow makes
  several store calls: \<open>io i\<close> is how the i-th one went, and \<open>between\<close> is what other writers did to
  the store after the flow's load.
\<close>

datatype flow_error =
    FlAdvert advert_error | FlDrop drop_error | FlChannel ch_error | FlChain chain_error | FlStore store_error | FlRecords
  | NoAdvert | NoOpening | NotOutstanding | AlreadyEstablished | AwaitingAcceptance | AlreadyAccepted
  | OpeningWriter | OpeningRatchetKey | DropFull | Incomplete string | HelloLength nat
  | DeletePending | BodyTooLong nat | Conflict

type_synonym records = "byte list \<times> u16 \<Rightarrow> byte list option"

datatype record_io = RecOk | RecRefused

definition read_channel :: "record_io \<Rightarrow> records \<Rightarrow> byte list \<Rightarrow> u16 \<Rightarrow> flow_error + byte list option" where
  "read_channel rio net lookup_key subkey =
    (case rio of RecRefused \<Rightarrow> Inl FlRecords | RecOk \<Rightarrow> Inr (net (lookup_key, subkey)))"

definition write_channel ::
  "record_io \<Rightarrow> byte list \<Rightarrow> u16 \<Rightarrow> byte list \<Rightarrow> records \<Rightarrow> (flow_error + unit) \<times> records" where
  "write_channel rio lookup_key subkey bytes net =
    (case rio of RecRefused \<Rightarrow> (Inl FlRecords, net)
     | RecOk \<Rightarrow> (Inr (), net((lookup_key, subkey) \<mapsto> bytes)))"

section \<open>One slot\<close>

definition DEVICE_ID_SINGLE_DEVICE :: u32 where "DEVICE_ID_SINGLE_DEVICE = 0"

definition fits_a_message :: "byte list \<Rightarrow> flow_error + unit" where
  "fits_a_message body =
    (if length body > MESSAGE_BODY_MAX_LEN then Inl (BodyTooLong (length body)) else Inr ())"

definition seal_slot ::
  "oxi \<Rightarrow> byte list option \<Rightarrow> fill \<Rightarrow> u64 \<Rightarrow> byte list \<Rightarrow> conversation \<Rightarrow>
   (flow_error + byte list) \<times> conversation" where
  "seal_slot ox draw fill now body cv =
    (case fits_a_message body of Inl e \<Rightarrow> (Inl e, cv)
     | Inr _ \<Rightarrow>
       (case conversation_seal ox draw fill (encode_message_plaintext (sat_mul now 1000) body)
               DEVICE_ID_SINGLE_DEVICE cv of
          (Inl e, cv') \<Rightarrow> (Inl (FlChain e), cv')
        | (Inr (header, sealed), cv') \<Rightarrow> (Inr (header_encode header @ sealed), cv')))"

datatype ring_step =
    RsMessage u64 u64 "byte list" "store_error option"
  | RsEnd
  | RsUnopened u64 u16 chain_error

definition open_ring_slot ::
  "oxi \<Rightarrow> byte list \<Rightarrow> u64 \<Rightarrow> conversation \<Rightarrow> ring \<Rightarrow> (flow_error + ring_step) \<times> conversation \<times> ring" where
  "open_ring_slot ox raw seq cv ring =
    (case header_decode raw of Inl _ \<Rightarrow> (Inr RsEnd, cv, ring)
     | Inr (header, sealed) \<Rightarrow>
       if h_seq header \<noteq> seq then (Inr RsEnd, cv, ring)
       else (case conversation_open ox header sealed cv of
           (Inl error, cv') \<Rightarrow> (Inr (RsUnopened seq (slot_for seq) error), cv', ring)
         | (Inr plaintext, cv') \<Rightarrow>
           (case decode_message_plaintext plaintext of
              Inl e \<Rightarrow> (Inl (FlChannel e), cv', ring)
            | Inr (sent_at, body) \<Rightarrow>
                (Inr (RsMessage seq sent_at body None), cv', advance_peer_collected ring (h_cursor header)))))"

section \<open>Loading and committing\<close>

definition flow_load ::
  "io \<Rightarrow> correspondence_label \<Rightarrow> dm_store \<Rightarrow> (flow_error + conv_state) \<times> dm_store" where
  "flow_load io peer s =
    (case load_conv io peer s of (r, s') \<Rightarrow>
      (rbind (map_err FlStore r) (ok_or (FlStore MissingConversation)), s'))"

text \<open>\<open>Conversation::restore_copy\<close> reads the snapshot without consuming it.\<close>

definition restore_copy :: "conversation_snapshot \<Rightarrow> conversation" where
  "restore_copy st = restore \<lparr>
     sn_sending = (sn_sending st)\<lparr>ds_pending_turn := map_option own_turn_duplicate (ds_pending_turn (sn_sending st))\<rparr>,
     sn_receiving = (sn_receiving st)\<lparr>
       rs_own_turns := (map_option own_turn_duplicate (fst (rs_own_turns (sn_receiving st))),
                        map_option own_turn_duplicate (snd (rs_own_turns (sn_receiving st)))),
       rs_peer_latest := map_option peer_turn_duplicate (rs_peer_latest (sn_receiving st))\<rparr>\<rparr>"

definition stored_force :: "conv_state \<Rightarrow> bool" where
  "stored_force st = ds_force_turn (sn_sending (cs_conversation st))"

definition set_stored_force :: "bool \<Rightarrow> conversation_snapshot \<Rightarrow> conversation_snapshot" where
  "set_stored_force f sn = sn\<lparr>sn_sending := (sn_sending sn)\<lparr>ds_force_turn := f\<rparr>\<rparr>"

definition write_conversation :: "conversation \<Rightarrow> bool \<Rightarrow> conv_state \<Rightarrow> conv_state" where
  "write_conversation written loaded_forced state =
    (let sn = snapshot written;
         f = (ds_force_turn (sn_sending sn) \<or> (stored_force state \<and> \<not> loaded_forced))
     in state\<lparr>cs_conversation := set_stored_force f sn\<rparr>)"

record as_loaded =
  al_bytes :: "byte list"
  al_force_turn :: bool
  al_cursor_published :: u64

definition as_loaded_of :: "conv_state \<Rightarrow> as_loaded" where
  "as_loaded_of st = \<lparr>al_bytes = encode_conv st, al_force_turn = stored_force st,
     al_cursor_published = cs_cursor_published st\<rparr>"

definition as_loaded_unchanged :: "as_loaded \<Rightarrow> conv_state \<Rightarrow> flow_error + unit" where
  "as_loaded_unchanged al stored =
    (let masked = stored\<lparr>cs_conversation := set_stored_force (al_force_turn al) (cs_conversation stored),
                         cs_cursor_published := al_cursor_published al\<rparr>
     in if encode_conv masked = al_bytes al then Inr () else Inl Conflict)"

definition refuse_if_marked :: "conv_state \<Rightarrow> flow_error + unit" where
  "refuse_if_marked st = (if cs_delete_pending st then Inl DeletePending else Inr ())"

text \<open>\<open>store.try_update_conv(..)??\<close>: a store error and the closure's own error are one result.\<close>

definition flow_update ::
  "io \<Rightarrow> correspondence_label \<Rightarrow> (conv_state \<Rightarrow> flow_error + ('t \<times> conv_state)) \<Rightarrow> dm_store \<Rightarrow>
   (flow_error + 't) \<times> dm_store" where
  "flow_update io peer f s =
    (case try_update_conv io peer f s of (r, s') \<Rightarrow> (rbind (map_err FlStore r) (\<lambda>x. x), s'))"

section \<open>Sending\<close>

record committed =
  cm_seq :: u64
  cm_lookup_key :: "byte list"
  cm_subkey :: u16
  cm_slot :: "byte list"

definition commit_closure :: "as_loaded \<Rightarrow> conversation \<Rightarrow> bool \<Rightarrow> ring \<Rightarrow> conv_state \<Rightarrow> flow_error + (unit \<times> conv_state)" where
  "commit_closure loaded conversation loaded_forced ring state =
    rbind (refuse_if_marked state) (\<lambda>_.
    rbind (as_loaded_unchanged loaded state) (\<lambda>_.
    Inr ((), (write_conversation conversation loaded_forced state)\<lparr>cs_send_seq := send_seq ring\<rparr>)))"

text \<open>Everything \<open>commit_message\<close> computes from the state it loaded.\<close>

definition prepare_message ::
  "oxi \<Rightarrow> byte list option \<Rightarrow> fill \<Rightarrow> u64 \<Rightarrow> byte list \<Rightarrow> conv_state \<Rightarrow>
   flow_error + (u64 \<times> byte list \<times> conversation \<times> ring)" where
  "prepare_message ox draw fill now body state =
    (if cs_delete_pending state then Inl DeletePending
     else if cs_awaiting_acceptance state \<or> cs_acceptance_pending state then Inl AwaitingAcceptance
     else rbind (map_err FlChannel (ring_restore (cs_send_seq state) (cs_peer_collected state))) (\<lambda>ring.
       case ring_reserve ring of
         (Inl e, _) \<Rightarrow> Inl (FlChannel e)
       | (Inr seq, ring') \<Rightarrow>
         (case seal_slot ox draw fill now body (restore (cs_conversation state)) of
            (Inl e, _) \<Rightarrow> Inl e
          | (Inr slot_bytes, conversation) \<Rightarrow> Inr (seq, slot_bytes, conversation, ring'))))"

definition commit_message ::
  "oxi \<Rightarrow> byte list option \<Rightarrow> fill \<Rightarrow> (nat \<Rightarrow> io) \<Rightarrow> (dm_store \<Rightarrow> dm_store) \<Rightarrow> correspondence_label \<Rightarrow>
   byte list \<Rightarrow> u64 \<Rightarrow> dm_store \<Rightarrow> (flow_error + committed) \<times> dm_store" where
  "commit_message ox draw fill io between peer body now s =
    (case flow_load (io 0) peer s of
       (Inl e, s1) \<Rightarrow> (Inl e, s1)
     | (Inr state, s1) \<Rightarrow>
       (case prepare_message ox draw fill now body state of
          Inl e \<Rightarrow> (Inl e, s1)
        | Inr (seq, slot_bytes, conversation, ring) \<Rightarrow>
          (case persist_outbox (io 1) peer seq slot_bytes now s1 of
             (Inl e, s2) \<Rightarrow> (Inl (FlStore e), s2)
           | (Inr _, s2) \<Rightarrow>
             (case flow_update (io 2) peer
                     (commit_closure (as_loaded_of state) conversation (stored_force state) ring) (between s2) of
                (Inl e, s3) \<Rightarrow> (Inl e, s3)
              | (Inr _, s3) \<Rightarrow>
                  (Inr \<lparr>cm_seq = seq, cm_lookup_key = cs_outgoing_lookup_key state,
                        cm_subkey = slot_for seq, cm_slot = slot_bytes\<rparr>, s3)))))"

definition send_message ::
  "oxi \<Rightarrow> byte list option \<Rightarrow> fill \<Rightarrow> (nat \<Rightarrow> io) \<Rightarrow> record_io \<Rightarrow> (dm_store \<Rightarrow> dm_store) \<Rightarrow> correspondence_label \<Rightarrow>
   byte list \<Rightarrow> u64 \<Rightarrow> dm_store \<Rightarrow> records \<Rightarrow> (flow_error + u64) \<times> dm_store \<times> records" where
  "send_message ox draw fill io rio between peer body now s net =
    (case commit_message ox draw fill io between peer body now s of
       (Inl e, s') \<Rightarrow> (Inl e, s', net)
     | (Inr c, s') \<Rightarrow>
       (case write_channel rio (cm_lookup_key c) (cm_subkey c) (cm_slot c) net of
          (Inl e, net') \<Rightarrow> (Inl e, s', net')
        | (Inr _, net') \<Rightarrow> (Inr (cm_seq c), s', net')))"

section \<open>Collecting\<close>

definition collect_closure ::
  "oxi \<Rightarrow> byte list \<Rightarrow> u64 \<Rightarrow> byte list \<Rightarrow> conv_state \<Rightarrow> flow_error + (u64 \<times> conv_state)" where
  "collect_closure ox raw seq incoming state =
    rbind (refuse_if_marked state) (\<lambda>_.
    if cs_acceptance_pending state then Inl AwaitingAcceptance
    else if cs_my_collected state \<noteq> seq \<or> cs_incoming_lookup_key state \<noteq> incoming then Inl Conflict
    else rbind (map_err FlChannel (ring_restore (cs_send_seq state) (cs_peer_collected state))) (\<lambda>fresh_ring.
      case open_ring_slot ox raw seq (restore_copy (cs_conversation state)) fresh_ring of
        (Inl e, _) \<Rightarrow> Inl e
      | (Inr (RsMessage _ _ _ _), fresh, ring) \<Rightarrow>
          (let st = (write_conversation fresh (stored_force state) state)\<lparr>cs_my_collected := seq + 1,
                      cs_peer_collected := peer_collected ring\<rparr>
           in Inr (cs_peer_collected st, st))
      | (Inr _, _) \<Rightarrow> Inl Conflict))"

definition collect_step ::
  "oxi \<Rightarrow> (nat \<Rightarrow> io) \<Rightarrow> record_io \<Rightarrow> (dm_store \<Rightarrow> dm_store) \<Rightarrow> records \<Rightarrow> correspondence_label \<Rightarrow> dm_store \<Rightarrow>
   (flow_error + ring_step) \<times> dm_store" where
  "collect_step ox io rio between net peer s =
    (case flow_load (io 0) peer s of
       (Inl e, s1) \<Rightarrow> (Inl e, s1)
     | (Inr state, s1) \<Rightarrow>
       if cs_delete_pending state then (Inl DeletePending, s1)
       else if cs_acceptance_pending state then (Inl AwaitingAcceptance, s1)
       else (case ring_restore (cs_send_seq state) (cs_peer_collected state) of
          Inl e \<Rightarrow> (Inl (FlChannel e), s1)
        | Inr ring \<Rightarrow>
          (case read_channel rio net (cs_incoming_lookup_key state) (slot_for (cs_my_collected state)) of
             Inl e \<Rightarrow> (Inl e, s1)
           | Inr None \<Rightarrow> (Inr RsEnd, s1)
           | Inr (Some raw) \<Rightarrow>
             (case open_ring_slot ox raw (cs_my_collected state) (restore (cs_conversation state)) ring of
                (Inl e, _) \<Rightarrow> (Inl e, s1)
              | (Inr (RsMessage seq sent_at body oe), _) \<Rightarrow>
                (case flow_update (io 1) peer
                        (collect_closure ox raw (cs_my_collected state) (cs_incoming_lookup_key state)) (between s1) of
                   (Inl e, s2) \<Rightarrow> (Inl e, s2)
                 | (Inr peer_cursor, s2) \<Rightarrow>
                   (case delete_outbox_through (io 2) peer peer_cursor s2 of
                      (Inl e, s3) \<Rightarrow> (Inr (RsMessage seq sent_at body (Some e)), s3)
                    | (Inr _, s3) \<Rightarrow> (Inr (RsMessage seq sent_at body oe), s3)))
              | (Inr step, _) \<Rightarrow> (Inr step, s1)))))"

text \<open>The reach and its serial are the node's own, read from the store.\<close>

definition publish_cursor ::
  "oxi \<Rightarrow> byte list option \<Rightarrow> (nat \<Rightarrow> io) \<Rightarrow> record_io \<Rightarrow> reach \<times> u64 \<Rightarrow> correspondence_label \<Rightarrow>
   dm_store \<Rightarrow> records \<Rightarrow> (flow_error + bool) \<times> dm_store \<times> records" where
  "publish_cursor ox draw io rio own_reach peer s net =
    (case flow_load (io 0) peer s of
       (Inl e, s1) \<Rightarrow> (Inl e, s1, net)
     | (Inr state, s1) \<Rightarrow>
       if cs_delete_pending state then (Inl DeletePending, s1, net)
       else if cs_acceptance_pending state then (Inl AwaitingAcceptance, s1, net)
       else if cs_my_collected state \<le> cs_cursor_published state then (Inr False, s1, net)
       else (case
           rbind (ok_or (Incomplete ''control key of its own'') (cs_own_control_key state)) (\<lambda>key.
           rbind (ok_or (Incomplete ''channel opening of its own'') (cs_own_opening state)) (\<lambda>opening_bytes.
           rbind (map_err FlChannel (opening_decode opening_bytes)) (\<lambda>opening.
           map_err FlChannel (seal_control_with_key ox draw key
             \<lparr>c_opening = Some opening, c_collected_cursor = cs_my_collected state, c_closed = False,
              c_generation = cs_generation state, c_reach = fst own_reach, c_serial = snd own_reach\<rparr>)))) of
           Inl e \<Rightarrow> (Inl e, s1, net)
         | Inr control \<Rightarrow>
           (case write_channel rio (cs_outgoing_lookup_key state) CONTROL_SUBKEY control net of
              (Inl e, net') \<Rightarrow> (Inl e, s1, net')
            | (Inr _, net') \<Rightarrow>
              (case update_conv (io 1) peer (\<lambda>st. ((),
                      st\<lparr>cs_cursor_published := max (cs_cursor_published st) (cs_my_collected state)\<rparr>)) s1 of
                 (Inl e, s2) \<Rightarrow> (Inl (FlStore e), s2, net')
               | (Inr _, s2) \<Rightarrow> (Inr True, s2, net')))))"

end
