(* ===== verification/Flow_Steps.thy ===== *)
theory Flow_Steps
  imports Flows
begin

text \<open>
  What one flow of \<^verbatim>\<open>Flows\<close> does to the store when no other writer comes between its load and its
  commit: either the conversation record stays where it was, or it becomes the one record the flow
  prepared from what it loaded (\<open>committed_conv\<close>, \<open>collected_conv\<close>).
\<close>

section \<open>What a flow reads and writes back\<close>

lemma duplicates: "own_turn_duplicate = (\<lambda>t. t)" "peer_turn_duplicate = (\<lambda>p. p)"
  by (simp_all add: own_turn_duplicate_def peer_turn_duplicate_def fun_eq_iff)

lemma restore_copy_eq: "restore_copy st = restore st"
  by (cases st; cases "sn_sending st"; cases "sn_receiving st")
    (simp add: restore_copy_def duplicates option.map_ident)

lemma snapshot_restore: "snapshot (restore st) = st"
  by (cases st; cases "sn_sending st"; cases "sn_receiving st")
    (simp add: snapshot_def restore_def duplicates option.map_ident)

lemma set_stored_force_same: "set_stored_force (stored_force st) (cs_conversation st) = cs_conversation st"
  by (simp add: set_stored_force_def stored_force_def)

lemma unchanged_same: "as_loaded_unchanged (as_loaded_of st) st = Inr ()"
  by (simp add: as_loaded_unchanged_def as_loaded_of_def set_stored_force_same)

lemma write_conversation_same:
  "write_conversation cv (stored_force st) st = st\<lparr>cs_conversation := snapshot cv\<rparr>"
  by (simp add: write_conversation_def set_stored_force_def)

lemma conversation_seal_fields:
  assumes "conversation_seal ox draw fill body dev cv = (Inr (h, c), cv')"
  shows "h_seq h = d_seq (cv_sending cv) \<and> h_cursor h = v_next_seq (cv_receiving cv) \<and>
    d_seq (cv_sending cv') = d_seq (cv_sending cv) + 1 \<and>
    v_next_seq (cv_receiving cv') = v_next_seq (cv_receiving cv)"
proof -
  obtain d' where s: "direction_seal ox draw fill (seal_input cv) body dev (with_cursor cv) = (Inr (h, c), d')"
    using assms by (auto simp: conversation_seal_eq split: prod.splits sum.splits option.splits)
  then have "h_seq h = d_seq (cv_sending cv) \<and> h_cursor h = v_next_seq (cv_receiving cv) \<and>
      d_seq d' = d_seq (cv_sending cv) + 1"
    by (auto simp: direction_seal_def Let_def result_simps set_cursor_def split: sum.splits if_splits prod.splits)
  with s assms show ?thesis
    by (auto simp: conversation_seal_eq retain_def split: option.splits)
qed

section \<open>A store's sections on a held conversation\<close>

definition conv_of :: "dm_store \<Rightarrow> correspondence_label \<Rightarrow> conv_state stored" where
  "conv_of s peer = f_conv (sto_files s peer)"

definition outbox_of :: "dm_store \<Rightarrow> correspondence_label \<Rightarrow> outbox_table" where
  "outbox_of s peer = (case held (f_outbox (sto_files s peer)) of Some t \<Rightarrow> t | None \<Rightarrow> empty_outbox)"

lemma held_finish [simp]: "held (finish_delete_of r) = held r"
  by (cases r) simp_all

lemma sto_files_set [simp]: "sto_files (set_files peer fs s) peer = fs"
  by (simp add: set_files_def)

lemma flow_load_held:
  assumes "conv_of s peer = Held st"
  shows "conv_of (snd (flow_load io peer s)) peer = Held st \<and> outbox_of (snd (flow_load io peer s)) peer = outbox_of s peer \<and>
    fst (flow_load io peer s) = (case io of IoOk \<Rightarrow> Inr st | IoFails e \<Rightarrow> Inl (FlStore (StStore e)) | IoLands e \<Rightarrow> Inl (FlStore (StStore e)))"
  using assms
  by (cases io) (simp_all add: flow_load_def load_conv_def critical_section_def read_conv_def conv_of_def outbox_of_def)

lemma persist_outbox_held:
  assumes "conv_of s peer = Held st" "persist_outbox io peer seq ct now s = (r, s')"
  shows "conv_of s' peer = Held st \<and>
    (outbox_of s' peer = outbox_of s peer \<and> r \<noteq> Inr () \<or>
     outbox_of s' peer = (outbox_of s peer)[ring_index seq := Some \<lparr>oe_seq = seq, oe_sent_at = now, oe_ciphertext = ct\<rparr>])"
  using assms
  by (auto simp: persist_outbox_def critical_section_def read_outbox_table_def conv_of_def outbox_of_def Let_def
      split: if_splits io.splits sum.splits prod.splits option.splits)

lemma flow_update_held:
  assumes "conv_of s peer = Held st" "flow_update io peer f s = (r, s')"
  shows "outbox_of s' peer = outbox_of s peer \<and>
    (conv_of s' peer = Held st \<and> (\<forall>t. r \<noteq> Inr t) \<or>
     (\<exists>t st'. f st = Inr (t, st') \<and> conv_of s' peer = Held st' \<and>
        (r = Inr t \<or> (\<exists>e. io = IoLands e \<and> r = Inl (FlStore (StStore e))))))"
  using assms
  by (cases io; cases "f st")
    (auto simp: flow_update_def try_update_conv_def critical_section_def read_conv_def conv_of_def outbox_of_def)

lemma delete_outbox_held:
  assumes "conv_of s peer = Held st" "delete_outbox_through io peer cursor s = (r, s')"
  shows "conv_of s' peer = Held st \<and>
    (outbox_of s' peer = outbox_of s peer \<or> outbox_of s' peer = map (drop_collected cursor) (outbox_of s peer))"
  using assms
  by (auto simp: delete_outbox_through_def critical_section_def conv_of_def outbox_of_def Let_def
      split: io.splits stored.splits if_splits)

section \<open>One flow with no other writer\<close>

lemma prepare_message_Inr:
  assumes "prepare_message ox draw fill now body st = Inr (seq, slot, cv, ring)"
  obtains h c where "\<not> cs_delete_pending st" "\<not> cs_awaiting_acceptance st" "\<not> cs_acceptance_pending st"
    "cs_peer_collected st \<le> cs_send_seq st" "seq = cs_send_seq st"
    "unat (cs_send_seq st) - unat (cs_peer_collected st) < 63"
    "send_seq ring = sat_add (cs_send_seq st) 1"
    "conversation_seal ox draw fill (encode_message_plaintext (sat_mul now 1000) body) 0
       (restore (cs_conversation st)) = (Inr (h, c), cv)"
    "slot = header_encode h @ c"
proof -
  from assms obtain rg where a: "\<not> cs_delete_pending st" "\<not> cs_awaiting_acceptance st" "\<not> cs_acceptance_pending st"
    and r: "(ring_restore (cs_send_seq st) (cs_peer_collected st) :: ch_error + ring) = Inr rg"
    and k: "(case (ring_reserve rg :: (ch_error + u64) \<times> ring) of
         (Inl e, _) \<Rightarrow> Inl (FlChannel e)
       | (Inr seq, ring') \<Rightarrow>
         (case seal_slot ox draw fill now body (restore (cs_conversation st)) of
            (Inl e, _) \<Rightarrow> Inl e
          | (Inr slot_bytes, conversation) \<Rightarrow> Inr (seq, slot_bytes, conversation, ring'))) = Inr (seq, slot, cv, ring)"
    by (auto simp: prepare_message_def rbind_Inr_iff map_err_Inr_iff split: if_splits)
  obtain q1 q2 where q: "(ring_reserve rg :: (ch_error + u64) \<times> ring) = (q1, q2)" by fastforce
  obtain z1 z2 where z: "seal_slot ox draw fill now body (restore (cs_conversation st)) = (z1, z2)" by fastforce
  from k q z have rv: "ring_reserve rg = (Inr seq :: ch_error + u64, ring)"
    and sl: "seal_slot ox draw fill now body (restore (cs_conversation st)) = (Inr slot, cv)"
    by (auto split: sum.splits)
  from r have rg: "rg = \<lparr>send_seq = cs_send_seq st, peer_collected = cs_peer_collected st\<rparr>"
    "cs_peer_collected st \<le> cs_send_seq st" by (auto simp: ring_restore_def split: if_splits)
  from rv rg have rs: "seq = cs_send_seq st" "send_seq ring = sat_add (cs_send_seq st) 1"
    "unat (cs_send_seq st) - unat (cs_peer_collected st) < 63"
    using full_iff [of rg] by (auto simp: ring_reserve_def split: if_splits)
  from sl obtain h c where "conversation_seal ox draw fill (encode_message_plaintext (sat_mul now 1000) body) 0
       (restore (cs_conversation st)) = (Inr (h, c), cv)" "slot = header_encode h @ c"
    by (auto simp: seal_slot_def DEVICE_ID_SINGLE_DEVICE_def split: sum.splits prod.splits)
  with a rg rs that show thesis by blast
qed

definition committed_conv :: "conv_state \<Rightarrow> conversation \<Rightarrow> ring \<Rightarrow> conv_state" where
  "committed_conv st cv ring = st\<lparr>cs_conversation := snapshot cv, cs_send_seq := send_seq ring\<rparr>"

definition owed :: "u64 \<Rightarrow> u64 \<Rightarrow> byte list \<Rightarrow> outbox_table \<Rightarrow> outbox_table" where
  "owed seq now slot t = t[ring_index seq := Some \<lparr>oe_seq = seq, oe_sent_at = now, oe_ciphertext = slot\<rparr>]"

lemma commit_closure_same:
  "commit_closure (as_loaded_of st) cv (stored_force st) ring st =
    rbind (refuse_if_marked st) (\<lambda>_. Inr ((), committed_conv st cv ring))"
  by (simp add: commit_closure_def unchanged_same write_conversation_same committed_conv_def)

lemma commit_message_cases:
  assumes h: "conv_of s peer = Held st"
    and c: "commit_message ox draw fill io (\<lambda>s. s) peer body now s = (r, s')"
  obtains (stays) "conv_of s' peer = Held st" "\<forall>c. r \<noteq> Inr c"
      "outbox_of s' peer = outbox_of s peer \<or>
       (\<exists>seq slot cv ring. prepare_message ox draw fill now body st = Inr (seq, slot, cv, ring) \<and>
          outbox_of s' peer = owed seq now slot (outbox_of s peer))"
    | (lands) seq slot cv ring where "prepare_message ox draw fill now body st = Inr (seq, slot, cv, ring)"
      "conv_of s' peer = Held (committed_conv st cv ring)"
      "outbox_of s' peer = owed seq now slot (outbox_of s peer)"
      "\<forall>c. r = Inr c \<longrightarrow> cm_seq c = seq \<and> cm_lookup_key c = cs_outgoing_lookup_key st \<and>
         cm_subkey c = slot_for seq \<and> cm_slot c = slot"
proof -
  note l = flow_load_held [OF h, of "io 0"]
  let ?s1 = "snd (flow_load (io 0) peer s)"
  show thesis
  proof (cases "fst (flow_load (io 0) peer s)")
    case (Inl e)
    then have "s' = ?s1" "r = Inl e"
      using c by (auto simp: commit_message_def split: prod.splits)
    with l stays show thesis by auto
  next
    case (Inr st0)
    then have st0: "st0 = st" using l by (auto split: io.splits)
    show thesis
    proof (cases "prepare_message ox draw fill now body st")
      case Inl: (Inl e)
      then have "s' = ?s1" "r = Inl e"
        using c Inr st0 by (auto simp: commit_message_def split: prod.splits)
      with l stays show thesis by auto
    next
      case p: (Inr q)
      obtain seq slot cv ring where q: "q = (seq, slot, cv, ring)" by (cases q)
      obtain r2 s2 where pr: "persist_outbox (io 1) peer seq slot now ?s1 = (r2, s2)" by fastforce
      have l1: "conv_of ?s1 peer = Held st" using l by simp
      note ph = persist_outbox_held [OF l1 pr]
      show thesis
      proof (cases r2)
        case e: (Inl e)
        have "s' = s2" "r = Inl (FlStore e)"
          using c Inr st0 p q pr e by (auto simp: commit_message_def split: prod.splits)
        with ph l stays p q show thesis by (auto simp: owed_def)
      next
        case u: (Inr u)
        obtain r3 s3 where up: "flow_update (io 2) peer
            (commit_closure (as_loaded_of st) cv (stored_force st) ring) s2 = (r3, s3)" by fastforce
        have s': "s' = s3" "r = (case r3 of Inl e \<Rightarrow> Inl e | Inr _ \<Rightarrow> Inr \<lparr>cm_seq = seq,
            cm_lookup_key = cs_outgoing_lookup_key st, cm_subkey = slot_for seq, cm_slot = slot\<rparr>)"
          using c Inr st0 p q pr u up by (auto simp: commit_message_def split: prod.splits sum.splits)
        have "outbox_of s2 peer = owed seq now slot (outbox_of s peer)" using ph l u by (auto simp: owed_def)
        moreover have "conv_of s2 peer = Held st" using ph by simp
        note fu = flow_update_held [OF this up]
        ultimately show thesis
          using fu s' stays lands p q
          by (auto simp: commit_closure_same result_simps split: sum.splits)
      qed
    qed
  qed
qed

definition collected_conv :: "conv_state \<Rightarrow> conversation \<Rightarrow> u64 \<Rightarrow> conv_state" where
  "collected_conv st cv cursor = st\<lparr>cs_conversation := snapshot cv, cs_my_collected := cs_my_collected st + 1,
     cs_peer_collected := peer_collected (advance_peer_collected
       \<lparr>send_seq = cs_send_seq st, peer_collected = cs_peer_collected st\<rparr> cursor)\<rparr>"

definition slot_opens :: "oxi \<Rightarrow> conv_state \<Rightarrow> byte list \<Rightarrow> message_header \<Rightarrow> conversation \<Rightarrow> u64 \<Rightarrow> byte list \<Rightarrow> bool" where
  "slot_opens ox st raw h cv t b = (\<exists>sealed pt. header_decode raw = Inr (h, sealed) \<and> h_seq h = cs_my_collected st \<and>
     conversation_open ox h sealed (restore (cs_conversation st)) = (Inr pt, cv) \<and>
     decode_message_plaintext pt = Inr (t, b))"

lemma open_ring_slot_message:
  "open_ring_slot ox raw (cs_my_collected st) (restore (cs_conversation st)) ring = (Inr (RsMessage seq t b oe), cv, ring')
   \<longleftrightarrow> (\<exists>h. slot_opens ox st raw h cv t b \<and> seq = cs_my_collected st \<and> oe = None \<and>
          ring' = advance_peer_collected ring (h_cursor h))"
  by (auto simp: open_ring_slot_def slot_opens_def split: sum.splits prod.splits if_splits)

lemma collect_closure_same:
  assumes "slot_opens ox st raw h cv t b"
  shows "collect_closure ox raw (cs_my_collected st) (cs_incoming_lookup_key st) st =
    rbind (refuse_if_marked st) (\<lambda>_. if cs_acceptance_pending st then Inl AwaitingAcceptance
      else rbind (map_err FlChannel (ring_restore (cs_send_seq st) (cs_peer_collected st))) (\<lambda>_.
        Inr (cs_peer_collected (collected_conv st cv (h_cursor h)), collected_conv st cv (h_cursor h))))"
proof -
  have o: "open_ring_slot ox raw (cs_my_collected st) (restore (cs_conversation st)) ring =
      (Inr (RsMessage (cs_my_collected st) t b None), cv, advance_peer_collected ring (h_cursor h))" for ring
    using assms open_ring_slot_message [of ox raw st ring "cs_my_collected st" t b None cv] by auto
  show ?thesis
    by (simp add: collect_closure_def restore_copy_eq o write_conversation_same collected_conv_def Let_def
        ring_restore_def)
qed

lemma collect_step_cases:
  assumes h: "conv_of s peer = Held st"
    and c: "collect_step ox io rio (\<lambda>s. s) net peer s = (r, s')"
    and io: "\<forall>e. io 1 \<noteq> IoLands e"
  obtains (stays) "conv_of s' peer = Held st" "outbox_of s' peer = outbox_of s peer"
      "\<forall>seq t b oe. r \<noteq> Inr (RsMessage seq t b oe)"
    | (takes) raw hh cv t b oe where "net (cs_incoming_lookup_key st, slot_for (cs_my_collected st)) = Some raw"
      "slot_opens ox st raw hh cv t b" "r = Inr (RsMessage (cs_my_collected st) t b oe)"
      "conv_of s' peer = Held (collected_conv st cv (h_cursor hh))"
      "outbox_of s' peer = outbox_of s peer \<or> outbox_of s' peer =
         map (drop_collected (cs_peer_collected (collected_conv st cv (h_cursor hh)))) (outbox_of s peer)"
proof -
  note l = flow_load_held [OF h, of "io 0"]
  let ?s1 = "snd (flow_load (io 0) peer s)"
  show thesis
  proof (cases "fst (flow_load (io 0) peer s) = Inr st \<and> \<not> cs_delete_pending st \<and> \<not> cs_acceptance_pending st
      \<and> (\<exists>ring raw step cv ring'. (ring_restore (cs_send_seq st) (cs_peer_collected st) :: ch_error + ring) = Inr ring \<and>
          read_channel rio net (cs_incoming_lookup_key st) (slot_for (cs_my_collected st)) = Inr (Some raw) \<and>
          (\<exists>seq t b oe. open_ring_slot ox raw (cs_my_collected st) (restore (cs_conversation st)) ring
            = (Inr (RsMessage seq t b oe), cv, ring')))")
    case False
    have "s' = ?s1 \<and> (\<forall>seq t b oe. r \<noteq> Inr (RsMessage seq t b oe))"
      using c False l
      by (auto simp: collect_step_def split: prod.splits sum.splits if_splits option.splits ring_step.splits io.splits)
    with l stays show thesis by auto
  next
    case True
    then obtain ring raw cv ring' seq t b oe where a: "fst (flow_load (io 0) peer s) = Inr st"
      "\<not> cs_delete_pending st" "\<not> cs_acceptance_pending st"
      "(ring_restore (cs_send_seq st) (cs_peer_collected st) :: ch_error + ring) = Inr ring"
      "read_channel rio net (cs_incoming_lookup_key st) (slot_for (cs_my_collected st)) = Inr (Some raw)"
      and o: "open_ring_slot ox raw (cs_my_collected st) (restore (cs_conversation st)) ring
            = (Inr (RsMessage seq t b oe), cv, ring')" by blast
    from o obtain hh where so: "slot_opens ox st raw hh cv t b" "seq = cs_my_collected st" "oe = None"
      by (auto simp: open_ring_slot_message)
    let ?st' = "collected_conv st cv (h_cursor hh)"
    have cl: "collect_closure ox raw (cs_my_collected st) (cs_incoming_lookup_key st) st = Inr (cs_peer_collected ?st', ?st')"
      using a by (simp add: collect_closure_same [OF so(1)] refuse_if_marked_def)
    obtain r2 s2 where up: "flow_update (io 1) peer
        (collect_closure ox raw (cs_my_collected st) (cs_incoming_lookup_key st)) ?s1 = (r2, s2)" by fastforce
    have l1: "conv_of ?s1 peer = Held st" using l by simp
    note fu = flow_update_held [OF l1 up]
    show thesis
    proof (cases r2)
      case (Inl e)
      have "s' = s2 \<and> r = Inl e"
        using c a o up Inl by (auto simp: collect_step_def split: prod.splits)
      with fu l io Inl cl stays show thesis by auto
    next
      case (Inr cursor)
      with fu cl io have cu: "cursor = cs_peer_collected ?st'" "conv_of s2 peer = Held ?st'"
        "outbox_of s2 peer = outbox_of s peer" using l by auto
      obtain r3 s3 where de: "delete_outbox_through (io 2) peer cursor s2 = (r3, s3)" by fastforce
      have "s' = s3 \<and> r = Inr (RsMessage seq t b (case r3 of Inl e \<Rightarrow> Some e | Inr _ \<Rightarrow> oe))"
        using c a o up Inr de by (auto simp: collect_step_def split: prod.splits sum.splits)
      moreover have "net (cs_incoming_lookup_key st, slot_for (cs_my_collected st)) = Some raw"
        using a(5) by (simp add: read_channel_def split: record_io.splits)
      ultimately show thesis
        using delete_outbox_held [OF cu(2) de] cu so takes by auto
    qed
  qed
qed

lemma collect_step_takes:
  assumes h: "conv_of s peer = Held st" and io: "io 0 = IoOk" "io 1 = IoOk" "rio = RecOk"
    and f: "\<not> cs_delete_pending st" "\<not> cs_acceptance_pending st" "cs_peer_collected st \<le> cs_send_seq st"
    and n: "net (cs_incoming_lookup_key st, slot_for (cs_my_collected st)) = Some raw"
    and o: "slot_opens ox st raw hh cv t b"
  shows "\<exists>oe. fst (collect_step ox io rio (\<lambda>s. s) net peer s) = Inr (RsMessage (cs_my_collected st) t b oe)"
proof -
  let ?s1 = "snd (flow_load (io 0) peer s)" and ?st' = "collected_conv st cv (h_cursor hh)"
  have l: "flow_load (io 0) peer s = (Inr st, ?s1)" "conv_of ?s1 peer = Held st"
    using flow_load_held [OF h, of "io 0"] io by (auto simp: prod_eq_iff)
  have rr: "(ring_restore (cs_send_seq st) (cs_peer_collected st) :: ch_error + ring)
      = Inr \<lparr>send_seq = cs_send_seq st, peer_collected = cs_peer_collected st\<rparr>"
    using f(3) by (simp add: ring_restore_def linorder_not_less)
  have op: "open_ring_slot ox raw (cs_my_collected st) (restore (cs_conversation st)) ring =
      (Inr (RsMessage (cs_my_collected st) t b None), cv, advance_peer_collected ring (h_cursor hh))" for ring
    using o open_ring_slot_message [of ox raw st ring "cs_my_collected st" t b None cv] by auto
  have cl: "collect_closure ox raw (cs_my_collected st) (cs_incoming_lookup_key st) st = Inr (cs_peer_collected ?st', ?st')"
    using f rr by (simp add: collect_closure_same [OF o] refuse_if_marked_def)
  have "\<exists>s2. flow_update (io 1) peer (collect_closure ox raw (cs_my_collected st) (cs_incoming_lookup_key st)) ?s1
      = (Inr (cs_peer_collected ?st'), s2)"
    using l(2) io cl
    by (simp add: flow_update_def try_update_conv_def critical_section_def read_conv_def conv_of_def)
  then show ?thesis
    using l(1) f rr n op io
    by (auto simp: collect_step_def read_channel_def split: prod.splits sum.splits)
qed

end
