(* ===== verification/Flow_Commit.thy ===== *)
theory Flow_Commit
  imports Flow_Steps
begin

text \<open>
  A send whose load and commit are two critical sections, with any other writer's changes between
  them (\<^verbatim>\<open>AsLoaded\<close> of \<^verbatim>\<open>dm/flows.rs\<close>).
\<close>

section \<open>Another writer in between\<close>

lemma encode_conv_cursors:
  assumes "encode_conv s = encode_conv t" "conv_wf s" "length (cs_peer_identity_pk t) = DSA_PK_LEN"
    "length (cs_outgoing_lookup_key t) = HELLO_LOOKUP_KEY_LEN" "length (cs_incoming_lookup_key t) = HELLO_LOOKUP_KEY_LEN"
  shows "cs_my_collected s = cs_my_collected t"
proof -
  from assms have "u64_be (cs_my_collected s) = u64_be (cs_my_collected t)"
    by (simp add: encode_conv_def conv_wf_def)
  then show ?thesis by (metis u64_of_be_u64_be)
qed

text \<open>
  The commit passes only a record equal to the loaded one in all but the two fields another writer may
  move: the force-turn flag, which is kept, and the published cursor.
\<close>

lemma unchanged_iff:
  assumes "conv_wf st" "conv_wf st1"
  shows "as_loaded_unchanged (as_loaded_of st) st1 = Inr () \<longleftrightarrow>
    st1\<lparr>cs_conversation := set_stored_force (stored_force st) (cs_conversation st1),
        cs_cursor_published := cs_cursor_published st\<rparr> = st"
    (is "_ \<longleftrightarrow> ?m = st")
proof
  assume "as_loaded_unchanged (as_loaded_of st) st1 = Inr ()"
  then have e: "encode_conv st = encode_conv ?m"
    by (simp add: as_loaded_unchanged_def as_loaded_of_def Let_def split: if_splits)
  then have "cs_my_collected st = cs_my_collected ?m"
    by (rule encode_conv_cursors) (use assms in \<open>simp_all add: conv_wf_def\<close>)
  then have "conv_wf ?m"
    using assms by (simp add: conv_wf_def set_stored_force_def sending_wf_def)
  with e assms encode_conv_inj show "?m = st" by metis
next
  assume "?m = st"
  then show "as_loaded_unchanged (as_loaded_of st) st1 = Inr ()"
    by (simp add: as_loaded_unchanged_def as_loaded_of_def Let_def)
qed


text \<open>
  \<open>t\<close> is the store as the other writers left it when the commit's critical section begins.
\<close>

lemma commit_message_other_writer:
  assumes h: "conv_of s peer = Held st" and t: "conv_of t peer = Held st1"
    and c: "commit_message ox draw fill io (\<lambda>_. t) peer body now s = (r, s')"
  obtains (stays) "conv_of s' peer = Held st \<or> conv_of s' peer = Held st1" "\<forall>c. r \<noteq> Inr c"
  | (lands) seq slot cv ring st' where "prepare_message ox draw fill now body st = Inr (seq, slot, cv, ring)"
      "commit_closure (as_loaded_of st) cv (stored_force st) ring st1 = Inr ((), st')"
      "conv_of s' peer = Held st'" "\<forall>c. r = Inr c \<longrightarrow> cm_seq c = seq \<and> cm_slot c = slot"
      "(\<exists>c. r = Inr c) \<or> (\<exists>e. io 2 = IoLands e)"
proof -
  note l = flow_load_held [OF h, of "io 0"]
  let ?s1 = "snd (flow_load (io 0) peer s)"
  consider e where "fst (flow_load (io 0) peer s) = Inl e" | "fst (flow_load (io 0) peer s) = Inr st"
    using l by (auto split: io.splits)
  then show thesis
  proof cases
    case 1
    then have "s' = ?s1" "r = Inl e" using c by (auto simp: commit_message_def split: prod.splits)
    with l stays show thesis by auto
  next
    case st: 2
    show thesis
    proof (cases "prepare_message ox draw fill now body st")
      case (Inl e)
      then have "s' = ?s1" "r = Inl e" using c st by (auto simp: commit_message_def split: prod.splits)
      with l stays show thesis by auto
    next
      case (Inr q)
      then obtain seq slot cv ring where p: "prepare_message ox draw fill now body st = Inr (seq, slot, cv, ring)"
        by (cases q) auto
      obtain r2 s2 where pr: "persist_outbox (io 1) peer seq slot now ?s1 = (r2, s2)" by fastforce
      show thesis
      proof (cases r2)
        case (Inl e)
        have "s' = s2" "r = Inl (FlStore e)"
          using c st p pr Inl by (auto simp: commit_message_def split: prod.splits)
        with persist_outbox_held [OF _ pr] l stays show thesis by auto
      next
        case (Inr u)
        let ?f = "commit_closure (as_loaded_of st) cv (stored_force st) ring"
        obtain r3 s3 where up: "flow_update (io 2) peer ?f t = (r3, s3)" by fastforce
        have s': "s' = s3" "r = (case r3 of Inl e \<Rightarrow> Inl e | Inr _ \<Rightarrow> Inr \<lparr>cm_seq = seq,
            cm_lookup_key = cs_outgoing_lookup_key st, cm_subkey = slot_for seq, cm_slot = slot\<rparr>)"
          using c st p pr Inr up by (auto simp: commit_message_def split: prod.splits sum.splits)
        from flow_update_held [OF t up] s' p show thesis
          by (auto intro: stays lands split: sum.splits)
      qed
    qed
  qed
qed

text \<open>
  C7. A send commits against the record it finds, not the one it loaded. Whatever other writers did
  between: either the send returns an error and the record is one that was there, or the record it
  found was the loaded one in every field but the published cursor and the force-turn flag, and the
  committed record is the found one with the new key schedule and the next sequence number, keeping the
  other writer's cursor and a force-turn flag it raised. No update is lost and no key is used twice.
\<close>

theorem commit_loses_no_update:
  assumes "conv_of s peer = Held st" "conv_of t peer = Held st1" "conv_wf st" "conv_wf st1"
    and "commit_message ox draw fill io (\<lambda>_. t) peer body now s = (r, s')"
  shows "(\<forall>c. r \<noteq> Inr c) \<and> (conv_of s' peer = Held st \<or> conv_of s' peer = Held st1) \<or>
    st1\<lparr>cs_conversation := set_stored_force (stored_force st) (cs_conversation st1),
        cs_cursor_published := cs_cursor_published st\<rparr> = st \<and>
    (\<exists>cv. conv_of s' peer = Held (st1\<lparr>cs_conversation := cv, cs_send_seq := sat_add (cs_send_seq st) 1\<rparr>) \<and>
       (stored_force st1 \<and> \<not> stored_force st \<longrightarrow> ds_force_turn (sn_sending cv))) \<and>
    (\<forall>c. r = Inr c \<longrightarrow> cm_seq c = cs_send_seq st) \<and>
    ((\<exists>c. r = Inr c) \<or> (\<exists>e. io 2 = IoLands e))"
  using assms(1,2,5)
proof (cases rule: commit_message_other_writer)
  case stays
  then show ?thesis by blast
next
  case (lands seq slot cv ring st')
  from lands(1) have q: "seq = cs_send_seq st" "send_seq ring = sat_add (cs_send_seq st) 1"
    by (rule prepare_message_Inr, simp)+
  from lands(2) have u: "as_loaded_unchanged (as_loaded_of st) st1 = Inr ()"
    and st': "st' = (write_conversation cv (stored_force st) st1)\<lparr>cs_send_seq := send_seq ring\<rparr>"
    by (auto simp: commit_closure_def rbind_Inr_iff)
  let ?cv = "set_stored_force (ds_force_turn (sn_sending (snapshot cv)) \<or> (stored_force st1 \<and> \<not> stored_force st)) (snapshot cv)"
  have e: "st' = st1\<lparr>cs_conversation := ?cv, cs_send_seq := sat_add (cs_send_seq st) 1\<rparr>"
    by (simp add: st' write_conversation_def Let_def q)
  have "stored_force st1 \<and> \<not> stored_force st \<longrightarrow> ds_force_turn (sn_sending ?cv)"
    by (simp add: set_stored_force_def)
  with u unchanged_iff [OF assms(3,4)] lands(3-5) q(1) e show ?thesis by blast
qed

definition one_conv :: "bool \<Rightarrow> dm_store" where
  "one_conv forced = \<lparr>sto_peers = [[1]], sto_files = (\<lambda>_. no_files\<lparr>f_conv :=
     Held (demo_conv\<lparr>cs_conversation := set_stored_force forced (cs_conversation demo_conv)\<rparr>)\<rparr>)\<rparr>"

lemma one_conv_wf: "conv_wf (demo_conv\<lparr>cs_conversation := set_stored_force forced (cs_conversation demo_conv)\<rparr>)"
  using demo_conv_wf by (simp add: conv_wf_def set_stored_force_def sending_wf_def)

text \<open>Another writer raises the force-turn flag between the load and the commit.\<close>

theorem commit_loses_no_update_witness:
  "let (r, s') = commit_message demo_oxi (Some (replicate 12 0)) demo_fill (\<lambda>_. IoOk) (\<lambda>_. one_conv True) [1] [104]
       1700000000 (one_conv False)
   in (\<forall>c. r \<noteq> Inr c) \<or> (\<exists>st. conv_of s' [1] = Held st \<and> stored_force st)"
proof -
  obtain r s' where c: "commit_message demo_oxi (Some (replicate 12 0)) demo_fill (\<lambda>_. IoOk) (\<lambda>_. one_conv True) [1] [104]
       1700000000 (one_conv False) = (r, s')" by fastforce
  have h: "conv_of (one_conv b) [1] = Held (demo_conv\<lparr>cs_conversation := set_stored_force b (cs_conversation demo_conv)\<rparr>)" for b
    by (simp add: conv_of_def one_conv_def)
  from commit_loses_no_update [OF h h one_conv_wf one_conv_wf c] c show ?thesis
    by (auto simp: stored_force_def set_stored_force_def)
qed

end
