(* ===== verification/Flow_Repair.thy ===== *)
theory Flow_Repair
  imports Flows
begin

text \<open>
  The repair of a conversation's own channel (\<^verbatim>\<open>rewrite_evicted\<close> of \<^verbatim>\<open>dm/runner.rs\<close>): every
  outstanding slot that the record network has lost is written again from the outbox.

  What a repair learns from outside the node is \<open>repair_env\<close>: the report of its channel's subkeys
  (or none), whether the network answers at all, whether a stop was asked for before each write, and how
  each read and write went. The reach and its serial are the node's own, read from the store.
\<close>

record subkey_report =
  sr_local_seq :: "u64 option"
  sr_network_seq :: "u64 option"
  sr_pending :: bool

definition report_at :: "subkey_report list \<Rightarrow> nat \<Rightarrow> subkey_report" where
  "report_at reports subkey =
    (if subkey < length reports then reports ! subkey
     else \<lparr>sr_local_seq = None, sr_network_seq = None, sr_pending = False\<rparr>)"

definition behind :: "subkey_report \<Rightarrow> bool" where
  "behind report =
    (if sr_pending report then False
     else case (sr_local_seq report, sr_network_seq report) of
         (_, None) \<Rightarrow> True
       | (Some local, Some network) \<Rightarrow> network < local
       | (None, Some _) \<Rightarrow> False)"

definition NO_LOOKUP_KEY :: "byte list" where "NO_LOOKUP_KEY = replicate HELLO_LOOKUP_KEY_LEN 0"

record repair_env =
  re_reports :: "subkey_report list option"
  re_answering :: bool
  re_draw :: "byte list option"
  re_reach :: "reach \<times> u64"
  re_stop_control :: bool
  re_write_control :: record_io
  re_stop :: "u64 \<Rightarrow> bool"
  re_read :: "u64 \<Rightarrow> record_io"
  re_write :: "u64 \<Rightarrow> record_io"

definition own_control :: "oxi \<Rightarrow> byte list option \<Rightarrow> conv_state \<Rightarrow> (channel_opening \<Rightarrow> control) \<Rightarrow> byte list option" where
  "own_control ox draw state build =
    (case (cs_own_control_key state, cs_own_opening state) of
       (Some key, Some opening_bytes) \<Rightarrow>
         (case opening_decode opening_bytes of
            Inl e \<Rightarrow> None
          | Inr opening \<Rightarrow> (case seal_control_with_key ox draw key (build opening) of Inl e \<Rightarrow> None | Inr c \<Rightarrow> Some c))
     | _ \<Rightarrow> None)"

definition current_control :: "oxi \<Rightarrow> byte list option \<Rightarrow> reach \<times> u64 \<Rightarrow> conv_state \<Rightarrow> byte list option" where
  "current_control ox draw own_reach state = own_control ox draw state (\<lambda>opening.
     \<lparr>c_opening = Some opening, c_collected_cursor = cs_cursor_published state, c_closed = False,
      c_generation = cs_generation state, c_reach = fst own_reach, c_serial = snd own_reach\<rparr>)"

definition dropped_but_unanswered :: "bool \<Rightarrow> subkey_report list \<Rightarrow> bool" where
  "dropped_but_unanswered answering reports =
    (if list_ex (\<lambda>r. sr_network_seq r \<noteq> None) reports then False else \<not> answering)"

definition channel_slot_holds_other_bytes :: "record_io \<Rightarrow> records \<Rightarrow> byte list \<Rightarrow> outbox_entry \<Rightarrow> bool" where
  "channel_slot_holds_other_bytes rio net lookup_key entry =
    (case read_channel rio net lookup_key (slot_for (oe_seq entry)) of
       Inr bytes \<Rightarrow> bytes \<noteq> Some (oe_ciphertext entry)
     | Inl _ \<Rightarrow> False)"

definition rewrite_slot :: "record_io \<Rightarrow> byte list \<Rightarrow> outbox_entry \<Rightarrow> records \<Rightarrow> (flow_error + unit) \<times> records" where
  "rewrite_slot rio lookup_key entry net =
    write_channel rio lookup_key (slot_for (oe_seq entry)) (oe_ciphertext entry) net"

text \<open>The loop over the outstanding entries; it returns the sequences the network holds after it.\<close>

fun rewrite_entries ::
  "repair_env \<Rightarrow> subkey_report list \<Rightarrow> conv_state \<Rightarrow> outbox_entry list \<Rightarrow> records \<Rightarrow> u64 list \<times> records" where
  "rewrite_entries env reports state [] net = ([], net)"
| "rewrite_entries env reports state (entry # entries) net =
    (if re_stop env (oe_seq entry) then ([], net)
     else let key = cs_outgoing_lookup_key state; seq = oe_seq entry;
              report = report_at reports (unat (slot_for seq));
              (r, net') = rewrite_slot (re_write env seq) key entry net
       in if \<not> behind report then
            if sr_network_seq report = None then rewrite_entries env reports state entries net
            else if seq = cs_peer_collected state \<and> \<not> sr_pending report
                    \<and> channel_slot_holds_other_bytes (re_read env seq) net key entry
            then (case r of Inl e \<Rightarrow> rewrite_entries env reports state entries net'
                  | Inr _ \<Rightarrow> (case rewrite_entries env reports state entries net' of (hs, n) \<Rightarrow> (seq # hs, n)))
            else (case rewrite_entries env reports state entries net of (hs, n) \<Rightarrow> (seq # hs, n))
          else (case r of Inl e \<Rightarrow> rewrite_entries env reports state entries net'
                | Inr _ \<Rightarrow> (case rewrite_entries env reports state entries net' of (hs, n) \<Rightarrow> (seq # hs, n))))"

definition rewrite_evicted ::
  "oxi \<Rightarrow> repair_env \<Rightarrow> conv_state \<Rightarrow> outbox_entry list \<Rightarrow> records \<Rightarrow> u64 list \<times> records" where
  "rewrite_evicted ox env state entries net =
    (let has_control = cs_own_control_key state \<noteq> None \<and> cs_own_opening state \<noteq> None
     in if cs_delete_pending state \<or> cs_outgoing_lookup_key state = NO_LOOKUP_KEY then ([], net)
        else if entries = [] \<and> \<not> has_control then ([], net)
        else (case re_reports env of None \<Rightarrow> ([], net)
          | Some reports \<Rightarrow>
            if dropped_but_unanswered (re_answering env) reports then ([], net)
            else let net' = (if has_control \<and> \<not> re_stop_control env \<and> behind (report_at reports (unat CONTROL_SUBKEY))
                   then (case current_control ox (re_draw env) (re_reach env) state of None \<Rightarrow> net
                     | Some c \<Rightarrow> snd (write_channel (re_write_control env) (cs_outgoing_lookup_key state) CONTROL_SUBKEY c net))
                   else net)
              in rewrite_entries env reports state entries net'))"

section \<open>What a repair writes\<close>

text \<open>A property of the records that each owed slot's write and the control record's keep is kept.\<close>

lemma rewrite_entries_keeps:
  assumes "P net" "\<And>e n. e \<in> set entries \<Longrightarrow> P n \<Longrightarrow>
      P (n((cs_outgoing_lookup_key state, slot_for (oe_seq e)) \<mapsto> oe_ciphertext e))"
  shows "P (snd (rewrite_entries env reports state entries net))"
  using assms
proof (induction entries arbitrary: net)
  case (Cons e es)
  have IH: "P n \<Longrightarrow> P (snd (rewrite_entries env reports state es n))" for n
    using Cons.IH Cons.prems(2) by auto
  have w: "P (snd (rewrite_slot (re_write env (oe_seq e)) (cs_outgoing_lookup_key state) e net))"
    using Cons.prems(1) Cons.prems(2) [of e net, OF _ Cons.prems(1)]
    by (cases "re_write env (oe_seq e)") (simp_all add: rewrite_slot_def write_channel_def del: fun_upd_apply)
  obtain r n where rn: "rewrite_slot (re_write env (oe_seq e)) (cs_outgoing_lookup_key state) e net = (r, n)" by fastforce
  with w have "P n" by simp
  moreover have "snd (rewrite_entries env reports state (e # es) net) \<in>
      {net, snd (rewrite_entries env reports state es net), snd (rewrite_entries env reports state es n)}"
    by (simp add: Let_def rn split: sum.split prod.split)
  ultimately show ?case using IH Cons.prems(1) by (elim insertE emptyE) (simp_all del: rewrite_entries.simps)
qed simp

lemma rewrite_evicted_keeps:
  assumes "P net" "\<And>e n. e \<in> set entries \<Longrightarrow> P n \<Longrightarrow>
      P (n((cs_outgoing_lookup_key state, slot_for (oe_seq e)) \<mapsto> oe_ciphertext e))"
    and "\<And>c n. P n \<Longrightarrow> P (n((cs_outgoing_lookup_key state, CONTROL_SUBKEY) \<mapsto> c))"
  shows "P (snd (rewrite_evicted ox env state entries net))"
proof -
  have e: "P n \<Longrightarrow> P (snd (rewrite_entries env reports state entries n))" for n reports
    using rewrite_entries_keeps [of P n entries state env reports] assms(2) by blast
  have c: "P (snd (write_channel rio (cs_outgoing_lookup_key state) CONTROL_SUBKEY c net))" for rio c
    using assms(1) assms(3) [OF assms(1), of c] by (cases rio) (simp_all add: write_channel_def del: fun_upd_apply)
  from assms(1) e c show ?thesis
    by (simp add: rewrite_evicted_def Let_def split: option.split)
qed

text \<open>With the channel's subkeys gone from the network and every write taken, every entry is written.\<close>

definition all_lost :: repair_env where
  "all_lost = \<lparr>re_reports = Some [], re_answering = True, re_draw = None,
     re_reach = (\<lparr>r_route = None, r_handle = None\<rparr>, 0), re_stop_control = True, re_write_control = RecRefused,
     re_stop = (\<lambda>_. False), re_read = (\<lambda>_. RecOk), re_write = (\<lambda>_. RecOk)\<rparr>"


lemma rewrite_entries_other:
  assumes "\<forall>e \<in> set es. slot_for (oe_seq e) \<noteq> \<sigma>"
  shows "snd (rewrite_entries env reports state es net) (k, \<sigma>) = net (k, \<sigma>)"
  using assms by (intro rewrite_entries_keeps [of "\<lambda>n. n (k, \<sigma>) = net (k, \<sigma>)"]) auto

lemma rewrite_all_lost:
  assumes "e \<in> set es" "\<forall>e' \<in> set es. slot_for (oe_seq e') = slot_for (oe_seq e) \<longrightarrow> e' = e"
  shows "snd (rewrite_entries all_lost [] state es net) (cs_outgoing_lookup_key state, slot_for (oe_seq e)) = Some (oe_ciphertext e)"
  using assms
proof (induction es arbitrary: net)
  case (Cons a es)
  let ?net = "net((cs_outgoing_lookup_key state, slot_for (oe_seq a)) \<mapsto> oe_ciphertext a)"
  have s: "snd (rewrite_entries all_lost [] state (a # es) net) = snd (rewrite_entries all_lost [] state es ?net)"
    by (simp add: all_lost_def report_at_def behind_def rewrite_slot_def write_channel_def split: prod.split)
  show ?case
  proof (cases "e \<in> set es")
    case True
    with Cons s show ?thesis by simp
  next
    case False
    with Cons.prems have "a = e" "\<forall>e' \<in> set es. slot_for (oe_seq e') \<noteq> slot_for (oe_seq e)" by auto
    with s rewrite_entries_other [of es "slot_for (oe_seq e)" all_lost "[]" state ?net] show ?thesis by simp
  qed
qed simp

lemma rewrite_evicted_all_lost:
  assumes "\<not> cs_delete_pending state" "cs_outgoing_lookup_key state \<noteq> NO_LOOKUP_KEY"
    and "e \<in> set es" "\<forall>e' \<in> set es. slot_for (oe_seq e') = slot_for (oe_seq e) \<longrightarrow> e' = e"
  shows "snd (rewrite_evicted ox all_lost state es net) (cs_outgoing_lookup_key state, slot_for (oe_seq e)) = Some (oe_ciphertext e)"
proof -
  have "es \<noteq> []" using assms(3) by auto
  with assms rewrite_all_lost [OF assms(3,4), of state net] show ?thesis
    by (simp add: rewrite_evicted_def Let_def dropped_but_unanswered_def all_lost_def)
qed

end
