(* ===== verification/Flow_Net.thy ===== *)
theory Flow_Net
  imports Flow_Steps Flow_Repair
begin

text \<open>
  The established channel end to end: two stores, the records between them, and the flows of
  \<^verbatim>\<open>dm/flows.rs\<close> as the events, with every outcome of a store section and of a record read or write.
  \<open>chan_sim\<close> relates a state to the abstract system of \<open>Chain_Sync\<close> (\<open>parties\<close>: two conversations
  and the slots in flight): each send that commits is one of its seals, each message a collection
  returns one of its deliveries, and every other outcome leaves it where it was.

  Not events of this machine: the first contact and its acceptance, a deletion, a user-triggered
  reset, and the read of the peer's control record (\<open>take_cursor\<close>), which only moves the cursor a
  message header carries too.
\<close>

section \<open>Two stores and the records between them\<close>

text \<open>
  Each side's store holds one correspondence, the other side. A side's channel is addressed by its
  key; \<open>cw_sent\<close> and \<open>cw_got\<close> log what each side committed and what a collection returned to it, as
  the sender's time and the body.

  An event is one flow with nothing between its load and its commit, and every outcome of its store
  sections and of its record read or write: a stop of the process between two acts of a flow is the
  failure of the later one, and a flow starts from the store, so a restart is nothing special.
  \<open>Repair\<close> is one run of \<open>rewrite_evicted\<close> on what a launch or the runner reads of the conversation
  (\<open>outstanding\<close>).
\<close>

definition the_peer :: correspondence_label where "the_peer = replicate 32 0"

record chan_world =
  cw_store :: "side \<Rightarrow> dm_store"
  cw_net :: records
  cw_sent :: "side \<Rightarrow> (u64 \<times> byte list) list"
  cw_got :: "side \<Rightarrow> (u64 \<times> byte list) list"

datatype flow_event =
    Send side "byte list option" fill "nat \<Rightarrow> io" record_io "byte list" u64
  | Collect side "nat \<Rightarrow> io" record_io
  | Repair side repair_env

definition next_seq :: "dm_store \<Rightarrow> u64 option" where
  "next_seq s = map_option cs_send_seq (held (conv_of s the_peer))"

fun flow_step :: "oxi \<Rightarrow> flow_event \<Rightarrow> chan_world \<Rightarrow> chan_world" where
  "flow_step ox (Send s draw fill io rio body now) w =
    (case send_message ox draw fill io rio (\<lambda>st. st) the_peer body now (cw_store w s) (cw_net w) of
       (r, st', net') \<Rightarrow> w\<lparr>cw_store := (cw_store w)(s := st'), cw_net := net',
          cw_sent := (if next_seq st' \<noteq> next_seq (cw_store w s)
                      then (cw_sent w)(s := cw_sent w s @ [(sat_mul now 1000, body)]) else cw_sent w)\<rparr>)"
| "flow_step ox (Collect s io rio) w =
    (case collect_step ox io rio (\<lambda>st. st) (cw_net w) the_peer (cw_store w s) of
       (r, st') \<Rightarrow> w\<lparr>cw_store := (cw_store w)(s := st'),
          cw_got := (case r of Inr (RsMessage _ t b _) \<Rightarrow> (cw_got w)(s := cw_got w s @ [(t, b)])
                     | _ \<Rightarrow> cw_got w)\<rparr>)"
| "flow_step ox (Repair s env) w =
    (case held (conv_of (cw_store w s) the_peer) of None \<Rightarrow> w
     | Some st \<Rightarrow> w\<lparr>cw_net := snd (rewrite_evicted ox env st
          (outstanding st (outbox_of (cw_store w s) the_peer)) (cw_net w))\<rparr>)"

text \<open>A collection whose commit landed is told so.\<close>

fun durable :: "flow_event \<Rightarrow> bool" where
  "durable (Collect s io rio) = (\<forall>e. io 1 \<noteq> IoLands e)"
| "durable e = True"

section \<open>The slots hold what the abstract system has in flight\<close>

definition nth_seq :: "nat \<Rightarrow> u64" where "nth_seq m = word_of_nat m"

definition slots_ok :: "records \<Rightarrow> byte list \<Rightarrow> nat \<Rightarrow> nat \<Rightarrow> byte list list \<Rightarrow> bool" where
  "slots_ok net k n g ws = (\<forall>\<sigma> raw. \<sigma> \<noteq> CONTROL_SUBKEY \<longrightarrow> net (k, \<sigma>) = Some raw \<longrightarrow>
     (\<exists>m h c. m < n \<and> \<sigma> = slot_for (nth_seq m) \<and> header_decode raw = Inr (h, c) \<and> h_seq h = nth_seq m \<and>
        (g \<le> m \<longrightarrow> raw = ws ! (m - g))))"

definition wire_ok :: "nat \<Rightarrow> nat \<Rightarrow> byte list list \<Rightarrow> bool" where
  "wire_ok g cur ws = (\<forall>m. g \<le> m \<longrightarrow> m < g + length ws \<longrightarrow> (\<exists>h c. header_decode (ws ! (m - g)) = Inr (h, c) \<and>
     h_seq h = nth_seq m \<and> unat (h_cursor h) \<le> cur))"

definition entry_ok :: "outbox_table \<Rightarrow> nat \<Rightarrow> byte list \<Rightarrow> bool" where
  "entry_ok tbl m raw = (\<exists>e. tbl ! ring_index (nth_seq m) = Some e \<and> oe_seq e = nth_seq m \<and> oe_ciphertext e = raw)"

definition entries_ok :: "outbox_table \<Rightarrow> nat \<Rightarrow> bool" where
  "entries_ok tbl n = (length tbl = 63 \<and> (\<forall>j e. j < 63 \<longrightarrow> tbl ! j = Some e \<longrightarrow> ring_index (oe_seq e) = j \<and>
     (unat (oe_seq e) < n \<longrightarrow> (\<exists>h c. header_decode (oe_ciphertext e) = Inr (h, c) \<and> h_seq h = oe_seq e))))"

definition outbox_ok :: "outbox_table \<Rightarrow> nat \<Rightarrow> nat \<Rightarrow> byte list list \<Rightarrow> bool" where
  "outbox_ok tbl n g ws = (entries_ok tbl n \<and>
     (\<forall>m. g \<le> m \<longrightarrow> m < g + length ws \<longrightarrow> entry_ok tbl m (ws ! (m - g))))"

definition side_ok :: "(side \<Rightarrow> byte list) \<Rightarrow> parties \<Rightarrow> side \<Rightarrow> conv_state \<Rightarrow> outbox_table \<Rightarrow> records \<Rightarrow> bool" where
  "side_ok key p s st tbl net =
    (restore (cs_conversation st) = pt_conv p s \<and>
     \<not> cs_delete_pending st \<and> \<not> cs_awaiting_acceptance st \<and> \<not> cs_acceptance_pending st \<and>
     cs_outgoing_lookup_key st = key s \<and> cs_incoming_lookup_key st = key (other s) \<and>
     unat (cs_send_seq st) = length (pt_sent p s) \<and> unat (cs_my_collected st) = length (pt_got p s) \<and>
     unat (cs_peer_collected st) \<le> length (pt_got p (other s)) \<and>
     length (pt_sent p s) \<le> unat (cs_peer_collected st) + 63 \<and>
     d_seq (cv_sending (pt_conv p s)) = cs_send_seq st \<and>
     v_next_seq (cv_receiving (pt_conv p s)) = cs_my_collected st \<and>
     wire_ok (length (pt_got p (other s))) (length (pt_got p s)) (pt_wire p s) \<and>
     outbox_ok tbl (length (pt_sent p s)) (length (pt_got p (other s))) (pt_wire p s) \<and>
     slots_ok net (key s) (length (pt_sent p s)) (length (pt_got p (other s))) (pt_wire p s))"

definition plaintext_of :: "u64 \<times> byte list \<Rightarrow> byte list" where
  "plaintext_of x = encode_message_plaintext (fst x) (snd x)"

definition parties_ok :: "oxi \<Rightarrow> (side \<Rightarrow> byte list) \<Rightarrow> parties \<Rightarrow> bool" where
  "parties_ok ox key p = (key Alice \<noteq> key Bob \<and> (\<forall>s. key s \<noteq> NO_LOOKUP_KEY) \<and> parties_synced ox p \<and> (\<forall>s. length (pt_sent p s) < 2 ^ 64) \<and>
     (\<forall>s. length (pt_sent p s) = length (pt_got p (other s)) + length (pt_wire p s)))"

definition logs_ok :: "chan_world \<Rightarrow> parties \<Rightarrow> bool" where
  "logs_ok w p = (\<forall>s. pt_sent p s = map plaintext_of (cw_sent w s) \<and> pt_got p s = map plaintext_of (cw_got w s))"

definition store_ok :: "(side \<Rightarrow> byte list) \<Rightarrow> parties \<Rightarrow> side \<Rightarrow> dm_store \<Rightarrow> records \<Rightarrow> bool" where
  "store_ok key p s sto net = (\<exists>st. conv_of sto the_peer = Held st \<and> side_ok key p s st (outbox_of sto the_peer) net)"

definition chan_sim :: "oxi \<Rightarrow> (side \<Rightarrow> byte list) \<Rightarrow> chan_world \<Rightarrow> parties \<Rightarrow> bool" where
  "chan_sim ox key w p = (parties_ok ox key p \<and> logs_ok w p \<and> (\<forall>s. store_ok key p s (cw_store w s) (cw_net w)))"

section \<open>Slots, entries and numbers\<close>

lemma unat_nth_seq: "m < 2 ^ 64 \<Longrightarrow> unat (nth_seq m) = m"
  by (simp add: unat_of_nat nth_seq_def)

lemma nth_seq_unat: "nth_seq (unat q) = q"
  by (simp add: nth_seq_def)

lemma nth_seq_Suc: "nth_seq m + 1 = nth_seq (m + 1)"
  by (simp add: nth_seq_def)

lemma ring_index_unat: "ring_index q = unat q mod 63"
  by (simp add: ring_index_def RING_SLOTS_def unat_mod_distrib)

lemma ring_index_nth: "m < 2 ^ 64 \<Longrightarrow> ring_index (nth_seq m) = m mod 63"
  by (simp add: ring_index_unat unat_nth_seq)

lemma ring_index_less: "ring_index q < 63"
  by (simp add: ring_index_unat)

lemma slot_for_ring_index: "slot_for a = slot_for b \<longleftrightarrow> ring_index a = ring_index b"
proof -
  have "slot_for a = slot_for b \<longleftrightarrow> unat (slot_for a) = unat (slot_for b)"
    by (simp add: word_unat_eq_iff)
  then show ?thesis by (simp add: unat_slot_for ring_index_unat)
qed

lemma window_index:
  assumes "ring_index (nth_seq a) = ring_index (nth_seq b)" "a \<le> b" "b < a + 63" "b < 2 ^ 64"
  shows "a = b"
proof -
  have "a mod 63 = b mod 63" using assms by (simp add: ring_index_nth)
  then have "(b - a) mod 63 = 0" using assms(2) by (simp add: mod_eq_dvd_iff_nat [symmetric])
  with assms show ?thesis by simp
qed

lemma entry_ok_owed:
  assumes "entry_ok tbl m raw" "m < n" "n < m + 63" "n < 2 ^ 64"
  shows "entry_ok (owed (nth_seq n) now slot tbl) m raw"
proof -
  have "ring_index (nth_seq m) \<noteq> ring_index (nth_seq n)" using window_index [of m n] assms by auto
  with assms(1) show ?thesis by (simp add: entry_ok_def owed_def)
qed

lemma entry_ok_owed_new: "length tbl = 63 \<Longrightarrow> entry_ok (owed (nth_seq n) now slot tbl) n slot"
  by (simp add: entry_ok_def owed_def ring_index_less)

lemma entries_ok_owed:
  assumes "entries_ok tbl n" "n < 2 ^ 64"
  shows "entries_ok (owed (nth_seq n) now slot tbl) n"
  unfolding entries_ok_def
proof (intro conjI allI impI)
  show "length (owed (nth_seq n) now slot tbl) = 63" using assms by (simp add: entries_ok_def owed_def)
next
  fix j e assume j: "j < 63" and e: "owed (nth_seq n) now slot tbl ! j = Some e"
  show "ring_index (oe_seq e) = j" "unat (oe_seq e) < n \<Longrightarrow> \<exists>h c. header_decode (oe_ciphertext e) = Inr (h, c) \<and> h_seq h = oe_seq e"
    using assms j e by (cases "j = ring_index (nth_seq n)", auto simp: entries_ok_def owed_def unat_nth_seq)+
qed

lemma entries_ok_owed_Suc:
  assumes "entries_ok tbl n" "n + 1 < 2 ^ 64" "header_decode slot = Inr (h, c)" "h_seq h = nth_seq n"
  shows "entries_ok (owed (nth_seq n) now slot tbl) (n + 1)"
  unfolding entries_ok_def
proof (intro conjI allI impI)
  show "length (owed (nth_seq n) now slot tbl) = 63" using assms by (simp add: entries_ok_def owed_def)
next
  fix j e assume j: "j < 63" and e: "owed (nth_seq n) now slot tbl ! j = Some e"
  show r: "ring_index (oe_seq e) = j"
    using assms j e by (cases "j = ring_index (nth_seq n)") (auto simp: entries_ok_def owed_def)
  show "\<exists>h c. header_decode (oe_ciphertext e) = Inr (h, c) \<and> h_seq h = oe_seq e" if lt: "unat (oe_seq e) < n + 1"
  proof (cases "j = ring_index (nth_seq n)")
    case True
    with assms j e show ?thesis by (auto simp: entries_ok_def owed_def)
  next
    case False
    with r have "unat (oe_seq e) \<noteq> n" using nth_seq_unat [of "oe_seq e"] by auto
    with lt have "unat (oe_seq e) < n" by simp
    with assms j e False show ?thesis by (auto simp: entries_ok_def owed_def)
  qed
qed

lemma outbox_ok_owed_uncommitted:
  assumes "outbox_ok tbl n g ws" "n = g + length ws" "length ws < 63" "n < 2 ^ 64"
  shows "outbox_ok (owed (nth_seq n) now slot tbl) n g ws"
  using assms by (auto simp: outbox_ok_def intro: entries_ok_owed entry_ok_owed)

lemma outbox_ok_owed_committed:
  assumes "outbox_ok tbl n g ws" "n = g + length ws" "length ws < 63" "n + 1 < 2 ^ 64"
    and "header_decode slot = Inr (h, c)" "h_seq h = nth_seq n"
  shows "outbox_ok (owed (nth_seq n) now slot tbl) (n + 1) g (ws @ [slot])"
proof -
  have l: "length tbl = 63" using assms by (simp add: outbox_ok_def entries_ok_def)
  have "entry_ok (owed (nth_seq n) now slot tbl) m ((ws @ [slot]) ! (m - g))" if m: "g \<le> m" "m < g + (length ws + 1)" for m
  proof (cases "m = n")
    case True
    with l assms(2) show ?thesis by (simp add: entry_ok_owed_new)
  next
    case False
    with m assms show ?thesis by (auto simp: outbox_ok_def nth_append intro!: entry_ok_owed)
  qed
  moreover have "entries_ok (owed (nth_seq n) now slot tbl) (n + 1)"
    using assms by (intro entries_ok_owed_Suc) (auto simp: outbox_ok_def)
  ultimately show ?thesis using assms(2) by (simp add: outbox_ok_def)
qed

lemma drop_collected_Some: "drop_collected cursor x = Some e \<Longrightarrow> x = Some e"
  by (auto simp: drop_collected_def split: option.splits if_splits)

lemma entry_ok_drop:
  assumes "entry_ok tbl m raw" "length tbl = 63" "unat cursor \<le> m" "m < 2 ^ 64"
  shows "entry_ok (map (drop_collected cursor) tbl) m raw"
  using assms
  by (auto simp: entry_ok_def ring_index_less drop_collected_def collected_def word_less_nat_alt unat_nth_seq)

lemma entries_ok_drop: "entries_ok tbl n \<Longrightarrow> entries_ok (map (drop_collected cursor) tbl) n"
  by (auto simp: entries_ok_def dest!: drop_collected_Some)

lemma outbox_ok_drop:
  assumes "outbox_ok tbl n g ws" "unat cursor \<le> g" "g + length ws < 2 ^ 64"
  shows "outbox_ok (map (drop_collected cursor) tbl) n g ws"
proof -
  have l: "length tbl = 63" using assms by (simp add: outbox_ok_def entries_ok_def)
  show ?thesis
    using assms by (auto simp: outbox_ok_def intro: entries_ok_drop intro!: entry_ok_drop [OF _ l])
qed

lemma nth_tail: "Suc g \<le> m \<Longrightarrow> ws ! (m - Suc g) = (x # ws) ! (m - g)"
  by (metis Suc_diff_le diff_Suc_Suc nth_Cons_Suc)

lemma all_tail:
  assumes "\<forall>m. g \<le> m \<longrightarrow> m < g + length (x # ws) \<longrightarrow> P m ((x # ws) ! (m - g))"
  shows "\<forall>m. g + 1 \<le> m \<longrightarrow> m < g + 1 + length ws \<longrightarrow> P m (ws ! (m - (g + 1)))"
proof (intro allI impI)
  fix m assume m: "g + 1 \<le> m" "m < g + 1 + length ws"
  have "g \<le> m" "m < g + length (x # ws)" using m by simp_all
  with assms have "P m ((x # ws) ! (m - g))" by blast
  moreover have "ws ! (m - (g + 1)) = (x # ws) ! (m - g)" using nth_tail [of g m ws x] m(1) by simp
  ultimately show "P m (ws ! (m - (g + 1)))" by simp
qed

lemma outbox_ok_tail: "outbox_ok tbl n g (x # ws) \<Longrightarrow> outbox_ok tbl n (g + 1) ws"
  unfolding outbox_ok_def by (rule conjI, blast) (rule all_tail [of g x ws "entry_ok tbl"], blast)

lemma wire_ok_tail: "wire_ok g cur (x # ws) \<Longrightarrow> wire_ok (g + 1) cur ws"
  unfolding wire_ok_def
  by (rule all_tail [of g x ws "\<lambda>m v. \<exists>h c. header_decode v = Inr (h, c) \<and> h_seq h = nth_seq m \<and> unat (h_cursor h) \<le> cur"])

lemma slots_ok_tail: "slots_ok net k n g (x # ws) \<Longrightarrow> slots_ok net k n (g + 1) ws"
  unfolding slots_ok_def using nth_tail [of g _ ws x] by (metis Suc_eq_plus1 Suc_leD)

lemma wire_ok_mono: "wire_ok g cur ws \<Longrightarrow> cur \<le> cur' \<Longrightarrow> wire_ok g cur' ws"
  unfolding wire_ok_def by (meson order_trans)

lemma wire_ok_snoc:
  "wire_ok g cur ws \<Longrightarrow> header_decode x = Inr (h, c) \<Longrightarrow> h_seq h = nth_seq (g + length ws) \<Longrightarrow>
   unat (h_cursor h) \<le> cur \<Longrightarrow> wire_ok g cur (ws @ [x])"
  unfolding wire_ok_def by (auto simp: nth_append less_Suc_eq)

lemma slots_ok_snoc:
  assumes "slots_ok net k n g ws" "n = g + length ws"
  shows "slots_ok net k (n + 1) g (ws @ [x])"
  unfolding slots_ok_def
proof (intro allI impI)
  fix \<sigma> raw assume "\<sigma> \<noteq> CONTROL_SUBKEY" "net (k, \<sigma>) = Some raw"
  with assms(1) obtain m h c where "m < n" "\<sigma> = slot_for (nth_seq m)" "header_decode raw = Inr (h, c)"
    "h_seq h = nth_seq m" "g \<le> m \<longrightarrow> raw = ws ! (m - g)" unfolding slots_ok_def by blast
  with assms(2) show "\<exists>m h c. m < n + 1 \<and> \<sigma> = slot_for (nth_seq m) \<and> header_decode raw = Inr (h, c) \<and>
      h_seq h = nth_seq m \<and> (g \<le> m \<longrightarrow> raw = (ws @ [x]) ! (m - g))"
    by (intro exI [of _ m] exI [of _ h] exI [of _ c]) (auto simp: nth_append)
qed

lemma slots_ok_write:
  assumes "slots_ok net k n g ws" "m < n" "header_decode raw = Inr (h, c)" "h_seq h = nth_seq m"
    "g \<le> m \<longrightarrow> raw = ws ! (m - g)"
  shows "slots_ok (net((k, slot_for (nth_seq m)) \<mapsto> raw)) k n g ws"
  using assms unfolding slots_ok_def by (auto split: if_splits)

lemma slots_ok_other_key: "k' \<noteq> k \<Longrightarrow> slots_ok (net((k', \<sigma>) \<mapsto> raw)) k n g ws = slots_ok net k n g ws"
  by (simp add: slots_ok_def)

section \<open>Each flow is a step of the abstract system\<close>

lemma synced_seal_wf:
  assumes law: "gcm_law ox" "kem_law ox" and i: "parties_synced ox p"
    and len: "\<forall>t. length (pt_sent p t) < 2 ^ 64" "length (pt_sent p s) + 1 < 2 ^ 64"
    and s: "conversation_seal ox draw fill body dev (pt_conv p s) = (Inr (h, c), cv')"
  shows "header_wf h"
proof -
  from i len(1) obtain q l where n: "\<forall>t. unat (d_n (cv_sending (pt_conv p t))) \<le> length (pt_sent p t)"
    and l: "leads ox (pt_conv p l) (pt_conv p (other l)) (q l) (q (other l))"
    unfolding parties_synced_def by blast
  have "unat (d_n (cv_sending (pt_conv p s))) + 1 < 2 ^ 64" using n len(2) by (meson add_le_mono1 le_less_trans)
  from leads_seal [OF law l s this] obtain l' where
    "leads ox (((pt_conv p)(s := cv')) l') (((pt_conv p)(s := cv')) (other l'))
       ((q(s := q s @ [(h, c, body)])) l') ((q(s := q s @ [(h, c, body)])) (other l'))" by blast
  from leads_header_wf [OF this] show ?thesis using side_eq_iff [of s l'] by auto
qed

lemma synced_next:
  assumes i: "parties_synced ox p" and len: "\<forall>t. length (pt_sent p t) < 2 ^ 64"
    and w: "pt_wire p (other s) = raw # rest"
  shows "\<exists>h c pt cv. header_decode raw = Inr (h, c) \<and> conversation_open ox h c (pt_conv p s) = (Inr pt, cv) \<and>
    pt = pt_sent p (other s) ! length (pt_got p s)"
proof -
  from i len obtain q l where wr: "\<forall>t. pt_wire p t = map wire (q t)"
    and bd: "\<forall>t. pt_sent p t = pt_got p (other t) @ map (\<lambda>x. snd (snd x)) (q t)"
    and l: "leads ox (pt_conv p l) (pt_conv p (other l)) (q l) (q (other l))"
    unfolding parties_synced_def by blast
  from wr w obtain x qs where "q (other s) = x # qs" "raw = wire x"
    by (metis map_eq_Cons_conv)
  then obtain h c b where q: "q (other s) = (h, c, b) # qs" "raw = header_encode h @ c"
    by (cases x) (auto simp: wire_def)
  have "header_wf h" using leads_header_wf [OF l] q side_eq_iff [of "other s" l] by auto
  then have "header_decode raw = Inr (h, c)" using q(2) header_codec.dec_enc by simp
  moreover from leads_deliver [OF l q(1)] obtain cv' where "conversation_open ox h c (pt_conv p s) = (Inr b, cv')" by blast
  moreover have "b = pt_sent p (other s) ! length (pt_got p s)" using bd [rule_format, of "other s"] q(1) by simp
  ultimately show ?thesis by blast
qed

lemma side_ok_outbox:
  "side_ok key p s st tbl net \<Longrightarrow> outbox_ok tbl' (length (pt_sent p s)) (length (pt_got p (other s))) (pt_wire p s) \<Longrightarrow>
   side_ok key p s st tbl' net"
  by (simp add: side_ok_def)

lemma side_ok_net:
  "side_ok key p s st tbl net \<Longrightarrow> slots_ok net' (key s) (length (pt_sent p s)) (length (pt_got p (other s))) (pt_wire p s) \<Longrightarrow>
   side_ok key p s st tbl net'"
  by (simp add: side_ok_def)

lemma parties_okD:
  assumes "parties_ok ox key p"
  shows "parties_synced ox p" "\<forall>s. length (pt_sent p s) < 2 ^ 64" "key s \<noteq> key (other s)"
    "length (pt_sent p s) = length (pt_got p (other s)) + length (pt_wire p s)"
proof -
  note a = assms [unfolded parties_ok_def]
  show "parties_synced ox p" "\<forall>s. length (pt_sent p s) < 2 ^ 64"
    "length (pt_sent p s) = length (pt_got p (other s)) + length (pt_wire p s)" using a by blast+
  from a have "key Alice \<noteq> key Bob" by blast
  then show "key s \<noteq> key (other s)" by (cases s) auto
qed

lemma store_ok_other_key:
  "store_ok key p t sto net \<Longrightarrow> k \<noteq> key t \<Longrightarrow> store_ok key p t sto (net((k, \<sigma>) \<mapsto> raw))"
  by (auto simp: store_ok_def side_ok_def slots_ok_other_key)

lemma key_other: "parties_ok ox key p \<Longrightarrow> t \<noteq> s \<Longrightarrow> key s \<noteq> key t"
  using parties_okD(3) [of ox key p s] side_eq_iff [of t s] by blast

lemma chan_simD:
  assumes "chan_sim ox key w p"
  shows "parties_ok ox key p" "logs_ok w p"
    "\<exists>st. conv_of (cw_store w s) the_peer = Held st \<and> side_ok key p s st (outbox_of (cw_store w s) the_peer) (cw_net w)"
  using assms by (simp_all add: chan_sim_def store_ok_def)

text \<open>The abstract state stays where only this side's store changed and its record did not.\<close>

lemma chan_sim_store:
  assumes sim: "chan_sim ox key w p" and c: "conv_of s' the_peer = Held st"
    and ok: "side_ok key p s st (outbox_of s' the_peer) (cw_net w)"
  shows "chan_sim ox key (w\<lparr>cw_store := (cw_store w)(s := s')\<rparr>) p"
  using sim c ok by (auto simp: chan_sim_def logs_ok_def store_ok_def)

lemma sim_send:
  assumes law: "gcm_law ox" "kem_law ox" and sim: "chan_sim ox key w p"
    and room: "length (pt_sent p s) + 1 < 2 ^ 64"
  shows "\<exists>p'. chan_sim ox key (flow_step ox (Send s draw fill io rio body now) w) p'"
proof -
  let ?n = "length (pt_sent p s)" and ?g = "length (pt_got p (other s))"
  obtain st where h: "conv_of (cw_store w s) the_peer = Held st"
    and ok: "side_ok key p s st (outbox_of (cw_store w s) the_peer) (cw_net w)" using chan_simD(3) [OF sim] by blast
  obtain r s' where c: "commit_message ox draw fill io (\<lambda>st. st) the_peer body now (cw_store w s) = (r, s')" by fastforce
  have len: "?n = ?g + length (pt_wire p s)" using parties_okD(4) [OF chan_simD(1) [OF sim]] .
  have pk: "parties_ok ox key p" using chan_simD(1) [OF sim] .
  have seq: "cs_send_seq st = nth_seq ?n" using ok nth_seq_unat [of "cs_send_seq st"] by (simp add: side_ok_def)
  have few: "length (pt_wire p s) < 63" if "unat (cs_send_seq st) - unat (cs_peer_collected st) < 63"
    using that ok len by (auto simp: side_ok_def)
  from h c show ?thesis
  proof (cases rule: commit_message_cases)
    case stays
    then obtain e where "r = Inl e" by (cases r) auto
    with c stays(1) h have w': "flow_step ox (Send s draw fill io rio body now) w = w\<lparr>cw_store := (cw_store w)(s := s')\<rparr>"
      by (simp add: send_message_def next_seq_def)
    have "outbox_ok (outbox_of s' the_peer) ?n ?g (pt_wire p s)"
      using stays(3)
    proof
      assume "outbox_of s' the_peer = outbox_of (cw_store w s) the_peer"
      with ok show ?thesis by (simp add: side_ok_def)
    next
      assume "\<exists>seq slot cv ring. prepare_message ox draw fill now body st = Inr (seq, slot, cv, ring) \<and>
          outbox_of s' the_peer = owed seq now slot (outbox_of (cw_store w s) the_peer)"
      then obtain q slot cv ring where pm: "prepare_message ox draw fill now body st = Inr (q, slot, cv, ring)"
        and o: "outbox_of s' the_peer = owed q now slot (outbox_of (cw_store w s) the_peer)" by blast
      from pm have "q = cs_send_seq st \<and> unat (cs_send_seq st) - unat (cs_peer_collected st) < 63"
        by (rule prepare_message_Inr) simp
      with o seq few len room ok show ?thesis
        by (simp add: outbox_ok_owed_uncommitted side_ok_def)
    qed
    with ok have "side_ok key p s st (outbox_of s' the_peer) (cw_net w)" by (rule side_ok_outbox)
    from chan_sim_store [OF sim stays(1) this] w' show ?thesis by auto
  next
    case (lands q slot cv ring)
    from lands(1) obtain hh ct where pm: "cs_peer_collected st \<le> cs_send_seq st" "q = cs_send_seq st"
      "unat (cs_send_seq st) - unat (cs_peer_collected st) < 63" "send_seq ring = sat_add (cs_send_seq st) 1"
      "slot = header_encode hh @ ct"
      and cs: "conversation_seal ox draw fill (encode_message_plaintext (sat_mul now 1000) body) 0
       (restore (cs_conversation st)) = (Inr (hh, ct), cv)"
      by (rule prepare_message_Inr)
    let ?b = "encode_message_plaintext (sat_mul now 1000) body"
    have cv: "restore (cs_conversation st) = pt_conv p s" using ok by (simp add: side_ok_def)
    let ?p = "party_seal ox s draw fill ?b 0 p"
    have p': "?p = p\<lparr>pt_conv := (pt_conv p)(s := cv), pt_wire := (pt_wire p)(s := pt_wire p s @ [slot]),
         pt_sent := (pt_sent p)(s := pt_sent p s @ [?b])\<rparr>"
      using cs cv pm(5) by (simp add: party_seal_def)
    have sy: "parties_synced ox ?p" using party_seal_synced [OF law parties_okD(1) [OF pk]] .
    have "header_wf hh" using synced_seal_wf [OF law parties_okD(1,2) [OF pk] room] cs cv by simp
    then have dec: "header_decode slot = Inr (hh, ct)" using pm(5) header_codec.dec_enc by simp
    have fld: "h_seq hh = nth_seq ?n" "unat (h_cursor hh) = length (pt_got p s)" "d_seq (cv_sending cv) = nth_seq ?n + 1"
      "v_next_seq (cv_receiving cv) = cs_my_collected st"
      using conversation_seal_fields [OF cs] ok cv seq by (simp_all add: side_ok_def)
    have nx: "send_seq ring = nth_seq (?n + 1)"
      using pm(4) seq room by (simp add: sat_add_def unat_nth_seq nth_seq_Suc)
    let ?st = "committed_conv st cv ring"
    have ok': "side_ok key ?p s ?st (outbox_of s' the_peer) (cw_net w)"
      using ok room fld few [OF pm(3)] len dec lands(3) pm(2,3) seq
      by (auto simp: side_ok_def p' committed_conv_def restore_snapshot nx unat_nth_seq nth_seq_Suc
          intro!: wire_ok_snoc outbox_ok_owed_committed [OF _ _ _ _ dec, simplified] slots_ok_snoc [simplified])
    have pk': "parties_ok ox key ?p"
      using pk sy room by (auto simp: parties_ok_def p')
    have oth: "store_ok key ?p t (cw_store w t) (cw_net w)" if "t \<noteq> s" for t
    proof -
      have "t = other s" using that side_eq_iff [of t s] by blast
      with chan_simD(3) [OF sim, of t] show ?thesis by (simp add: store_ok_def side_ok_def p')
    qed
    have wr: "slots_ok ((cw_net w)((key s, slot_for (nth_seq ?n)) \<mapsto> slot)) (key s) (?n + 1) ?g (pt_wire p s @ [slot])"
      using ok len fld(1) dec slots_ok_snoc [of "cw_net w" "key s" ?n ?g "pt_wire p s" slot]
      by (intro slots_ok_write [where h = hh and c = ct]) (simp_all add: side_ok_def)
    have nq: "next_seq s' \<noteq> next_seq (cw_store w s)"
    proof -
      have "nth_seq (?n + 1) \<noteq> nth_seq ?n" using room unat_nth_seq [of "?n + 1"] unat_nth_seq [of ?n] by auto
      then show ?thesis using h lands(2) seq nx by (simp add: next_seq_def committed_conv_def)
    qed
    let ?net = "snd (snd (send_message ox draw fill io rio (\<lambda>st. st) the_peer body now (cw_store w s) (cw_net w)))"
    let ?w = "w\<lparr>cw_store := (cw_store w)(s := s'), cw_net := ?net,
      cw_sent := (cw_sent w)(s := cw_sent w s @ [(sat_mul now 1000, body)])\<rparr>"
    have w': "flow_step ox (Send s draw fill io rio body now) w = ?w"
      using nq c by (simp add: send_message_def split: prod.split sum.split)
    have k: "cs_outgoing_lookup_key st = key s" using ok by (simp add: side_ok_def)
    have net: "?net = cw_net w \<or> ?net = (cw_net w)((key s, slot_for (nth_seq ?n)) \<mapsto> slot)"
      using c lands(4) pm(2) seq k
      by (cases r; cases rio) (simp_all add: send_message_def write_channel_def)
    have lg: "logs_ok ?w ?p"
      using chan_simD(2) [OF sim] by (auto simp: logs_ok_def p' plaintext_of_def)
    have st: "store_ok key ?p t (cw_store ?w t) ?net" for t
    proof (cases "t = s")
      case True
      from net have "side_ok key ?p s ?st (outbox_of s' the_peer) ?net"
      proof
        assume "?net = (cw_net w)((key s, slot_for (nth_seq ?n)) \<mapsto> slot)"
        with side_ok_net [OF ok'] wr show ?thesis by (simp add: p')
      qed (use ok' in simp)
      with True lands(2) show ?thesis by (auto simp: store_ok_def)
    next
      case False
      from net show ?thesis
        using oth [OF False] store_ok_other_key key_other [OF pk False] False by auto
    qed
    show ?thesis unfolding w' chan_sim_def using pk' lg st by (intro exI [of _ ?p]) simp
  qed
qed

lemma conversation_open_fields:
  assumes "conversation_open ox h c cv = (Inr b, cv')"
  shows "v_next_seq (cv_receiving cv') = v_next_seq (cv_receiving cv) + 1 \<and> cv_sending cv' = cv_sending cv"
proof -
  obtain r where r: "receiving_open ox h c (cv_receiving cv) = (Inr b, r)" "cv' = cv\<lparr>cv_receiving := r\<rparr>"
    using assms by (auto simp: conversation_open_def split: prod.splits)
  from r(1) show ?thesis by (rule receiving_openE) (use r(2) in \<open>auto simp: note_read_def split: option.split\<close>)
qed

text \<open>What lies in the slot a collector reads next can only be the first slot in flight.\<close>

lemma next_slot:
  assumes net: "slots_ok net k n g ws" and n: "n = g + length ws" "n < 2 ^ 64"
    and raw: "net (k, slot_for (nth_seq g)) = Some raw"
    and h: "header_decode raw = Inr (h, c)" "h_seq h = nth_seq g"
  obtains rest where "ws = raw # rest"
proof -
  have "slot_for (nth_seq g) \<noteq> CONTROL_SUBKEY"
    using unat_slot_for [of "nth_seq g"] by (auto simp: CONTROL_SUBKEY_def)
  with net raw obtain m h' c' where m: "m < n" "header_decode raw = Inr (h', c')" "h_seq h' = nth_seq m"
    "g \<le> m \<longrightarrow> raw = ws ! (m - g)" unfolding slots_ok_def by blast
  from m h have "nth_seq m = nth_seq g" by simp
  then have e: "unat (nth_seq m) = unat (nth_seq g)" by simp
  have "m < 2 ^ 64" "g < 2 ^ 64" using m(1) n by linarith+
  with e have "m = g" by (simp only: unat_nth_seq)
  with m(1,4) n(1) have "raw = ws ! 0" "ws \<noteq> []" by auto
  then have "ws = raw # tl ws" by (cases ws) simp_all
  then show thesis by (rule that)
qed

lemma collected_cursor:
  "unat (cs_peer_collected st) \<le> unat (cs_peer_collected (collected_conv st cv cursor)) \<and>
    (unat (cs_peer_collected st) \<le> g \<longrightarrow> unat cursor \<le> g \<longrightarrow>
     unat (cs_peer_collected (collected_conv st cv cursor)) \<le> g)"
  by (auto simp: collected_conv_def advance_peer_collected_def Let_def word_le_nat_alt word_less_nat_alt min_def)

lemma sim_collect:
  assumes law: "gcm_law ox" "kem_law ox" and sim: "chan_sim ox key w p"
    and d: "durable (Collect s io rio)"
  shows "\<exists>p' \<in> {p, party_deliver ox s p}. chan_sim ox key (flow_step ox (Collect s io rio) w) p'"
proof -
  let ?g = "length (pt_got p s)" and ?n = "length (pt_sent p (other s))"
  note pk = chan_simD(1) [OF sim]
  obtain st where h: "conv_of (cw_store w s) the_peer = Held st"
    and ok: "side_ok key p s st (outbox_of (cw_store w s) the_peer) (cw_net w)" using chan_simD(3) [OF sim] by blast
  obtain st' where h': "conv_of (cw_store w (other s)) the_peer = Held st'"
    and ok': "side_ok key p (other s) st' (outbox_of (cw_store w (other s)) the_peer) (cw_net w)"
    using chan_simD(3) [OF sim] by blast
  obtain r s' where c: "collect_step ox io rio (\<lambda>st. st) (cw_net w) the_peer (cw_store w s) = (r, s')" by fastforce
  have len: "?n = ?g + length (pt_wire p (other s))" using parties_okD(4) [OF pk, of "other s"] by simp
  have big: "?n < 2 ^ 64" using parties_okD(2) [OF pk] by blast
  have mc: "cs_my_collected st = nth_seq ?g" using ok nth_seq_unat [of "cs_my_collected st"] by (simp add: side_ok_def)
  from d have io: "\<forall>e. io 1 \<noteq> IoLands e" by simp
  from h c io show ?thesis
  proof (cases rule: collect_step_cases)
    case stays
    then have "flow_step ox (Collect s io rio) w = w\<lparr>cw_store := (cw_store w)(s := s')\<rparr>"
      using c by (auto split: sum.split ring_step.split)
    moreover have "side_ok key p s st (outbox_of s' the_peer) (cw_net w)" using ok stays by simp
    ultimately have "chan_sim ox key (flow_step ox (Collect s io rio) w) p"
      using chan_sim_store [OF sim stays(1)] by metis
    then show ?thesis by blast
  next
    case (takes raw hh cv t b oe)
    from takes(2) obtain sealed pt where so: "header_decode raw = Inr (hh, sealed)" "h_seq hh = nth_seq ?g"
      "conversation_open ox hh sealed (pt_conv p s) = (Inr pt, cv)" "pt = plaintext_of (t, b)"
      using ok mc by (auto simp: slot_opens_def side_ok_def decode_message_plaintext_iff plaintext_of_def)
    have sl: "slots_ok (cw_net w) (key (other s)) ?n ?g (pt_wire p (other s))" using ok' by (simp add: side_ok_def)
    have rd: "cw_net w (key (other s), slot_for (nth_seq ?g)) = Some raw"
      using takes(1) ok mc by (simp add: side_ok_def)
    from next_slot [OF sl len big rd so(1,2)] obtain rest where ws: "pt_wire p (other s) = raw # rest" .
    let ?p = "party_deliver ox s p"
    have p': "?p = p\<lparr>pt_conv := (pt_conv p)(s := cv), pt_wire := (pt_wire p)(other s := rest),
        pt_got := (pt_got p)(s := pt_got p s @ [pt])\<rparr>"
      using ws so by (simp add: party_deliver_def)
    have sy: "parties_synced ox ?p" using party_deliver_synced [OF parties_okD(1,2) [OF pk]] by blast
    let ?st = "collected_conv st cv (h_cursor hh)"
    note co = conversation_open_fields [OF so(3)]
    have wk: "unat (h_cursor hh) \<le> length (pt_got p (other s))"
      using ok' so(1) ws by (auto simp: side_ok_def wire_ok_def)
    have q: "unat (cs_peer_collected st) \<le> unat (cs_peer_collected ?st)"
      "unat (cs_peer_collected ?st) \<le> length (pt_got p (other s))"
      using collected_cursor [of st cv "h_cursor hh" "length (pt_got p (other s))"] wk ok
      by (auto simp: side_ok_def)
    have g1: "unat (cs_my_collected st + 1) = ?g + 1"
      using mc len big ws unat_nth_seq [of "?g + 1"] by (simp add: nth_seq_Suc)
    have ob: "outbox_ok (outbox_of s' the_peer) (length (pt_sent p s)) (length (pt_got p (other s))) (pt_wire p s)"
    proof -
      have o: "outbox_ok (outbox_of (cw_store w s) the_peer) (length (pt_sent p s)) (length (pt_got p (other s))) (pt_wire p s)"
        using ok by (simp add: side_ok_def)
      have "length (pt_got p (other s)) + length (pt_wire p s) < 2 ^ 64"
        using parties_okD(2,4) [OF pk] by metis
      from takes(5) outbox_ok_drop [OF o q(2) this] o show ?thesis by auto
    qed
    have o1: "side_ok key ?p s ?st (outbox_of s' the_peer) (cw_net w)"
      using ok q ob co g1 mc
      by (auto simp: side_ok_def p' collected_conv_def restore_snapshot intro: wire_ok_mono)
    have o2: "side_ok key ?p (other s) st' (outbox_of (cw_store w (other s)) the_peer) (cw_net w)"
      using ok' ws outbox_ok_tail wire_ok_tail slots_ok_tail
      by (auto simp: side_ok_def p')
    have pk': "parties_ok ox key ?p"
    proof -
      have "length (pt_sent ?p t) = length (pt_got ?p (other t)) + length (pt_wire ?p t)" for t
        using parties_okD(4) [OF pk, of t] ws side_eq_iff [of t s] by (auto simp: p')
      moreover have "pt_sent ?p = pt_sent p" by (simp add: p')
      moreover have "key Alice \<noteq> key Bob \<and> (\<forall>s. key s \<noteq> NO_LOOKUP_KEY)" using pk unfolding parties_ok_def by blast
      ultimately show ?thesis using parties_okD(2) [OF pk] sy unfolding parties_ok_def by metis
    qed
    let ?w = "w\<lparr>cw_store := (cw_store w)(s := s'), cw_got := (cw_got w)(s := cw_got w s @ [(t, b)])\<rparr>"
    have w': "flow_step ox (Collect s io rio) w = ?w" using c takes(3) by simp
    have "logs_ok ?w ?p" using chan_simD(2) [OF sim] so(4) by (auto simp: logs_ok_def p')
    moreover have "store_ok key ?p u (cw_store ?w u) (cw_net ?w)" for u
      using o1 o2 takes(4) h' side_eq_iff [of u s] by (auto simp: store_ok_def)
    ultimately show ?thesis unfolding w' chan_sim_def using pk' by blast
  qed
qed


text \<open>A repair puts back what the outbox owes, and only that; the control record is not a ring slot.\<close>

lemma slots_ok_control: "slots_ok (net((k, CONTROL_SUBKEY) \<mapsto> c)) k' n g ws = slots_ok net k' n g ws"
  unfolding slots_ok_def by (metis fun_upd_other prod.inject)

lemma repair_other_key:
  assumes "k' \<noteq> cs_outgoing_lookup_key st"
  shows "snd (rewrite_evicted ox env st es net) (k', \<sigma>) = net (k', \<sigma>)"
  using assms by (intro rewrite_evicted_keeps [of "\<lambda>n. n (k', \<sigma>) = net (k', \<sigma>)"]) auto

lemma set_outstanding:
  "e \<in> set (outstanding st tbl) \<longleftrightarrow> Some e \<in> set tbl \<and> \<not> cs_delete_pending st \<and>
     cs_peer_collected st \<le> oe_seq e \<and> oe_seq e < cs_send_seq st"
  by (auto simp: outstanding_def split: option.splits)

lemma entry_of_table:
  assumes "outbox_ok tbl n g ws" "n = g + length ws" "n \<le> g + 63" "n < 2 ^ 64" "Some e \<in> set tbl" "unat (oe_seq e) < n"
  shows "(\<exists>h c. header_decode (oe_ciphertext e) = Inr (h, c) \<and> h_seq h = oe_seq e) \<and>
    (g \<le> unat (oe_seq e) \<longrightarrow> oe_ciphertext e = ws ! (unat (oe_seq e) - g))"
proof -
  from assms(1,5) obtain j where j: "j < 63" "tbl ! j = Some e"
    by (auto simp: in_set_conv_nth outbox_ok_def entries_ok_def)
  with assms(1,6) have a: "ring_index (oe_seq e) = j" "\<exists>h c. header_decode (oe_ciphertext e) = Inr (h, c) \<and> h_seq h = oe_seq e"
    unfolding outbox_ok_def entries_ok_def by blast+
  have "oe_ciphertext e = ws ! (unat (oe_seq e) - g)" if "g \<le> unat (oe_seq e)"
  proof -
    have "entry_ok tbl (unat (oe_seq e)) (ws ! (unat (oe_seq e) - g))"
      using assms(1,2,6) that unfolding outbox_ok_def by simp
    with a(1) j(2) show ?thesis by (simp add: entry_ok_def nth_seq_unat)
  qed
  with a(2) show ?thesis by blast
qed

lemma sim_repair:
  assumes sim: "chan_sim ox key w p"
  shows "chan_sim ox key (flow_step ox (Repair s env) w) p"
proof -
  note pk = chan_simD(1) [OF sim]
  obtain st where h: "conv_of (cw_store w s) the_peer = Held st"
    and ok: "side_ok key p s st (outbox_of (cw_store w s) the_peer) (cw_net w)" using chan_simD(3) [OF sim] by blast
  let ?g = "length (pt_got p (other s))" and ?n = "length (pt_sent p s)"
    and ?es = "outstanding st (outbox_of (cw_store w s) the_peer)"
  let ?net = "snd (rewrite_evicted ox env st ?es (cw_net w))"
  have len: "?n = ?g + length (pt_wire p s)" using parties_okD(4) [OF pk] .
  have big: "?n < 2 ^ 64" using parties_okD(2) [OF pk] by blast
  have few: "?n \<le> ?g + 63" using ok by (simp add: side_ok_def)
  have ob: "outbox_ok (outbox_of (cw_store w s) the_peer) ?n ?g (pt_wire p s)"
    and n: "unat (cs_send_seq st) = ?n" and k: "cs_outgoing_lookup_key st = key s" using ok by (simp_all add: side_ok_def)
  have w': "flow_step ox (Repair s env) w = w\<lparr>cw_net := ?net\<rparr>" using h by simp
  have "slots_ok (net((key s, slot_for (oe_seq e)) \<mapsto> oe_ciphertext e)) (key s) ?n ?g (pt_wire p s)"
    if e: "e \<in> set ?es" and net: "slots_ok net (key s) ?n ?g (pt_wire p s)" for e net
  proof -
    from e n have "Some e \<in> set (outbox_of (cw_store w s) the_peer)" and lt: "unat (oe_seq e) < ?n"
      by (simp_all add: set_outstanding word_less_nat_alt)
    from entry_of_table [OF ob len few big this] obtain h c where
      "header_decode (oe_ciphertext e) = Inr (h, c)" "h_seq h = nth_seq (unat (oe_seq e))"
      "?g \<le> unat (oe_seq e) \<longrightarrow> oe_ciphertext e = pt_wire p s ! (unat (oe_seq e) - ?g)"
      by (auto simp: nth_seq_unat)
    from slots_ok_write [OF net lt this] show ?thesis by (simp add: nth_seq_unat)
  qed
  moreover have "slots_ok (cw_net w) (key s) ?n ?g (pt_wire p s)" using ok by (simp add: side_ok_def)
  ultimately have "slots_ok ?net (key s) ?n ?g (pt_wire p s)"
    using k slots_ok_control
    by (intro rewrite_evicted_keeps [of "\<lambda>n. slots_ok n (key s) ?n ?g (pt_wire p s)"]) (simp_all del: fun_upd_apply)
  with ok h have a: "store_ok key p s (cw_store w s) ?net" by (auto simp: store_ok_def intro: side_ok_net)
  have "store_ok key p t (cw_store w t) ?net" for t
  proof (cases "t = s")
    case False
    with key_other [OF pk False] chan_simD(3) [OF sim, of t] k show ?thesis
      by (simp add: store_ok_def side_ok_def slots_ok_def repair_other_key)
  qed (use a in simp)
  then show ?thesis using sim unfolding w' by (simp add: chan_sim_def logs_ok_def)
qed

section \<open>The machine of two stores\<close>

text \<open>
  The established channel before its first message: each side's record holds its end of the opened
  chain, the two outboxes are empty and no ring slot of either channel is written.
\<close>

definition freshly_established :: "(side \<Rightarrow> byte list) \<Rightarrow> side \<Rightarrow> conversation \<Rightarrow> conv_state \<Rightarrow> bool" where
  "freshly_established key s cv st =
    (cs_conversation st = snapshot cv \<and> \<not> cs_delete_pending st \<and> \<not> cs_awaiting_acceptance st \<and>
     \<not> cs_acceptance_pending st \<and> cs_outgoing_lookup_key st = key s \<and>
     cs_incoming_lookup_key st = key (other s) \<and> cs_send_seq st = 0 \<and> cs_peer_collected st = 0 \<and>
     cs_my_collected st = 0)"

definition channel_open :: "oxi \<Rightarrow> chan_world \<Rightarrow> bool" where
  "channel_open ox w = (\<exists>key p. parties_open ox p \<and> key Alice \<noteq> key Bob \<and> (\<forall>s. key s \<noteq> NO_LOOKUP_KEY) \<and>
     (\<forall>s. \<exists>st. conv_of (cw_store w s) the_peer = Held st \<and> freshly_established key s (pt_conv p s) st \<and>
        outbox_of (cw_store w s) the_peer = empty_outbox \<and>
        (\<forall>\<sigma>. \<sigma> \<noteq> CONTROL_SUBKEY \<longrightarrow> cw_net w (key s, \<sigma>) = None)) \<and>
     cw_sent w = (\<lambda>_. []) \<and> cw_got w = (\<lambda>_. []))"

lemma parties_open_start:
  assumes "parties_open ox p"
  shows "pt_wire p s = []" "pt_sent p s = []" "pt_got p s = []"
    "d_seq (cv_sending (pt_conv p s)) = 0 \<and> v_next_seq (cv_receiving (pt_conv p s)) = 0"
  using assms
  by (auto simp: parties_open_def initiate_def chain_accept_def result_simps fresh_direction_def
      fresh_receiving_def retain_def split: side.split)

lemma channel_open_sim:
  assumes "channel_open ox w"
  shows "\<exists>key p. chan_sim ox key w p"
proof -
  from assms obtain key p where o: "parties_open ox p" and k: "key Alice \<noteq> key Bob" "\<forall>s. key s \<noteq> NO_LOOKUP_KEY"
    and st: "\<forall>s. \<exists>st. conv_of (cw_store w s) the_peer = Held st \<and> freshly_established key s (pt_conv p s) st \<and>
        outbox_of (cw_store w s) the_peer = empty_outbox \<and>
        (\<forall>\<sigma>. \<sigma> \<noteq> CONTROL_SUBKEY \<longrightarrow> cw_net w (key s, \<sigma>) = None)"
    and l: "cw_sent w = (\<lambda>_. [])" "cw_got w = (\<lambda>_. [])" unfolding channel_open_def by blast
  note e = parties_open_start [OF o]
  have "store_ok key p s (cw_store w s) (cw_net w)" for s
  proof -
    from st obtain c where c: "conv_of (cw_store w s) the_peer = Held c" "freshly_established key s (pt_conv p s) c"
      "outbox_of (cw_store w s) the_peer = empty_outbox" "\<forall>\<sigma>. \<sigma> \<noteq> CONTROL_SUBKEY \<longrightarrow> cw_net w (key s, \<sigma>) = None" by blast
    have "side_ok key p s c empty_outbox (cw_net w)"
      using c(2,4) e
      by (simp add: side_ok_def freshly_established_def restore_snapshot wire_ok_def outbox_ok_def entries_ok_def
          empty_outbox_def RING_SLOTS_def slots_ok_def)
    with c show ?thesis by (auto simp: store_ok_def)
  qed
  moreover have "parties_ok ox key p" using k e parties_open_synced [OF o] by (simp add: parties_ok_def)
  moreover have "logs_ok w p" using l e by (simp add: logs_ok_def)
  ultimately show ?thesis unfolding chan_sim_def by blast
qed

text \<open>The second component counts the events so far; a log is never longer.\<close>

definition chan_ok :: "oxi \<times> nat \<times> chan_world \<Rightarrow> bool" where
  "chan_ok = (\<lambda>(ox, n, w). gcm_law ox \<and> kem_law ox \<and> (\<forall>s. length (cw_sent w s) \<le> n) \<and>
     (n < 2 ^ 64 \<longrightarrow> (\<exists>key p. chan_sim ox key w p)))"

definition counted_step :: "flow_event \<Rightarrow> oxi \<times> nat \<times> chan_world \<Rightarrow> oxi \<times> nat \<times> chan_world" where
  "counted_step e = (\<lambda>(ox, n, w). (ox, Suc n, if durable e then flow_step ox e w else w))"

lemma flow_step_sent_length: "length (cw_sent (flow_step ox e w) s) \<le> length (cw_sent w s) + 1"
  by (cases e) (auto split: prod.split option.split)

lemma flow_step_sim:
  assumes law: "gcm_law ox" "kem_law ox" and sim: "chan_sim ox key w p" and d: "durable e"
    and room: "\<forall>s. length (cw_sent w s) + 1 < 2 ^ 64"
  shows "\<exists>p. chan_sim ox key (flow_step ox e w) p"
proof (cases e)
  case (Send s draw fill io rio body now)
  have "length (pt_sent p s) + 1 < 2 ^ 64" using room chan_simD(2) [OF sim] by (simp add: logs_ok_def)
  from sim_send [OF law sim this] Send show ?thesis by blast
next
  case (Collect s io rio)
  with d sim_collect [OF law sim, of s io rio] show ?thesis by blast
next
  case (Repair s env)
  with sim_repair [OF sim, of s env] show ?thesis by blast
qed

interpretation channel_run: machine
  "\<lambda>(ox, n, w). gcm_law ox \<and> kem_law ox \<and> n = 0 \<and> channel_open ox w" counted_step chan_ok
proof unfold_locales
  fix x :: "oxi \<times> nat \<times> chan_world" assume "case x of (ox, n, w) \<Rightarrow> gcm_law ox \<and> kem_law ox \<and> n = 0 \<and> channel_open ox w"
  then show "chan_ok x" by (auto simp: chan_ok_def channel_open_sim) (auto simp: channel_open_def)
next
  fix x e assume i: "chan_ok x"
  obtain ox n w where x: "x = (ox, n, w)" by (cases x)
  have l: "length (cw_sent (if durable e then flow_step ox e w else w) s) \<le> Suc n" for s
    using i flow_step_sent_length [of ox e w s] x by (auto simp: chan_ok_def intro: le_trans)
  have "\<exists>key p. chan_sim ox key (if durable e then flow_step ox e w else w) p" if n: "Suc n < 2 ^ 64"
  proof -
    from n i x obtain key p where sim: "chan_sim ox key w p" and law: "gcm_law ox" "kem_law ox"
      unfolding chan_ok_def by auto
    have "length (cw_sent w s) + 1 < 2 ^ 64" for s
      using i x n unfolding chan_ok_def by (auto intro: le_less_trans)
    then show ?thesis using flow_step_sim [OF law sim, of e] sim by (cases "durable e") (simp_all, blast+)
  qed
  with l i x show "chan_ok (counted_step e x)" by (simp add: chan_ok_def counted_step_def)
qed

lemma fold_counted:
  "\<forall>e \<in> set es. durable e \<Longrightarrow> fold counted_step es (ox, n, w) = (ox, n + length es, fold (flow_step ox) es w)"
  by (induction es arbitrary: n w) (simp_all add: counted_step_def)

lemma channel_run_sim:
  assumes "gcm_law ox" "kem_law ox" "channel_open ox w" "\<forall>e \<in> set es. durable e" "length es < 2 ^ 64"
  shows "\<exists>key p. chan_sim ox key (fold (flow_step ox) es w) p"
  using channel_run.inv_run [of "(ox, 0, w)" es] assms by (simp add: fold_counted chan_ok_def)

section \<open>What is owed is delivered\<close>

lemma decode_plaintext_of: "decode_message_plaintext (plaintext_of x) = Inr x"
  by (cases x) (simp add: plaintext_of_def decode_message_plaintext_iff)

lemma plaintext_of_inj: "inj plaintext_of"
  by (rule inj_on_inverseI [of _ "\<lambda>p. case decode_message_plaintext p of Inr x \<Rightarrow> x"])
    (simp add: decode_plaintext_of)

lemma chan_prefix:
  assumes "chan_sim ox key w p"
  shows "\<exists>rest. cw_sent w (other s) = cw_got w s @ rest"
proof -
  from assms have l: "pt_sent p (other s) = map plaintext_of (cw_sent w (other s))"
    "pt_got p s = map plaintext_of (cw_got w s)" by (simp_all add: chan_sim_def logs_ok_def)
  from synced_prefix [OF parties_okD(1,2) [OF chan_simD(1) [OF assms]], of s] l
  obtain rest where "map plaintext_of (cw_sent w (other s)) = map plaintext_of (cw_got w s) @ rest" by auto
  then obtain us vs where u: "cw_sent w (other s) = us @ vs" "map plaintext_of (cw_got w s) = map plaintext_of us"
    unfolding map_eq_append_conv by blast
  from u(2) have "cw_got w s = us" by (simp only: inj_map_eq_map [OF plaintext_of_inj])
  with u(1) show ?thesis by blast
qed

text \<open>Every slot in flight to \<open>s\<close> is on the network.\<close>

definition all_on_net :: "(side \<Rightarrow> byte list) \<Rightarrow> parties \<Rightarrow> side \<Rightarrow> records \<Rightarrow> bool" where
  "all_on_net key p s net = (\<forall>m. length (pt_got p s) \<le> m \<longrightarrow> m < length (pt_sent p (other s)) \<longrightarrow>
     net (key (other s), slot_for (nth_seq m)) = Some (pt_wire p (other s) ! (m - length (pt_got p s))))"

lemma repair_all_on_net:
  assumes sim: "chan_sim ox key w p"
  shows "all_on_net key p s (cw_net (flow_step ox (Repair (other s) all_lost) w))"
proof -
  let ?o = "other s"
  obtain st where h: "conv_of (cw_store w ?o) the_peer = Held st"
    and ok: "side_ok key p ?o st (outbox_of (cw_store w ?o) the_peer) (cw_net w)" using chan_simD(3) [OF sim] by blast
  let ?tbl = "outbox_of (cw_store w ?o) the_peer" and ?g = "length (pt_got p s)" and ?n = "length (pt_sent p ?o)"
  have len: "?n = ?g + length (pt_wire p ?o)" using parties_okD(4) [OF chan_simD(1) [OF sim], of ?o] by simp
  have big: "?n < 2 ^ 64" using parties_okD(2) [OF chan_simD(1) [OF sim]] by blast
  have ob: "outbox_ok ?tbl ?n ?g (pt_wire p ?o)" using ok by (simp add: side_ok_def)
  have net: "cw_net (flow_step ox (Repair ?o all_lost) w) =
      snd (rewrite_evicted ox all_lost st (outstanding st ?tbl) (cw_net w))"
    using h by simp
  have k: "cs_outgoing_lookup_key st = key ?o" "cs_outgoing_lookup_key st \<noteq> NO_LOOKUP_KEY" "\<not> cs_delete_pending st"
    using ok chan_simD(1) [OF sim] unfolding parties_ok_def by (simp_all add: side_ok_def)
  have "snd (rewrite_evicted ox all_lost st (outstanding st ?tbl) (cw_net w)) (key ?o, slot_for (nth_seq m))
      = Some (pt_wire p ?o ! (m - ?g))" if m: "?g \<le> m" "m < ?n" for m
  proof -
    from ob m len obtain e where e: "?tbl ! ring_index (nth_seq m) = Some e" "oe_seq e = nth_seq m"
      "oe_ciphertext e = pt_wire p ?o ! (m - ?g)" unfolding outbox_ok_def entry_ok_def by auto
    have tl: "length ?tbl = 63" using ob by (simp add: outbox_ok_def entries_ok_def)
    have um: "unat (nth_seq m) = m" using m big by (simp add: unat_nth_seq)
    have "Some e \<in> set ?tbl" using e(1) tl ring_index_less nth_mem by metis
    then have mem: "e \<in> set (outstanding st ?tbl)"
      using ok m e(2) um by (simp add: set_outstanding side_ok_def word_le_nat_alt word_less_nat_alt)
    have "e' = e" if e': "e' \<in> set (outstanding st ?tbl)" "slot_for (oe_seq e') = slot_for (oe_seq e)" for e'
    proof -
      from e'(1) have "Some e' \<in> set ?tbl" by (simp add: set_outstanding)
      then obtain j where j: "j < 63" "?tbl ! j = Some e'" using tl by (metis in_set_conv_nth)
      with ob have "ring_index (oe_seq e') = j" unfolding outbox_ok_def entries_ok_def by blast
      with j(2) e(1,2) e'(2) show "e' = e" by (simp add: slot_for_ring_index)
    qed
    with rewrite_evicted_all_lost [OF k(3,2) mem, of ox "cw_net w"] e k(1) show ?thesis by simp
  qed
  then show ?thesis unfolding net all_on_net_def by blast
qed


abbreviation good_collect :: "side \<Rightarrow> flow_event" where
  "good_collect s \<equiv> Collect s (\<lambda>_. IoOk) RecOk"

lemma good_collect_takes:
  assumes law: "gcm_law ox" "kem_law ox" and sim: "chan_sim ox key w p" and on: "all_on_net key p s (cw_net w)"
    and some: "length (cw_got w s) < length (cw_sent w (other s))"
  shows "\<exists>p'. chan_sim ox key (flow_step ox (good_collect s) w) p' \<and> all_on_net key p' s (cw_net w) \<and>
    length (cw_got (flow_step ox (good_collect s) w) s) = length (cw_got w s) + 1"
proof -
  note pk = chan_simD(1) [OF sim]
  obtain st where h: "conv_of (cw_store w s) the_peer = Held st"
    and ok: "side_ok key p s st (outbox_of (cw_store w s) the_peer) (cw_net w)" using chan_simD(3) [OF sim] by blast
  let ?g = "length (pt_got p s)"
  have lg: "pt_sent p (other s) = map plaintext_of (cw_sent w (other s))" "?g = length (cw_got w s)"
    using chan_simD(2) [OF sim] by (simp_all add: logs_ok_def)
  with some have lt: "?g < length (pt_sent p (other s))" by simp
  obtain raw rest where ws: "pt_wire p (other s) = raw # rest"
    using parties_okD(4) [OF pk, of "other s"] lt by (cases "pt_wire p (other s)") auto
  from synced_next [OF parties_okD(1,2) [OF pk] ws] obtain hh c pt cv where o: "header_decode raw = Inr (hh, c)"
    "conversation_open ox hh c (pt_conv p s) = (Inr pt, cv)" "pt = plaintext_of (cw_sent w (other s) ! ?g)"
    using lg lt by auto
  have mc: "cs_my_collected st = nth_seq ?g" using ok nth_seq_unat [of "cs_my_collected st"] by (simp add: side_ok_def)
  have "h_seq hh = nth_seq ?g"
    using chan_simD(3) [OF sim, of "other s"] ws o(1) by (auto simp: side_ok_def wire_ok_def)
  then have so: "slot_opens ox st raw hh cv (fst (cw_sent w (other s) ! ?g)) (snd (cw_sent w (other s) ! ?g))"
    using o mc ok by (auto simp: slot_opens_def side_ok_def decode_plaintext_of)
  have rd: "cw_net w (cs_incoming_lookup_key st, slot_for (cs_my_collected st)) = Some raw"
    using on lt ws ok mc by (simp add: all_on_net_def side_ok_def)
  have "\<exists>oe. fst (collect_step ox (\<lambda>_. IoOk) RecOk (\<lambda>st. st) (cw_net w) the_peer (cw_store w s)) =
      Inr (RsMessage (cs_my_collected st) (fst (cw_sent w (other s) ! ?g)) (snd (cw_sent w (other s) ! ?g)) oe)"
    using ok rd so parties_okD(4) [OF pk, of s]
    by (intro collect_step_takes [OF h]) (auto simp: side_ok_def word_le_nat_alt)
  then have got: "length (cw_got (flow_step ox (good_collect s) w) s) = length (cw_got w s) + 1"
    by (auto split: prod.split)
  from sim_collect [OF law sim, of s "\<lambda>_. IoOk" RecOk] obtain p' where
    p': "p' \<in> {p, party_deliver ox s p}" "chan_sim ox key (flow_step ox (good_collect s) w) p'" by auto
  have "length (pt_got p' s) = ?g + 1" using chan_simD(2) [OF p'(2)] got lg by (simp add: logs_ok_def)
  with p'(1) have "p' = party_deliver ox s p" by auto
  then have e: "p' = p\<lparr>pt_conv := (pt_conv p)(s := cv), pt_wire := (pt_wire p)(other s := rest),
        pt_got := (pt_got p)(s := pt_got p s @ [pt])\<rparr>"
    using ws o by (simp add: party_deliver_def)
  have "all_on_net key p' s (cw_net w)"
    using on ws unfolding all_on_net_def e by (auto simp: nth_tail dest: Suc_leD)
  with p'(2) got show ?thesis by blast
qed

lemma collect_net: "cw_net (flow_step ox (Collect s io rio) w) = cw_net w"
  "cw_sent (flow_step ox (Collect s io rio) w) = cw_sent w"
  by (simp_all split: prod.split)

lemma drain_channel:
  assumes law: "gcm_law ox" "kem_law ox" and "chan_sim ox key w p" "all_on_net key p s (cw_net w)"
    and "k = length (cw_sent w (other s)) - length (cw_got w s)"
  shows "cw_got (fold (flow_step ox) (replicate k (good_collect s)) w) s = cw_sent w (other s)"
  using assms(3-)
proof (induction k arbitrary: w p)
  case 0
  have "cw_sent w (other s) = cw_got w s @ rest \<Longrightarrow> rest = []" for rest using 0(3) by simp
  with chan_prefix [OF 0(1), of s] show ?case by fastforce
next
  case (Suc k)
  have "length (cw_got w s) < length (cw_sent w (other s))" using Suc.prems(3) by simp
  from good_collect_takes [OF law Suc.prems(1,2) this] obtain p' where
    p': "chan_sim ox key (flow_step ox (good_collect s) w) p'" "all_on_net key p' s (cw_net w)"
    "length (cw_got (flow_step ox (good_collect s) w) s) = length (cw_got w s) + 1" by blast
  have "cw_got (fold (flow_step ox) (replicate k (good_collect s)) (flow_step ox (good_collect s) w)) s
      = cw_sent (flow_step ox (good_collect s) w) (other s)"
    using p' Suc.prems(3) by (intro Suc.IH [OF p'(1)]) (simp_all only: collect_net)
  then show ?case by (simp only: replicate_Suc fold_Cons comp_apply collect_net)
qed


section \<open>Properties\<close>


definition demo_store :: "side \<Rightarrow> dm_store" where
  "demo_store s = \<lparr>sto_peers = [the_peer], sto_files = (\<lambda>_. no_files)(the_peer := no_files\<lparr>f_conv :=
     Held (demo_conv\<lparr>cs_conversation := snapshot (pt_conv demo_parties s), cs_send_seq := 0,
       cs_peer_collected := 0, cs_my_collected := 0,
       cs_outgoing_lookup_key := replicate 32 (if s = Alice then 2 else 3),
       cs_incoming_lookup_key := replicate 32 (if s = Alice then 3 else 2)\<rparr>)\<rparr>)\<rparr>"

definition demo_channel :: chan_world where
  "demo_channel = \<lparr>cw_store = demo_store, cw_net = (\<lambda>_. None), cw_sent = (\<lambda>_. []), cw_got = (\<lambda>_. [])\<rparr>"

definition demo_send :: "side \<Rightarrow> byte \<Rightarrow> (nat \<Rightarrow> io) \<Rightarrow> record_io \<Rightarrow> flow_event" where
  "demo_send s x io rio = Send s (Some (replicate 12 0)) demo_fill io rio [x] 1700000000"

definition demo_flows :: "flow_event list" where
  "demo_flows = [demo_send Alice 1 (\<lambda>_. IoOk) RecOk, good_collect Bob, demo_send Bob 2 (\<lambda>_. IoOk) RecRefused,
     demo_send Bob 3 (\<lambda>i. if i = 2 then IoFails DmIo else IoOk) RecOk, good_collect Alice]"

lemma demo_channel_open: "channel_open demo_oxi demo_channel"
  unfolding channel_open_def
proof (intro exI conjI allI)
  show "parties_open demo_oxi demo_parties" by (rule demo_open)
  show "(\<lambda>s. replicate 32 (if s = Alice then 2 else 3 :: byte)) Alice \<noteq> (\<lambda>s. replicate 32 (if s = Alice then 2 else 3)) Bob" by simp
next
  show "(\<lambda>s. replicate 32 (if s = Alice then 2 else 3 :: byte)) s \<noteq> NO_LOOKUP_KEY" for s
    by (simp add: NO_LOOKUP_KEY_def HELLO_LOOKUP_KEY_LEN_def)
next
  fix s
  show "conv_of (cw_store demo_channel s) the_peer = Held (demo_conv\<lparr>cs_conversation := snapshot (pt_conv demo_parties s),
      cs_send_seq := 0, cs_peer_collected := 0, cs_my_collected := 0,
      cs_outgoing_lookup_key := replicate 32 (if s = Alice then 2 else 3), cs_incoming_lookup_key := replicate 32 (if s = Alice then 3 else 2)\<rparr>)"
    by (simp add: conv_of_def demo_channel_def demo_store_def no_files_def)
  show "freshly_established (\<lambda>s. replicate 32 (if s = Alice then 2 else 3)) s (pt_conv demo_parties s)
     (demo_conv\<lparr>cs_conversation := snapshot (pt_conv demo_parties s), cs_send_seq := 0, cs_peer_collected := 0,
      cs_my_collected := 0, cs_outgoing_lookup_key := replicate 32 (if s = Alice then 2 else 3),
      cs_incoming_lookup_key := replicate 32 (if s = Alice then 3 else 2)\<rparr>)"
    by (cases s) (simp_all add: freshly_established_def demo_conv_def)
qed (simp_all add: demo_channel_def demo_store_def no_files_def outbox_of_def)


end
