(* ===== verification/First_Contact.thy ===== *)
theory First_Contact
  imports Flows
begin

text \<open>
  The first contact of \<^verbatim>\<open>dm/flows.rs\<close>: open a conversation with someone offline, scan the own drop,
  accept a request, recognise an acceptance, and carry each of them on from the stored record alone.

  A flow acts on this side's store and the record network (\<open>flow_world\<close>) and stops at its first error.
  What it meets on the way is its environment (\<open>flow_env\<close>): each call site has a number, and the
  environment says by that number how the store section or the record operation went, what other writers
  did to the store just before it, what others wrote into the drops, which anyone can write, and what the
  entropy sources drew. The library's open and create of a
  channel record is a function of the owner seed, because the record's address is.
\<close>

section \<open>The world of a flow\<close>

record acceptance_writes =
  aw_peer :: correspondence_label
  aw_lookup_key :: "byte list"
  aw_control :: "byte list"
  aw_reply_subkey :: u16
  aw_reply :: "byte list"
  aw_hello_slot :: u16
  aw_hello :: "byte list"
  aw_answer :: "byte list"

text \<open>A drop or an advert is addressed by its owner seed; \<open>nt_offered\<close> logs what was offered directly.\<close>

type_synonym drops = "byte list \<times> u16 \<Rightarrow> byte list option"

record network =
  nt_channel :: records
  nt_drop :: drops
  nt_advert :: "byte list \<Rightarrow> byte list option"
  nt_offered :: "acceptance_writes list"

record flow_world =
  fw_store :: dm_store
  fw_net :: network

record flow_env =
  fe_ox :: oxi
  fe_io :: "nat \<Rightarrow> io"
  fe_between :: "nat \<Rightarrow> dm_store \<Rightarrow> dm_store"
  fe_rec :: "nat \<Rightarrow> record_io"
  fe_writers :: "nat \<Rightarrow> drops \<Rightarrow> drops"
  fe_fill :: "nat \<Rightarrow> fill"
  fe_draw :: "nat \<Rightarrow> byte list option"
  fe_channel_key :: "byte list \<Rightarrow> byte list"
  fe_label :: "correspondence_label option"
  fe_reach :: "reach \<times> u64"

record me =
  me_signer :: sign_keypair
  me_channel_root :: "byte list"

type_synonym 'a flow = "flow_world \<Rightarrow> (flow_error + 'a) \<times> flow_world"

definition fret :: "'a \<Rightarrow> 'a flow" where "fret a w = (Inr a, w)"

definition ffail :: "flow_error \<Rightarrow> 'a flow" where "ffail e w = (Inl e, w)"

definition flift :: "flow_error + 'a \<Rightarrow> 'a flow" where "flift r w = (r, w)"

definition fbind :: "'a flow \<Rightarrow> ('a \<Rightarrow> 'b flow) \<Rightarrow> 'b flow" where
  "fbind m f w = (case m w of (Inl e, w') \<Rightarrow> (Inl e, w') | (Inr a, w') \<Rightarrow> f a w')"

definition at_store ::
  "flow_env \<Rightarrow> nat \<Rightarrow> (io \<Rightarrow> dm_store \<Rightarrow> (flow_error + 'a) \<times> dm_store) \<Rightarrow> 'a flow" where
  "at_store env i op w =
    (case op (fe_io env i) (fe_between env i (fw_store w)) of (r, s) \<Rightarrow> (r, w\<lparr>fw_store := s\<rparr>))"

definition at_records :: "flow_env \<Rightarrow> nat \<Rightarrow> (network \<Rightarrow> 'a \<times> network) \<Rightarrow> 'a flow" where
  "at_records env i op w =
    (case fe_rec env i of RecRefused \<Rightarrow> (Inl FlRecords, w)
     | RecOk \<Rightarrow> (case op (fw_net w) of (a, net) \<Rightarrow> (Inr a, w\<lparr>fw_net := net\<rparr>)))"

text \<open>A drop changes between two operations; a channel or an advert is written by its owner only.\<close>

definition at_drop :: "flow_env \<Rightarrow> nat \<Rightarrow> (drops \<Rightarrow> 'a \<times> drops) \<Rightarrow> 'a flow" where
  "at_drop env i op = at_records env i (\<lambda>net. case op (fe_writers env i (nt_drop net)) of (a, d) \<Rightarrow> (a, net\<lparr>nt_drop := d\<rparr>))"

section \<open>The record operations\<close>

definition rec_read_advert :: "flow_env \<Rightarrow> nat \<Rightarrow> byte list \<Rightarrow> byte list option flow" where
  "rec_read_advert env i owner = at_records env i (\<lambda>net. (nt_advert net owner, net))"

definition rec_read_drop_slot :: "flow_env \<Rightarrow> nat \<Rightarrow> byte list \<Rightarrow> u16 \<Rightarrow> byte list option flow" where
  "rec_read_drop_slot env i owner slot = at_drop env i (\<lambda>d. (d (owner, slot), d))"

definition rec_write_drop_slot :: "flow_env \<Rightarrow> nat \<Rightarrow> byte list \<Rightarrow> u16 \<Rightarrow> byte list \<Rightarrow> unit flow" where
  "rec_write_drop_slot env i owner slot bytes =
    at_drop env i (\<lambda>d. ((), d((owner, slot) \<mapsto> bytes)))"

definition rec_erase_drop_slot :: "flow_env \<Rightarrow> nat \<Rightarrow> byte list \<Rightarrow> u16 \<Rightarrow> unit flow" where
  "rec_erase_drop_slot env i owner slot =
    at_drop env i (\<lambda>d. ((), d((owner, slot) := None)))"

definition rec_open_channel :: "flow_env \<Rightarrow> nat \<Rightarrow> byte list \<Rightarrow> byte list flow" where
  "rec_open_channel env i owner = at_records env i (\<lambda>net. (fe_channel_key env owner, net))"

definition rec_read_channel :: "flow_env \<Rightarrow> nat \<Rightarrow> byte list \<Rightarrow> u16 \<Rightarrow> byte list option flow" where
  "rec_read_channel env i lookup_key subkey = at_records env i (\<lambda>net. (nt_channel net (lookup_key, subkey), net))"

definition rec_write_channel :: "flow_env \<Rightarrow> nat \<Rightarrow> byte list \<Rightarrow> u16 \<Rightarrow> byte list \<Rightarrow> unit flow" where
  "rec_write_channel env i lookup_key subkey bytes =
    at_records env i (\<lambda>net. ((), net\<lparr>nt_channel := (nt_channel net)((lookup_key, subkey) \<mapsto> bytes)\<rparr>))"

definition rec_offer_acceptance :: "acceptance_writes \<Rightarrow> unit flow" where
  "rec_offer_acceptance a w = (Inr (), w\<lparr>fw_net := (fw_net w)\<lparr>nt_offered := nt_offered (fw_net w) @ [a]\<rparr>\<rparr>)"

datatype batch_write =
    BwChannel "byte list" u16 "byte list"
  | BwEraseDropSlot "byte list" u16

fun batch_one :: "flow_env \<Rightarrow> nat \<Rightarrow> batch_write \<Rightarrow> unit flow" where
  "batch_one env i (BwChannel lookup_key subkey bytes) = rec_write_channel env i lookup_key subkey bytes"
| "batch_one env i (BwEraseDropSlot owner slot) = rec_erase_drop_slot env i owner slot"

text \<open>The default \<open>write_batch\<close>: in order, stopping at the first failure.\<close>

fun write_all :: "flow_env \<Rightarrow> nat \<Rightarrow> batch_write list \<Rightarrow> unit flow" where
  "write_all env i [] = fret ()"
| "write_all env i (b # bs) = fbind (batch_one env i b) (\<lambda>_. write_all env (Suc i) bs)"

section \<open>The store operations\<close>

definition store_load :: "io \<Rightarrow> dm_store \<Rightarrow> (store_error + loaded_conv list) \<times> dm_store" where
  "store_load io s =
    (case io of
       IoFails e \<Rightarrow> (Inl (StStore e), s)
     | IoOk \<Rightarrow> (case load_all (sto_peers s) s of (cs, s') \<Rightarrow> (Inr cs, s'))
     | IoLands e \<Rightarrow> (Inl (StStore e), snd (load_all (sto_peers s) s)))"

definition fl_load_all :: "flow_env \<Rightarrow> nat \<Rightarrow> loaded_conv list flow" where
  "fl_load_all env i = at_store env i (\<lambda>io s. case store_load io s of (r, s') \<Rightarrow> (map_err FlStore r, s'))"

definition fl_load :: "flow_env \<Rightarrow> nat \<Rightarrow> correspondence_label \<Rightarrow> conv_state flow" where
  "fl_load env i peer = at_store env i (\<lambda>io. flow_load io peer)"

definition fl_persist_outbox :: "flow_env \<Rightarrow> nat \<Rightarrow> correspondence_label \<Rightarrow> u64 \<Rightarrow> byte list \<Rightarrow> u64 \<Rightarrow> unit flow" where
  "fl_persist_outbox env i peer seq ciphertext sent_at =
    at_store env i (\<lambda>io s. case persist_outbox io peer seq ciphertext sent_at s of (r, s') \<Rightarrow> (map_err FlStore r, s'))"

definition fl_create_conv :: "flow_env \<Rightarrow> nat \<Rightarrow> correspondence_label \<Rightarrow> conv_state \<Rightarrow> unit flow" where
  "fl_create_conv env i peer state =
    at_store env i (\<lambda>io s. case create_conv io peer state s of (r, s') \<Rightarrow> (map_err FlStore r, s'))"

definition fl_update_conv :: "flow_env \<Rightarrow> nat \<Rightarrow> correspondence_label \<Rightarrow> (conv_state \<Rightarrow> conv_state) \<Rightarrow> unit flow" where
  "fl_update_conv env i peer f =
    at_store env i (\<lambda>io s. case update_conv io peer (\<lambda>st. ((), f st)) s of (r, s') \<Rightarrow> (map_err FlStore r, s'))"

definition fl_try_update_conv ::
  "flow_env \<Rightarrow> nat \<Rightarrow> correspondence_label \<Rightarrow> (conv_state \<Rightarrow> flow_error + ('t \<times> conv_state)) \<Rightarrow> 't flow" where
  "fl_try_update_conv env i peer f = at_store env i (\<lambda>io. flow_update io peer f)"

definition mint_label :: "flow_env \<Rightarrow> correspondence_label flow" where
  "mint_label env = flift (ok_or (FlStore (StStore DmEntropySource)) (fe_label env))"

definition draw_generation :: "flow_env \<Rightarrow> nat \<Rightarrow> u64 flow" where
  "draw_generation env i = flift (map_err FlChain (rbind (ok_or Entropy (fe_fill env i 0)) (\<lambda>b. Inr (u64_of_be b))))"

definition correspondence_for :: "flow_env \<Rightarrow> nat \<Rightarrow> byte list \<Rightarrow> correspondence_label option flow" where
  "correspondence_for env i peer_identity_pk =
    fbind (fl_load_all env i) (\<lambda>convs.
    fret (map_option lc_peer (find (\<lambda>c. cs_peer_identity_pk (lc_state c) = peer_identity_pk) convs)))"

definition outstanding_zero :: "flow_env \<Rightarrow> nat \<Rightarrow> correspondence_label \<Rightarrow> byte list option flow" where
  "outstanding_zero env i peer =
    fbind (fl_load_all env i) (\<lambda>convs.
    fret (Option.bind (find (\<lambda>c. lc_peer c = peer) convs) (\<lambda>c.
      map_option oe_ciphertext (find (\<lambda>e. oe_seq e = 0) (lc_outstanding_outbox c)))))"

section \<open>Placing a hello\<close>

definition MAX_REPICKS :: u32 where "MAX_REPICKS = 1"

record hello_seal =
  hs_shared_secret :: "byte list"
  hs_kem_ct :: "byte list"
  hs_advert_serial :: u64
  hs_original :: "byte list option"

definition seal_outstanding ::
  "oxi \<Rightarrow> byte list option \<Rightarrow> hello_seal \<Rightarrow> byte list \<Rightarrow> byte list \<Rightarrow> hello_attempt \<Rightarrow> flow_error + outstanding_hello" where
  "seal_outstanding ox draw seal lookup_key peer_identity_pk at =
    (let encap = \<lparr>he_serial = hs_advert_serial seal, he_shared_secret = hs_shared_secret seal,
                  he_ciphertext = hs_kem_ct seal\<rparr>
     in rbind (map_err FlDrop (case hs_original seal of
          None \<Rightarrow> seal_hello ox draw encap lookup_key (ha_r at) peer_identity_pk
        | Some original \<Rightarrow> seal_rewritten_hello ox draw encap lookup_key (ha_r at) original peer_identity_pk)) (\<lambda>sealed.
        if length sealed \<noteq> HELLO_LEN then Inl (HelloLength (length sealed))
        else Inr \<lparr>oh_slot = ha_slot at, oh_r = ha_r at, oh_kem_ct = hs_kem_ct seal, oh_sealed = sealed,
                  oh_advert_serial = hs_advert_serial seal\<rparr>))"

definition place_closure :: "bool \<Rightarrow> outstanding_hello \<Rightarrow> conv_state \<Rightarrow> flow_error + (unit \<times> conv_state)" where
  "place_closure was_awaiting hello state =
    (if was_awaiting \<and> \<not> cs_awaiting_acceptance state then Inl AlreadyAccepted
     else let state = state\<lparr>cs_outstanding_hello := Some hello\<rparr>
          in Inr ((), if \<not> cs_awaiting_acceptance state then state\<lparr>cs_own_hello_secret := None\<rparr> else state))"

definition read_back_flow :: "flow_env \<Rightarrow> nat \<Rightarrow> byte list \<Rightarrow> byte list option \<Rightarrow> hello_attempt \<Rightarrow> (read_back \<times> hello_attempt) flow" where
  "read_back_flow env i written found at =
    flift (case attempt_read_back (fe_ox env) written found (fe_fill env i) at of
       (Inl e, _) \<Rightarrow> Inl (FlDrop e) | (Inr rb, at') \<Rightarrow> Inr (rb, at'))"

text \<open>
  The loop of \<open>place_hello\<close>: \<open>i\<close> numbers the call sites of the round. Each round after a clobber counts
  one re-pick more, and more than \<open>MAX_REPICKS\<close> end it, so \<open>n\<close> rounds are enough for any
  \<open>n > MAX_REPICKS + 1\<close>; \<open>n = 0\<close> is not reached.
\<close>

fun place_rounds ::
  "flow_env \<Rightarrow> nat \<Rightarrow> nat \<Rightarrow> correspondence_label \<Rightarrow> byte list \<Rightarrow> byte list \<Rightarrow> byte list \<Rightarrow> hello_seal \<Rightarrow> bool \<Rightarrow>
   hello_attempt \<Rightarrow> hello_attempt flow" where
  "place_rounds env i 0 peer drop_owner peer_identity_pk lookup_key seal was_awaiting at = ffail DropFull"
| "place_rounds env i (Suc n) peer drop_owner peer_identity_pk lookup_key seal was_awaiting at =
    fbind (flift (seal_outstanding (fe_ox env) (fe_draw env i) seal lookup_key peer_identity_pk at)) (\<lambda>hello.
    fbind (fl_try_update_conv env i peer (place_closure was_awaiting hello)) (\<lambda>_.
    fbind (rec_write_drop_slot env i drop_owner (ha_slot at) (oh_sealed hello)) (\<lambda>_.
    fbind (rec_read_drop_slot env (i + 1) drop_owner (ha_slot at)) (\<lambda>found.
    fbind (read_back_flow env i (oh_sealed hello) found at) (\<lambda>(outcome, at').
    if outcome = Landed then fret at'
    else if ha_repicks at' > MAX_REPICKS then ffail DropFull
    else place_rounds env (i + 2) n peer drop_owner peer_identity_pk lookup_key seal was_awaiting at')))))"

definition place_hello ::
  "flow_env \<Rightarrow> nat \<Rightarrow> correspondence_label \<Rightarrow> byte list \<Rightarrow> byte list \<Rightarrow> hello_seal \<Rightarrow> hello_attempt \<Rightarrow> hello_attempt flow" where
  "place_hello env i peer peer_identity_pk lookup_key seal at =
    fbind (flift (map_err FlDrop (drop_owner_seed (fe_ox env) peer_identity_pk))) (\<lambda>drop_owner.
    fbind (fl_load env i peer) (\<lambda>state.
    place_rounds env (i + 1) 3 peer drop_owner peer_identity_pk lookup_key seal (cs_awaiting_acceptance state) at))"

definition first_attempt :: "flow_env \<Rightarrow> nat \<Rightarrow> hello_attempt flow" where
  "first_attempt env i =
    flift (map_err FlDrop (rbind (repick (fe_fill env i)) (attempt_new (fe_ox env))))"

section \<open>Opening a conversation\<close>

datatype first_contact_result =
    Opened correspondence_label "byte list" u16 u32
  | Rewrote correspondence_label u16

definition own_field :: "string \<Rightarrow> 'a option \<Rightarrow> 'a flow" where
  "own_field name x = flift (ok_or (Incomplete name) x)"

definition finish_first_contact :: "flow_env \<Rightarrow> correspondence_label \<Rightarrow> conv_state \<Rightarrow> first_contact_result flow" where
  "finish_first_contact env peer state =
    fbind (own_field ''hello secret of its own'' (cs_own_hello_secret state)) (\<lambda>own_secret.
    fbind (own_field ''channel opening of its own'' (cs_own_opening state)) (\<lambda>opening_bytes.
    fbind (own_field ''hello encapsulation of its own'' (cs_own_hello_kem_ct state)) (\<lambda>own_kem_ct.
    fbind (flift (map_err FlChannel (opening_decode opening_bytes))) (\<lambda>opening.
    fbind (outstanding_zero env 10 peer) (\<lambda>zero.
    fbind (own_field ''outbox entry for sequence 0'' zero) (\<lambda>slot_bytes.
    fbind (own_field ''control key of its own'' (cs_own_control_key state)) (\<lambda>own_control_key.
    fbind (flift (map_err FlChannel (seal_control_with_key (fe_ox env) (fe_draw env 10) own_control_key
        \<lparr>c_opening = Some opening, c_collected_cursor = 0, c_closed = False, c_generation = cs_generation state,
         c_reach = fst (fe_reach env), c_serial = snd (fe_reach env)\<rparr>))) (\<lambda>control.
    fbind (write_all env 10 [BwChannel (cs_outgoing_lookup_key state) CONTROL_SUBKEY control,
        BwChannel (cs_outgoing_lookup_key state) (slot_for 0) slot_bytes]) (\<lambda>_.
    fbind (first_attempt env 12) (\<lambda>at.
    fbind (place_hello env 13 peer (cs_peer_identity_pk state) (cs_outgoing_lookup_key state)
        \<lparr>hs_shared_secret = own_secret, hs_kem_ct = own_kem_ct, hs_advert_serial = o_advert_serial opening,
         hs_original = None\<rparr> at) (\<lambda>at.
    fret (Opened peer (cs_outgoing_lookup_key state) (ha_slot at) (ha_repicks at)))))))))))))"

datatype resumed = ResumedNothing | ResumedRewrote u16

definition resume_first_contact :: "flow_env \<Rightarrow> correspondence_label \<Rightarrow> resumed flow" where
  "resume_first_contact env peer =
    fbind (fl_load env 5 peer) (\<lambda>state.
    if cs_delete_pending state then ffail DeletePending
    else case cs_outstanding_hello state of
      None \<Rightarrow> fret ResumedNothing
    | Some hello \<Rightarrow>
      fbind (flift (map_err FlDrop (drop_owner_seed (fe_ox env) (cs_peer_identity_pk state)))) (\<lambda>drop_owner.
      fbind (rec_write_drop_slot env 5 drop_owner (oh_slot hello) (oh_sealed hello)) (\<lambda>_.
      fret (ResumedRewrote (oh_slot hello)))))"

definition continue_first_contact :: "flow_env \<Rightarrow> correspondence_label \<Rightarrow> first_contact_result flow" where
  "continue_first_contact env peer =
    fbind (fl_load env 4 peer) (\<lambda>state.
    if cs_delete_pending state then ffail DeletePending
    else if \<not> cs_awaiting_acceptance state then ffail AlreadyEstablished
    else if cs_outstanding_hello state \<noteq> None then
      fbind (resume_first_contact env peer) (\<lambda>r.
      case r of ResumedRewrote slot \<Rightarrow> fret (Rewrote peer slot) | ResumedNothing \<Rightarrow> ffail NotOutstanding)
    else finish_first_contact env peer state)"

text \<open>
  The conversation record a first contact creates. Its \<open>expect\<close> on the opening's length is met by every
  opening of well-formed fields (\<open>length_opening_encode\<close>).
\<close>

definition opened_conv ::
  "byte list \<Rightarrow> byte list \<Rightarrow> u64 \<Rightarrow> conversation \<Rightarrow> ring \<Rightarrow> byte list \<Rightarrow> hello_encapsulation \<Rightarrow> byte list \<Rightarrow> conv_state" where
  "opened_conv peer_identity_pk outgoing_lookup_key generation conversation ring own_key encapsulation opening_bytes =
    \<lparr>cs_peer_identity_pk = peer_identity_pk, cs_outgoing_lookup_key = outgoing_lookup_key,
     cs_incoming_lookup_key = replicate HELLO_LOOKUP_KEY_LEN 0, cs_generation = generation,
     cs_conversation = snapshot conversation, cs_send_seq = send_seq ring, cs_peer_collected = 0,
     cs_my_collected = 0, cs_cursor_published = 0, cs_awaiting_acceptance = True, cs_acceptance_pending = False,
     cs_outstanding_hello = None, cs_own_hello_secret = Some (he_shared_secret encapsulation),
     cs_own_hello_kem_ct = Some (he_ciphertext encapsulation), cs_own_control_key = Some own_key,
     cs_peer_control_key = None, cs_peer_advert_serial = None, cs_own_opening = Some opening_bytes,
     cs_delete_pending = False\<rparr>"

text \<open>Sequence 0 of a fresh ring: reserve it, seal its slot.\<close>

definition seal_zero ::
  "flow_env \<Rightarrow> nat \<Rightarrow> u64 \<Rightarrow> byte list \<Rightarrow> conversation \<Rightarrow> (u64 \<times> byte list \<times> conversation \<times> ring) flow" where
  "seal_zero env i now body conversation =
    (case ring_reserve ring_new of
       (Inl e, _) \<Rightarrow> ffail (FlChannel e)
     | (Inr seq, ring) \<Rightarrow>
       (case seal_slot (fe_ox env) (fe_draw env i) (fe_fill env i) now body conversation of
          (Inl e, _) \<Rightarrow> ffail e
        | (Inr slot_bytes, conversation) \<Rightarrow> fret (seq, slot_bytes, conversation, ring)))"

definition first_contact ::
  "flow_env \<Rightarrow> me \<Rightarrow> byte list \<Rightarrow> byte list \<Rightarrow> u64 \<Rightarrow> first_contact_result flow" where
  "first_contact env me peer_identity_pk body now =
    fbind (correspondence_for env 0 peer_identity_pk) (\<lambda>known.
    case known of Some peer \<Rightarrow> continue_first_contact env peer
    | None \<Rightarrow>
      fbind (flift (fits_a_message body)) (\<lambda>_.
      fbind (flift (map_err FlAdvert (advert_owner_seed (fe_ox env) peer_identity_pk))) (\<lambda>advert_owner.
      fbind (rec_read_advert env 0 advert_owner) (\<lambda>found.
      fbind (flift (ok_or NoAdvert found)) (\<lambda>bytes.
      fbind (flift (map_err FlAdvert (advert_verify (fe_ox env) peer_identity_pk bytes))) (\<lambda>ad.
      fbind (draw_generation env 0) (\<lambda>generation.
      fbind (flift (map_err FlChannel (derive_owner_seed (fe_ox env) (me_channel_root me) peer_identity_pk generation))) (\<lambda>channel_owner.
      fbind (rec_open_channel env 1 channel_owner) (\<lambda>outgoing_lookup_key.
      fbind (flift (map_err FlAdvert (encapsulate_to (fe_ox env) ad now (fe_fill env 1)))) (\<lambda>encapsulation.
      fbind (flift (map_err FlChain (initiate (fe_ox env) (he_shared_secret encapsulation) (fe_fill env 2)))) (\<lambda>(ratchet_pk, conversation).
      fbind (flift (map_err FlChannel (opening_build (fe_ox env) (me_signer me) peer_identity_pk outgoing_lookup_key ratchet_pk
          (he_serial encapsulation)))) (\<lambda>opening.
      fbind (mint_label env) (\<lambda>peer.
      fbind (seal_zero env 3 now body conversation) (\<lambda>(seq, slot_bytes, conversation, ring).
      fbind (fl_persist_outbox env 1 peer seq slot_bytes now) (\<lambda>_.
      fbind (flift (map_err FlChannel (control_key (fe_ox env) (he_shared_secret encapsulation)))) (\<lambda>own_control_key.
      fbind (fl_create_conv env 2 peer (opened_conv peer_identity_pk outgoing_lookup_key generation conversation ring
          own_control_key encapsulation (opening_encode opening))) (\<lambda>_.
      fbind (fl_load env 3 peer) (\<lambda>state.
      finish_first_contact env peer state))))))))))))))))))"

text \<open>\<open>refresh_first_contact\<close>: whether a rotated advert made a rewrite.\<close>

definition refresh_first_contact :: "flow_env \<Rightarrow> correspondence_label \<Rightarrow> u64 \<Rightarrow> bool flow" where
  "refresh_first_contact env peer now =
    fbind (fl_load env 0 peer) (\<lambda>state.
    if cs_delete_pending state then ffail DeletePending
    else if \<not> cs_awaiting_acceptance state then ffail AlreadyAccepted
    else
      fbind (flift (ok_or NotOutstanding (cs_outstanding_hello state))) (\<lambda>hello.
      fbind (own_field ''hello secret of its own'' (cs_own_hello_secret state)) (\<lambda>original.
      fbind (flift (map_err FlAdvert (advert_owner_seed (fe_ox env) (cs_peer_identity_pk state)))) (\<lambda>advert_owner.
      fbind (rec_read_advert env 0 advert_owner) (\<lambda>found.
      fbind (flift (ok_or NoAdvert found)) (\<lambda>bytes.
      fbind (flift (map_err FlAdvert (advert_verify (fe_ox env) (cs_peer_identity_pk state) bytes))) (\<lambda>ad.
      if \<not> hello_needs_rewrite (oh_advert_serial hello) ad then fret False
      else
        fbind (flift (map_err FlAdvert (encapsulate_to (fe_ox env) ad now (fe_fill env 0)))) (\<lambda>encapsulation.
        fbind (flift (map_err FlDrop (attempt_new (fe_ox env) (oh_r hello)))) (\<lambda>at.
        fbind (place_hello env 1 peer (cs_peer_identity_pk state) (cs_outgoing_lookup_key state)
          \<lparr>hs_shared_secret = he_shared_secret encapsulation, hs_kem_ct = he_ciphertext encapsulation,
           hs_advert_serial = he_serial encapsulation, hs_original = Some original\<rparr> at) (\<lambda>_.
        fret True))))))))))"

end
