(* ===== verification/Acceptance.thy ===== *)
theory Acceptance
  imports First_Contact
begin

text \<open>
  The receiving half of the first contact (\<^verbatim>\<open>dm/flows.rs\<close>): the scan of the own drop and what each
  hello in it turns out to be, the acceptance of a request and its continuation after a restart, the
  recognition of an acceptance, and the ring read they share.
\<close>

section \<open>Reading the correspondent's channel\<close>

text \<open>A failure as a value: \<open>let Ok(..) = .. else\<close>.\<close>

definition ftry :: "'a flow \<Rightarrow> (flow_error + 'a) flow" where
  "ftry m w = (case m w of (r, w') \<Rightarrow> (Inr r, w'))"

definition read_control :: "flow_env \<Rightarrow> nat \<Rightarrow> byte list \<Rightarrow> byte list \<Rightarrow> control option flow" where
  "read_control env i key lookup_key =
    fbind (ftry (rec_read_channel env i lookup_key CONTROL_SUBKEY)) (\<lambda>r.
    fret (case r of Inr (Some bytes) \<Rightarrow>
        (case open_control_with_key (fe_ox env) key bytes of Inr c \<Rightarrow> Some c | Inl _ \<Rightarrow> None)
      | _ \<Rightarrow> None))"

definition read_opening :: "flow_env \<Rightarrow> nat \<Rightarrow> byte list \<Rightarrow> byte list \<Rightarrow> channel_opening option flow" where
  "read_opening env i key lookup_key =
    fbind (read_control env i key lookup_key) (\<lambda>c. fret (Option.bind c c_opening))"

definition peer_control :: "flow_env \<Rightarrow> correspondence_label \<Rightarrow> control option flow" where
  "peer_control env peer =
    fbind (fl_load env 0 peer) (\<lambda>state.
    fbind (own_field ''control key of the correspondent'' (cs_peer_control_key state)) (\<lambda>key.
    fbind (rec_read_channel env 0 (cs_incoming_lookup_key state) CONTROL_SUBKEY) (\<lambda>found.
    case found of None \<Rightarrow> fret None
    | Some bytes \<Rightarrow> fbind (flift (map_err FlChannel (open_control_with_key (fe_ox env) key bytes))) (\<lambda>c. fret (Some c)))))"

definition peer_cursor :: "flow_env \<Rightarrow> correspondence_label \<Rightarrow> u64 option flow" where
  "peer_cursor env peer = fbind (peer_control env peer) (\<lambda>c. fret (map_option c_collected_cursor c))"

type_synonym received_message = "u64 \<times> byte list"

type_synonym unopened = "u64 \<times> u16 \<times> chain_error"

record ring_read =
  rr_messages :: "received_message list"
  rr_collected :: u64
  rr_unopened :: "unopened option"

definition read_ring_slot ::
  "flow_env \<Rightarrow> nat \<Rightarrow> byte list \<Rightarrow> u64 \<Rightarrow> conversation \<Rightarrow> ring \<Rightarrow> (ring_step \<times> conversation \<times> ring) flow" where
  "read_ring_slot env i lookup_key seq cv ring =
    fbind (rec_read_channel env i lookup_key (slot_for seq)) (\<lambda>found.
    case found of None \<Rightarrow> fret (RsEnd, cv, ring)
    | Some raw \<Rightarrow> flift (case open_ring_slot (fe_ox env) raw seq cv ring of
        (Inl e, _) \<Rightarrow> Inl e | (Inr step, cv', ring') \<Rightarrow> Inr (step, cv', ring')))"

text \<open>
  The loop of \<open>read_ring\<close>: each slot carries one sequence number and the 63 slots repeat, so over one
  state of the record at most 63 rounds read a message, and 64 rounds end.
\<close>

fun read_ring_rounds ::
  "flow_env \<Rightarrow> nat \<Rightarrow> nat \<Rightarrow> byte list \<Rightarrow> u64 \<Rightarrow> received_message list \<Rightarrow> conversation \<Rightarrow> ring \<Rightarrow>
   (ring_read \<times> conversation \<times> ring) flow" where
  "read_ring_rounds env i 0 lookup_key upto_seq messages cv ring =
    fret (\<lparr>rr_messages = messages, rr_collected = upto_seq, rr_unopened = None\<rparr>, cv, ring)"
| "read_ring_rounds env i (Suc n) lookup_key upto_seq messages cv ring =
    fbind (read_ring_slot env i lookup_key upto_seq cv ring) (\<lambda>(step, cv, ring).
    case step of
      RsMessage _ sent_at body _ \<Rightarrow>
        read_ring_rounds env (Suc i) n lookup_key (upto_seq + 1) (messages @ [(sent_at, body)]) cv ring
    | RsEnd \<Rightarrow> fret (\<lparr>rr_messages = messages, rr_collected = upto_seq, rr_unopened = None\<rparr>, cv, ring)
    | RsUnopened seq subkey error \<Rightarrow>
        fret (\<lparr>rr_messages = messages, rr_collected = upto_seq, rr_unopened = Some (seq, subkey, error)\<rparr>, cv, ring))"

definition read_ring ::
  "flow_env \<Rightarrow> nat \<Rightarrow> byte list \<Rightarrow> u64 \<Rightarrow> conversation \<Rightarrow> ring \<Rightarrow> (ring_read \<times> conversation \<times> ring) flow" where
  "read_ring env i lookup_key from cv ring = read_ring_rounds env i 64 lookup_key from [] cv ring"

section \<open>The scan of the drop\<close>

record contact_request =
  cr_identity :: "byte list"
  cr_lookup_key :: "byte list"
  cr_first_ratchet_pk :: "byte list"
  cr_slot :: u16
  cr_advert_serial :: u64
  cr_shared_secret :: "byte list"
  cr_generation :: u64
  cr_reach :: reach
  cr_reach_serial :: u64

record acceptance =
  ac_peer :: correspondence_label
  ac_lookup_key :: "byte list"
  ac_peer_cursor :: u64
  ac_peer_reach :: reach
  ac_peer_reach_serial :: u64
  ac_messages :: "received_message list"
  ac_unopened :: "unopened option"

datatype surfaced =
    Dropped "byte list"
  | StartedOver "byte list" contact_request
  | Accepted acceptance
  | ContactRequest contact_request
  | Failed "byte list" flow_error
  | AlreadyCollected "byte list"

record heard =
  hr_opening :: channel_opening
  hr_cursor :: u64
  hr_generation :: u64
  hr_reach :: reach
  hr_serial :: u64

definition contact_request_of :: "byte list \<Rightarrow> hello \<Rightarrow> heard \<Rightarrow> byte list \<Rightarrow> u16 \<Rightarrow> contact_request" where
  "contact_request_of identity hello heard shared_secret slot =
    \<lparr>cr_identity = identity, cr_lookup_key = hl_lookup_key hello,
     cr_first_ratchet_pk = o_first_ratchet_pk (hr_opening heard), cr_slot = slot,
     cr_advert_serial = o_advert_serial (hr_opening heard), cr_shared_secret = shared_secret,
     cr_generation = hr_generation heard, cr_reach = hr_reach heard, cr_reach_serial = hr_serial heard\<rparr>"

fun open_against ::
  "oxi \<Rightarrow> advert_keys \<Rightarrow> byte list \<Rightarrow> byte list \<Rightarrow> u16 \<Rightarrow> u64 list \<Rightarrow> (hello \<times> byte list \<times> u64) option" where
  "open_against ox keys bytes my_pk slot [] = None"
| "open_against ox keys bytes my_pk slot (serial # serials) =
    (case decapsulate ox serial (take KEM_CT_LEN bytes) keys of
       Inr (Some shared_secret) \<Rightarrow>
         (case open_hello ox shared_secret bytes my_pk slot of
            Inr hello \<Rightarrow> Some (hello, shared_secret, serial)
          | Inl _ \<Rightarrow> open_against ox keys bytes my_pk slot serials)
     | _ \<Rightarrow> open_against ox keys bytes my_pk slot serials)"

definition open_against_either ::
  "oxi \<Rightarrow> advert_keys \<Rightarrow> byte list \<Rightarrow> byte list \<Rightarrow> u16 \<Rightarrow> (hello \<times> byte list \<times> u64) option" where
  "open_against_either ox keys bytes my_pk slot =
    (if length bytes < KEM_CT_LEN then None
     else open_against ox keys bytes my_pk slot
       (ak_serial (aks_current keys) # (case previous_serial keys of Some s \<Rightarrow> [s] | None \<Rightarrow> [])))"

definition opening_serial :: "bool \<Rightarrow> u64 \<Rightarrow> channel_opening \<Rightarrow> u64 option" where
  "opening_serial rewritten decapsulated_under opening =
    (if \<not> rewritten then Some decapsulated_under
     else if o_advert_serial opening < decapsulated_under then Some (o_advert_serial opening) else None)"

text \<open>The two updates of \<open>recognise_acceptance\<close>.\<close>

definition recognise_closure :: "as_loaded \<Rightarrow> byte list \<Rightarrow> byte list \<Rightarrow> conv_state \<Rightarrow> flow_error + (as_loaded \<times> conv_state)" where
  "recognise_closure loaded lookup_key peer_key state =
    rbind (refuse_if_marked state) (\<lambda>_.
    rbind (as_loaded_unchanged loaded state) (\<lambda>_.
    let st = state\<lparr>cs_incoming_lookup_key := lookup_key, cs_peer_control_key := Some peer_key\<rparr>
    in Inr (as_loaded_of st, st)))"

definition recognised_closure ::
  "as_loaded \<Rightarrow> conversation \<Rightarrow> bool \<Rightarrow> ring_read \<Rightarrow> ring \<Rightarrow> conv_state \<Rightarrow> flow_error + (unit \<times> conv_state)" where
  "recognised_closure loaded conversation loaded_forced read ring state =
    rbind (refuse_if_marked state) (\<lambda>_.
    rbind (as_loaded_unchanged loaded state) (\<lambda>_.
    Inr ((), (write_conversation conversation loaded_forced state)\<lparr>cs_my_collected := rr_collected read,
       cs_peer_collected := peer_collected ring, cs_outstanding_hello := None, cs_awaiting_acceptance := False,
       cs_own_hello_secret := None\<rparr>)))"

definition recognise_acceptance ::
  "flow_env \<Rightarrow> me \<Rightarrow> correspondence_label \<Rightarrow> byte list \<Rightarrow> u64 \<Rightarrow> byte list \<Rightarrow> u16 \<Rightarrow> acceptance flow" where
  "recognise_acceptance env me peer lookup_key cursor peer_secret slot =
    fbind (fl_load env 30 peer) (\<lambda>state.
    if \<not> cs_awaiting_acceptance state then ffail NotOutstanding
    else
      fbind (flift (map_err FlChannel (control_key (fe_ox env) peer_secret))) (\<lambda>key.
      fbind (fl_try_update_conv env 31 peer (recognise_closure (as_loaded_of state) lookup_key key)) (\<lambda>loaded.
      fbind (flift (map_err FlChannel (ring_restore (cs_send_seq state) (cs_peer_collected state)))) (\<lambda>ring.
      fbind (read_ring env 100 lookup_key (cs_my_collected state) (restore (cs_conversation state))
          (advance_peer_collected ring cursor)) (\<lambda>(read, conversation, ring).
      fbind (fl_try_update_conv env 32 peer
          (recognised_closure loaded conversation (stored_force state) read ring)) (\<lambda>_.
      fbind (flift (map_err FlDrop (drop_owner_seed (fe_ox env) (sk_public_key (me_signer me))))) (\<lambda>my_drop.
      fbind (rec_erase_drop_slot env 33 my_drop slot) (\<lambda>_.
      fret \<lparr>ac_peer = peer, ac_lookup_key = lookup_key, ac_peer_cursor = cursor, ac_peer_reach = reach_default,
            ac_peer_reach_serial = 0, ac_messages = rr_messages read, ac_unopened = rr_unopened read\<rparr>))))))))"

definition settle ::
  "flow_env \<Rightarrow> me \<Rightarrow> byte list \<Rightarrow> hello \<Rightarrow> heard \<Rightarrow> byte list \<Rightarrow> u16 \<Rightarrow> surfaced flow" where
  "settle env me identity hello heard shared_secret slot =
    fbind (correspondence_for env 20 identity) (\<lambda>known.
    case known of
      None \<Rightarrow> fret (ContactRequest (contact_request_of identity hello heard shared_secret slot))
    | Some peer \<Rightarrow>
      fbind (fl_load env 21 peer) (\<lambda>state.
      if cs_awaiting_acceptance state then
        fbind (recognise_acceptance env me peer (hl_lookup_key hello) (hr_cursor heard) shared_secret slot) (\<lambda>acc.
        fret (Accepted (acc\<lparr>ac_peer_reach := hr_reach heard, ac_peer_reach_serial := hr_serial heard\<rparr>)))
      else if hl_lookup_key hello = cs_incoming_lookup_key state then
        fbind (flift (map_err FlDrop (drop_owner_seed (fe_ox env) (sk_public_key (me_signer me))))) (\<lambda>my_drop.
        fbind (rec_erase_drop_slot env 22 my_drop slot) (\<lambda>_.
        fret (AlreadyCollected identity)))
      else fret (StartedOver identity (contact_request_of identity hello heard shared_secret slot))))"

text \<open>
  What a slot's bytes are to this side before anything is settled: the hello, the channel's secret, and
  its verified opening. \<open>None\<close> is the silent skip.
\<close>

definition verified_hello ::
  "flow_env \<Rightarrow> me \<Rightarrow> advert_keys \<Rightarrow> byte list \<Rightarrow> u16 \<Rightarrow> (hello \<times> heard \<times> byte list) option flow" where
  "verified_hello env me keys bytes slot =
    (case open_against_either (fe_ox env) keys bytes (sk_public_key (me_signer me)) slot of
       None \<Rightarrow> fret None
     | Some (hello, decapsulated, serial) \<Rightarrow>
       let shared_secret = (case hl_original_secret hello of Some s \<Rightarrow> s | None \<Rightarrow> decapsulated);
           rewritten = (hl_original_secret hello \<noteq> None)
       in case control_key (fe_ox env) shared_secret of
         Inl _ \<Rightarrow> fret None
       | Inr key \<Rightarrow>
         fbind (read_control env 1 key (hl_lookup_key hello)) (\<lambda>found.
         case found of None \<Rightarrow> fret None
         | Some control \<Rightarrow>
           (case c_opening control of None \<Rightarrow> fret None
            | Some opening \<Rightarrow>
              (case opening_serial rewritten serial opening of None \<Rightarrow> fret None
               | Some bound \<Rightarrow>
                 (case opening_verify (fe_ox env) opening (sk_public_key (me_signer me)) (hl_lookup_key hello) bound of
                    Inl _ \<Rightarrow> fret None
                  | Inr _ \<Rightarrow> fret (Some (hello,
                      \<lparr>hr_opening = opening, hr_cursor = c_collected_cursor control, hr_generation = c_generation control,
                       hr_reach = c_reach control, hr_serial = c_serial control\<rparr>, shared_secret)))))))"

definition collect_slot ::
  "flow_env \<Rightarrow> me \<Rightarrow> advert_keys \<Rightarrow> (byte list \<Rightarrow> bool) \<Rightarrow> u16 \<Rightarrow> surfaced option flow" where
  "collect_slot env me keys is_blocked slot =
    fbind (flift (map_err FlDrop (drop_owner_seed (fe_ox env) (sk_public_key (me_signer me))))) (\<lambda>drop_owner.
    fbind (ftry (rec_read_drop_slot env 0 drop_owner slot)) (\<lambda>r.
    case r of
      Inr (Some bytes) \<Rightarrow>
        fbind (verified_hello env me keys bytes slot) (\<lambda>v.
        case v of None \<Rightarrow> fret None
        | Some (hello, heard, shared_secret) \<Rightarrow>
          let identity = o_writer_identity_pk (hr_opening heard)
          in if is_blocked identity then fret (Some (Dropped identity))
             else fbind (ftry (settle env me identity hello heard shared_secret slot)) (\<lambda>settled.
               case settled of
                 Inr s \<Rightarrow> fret (Some s)
               | Inl (FlStore e) \<Rightarrow> ffail (FlStore e)
               | Inl error \<Rightarrow> fret (Some (Failed identity error))))
    | _ \<Rightarrow> fret None))"

text \<open>\<open>collect\<close>: every slot in order; \<open>envs\<close> is the environment of each slot's visit.\<close>

fun collect_slots ::
  "(u16 \<Rightarrow> flow_env) \<Rightarrow> me \<Rightarrow> advert_keys \<Rightarrow> (byte list \<Rightarrow> bool) \<Rightarrow> u16 list \<Rightarrow> surfaced list flow" where
  "collect_slots envs me keys is_blocked [] = fret []"
| "collect_slots envs me keys is_blocked (slot # slots) =
    fbind (collect_slot (envs slot) me keys is_blocked slot) (\<lambda>one.
    fbind (collect_slots envs me keys is_blocked slots) (\<lambda>rest.
    fret ((case one of Some s \<Rightarrow> [s] | None \<Rightarrow> []) @ rest)))"

definition collect :: "(u16 \<Rightarrow> flow_env) \<Rightarrow> me \<Rightarrow> advert_keys \<Rightarrow> (byte list \<Rightarrow> bool) \<Rightarrow> surfaced list flow" where
  "collect envs me keys is_blocked = collect_slots envs me keys is_blocked (map word_of_nat [0..<unat DROP_SUBKEYS])"

section \<open>Accepting a request\<close>

definition DM_PUSH_ANSWER_SALT :: "byte list" where "DM_PUSH_ANSWER_SALT = ascii ''daemonseed/dm/push/answer-salt/v1''"
definition DM_PUSH_ANSWER :: "byte list" where "DM_PUSH_ANSWER = ascii ''daemonseed/dm/push/answer/v1''"
definition RECORDED :: "byte list" where "RECORDED = ascii ''dsdmpsh1'' @ [1]"
definition ANSWER_MAC_LEN :: nat where "ANSWER_MAC_LEN = 32"

definition push_answer :: "oxi \<Rightarrow> byte list \<Rightarrow> byte list \<Rightarrow> u64 \<Rightarrow> flow_error + byte list" where
  "push_answer ox key lookup_key seq =
    rbind (map_err (\<lambda>e. FlChannel (ChKdf e)) (hkdf_extract ox (Some DM_PUSH_ANSWER_SALT) key)) (\<lambda>hkdf.
    rbind (map_err (\<lambda>e. FlChannel (ChKdf e)) (hkdf_expand ox hkdf
      (DM_PUSH_ANSWER @ push_lp lookup_key @ push_lp (u64_be seq)) ANSWER_MAC_LEN)) (\<lambda>mac.
    Inr (RECORDED @ mac)))"

record accepted =
  acd_peer :: correspondence_label
  acd_outgoing_lookup_key :: "byte list"
  acd_messages :: "received_message list"
  acd_hello_slot :: u16
  acd_repicks :: u32
  acd_unopened :: "unopened option"

definition read_accepted_opening ::
  "flow_env \<Rightarrow> nat \<Rightarrow> byte list \<Rightarrow> byte list \<Rightarrow> byte list \<Rightarrow> u64 \<Rightarrow> byte list \<Rightarrow> byte list option \<Rightarrow> unit flow" where
  "read_accepted_opening env i my_pk key incoming serial identity opened_with =
    fbind (read_opening env i key incoming) (\<lambda>found.
    fbind (flift (ok_or NoOpening found)) (\<lambda>opening.
    fbind (flift (map_err FlChannel (opening_verify (fe_ox env) opening my_pk incoming serial))) (\<lambda>_.
    if o_writer_identity_pk opening \<noteq> identity then ffail OpeningWriter
    else if opened_with \<noteq> Some (o_first_ratchet_pk opening) then ffail OpeningRatchetKey
    else fret ())))"

definition own_channel :: "flow_env \<Rightarrow> me \<Rightarrow> correspondence_label \<Rightarrow> conv_state \<Rightarrow> byte list flow" where
  "own_channel env me peer state =
    (if cs_outgoing_lookup_key state = replicate HELLO_LOOKUP_KEY_LEN 0 then
       fbind (flift (map_err FlChannel (derive_owner_seed (fe_ox env) (me_channel_root me)
           (cs_peer_identity_pk state) (cs_generation state)))) (\<lambda>owner.
       fbind (rec_open_channel env 41 owner) (\<lambda>key.
       fbind (fl_update_conv env 40 peer (\<lambda>st. st\<lparr>cs_outgoing_lookup_key := key\<rparr>)) (\<lambda>_.
       fret key)))
     else fret (cs_outgoing_lookup_key state))"

text \<open>The acceptance's encapsulation and opening, minted once and persisted before they are used.\<close>

definition mint_acceptance ::
  "flow_env \<Rightarrow> me \<Rightarrow> correspondence_label \<Rightarrow> conv_state \<Rightarrow> byte list \<Rightarrow> byte list \<Rightarrow> u64 \<Rightarrow> unit flow" where
  "mint_acceptance env me peer state outgoing_lookup_key first_ratchet_pk now =
    (if cs_own_opening state \<noteq> None then fret ()
     else
       fbind (flift (map_err FlAdvert (advert_owner_seed (fe_ox env) (cs_peer_identity_pk state)))) (\<lambda>advert_owner.
       fbind (rec_read_advert env 42 advert_owner) (\<lambda>found.
       fbind (flift (ok_or NoAdvert found)) (\<lambda>bytes.
       fbind (flift (map_err FlAdvert (advert_verify (fe_ox env) (cs_peer_identity_pk state) bytes))) (\<lambda>ad.
       fbind (flift (map_err FlAdvert (encapsulate_to (fe_ox env) ad now (fe_fill env 42)))) (\<lambda>encapsulation.
       fbind (flift (map_err FlChannel (opening_build (fe_ox env) (me_signer me) (cs_peer_identity_pk state)
           outgoing_lookup_key first_ratchet_pk (he_serial encapsulation)))) (\<lambda>opening.
       fbind (flift (map_err FlChannel (control_key (fe_ox env) (he_shared_secret encapsulation)))) (\<lambda>key.
       fl_update_conv env 42 peer (\<lambda>st. st\<lparr>cs_own_control_key := Some key,
         cs_own_hello_secret := Some (he_shared_secret encapsulation), cs_own_hello_kem_ct := Some (he_ciphertext encapsulation),
         cs_own_opening := Some (opening_encode opening)\<rparr>)))))))))"

text \<open>
  The hello back is offered directly where it is about to be placed for the first time; the attempt it was
  sealed for is the one the placement starts with.
\<close>

definition offer_hello_back ::
  "flow_env \<Rightarrow> correspondence_label \<Rightarrow> conv_state \<Rightarrow> byte list \<Rightarrow> byte list \<Rightarrow> u64 \<Rightarrow> byte list \<Rightarrow> byte list \<Rightarrow> u64 \<Rightarrow>
   byte list \<Rightarrow> hello_attempt option flow" where
  "offer_hello_back env peer state own_control_key outgoing_lookup_key advert_serial control slot_bytes reply_seq identity =
    (case (cs_outstanding_hello state, cs_own_hello_secret state) of
       (None, Some own_secret) \<Rightarrow>
         fbind (own_field ''hello encapsulation of its own'' (cs_own_hello_kem_ct state)) (\<lambda>own_kem_ct.
         fbind (first_attempt env 43) (\<lambda>at.
         fbind (flift (seal_outstanding (fe_ox env) (fe_draw env 43)
             \<lparr>hs_shared_secret = own_secret, hs_kem_ct = own_kem_ct, hs_advert_serial = advert_serial, hs_original = None\<rparr>
             outgoing_lookup_key identity at)) (\<lambda>hello.
         fbind (flift (push_answer (fe_ox env) own_control_key outgoing_lookup_key reply_seq)) (\<lambda>ans.
         fbind (rec_offer_acceptance
             \<lparr>aw_peer = peer, aw_lookup_key = outgoing_lookup_key, aw_control = control,
              aw_reply_subkey = slot_for reply_seq, aw_reply = slot_bytes, aw_hello_slot = ha_slot at,
              aw_hello = oh_sealed hello, aw_answer = ans\<rparr>) (\<lambda>_.
         fret (Some at))))))
     | _ \<Rightarrow> fret None)"

text \<open>The hello back: the persisted bytes where a previous run placed it, a fresh placement otherwise.\<close>

definition hello_back ::
  "flow_env \<Rightarrow> correspondence_label \<Rightarrow> conv_state \<Rightarrow> byte list \<Rightarrow> u64 \<Rightarrow> byte list \<Rightarrow> hello_attempt option \<Rightarrow> (u16 \<times> u32) flow" where
  "hello_back env peer state outgoing_lookup_key advert_serial identity fresh =
    (case cs_outstanding_hello state of
       Some hello \<Rightarrow>
         fbind (flift (map_err FlDrop (drop_owner_seed (fe_ox env) identity))) (\<lambda>drop_owner.
         fbind (rec_write_drop_slot env 47 drop_owner (oh_slot hello) (oh_sealed hello)) (\<lambda>_.
         fret (oh_slot hello, 0)))
     | None \<Rightarrow>
         fbind (own_field ''hello secret of its own'' (cs_own_hello_secret state)) (\<lambda>own_secret.
         fbind (own_field ''hello encapsulation of its own'' (cs_own_hello_kem_ct state)) (\<lambda>own_kem_ct.
         fbind (case fresh of Some at \<Rightarrow> fret at | None \<Rightarrow> first_attempt env 48) (\<lambda>at.
         fbind (place_hello env 50 peer identity outgoing_lookup_key
             \<lparr>hs_shared_secret = own_secret, hs_kem_ct = own_kem_ct, hs_advert_serial = advert_serial, hs_original = None\<rparr>
             at) (\<lambda>at.
         fret (ha_slot at, ha_repicks at))))))"

definition accepted_conv :: "conversation \<Rightarrow> bool \<Rightarrow> ring_read \<Rightarrow> ring \<Rightarrow> conv_state \<Rightarrow> conv_state" where
  "accepted_conv reader loaded_forced read ring state =
    (write_conversation reader loaded_forced state)\<lparr>cs_my_collected := rr_collected read,
       cs_peer_collected := max (cs_peer_collected state) (peer_collected ring), cs_acceptance_pending := False\<rparr>"

definition finish_accept ::
  "flow_env \<Rightarrow> me \<Rightarrow> correspondence_label \<Rightarrow> conv_state \<Rightarrow> u16 option \<Rightarrow> u64 \<Rightarrow> accepted flow" where
  "finish_accept env me peer state slot now =
    (let identity = cs_peer_identity_pk state; incoming = cs_incoming_lookup_key state
     in fbind (own_field ''control key of the correspondent'' (cs_peer_control_key state)) (\<lambda>peer_key.
        fbind (own_field ''advert serial of the correspondent'' (cs_peer_advert_serial state)) (\<lambda>peer_serial.
        fbind (read_accepted_opening env 40 (sk_public_key (me_signer me)) peer_key incoming peer_serial identity
            (map_option pt_pk (rs_peer_latest (sn_receiving (cs_conversation state))))) (\<lambda>_.
        fbind (own_channel env me peer state) (\<lambda>outgoing_lookup_key.
        fbind (outstanding_zero env 41 peer) (\<lambda>zero.
        fbind (own_field ''outbox entry for the reply'' zero) (\<lambda>slot_bytes.
        fbind (flift (map_err FlChannel (header_decode slot_bytes))) (\<lambda>(reply_header, _).
        fbind (flift (ok_or (FlChain NoTurn) (h_kem_pk reply_header))) (\<lambda>first_ratchet_pk.
        fbind (mint_acceptance env me peer state outgoing_lookup_key first_ratchet_pk now) (\<lambda>_.
        fbind (flift (map_err FlChannel (ring_restore (cs_send_seq state) (cs_peer_collected state)))) (\<lambda>ring.
        fbind (read_ring env 100 incoming (cs_my_collected state) (restore (cs_conversation state)) ring) (\<lambda>(read, reader, ring).
        fbind (case slot of None \<Rightarrow> fret None
               | Some _ \<Rightarrow> fbind (flift (map_err FlDrop (drop_owner_seed (fe_ox env) (sk_public_key (me_signer me)))))
                   (\<lambda>d. fret (Some d))) (\<lambda>my_drop.
        fbind (fl_load env 43 peer) (\<lambda>state'.
        fbind (own_field ''control key of its own'' (cs_own_control_key state')) (\<lambda>own_control_key.
        fbind (own_field ''channel opening of its own'' (cs_own_opening state')) (\<lambda>opening_bytes.
        fbind (flift (map_err FlChannel (opening_decode opening_bytes))) (\<lambda>opening.
        fbind (flift (map_err FlChannel (seal_control_with_key (fe_ox env) (fe_draw env 44) own_control_key
            \<lparr>c_opening = Some opening, c_collected_cursor = cs_my_collected state', c_closed = False,
             c_generation = cs_generation state', c_reach = fst (fe_reach env), c_serial = snd (fe_reach env)\<rparr>))) (\<lambda>control.
        fbind (offer_hello_back env peer state' own_control_key outgoing_lookup_key (o_advert_serial opening) control
            slot_bytes (h_seq reply_header) identity) (\<lambda>fresh.
        fbind (write_all env 44
            ((case (my_drop, slot) of (Some owner, Some sl) \<Rightarrow> [BwEraseDropSlot owner sl] | _ \<Rightarrow> []) @
             [BwChannel outgoing_lookup_key CONTROL_SUBKEY control,
              BwChannel outgoing_lookup_key (slot_for (h_seq reply_header)) slot_bytes])) (\<lambda>_.
        fbind (hello_back env peer state' outgoing_lookup_key (o_advert_serial opening) identity fresh) (\<lambda>(hello_slot, repicks).
        fbind (fl_update_conv env 60 peer (accepted_conv reader (stored_force state) read ring)) (\<lambda>_.
        fret \<lparr>acd_peer = peer, acd_outgoing_lookup_key = outgoing_lookup_key, acd_messages = rr_messages read,
              acd_hello_slot = hello_slot, acd_repicks = repicks, acd_unopened = rr_unopened read\<rparr>))))))))))))))))))))))"

definition already_established :: "flow_env \<Rightarrow> correspondence_label \<Rightarrow> conv_state \<Rightarrow> accepted flow" where
  "already_established env peer state =
    fbind (if \<not> cs_awaiting_acceptance state \<and> cs_outstanding_hello state \<noteq> None \<and> cs_own_hello_secret state \<noteq> None
           then fl_update_conv env 61 peer (\<lambda>st. st\<lparr>cs_own_hello_secret := None\<rparr>) else fret ()) (\<lambda>_.
    ffail AlreadyEstablished)"

definition requested_conv ::
  "contact_request \<Rightarrow> byte list \<Rightarrow> conversation \<Rightarrow> ring \<Rightarrow> byte list \<Rightarrow> conv_state" where
  "requested_conv request outgoing_lookup_key conversation ring peer_key =
    \<lparr>cs_peer_identity_pk = cr_identity request, cs_outgoing_lookup_key = outgoing_lookup_key,
     cs_incoming_lookup_key = cr_lookup_key request, cs_generation = cr_generation request,
     cs_conversation = snapshot conversation, cs_send_seq = send_seq ring, cs_peer_collected = 0,
     cs_my_collected = 0, cs_cursor_published = 0, cs_awaiting_acceptance = False, cs_acceptance_pending = True,
     cs_outstanding_hello = None, cs_own_hello_secret = None, cs_own_hello_kem_ct = None, cs_own_control_key = None,
     cs_peer_control_key = Some peer_key, cs_peer_advert_serial = Some (cr_advert_serial request),
     cs_own_opening = None, cs_delete_pending = False\<rparr>"

definition accept :: "flow_env \<Rightarrow> me \<Rightarrow> contact_request \<Rightarrow> byte list \<Rightarrow> u64 \<Rightarrow> accepted flow" where
  "accept env me request reply now =
    fbind (correspondence_for env 0 (cr_identity request)) (\<lambda>known.
    case known of
      Some peer \<Rightarrow>
        fbind (fl_load env 1 peer) (\<lambda>state.
        if cs_delete_pending state then ffail DeletePending
        else if cs_acceptance_pending state \<and> cr_lookup_key request \<noteq> cs_incoming_lookup_key state then ffail AlreadyEstablished
        else if \<not> cs_acceptance_pending state then already_established env peer state
        else finish_accept env me peer state (Some (cr_slot request)) now)
    | None \<Rightarrow>
        fbind (flift (fits_a_message reply)) (\<lambda>_.
        fbind (flift (map_err FlChannel (derive_owner_seed (fe_ox env) (me_channel_root me) (cr_identity request)
            (cr_generation request)))) (\<lambda>channel_owner.
        fbind (rec_open_channel env 0 channel_owner) (\<lambda>outgoing_lookup_key.
        fbind (mint_label env) (\<lambda>peer.
        fbind (flift (map_err FlChain (chain_accept (fe_ox env) (cr_shared_secret request) (cr_first_ratchet_pk request)))) (\<lambda>conversation.
        fbind (seal_zero env 0 now reply conversation) (\<lambda>(seq, slot_bytes, conversation, ring).
        fbind (fl_persist_outbox env 2 peer seq slot_bytes now) (\<lambda>_.
        fbind (flift (map_err FlChannel (control_key (fe_ox env) (cr_shared_secret request)))) (\<lambda>peer_key.
        fbind (fl_create_conv env 3 peer (requested_conv request outgoing_lookup_key conversation ring peer_key)) (\<lambda>_.
        fbind (fl_load env 4 peer) (\<lambda>state.
        finish_accept env me peer state (Some (cr_slot request)) now)))))))))))"

definition continue_acceptance :: "flow_env \<Rightarrow> me \<Rightarrow> correspondence_label \<Rightarrow> u64 \<Rightarrow> accepted flow" where
  "continue_acceptance env me peer now =
    fbind (fl_load env 0 peer) (\<lambda>state.
    if cs_delete_pending state then ffail DeletePending
    else if \<not> cs_acceptance_pending state then already_established env peer state
    else finish_accept env me peer state None now)"

text \<open>\<open>preview\<close>: the messages of a request, read on a key schedule of its own; nothing is written.\<close>

definition preview :: "flow_env \<Rightarrow> me \<Rightarrow> contact_request \<Rightarrow> received_message list flow" where
  "preview env me request =
    fbind (flift (map_err FlChain (chain_accept (fe_ox env) (cr_shared_secret request) (cr_first_ratchet_pk request)))) (\<lambda>reader.
    fbind (flift (map_err FlChannel (control_key (fe_ox env) (cr_shared_secret request)))) (\<lambda>key.
    fbind (read_accepted_opening env 0 (sk_public_key (me_signer me)) key (cr_lookup_key request) (cr_advert_serial request)
        (cr_identity request) (Some (cr_first_ratchet_pk request))) (\<lambda>_.
    fbind (flift (map_err FlAdvert (advert_owner_seed (fe_ox env) (cr_identity request)))) (\<lambda>advert_owner.
    fbind (rec_read_advert env 1 advert_owner) (\<lambda>_.
    fbind (read_ring env 100 (cr_lookup_key request) 0 reader ring_new) (\<lambda>(read, _).
    fret (rr_messages read)))))))"

end
