(* ===== verification/Flow_Wp.thy ===== *)
theory Flow_Wp
  imports Acceptance Flow_Steps
begin

text \<open>
  What a flow of \<open>First_Contact\<close> and \<open>Acceptance\<close> that returns a result leaves behind: \<open>wp m Q w\<close> holds
  when, if \<open>m\<close> returns in \<open>w\<close>, \<open>Q\<close> holds of its result and the world it leaves. One rewrite rule per
  operation computes it through a whole flow.
\<close>

definition wp :: "'a flow \<Rightarrow> ('a \<Rightarrow> flow_world \<Rightarrow> bool) \<Rightarrow> flow_world \<Rightarrow> bool" where
  "wp m Q w \<longleftrightarrow> (\<forall>x w'. m w = (Inr x, w') \<longrightarrow> Q x w')"

lemma wpD: "wp m Q w \<Longrightarrow> m w = (Inr x, w') \<Longrightarrow> Q x w'"
  by (simp add: wp_def)

lemma wpI: "(\<And>x w'. m w = (Inr x, w') \<Longrightarrow> Q x w') \<Longrightarrow> wp m Q w"
  by (simp add: wp_def)

lemma wp_mono: "wp m Q w \<Longrightarrow> (\<And>x w'. Q x w' \<Longrightarrow> R x w') \<Longrightarrow> wp m R w"
  by (simp add: wp_def)

named_theorems wp_simps "the weakest precondition of each operation"

lemma wp_basic [wp_simps]:
  "wp (fret a) Q w = Q a w"
  "wp (ffail e) Q w = True"
  "wp (flift r) Q w = (\<forall>x. r = Inr x \<longrightarrow> Q x w)"
  "wp (own_field n y) Q w = (\<forall>x. y = Some x \<longrightarrow> Q x w)"
  "wp (ftry m) Q\<^sub>T w = (case m w of (r, w') \<Rightarrow> Q\<^sub>T r w')"
  by (auto simp: wp_def fret_def ffail_def flift_def own_field_def ftry_def result_simps split: prod.splits)

lemma wp_bind [wp_simps]: "wp (fbind m f) Q w = wp m (\<lambda>a. wp (f a) Q) w"
  by (auto simp: wp_def fbind_def split: prod.splits sum.splits)

lemma wp_split [wp_simps]:
  "wp (if b then m else m') Q w = ((b \<longrightarrow> wp m Q w) \<and> (\<not> b \<longrightarrow> wp m' Q w))"
  "wp (case y of None \<Rightarrow> m | Some a \<Rightarrow> f a) Q w = ((y = None \<longrightarrow> wp m Q w) \<and> (\<forall>a. y = Some a \<longrightarrow> wp (f a) Q w))"
  "wp (case p of (a, b) \<Rightarrow> g a b) Q w = (\<forall>a b. p = (a, b) \<longrightarrow> wp (g a b) Q w)"
  by (simp_all split: option.split prod.split)

section \<open>The records\<close>

definition drops_at :: "flow_env \<Rightarrow> nat \<Rightarrow> flow_world \<Rightarrow> drops" where
  "drops_at env i w = fe_writers env i (nt_drop (fw_net w))"

definition set_drops :: "drops \<Rightarrow> flow_world \<Rightarrow> flow_world" where
  "set_drops d w = w\<lparr>fw_net := (fw_net w)\<lparr>nt_drop := d\<rparr>\<rparr>"

definition set_channel :: "byte list \<Rightarrow> u16 \<Rightarrow> byte list \<Rightarrow> flow_world \<Rightarrow> flow_world" where
  "set_channel k sk bytes w = w\<lparr>fw_net := (fw_net w)\<lparr>nt_channel := (nt_channel (fw_net w))((k, sk) \<mapsto> bytes)\<rparr>\<rparr>"

definition add_offer :: "acceptance_writes \<Rightarrow> flow_world \<Rightarrow> flow_world" where
  "add_offer a w = w\<lparr>fw_net := (fw_net w)\<lparr>nt_offered := nt_offered (fw_net w) @ [a]\<rparr>\<rparr>"

lemma add_offer_simps [simp]:
  "fw_store (add_offer a w) = fw_store w" "nt_channel (fw_net (add_offer a w)) = nt_channel (fw_net w)"
  "nt_advert (fw_net (add_offer a w)) = nt_advert (fw_net w)" "nt_drop (fw_net (add_offer a w)) = nt_drop (fw_net w)"
  by (simp_all add: add_offer_def)

lemma set_drops_simps [simp]:
  "fw_store (set_drops d w) = fw_store w" "nt_channel (fw_net (set_drops d w)) = nt_channel (fw_net w)"
  "nt_advert (fw_net (set_drops d w)) = nt_advert (fw_net w)" "nt_drop (fw_net (set_drops d w)) = d"
  by (simp_all add: set_drops_def)

lemma set_channel_simps [simp]:
  "fw_store (set_channel k sk b w) = fw_store w" "nt_channel (fw_net (set_channel k sk b w)) = (nt_channel (fw_net w))((k, sk) \<mapsto> b)"
  "nt_advert (fw_net (set_channel k sk b w)) = nt_advert (fw_net w)" "nt_drop (fw_net (set_channel k sk b w)) = nt_drop (fw_net w)"
  by (simp_all add: set_channel_def)

lemma wp_records [wp_simps]:
  "wp (rec_read_advert env i owner) Q w = (fe_rec env i = RecOk \<longrightarrow> Q (nt_advert (fw_net w) owner) w)"
  "wp (rec_read_drop_slot env i owner slot) Q w =
     (fe_rec env i = RecOk \<longrightarrow> Q (drops_at env i w (owner, slot)) (set_drops (drops_at env i w) w))"
  "wp (rec_write_drop_slot env i owner slot bytes) Q\<^sub>U w =
     (fe_rec env i = RecOk \<longrightarrow> Q\<^sub>U () (set_drops ((drops_at env i w)((owner, slot) \<mapsto> bytes)) w))"
  "wp (rec_erase_drop_slot env i owner slot) Q\<^sub>U w =
     (fe_rec env i = RecOk \<longrightarrow> Q\<^sub>U () (set_drops ((drops_at env i w)((owner, slot) := None)) w))"
  "wp (rec_open_channel env i owner) Q\<^sub>K w = (fe_rec env i = RecOk \<longrightarrow> Q\<^sub>K (fe_channel_key env owner) w)"
  "wp (rec_read_channel env i k sk) Q w = (fe_rec env i = RecOk \<longrightarrow> Q (nt_channel (fw_net w) (k, sk)) w)"
  "wp (rec_write_channel env i k sk bytes) Q\<^sub>U w = (fe_rec env i = RecOk \<longrightarrow> Q\<^sub>U () (set_channel k sk bytes w))"
  "wp (rec_offer_acceptance a) Q\<^sub>U w = Q\<^sub>U () (add_offer a w)"
  by (auto simp: wp_def rec_read_advert_def rec_read_drop_slot_def rec_write_drop_slot_def rec_erase_drop_slot_def
      rec_open_channel_def rec_read_channel_def rec_write_channel_def rec_offer_acceptance_def at_drop_def
      at_records_def drops_at_def set_drops_def set_channel_def add_offer_def split: record_io.splits)

section \<open>The store\<close>

text \<open>Nothing else of the node works on the store while the flow runs.\<close>

definition alone :: "flow_env \<Rightarrow> bool" where
  "alone env \<longleftrightarrow> fe_between env = (\<lambda>_ s. s)"

definition touch :: "correspondence_label \<Rightarrow> files \<Rightarrow> flow_world \<Rightarrow> flow_world" where
  "touch p fs w = w\<lparr>fw_store := set_files p fs (fw_store w)\<rparr>"

definition files_at :: "correspondence_label \<Rightarrow> flow_world \<Rightarrow> files" where
  "files_at p w = sto_files (fw_store w) p"

lemma touch_simps [simp]:
  "fw_net (touch p fs w) = fw_net w" "files_at p (touch p fs w) = fs" "files_at p (set_drops d w) = files_at p w"
  "files_at p (set_channel k sk b w) = files_at p w" "files_at p (add_offer a w) = files_at p w" "touch p fs' (touch p fs w) = touch p fs' w"
  by (simp_all add: touch_def files_at_def set_drops_def set_channel_def add_offer_def set_files_def)

lemma set_drops_again [simp]: "set_drops d (set_drops d' w) = set_drops d w"
  by (simp add: set_drops_def)

lemma touch_commute:
  "touch p fs (set_drops d w) = set_drops d (touch p fs w)" "touch p fs (set_channel k sk b w) = set_channel k sk b (touch p fs w)"
  by (simp_all add: touch_def set_drops_def set_channel_def)

lemma flow_load_eq:
  "flow_load io p s = (case load_conv io p s of (Inr (Some st), s') \<Rightarrow> (Inr st, s') | (Inr None, s') \<Rightarrow> (Inl (FlStore MissingConversation), s')
     | (Inl e, s') \<Rightarrow> (Inl (FlStore e), s'))"
  by (auto simp: flow_load_def split: prod.splits sum.splits option.splits)

lemma wp_store:
  assumes "alone env"
  shows "wp (fl_load env i p) Q w =
      (\<forall>st. fe_io env i = IoOk \<longrightarrow> f_conv (files_at p w) = Held st \<longrightarrow> Q st (touch p (files_at p w) w))"
    "wp (fl_update_conv env i p f) Q\<^sub>U w =
      (\<forall>st. fe_io env i = IoOk \<longrightarrow> f_conv (files_at p w) = Held st \<longrightarrow> Q\<^sub>U () (touch p ((files_at p w)\<lparr>f_conv := Held (f st)\<rparr>) w))"
    "wp (fl_try_update_conv env i p g) Q' w =
      (\<forall>st t st'. fe_io env i = IoOk \<longrightarrow> f_conv (files_at p w) = Held st \<longrightarrow> g st = Inr (t, st') \<longrightarrow>
         Q' t (touch p ((files_at p w)\<lparr>f_conv := Held st'\<rparr>) w))"
    "wp (fl_create_conv env i p st) Q\<^sub>U w =
      (fe_io env i = IoOk \<longrightarrow> f_conv (files_at p w) = Absent \<longrightarrow> Q\<^sub>U () (touch p ((files_at p w)\<lparr>f_conv := Held st\<rparr>) w))"
proof -
  have same: "fs\<lparr>f_conv := Held st\<rparr> = fs" if "f_conv fs = Held st" for fs st using that by (cases fs) simp
  note defs = wp_def at_store_def files_at_def touch_def critical_section_def read_conv_def result_simps same
    assms [unfolded alone_def]
  consider st where "f_conv (sto_files (fw_store w) p) = Held st" | "held (f_conv (sto_files (fw_store w) p)) = None"
    by (cases "f_conv (sto_files (fw_store w) p)") auto
  note c = this
  show "wp (fl_load env i p) Q w =
      (\<forall>st. fe_io env i = IoOk \<longrightarrow> f_conv (files_at p w) = Held st \<longrightarrow> Q st (touch p (files_at p w) w))"
    by (cases "fe_io env i"; cases rule: c) (auto simp: defs fl_load_def flow_load_eq load_conv_def)
  show "wp (fl_update_conv env i p f) Q\<^sub>U w =
      (\<forall>st. fe_io env i = IoOk \<longrightarrow> f_conv (files_at p w) = Held st \<longrightarrow> Q\<^sub>U () (touch p ((files_at p w)\<lparr>f_conv := Held (f st)\<rparr>) w))"
    by (cases "fe_io env i"; cases rule: c) (auto simp: defs fl_update_conv_def update_conv_def)
  show "wp (fl_try_update_conv env i p g) Q' w =
      (\<forall>st t st'. fe_io env i = IoOk \<longrightarrow> f_conv (files_at p w) = Held st \<longrightarrow> g st = Inr (t, st') \<longrightarrow>
         Q' t (touch p ((files_at p w)\<lparr>f_conv := Held st'\<rparr>) w))"
    by (cases "fe_io env i"; cases rule: c)
      (auto simp: defs fl_try_update_conv_def flow_update_def try_update_conv_def split: sum.splits prod.splits)
  show "wp (fl_create_conv env i p st) Q\<^sub>U w =
      (fe_io env i = IoOk \<longrightarrow> f_conv (files_at p w) = Absent \<longrightarrow> Q\<^sub>U () (touch p ((files_at p w)\<lparr>f_conv := Held st\<rparr>) w))"
    by (cases "fe_io env i"; cases "f_conv (sto_files (fw_store w) p)") (auto simp: defs fl_create_conv_def create_conv_def)
qed

lemma ring_index_in_outbox: "ring_index q < 63"
  by (simp add: ring_index_def RING_SLOTS_def unat_mod_distrib)

lemma wp_persist_outbox:
  assumes "alone env" "f_outbox (files_at p w) = Absent"
  shows "wp (fl_persist_outbox env i p seq ct t) Q w =
    (fe_io env i = IoOk \<longrightarrow> length ct \<le> CHANNEL_SUBKEY_LEN \<longrightarrow>
      Q () (touch p ((files_at p w)\<lparr>f_outbox := Held (empty_outbox[ring_index seq :=
        Some \<lparr>oe_seq = seq, oe_sent_at = t, oe_ciphertext = ct\<rparr>])\<rparr>) w))"
proof -
  have "empty_outbox ! ring_index seq = None"
    using ring_index_in_outbox [of seq] by (simp add: empty_outbox_def RING_SLOTS_def)
  then show ?thesis
    using assms
    by (cases "fe_io env i") (auto simp: wp_def at_store_def fl_persist_outbox_def persist_outbox_def critical_section_def
        read_outbox_table_def alone_def files_at_def touch_def Let_def)
qed

text \<open>
  No label but \<open>p\<close> holds a conversation with the identity; \<open>loaded\<close> is the store after a load of every
  conversation, which finishes the deletions that had stopped.
\<close>

definition sole :: "correspondence_label \<Rightarrow> byte list \<Rightarrow> flow_world \<Rightarrow> bool" where
  "sole p pk w \<longleftrightarrow> distinct (sto_peers (fw_store w)) \<and>
     (\<forall>q. q \<notin> set (sto_peers (fw_store w)) \<longrightarrow> files_at q w = no_files) \<and>
     (\<forall>q st. q \<noteq> p \<longrightarrow> f_conv (files_at q w) = Held st \<longrightarrow> cs_peer_identity_pk st \<noteq> pk)"

definition loaded :: "flow_world \<Rightarrow> flow_world" where
  "loaded w = w\<lparr>fw_store := snd (load_all (sto_peers (fw_store w)) (fw_store w))\<rparr>"

definition settled_files :: "files \<Rightarrow> bool" where
  "settled_files fs \<longleftrightarrow> fs = no_files \<or>
     (\<exists>st. f_conv fs = Held st) \<and> f_outbox fs \<noteq> Scrubbed \<and> f_handle fs \<noteq> Scrubbed \<and> f_route fs \<noteq> Scrubbed"

lemma settled_load: "settled_files fs \<Longrightarrow> snd (load_one p fs) = fs"
  by (cases fs; cases "f_outbox fs"; cases "f_handle fs"; cases "f_route fs")
    (auto simp: settled_files_def load_one_def read_conv_def read_outbox_table_def no_files_def Let_def)

lemma sole_world [simp]:
  "sole p pk (set_drops d w) = sole p pk w" "sole p pk (set_channel k sk b w) = sole p pk w"
  "sole p pk (add_offer a w) = sole p pk w"
  by (simp_all add: sole_def files_at_def set_drops_def set_channel_def add_offer_def)

lemma sole_touch [simp]: "sole p pk w \<Longrightarrow> sole p pk (touch p fs w)"
  by (auto simp: sole_def files_at_def touch_def set_files_def)

lemma loaded_net [simp]: "fw_net (loaded w) = fw_net w"
  by (simp add: loaded_def)

lemma load_one_held: "held (f_conv (snd (load_one p fs))) = held (f_conv fs)"
  by (cases "f_conv fs") (auto simp: load_one_def read_conv_def read_outbox_table_def Let_def)

lemma load_one_identity:
  "fst (load_one p fs) = Some c \<Longrightarrow> lc_peer c = p \<and> f_conv fs = Held (lc_state c)"
  by (cases "f_conv fs") (auto simp: load_one_def read_conv_def read_outbox_table_def Let_def)

lemma load_all_peers: "set ps \<subseteq> set (sto_peers s) \<Longrightarrow> sto_peers (snd (load_all ps s)) = sto_peers s"
proof (induction ps arbitrary: s)
  case (Cons a ps)
  from Cons.prems have e: "sto_peers (set_files a fs s) = sto_peers s" for fs by (simp add: set_files_def)
  obtain c fs where l: "load_one a (sto_files s a) = (c, fs)" by fastforce
  have "snd (load_all (a # ps) s) = snd (load_all ps (set_files a fs s))" by (simp add: l split: prod.split)
  with Cons e [of fs] show ?case by simp
qed simp

lemma loaded_sole [simp]:
  assumes "sole p pk w" "settled_files (files_at p w)"
  shows "sole p pk (loaded w)" "files_at p (loaded w) = files_at p w"
proof -
  let ?s = "fw_store w"
  have d: "distinct (sto_peers ?s)" using assms(1) by (simp add: sole_def)
  note f = load_all_files [OF d, THEN conjunct2]
  show p: "files_at p (loaded w) = files_at p w"
    using assms f by (simp add: files_at_def loaded_def settled_load)
  have h: "held (f_conv (files_at q (loaded w))) = held (f_conv (files_at q w))" for q
    using f by (simp add: files_at_def loaded_def load_one_held)
  have c: "f_conv (files_at q (loaded w)) = Held st \<Longrightarrow> f_conv (files_at q w) = Held st" for q st
    using h [of q] by (cases "f_conv (files_at q w)") simp_all
  have e: "sto_peers (fw_store (loaded w)) = sto_peers ?s" by (simp add: loaded_def load_all_peers)
  have n: "q \<notin> set (sto_peers ?s) \<Longrightarrow> files_at q (loaded w) = files_at q w" for q
    using f by (simp add: files_at_def loaded_def)
  show "sole p pk (loaded w)" using assms(1) c n unfolding sole_def e by metis
qed

lemma find_unique:
  assumes "distinct ps" "p \<in> set ps" "f p = Some c" "P c" "\<And>q d. q \<in> set ps \<Longrightarrow> q \<noteq> p \<Longrightarrow> f q = Some d \<Longrightarrow> \<not> P d"
  shows "find P (List.map_filter f ps) = Some c"
  using assms by (induction ps) (auto simp: map_filter_simps split: option.splits)

lemma find_none:
  assumes "\<And>q d. q \<in> set ps \<Longrightarrow> f q = Some d \<Longrightarrow> \<not> P d"
  shows "find P (List.map_filter f ps) = None"
  using assms by (induction ps) (auto simp: map_filter_simps split: option.splits)

lemma wp_load_all:
  "alone env \<Longrightarrow> wp (fl_load_all env i) Q w =
    (fe_io env i = IoOk \<longrightarrow> Q (fst (load_all (sto_peers (fw_store w)) (fw_store w))) (loaded w))"
  by (cases "fe_io env i") (auto simp: wp_def fl_load_all_def at_store_def store_load_def alone_def loaded_def split: prod.splits)

lemma peers_of_files: "sole p pk w \<Longrightarrow> files_at q w \<noteq> no_files \<Longrightarrow> q \<in> set (sto_peers (fw_store w))"
  by (auto simp: sole_def)

lemma held_is_loaded:
  assumes "sole p pk w" "f_conv (files_at p w) = Held st"
  shows "p \<in> set (sto_peers (fw_store w))" "\<exists>c. fst (load_one p (files_at p w)) = Some c \<and> lc_peer c = p \<and> lc_state c = st \<and>
    lc_outstanding_outbox c = outstanding st (case held (f_outbox (files_at p w)) of Some t \<Rightarrow> t | None \<Rightarrow> empty_outbox)"
proof -
  show "p \<in> set (sto_peers (fw_store w))" using assms by (auto intro!: peers_of_files simp: no_files_def)
qed (use assms in \<open>auto simp: load_one_def read_conv_def read_outbox_table_def Let_def\<close>)

lemma wp_correspondence_for:
  assumes "alone env" "sole p pk w"
  shows "f_conv (files_at p w) = Held st \<Longrightarrow> cs_peer_identity_pk st = pk \<Longrightarrow>
      wp (correspondence_for env i pk) Q w = (fe_io env i = IoOk \<longrightarrow> Q (Some p) (loaded w))"
    "held (f_conv (files_at p w)) = None \<Longrightarrow>
      wp (correspondence_for env i pk) Q w = (fe_io env i = IoOk \<longrightarrow> Q None (loaded w))"
proof -
  let ?s = "fw_store w" and ?P = "\<lambda>c. cs_peer_identity_pk (lc_state c) = pk"
  have d: "distinct (sto_peers ?s)" using assms(2) by (simp add: sole_def)
  note f = load_all_files [OF d, THEN conjunct1]
  have no: "\<not> ?P c" if "q \<noteq> p" "fst (load_one q (sto_files ?s q)) = Some c" for q c
    using assms(2) load_one_identity [OF that(2)] that(1) by (auto simp: sole_def files_at_def)
  show "wp (correspondence_for env i pk) Q w = (fe_io env i = IoOk \<longrightarrow> Q (Some p) (loaded w))"
    if h: "f_conv (files_at p w) = Held st" "cs_peer_identity_pk st = pk"
  proof -
    from held_is_loaded [OF assms(2) h(1)] obtain c where c: "p \<in> set (sto_peers ?s)"
      "fst (load_one p (sto_files ?s p)) = Some c" "lc_peer c = p" "lc_state c = st" unfolding files_at_def by blast
    then have "find ?P (fst (load_all (sto_peers ?s) ?s)) = Some c"
      unfolding f using h(2) no by (intro find_unique [OF d, of p]) auto
    with assms(1) c show ?thesis by (simp add: correspondence_for_def wp_simps wp_load_all)
  qed
  show "wp (correspondence_for env i pk) Q w = (fe_io env i = IoOk \<longrightarrow> Q None (loaded w))"
    if h: "held (f_conv (files_at p w)) = None"
  proof -
    have "\<not> ?P c" if "fst (load_one q (sto_files ?s q)) = Some c" for q c
      using no [OF _ that] load_one_identity [OF that] h by (cases "q = p") (auto simp: files_at_def)
    then have "find ?P (fst (load_all (sto_peers ?s) ?s)) = None" unfolding f by (intro find_none) blast
    with assms(1) show ?thesis by (simp add: correspondence_for_def wp_simps wp_load_all)
  qed
qed

lemma wp_outstanding_zero:
  assumes "alone env" "sole p pk w" "f_conv (files_at p w) = Held st" "f_outbox (files_at p w) = Held table"
  shows "wp (outstanding_zero env i p) Q w =
    (fe_io env i = IoOk \<longrightarrow> Q (map_option oe_ciphertext (find (\<lambda>e. oe_seq e = 0) (outstanding st table))) (loaded w))"
proof -
  let ?s = "fw_store w"
  have d: "distinct (sto_peers ?s)" using assms(2) by (simp add: sole_def)
  from held_is_loaded [OF assms(2,3)] obtain c where c: "p \<in> set (sto_peers ?s)"
    "fst (load_one p (sto_files ?s p)) = Some c" "lc_peer c = p" "lc_outstanding_outbox c = outstanding st table"
    unfolding files_at_def using assms(4) by (auto simp: files_at_def)
  have "find (\<lambda>c. lc_peer c = p) (fst (load_all (sto_peers ?s) ?s)) = Some c"
    unfolding load_all_files [OF d, THEN conjunct1] using c load_one_identity by (intro find_unique [OF d, of p]) blast+
  with assms(1) c show ?thesis by (simp add: outstanding_zero_def wp_simps wp_load_all)
qed

section \<open>A flow none of whose operations fails\<close>

text \<open>With these rules the simplifier runs a flow whose environment answers.\<close>

definition answers :: "flow_env \<Rightarrow> bool" where
  "answers env \<longleftrightarrow> alone env \<and> (\<forall>i. fe_io env i = IoOk \<and> fe_rec env i = RecOk)"

lemma run_basic:
  "fret a w = (Inr a, w)" "ffail e w = (Inl e, w)" "flift r w = (r, w)" "own_field n (Some x) w = (Inr x, w)"
  "m w = (Inr a, w\<^sub>1) \<Longrightarrow> fbind m f w = f a w\<^sub>1" "m w = (r, w\<^sub>1) \<Longrightarrow> ftry m w = (Inr r, w\<^sub>1)"
  by (simp_all add: fret_def ffail_def flift_def own_field_def fbind_def ftry_def)

lemma run_records:
  assumes "answers env"
  shows "rec_read_drop_slot env i owner slot w = (Inr (drops_at env i w (owner, slot)), set_drops (drops_at env i w) w)"
    "rec_erase_drop_slot env i owner slot w = (Inr (), set_drops ((drops_at env i w)((owner, slot) := None)) w)"
    "rec_read_channel env i k sk w = (Inr (nt_channel (fw_net w) (k, sk)), w)"
  using assms
  by (simp_all add: answers_def rec_read_drop_slot_def rec_erase_drop_slot_def rec_read_channel_def at_drop_def at_records_def
      drops_at_def set_drops_def)

lemma run_store:
  assumes "answers env" "f_conv (files_at p w) = Held st"
  shows "fl_load env i p w = (Inr st, touch p (files_at p w) w)"
    "g st = Inr (t, st') \<Longrightarrow> fl_try_update_conv env i p g w = (Inr t, touch p ((files_at p w)\<lparr>f_conv := Held st'\<rparr>) w)"
proof -
  have same: "fs\<lparr>f_conv := Held st\<rparr> = fs" if "f_conv fs = Held st" for fs using that by (cases fs) simp
  show "fl_load env i p w = (Inr st, touch p (files_at p w) w)"
    using assms by (simp add: answers_def alone_def fl_load_def at_store_def flow_load_eq load_conv_def critical_section_def
        read_conv_def files_at_def touch_def same)
  show "g st = Inr (t, st') \<Longrightarrow> fl_try_update_conv env i p g w = (Inr t, touch p ((files_at p w)\<lparr>f_conv := Held st'\<rparr>) w)"
    using assms by (simp add: answers_def alone_def fl_try_update_conv_def at_store_def flow_update_def try_update_conv_def
        critical_section_def read_conv_def files_at_def touch_def)
qed

lemma run_correspondence_for:
  assumes "answers env" "sole p pk w"
  shows "f_conv (files_at p w) = Held st \<Longrightarrow> cs_peer_identity_pk st = pk \<Longrightarrow>
      correspondence_for env i pk w = (Inr (Some p), loaded w)"
    "held (f_conv (files_at p w)) = None \<Longrightarrow> correspondence_for env i pk w = (Inr None, loaded w)"
proof -
  have a: "alone env" and io: "fe_io env i = IoOk" using assms(1) by (simp_all add: answers_def)
  have r: "\<exists>x w'. correspondence_for env i pk w = (Inr x, w')"
    using io by (simp add: correspondence_for_def fbind_def fl_load_all_def at_store_def store_load_def fret_def split: prod.split)
  show "correspondence_for env i pk w = (Inr (Some p), loaded w)"
    if "f_conv (files_at p w) = Held st" "cs_peer_identity_pk st = pk"
    using wp_correspondence_for(1) [OF a assms(2) that, of i "\<lambda>x w'. x = Some p \<and> w' = loaded w"] io r by (auto simp: wp_def)
  show "correspondence_for env i pk w = (Inr None, loaded w)" if "held (f_conv (files_at p w)) = None"
    using wp_correspondence_for(2) [OF a assms(2) that, of i "\<lambda>x w'. x = None \<and> w' = loaded w"] io r by (auto simp: wp_def)
qed

end
