(* ===== verification/Handshake.thy ===== *)
theory Handshake
  imports Flow_Wp
begin

text \<open>
  What the flows of a handshake leave behind, computed with the weakest preconditions of \<open>Flow_Wp\<close>: the placement of
  a hello, the records and the store after a first contact, and that its recipient reads the announced channel.
\<close>

section \<open>Placing a hello\<close>

text \<open>Every draw but the eight bytes of a generation (site 0) fills 32 bytes.\<close>

definition draws_sized :: "flow_env \<Rightarrow> bool" where
  "draws_sized env \<longleftrightarrow> (\<forall>i j b. 0 < i \<longrightarrow> fe_fill env i j = Some b \<longrightarrow> length b = 32)"

definition attempt_ok :: "oxi \<Rightarrow> hello_attempt \<Rightarrow> bool" where
  "attempt_ok ox at \<longleftrightarrow> drop_slot_for ox (ha_r at) = Inr (ha_slot at) \<and> length (ha_r at) = HELLO_R_LEN"

definition placed :: "outstanding_hello \<Rightarrow> conv_state \<Rightarrow> conv_state" where
  "placed hello st = st\<lparr>cs_outstanding_hello := Some hello,
     cs_own_hello_secret := (if cs_awaiting_acceptance st then cs_own_hello_secret st else None)\<rparr>"

lemma place_closure_Inr:
  "place_closure a hello st = Inr (u, st') \<longleftrightarrow> (a \<longrightarrow> cs_awaiting_acceptance st) \<and> st' = placed hello st"
  by (auto simp: place_closure_def placed_def Let_def)

lemma first_attempt_ok:
  assumes "draws_sized env" "0 < i"
  shows "wp (first_attempt env i) (\<lambda>at w'. w' = w \<and> attempt_ok (fe_ox env) at \<and> ha_repicks at = 0) w"
  using assms
  by (auto simp: first_attempt_def wp_simps result_simps repick_def attempt_new_def attempt_ok_def draws_sized_def
      HELLO_R_LEN_def)

lemma read_back_ok:
  assumes "draws_sized env" "0 < i" "attempt_ok (fe_ox env) at"
    "attempt_read_back (fe_ox env) written found (fe_fill env i) at = (Inr rb, at')"
  shows "attempt_ok (fe_ox env) at'" "rb = Landed \<Longrightarrow> at' = at \<and> found = Some written"
  using assms
  by (auto simp: attempt_read_back_def after_read_back_def attempt_ok_def draws_sized_def repick_def result_simps
      HELLO_R_LEN_def split: if_splits sum.splits)

lemma wp_read_back:
  "wp (read_back_flow env i written found at) Q w =
    (\<forall>rb at'. attempt_read_back (fe_ox env) written found (fe_fill env i) at = (Inr rb, at') \<longrightarrow> Q (rb, at') w)"
  by (auto simp: read_back_flow_def wp_simps split: prod.splits sum.splits)

definition hello_placed ::
  "flow_env \<Rightarrow> correspondence_label \<Rightarrow> byte list \<Rightarrow> byte list \<Rightarrow> byte list \<Rightarrow> hello_seal \<Rightarrow> flow_world \<Rightarrow> hello_attempt \<Rightarrow> flow_world \<Rightarrow> bool" where
  "hello_placed env p owner pk key seal w at w' \<longleftrightarrow> (\<exists>st draw hello d. f_conv (files_at p w) = Held st \<and>
     seal_outstanding (fe_ox env) draw seal key pk at = Inr hello \<and> attempt_ok (fe_ox env) at \<and>
     d (owner, ha_slot at) = Some (oh_sealed hello) \<and>
     w' = set_drops d (touch p ((files_at p w)\<lparr>f_conv := Held (placed hello st)\<rparr>) w))"

lemma placed_simps [simp]:
  "cs_awaiting_acceptance (placed h st) = cs_awaiting_acceptance st"
  "placed h' (placed h st) = placed h' st"
  by (simp_all add: placed_def)

lemma hello_placed_again:
  assumes "f_conv (files_at p w) = Held st"
    "hello_placed env p owner pk key seal
       (set_drops d (touch p ((files_at p w)\<lparr>f_conv := Held (placed hello st)\<rparr>) w)) at w'"
  shows "hello_placed env p owner pk key seal w at w'"
  using assms
  by (auto simp: hello_placed_def touch_commute)

lemma place_rounds_lands:
  assumes "alone env" "draws_sized env" "0 < i" "attempt_ok (fe_ox env) at"
  shows "wp (place_rounds env i n p owner pk key seal a at) (hello_placed env p owner pk key seal w) w"
  using assms
proof (induction n arbitrary: i at w)
  case (Suc n)
  note s = wp_store [OF Suc.prems(1)]
  have landed: "hello_placed env p owner pk key seal w at''
      (set_drops d (touch p ((files_at p w)\<lparr>f_conv := Held (placed hello st)\<rparr>) w))"
    if "attempt_read_back (fe_ox env) (oh_sealed hello) (d (owner, ha_slot at)) (fe_fill env i) at = (Inr Landed, at'')"
      "seal_outstanding (fe_ox env) (fe_draw env i) seal key pk at = Inr hello" "f_conv (files_at p w) = Held st" for hello st at'' d
  proof -
    from read_back_ok [OF Suc.prems(2,3,4) that(1)] have "at'' = at" "d (owner, ha_slot at) = Some (oh_sealed hello)" by simp_all
    with that(2,3) Suc.prems(4) show ?thesis unfolding hello_placed_def by blast
  qed
  have again: "wp (place_rounds env (i + 2) n p owner pk key seal a at'') (hello_placed env p owner pk key seal w)
      (set_drops d (touch p ((files_at p w)\<lparr>f_conv := Held (placed hello st)\<rparr>) w))"
    if "attempt_read_back (fe_ox env) written found (fe_fill env i) at = (Inr rb, at'')" "f_conv (files_at p w) = Held st"
    for written found rb at'' st d hello
    by (rule wp_mono [OF Suc.IH [OF Suc.prems(1,2) _ read_back_ok(1) [OF Suc.prems(2,3,4) that(1)]]])
      (use hello_placed_again [OF that(2)] in simp_all)
  show ?case
    by (simp add: wp_simps s wp_read_back place_closure_Inr) (blast intro: landed again [simplified])
qed (simp add: wp_simps)

lemma wp_place_hello:
  assumes "alone env" "draws_sized env" "attempt_ok (fe_ox env) at"
    and "\<And>owner at' w'. drop_owner_seed (fe_ox env) pk = Inr owner \<Longrightarrow> hello_placed env p owner pk key seal w at' w' \<Longrightarrow> Q at' w'"
  shows "wp (place_hello env i p pk key seal at) Q w"
proof -
  have "hello_placed env p owner pk key seal w at' w'"
    if "f_conv (files_at p w) = Held st" "hello_placed env p owner pk key seal (touch p (files_at p w) w) at' w'" for owner at' w' st
    using that by (auto simp: hello_placed_def)
  note h = this
  show ?thesis
    unfolding place_hello_def wp_simps wp_store [OF assms(1)]
    using assms(4) h by (fastforce simp: result_simps intro: wp_mono [OF place_rounds_lands [OF assms(1,2) _ assms(3)]])
qed

section \<open>What a first contact leaves\<close>

definition opened_files :: "conv_state \<Rightarrow> u64 \<Rightarrow> byte list \<Rightarrow> files" where
  "opened_files st now slot = no_files\<lparr>f_conv := Held st,
     f_outbox := Held (empty_outbox[0 := Some \<lparr>oe_seq = 0, oe_sent_at = now, oe_ciphertext = slot\<rparr>])\<rparr>"

lemma opened_files_simps [simp]:
  "settled_files (opened_files st now slot)" "f_conv (opened_files st now slot) = Held st"
  "(opened_files st now slot)\<lparr>f_conv := Held st'\<rparr> = opened_files st' now slot"
  "f_outbox (opened_files st now slot) = Held (empty_outbox[0 := Some \<lparr>oe_seq = 0, oe_sent_at = now, oe_ciphertext = slot\<rparr>])"
  by (simp_all add: opened_files_def settled_files_def no_files_def)

lemma outstanding_first:
  assumes "\<not> cs_delete_pending st" "cs_peer_collected st = 0" "cs_send_seq st = 1"
  shows "find (\<lambda>e. oe_seq e = 0) (outstanding st (empty_outbox[0 := Some \<lparr>oe_seq = 0, oe_sent_at = t, oe_ciphertext = ct\<rparr>]))
    = Some \<lparr>oe_seq = 0, oe_sent_at = t, oe_ciphertext = ct\<rparr>"
proof -
  have "concat (map (\<lambda>slot. case slot of None \<Rightarrow> [] | Some e \<Rightarrow> [e]) (replicate n None)) = []" for n by (induction n) simp_all
  moreover have "empty_outbox[0 := x] = x # replicate 62 None" for x
  proof -
    have "empty_outbox = replicate (Suc 62) None" by (simp add: empty_outbox_def RING_SLOTS_def)
    also have "\<dots>[0 := x] = x # replicate 62 None" unfolding replicate_Suc by (rule list_update_code(2))
    finally show ?thesis .
  qed
  ultimately show ?thesis using assms by (simp add: outstanding_def)
qed

text \<open>The two writes and the hello of \<open>finish_first_contact\<close>; \<open>key\<close> is the own channel.\<close>

definition contact_finished ::
  "flow_env \<Rightarrow> correspondence_label \<Rightarrow> conv_state \<Rightarrow> u64 \<Rightarrow> byte list \<Rightarrow> network \<Rightarrow> u16 \<Rightarrow> flow_world \<Rightarrow> bool" where
  "contact_finished env p st now slot net at_slot w' \<longleftrightarrow>
    (\<exists>opening_bytes opening ck secret kem_ct draw control owner hdraw at hello.
       cs_own_opening st = Some opening_bytes \<and> opening_decode opening_bytes = Inr opening \<and>
       cs_own_control_key st = Some ck \<and> cs_own_hello_secret st = Some secret \<and> cs_own_hello_kem_ct st = Some kem_ct \<and>
       seal_control_with_key (fe_ox env) draw ck \<lparr>c_opening = Some opening, c_collected_cursor = 0, c_closed = False,
         c_generation = cs_generation st, c_reach = fst (fe_reach env), c_serial = snd (fe_reach env)\<rparr> = Inr control \<and>
       drop_owner_seed (fe_ox env) (cs_peer_identity_pk st) = Inr owner \<and>
       attempt_ok (fe_ox env) at \<and> at_slot = ha_slot at \<and>
       seal_outstanding (fe_ox env) hdraw \<lparr>hs_shared_secret = secret, hs_kem_ct = kem_ct,
         hs_advert_serial = o_advert_serial opening, hs_original = None\<rparr> (cs_outgoing_lookup_key st) (cs_peer_identity_pk st) at = Inr hello \<and>
       files_at p w' = opened_files (placed hello st) now slot \<and> sole p (cs_peer_identity_pk st) w' \<and>
       nt_channel (fw_net w') = (nt_channel net)((cs_outgoing_lookup_key st, CONTROL_SUBKEY) \<mapsto> control,
         (cs_outgoing_lookup_key st, slot_for 0) \<mapsto> slot) \<and>
       nt_advert (fw_net w') = nt_advert net \<and> nt_drop (fw_net w') (owner, at_slot) = Some (oh_sealed hello))"

lemma finish_first_contact_leaves:
  assumes "alone env" "draws_sized env" "sole p (cs_peer_identity_pk st) w" "files_at p w = opened_files st now slot"
    and "\<not> cs_delete_pending st" "cs_peer_collected st = 0" "cs_send_seq st = 1"
  shows "wp (finish_first_contact env p st)
    (\<lambda>r w'. \<exists>at_slot n. r = Opened p (cs_outgoing_lookup_key st) at_slot n \<and> contact_finished env p st now slot (fw_net w) at_slot w') w"
proof -
  have o: "wp (outstanding_zero env 10 p) Q w = (fe_io env 10 = IoOk \<longrightarrow> Q (Some slot) (loaded w))" for Q
    using wp_outstanding_zero [OF assms(1,3), of st] assms(4-7) by (simp add: outstanding_first)
  have l: "sole p (cs_peer_identity_pk st) (loaded w)" "files_at p (loaded w) = opened_files st now slot"
    using loaded_sole [OF assms(3)] assms(4) by simp_all
  show ?thesis
    unfolding finish_first_contact_def
    apply (simp add: wp_simps o batch_one.simps)
    apply (intro allI impI)
    apply (rule wp_mono [OF first_attempt_ok [OF assms(2)]], simp)
    apply (clarify, subst wp_bind)
    apply (rule wp_place_hello [OF assms(1,2)], assumption)
    apply (clarsimp simp: hello_placed_def wp_simps l)
    apply (simp add: contact_finished_def l result_simps)
    apply blast
    done
qed

text \<open>What \<open>first_contact\<close> made before its writes: the advert read, the secret, the opening, sequence 0.\<close>

definition contact_made ::
  "flow_env \<Rightarrow> me \<Rightarrow> byte list \<Rightarrow> byte list \<Rightarrow> u64 \<Rightarrow> network \<Rightarrow> byte list \<Rightarrow> conv_state \<Rightarrow> byte list \<Rightarrow> bool" where
  "contact_made env me pk body now net key st slot \<longleftrightarrow>
    (\<exists>owner bytes ad gen chan efill enc ifill rpk cv\<^sub>0 opening sdraw sfill cv ring ck.
       key = fe_channel_key env chan \<and>
       advert_owner_seed (fe_ox env) pk = Inr owner \<and> nt_advert net owner = Some bytes \<and>
       advert_verify (fe_ox env) pk bytes = Inr ad \<and> encapsulate_to (fe_ox env) ad now efill = Inr enc \<and>
       initiate (fe_ox env) (he_shared_secret enc) ifill = Inr (rpk, cv\<^sub>0) \<and>
       opening_build (fe_ox env) (me_signer me) pk key rpk (he_serial enc) = Inr opening \<and>
       seal_slot (fe_ox env) sdraw sfill now body cv\<^sub>0 = (Inr slot, cv) \<and> send_seq ring = 1 \<and>
       control_key (fe_ox env) (he_shared_secret enc) = Inr ck \<and>
       st = opened_conv pk key gen cv ring ck enc (opening_encode opening))"

lemma opened_conv_simps:
  "cs_outgoing_lookup_key (opened_conv pk key gen cv ring ck enc ob) = key"
  "cs_peer_identity_pk (opened_conv pk key gen cv ring ck enc ob) = pk"
  "\<not> cs_delete_pending (opened_conv pk key gen cv ring ck enc ob)"
  "cs_peer_collected (opened_conv pk key gen cv ring ck enc ob) = 0"
  "cs_send_seq (opened_conv pk key gen cv ring ck enc ob) = send_seq ring"
  by (simp_all add: opened_conv_def)

lemma wp_seal_zero:
  "wp (seal_zero env i now body cv) Q w = (\<forall>slot cv'.
     seal_slot (fe_ox env) (fe_draw env i) (fe_fill env i) now body cv = (Inr slot, cv') \<longrightarrow>
     Q (0, slot, cv', \<lparr>send_seq = 1, peer_collected = 0\<rparr>) w)"
proof -
  have "ring_reserve ring_new = (Inr 0 :: ch_error + u64, \<lparr>send_seq = 1, peer_collected = 0\<rparr>)"
    by (simp add: ring_reserve_def ring_new_def uncollected_def RING_SLOTS_def sat_add_def sat_sub_def)
  then show ?thesis
    by (cases "seal_slot (fe_ox env) (fe_draw env i) (fe_fill env i) now body cv"; cases "fst (seal_slot (fe_ox env) (fe_draw env i) (fe_fill env i) now body cv)")
      (auto simp: seal_zero_def wp_simps)
qed

lemma first_contact_leaves:
  assumes "alone env" "draws_sized env" "sole p pk w" "files_at p w = no_files" "fe_label env = Some p"
  shows "wp (first_contact env me pk body now)
    (\<lambda>r w'. \<exists>key at_slot n st slot. r = Opened p key at_slot n \<and> cs_outgoing_lookup_key st = key \<and>
       contact_made env me pk body now (fw_net w) key st slot \<and>
       contact_finished env p st now slot (fw_net w) at_slot w') w"
proof -
  have c: "wp (correspondence_for env 0 pk) Q w = (fe_io env 0 = IoOk \<longrightarrow> Q None (loaded w))" for Q
    using wp_correspondence_for(2) [OF assms(1,3)] assms(4) by (simp add: no_files_def)
  have l: "sole p pk (loaded w)" "files_at p (loaded w) = no_files"
    using loaded_sole [OF assms(3)] assms(4) by (simp_all add: settled_files_def)
  have r: "ring_index 0 = 0" by (simp add: ring_index_def)
  have o: "wp (fl_persist_outbox env i p 0 slot now) Q (loaded w) = (fe_io env i = IoOk \<longrightarrow> length slot \<le> CHANNEL_SUBKEY_LEN \<longrightarrow>
      Q () (touch p (no_files\<lparr>f_outbox := Held (empty_outbox[0 := Some \<lparr>oe_seq = 0, oe_sent_at = now, oe_ciphertext = slot\<rparr>])\<rparr>) (loaded w)))" for i slot Q
    using wp_persist_outbox [OF assms(1), of p "loaded w"] l r by (simp add: no_files_def)
  have op: "no_files\<lparr>f_outbox := Held (empty_outbox[0 := Some \<lparr>oe_seq = 0, oe_sent_at = now, oe_ciphertext = slot\<rparr>]), f_conv := Held st\<rparr>
      = opened_files st now slot" for slot st by (simp add: opened_files_def)
  show ?thesis
    unfolding first_contact_def
    apply (simp add: wp_simps c wp_seal_zero wp_store [OF assms(1)] mint_label_def assms(5) draw_generation_def o op result_simps)
    apply (intro allI impI)
    apply (rule wp_mono [OF finish_first_contact_leaves [OF assms(1,2)]])
    apply (simp_all add: l opened_conv_simps)
    apply (elim exE conjE)
    apply (intro exI conjI, assumption)
    apply (rule opened_conv_simps)
    apply (unfold contact_made_def)
    apply (intro exI conjI; (assumption | rule refl)?)
    apply simp_all
    done
qed

section \<open>An announced channel is read by its recipient\<close>

text \<open>
  What one side leaves for the other to find: the hello in the recipient's drop and the sealed control
  record, whose opening the sender signed for this recipient, this channel and the advert used.
\<close>

record announcement =
  an_key :: "byte list"
  an_serial :: u64
  an_secret :: "byte list"
  an_kem_ct :: "byte list"
  an_control_key :: "byte list"
  an_opening :: channel_opening
  an_control :: "byte list"
  an_cursor :: u64
  an_generation :: u64
  an_reach :: "reach \<times> u64"
  an_hello :: "byte list"
  an_attempt :: hello_attempt

definition keys_made :: "oxi \<Rightarrow> advert_keys \<Rightarrow> bool" where
  "keys_made ox keys \<longleftrightarrow> (\<exists>d z. ml_kem_keygen ox d z = Inr (ak_ek (aks_current keys), ak_dk (aks_current keys)))"

definition announces :: "oxi \<Rightarrow> sign_keypair \<Rightarrow> byte list \<Rightarrow> advert_keys \<Rightarrow> byte list \<Rightarrow> announcement \<Rightarrow> bool" where
  "announces ox signer pk keys rpk an \<longleftrightarrow>
    (\<exists>m draw hdraw hello.
     ml_kem_encapsulate ox (ak_ek (aks_current keys)) m = Inr (an_secret an, an_kem_ct an) \<and>
     an_serial an = ak_serial (aks_current keys) \<and> control_key ox (an_secret an) = Inr (an_control_key an) \<and>
     opening_build ox signer pk (an_key an) rpk (an_serial an) = Inr (an_opening an) \<and>
     seal_control_with_key ox draw (an_control_key an) \<lparr>c_opening = Some (an_opening an), c_collected_cursor = an_cursor an,
       c_closed = False, c_generation = an_generation an, c_reach = fst (an_reach an), c_serial = snd (an_reach an)\<rparr> = Inr (an_control an) \<and>
     attempt_ok ox (an_attempt an) \<and>
     seal_outstanding ox hdraw \<lparr>hs_shared_secret = an_secret an, hs_kem_ct = an_kem_ct an, hs_advert_serial = an_serial an,
       hs_original = None\<rparr> (an_key an) pk (an_attempt an) = Inr hello \<and> an_hello an = oh_sealed hello)"

definition heard_of :: "announcement \<Rightarrow> heard" where
  "heard_of an = \<lparr>hr_opening = an_opening an, hr_cursor = an_cursor an, hr_generation = an_generation an,
     hr_reach = reach_canon (fst (an_reach an)), hr_serial = snd (an_reach an)\<rparr>"

definition hello_of :: "announcement \<Rightarrow> hello" where
  "hello_of an = \<lparr>hl_lookup_key = an_key an, hl_r = ha_r (an_attempt an), hl_original_secret = None\<rparr>"

text \<open>The laws of the module, the two parties' keys, and the sizes the code's types fix.\<close>

definition laws :: "oxi \<Rightarrow> bool" where
  "laws ox \<longleftrightarrow> gcm_law ox \<and> kem_law ox \<and> sha_law ox"

definition handle_valid :: "reach \<times> u64 \<Rightarrow> bool" where
  "handle_valid rs \<longleftrightarrow> (\<forall>h. r_handle (fst rs) = Some h \<longrightarrow> utf8_valid h)"

lemma announced_opening:
  assumes "laws ox" "dsa_law ox signer" "length pk = DSA_PK_LEN" "length (an_key an) = HELLO_LOOKUP_KEY_LEN"
    "length rpk = KEM_EK_LEN" "announces ox signer pk keys rpk an"
  shows "opening_wf (an_opening an)" "opening_verify ox (an_opening an) pk (an_key an) (an_serial an) = Inr ()"
    "o_writer_identity_pk (an_opening an) = sk_public_key signer" "o_first_ratchet_pk (an_opening an) = rpk"
    "o_advert_serial (an_opening an) = an_serial an"
proof -
  from assms(6) have b: "opening_build ox signer pk (an_key an) rpk (an_serial an) = Inr (an_opening an)"
    unfolding announces_def by blast
  then obtain sig where sig: "keypair_sign ox signer (opening_signing_input (sk_public_key signer) pk (an_key an) rpk (an_serial an)) = Inr sig"
    and o: "an_opening an = \<lparr>o_writer_identity_pk = sk_public_key signer, o_recipient_identity_pk = pk,
      o_channel_lookup_key = an_key an, o_first_ratchet_pk = rpk, o_advert_serial = an_serial an, o_signature = sig\<rparr>"
    by (auto simp: opening_build_def Let_def result_simps)
  note v = verify_signature_sign [OF assms(2) sig]
  show "opening_wf (an_opening an)" using assms v by (simp add: opening_wf_def o dsa_law_def)
  show "opening_verify ox (an_opening an) pk (an_key an) (an_serial an) = Inr ()"
    using v by (simp add: opening_verify_Ok_iff o)
  show "o_writer_identity_pk (an_opening an) = sk_public_key signer" "o_first_ratchet_pk (an_opening an) = rpk"
    "o_advert_serial (an_opening an) = an_serial an" by (simp_all add: o)
qed

lemma announced_control:
  assumes "laws ox" "opening_wf (an_opening an)" "handle_valid (an_reach an)" "announces ox signer pk keys rpk an"
  shows "open_control_with_key ox (an_control_key an) (an_control an) = Inr \<lparr>c_opening = Some (an_opening an),
    c_collected_cursor = an_cursor an, c_closed = False, c_generation = an_generation an,
    c_reach = reach_canon (fst (an_reach an)), c_serial = snd (an_reach an)\<rparr>"
proof -
  from assms(4) obtain draw where s: "seal_control_with_key ox draw (an_control_key an) \<lparr>c_opening = Some (an_opening an),
     c_collected_cursor = an_cursor an, c_closed = False, c_generation = an_generation an, c_reach = fst (an_reach an),
     c_serial = snd (an_reach an)\<rparr> = Inr (an_control an)" unfolding announces_def by blast
  have "gcm_law ox" using assms(1) by (simp add: laws_def)
  from open_seal_control_with_key [OF this _ s] assms(2,3) show ?thesis
    by (simp add: control_wf_def handle_valid_def)
qed

lemma announced_hello:
  assumes "laws ox" "keys_made ox keys" "length (an_key an) = HELLO_LOOKUP_KEY_LEN" "announces ox signer pk keys rpk an"
  shows "open_against_either ox keys (an_hello an) pk (ha_slot (an_attempt an)) =
    Some (hello_of an, an_secret an, an_serial an)"
proof -
  from assms(2) obtain d z where g: "ml_kem_keygen ox d z = Inr (ak_ek (aks_current keys), ak_dk (aks_current keys))"
    unfolding keys_made_def by blast
  from assms(4) obtain m hdraw hello where e: "ml_kem_encapsulate ox (ak_ek (aks_current keys)) m = Inr (an_secret an, an_kem_ct an)"
    and at: "attempt_ok ox (an_attempt an)" and sr: "an_serial an = ak_serial (aks_current keys)"
    and s: "seal_outstanding ox hdraw \<lparr>hs_shared_secret = an_secret an, hs_kem_ct = an_kem_ct an, hs_advert_serial = an_serial an,
       hs_original = None\<rparr> (an_key an) pk (an_attempt an) = Inr hello" and h: "an_hello an = oh_sealed hello"
    unfolding announces_def by blast
  have law: "gcm_law ox" "sha_law ox" "kem_law ox" using assms(1) by (simp_all add: laws_def)
  note k = kem_law_decapsulate [OF law(3) g e]
  let ?encap = "\<lparr>he_serial = an_serial an, he_shared_secret = an_secret an, he_ciphertext = an_kem_ct an\<rparr>"
  from s h have sw: "seal_with ox hdraw ?encap (an_key an) (ha_r (an_attempt an)) CARRIES_NOTHING (replicate CARRIED_LEN 0) pk = Inr (an_hello an)"
    by (auto simp: seal_outstanding_def seal_hello_def Let_def result_simps split: if_splits)
  have "length (ha_r (an_attempt an)) = HELLO_R_LEN" using at by (simp add: attempt_ok_def)
  note o = open_seal_with [OF law(1,2) assms(3) this _ _ sw]
  have "open_hello ox (an_secret an) (an_hello an) pk (ha_slot (an_attempt an)) = Inr (hello_of an)"
    using o(3) k(1) at by (simp add: carried_secret_def hello_opened_def attempt_ok_def hello_of_def)
  moreover have "take KEM_CT_LEN (an_hello an) = an_kem_ct an" "length (an_hello an) = HELLO_LEN" using o(1,2) k(1) by simp_all
  moreover have "KEM_CT_LEN \<le> HELLO_LEN" by (simp add: HELLO_LEN_def)
  ultimately show ?thesis using k(2) sr by (simp add: open_against_either_def decapsulate_def)
qed

text \<open>The channel between two parties: both identities' keys and the sizes of what they exchange.\<close>

definition announced :: "oxi \<Rightarrow> sign_keypair \<Rightarrow> byte list \<Rightarrow> advert_keys \<Rightarrow> byte list \<Rightarrow> announcement \<Rightarrow> bool" where
  "announced ox signer pk keys rpk an \<longleftrightarrow> laws ox \<and> keys_made ox keys \<and> dsa_law ox signer \<and> length pk = DSA_PK_LEN \<and>
     length (an_key an) = HELLO_LOOKUP_KEY_LEN \<and> length rpk = KEM_EK_LEN \<and> handle_valid (an_reach an) \<and>
     announces ox signer pk keys rpk an"

lemma announced_verified:
  assumes "announced (fe_ox env) signer pk keys rpk an" "pk = sk_public_key (me_signer me)" "answers env"
    and "nt_channel (fw_net w) (an_key an, CONTROL_SUBKEY) = Some (an_control an)"
  shows "verified_hello env me keys (an_hello an) (ha_slot (an_attempt an)) w = (Inr (Some (hello_of an, heard_of an, an_secret an)), w)"
proof -
  note a = assms(1) [unfolded announced_def]
  have h: "open_against_either (fe_ox env) keys (an_hello an) pk (ha_slot (an_attempt an)) = Some (hello_of an, an_secret an, an_serial an)"
    using announced_hello a by blast
  have o: "opening_wf (an_opening an)" "opening_verify (fe_ox env) (an_opening an) pk (an_key an) (an_serial an) = Inr ()"
    using announced_opening a by blast+
  have c: "open_control_with_key (fe_ox env) (an_control_key an) (an_control an) = Inr \<lparr>c_opening = Some (an_opening an),
      c_collected_cursor = an_cursor an, c_closed = False, c_generation = an_generation an,
      c_reach = reach_canon (fst (an_reach an)), c_serial = snd (an_reach an)\<rparr>"
    using announced_control [OF _ o(1)] a by blast
  have k: "control_key (fe_ox env) (an_secret an) = Inr (an_control_key an)" using a unfolding announces_def by blast
  show ?thesis
    unfolding verified_hello_def h [unfolded assms(2)]
    using o c k assms(2,4)
    by (simp add: hello_of_def heard_of_def read_control_def run_basic run_records [OF assms(3)] opening_serial_def Let_def)
qed

lemma announced_collected:
  assumes "announced (fe_ox env) signer pk keys rpk an" "pk = sk_public_key (me_signer me)" "answers env"
    and "nt_channel (fw_net w) (an_key an, CONTROL_SUBKEY) = Some (an_control an)"
    and "drop_owner_seed (fe_ox env) pk = Inr owner" "drops_at env 0 w (owner, ha_slot (an_attempt an)) = Some (an_hello an)"
    and "\<not> blocked (sk_public_key signer)"
    and s: "settle env me (sk_public_key signer) (hello_of an) (heard_of an) (an_secret an) (ha_slot (an_attempt an))
      (set_drops (drops_at env 0 w) w) = (Inr s, w')"
  shows "collect_slot env me keys blocked (ha_slot (an_attempt an)) w = (Inr (Some s), w')"
proof -
  have i: "o_writer_identity_pk (hr_opening (heard_of an)) = sk_public_key signer"
    using announced_opening(3) assms(1) unfolding announced_def heard_of_def by simp blast
  have "nt_channel (fw_net (set_drops (drops_at env 0 w) w)) (an_key an, CONTROL_SUBKEY) = Some (an_control an)"
    using assms(4) by simp
  note v = announced_verified [OF assms(1-3) this]
  show ?thesis
    using assms(2,5-7) i s v
    by (simp add: collect_slot_def run_basic run_records [OF assms(3)] Let_def)
qed

end
