(* ===== verification/Exchange.thy ===== *)
theory Exchange
  imports Handshake Flow_Net
begin

text \<open>
  The first turn of a conversation on the ratchet and its reading by the other side: what the key schedule of an
  initiator and of a responder are after the first exchange, the ring an acceptance reads, and what an acceptance leaves.
\<close>

section \<open>The first exchange on the ratchet\<close>

lemma initiate_pk_length:
  assumes "kem_law ox" "initiate ox ss fill = Inr (pk, A)"
  shows "length pk = KEM_EK_LEN"
proof -
  from assms(2) obtain kp where "mint ox fill = Inr kp" "pk = kp_pk kp" by (auto simp: initiate_def result_simps)
  then show ?thesis using kem_law_keygen [OF assms(1)] by (auto simp: mint_def result_simps)
qed

lemma seal_slot_Inr:
  assumes "seal_slot ox draw fill now body cv = (Inr slot, cv')"
  obtains h c where "conversation_seal ox draw fill (plaintext_of (sat_mul now 1000, body)) 0 cv = (Inr (h, c), cv')"
    "slot = header_encode h @ c"
  using assms by (auto simp: seal_slot_def DEVICE_ID_SINGLE_DEVICE_def plaintext_of_def split: sum.splits prod.splits)

text \<open>
  Both sides seal their first message before either reads; each then opens the other's. \<open>exchanged\<close> is the
  abstract state after it.
\<close>

definition exchanged :: "conversation \<Rightarrow> conversation \<Rightarrow> byte list \<Rightarrow> byte list \<Rightarrow> parties" where
  "exchanged A B a b = \<lparr>pt_conv = (\<lambda>s. case s of Alice \<Rightarrow> A | Bob \<Rightarrow> B), pt_wire = (\<lambda>_. []),
     pt_sent = (\<lambda>s. case s of Alice \<Rightarrow> [a] | Bob \<Rightarrow> [b]), pt_got = (\<lambda>s. case s of Alice \<Rightarrow> [b] | Bob \<Rightarrow> [a])\<rparr>"

lemma side_case_upd:
  "(\<lambda>s. case s of Alice \<Rightarrow> x | Bob \<Rightarrow> y)(Alice := x') = (\<lambda>s. case s of Alice \<Rightarrow> x' | Bob \<Rightarrow> y)"
  "(\<lambda>s. case s of Alice \<Rightarrow> x | Bob \<Rightarrow> y)(Bob := y') = (\<lambda>s. case s of Alice \<Rightarrow> x | Bob \<Rightarrow> y')"
  "(\<lambda>_. z)(Alice := x') = (\<lambda>s. case s of Alice \<Rightarrow> x' | Bob \<Rightarrow> z)"
  "(\<lambda>_. z)(Bob := y') = (\<lambda>s. case s of Alice \<Rightarrow> z | Bob \<Rightarrow> y')"
  "(\<lambda>s. case s of Alice \<Rightarrow> z | Bob \<Rightarrow> z) = (\<lambda>_. z)"
  by (auto split: side.split)

lemma first_exchange:
  assumes law: "gcm_law ox" "kem_law ox"
    and i: "initiate ox ss fill = Inr (pk, A\<^sub>0)" "chain_accept ox ss pk = Inr B\<^sub>0"
    and a: "seal_slot ox draw\<^sub>A fill\<^sub>A now\<^sub>A body A\<^sub>0 = (Inr slot\<^sub>A, A\<^sub>1)"
    and b: "seal_slot ox draw\<^sub>B fill\<^sub>B now\<^sub>B reply B\<^sub>0 = (Inr slot\<^sub>B, B\<^sub>1)"
  obtains h\<^sub>A c\<^sub>A h\<^sub>B c\<^sub>B A\<^sub>2 B\<^sub>2 where
    "header_decode slot\<^sub>A = Inr (h\<^sub>A, c\<^sub>A)" "h_seq h\<^sub>A = 0" "h_cursor h\<^sub>A = 0"
    "conversation_open ox h\<^sub>A c\<^sub>A B\<^sub>1 = (Inr (plaintext_of (sat_mul now\<^sub>A 1000, body)), B\<^sub>2)"
    "header_decode slot\<^sub>B = Inr (h\<^sub>B, c\<^sub>B)" "h_seq h\<^sub>B = 0" "h_cursor h\<^sub>B = 0"
    "conversation_open ox h\<^sub>B c\<^sub>B A\<^sub>1 = (Inr (plaintext_of (sat_mul now\<^sub>B 1000, reply)), A\<^sub>2)"
    "parties_synced ox (exchanged A\<^sub>2 B\<^sub>2 (plaintext_of (sat_mul now\<^sub>A 1000, body)) (plaintext_of (sat_mul now\<^sub>B 1000, reply)))"
    "d_seq (cv_sending A\<^sub>2) = 1" "v_next_seq (cv_receiving A\<^sub>2) = 1"
    "d_seq (cv_sending B\<^sub>2) = 1" "v_next_seq (cv_receiving B\<^sub>2) = 1"
proof -
  let ?a = "plaintext_of (sat_mul now\<^sub>A 1000, body)" and ?b = "plaintext_of (sat_mul now\<^sub>B 1000, reply)"
  from a obtain h\<^sub>A c\<^sub>A where sa: "conversation_seal ox draw\<^sub>A fill\<^sub>A ?a 0 A\<^sub>0 = (Inr (h\<^sub>A, c\<^sub>A), A\<^sub>1)" "slot\<^sub>A = header_encode h\<^sub>A @ c\<^sub>A"
    by (rule seal_slot_Inr)
  from b obtain h\<^sub>B c\<^sub>B where sb: "conversation_seal ox draw\<^sub>B fill\<^sub>B ?b 0 B\<^sub>0 = (Inr (h\<^sub>B, c\<^sub>B), B\<^sub>1)" "slot\<^sub>B = header_encode h\<^sub>B @ c\<^sub>B"
    by (rule seal_slot_Inr)
  define p\<^sub>0 where "p\<^sub>0 = \<lparr>pt_conv = (\<lambda>s. case s of Alice \<Rightarrow> A\<^sub>0 | Bob \<Rightarrow> B\<^sub>0), pt_wire = (\<lambda>_. []), pt_sent = (\<lambda>_. []), pt_got = (\<lambda>_. [])\<rparr>"
  have open0: "parties_open ox p\<^sub>0" unfolding parties_open_def p\<^sub>0_def using i by blast
  note s0 = parties_open_start [OF open0]
  define p\<^sub>1 where "p\<^sub>1 = \<lparr>pt_conv = (\<lambda>s. case s of Alice \<Rightarrow> A\<^sub>1 | Bob \<Rightarrow> B\<^sub>0), pt_wire = (\<lambda>s. case s of Alice \<Rightarrow> [slot\<^sub>A] | Bob \<Rightarrow> []),
      pt_sent = (\<lambda>s. case s of Alice \<Rightarrow> [?a] | Bob \<Rightarrow> []), pt_got = (\<lambda>_. [])\<rparr>"
  define p\<^sub>2 where "p\<^sub>2 = \<lparr>pt_conv = (\<lambda>s. case s of Alice \<Rightarrow> A\<^sub>1 | Bob \<Rightarrow> B\<^sub>1), pt_wire = (\<lambda>s. case s of Alice \<Rightarrow> [slot\<^sub>A] | Bob \<Rightarrow> [slot\<^sub>B]),
      pt_sent = (\<lambda>s. case s of Alice \<Rightarrow> [?a] | Bob \<Rightarrow> [?b]), pt_got = (\<lambda>_. [])\<rparr>"
  have "party_seal ox Alice draw\<^sub>A fill\<^sub>A ?a 0 p\<^sub>0 = p\<^sub>1"
    using sa(1) by (simp add: party_seal_def p\<^sub>0_def p\<^sub>1_def side_case_upd flip: sa(2))
  with party_seal_synced [OF law parties_open_synced [OF open0], of Alice draw\<^sub>A fill\<^sub>A ?a 0] have y1: "parties_synced ox p\<^sub>1" by simp
  have "party_seal ox Bob draw\<^sub>B fill\<^sub>B ?b 0 p\<^sub>1 = p\<^sub>2"
    using sb(1) by (simp add: party_seal_def p\<^sub>1_def p\<^sub>2_def side_case_upd flip: sb(2))
  with party_seal_synced [OF law y1, of Bob draw\<^sub>B fill\<^sub>B ?b 0] have y2: "parties_synced ox p\<^sub>2" by simp
  have len1: "\<forall>t. length (pt_sent p\<^sub>1 t) < 2 ^ 64" and len2: "\<forall>t. length (pt_sent p\<^sub>2 t) < 2 ^ 64"
    by (simp_all add: p\<^sub>1_def p\<^sub>2_def split: side.split)
  have w2: "pt_wire p\<^sub>2 (other Bob) = slot\<^sub>A # []" by (simp add: p\<^sub>2_def)
  from synced_next [OF y2 len2 w2] obtain h c B\<^sub>2 where da: "header_decode slot\<^sub>A = Inr (h, c)"
    "conversation_open ox h c B\<^sub>1 = (Inr ?a, B\<^sub>2)" by (auto simp: p\<^sub>2_def)
  define p\<^sub>3 where "p\<^sub>3 = \<lparr>pt_conv = (\<lambda>s. case s of Alice \<Rightarrow> A\<^sub>1 | Bob \<Rightarrow> B\<^sub>2), pt_wire = (\<lambda>s. case s of Alice \<Rightarrow> [] | Bob \<Rightarrow> [slot\<^sub>B]),
      pt_sent = (\<lambda>s. case s of Alice \<Rightarrow> [?a] | Bob \<Rightarrow> [?b]), pt_got = (\<lambda>s. case s of Alice \<Rightarrow> [] | Bob \<Rightarrow> [?a])\<rparr>"
  have e3: "party_deliver ox Bob p\<^sub>2 = p\<^sub>3"
    using da by (simp add: party_deliver_def p\<^sub>2_def p\<^sub>3_def side_case_upd)
  have y3: "parties_synced ox p\<^sub>3" using party_deliver_synced [OF y2 len2, of Bob] e3 by simp
  have len3: "\<forall>t. length (pt_sent p\<^sub>3 t) < 2 ^ 64" by (simp add: p\<^sub>3_def split: side.split)
  have w3: "pt_wire p\<^sub>3 (other Alice) = slot\<^sub>B # []" by (simp add: p\<^sub>3_def)
  from synced_next [OF y3 len3 w3] obtain h' c' A\<^sub>2 where db: "header_decode slot\<^sub>B = Inr (h', c')"
    "conversation_open ox h' c' A\<^sub>1 = (Inr ?b, A\<^sub>2)" by (auto simp: p\<^sub>3_def)
  have "party_deliver ox Alice p\<^sub>3 = exchanged A\<^sub>2 B\<^sub>2 ?a ?b"
    using db by (simp add: party_deliver_def p\<^sub>3_def exchanged_def side_case_upd)
  with party_deliver_synced [OF y3 len3, of Alice] have y4: "parties_synced ox (exchanged A\<^sub>2 B\<^sub>2 ?a ?b)" by simp
  have "header_wf h\<^sub>A" using synced_seal_wf [OF law parties_open_synced [OF open0], of Alice] sa(1) s0(2) by (simp add: p\<^sub>0_def)
  then have ha: "h = h\<^sub>A" "c = c\<^sub>A" using da(1) sa(2) header_codec.dec_enc by simp_all
  have "header_wf h\<^sub>B" using synced_seal_wf [OF law y1 len1, of Bob] sb(1) by (simp add: p\<^sub>1_def)
  then have hb: "h' = h\<^sub>B" "c' = c\<^sub>B" using db(1) sb(2) header_codec.dec_enc by simp_all
  have z: "d_seq (cv_sending A\<^sub>0) = 0" "v_next_seq (cv_receiving A\<^sub>0) = 0" "d_seq (cv_sending B\<^sub>0) = 0" "v_next_seq (cv_receiving B\<^sub>0) = 0"
    using s0(4) [of Alice] s0(4) [of Bob] by (simp_all add: p\<^sub>0_def)
  note fa = conversation_seal_fields [OF sa(1)] and fb = conversation_seal_fields [OF sb(1)]
  note oa = conversation_open_fields [OF da(2)] and ob = conversation_open_fields [OF db(2)]
  show thesis by (rule that [of h\<^sub>A c\<^sub>A B\<^sub>2 h\<^sub>B c\<^sub>B A\<^sub>2]) (use da db y4 z fa fb oa ob ha hb in simp_all)
qed

section \<open>Reading a ring\<close>

lemma wp_read_ring_slot [wp_simps]:
  "wp (read_ring_slot env i lk seq cv ring) Q w = (fe_rec env i = RecOk \<longrightarrow>
     (case nt_channel (fw_net w) (lk, slot_for seq) of None \<Rightarrow> Q (RsEnd, cv, ring) w
      | Some raw \<Rightarrow> (\<forall>step cv' ring'. open_ring_slot (fe_ox env) raw seq cv ring = (Inr step, cv', ring') \<longrightarrow> Q (step, cv', ring') w)))"
  by (auto simp: read_ring_slot_def wp_simps split: option.split sum.split prod.splits)

lemma read_one_round:
  "read_ring_rounds env i (Suc (Suc n)) lk seq ms cv ring = fbind (read_ring_slot env i lk seq cv ring) (\<lambda>(step, cv, ring).
    case step of
      RsMessage _ t b _ \<Rightarrow>
        fbind (read_ring_slot env (Suc i) lk (seq + 1) cv ring) (\<lambda>(step, cv, ring). case step of
            RsMessage _ t' b' _ \<Rightarrow> read_ring_rounds env (Suc (Suc i)) n lk (seq + 1 + 1) ((ms @ [(t, b)]) @ [(t', b')]) cv ring
          | RsEnd \<Rightarrow> fret (\<lparr>rr_messages = ms @ [(t, b)], rr_collected = seq + 1, rr_unopened = None\<rparr>, cv, ring)
          | RsUnopened q sk e \<Rightarrow> fret (\<lparr>rr_messages = ms @ [(t, b)], rr_collected = seq + 1, rr_unopened = Some (q, sk, e)\<rparr>, cv, ring))
    | RsEnd \<Rightarrow> fret (\<lparr>rr_messages = ms, rr_collected = seq, rr_unopened = None\<rparr>, cv, ring)
    | RsUnopened q sk e \<Rightarrow> fret (\<lparr>rr_messages = ms, rr_collected = seq, rr_unopened = Some (q, sk, e)\<rparr>, cv, ring))"
  by (simp only: read_ring_rounds.simps)

text \<open>One message lies in the ring: the read returns it and stops at the empty slot after it.\<close>

lemma read_ring_one:
  assumes "nt_channel (fw_net w) (lk, slot_for n) = Some raw" "nt_channel (fw_net w) (lk, slot_for (n + 1)) = None"
    and "open_ring_slot (fe_ox env) raw n cv ring = (Inr (RsMessage n t b e), cv', ring')"
  shows "wp (read_ring env i lk n cv ring) Q w = (fe_rec env i = RecOk \<longrightarrow> fe_rec env (Suc i) = RecOk \<longrightarrow>
      Q (\<lparr>rr_messages = [(t, b)], rr_collected = n + 1, rr_unopened = None\<rparr>, cv', ring') w)"
    "answers env \<Longrightarrow> read_ring env i lk n cv ring w =
      (Inr (\<lparr>rr_messages = [(t, b)], rr_collected = n + 1, rr_unopened = None\<rparr>, cv', ring'), w)"
proof -
  have r: "read_ring env i lk n cv ring = read_ring_rounds env i (Suc (Suc 62)) lk n [] cv ring" by (simp add: read_ring_def)
  show "wp (read_ring env i lk n cv ring) Q w = (fe_rec env i = RecOk \<longrightarrow> fe_rec env (Suc i) = RecOk \<longrightarrow>
      Q (\<lparr>rr_messages = [(t, b)], rr_collected = n + 1, rr_unopened = None\<rparr>, cv', ring') w)"
    unfolding r read_one_round using assms by (auto simp: wp_simps)
  show "read_ring env i lk n cv ring w = (Inr (\<lparr>rr_messages = [(t, b)], rr_collected = n + 1, rr_unopened = None\<rparr>, cv', ring'), w)"
    if "answers env"
    unfolding r read_one_round using assms that by (simp add: read_ring_slot_def run_basic run_records)
qed

section \<open>What an acceptance leaves\<close>

lemma requested_conv_simps:
  "cs_outgoing_lookup_key (requested_conv req key cv ring pk) = key"
  "cs_incoming_lookup_key (requested_conv req key cv ring pk) = cr_lookup_key req"
  "cs_peer_identity_pk (requested_conv req key cv ring pk) = cr_identity req"
  "cs_generation (requested_conv req key cv ring pk) = cr_generation req"
  "\<not> cs_delete_pending (requested_conv req key cv ring pk)"
  "\<not> cs_awaiting_acceptance (requested_conv req key cv ring pk)"
  "cs_outstanding_hello (requested_conv req key cv ring pk) = None"
  "cs_own_opening (requested_conv req key cv ring pk) = None"
  "cs_own_hello_secret (requested_conv req key cv ring pk) = None"
  "cs_own_hello_kem_ct (requested_conv req key cv ring pk) = None"
  "cs_own_control_key (requested_conv req key cv ring pk) = None"
  "cs_peer_control_key (requested_conv req key cv ring pk) = Some pk"
  "cs_peer_advert_serial (requested_conv req key cv ring pk) = Some (cr_advert_serial req)"
  "cs_peer_collected (requested_conv req key cv ring pk) = 0" "cs_my_collected (requested_conv req key cv ring pk) = 0"
  "cs_send_seq (requested_conv req key cv ring pk) = send_seq ring"
  "cs_conversation (requested_conv req key cv ring pk) = snapshot cv"
  by (simp_all add: requested_conv_def)

lemma wp_read_control [wp_simps]:
  "wp (read_control env i key lk) Q w = Q (case fe_rec env i of RecOk \<Rightarrow>
       (case nt_channel (fw_net w) (lk, CONTROL_SUBKEY) of Some bytes \<Rightarrow>
          (case open_control_with_key (fe_ox env) key bytes of Inr c \<Rightarrow> Some c | Inl _ \<Rightarrow> None) | None \<Rightarrow> None)
     | RecRefused \<Rightarrow> None) w"
  by (cases "fe_rec env i") (simp_all add: read_control_def wp_simps rec_read_channel_def at_records_def)

text \<open>What the mint of an acceptance adds to the record.\<close>

definition minted_conv :: "conv_state \<Rightarrow> byte list \<Rightarrow> hello_encapsulation \<Rightarrow> byte list \<Rightarrow> conv_state" where
  "minted_conv st ck enc ob = st\<lparr>cs_own_control_key := Some ck, cs_own_hello_secret := Some (he_shared_secret enc),
     cs_own_hello_kem_ct := Some (he_ciphertext enc), cs_own_opening := Some ob\<rparr>"

definition acceptance_minted ::
  "flow_env \<Rightarrow> me \<Rightarrow> byte list \<Rightarrow> u64 \<Rightarrow> network \<Rightarrow> byte list \<Rightarrow> byte list \<Rightarrow> hello_encapsulation \<Rightarrow> channel_opening \<Rightarrow> byte list \<Rightarrow> bool" where
  "acceptance_minted env me pk now net key rpk enc opening ck \<longleftrightarrow>
    (\<exists>owner bytes ad efill. advert_owner_seed (fe_ox env) pk = Inr owner \<and> nt_advert net owner = Some bytes \<and>
       advert_verify (fe_ox env) pk bytes = Inr ad \<and> encapsulate_to (fe_ox env) ad now efill = Inr enc \<and>
       opening_build (fe_ox env) (me_signer me) pk key rpk (he_serial enc) = Inr opening \<and>
       control_key (fe_ox env) (he_shared_secret enc) = Inr ck)"

lemma wp_mint_acceptance:
  assumes "alone env" "cs_own_opening st = None" "f_conv (files_at p w) = Held st"
    and "\<And>enc opening ck. acceptance_minted env me (cs_peer_identity_pk st) now (fw_net w) key rpk enc opening ck \<Longrightarrow>
      Q () (touch p ((files_at p w)\<lparr>f_conv := Held (minted_conv st ck enc (opening_encode opening))\<rparr>) w)"
  shows "wp (mint_acceptance env me p st key rpk now) Q w"
  using assms(2,3)
  by (auto simp: mint_acceptance_def wp_simps wp_store [OF assms(1)] result_simps minted_conv_def [symmetric] acceptance_minted_def
      intro!: assms(4))

lemma wp_offer_hello_back:
  assumes "draws_sized env" "cs_outstanding_hello st = None"
    and "\<And>at a. attempt_ok (fe_ox env) at \<Longrightarrow> Q (Some at) (add_offer a w)" "cs_own_hello_secret st \<noteq> None"
  shows "wp (offer_hello_back env p st ck key serial control slot seq pk) Q w"
proof -
  have a: "wp (first_attempt env 43) R w" if "\<And>at. attempt_ok (fe_ox env) at \<Longrightarrow> R at w" for R
    by (rule wp_mono [OF first_attempt_ok [OF assms(1)]]) (use that in auto)
  show ?thesis
    using assms(2,4) by (auto simp: offer_hello_back_def wp_simps intro!: a assms(3))
qed

text \<open>
  The acceptance from its record: the request's channel holds one message, read by \<open>reader\<close>; \<open>st\<close> is the
  record \<open>accept\<close> made and \<open>slot\<close> the reply it sealed.
\<close>

definition acceptance_finished ::
  "flow_env \<Rightarrow> me \<Rightarrow> correspondence_label \<Rightarrow> conv_state \<Rightarrow> u64 \<Rightarrow> u64 \<Rightarrow> byte list \<Rightarrow> byte list \<Rightarrow> ring_read \<Rightarrow> conversation \<Rightarrow>
   network \<Rightarrow> u16 \<Rightarrow> flow_world \<Rightarrow> bool" where
  "acceptance_finished env me p st sealed_at now slot rpk read reader net at_slot w' \<longleftrightarrow>
    (\<exists>enc opening opening' ck draw control owner hdraw at hello.
       acceptance_minted env me (cs_peer_identity_pk st) now net (cs_outgoing_lookup_key st) rpk enc opening ck \<and>
       opening_decode (opening_encode opening) = Inr opening' \<and>
       seal_control_with_key (fe_ox env) draw ck \<lparr>c_opening = Some opening', c_collected_cursor = 0, c_closed = False,
         c_generation = cs_generation st, c_reach = fst (fe_reach env), c_serial = snd (fe_reach env)\<rparr> = Inr control \<and>
       drop_owner_seed (fe_ox env) (cs_peer_identity_pk st) = Inr owner \<and>
       seal_outstanding (fe_ox env) hdraw \<lparr>hs_shared_secret = he_shared_secret enc, hs_kem_ct = he_ciphertext enc,
         hs_advert_serial = o_advert_serial opening', hs_original = None\<rparr> (cs_outgoing_lookup_key st) (cs_peer_identity_pk st) at = Inr hello \<and>
       attempt_ok (fe_ox env) at \<and> at_slot = ha_slot at \<and>
       files_at p w' = opened_files (accepted_conv reader (stored_force st) read \<lparr>send_seq = 1, peer_collected = 0\<rparr>
         (placed hello (minted_conv st ck enc (opening_encode opening)))) sealed_at slot \<and>
       nt_channel (fw_net w') = (nt_channel net)((cs_outgoing_lookup_key st, CONTROL_SUBKEY) \<mapsto> control,
         (cs_outgoing_lookup_key st, slot_for 0) \<mapsto> slot) \<and>
       nt_advert (fw_net w') = nt_advert net \<and> nt_drop (fw_net w') (owner, at_slot) = Some (oh_sealed hello))"

lemma finish_accept_leaves:
  assumes env: "alone env" "draws_sized env"
    and w: "sole p (cs_peer_identity_pk st) w" "files_at p w = opened_files st sealed_at slot"
    and st: "st = requested_conv req key cv \<lparr>send_seq = 1, peer_collected = 0\<rparr> pk" "key \<noteq> replicate HELLO_LOOKUP_KEY_LEN 0"
    and slot: "header_decode slot = Inr (h, c)" "h_seq h = 0"
    and ring: "nt_channel (fw_net w) (cr_lookup_key req, slot_for 0) = Some raw" "nt_channel (fw_net w) (cr_lookup_key req, slot_for 1) = None"
      "open_ring_slot (fe_ox env) raw 0 cv \<lparr>send_seq = 1, peer_collected = 0\<rparr> =
         (Inr (RsMessage 0 t body None), reader, \<lparr>send_seq = 1, peer_collected = 0\<rparr>)"
  shows "wp (finish_accept env me p st (Some sl) now)
    (\<lambda>r w'. \<exists>at_slot n rpk. r = \<lparr>acd_peer = p, acd_outgoing_lookup_key = key, acd_messages = [(t, body)], acd_hello_slot = at_slot,
         acd_repicks = n, acd_unopened = None\<rparr> \<and> h_kem_pk h = Some rpk \<and> acceptance_finished env me p st sealed_at now slot rpk
         \<lparr>rr_messages = [(t, body)], rr_collected = 1, rr_unopened = None\<rparr> reader (fw_net w) at_slot w') w"
proof -
  have st_simps: "cs_outgoing_lookup_key st = key" "cs_incoming_lookup_key st = cr_lookup_key req" "cs_own_opening st = None"
    "cs_my_collected st = 0" "cs_peer_collected st = 0" "cs_send_seq st = 1" "cs_conversation st = snapshot cv"
    "\<not> cs_delete_pending st" "cs_outstanding_hello st = None" "\<not> cs_awaiting_acceptance st"
    using st(1) by (simp_all add: requested_conv_simps)
  have o: "wp (outstanding_zero env 41 p) Q w = (fe_io env 41 = IoOk \<longrightarrow> Q (Some slot) (loaded w))" for Q
    using wp_outstanding_zero [OF env(1) w(1), of st] w(2) st_simps by (simp add: outstanding_first)
  have l: "sole p (cs_peer_identity_pk st) (loaded w)" "files_at p (loaded w) = opened_files st sealed_at slot"
    using loaded_sole [OF w(1)] w(2) by simp_all
  have rr: "ring_restore 1 0 = (Inr \<lparr>send_seq = 1, peer_collected = 0\<rparr> :: ch_error + ring)"
    by (simp add: ring_restore_def)
  have reading: "wp (read_ring env 100 (cr_lookup_key req) 0 cv \<lparr>send_seq = 1, peer_collected = 0\<rparr>) Q v =
      (fe_rec env 100 = RecOk \<longrightarrow> fe_rec env (Suc 100) = RecOk \<longrightarrow>
       Q (\<lparr>rr_messages = [(t, body)], rr_collected = 1, rr_unopened = None\<rparr>, reader, \<lparr>send_seq = 1, peer_collected = 0\<rparr>) v)"
    if "nt_channel (fw_net v) = nt_channel (fw_net w)" for Q v
    using read_ring_one(1) [of v "cr_lookup_key req" 0 raw] ring that by simp
  have drop_none: "wp (case x of None \<Rightarrow> f | Some a \<Rightarrow> g a) Q v = (case x of None \<Rightarrow> wp f Q v | Some a \<Rightarrow> wp (g a) Q v)"
    for x :: "hello_attempt option" and f :: "hello_attempt flow" and g Q v by (simp split: option.split)
  show ?thesis
    unfolding finish_accept_def Let_def
    apply (simp only: wp_simps read_accepted_opening_def own_channel_def read_opening_def st_simps o st(2) slot)
    apply (intro allI impI conjI)
    apply (simp_all add: wp_simps o)
    apply (erule conjE exE)+
    apply (subgoal_tac "h_kem_pk h = Some xf \<and> reply_header = h")
    prefer 2
    subgoal using slot by (simp add: result_simps)
    apply (rule wp_mint_acceptance [OF env(1) st_simps(3)])
     apply (simp add: l)
    apply (simp add: rr restore_snapshot wp_simps reading wp_store [OF env(1)] l)
    apply (intro allI impI)
    apply (rule wp_offer_hello_back [OF env(2)])
    apply (simp add: minted_conv_def st_simps)
    prefer 2
    apply (simp add: minted_conv_def st_simps)
    apply (simp add: minted_conv_def st_simps hello_back_def wp_simps batch_one.simps)
    apply (intro allI impI)
    apply (rule wp_place_hello [OF env], assumption)
    apply (clarsimp simp: wp_store [OF env(1)] hello_placed_def wp_simps)
    apply (simp add: st_simps result_simps l minted_conv_def [symmetric])
    unfolding acceptance_finished_def st_simps
    apply (intro exI conjI)
    apply (assumption | rule refl)+
    apply (simp_all add: slot(2) l)
    done
qed

text \<open>A record's address is 32 bytes and never the placeholder of a conversation that has none.\<close>

definition addressed :: "flow_env \<Rightarrow> bool" where
  "addressed env \<longleftrightarrow> (\<forall>owner. length (fe_channel_key env owner) = HELLO_LOOKUP_KEY_LEN \<and> fe_channel_key env owner \<noteq> NO_LOOKUP_KEY)"

text \<open>What the first message of a request's channel reads as, on any conversation the acceptance can be on by then.\<close>

definition first_reads :: "oxi \<Rightarrow> byte list \<Rightarrow> byte list \<Rightarrow> byte list \<Rightarrow> u64 \<Rightarrow> byte list \<Rightarrow> u64 \<Rightarrow> byte list \<Rightarrow> bool" where
  "first_reads ox ss rpk raw t body now reply \<longleftrightarrow> (\<forall>cv\<^sub>0 draw fill slot cv.
     chain_accept ox ss rpk = Inr cv\<^sub>0 \<longrightarrow> seal_slot ox draw fill now reply cv\<^sub>0 = (Inr slot, cv) \<longrightarrow>
     (\<exists>h c reader. header_decode slot = Inr (h, c) \<and> h_seq h = 0 \<and>
        open_ring_slot ox raw 0 cv \<lparr>send_seq = 1, peer_collected = 0\<rparr> =
          (Inr (RsMessage 0 t body None), reader, \<lparr>send_seq = 1, peer_collected = 0\<rparr>)))"

definition acceptance_made ::
  "flow_env \<Rightarrow> me \<Rightarrow> correspondence_label \<Rightarrow> contact_request \<Rightarrow> byte list \<Rightarrow> u64 \<Rightarrow> byte list \<Rightarrow> u64 \<Rightarrow> byte list \<Rightarrow> network \<Rightarrow>
   accepted \<Rightarrow> flow_world \<Rightarrow> bool" where
  "acceptance_made env me p req reply now raw t body net r w' \<longleftrightarrow> (\<exists>owner key cv\<^sub>0 draw fill slot cv pk h c rpk reader at_slot n.
     key = fe_channel_key env owner \<and> chain_accept (fe_ox env) (cr_shared_secret req) (cr_first_ratchet_pk req) = Inr cv\<^sub>0 \<and>
     seal_slot (fe_ox env) draw fill now reply cv\<^sub>0 = (Inr slot, cv) \<and> control_key (fe_ox env) (cr_shared_secret req) = Inr pk \<and>
     header_decode slot = Inr (h, c) \<and> h_kem_pk h = Some rpk \<and>
     open_ring_slot (fe_ox env) raw 0 cv \<lparr>send_seq = 1, peer_collected = 0\<rparr> =
       (Inr (RsMessage 0 t body None), reader, \<lparr>send_seq = 1, peer_collected = 0\<rparr>) \<and>
     r = \<lparr>acd_peer = p, acd_outgoing_lookup_key = key, acd_messages = [(t, body)], acd_hello_slot = at_slot,
       acd_repicks = n, acd_unopened = None\<rparr> \<and>
     acceptance_finished env me p (requested_conv req key cv \<lparr>send_seq = 1, peer_collected = 0\<rparr> pk) now now slot rpk
       \<lparr>rr_messages = [(t, body)], rr_collected = 1, rr_unopened = None\<rparr> reader net at_slot w')"

lemma accept_leaves:
  assumes env: "alone env" "draws_sized env" "addressed env" "fe_label env = Some p"
    and w: "sole p (cr_identity req) w" "files_at p w = no_files"
    and ring: "nt_channel (fw_net w) (cr_lookup_key req, slot_for 0) = Some raw" "nt_channel (fw_net w) (cr_lookup_key req, slot_for 1) = None"
      "first_reads (fe_ox env) (cr_shared_secret req) (cr_first_ratchet_pk req) raw t body now reply"
  shows "wp (accept env me req reply now) (acceptance_made env me p req reply now raw t body (fw_net w)) w"
proof -
  have c: "wp (correspondence_for env 0 (cr_identity req)) Q w = (fe_io env 0 = IoOk \<longrightarrow> Q None (loaded w))" for Q
    using wp_correspondence_for(2) [OF env(1) w(1)] w(2) by (simp add: no_files_def)
  have l: "sole p (cr_identity req) (loaded w)" "files_at p (loaded w) = no_files"
    using loaded_sole [OF w(1)] w(2) by (simp_all add: settled_files_def)
  have r: "ring_index 0 = 0" by (simp add: ring_index_def)
  have o: "wp (fl_persist_outbox env i p 0 slot now) Q (loaded w) = (fe_io env i = IoOk \<longrightarrow> length slot \<le> CHANNEL_SUBKEY_LEN \<longrightarrow>
      Q () (touch p (no_files\<lparr>f_outbox := Held (empty_outbox[0 := Some \<lparr>oe_seq = 0, oe_sent_at = now, oe_ciphertext = slot\<rparr>])\<rparr>) (loaded w)))" for i slot Q
    using wp_persist_outbox [OF env(1), of p "loaded w"] l r by (simp add: no_files_def)
  have op: "no_files\<lparr>f_outbox := Held (empty_outbox[0 := Some \<lparr>oe_seq = 0, oe_sent_at = now, oe_ciphertext = slot\<rparr>]), f_conv := Held st\<rparr>
      = opened_files st now slot" for slot st by (simp add: opened_files_def)
  have fin: "wp (finish_accept env me p st (Some sl) now) (acceptance_made env me p req reply now raw t body (fw_net w)) v"
    if st: "st = requested_conv req (fe_channel_key env owner) cv \<lparr>send_seq = 1, peer_collected = 0\<rparr> pk"
      and v: "v = touch p (opened_files st now slot) (loaded w)"
      and s: "chain_accept (fe_ox env) (cr_shared_secret req) (cr_first_ratchet_pk req) = Inr cv\<^sub>0"
        "seal_slot (fe_ox env) draw fill now reply cv\<^sub>0 = (Inr slot, cv)" "control_key (fe_ox env) (cr_shared_secret req) = Inr pk"
    for st owner cv pk slot v sl cv\<^sub>0 draw fill
  proof -
    from ring(3) s obtain h c reader where h: "header_decode slot = Inr (h, c)" "h_seq h = 0"
      "open_ring_slot (fe_ox env) raw 0 cv \<lparr>send_seq = 1, peer_collected = 0\<rparr> =
          (Inr (RsMessage 0 t body None), reader, \<lparr>send_seq = 1, peer_collected = 0\<rparr>)" unfolding first_reads_def by blast
    have ne: "fe_channel_key env owner \<noteq> replicate HELLO_LOOKUP_KEY_LEN 0" using env(3) by (simp add: addressed_def NO_LOOKUP_KEY_def)
    have v': "sole p (cs_peer_identity_pk st) v" "files_at p v = opened_files st now slot"
      "nt_channel (fw_net v) (cr_lookup_key req, slot_for 0) = Some raw" "nt_channel (fw_net v) (cr_lookup_key req, slot_for 1) = None"
      using v st l ring by (simp_all add: requested_conv_simps)
    have n: "fw_net w = fw_net v" using v by simp
    show ?thesis
      unfolding n
      apply (rule wp_mono [OF finish_accept_leaves [OF env(1,2) v'(1,2) st ne h(1,2) v'(3,4) h(3)]])
      apply (elim exE conjE)
      unfolding acceptance_made_def
      apply (intro exI conjI)
      apply (rule refl | rule s | rule h | assumption)+
      apply (simp only: st)
      done
  qed
  show ?thesis
    unfolding accept_def
    apply (simp add: wp_simps c wp_seal_zero wp_store [OF env(1)] mint_label_def env(4) o op result_simps)
    apply (intro allI impI)
    apply (rule fin [OF refl refl])
    apply (simp_all add: l)
    done
qed

end
