(* ===== verification/Handshake_Net.thy ===== *)
theory Handshake_Net
  imports Exchange
begin

text \<open>
  Both sides of a handshake over one network: the acceptance is recognised by the side that made the first contact,
  and the two stores the exchange leaves are a channel of \<open>Flow_Net\<close>.
\<close>

section \<open>Both sides announce\<close>

text \<open>The recipient has published its current advert.\<close>

definition published :: "oxi \<Rightarrow> network \<Rightarrow> sign_keypair \<Rightarrow> advert_keys \<Rightarrow> bool" where
  "published ox net signer keys \<longleftrightarrow> (\<exists>owner bytes. advert_owner_seed ox (sk_public_key signer) = Inr owner \<and>
     advert_bytes ox signer keys = Inr bytes \<and> nt_advert net owner = Some bytes)"

lemma published_read:
  assumes "laws ox" "keys_made ox keys" "dsa_law ox signer" "published ox net signer keys"
    and "advert_owner_seed ox (sk_public_key signer) = Inr owner" "nt_advert net owner = Some bytes"
    "advert_verify ox (sk_public_key signer) bytes = Inr ad" "encapsulate_to ox ad now fill = Inr enc"
  shows "he_serial enc = ak_serial (aks_current keys)"
    "\<exists>m. ml_kem_encapsulate ox (ak_ek (aks_current keys)) m = Inr (he_shared_secret enc, he_ciphertext enc)"
proof -
  from assms(4-6) have b: "advert_bytes ox signer keys = Inr bytes" by (auto simp: published_def)
  have "kem_law ox" using assms(1) by (simp add: laws_def)
  then have "length (ak_ek (aks_current keys)) = KEM_EK_LEN" using assms(2) unfolding keys_made_def by (auto dest: kem_law_keygen)
  from advert_build_signed [OF assms(3) this b [unfolded advert_bytes_def]]
  have "advert_verify ox (sk_public_key signer) bytes = Inr (current_advert keys)"
    using advert_verify_wire by (auto simp: current_advert_def)
  with assms(7) have ad: "ad = current_advert keys" by simp
  from assms(8) show "he_serial enc = ak_serial (aks_current keys)"
    "\<exists>m. ml_kem_encapsulate ox (ak_ek (aks_current keys)) m = Inr (he_shared_secret enc, he_ciphertext enc)"
    by (auto simp: encapsulate_to_def ad current_advert_def result_simps split: if_splits)
qed

lemma announce:
  assumes law: "laws ox" "keys_made ox keys" "dsa_law ox signer" "dsa_law ox signer'" "published ox net signer' keys" "pk = sk_public_key signer'"
    and enc: "advert_owner_seed ox pk = Inr owner" "nt_advert net owner = Some bytes" "advert_verify ox pk bytes = Inr ad"
      "encapsulate_to ox ad now fill = Inr enc"
    and op: "opening_build ox signer pk key rpk (he_serial enc) = Inr opening" "opening_decode (opening_encode opening) = Inr opening'"
      "control_key ox (he_shared_secret enc) = Inr ck"
      "seal_control_with_key ox draw ck \<lparr>c_opening = Some opening', c_collected_cursor = cursor, c_closed = False,
         c_generation = gen, c_reach = fst rs, c_serial = snd rs\<rparr> = Inr control"
    and h: "seal_outstanding ox hdraw \<lparr>hs_shared_secret = he_shared_secret enc, hs_kem_ct = he_ciphertext enc,
         hs_advert_serial = o_advert_serial opening', hs_original = None\<rparr> key pk at = Inr hello" "attempt_ok ox at"
    and len: "length key = HELLO_LOOKUP_KEY_LEN" "length rpk = KEM_EK_LEN" "handle_valid rs"
  shows "announced ox signer pk keys rpk \<lparr>an_key = key, an_serial = he_serial enc, an_secret = he_shared_secret enc,
    an_kem_ct = he_ciphertext enc, an_control_key = ck, an_opening = opening, an_control = control, an_cursor = cursor,
    an_generation = gen, an_reach = rs, an_hello = oh_sealed hello, an_attempt = at\<rparr>"
proof -
  from op(1) obtain sig where o: "opening = \<lparr>o_writer_identity_pk = sk_public_key signer, o_recipient_identity_pk = pk,
      o_channel_lookup_key = key, o_first_ratchet_pk = rpk, o_advert_serial = he_serial enc, o_signature = sig\<rparr>"
    and sig: "keypair_sign ox signer (opening_signing_input (sk_public_key signer) pk key rpk (he_serial enc)) = Inr sig"
    by (auto simp: opening_build_def Let_def result_simps)
  have "opening_wf opening" using law(3,4,6) verify_signature_sign [OF law(3) sig] len
    by (simp add: o opening_wf_def dsa_law_def)
  then have e: "opening' = opening" using op(2) opening_decode_encode by simp
  have sr: "o_advert_serial opening = he_serial enc" by (simp add: o)
  note p = published_read [OF law(1,2,4,5)]
  have pk: "length pk = DSA_PK_LEN" using law(4,6) by (simp add: dsa_law_def)
  show ?thesis
    using law(1-3) len pk p [OF _ enc(2) _ enc(4)] enc(1,3) law(6) op(1,3) op(4) [unfolded e] h [unfolded e sr]
    by (auto simp: announced_def announces_def)
qed

section \<open>The acceptance is recognised\<close>

text \<open>The record after the acceptance: the recipient's channel is known and its reply read.\<close>

definition recognised_conv :: "conversation \<Rightarrow> byte list \<Rightarrow> byte list \<Rightarrow> conv_state \<Rightarrow> conv_state" where
  "recognised_conv reader lk ck st = st\<lparr>cs_conversation := snapshot reader, cs_incoming_lookup_key := lk,
     cs_peer_control_key := Some ck, cs_my_collected := 1, cs_peer_collected := 0, cs_outstanding_hello := None,
     cs_awaiting_acceptance := False, cs_own_hello_secret := None\<rparr>"

lemma ring_1_0:
  "(ring_restore 1 0 :: ch_error + ring) = Inr \<lparr>send_seq = 1, peer_collected = 0\<rparr>"
  "advance_peer_collected \<lparr>send_seq = 1, peer_collected = 0\<rparr> 0 = \<lparr>send_seq = 1, peer_collected = 0\<rparr>"
  by (simp_all add: ring_restore_def advance_peer_collected_def)

lemma settle_recognises:
  assumes env: "answers env"
    and w: "sole p (cs_peer_identity_pk st) w" "files_at p w = opened_files st t\<^sub>0 slot\<^sub>0"
    and st: "cs_awaiting_acceptance st" "\<not> cs_delete_pending st" "cs_send_seq st = 1" "cs_peer_collected st = 0"
      "cs_my_collected st = 0" "cs_conversation st = snapshot cv"
    and h: "hr_cursor heard = 0" "hl_lookup_key hello = lk" "control_key (fe_ox env) secret = Inr ck"
      "drop_owner_seed (fe_ox env) (sk_public_key (me_signer me)) = Inr my_drop"
    and ring: "nt_channel (fw_net w) (lk, slot_for 0) = Some raw" "nt_channel (fw_net w) (lk, slot_for 1) = None"
      "open_ring_slot (fe_ox env) raw 0 cv \<lparr>send_seq = 1, peer_collected = 0\<rparr> =
         (Inr (RsMessage 0 t body None), reader, \<lparr>send_seq = 1, peer_collected = 0\<rparr>)"
  obtains acc w' where "settle env me (cs_peer_identity_pk st) hello heard secret slot w = (Inr (Accepted acc), w')"
    "ac_peer acc = p" "ac_lookup_key acc = lk" "ac_messages acc = [(t, body)]" "ac_unopened acc = None"
    "files_at p w' = opened_files (recognised_conv reader lk ck st) t\<^sub>0 slot\<^sub>0"
    "nt_channel (fw_net w') = nt_channel (fw_net w)"
proof -
  have c: "correspondence_for env 20 (cs_peer_identity_pk st) w = (Inr (Some p), loaded w)"
    using run_correspondence_for(1) [OF env w(1), of st] w(2) by simp
  have l: "files_at p (loaded w) = opened_files st t\<^sub>0 slot\<^sub>0" using loaded_sole [OF w(1)] w(2) by simp
  let ?w1 = "touch p (opened_files st t\<^sub>0 slot\<^sub>0) (loaded w)"
  let ?st1 = "st\<lparr>cs_incoming_lookup_key := lk, cs_peer_control_key := Some ck\<rparr>"
  let ?w2 = "touch p (opened_files ?st1 t\<^sub>0 slot\<^sub>0) (loaded w)"
  let ?st2 = "recognised_conv reader lk ck st"
  let ?w3 = "touch p (opened_files ?st2 t\<^sub>0 slot\<^sub>0) (loaded w)"
  let ?rr = "\<lparr>rr_messages = [(t, body)], rr_collected = 1, rr_unopened = None\<rparr>"
  have l1: "fl_load env 21 p (loaded w) = (Inr st, ?w1)" "fl_load env 30 p ?w1 = (Inr st, ?w1)"
    using run_store(1) [OF env, of p "loaded w" st] run_store(1) [OF env, of p ?w1 st] l by simp_all
  have g1: "recognise_closure (as_loaded_of st) lk ck st = Inr (as_loaded_of ?st1, ?st1)"
    using st by (simp add: recognise_closure_def refuse_if_marked_def unchanged_same Let_def)
  have u1: "fl_try_update_conv env 31 p (recognise_closure (as_loaded_of st) lk ck) ?w1 = (Inr (as_loaded_of ?st1), ?w2)"
    using run_store(2) [where g = "recognise_closure (as_loaded_of st) lk ck" and st = st and p = p and w = ?w1, OF env _ g1] by simp
  have rr: "read_ring env 100 lk 0 cv \<lparr>send_seq = 1, peer_collected = 0\<rparr> ?w2 = (Inr (?rr, reader, \<lparr>send_seq = 1, peer_collected = 0\<rparr>), ?w2)"
    using read_ring_one(2) [of ?w2 lk 0 raw] ring env by simp
  have "stored_force ?st1 = stored_force st" by (simp add: stored_force_def)
  then have wc: "write_conversation reader (stored_force st) ?st1 = ?st1\<lparr>cs_conversation := snapshot reader\<rparr>"
    using write_conversation_same [of reader ?st1] by simp
  have g2: "recognised_closure (as_loaded_of ?st1) reader (stored_force st) ?rr \<lparr>send_seq = 1, peer_collected = 0\<rparr> ?st1 = Inr ((), ?st2)"
    using st by (simp add: recognised_closure_def refuse_if_marked_def unchanged_same wc recognised_conv_def)
  have u2: "fl_try_update_conv env 32 p (recognised_closure (as_loaded_of ?st1) reader (stored_force st) ?rr
      \<lparr>send_seq = 1, peer_collected = 0\<rparr>) ?w2 = (Inr (), ?w3)"
    using run_store(2) [where g = "recognised_closure (as_loaded_of ?st1) reader (stored_force st) ?rr
      \<lparr>send_seq = 1, peer_collected = 0\<rparr>" and st = ?st1 and p = p and w = ?w2, OF env _ g2] by simp
  let ?w4 = "set_drops ((drops_at env 33 ?w3)((my_drop, slot) := None)) ?w3"
  have "settle env me (cs_peer_identity_pk st) hello heard secret slot w =
    (Inr (Accepted \<lparr>ac_peer = p, ac_lookup_key = lk, ac_peer_cursor = 0, ac_peer_reach = hr_reach heard,
      ac_peer_reach_serial = hr_serial heard, ac_messages = [(t, body)], ac_unopened = None\<rparr>), ?w4)"
    using st h c l1 u1 rr u2
    by (simp add: settle_def recognise_acceptance_def run_basic run_records [OF env] restore_snapshot ring_1_0)
  then show thesis by (rule that) simp_all
qed

section \<open>The channel the exchange leaves\<close>

lemma side_after_exchange:
  assumes "restore (cs_conversation st) = pt_conv p s" "\<not> cs_delete_pending st" "\<not> cs_awaiting_acceptance st"
    "\<not> cs_acceptance_pending st" "cs_outgoing_lookup_key st = key s" "cs_incoming_lookup_key st = key (other s)"
    "cs_send_seq st = 1" "cs_my_collected st = 1" "cs_peer_collected st = 0"
    and "d_seq (cv_sending (pt_conv p s)) = 1" "v_next_seq (cv_receiving (pt_conv p s)) = 1"
      "length (pt_sent p s) = 1" "\<forall>t. length (pt_got p t) = 1" "pt_wire p s = []"
    and slot: "header_decode slot = Inr (h, c)" "h_seq h = 0"
    and net: "\<forall>\<sigma>. \<sigma> \<noteq> CONTROL_SUBKEY \<longrightarrow> net (key s, \<sigma>) = (if \<sigma> = slot_for 0 then Some slot else None)"
  shows "side_ok key p s st (empty_outbox[0 := Some \<lparr>oe_seq = 0, oe_sent_at = t, oe_ciphertext = slot\<rparr>]) net"
proof -
  have z: "nth_seq 0 = 0" by (simp add: nth_seq_def)
  have "entries_ok (empty_outbox[0 := Some \<lparr>oe_seq = 0, oe_sent_at = t, oe_ciphertext = slot\<rparr>]) 1"
    using slot by (auto simp: entries_ok_def empty_outbox_def RING_SLOTS_def ring_index_def nth_list_update split: if_splits)
  then have o: "outbox_ok (empty_outbox[0 := Some \<lparr>oe_seq = 0, oe_sent_at = t, oe_ciphertext = slot\<rparr>]) 1 1 []"
    by (simp add: outbox_ok_def)
  have "slots_ok net (key s) 1 1 []"
    unfolding slots_ok_def using net slot z by (auto split: if_splits)
  with o show ?thesis using assms(1-14) by (simp add: side_ok_def wire_ok_def)
qed

lemma exchange_sim:
  assumes sy: "parties_synced ox (exchanged A B (plaintext_of a) (plaintext_of b))"
      "d_seq (cv_sending A) = 1" "v_next_seq (cv_receiving A) = 1" "d_seq (cv_sending B) = 1" "v_next_seq (cv_receiving B) = 1"
    and conv: "cs_conversation st\<^sub>A = snapshot A" "cs_conversation st\<^sub>B = snapshot B"
    and slots: "header_decode slot\<^sub>A = Inr (h\<^sub>A, c\<^sub>A)" "h_seq h\<^sub>A = 0" "header_decode slot\<^sub>B = Inr (h\<^sub>B, c\<^sub>B)" "h_seq h\<^sub>B = 0"
    and keys: "key\<^sub>A \<noteq> key\<^sub>B" "key\<^sub>A \<noteq> NO_LOOKUP_KEY" "key\<^sub>B \<noteq> NO_LOOKUP_KEY"
    and files: "files_at the_peer w\<^sub>A = opened_files st\<^sub>A t\<^sub>A slot\<^sub>A" "files_at the_peer w\<^sub>B = opened_files st\<^sub>B t\<^sub>B slot\<^sub>B"
    and st\<^sub>A: "\<not> cs_delete_pending st\<^sub>A" "\<not> cs_awaiting_acceptance st\<^sub>A" "\<not> cs_acceptance_pending st\<^sub>A"
      "cs_outgoing_lookup_key st\<^sub>A = key\<^sub>A" "cs_incoming_lookup_key st\<^sub>A = key\<^sub>B" "cs_send_seq st\<^sub>A = 1" "cs_my_collected st\<^sub>A = 1"
      "cs_peer_collected st\<^sub>A = 0"
    and st\<^sub>B: "\<not> cs_delete_pending st\<^sub>B" "\<not> cs_awaiting_acceptance st\<^sub>B" "\<not> cs_acceptance_pending st\<^sub>B"
      "cs_outgoing_lookup_key st\<^sub>B = key\<^sub>B" "cs_incoming_lookup_key st\<^sub>B = key\<^sub>A" "cs_send_seq st\<^sub>B = 1" "cs_my_collected st\<^sub>B = 1"
      "cs_peer_collected st\<^sub>B = 0"
    and net: "\<forall>\<sigma>. \<sigma> \<noteq> CONTROL_SUBKEY \<longrightarrow> net (key\<^sub>A, \<sigma>) = (if \<sigma> = slot_for 0 then Some slot\<^sub>A else None)"
      "\<forall>\<sigma>. \<sigma> \<noteq> CONTROL_SUBKEY \<longrightarrow> net (key\<^sub>B, \<sigma>) = (if \<sigma> = slot_for 0 then Some slot\<^sub>B else None)"
  shows "chan_sim ox (\<lambda>s. case s of Alice \<Rightarrow> key\<^sub>A | Bob \<Rightarrow> key\<^sub>B)
    \<lparr>cw_store = (\<lambda>s. case s of Alice \<Rightarrow> fw_store w\<^sub>A | Bob \<Rightarrow> fw_store w\<^sub>B), cw_net = net,
     cw_sent = (\<lambda>s. case s of Alice \<Rightarrow> [a] | Bob \<Rightarrow> [b]), cw_got = (\<lambda>s. case s of Alice \<Rightarrow> [b] | Bob \<Rightarrow> [a])\<rparr>
    (exchanged A B (plaintext_of a) (plaintext_of b))"
proof -
  let ?key = "\<lambda>s. case s of Alice \<Rightarrow> key\<^sub>A | Bob \<Rightarrow> key\<^sub>B" and ?p = "exchanged A B (plaintext_of a) (plaintext_of b)"
  have "side_ok ?key ?p Alice st\<^sub>A (empty_outbox[0 := Some \<lparr>oe_seq = 0, oe_sent_at = t\<^sub>A, oe_ciphertext = slot\<^sub>A\<rparr>]) net"
    by (rule side_after_exchange [OF _ st\<^sub>A(1-3) _ _ st\<^sub>A(6-8) _ _ _ _ _ slots(1,2)])
      (use sy conv st\<^sub>A net(1) in \<open>simp_all add: exchanged_def restore_snapshot split: side.split\<close>)
  moreover have "side_ok ?key ?p Bob st\<^sub>B (empty_outbox[0 := Some \<lparr>oe_seq = 0, oe_sent_at = t\<^sub>B, oe_ciphertext = slot\<^sub>B\<rparr>]) net"
    by (rule side_after_exchange [OF _ st\<^sub>B(1-3) _ _ st\<^sub>B(6-8) _ _ _ _ _ slots(3,4)])
      (use sy conv st\<^sub>B net(2) in \<open>simp_all add: exchanged_def restore_snapshot split: side.split\<close>)
  ultimately have "store_ok ?key ?p s (case s of Alice \<Rightarrow> fw_store w\<^sub>A | Bob \<Rightarrow> fw_store w\<^sub>B) net" for s
    using files by (cases s) (auto simp: store_ok_def conv_of_def outbox_of_def files_at_def)
  moreover have "parties_ok ox ?key ?p"
    unfolding parties_ok_def using sy(1) keys by (auto simp: exchanged_def split: side.split)
  ultimately show ?thesis by (simp add: chan_sim_def logs_ok_def exchanged_def split: side.split)
qed

lemma established_delivers:
  assumes law: "gcm_law ox" "kem_law ox" and sim: "chan_sim ox key w p" and few: "\<forall>s. length (cw_sent w s) \<le> n"
    and es: "\<forall>e \<in> set es. durable e" "n + length es < 2 ^ 64"
  shows "let w' = fold (flow_step ox) es w;
             owed = length (cw_sent w' (other s)) - length (cw_got w' s)
    in (\<exists>rest. cw_sent w' (other s) = cw_got w' s @ rest) \<and>
       cw_got (fold (flow_step ox) (Repair (other s) all_lost # replicate owed (Collect s (\<lambda>_. IoOk) RecOk)) w') s
         = cw_sent w' (other s)"
proof -
  let ?w = "fold (flow_step ox) es w"
  let ?r = "flow_step ox (Repair (other s) all_lost) ?w"
  have "chan_ok (ox, n, w)" using law sim few by (auto simp: chan_ok_def)
  from channel_run.inv_fold [OF this, of es] es obtain key p where sim: "chan_sim ox key ?w p"
    by (auto simp: fold_counted chan_ok_def)
  have r: "cw_sent ?r = cw_sent ?w" "cw_got ?r = cw_got ?w" by (simp_all split: option.split)
  note d = drain_channel [OF law sim_repair [OF sim] repair_all_on_net [OF sim, of s], OF refl]
  from d chan_prefix [OF sim, of s] show ?thesis by (simp only: Let_def r fold_Cons comp_apply)
qed

section \<open>From a first contact to an established channel\<close>

definition ready :: "oxi \<Rightarrow> network \<Rightarrow> me \<Rightarrow> advert_keys \<Rightarrow> bool" where
  "ready ox net me keys \<longleftrightarrow> dsa_law ox (me_signer me) \<and> keys_made ox keys \<and> published ox net (me_signer me) keys"

text \<open>The store holds no conversation with the identity, and the label the new one gets is unused.\<close>

definition new_conversation :: "byte list \<Rightarrow> dm_store \<Rightarrow> bool" where
  "new_conversation pk s \<longleftrightarrow> distinct (sto_peers s) \<and> (\<forall>q. q \<notin> set (sto_peers s) \<longrightarrow> sto_files s q = no_files) \<and>
     (\<forall>q st. f_conv (sto_files s q) = Held st \<longrightarrow> cs_peer_identity_pk st \<noteq> pk) \<and> sto_files s the_peer = no_files"

definition flow_ready :: "oxi \<Rightarrow> flow_env \<Rightarrow> bool" where
  "flow_ready ox env \<longleftrightarrow> fe_ox env = ox \<and> alone env \<and> draws_sized env \<and> addressed env \<and>
     fe_label env = Some the_peer \<and> handle_valid (fe_reach env)"

text \<open>A scan that meets no failure, before which nobody wrote into the drop.\<close>

definition scan_ready :: "oxi \<Rightarrow> flow_env \<Rightarrow> bool" where
  "scan_ready ox env \<longleftrightarrow> fe_ox env = ox \<and> answers env \<and> fe_writers env 0 = (\<lambda>d. d)"

definition delivers :: "oxi \<Rightarrow> chan_world \<Rightarrow> bool" where
  "delivers ox w \<longleftrightarrow> (\<forall>es s. (\<forall>e \<in> set es. durable e) \<longrightarrow> 1 + length es < 2 ^ 64 \<longrightarrow>
     (let w' = fold (flow_step ox) es w;
          owed = length (cw_sent w' (other s)) - length (cw_got w' s)
      in (\<exists>rest. cw_sent w' (other s) = cw_got w' s @ rest) \<and>
         cw_got (fold (flow_step ox) (Repair (other s) all_lost # replicate owed (Collect s (\<lambda>_. IoOk) RecOk)) w') s
           = cw_sent w' (other s)))"

lemma new_conversation_sole:
  "new_conversation pk (fw_store w) \<Longrightarrow> sole the_peer pk w \<and> files_at the_peer w = no_files"
  by (auto simp: new_conversation_def sole_def files_at_def)

lemma first_reads_of:
  assumes "gcm_law ox" "kem_law ox" "initiate ox ss fill = Inr (pk, A\<^sub>0)" "seal_slot ox draw\<^sub>A fill\<^sub>A now\<^sub>A body A\<^sub>0 = (Inr slot\<^sub>A, A\<^sub>1)"
  shows "first_reads ox ss pk slot\<^sub>A (sat_mul now\<^sub>A 1000) body now reply"
  unfolding first_reads_def
proof (intro allI impI)
  fix cv\<^sub>0 draw fill slot cv
  assume b: "chain_accept ox ss pk = Inr cv\<^sub>0" "seal_slot ox draw fill now reply cv\<^sub>0 = (Inr slot, cv)"
  obtain h\<^sub>A c\<^sub>A h c B where "header_decode slot\<^sub>A = Inr (h\<^sub>A, c\<^sub>A)" "h_seq h\<^sub>A = 0" "h_cursor h\<^sub>A = 0"
    "conversation_open ox h\<^sub>A c\<^sub>A cv = (Inr (plaintext_of (sat_mul now\<^sub>A 1000, body)), B)"
    "header_decode slot = Inr (h, c)" "h_seq h = 0"
    by (rule first_exchange [OF assms(1-3) b(1) assms(4) b(2)]) blast
  then show "\<exists>h c reader. header_decode slot = Inr (h, c) \<and> h_seq h = 0 \<and>
      open_ring_slot ox slot\<^sub>A 0 cv \<lparr>send_seq = 1, peer_collected = 0\<rparr> =
        (Inr (RsMessage 0 (sat_mul now\<^sub>A 1000) body None), reader, \<lparr>send_seq = 1, peer_collected = 0\<rparr>)"
    by (simp add: open_ring_slot_def decode_plaintext_of ring_1_0)
qed


text \<open>What a first contact left on its side.\<close>

definition contacted ::
  "oxi \<Rightarrow> me \<Rightarrow> byte list \<Rightarrow> advert_keys \<Rightarrow> byte list \<Rightarrow> u64 \<Rightarrow> network \<Rightarrow> announcement \<Rightarrow> byte list \<Rightarrow> byte list \<Rightarrow> conversation \<Rightarrow>
   conv_state \<Rightarrow> flow_world \<Rightarrow> bool" where
  "contacted ox me pk keys body now net an rpk slot cv st w \<longleftrightarrow>
    announced ox (me_signer me) pk keys rpk an \<and> an_cursor an = 0 \<and> an_key an \<noteq> NO_LOOKUP_KEY \<and>
    (\<exists>fill draw fill' cv\<^sub>0. initiate ox (an_secret an) fill = Inr (rpk, cv\<^sub>0) \<and> seal_slot ox draw fill' now body cv\<^sub>0 = (Inr slot, cv)) \<and>
    (\<exists>drop. drop_owner_seed ox pk = Inr drop \<and> nt_drop (fw_net w) (drop, ha_slot (an_attempt an)) = Some (an_hello an)) \<and>
    nt_channel (fw_net w) = (nt_channel net)((an_key an, CONTROL_SUBKEY) \<mapsto> an_control an, (an_key an, slot_for 0) \<mapsto> slot) \<and>
    nt_advert (fw_net w) = nt_advert net \<and> files_at the_peer w = opened_files st now slot \<and> sole the_peer pk w \<and>
    cs_peer_identity_pk st = pk \<and> cs_awaiting_acceptance st \<and> \<not> cs_delete_pending st \<and> \<not> cs_acceptance_pending st \<and>
    cs_send_seq st = 1 \<and> cs_peer_collected st = 0 \<and> cs_my_collected st = 0 \<and> cs_conversation st = snapshot cv \<and>
    cs_outgoing_lookup_key st = an_key an"

lemma first_contact_announces:
  assumes law: "laws ox" and dA: "dsa_law ox (me_signer A)" and dB: "dsa_law ox (me_signer B)" "keys_made ox keys\<^sub>B"
      "published ox net (me_signer B) keys\<^sub>B"
    and eA: "flow_ready ox env\<^sub>A" and s: "new_conversation (sk_public_key (me_signer B)) s\<^sub>A"
    and opened: "first_contact env\<^sub>A A (sk_public_key (me_signer B)) body now \<lparr>fw_store = s\<^sub>A, fw_net = net\<rparr>
      = (Inr (Opened the_peer key at_slot n), w\<^sub>A)"
  obtains an rpk slot A\<^sub>1 st where
    "contacted ox A (sk_public_key (me_signer B)) keys\<^sub>B body now net an rpk slot A\<^sub>1 st w\<^sub>A"
    "an_key an = key" "ha_slot (an_attempt an) = at_slot"
proof -
  let ?pB = "sk_public_key (me_signer B)" and ?w = "\<lparr>fw_store = s\<^sub>A, fw_net = net\<rparr>"
  have e: "fe_ox env\<^sub>A = ox" "alone env\<^sub>A" "draws_sized env\<^sub>A" "addressed env\<^sub>A" "fe_label env\<^sub>A = Some the_peer" "handle_valid (fe_reach env\<^sub>A)"
    using eA by (simp_all add: flow_ready_def)
  have l: "sole the_peer ?pB ?w" "files_at the_peer ?w = no_files" using new_conversation_sole [of ?pB ?w] s by simp_all
  from wpD [OF first_contact_leaves [OF e(2,3) l e(5)] opened] obtain st slot where
    made: "contact_made env\<^sub>A A ?pB body now net key st slot" and fin: "contact_finished env\<^sub>A the_peer st now slot net at_slot w\<^sub>A"
    by auto
  from made obtain owner bytes ad gen chan efill enc ifill rpk A\<^sub>0 opn sdraw sfill A\<^sub>1 ring ck where
    ch: "key = fe_channel_key env\<^sub>A chan"
    and ad: "advert_owner_seed ox ?pB = Inr owner" "nt_advert net owner = Some bytes" "advert_verify ox ?pB bytes = Inr ad"
      "encapsulate_to ox ad now efill = Inr enc"
    and i: "initiate ox (he_shared_secret enc) ifill = Inr (rpk, A\<^sub>0)"
    and ob: "opening_build ox (me_signer A) ?pB key rpk (he_serial enc) = Inr opn"
    and sA: "seal_slot ox sdraw sfill now body A\<^sub>0 = (Inr slot, A\<^sub>1)" and rg: "send_seq ring = 1"
    and ck: "control_key ox (he_shared_secret enc) = Inr ck"
    and st: "st = opened_conv ?pB key gen A\<^sub>1 ring ck enc (opening_encode opn)"
    unfolding contact_made_def e(1) by blast
  from fin obtain opn' draw control drop hdraw at hello where
    fo: "opening_decode (opening_encode opn) = Inr opn'"
      "seal_control_with_key ox draw ck \<lparr>c_opening = Some opn', c_collected_cursor = 0, c_closed = False,
         c_generation = gen, c_reach = fst (fe_reach env\<^sub>A), c_serial = snd (fe_reach env\<^sub>A)\<rparr> = Inr control"
      "seal_outstanding ox hdraw \<lparr>hs_shared_secret = he_shared_secret enc, hs_kem_ct = he_ciphertext enc,
         hs_advert_serial = o_advert_serial opn', hs_original = None\<rparr> key ?pB at = Inr hello" "attempt_ok ox at" "at_slot = ha_slot at"
    and fw: "drop_owner_seed ox ?pB = Inr drop" "nt_drop (fw_net w\<^sub>A) (drop, at_slot) = Some (oh_sealed hello)"
      "files_at the_peer w\<^sub>A = opened_files (placed hello st) now slot" "sole the_peer ?pB w\<^sub>A"
      "nt_channel (fw_net w\<^sub>A) = (nt_channel net)((key, CONTROL_SUBKEY) \<mapsto> control, (key, slot_for 0) \<mapsto> slot)"
      "nt_advert (fw_net w\<^sub>A) = nt_advert net"
    unfolding contact_finished_def e(1) st by (auto simp: opened_conv_def)
  have k: "length key = HELLO_LOOKUP_KEY_LEN" "key \<noteq> NO_LOOKUP_KEY" using ch e(4) by (simp_all add: addressed_def)
  have "length rpk = KEM_EK_LEN" using law i initiate_pk_length by (auto simp: laws_def)
  note an = announce [OF law dB(2) dA dB(1,3) refl ad ob fo(1) ck fo(2-4) k(1) this e(6)]
  show thesis
    by (rule that, unfold contacted_def, intro conjI, rule an)
      (use i sA k fo fw st rg in \<open>auto simp: opened_conv_def placed_def\<close>)
qed

lemma acceptance_announces:
  assumes law: "laws ox" and dB: "dsa_law ox (me_signer B)" and dA: "dsa_law ox (me_signer A)" "keys_made ox keys\<^sub>A"
      "published ox (fw_net w) (me_signer A) keys\<^sub>A" "pk = sk_public_key (me_signer A)"
    and rq: "cr_identity req = pk" "cr_lookup_key req = key\<^sub>A" "cr_shared_secret req = ss" "cr_first_ratchet_pk req = pk\<^sub>0"
    and eB: "flow_ready ox env\<^sub>B"
    and made: "acceptance_made env\<^sub>B B the_peer req reply now raw t body (fw_net w) r w'"
  obtains an cv\<^sub>0 rpk draw fill slot B\<^sub>1 h c B\<^sub>2 st drop where
    "announced ox (me_signer B) pk keys\<^sub>A rpk an" "an_key an = acd_outgoing_lookup_key r" "an_cursor an = 0"
    "ha_slot (an_attempt an) = acd_hello_slot r" "acd_messages r = [(t, body)]" "an_key an \<noteq> NO_LOOKUP_KEY"
    "chain_accept ox ss pk\<^sub>0 = Inr cv\<^sub>0"
    "seal_slot ox draw fill now reply cv\<^sub>0 = (Inr slot, B\<^sub>1)" "header_decode slot = Inr (h, c)"
    "open_ring_slot ox raw 0 B\<^sub>1 \<lparr>send_seq = 1, peer_collected = 0\<rparr> =
       (Inr (RsMessage 0 t body None), B\<^sub>2, \<lparr>send_seq = 1, peer_collected = 0\<rparr>)"
    "drop_owner_seed ox pk = Inr drop" "nt_drop (fw_net w') (drop, acd_hello_slot r) = Some (an_hello an)"
    "nt_channel (fw_net w') = (nt_channel (fw_net w))((an_key an, CONTROL_SUBKEY) \<mapsto> an_control an, (an_key an, slot_for 0) \<mapsto> slot)"
    "nt_advert (fw_net w') = nt_advert (fw_net w)" "files_at the_peer w' = opened_files st now slot"
    "cs_conversation st = snapshot B\<^sub>2"
    "\<not> cs_awaiting_acceptance st" "\<not> cs_delete_pending st" "\<not> cs_acceptance_pending st" "cs_send_seq st = 1"
    "cs_peer_collected st = 0" "cs_my_collected st = 1" "cs_outgoing_lookup_key st = an_key an" "cs_incoming_lookup_key st = key\<^sub>A"
proof -
  have e: "fe_ox env\<^sub>B = ox" "alone env\<^sub>B" "draws_sized env\<^sub>B" "addressed env\<^sub>B" "handle_valid (fe_reach env\<^sub>B)"
    using eB by (simp_all add: flow_ready_def)
  from made obtain chan key cv\<^sub>0 draw fill slot B\<^sub>1 ck\<^sub>A h c rpk B\<^sub>2 at_slot n where
    key: "key = fe_channel_key env\<^sub>B chan" and acc: "chain_accept ox ss pk\<^sub>0 = Inr cv\<^sub>0"
    and s: "seal_slot ox draw fill now reply cv\<^sub>0 = (Inr slot, B\<^sub>1)" and h: "header_decode slot = Inr (h, c)" "h_kem_pk h = Some rpk"
    and op: "open_ring_slot ox raw 0 B\<^sub>1 \<lparr>send_seq = 1, peer_collected = 0\<rparr> =
       (Inr (RsMessage 0 t body None), B\<^sub>2, \<lparr>send_seq = 1, peer_collected = 0\<rparr>)"
    and r: "r = \<lparr>acd_peer = the_peer, acd_outgoing_lookup_key = key, acd_messages = [(t, body)], acd_hello_slot = at_slot,
       acd_repicks = n, acd_unopened = None\<rparr>"
    and fin: "acceptance_finished env\<^sub>B B the_peer (requested_conv req key B\<^sub>1 \<lparr>send_seq = 1, peer_collected = 0\<rparr> ck\<^sub>A) now now slot rpk
       \<lparr>rr_messages = [(t, body)], rr_collected = 1, rr_unopened = None\<rparr> B\<^sub>2 (fw_net w) at_slot w'"
    unfolding acceptance_made_def e(1) rq by blast
  let ?st = "requested_conv req key B\<^sub>1 \<lparr>send_seq = 1, peer_collected = 0\<rparr> ck\<^sub>A"
  from fin obtain enc opn opn' ck draw' control drop hdraw at hello where
    mint: "acceptance_minted env\<^sub>B B pk now (fw_net w) key rpk enc opn ck"
    and fo: "opening_decode (opening_encode opn) = Inr opn'"
       "seal_control_with_key ox draw' ck \<lparr>c_opening = Some opn', c_collected_cursor = 0, c_closed = False,
         c_generation = cs_generation ?st, c_reach = fst (fe_reach env\<^sub>B), c_serial = snd (fe_reach env\<^sub>B)\<rparr> = Inr control"
       "seal_outstanding ox hdraw \<lparr>hs_shared_secret = he_shared_secret enc, hs_kem_ct = he_ciphertext enc,
         hs_advert_serial = o_advert_serial opn', hs_original = None\<rparr> key pk at = Inr hello"
       "attempt_ok ox at" "at_slot = ha_slot at"
    and fw: "drop_owner_seed ox pk = Inr drop" "nt_drop (fw_net w') (drop, at_slot) = Some (oh_sealed hello)"
       "files_at the_peer w' = opened_files (accepted_conv B\<^sub>2 (stored_force ?st) \<lparr>rr_messages = [(t, body)], rr_collected = 1, rr_unopened = None\<rparr>
         \<lparr>send_seq = 1, peer_collected = 0\<rparr> (placed hello (minted_conv ?st ck enc (opening_encode opn)))) now slot"
       "nt_channel (fw_net w') = (nt_channel (fw_net w))((key, CONTROL_SUBKEY) \<mapsto> control, (key, slot_for 0) \<mapsto> slot)"
       "nt_advert (fw_net w') = nt_advert (fw_net w)"
    unfolding acceptance_finished_def e(1) requested_conv_simps(1,3) rq by blast
  from mint obtain owner bytes ad efill where ad: "advert_owner_seed ox pk = Inr owner"
    "nt_advert (fw_net w) owner = Some bytes" "advert_verify ox pk bytes = Inr ad"
    "encapsulate_to ox ad now efill = Inr enc" and ob: "opening_build ox (me_signer B) pk key rpk (he_serial enc) = Inr opn"
    and ck: "control_key ox (he_shared_secret enc) = Inr ck"
    unfolding acceptance_minted_def e(1) by blast
  have k: "length key = HELLO_LOOKUP_KEY_LEN" "key \<noteq> NO_LOOKUP_KEY" using key e(4) by (simp_all add: addressed_def)
  have "length rpk = KEM_EK_LEN" using header_decode_sound [OF h(1)] h(2) by (simp add: header_wf_def)
  note an = announce [OF law dA(2) dB dA(1,3,4) ad ob fo(1) ck fo(2-4) k(1) this e(5)]
  let ?m = "placed hello (minted_conv ?st ck enc (opening_encode opn))"
  have f: "stored_force ?st = stored_force ?m" by (simp add: stored_force_def placed_def minted_conv_def requested_conv_def)
  have "accepted_conv B\<^sub>2 (stored_force ?st) \<lparr>rr_messages = [(t, body)], rr_collected = 1, rr_unopened = None\<rparr>
      \<lparr>send_seq = 1, peer_collected = 0\<rparr> ?m =
    ?m\<lparr>cs_conversation := snapshot B\<^sub>2, cs_my_collected := 1, cs_peer_collected := 0, cs_acceptance_pending := False\<rparr>"
    unfolding f accepted_conv_def write_conversation_same by (simp add: placed_def minted_conv_def requested_conv_simps)
  note st = fw(3) [unfolded this]
  show thesis
    by (rule that [OF an _ _ _ _ _ acc s h(1) op fw(1) _ _ fw(5) st])
      (use k r fo fw rq in \<open>simp_all add: placed_def minted_conv_def requested_conv_simps\<close>)
qed

text \<open>The request the recipient's scan makes of it.\<close>

definition request_of :: "me \<Rightarrow> announcement \<Rightarrow> contact_request" where
  "request_of me an = contact_request_of (sk_public_key (me_signer me)) (hello_of an) (heard_of an) (an_secret an)
     (ha_slot (an_attempt an))"

lemma ring_slots_distinct: "slot_for 0 \<noteq> CONTROL_SUBKEY" "slot_for 1 \<noteq> CONTROL_SUBKEY" "slot_for 0 \<noteq> slot_for 1"
  by (simp_all add: slot_for_def CONTROL_SUBKEY_def RING_SLOTS_def)

lemma request_of_announced:
  assumes "announced ox (me_signer me) pk keys rpk an"
  shows "cr_identity (request_of me an) = sk_public_key (me_signer me)" "cr_lookup_key (request_of me an) = an_key an"
    "cr_shared_secret (request_of me an) = an_secret an" "cr_first_ratchet_pk (request_of me an) = rpk"
  using announced_opening(4) assms unfolding announced_def
  by (simp_all add: request_of_def contact_request_of_def hello_of_def heard_of_def) blast

lemma request_surfaces:
  assumes c: "contacted ox A (sk_public_key (me_signer B)) keys\<^sub>B body now net an rpk slot cv st w"
    and s: "new_conversation (sk_public_key (me_signer A)) s\<^sub>B" and e: "scan_ready ox env" "\<not> blocked (sk_public_key (me_signer A))"
  shows "collect_slot env B keys\<^sub>B blocked (ha_slot (an_attempt an)) \<lparr>fw_store = s\<^sub>B, fw_net = fw_net w\<rparr>
    = (Inr (Some (ContactRequest (request_of A an))), loaded \<lparr>fw_store = s\<^sub>B, fw_net = fw_net w\<rparr>)"
proof -
  let ?v = "\<lparr>fw_store = s\<^sub>B, fw_net = fw_net w\<rparr>" and ?pA = "sk_public_key (me_signer A)"
  have e: "fe_ox env = ox" "answers env" "fe_writers env 0 = (\<lambda>d. d)" "\<not> blocked ?pA" using e by (simp_all add: scan_ready_def)
  have l: "sole the_peer ?pA ?v" "files_at the_peer ?v = no_files" using new_conversation_sole [of ?pA ?v] s by simp_all
  have dr: "drops_at env 0 ?v = nt_drop (fw_net w)" "set_drops (nt_drop (fw_net w)) ?v = ?v"
    using e(3) by (simp_all add: drops_at_def set_drops_def)
  from c obtain drop where an: "announced (fe_ox env) (me_signer A) (sk_public_key (me_signer B)) keys\<^sub>B rpk an"
    and d: "drop_owner_seed ox (sk_public_key (me_signer B)) = Inr drop" "nt_drop (fw_net w) (drop, ha_slot (an_attempt an)) = Some (an_hello an)"
      "nt_channel (fw_net w) = (nt_channel net)((an_key an, CONTROL_SUBKEY) \<mapsto> an_control an, (an_key an, slot_for 0) \<mapsto> slot)"
    unfolding contacted_def e(1) by blast
  have "settle env B ?pA (hello_of an) (heard_of an) (an_secret an) (ha_slot (an_attempt an)) ?v = (Inr (ContactRequest (request_of A an)), loaded ?v)"
    using run_correspondence_for(2) [OF e(2) l(1), of 20] l(2) by (simp add: settle_def run_basic no_files_def request_of_def)
  then show ?thesis
    using announced_collected [where blocked = blocked and w = ?v and owner = drop, OF an refl e(2)] d dr e(1,4) ring_slots_distinct by simp
qed

text \<open>The channel both sides' records and the network hold once the acceptance is recognised.\<close>

definition channel_between :: "(u64 \<times> byte list) \<Rightarrow> (u64 \<times> byte list) \<Rightarrow> flow_world \<Rightarrow> flow_world \<Rightarrow> chan_world" where
  "channel_between a b w\<^sub>A w\<^sub>B = \<lparr>cw_store = (\<lambda>s. case s of Alice \<Rightarrow> fw_store w\<^sub>A | Bob \<Rightarrow> fw_store w\<^sub>B),
     cw_net = nt_channel (fw_net w\<^sub>A), cw_sent = (\<lambda>s. case s of Alice \<Rightarrow> [a] | Bob \<Rightarrow> [b]),
     cw_got = (\<lambda>s. case s of Alice \<Rightarrow> [b] | Bob \<Rightarrow> [a])\<rparr>"

lemma acceptance_establishes:
  assumes law: "laws ox" and parties: "ready ox net A keys\<^sub>A" "ready ox net B keys\<^sub>B" and envs: "flow_ready ox env\<^sub>B" "scan_ready ox scan\<^sub>A"
    and s: "new_conversation (sk_public_key (me_signer A)) s\<^sub>B" and blocked: "\<not> blocked\<^sub>A (sk_public_key (me_signer B))"
    and c: "contacted ox A (sk_public_key (me_signer B)) keys\<^sub>B body now net an rpk slot\<^sub>A A\<^sub>1 st w\<^sub>A"
    and fresh: "\<forall>\<sigma>. nt_channel net (an_key an, \<sigma>) = None"
    and acc: "accept env\<^sub>B B (request_of A an) reply now' (loaded \<lparr>fw_store = s\<^sub>B, fw_net = fw_net w\<^sub>A\<rparr>) = (Inr r, w\<^sub>B')"
    and ne: "acd_outgoing_lookup_key r \<noteq> an_key an" and fr: "\<forall>\<sigma>. nt_channel net (acd_outgoing_lookup_key r, \<sigma>) = None"
  shows "acd_messages r = [(sat_mul now 1000, body)] \<and>
      (\<exists>acc w\<^sub>A'. collect_slot scan\<^sub>A A keys\<^sub>A blocked\<^sub>A (acd_hello_slot r) \<lparr>fw_store = fw_store w\<^sub>A, fw_net = fw_net w\<^sub>B'\<rparr>
          = (Inr (Some (Accepted acc)), w\<^sub>A') \<and> ac_messages acc = [(sat_mul now' 1000, reply)] \<and>
        delivers ox (channel_between (sat_mul now 1000, body) (sat_mul now' 1000, reply) w\<^sub>A' w\<^sub>B'))"
proof -
  let ?pA = "sk_public_key (me_signer A)" and ?pB = "sk_public_key (me_signer B)"
  let ?a = "(sat_mul now 1000, body)" and ?b = "(sat_mul now' 1000, reply)" and ?v = "\<lparr>fw_store = s\<^sub>B, fw_net = fw_net w\<^sub>A\<rparr>"
  let ?w = "loaded ?v" and ?req = "request_of A an" and ?c = "plaintext_of ?a" and ?d = "plaintext_of ?b"
  have g: "gcm_law ox" "kem_law ox" using law by (simp_all add: laws_def)
  have cA: "fe_ox scan\<^sub>A = ox" "answers scan\<^sub>A" "fe_writers scan\<^sub>A 0 = (\<lambda>d. d)" using envs(2) by (simp_all add: scan_ready_def)
  have eB: "fe_ox env\<^sub>B = ox" "alone env\<^sub>B" "draws_sized env\<^sub>B" "addressed env\<^sub>B" "fe_label env\<^sub>B = Some the_peer"
    using envs(1) by (simp_all add: flow_ready_def)
  have dA: "dsa_law ox (me_signer A)" "keys_made ox keys\<^sub>A" "published ox net (me_signer A) keys\<^sub>A" and dB: "dsa_law ox (me_signer B)"
    using parties by (simp_all add: ready_def)
  from c obtain ifill A\<^sub>0 draw fill where an: "announced ox (me_signer A) ?pB keys\<^sub>B rpk an" and k: "an_key an \<noteq> NO_LOOKUP_KEY"
    and i: "initiate ox (an_secret an) ifill = Inr (rpk, A\<^sub>0)" and sA: "seal_slot ox draw fill now body A\<^sub>0 = (Inr slot\<^sub>A, A\<^sub>1)"
    and aw: "nt_channel (fw_net w\<^sub>A) = (nt_channel net)((an_key an, CONTROL_SUBKEY) \<mapsto> an_control an, (an_key an, slot_for 0) \<mapsto> slot\<^sub>A)"
      "nt_advert (fw_net w\<^sub>A) = nt_advert net" "files_at the_peer w\<^sub>A = opened_files st now slot\<^sub>A" "sole the_peer ?pB w\<^sub>A"
    and st: "cs_peer_identity_pk st = ?pB" "cs_awaiting_acceptance st" "\<not> cs_delete_pending st" "\<not> cs_acceptance_pending st"
      "cs_send_seq st = 1" "cs_peer_collected st = 0" "cs_my_collected st = 0" "cs_conversation st = snapshot A\<^sub>1"
      "cs_outgoing_lookup_key st = an_key an"
    unfolding contacted_def by blast
  note rq = request_of_announced [OF an] and sl = ring_slots_distinct
  have lw: "sole the_peer (cr_identity ?req) ?w" "files_at the_peer ?w = no_files"
    using loaded_sole [of the_peer ?pA ?v] new_conversation_sole [of ?pA ?v] s rq(1) by (simp_all add: settled_files_def)
  have ch: "nt_channel (fw_net ?w) (cr_lookup_key ?req, slot_for 0) = Some slot\<^sub>A" "nt_channel (fw_net ?w) (cr_lookup_key ?req, slot_for 1) = None"
    using rq(2) aw(1) fresh sl by simp_all
  have pub: "published ox (fw_net ?w) (me_signer A) keys\<^sub>A" using dA(3) aw(2) by (simp add: published_def)
  have fr0: "first_reads (fe_ox env\<^sub>B) (cr_shared_secret ?req) (cr_first_ratchet_pk ?req) slot\<^sub>A (sat_mul now 1000) body now' reply"
    unfolding eB(1) rq(3,4) by (rule first_reads_of [OF g i sA])
  obtain bn cv\<^sub>0 rpk' draw' fill' slot\<^sub>B B\<^sub>1 h c B\<^sub>2 stB drop' where
    bn: "announced ox (me_signer B) ?pA keys\<^sub>A rpk' bn" "an_key bn = acd_outgoing_lookup_key r" "an_cursor bn = 0"
      "ha_slot (an_attempt bn) = acd_hello_slot r" "acd_messages r = [?a]" "an_key bn \<noteq> NO_LOOKUP_KEY"
    and cv: "chain_accept ox (an_secret an) rpk = Inr cv\<^sub>0" and sB: "seal_slot ox draw' fill' now' reply cv\<^sub>0 = (Inr slot\<^sub>B, B\<^sub>1)"
    and hB: "header_decode slot\<^sub>B = Inr (h, c)"
    and opB: "open_ring_slot ox slot\<^sub>A 0 B\<^sub>1 \<lparr>send_seq = 1, peer_collected = 0\<rparr> =
      (Inr (RsMessage 0 (sat_mul now 1000) body None), B\<^sub>2, \<lparr>send_seq = 1, peer_collected = 0\<rparr>)"
    and bw: "drop_owner_seed ox ?pA = Inr drop'" "nt_drop (fw_net w\<^sub>B') (drop', acd_hello_slot r) = Some (an_hello bn)"
      "nt_channel (fw_net w\<^sub>B') = (nt_channel (fw_net ?w))((an_key bn, CONTROL_SUBKEY) \<mapsto> an_control bn, (an_key bn, slot_for 0) \<mapsto> slot\<^sub>B)"
      "files_at the_peer w\<^sub>B' = opened_files stB now' slot\<^sub>B"
    and stB: "cs_conversation stB = snapshot B\<^sub>2" "\<not> cs_awaiting_acceptance stB" "\<not> cs_delete_pending stB" "\<not> cs_acceptance_pending stB"
      "cs_send_seq stB = 1" "cs_peer_collected stB = 0" "cs_my_collected stB = 1" "cs_outgoing_lookup_key stB = an_key bn"
      "cs_incoming_lookup_key stB = an_key an"
    by (rule acceptance_announces [OF law dB dA(1,2) pub refl rq envs(1) wpD [OF accept_leaves [OF eB(2-5) lw ch fr0] acc]])
      (rule that, assumption+)
  obtain h\<^sub>A c\<^sub>A h\<^sub>B c\<^sub>B A\<^sub>2 B\<^sub>3 where
    x: "header_decode slot\<^sub>A = Inr (h\<^sub>A, c\<^sub>A)" "h_seq h\<^sub>A = 0" "h_cursor h\<^sub>A = 0"
      "conversation_open ox h\<^sub>A c\<^sub>A B\<^sub>1 = (Inr ?c, B\<^sub>3)" "header_decode slot\<^sub>B = Inr (h\<^sub>B, c\<^sub>B)" "h_seq h\<^sub>B = 0" "h_cursor h\<^sub>B = 0"
      "conversation_open ox h\<^sub>B c\<^sub>B A\<^sub>1 = (Inr ?d, A\<^sub>2)"
    and sy: "parties_synced ox (exchanged A\<^sub>2 B\<^sub>3 ?c ?d)"
      "d_seq (cv_sending A\<^sub>2) = 1" "v_next_seq (cv_receiving A\<^sub>2) = 1" "d_seq (cv_sending B\<^sub>3) = 1" "v_next_seq (cv_receiving B\<^sub>3) = 1"
    by (rule first_exchange [OF g i cv sA sB])
  have opA: "open_ring_slot ox slot\<^sub>B 0 A\<^sub>1 \<lparr>send_seq = 1, peer_collected = 0\<rparr> =
      (Inr (RsMessage 0 (sat_mul now' 1000) reply None), A\<^sub>2, \<lparr>send_seq = 1, peer_collected = 0\<rparr>)"
    using x(5-8) by (simp add: open_ring_slot_def decode_plaintext_of ring_1_0)
  have B3: "B\<^sub>2 = B\<^sub>3" using opB x(1-4) by (simp add: open_ring_slot_def decode_plaintext_of ring_1_0)
  let ?u = "\<lparr>fw_store = fw_store w\<^sub>A, fw_net = fw_net w\<^sub>B'\<rparr>"
  have ud: "drops_at scan\<^sub>A 0 ?u = nt_drop (fw_net w\<^sub>B')" "set_drops (nt_drop (fw_net w\<^sub>B')) ?u = ?u"
    using cA(3) by (simp_all add: drops_at_def set_drops_def)
  have ul: "sole the_peer (cs_peer_identity_pk st) ?u" "files_at the_peer ?u = opened_files st now slot\<^sub>A"
    using aw(3,4) st(1) by (simp_all add: sole_def files_at_def)
  have hb: "hr_cursor (heard_of bn) = 0" "hl_lookup_key (hello_of bn) = an_key bn"
      "control_key (fe_ox scan\<^sub>A) (an_secret bn) = Inr (an_control_key bn)" "drop_owner_seed (fe_ox scan\<^sub>A) ?pA = Inr drop'"
    using bn(1,3) bw(1) cA(1) by (auto simp: heard_of_def hello_of_def announced_def announces_def)
  have uch: "nt_channel (fw_net ?u) (an_key bn, slot_for 0) = Some slot\<^sub>B" "nt_channel (fw_net ?u) (an_key bn, slot_for 1) = None"
    "nt_channel (fw_net ?u) (an_key bn, CONTROL_SUBKEY) = Some (an_control bn)"
    using bw(3) aw(1) fr ne bn(2) sl by simp_all
  obtain acc w\<^sub>A' where se: "settle scan\<^sub>A A (cs_peer_identity_pk st) (hello_of bn) (heard_of bn) (an_secret bn) (acd_hello_slot r) ?u
      = (Inr (Accepted acc), w\<^sub>A')" "ac_messages acc = [?b]"
      "files_at the_peer w\<^sub>A' = opened_files (recognised_conv A\<^sub>2 (an_key bn) (an_control_key bn) st) now slot\<^sub>A"
      "nt_channel (fw_net w\<^sub>A') = nt_channel (fw_net ?u)"
    by (rule settle_recognises [OF cA(2) ul st(2,3,5-8) hb uch(1,2) opA [folded cA(1)]]) (rule that)
  have sc: "collect_slot scan\<^sub>A A keys\<^sub>A blocked\<^sub>A (acd_hello_slot r) ?u = (Inr (Some (Accepted acc)), w\<^sub>A')"
    using announced_collected [where blocked = blocked\<^sub>A and w = ?u and owner = drop', OF bn(1) [folded cA(1)] refl cA(2)]
      bn(4) bw(2) uch(3) hb(4) ud se(1) st(1) blocked by simp
  let ?key = "\<lambda>s. case s of Alice \<Rightarrow> an_key an | Bob \<Rightarrow> an_key bn"
  let ?W = "channel_between ?a ?b w\<^sub>A' w\<^sub>B'"
  have sim: "chan_sim ox ?key ?W (exchanged A\<^sub>2 B\<^sub>3 ?c ?d)"
    unfolding channel_between_def
    by (rule exchange_sim [OF sy _ _ x(1,2,5,6) _ k bn(6) se(3) bw(4)])
      (use st stB ne bn(2) se(4) bw(3) aw(1) fresh fr sl B3 in \<open>auto simp: recognised_conv_def\<close>)
  with established_delivers [OF g sim, of 1] have "delivers ox ?W"
    unfolding delivers_def channel_between_def by (auto split: side.split)
  with sc se(2) bn(5) show ?thesis by blast
qed

lemma contact_establishes:
  assumes law: "laws ox" and parties: "ready ox net A keys\<^sub>A" "ready ox net B keys\<^sub>B"
    and stores: "new_conversation (sk_public_key (me_signer B)) s\<^sub>A" "new_conversation (sk_public_key (me_signer A)) s\<^sub>B"
    and envs: "flow_ready ox env\<^sub>A" "flow_ready ox env\<^sub>B" "scan_ready ox scan\<^sub>A" "scan_ready ox scan\<^sub>B"
    and blocked: "\<not> blocked\<^sub>A (sk_public_key (me_signer B))" "\<not> blocked\<^sub>B (sk_public_key (me_signer A))"
    and opened: "first_contact env\<^sub>A A (sk_public_key (me_signer B)) body now \<lparr>fw_store = s\<^sub>A, fw_net = net\<rparr>
      = (Inr (Opened the_peer key at_slot n), w\<^sub>A)"
    and fresh: "\<forall>\<sigma>. nt_channel net (key, \<sigma>) = None"
  shows "\<exists>req w\<^sub>B. collect_slot scan\<^sub>B B keys\<^sub>B blocked\<^sub>B at_slot \<lparr>fw_store = s\<^sub>B, fw_net = fw_net w\<^sub>A\<rparr>
        = (Inr (Some (ContactRequest req)), w\<^sub>B) \<and>
      cr_identity req = sk_public_key (me_signer A) \<and> cr_lookup_key req = key \<and>
      (\<forall>r w\<^sub>B'. accept env\<^sub>B B req reply now' w\<^sub>B = (Inr r, w\<^sub>B') \<longrightarrow> acd_outgoing_lookup_key r \<noteq> key \<longrightarrow>
         (\<forall>\<sigma>. nt_channel net (acd_outgoing_lookup_key r, \<sigma>) = None) \<longrightarrow>
         acd_messages r = [(sat_mul now 1000, body)] \<and>
         (\<exists>acc w\<^sub>A'. collect_slot scan\<^sub>A A keys\<^sub>A blocked\<^sub>A (acd_hello_slot r) \<lparr>fw_store = fw_store w\<^sub>A, fw_net = fw_net w\<^sub>B'\<rparr>
             = (Inr (Some (Accepted acc)), w\<^sub>A') \<and> ac_messages acc = [(sat_mul now' 1000, reply)] \<and>
           delivers ox (channel_between (sat_mul now 1000, body) (sat_mul now' 1000, reply) w\<^sub>A' w\<^sub>B')))"
proof -
  have dA: "dsa_law ox (me_signer A)" and dB: "dsa_law ox (me_signer B)" "keys_made ox keys\<^sub>B" "published ox net (me_signer B) keys\<^sub>B"
    using parties by (simp_all add: ready_def)
  obtain an rpk slot\<^sub>A A\<^sub>1 st where c: "contacted ox A (sk_public_key (me_signer B)) keys\<^sub>B body now net an rpk slot\<^sub>A A\<^sub>1 st w\<^sub>A"
    and k: "an_key an = key" "ha_slot (an_attempt an) = at_slot"
    by (rule first_contact_announces [OF law dA dB envs(1) stores(1) opened])
  then have an: "announced ox (me_signer A) (sk_public_key (me_signer B)) keys\<^sub>B rpk an" by (simp add: contacted_def)
  from request_surfaces [where blocked = blocked\<^sub>B, OF c stores(2) envs(4) blocked(2)] request_of_announced(1,2) [OF an]
    acceptance_establishes [where blocked\<^sub>A = blocked\<^sub>A, OF law parties envs(2,3) stores(2) blocked(1) c fresh [folded k(1)]]
  show ?thesis unfolding k by blast
qed

end
