(* ===== verification/Handshake_Live.thy ===== *)
theory Handshake_Live
  imports Handshake_Net
begin

text \<open>
  The two flows of a handshake return when nothing fails: \<open>returns m w\<close> holds where \<open>m\<close> started in \<open>w\<close>
  gives a result. With the weakest preconditions of \<open>Flow_Wp\<close> it is computed through a whole flow.
\<close>

definition returns :: "'a flow \<Rightarrow> flow_world \<Rightarrow> bool" where
  "returns m w \<longleftrightarrow> (\<exists>x w'. m w = (Inr x, w'))"

named_theorems returns_simps "where each operation returns"

lemma returns_basic [returns_simps]:
  "returns (fret a) w" "\<not> returns (ffail e) w" "returns (flift r) w = is_ok r" "returns (own_field n y) w = (y \<noteq> None)"
  "returns (ftry m) w"
  by (auto simp: returns_def fret_def ffail_def flift_def own_field_def ftry_def is_ok_iff result_simps split: prod.split)

lemma returns_bind [returns_simps]:
  "returns (fbind m f) w = (returns m w \<and> wp m (\<lambda>a. returns (f a)) w)"
proof (cases "m w")
  case (Pair r w')
  then show ?thesis by (cases r) (auto simp: returns_def wp_def fbind_def)
qed

lemma wp_True [returns_simps]: "wp m (\<lambda>_ _. True) w" "wp m (\<lambda>_. returns (fret x)) w"
  by (simp_all add: wp_def returns_basic)

lemma returns_then [returns_simps]: "returns (fbind m (\<lambda>a. fret (f a))) = returns m"
  by (simp add: fun_eq_iff returns_bind) (simp add: wp_def returns_basic)

lemma returns_split [returns_simps]:
  "returns (if b then m else m') w = ((b \<longrightarrow> returns m w) \<and> (\<not> b \<longrightarrow> returns m' w))"
  "returns (case y of None \<Rightarrow> m | Some a \<Rightarrow> f a) w = ((y = None \<longrightarrow> returns m w) \<and> (\<forall>a. y = Some a \<longrightarrow> returns (f a) w))"
  "returns (case p of (a, b) \<Rightarrow> g a b) w = (\<forall>a b. p = (a, b) \<longrightarrow> returns (g a b) w)"
  by (simp_all split: option.split prod.split)

lemma returns_records:
  assumes "answers env"
  shows "returns (rec_read_advert env i owner) w" "returns (rec_read_drop_slot env i owner slot) w"
    "returns (rec_write_drop_slot env i owner slot bytes) w" "returns (rec_erase_drop_slot env i owner slot) w"
    "returns (rec_open_channel env i owner) w" "returns (rec_read_channel env i k sk) w"
    "returns (rec_write_channel env i k sk bytes) w" "returns (rec_offer_acceptance a) w"
  using assms
  by (simp_all add: answers_def returns_def rec_read_advert_def rec_read_drop_slot_def rec_write_drop_slot_def
      rec_erase_drop_slot_def rec_open_channel_def rec_read_channel_def rec_write_channel_def rec_offer_acceptance_def
      at_drop_def at_records_def split: prod.split)

lemma returns_store:
  assumes "answers env"
  shows "returns (fl_load env i p) w = (\<exists>st. f_conv (files_at p w) = Held st)"
    "returns (fl_update_conv env i p f) w = (\<exists>st. f_conv (files_at p w) = Held st)"
    "f_conv (files_at p w) = Held st \<Longrightarrow> returns (fl_try_update_conv env i p g) w = is_ok (g st)"
    "f_conv (files_at p w) = Absent \<Longrightarrow> returns (fl_create_conv env i p st) w"
    "f_outbox (files_at p w) = Absent \<Longrightarrow> returns (fl_persist_outbox env i p q ct t) w = (length ct \<le> CHANNEL_SUBKEY_LEN)"
    "returns (correspondence_for env i pk) w" "returns (outstanding_zero env i p) w"
proof -
  have e: "fe_io env i = IoOk" "fe_between env i = (\<lambda>s. s)" using assms by (simp_all add: answers_def alone_def)
  note defs = returns_def at_store_def files_at_def critical_section_def read_conv_def e
  show "returns (fl_load env i p) w = (\<exists>st. f_conv (files_at p w) = Held st)"
    by (cases "f_conv (sto_files (fw_store w) p)") (auto simp: defs fl_load_def flow_load_eq load_conv_def)
  show "returns (fl_update_conv env i p f) w = (\<exists>st. f_conv (files_at p w) = Held st)"
    by (cases "f_conv (sto_files (fw_store w) p)") (auto simp: defs fl_update_conv_def update_conv_def)
  show "f_conv (files_at p w) = Held st \<Longrightarrow> returns (fl_try_update_conv env i p g) w = is_ok (g st)"
    by (cases "g st") (auto simp: defs fl_try_update_conv_def flow_update_def try_update_conv_def split: prod.splits)
  show "f_conv (files_at p w) = Absent \<Longrightarrow> returns (fl_create_conv env i p st) w"
    by (auto simp: defs fl_create_conv_def create_conv_def)
  have "empty_outbox ! ring_index q = None"
    using ring_index_in_outbox [of q] by (simp add: empty_outbox_def RING_SLOTS_def)
  then show "f_outbox (files_at p w) = Absent \<Longrightarrow> returns (fl_persist_outbox env i p q ct t) w = (length ct \<le> CHANNEL_SUBKEY_LEN)"
    by (auto simp: defs fl_persist_outbox_def persist_outbox_def read_outbox_table_def Let_def)
  show "returns (correspondence_for env i pk) w" "returns (outstanding_zero env i p) w"
    by (auto simp: defs correspondence_for_def outstanding_zero_def fbind_def fl_load_all_def store_load_def fret_def split: prod.split)
qed

section \<open>A module that answers\<close>

text \<open>Every call with inputs of the sizes the code gives is answered, and so is every draw.\<close>

definition module_answers :: "oxi \<Rightarrow> bool" where
  "module_answers ox \<longleftrightarrow> (\<forall>d. is_ok (sha384 ox d)) \<and> (\<forall>salt ikm. is_ok (hkdf_extract ox salt ikm)) \<and>
    (\<forall>prk info. \<exists>okm. hkdf_expand ox prk info 32 = Inr okm \<and> length okm = 32) \<and>
    (\<forall>k. length k = 32 \<longrightarrow> is_ok (aes256_key ox k)) \<and>
    (\<forall>k key nonce aad pt. aes256_key ox k = Inr key \<longrightarrow> length nonce = 12 \<longrightarrow> is_ok (gcm_encrypt ox key nonce aad pt)) \<and>
    (\<forall>d z. length d = 32 \<longrightarrow> length z = 32 \<longrightarrow> is_ok (ml_kem_keygen ox d z)) \<and>
    (\<forall>d z ek dk m. ml_kem_keygen ox d z = Inr (ek, dk) \<longrightarrow> length m = 32 \<longrightarrow> is_ok (ml_kem_encapsulate ox ek m))"

definition signs :: "oxi \<Rightarrow> me \<Rightarrow> bool" where
  "signs ox me \<longleftrightarrow> (\<forall>msg. is_ok (keypair_sign ox (me_signer me) msg))"

definition draws_answer :: "flow_env \<Rightarrow> nat \<Rightarrow> bool" where
  "draws_answer env n \<longleftrightarrow> (\<forall>i j. \<exists>b. fe_fill env i j = Some b \<and> length b = (if i = 0 then n else 32)) \<and>
     (\<forall>i. \<exists>b. fe_draw env i = Some b \<and> length b = 12)"

lemma draws_answer_sized: "draws_answer env n \<Longrightarrow> draws_sized env"
  unfolding draws_answer_def draws_sized_def by (metis not_gr_zero option.inject)

lemma seeds_answer:
  assumes "module_answers ox"
  shows "is_ok (advert_owner_seed ox pk)" "is_ok (drop_owner_seed ox pk)" "is_ok (derive_owner_seed ox root pk g)"
    "\<exists>k. control_key ox ss = Inr k \<and> length k = 32" "\<exists>k. hello_key ox ss = Inr k \<and> length k = 32"
    "is_ok (push_answer ox key lk q)" "is_ok (drop_slot_for ox r)" "is_ok (pow_tag ox ct r pk)" "is_ok (attempt_new ox r)"
    "is_ok (seed_root ox ss)" "is_ok (chain_from_root ox root)"
proof -
  from assms obtain prk :: "byte list option \<Rightarrow> byte list \<Rightarrow> byte list" where p: "\<And>s i. hkdf_extract ox s i = Inr (prk s i)"
    unfolding module_answers_def is_ok_iff by metis
  from assms obtain okm :: "byte list \<Rightarrow> byte list \<Rightarrow> byte list" where e: "\<And>k i. hkdf_expand ox k i 32 = Inr (okm k i)" "\<And>k i. length (okm k i) = 32"
    unfolding module_answers_def by metis
  from assms obtain sha :: "byte list \<Rightarrow> byte list" where s: "\<And>d. sha384 ox d = Inr (sha d)"
    unfolding module_answers_def is_ok_iff by metis
  show "is_ok (advert_owner_seed ox pk)" "is_ok (drop_owner_seed ox pk)" "is_ok (derive_owner_seed ox root pk g)"
    "\<exists>k. control_key ox ss = Inr k \<and> length k = 32" "\<exists>k. hello_key ox ss = Inr k \<and> length k = 32"
    "is_ok (push_answer ox key lk q)" "is_ok (drop_slot_for ox r)" "is_ok (pow_tag ox ct r pk)" "is_ok (attempt_new ox r)"
    "is_ok (seed_root ox ss)" "is_ok (chain_from_root ox root)"
    by (simp_all add: advert_owner_seed_def drop_owner_seed_def derive_owner_seed_def control_key_def hello_key_def push_answer_def
        drop_slot_for_def pow_tag_def attempt_new_def seed_root_def chain_from_root_def p e s ADVERT_OWNER_SEED_LEN_def DROP_OWNER_SEED_LEN_def
        ANSWER_MAC_LEN_def ROOT_LEN_def CHAIN_KEY_LEN_def)
qed


lemma envelope_answers:
  assumes "module_answers ox" "length k = 32" "draw = Some n" "length n = 12"
  shows "\<exists>key sealed. aes256_key ox k = Inr key \<and> seal_envelope ox draw key aad pt = Inr sealed"
proof -
  from assms(1,2) obtain key where k: "aes256_key ox k = Inr key" by (auto simp: module_answers_def is_ok_iff)
  with assms(1,4) obtain c where "gcm_encrypt ox key n aad pt = Inr c" unfolding module_answers_def is_ok_iff by metis
  with k assms(3) show ?thesis by (cases c) (auto simp: seal_envelope_def)
qed

lemma control_answers:
  assumes "module_answers ox" "control_key ox ss = Inr ck" "draw = Some n" "length n = 12"
  shows "is_ok (seal_control_with_key ox draw ck c)"
proof -
  from seeds_answer(4) [OF assms(1)] assms(2) have "length ck = 32" by (metis Inr_inject)
  from envelope_answers [OF assms(1) this assms(3,4), of control_aad "control_encode c"] show ?thesis
    by (auto simp: seal_control_with_key_def)
qed

lemma hello_answers:
  assumes law: "laws ox" and "module_answers ox" "draw = Some n" "length n = 12"
    and "length key = HELLO_LOOKUP_KEY_LEN" "length (ha_r at) = HELLO_R_LEN" "length ct = KEM_CT_LEN"
  shows "is_ok (seal_outstanding ox draw \<lparr>hs_shared_secret = ss, hs_kem_ct = ct, hs_advert_serial = q, hs_original = None\<rparr> key pk at)"
proof -
  let ?e = "\<lparr>he_serial = q, he_shared_secret = ss, he_ciphertext = ct\<rparr>"
  have g: "gcm_law ox" "sha_law ox" using law by (simp_all add: laws_def)
  obtain k where k: "hello_key ox ss = Inr k" "length k = 32" using seeds_answer(5) [OF assms(2)] by blast
  obtain tag where t: "pow_tag ox ct (ha_r at) pk = Inr tag" using seeds_answer(8) [OF assms(2)] unfolding is_ok_iff by blast
  obtain aes sealed where "aes256_key ox k = Inr aes" "seal_envelope ox draw aes (hello_aad ct pk)
      (key @ ha_r at @ [CARRIES_NOTHING] @ replicate CARRIED_LEN 0) = Inr sealed"
    using envelope_answers [OF assms(2) k(2) assms(3,4)] by blast
  with k(1) t have s: "seal_with ox draw ?e key (ha_r at) CARRIES_NOTHING (replicate CARRIED_LEN 0) pk = Inr (ct @ sealed @ tag)"
    by (simp add: seal_with_def)
  from open_seal_with(1) [OF g assms(5,6) _ _ s] assms(7) have "length (ct @ sealed @ tag) = HELLO_LEN" by simp
  with s show ?thesis by (simp add: seal_outstanding_def seal_hello_def)
qed

lemma conversation_seal_shape:
  assumes "gcm_law ox" "conversation_seal ox draw fill body dev cv = (Inr (h, c), cv')"
  shows "length c = length body + ENVELOPE_OVERHEAD" "d_chain (cv_sending cv) = None \<Longrightarrow> h_kem_pk h \<noteq> None"
    "v_peer_latest (cv_receiving cv') = v_peer_latest (cv_receiving cv)"
proof -
  from assms(2) obtain d' where s: "direction_seal ox draw fill (seal_input cv) body dev (with_cursor cv) = (Inr (h, c), d')"
    and l: "v_peer_latest (cv_receiving cv') = v_peer_latest (cv_receiving cv)"
    by (auto simp: conversation_seal_eq retain_def split: prod.splits sum.splits option.splits)
  then obtain mk aad where "seal_under ox draw mk aad body = Inr c" and n: "d_chain (cv_sending cv) = None \<Longrightarrow> h_kem_pk h \<noteq> None"
    by (auto simp: direction_seal_def Let_def result_simps set_cursor_def turn_material_def split: sum.splits if_splits prod.splits)
  then obtain key where e: "seal_envelope ox draw key aad body = Inr c"
    by (auto simp: seal_under_def result_simps split: sum.splits)
  show "length c = length body + ENVELOPE_OVERHEAD"
    using envelope.seal_length [OF assms(1) e] by (simp add: ENVELOPE_OVERHEAD_def)
  show "d_chain (cv_sending cv) = None \<Longrightarrow> h_kem_pk h \<noteq> None" "v_peer_latest (cv_receiving cv') = v_peer_latest (cv_receiving cv)"
    using n l by simp_all
qed

text \<open>Both sides of a fresh conversation seal their first message into one slot.\<close>

lemma first_seals:
  assumes law: "gcm_law ox" "kem_law ox" and i: "initiate ox ss0 fill0 = Inr (pk, A)" "chain_accept ox ss0 pk = Inr B"
    and sv: "\<And>b. services_answer ox draw fill b" and len: "length body \<le> MESSAGE_BODY_MAX_LEN" and cv: "cv = A \<or> cv = B"
  shows "\<exists>h c cv'. seal_slot ox draw fill now body cv = (Inr (header_encode h @ c), cv') \<and> header_wf h \<and> h_seq h = 0 \<and>
    length (header_encode h @ c) \<le> CHANNEL_SUBKEY_LEN \<and> (cv = B \<longrightarrow> h_kem_pk h \<noteq> None) \<and>
    v_peer_latest (cv_receiving cv') = v_peer_latest (cv_receiving cv)"
proof -
  let ?b = "encode_message_plaintext (sat_mul now 1000) body"
  define p where "p = \<lparr>pt_conv = (\<lambda>s. case s of Alice \<Rightarrow> A | Bob \<Rightarrow> B), pt_wire = (\<lambda>_. []), pt_sent = (\<lambda>_. []), pt_got = (\<lambda>_. [])\<rparr>"
  obtain s where cvs: "cv = pt_conv p s" using cv that [of Alice] that [of Bob] by (auto simp: p_def)
  have o: "parties_open ox p" unfolding parties_open_def p_def using i by blast
  note st = parties_open_start [OF o]
  from leads_can_seal [OF conjunct1 [OF initial_leads [OF i]] sv, of ?b DEVICE_ID_SINGLE_DEVICE] cv obtain h c cv' where
    sl: "conversation_seal ox draw fill ?b DEVICE_ID_SINGLE_DEVICE cv = (Inr (h, c), cv')"
    by (cases "conversation_seal ox draw fill ?b DEVICE_ID_SINGLE_DEVICE cv") (auto simp: is_ok_iff)
  have wf: "header_wf h"
    using synced_seal_wf [OF law parties_open_synced [OF o] _ _ sl [unfolded cvs]] by (simp add: st)
  have q: "h_seq h = 0" using conversation_seal_fields [OF sl] st(4) by (simp add: cvs)
  note sh = conversation_seal_shape [OF law(1) sl]
  have "d_chain (cv_sending B) = None" using i(2) by (auto simp: chain_accept_def result_simps fresh_direction_def)
  moreover have "length (header_encode h @ c) \<le> CHANNEL_SUBKEY_LEN"
    using header_encode_bound [OF wf] sh(1) len
    by (simp add: channel_sizes crypto_lens encode_message_plaintext_def)
  moreover have "seal_slot ox draw fill now body cv = (Inr (header_encode h @ c), cv')"
    using sl len by (simp add: seal_slot_def fits_a_message_def)
  ultimately show ?thesis using sh(2,3) wf q by (intro exI [of _ h] exI [of _ c] exI [of _ cv']) auto
qed

lemma services_of_draws:
  assumes "module_answers ox" "draw = Some n" "length n = 12" "\<forall>j. \<exists>b. fill j = Some b \<and> length b = 32"
  shows "services_answer ox draw fill body"
proof -
  from assms(4) obtain f where f: "\<And>j. fill j = Some (f j)" "\<And>j. length (f j) = 32" by metis
  show ?thesis
    using assms(1-3) f unfolding services_answer_def module_answers_def by auto
qed


section \<open>The flows return\<close>

definition unraced :: "flow_env \<Rightarrow> bool" where
  "unraced env \<longleftrightarrow> (\<forall>i. fe_writers env i = (\<lambda>d. d))"

lemma returns_place_hello:
  assumes "answers env" "unraced env" "module_answers (fe_ox env)" "f_conv (files_at p w) = Held st"
    and "\<And>j. is_ok (seal_outstanding (fe_ox env) (fe_draw env j) seal key pk at)"
  shows "returns (place_hello env i p pk key seal at) w"
proof -
  have a: "alone env" using assms(1) by (simp add: answers_def)
  have d: "is_ok (drop_owner_seed (fe_ox env) pk)" by (rule seeds_answer(2) [OF assms(3)])
  have u: "fe_writers env j = (\<lambda>d. d)" for j using assms(2) by (simp add: unraced_def)
  have c: "is_ok (place_closure (cs_awaiting_acceptance st) hello st)" for hello
    by (simp add: place_closure_def Let_def)
  have n: "place_rounds env i 3 = place_rounds env i (Suc 2)" for i by (simp add: numeral_3_eq_3)
  show ?thesis
    unfolding place_hello_def n place_rounds.simps
    using assms(4,5) d c
    by (simp add: returns_simps wp_simps returns_records [OF assms(1)] returns_store [OF assms(1)] wp_store [OF a] wp_read_back
        read_back_flow_def attempt_read_back_def after_read_back_def drops_at_def u)
qed

lemma returns_first_attempt:
  "draws_answer env n \<Longrightarrow> module_answers (fe_ox env) \<Longrightarrow> returns (first_attempt env i) w"
proof -
  assume a: "draws_answer env n" "module_answers (fe_ox env)"
  from a(1) obtain r where "fe_fill env i 0 = Some r" unfolding draws_answer_def by blast
  moreover obtain at where "attempt_new (fe_ox env) r = Inr at" using seeds_answer(9) [OF a(2)] unfolding is_ok_iff by blast
  ultimately show ?thesis by (simp add: first_attempt_def returns_simps repick_def)
qed

text \<open>What a side needs: its own calls are answered, and the other's advert is current.\<close>

definition able :: "oxi \<Rightarrow> flow_env \<Rightarrow> me \<Rightarrow> nat \<Rightarrow> bool" where
  "able ox env me n \<longleftrightarrow> answers env \<and> unraced env \<and> draws_answer env n \<and> module_answers ox \<and> signs ox me"

lemma peer_advert:
  assumes "laws ox" "ready ox net peer keys" "advert_owner_seed ox (sk_public_key (me_signer peer)) = Inr owner"
  obtains bytes where "nt_advert net owner = Some bytes" "advert_verify ox (sk_public_key (me_signer peer)) bytes = Inr (current_advert keys)"
proof -
  have r: "dsa_law ox (me_signer peer)" "keys_made ox keys" "published ox net (me_signer peer) keys"
    using assms(2) by (simp_all add: ready_def)
  from r(3) assms(3) obtain bytes where b: "nt_advert net owner = Some bytes" "advert_bytes ox (me_signer peer) keys = Inr bytes"
    by (auto simp: published_def)
  have "kem_law ox" using assms(1) by (simp add: laws_def)
  then have "length (ak_ek (aks_current keys)) = KEM_EK_LEN" using r(2) unfolding keys_made_def by (auto dest: kem_law_keygen)
  from advert_build_signed [OF r(1) this b(2) [unfolded advert_bytes_def]]
  have "advert_verify ox (sk_public_key (me_signer peer)) bytes = Inr (current_advert keys)"
    using advert_verify_wire by (auto simp: current_advert_def)
  with b(1) that show thesis by blast
qed

lemma encapsulates:
  assumes "module_answers ox" "keys_made ox keys" "usable_at (current_advert keys) now" "fill 0 = Some m" "length m = 32"
  shows "is_ok (encapsulate_to ox (current_advert keys) now fill)"
proof -
  from assms(2) obtain d z where "ml_kem_keygen ox d z = Inr (ak_ek (aks_current keys), ak_dk (aks_current keys))"
    by (auto simp: keys_made_def)
  with assms(1,5) have "is_ok (ml_kem_encapsulate ox (ak_ek (aks_current keys)) m)" unfolding module_answers_def by blast
  with assms(3,4) show ?thesis by (auto simp: encapsulate_to_def current_advert_def is_ok_iff)
qed

lemma encapsulated_length:
  assumes "laws ox" "keys_made ox keys" "encapsulate_to ox (current_advert keys) now fill = Inr enc"
  shows "length (he_ciphertext enc) = KEM_CT_LEN"
  using assms kem_law_decapsulate(1)
  by (fastforce simp: encapsulate_to_def current_advert_def keys_made_def laws_def result_simps split: if_splits)


lemma opening_answers:
  assumes law: "laws ox" "dsa_law ox (me_signer me)" "signs ox me" "length pk = DSA_PK_LEN" "length key = HELLO_LOOKUP_KEY_LEN"
    "length rpk = KEM_EK_LEN"
  shows "\<exists>opn. opening_build ox (me_signer me) pk key rpk q = Inr opn \<and> opening_decode (opening_encode opn) = Inr opn \<and> o_advert_serial opn = q"
proof -
  let ?in = "opening_signing_input (sk_public_key (me_signer me)) pk key rpk q"
  obtain sig where s: "keypair_sign ox (me_signer me) ?in = Inr sig" using law(3) by (auto simp: signs_def is_ok_iff)
  let ?o = "\<lparr>o_writer_identity_pk = sk_public_key (me_signer me), o_recipient_identity_pk = pk,
      o_channel_lookup_key = key, o_first_ratchet_pk = rpk, o_advert_serial = q, o_signature = sig\<rparr>"
  have "opening_wf ?o" using law verify_signature_sign [OF law(2) s] by (simp add: opening_wf_def dsa_law_def)
  then show ?thesis using s opening_decode_encode [of ?o] by (auto simp: opening_build_def Let_def)
qed

lemma finish_first_contact_returns:
  assumes law: "laws ox" and able: "able ox env me n" "fe_ox env = ox"
    and st: "st = opened_conv pk key gen cv \<lparr>send_seq = 1, peer_collected = 0\<rparr> ck enc (opening_encode opn)"
      "opening_decode (opening_encode opn) = Inr opn" "control_key ox ss = Inr ck" "length key = HELLO_LOOKUP_KEY_LEN"
      "length (he_ciphertext enc) = KEM_CT_LEN"
    and w: "sole p pk w" "files_at p w = opened_files st now slot"
  shows "returns (finish_first_contact env p st) w"
proof -
  have e: "answers env" "alone env" "unraced env" "module_answers ox" "draws_answer env n" "draws_sized env"
    using able draws_answer_sized by (auto simp: able_def answers_def)
  have dr: "\<exists>b. fe_draw env j = Some b \<and> length b = 12" for j using e(5) by (simp add: draws_answer_def)
  have o: "wp (outstanding_zero env 10 p) Q w = (fe_io env 10 = IoOk \<longrightarrow> Q (Some slot) (loaded w))" for Q
    using wp_outstanding_zero [OF e(2) w(1), of st] w(2) st(1) by (simp add: outstanding_first opened_conv_simps)
  have l: "files_at p (loaded w) = opened_files st now slot" using loaded_sole [OF w(1)] w(2) by simp
  have c: "is_ok (seal_control_with_key ox (fe_draw env j) ck x)" for j x
    using control_answers [OF e(4) st(3)] dr by blast
  have h: "is_ok (seal_outstanding ox (fe_draw env j) \<lparr>hs_shared_secret = he_shared_secret enc, hs_kem_ct = he_ciphertext enc,
      hs_advert_serial = o_advert_serial opn, hs_original = None\<rparr> key pk at)" if "attempt_ok ox at" for j at
    using hello_answers [OF law e(4) _ _ st(4) _ st(5), of "fe_draw env j"] dr [of j] that by (auto simp: attempt_ok_def)
  have pl: "wp (first_attempt env 12) (\<lambda>at. returns (place_hello env 13 p pk key \<lparr>hs_shared_secret = he_shared_secret enc,
      hs_kem_ct = he_ciphertext enc, hs_advert_serial = o_advert_serial opn, hs_original = None\<rparr> at)) v"
    if "f_conv (files_at p v) = Held st" for v
    by (rule wp_mono [OF first_attempt_ok [OF e(6)]])
      (use that h able(2) e in \<open>auto intro: returns_place_hello\<close>)
  have f: "cs_own_hello_secret st = Some (he_shared_secret enc)" "cs_own_opening st = Some (opening_encode opn)"
    "cs_own_hello_kem_ct st = Some (he_ciphertext enc)" "cs_own_control_key st = Some ck" "cs_outgoing_lookup_key st = key"
    "cs_peer_identity_pk st = pk"
    using st(1) by (simp_all add: opened_conv_def)
  show ?thesis
    unfolding finish_first_contact_def
    using c st(2)
    by (simp add: returns_simps wp_simps o able(2) f returns_store [OF e(1)] returns_records [OF e(1)] batch_one.simps
        returns_first_attempt [OF e(5)] e(4) pl l)
qed


lemma returns_seal_zero: "returns (seal_zero env i now body cv) w = is_ok (fst (seal_slot (fe_ox env) (fe_draw env i) (fe_fill env i) now body cv))"
proof -
  have "ring_reserve ring_new = (Inr 0 :: ch_error + u64, \<lparr>send_seq = 1, peer_collected = 0\<rparr>)"
    by (simp add: ring_reserve_def ring_new_def uncollected_def RING_SLOTS_def sat_add_def sat_sub_def)
  then show ?thesis
    by (cases "seal_slot (fe_ox env) (fe_draw env i) (fe_fill env i) now body cv"; cases "fst (seal_slot (fe_ox env) (fe_draw env i) (fe_fill env i) now body cv)")
      (auto simp: seal_zero_def returns_simps wp_simps)
qed

lemma initiate_answers:
  assumes "module_answers ox" "draws_answer env n" "0 < i"
  shows "is_ok (initiate ox ss (fe_fill env i))"
proof -
  from assms(2,3) obtain d z where f: "fe_fill env i 0 = Some d" "length d = 32" "fe_fill env i 1 = Some z" "length z = 32"
    unfolding draws_answer_def by (metis not_gr_zero)
  with assms(1) obtain k where "ml_kem_keygen ox d z = Inr k" unfolding module_answers_def is_ok_iff by metis
  then have "is_ok (mint ox (fe_fill env i))" using f by (cases k) (simp add: mint_def)
  moreover obtain root chain where "seed_root ox ss = Inr root" "chain_from_root ox root = Inr chain"
    using seeds_answer(10,11) [OF assms(1)] unfolding is_ok_iff by metis
  ultimately show ?thesis by (auto simp: initiate_def is_ok_iff)
qed

lemma accept_answers:
  assumes "module_answers ox"
  shows "is_ok (chain_accept ox ss pk)"
proof -
  obtain root chain where "seed_root ox ss = Inr root" "chain_from_root ox root = Inr chain"
    using seeds_answer(10,11) [OF assms] unfolding is_ok_iff by metis
  then show ?thesis by (simp add: chain_accept_def)
qed

lemma services_of_env:
  assumes "module_answers ox" "draws_answer env n" "i = 0 \<longrightarrow> n = 32"
  shows "services_answer ox (fe_draw env i) (fe_fill env i) body"
proof -
  from assms(2) obtain b where "fe_draw env i = Some b" "length b = 12" unfolding draws_answer_def by blast
  moreover have "\<forall>j. \<exists>b. fe_fill env i j = Some b \<and> length b = 32" using assms(2,3) unfolding draws_answer_def by metis
  ultimately show ?thesis by (rule services_of_draws [OF assms(1)])
qed

lemma first_contact_returns:
  assumes law: "laws ox" and me: "able ox env me n" "flow_ready ox env" "dsa_law ox (me_signer me)"
    and peer: "ready ox net peer keys" "usable_at (current_advert keys) now" "pk = sk_public_key (me_signer peer)"
    and s: "new_conversation pk s" and body: "length body \<le> MESSAGE_BODY_MAX_LEN"
  shows "returns (first_contact env me pk body now) \<lparr>fw_store = s, fw_net = net\<rparr>"
proof -
  let ?w = "\<lparr>fw_store = s, fw_net = net\<rparr>"
  have e: "answers env" "alone env" "unraced env" "module_answers ox" "draws_answer env n" "signs ox me"
    using me(1) by (auto simp: able_def answers_def)
  have r: "fe_ox env = ox" "addressed env" "fe_label env = Some the_peer" using me(2) by (simp_all add: flow_ready_def)
  have g: "gcm_law ox" "kem_law ox" using law by (simp_all add: laws_def)
  have kl: "length (fe_channel_key env chan) = HELLO_LOOKUP_KEY_LEN" for chan using r(2) by (simp add: addressed_def)
  have p: "length pk = DSA_PK_LEN" "keys_made ox keys" using peer(1,3) by (auto simp: ready_def dsa_law_def)
  have l: "sole the_peer pk ?w" "files_at the_peer ?w = no_files" using new_conversation_sole [of pk ?w] s by simp_all
  have ll: "sole the_peer pk (loaded ?w)" "files_at the_peer (loaded ?w) = no_files"
    using loaded_sole [OF l(1)] l(2) by (simp_all add: settled_files_def)
  have fb: "fits_a_message body = Inr ()" "ring_index 0 = 0" using body by (simp_all add: fits_a_message_def ring_index_def)
  have c: "wp (correspondence_for env 0 pk) Q ?w = (fe_io env 0 = IoOk \<longrightarrow> Q None (loaded ?w))" for Q
    using wp_correspondence_for(2) [OF e(2) l(1)] l(2) by (simp add: no_files_def)
  from seeds_answer(1) [OF e(4)] obtain owner where o: "advert_owner_seed ox pk = Inr owner" unfolding is_ok_iff by blast
  from peer_advert [OF law peer(1)] o peer(3) obtain bytes where
    ad: "nt_advert net owner = Some bytes" "advert_verify ox pk bytes = Inr (current_advert keys)" by metis
  from e(5) obtain b where b: "fe_fill env 0 0 = Some b" unfolding draws_answer_def by blast
  from seeds_answer(3) [OF e(4)] obtain chan where ch: "derive_owner_seed ox (me_channel_root me) pk (u64_of_be b) = Inr chan"
    unfolding is_ok_iff by blast
  from e(5) obtain m where "fe_fill env 1 0 = Some m" "length m = 32" unfolding draws_answer_def by (metis zero_neq_one)
  from encapsulates [where fill = "fe_fill env 1", OF e(4) p(2) peer(2) this] obtain enc where enc: "encapsulate_to ox (current_advert keys) now (fe_fill env 1) = Inr enc"
    unfolding is_ok_iff by blast
  have "is_ok (initiate ox (he_shared_secret enc) (fe_fill env 2))" by (rule initiate_answers [OF e(4,5)]) simp
  then obtain rpk A where i: "initiate ox (he_shared_secret enc) (fe_fill env 2) = Inr (rpk, A)"
    unfolding is_ok_iff by auto
  from opening_answers [OF law me(3) e(6) p(1) kl initiate_pk_length [OF g(2) i]] obtain opn where
    op: "opening_build ox (me_signer me) pk (fe_channel_key env chan) rpk (he_serial enc) = Inr opn" "opening_decode (opening_encode opn) = Inr opn"
    by blast
  obtain B where "chain_accept ox (he_shared_secret enc) rpk = Inr B"
    using accept_answers [OF e(4)] unfolding is_ok_iff by blast
  from first_seals [OF g i this services_of_env [OF e(4,5)] body disjI1 [OF refl], of 3 now] obtain slot A' where
    sl: "seal_slot ox (fe_draw env 3) (fe_fill env 3) now body A = (Inr slot, A')" "length slot \<le> CHANNEL_SUBKEY_LEN"
    by auto
  from seeds_answer(4) [OF e(4)] obtain ck where ck: "control_key ox (he_shared_secret enc) = Inr ck" by blast
  note fin = finish_first_contact_returns [OF law me(1) r(1) refl op(2) ck kl encapsulated_length [OF law p(2) enc]]
  let ?st = "opened_conv pk (fe_channel_key env chan) (u64_of_be b) A' \<lparr>send_seq = 1, peer_collected = 0\<rparr> ck enc (opening_encode opn)"
  have "returns (finish_first_contact env the_peer ?st) (touch the_peer (opened_files ?st now slot) (loaded ?w))"
    by (rule fin) (use ll in simp_all)
  note w = this [unfolded opened_files_def no_files_def, simplified]
  show ?thesis
    unfolding first_contact_def
    by (simp add: returns_simps wp_simps returns_store [OF e(1)] returns_records [OF e(1)] c r fb o ad b ch enc [unfolded One_nat_def] i op sl ck
      draw_generation_def mint_label_def returns_seal_zero wp_seal_zero wp_store [OF e(2)] wp_persist_outbox [OF e(2)] ll no_files_def w)
qed


lemma read_accepted_opening_returns:
  assumes env: "answers env" "fe_ox env = ox" and an: "announced ox signer my_pk keys rpk an"
    and c: "nt_channel (fw_net w) (an_key an, CONTROL_SUBKEY) = Some (an_control an)"
  shows "returns (read_accepted_opening env i my_pk (an_control_key an) (an_key an) (an_serial an) (sk_public_key signer) (Some rpk)) w"
    "wp (read_accepted_opening env i my_pk (an_control_key an) (an_key an) (an_serial an) (sk_public_key signer) (Some rpk)) Q w \<longleftrightarrow> Q () w"
proof -
  have a: "laws ox" "dsa_law ox signer" "length my_pk = DSA_PK_LEN" "length (an_key an) = HELLO_LOOKUP_KEY_LEN" "length rpk = KEM_EK_LEN"
    "announces ox signer my_pk keys rpk an" "handle_valid (an_reach an)"
    using an by (simp_all add: announced_def)
  note o = announced_opening [OF a(1-6)]
  have k: "open_control_with_key ox (an_control_key an) (an_control an) = Inr \<lparr>c_opening = Some (an_opening an),
      c_collected_cursor = an_cursor an, c_closed = False, c_generation = an_generation an,
      c_reach = reach_canon (fst (an_reach an)), c_serial = snd (an_reach an)\<rparr>"
    by (rule announced_control [OF a(1) o(1) a(7,6)])
  have e: "fe_rec env i = RecOk" using env(1) by (simp add: answers_def)
  have rc: "read_opening env i (an_control_key an) (an_key an) w = (Inr (Some (an_opening an)), w)"
    using k c by (simp add: read_opening_def read_control_def run_basic run_records [OF env(1)] env(2))
  have r: "read_accepted_opening env i my_pk (an_control_key an) (an_key an) (an_serial an) (sk_public_key signer) (Some rpk) w = (Inr (), w)"
    unfolding read_accepted_opening_def by (simp add: run_basic rc env(2) o)
  show "returns (read_accepted_opening env i my_pk (an_control_key an) (an_key an) (an_serial an) (sk_public_key signer) (Some rpk)) w"
    "wp (read_accepted_opening env i my_pk (an_control_key an) (an_key an) (an_serial an) (sk_public_key signer) (Some rpk)) Q w \<longleftrightarrow> Q () w"
    unfolding returns_def wp_def r by simp_all
qed

lemma first_attempt_is:
  assumes "draws_answer env n" "module_answers (fe_ox env)" "0 < i"
  obtains at where "attempt_ok (fe_ox env) at" "\<And>w Q. wp (first_attempt env i) Q w \<longleftrightarrow> Q at w" "\<And>w. returns (first_attempt env i) w"
proof -
  from assms(1,3) obtain r where r: "fe_fill env i 0 = Some r" "length r = 32" unfolding draws_answer_def by (metis not_gr_zero)
  moreover obtain at where at: "attempt_new (fe_ox env) r = Inr at" using seeds_answer(9) [OF assms(2)] unfolding is_ok_iff by blast
  moreover have "attempt_ok (fe_ox env) at" using at r(2) by (auto simp: attempt_new_def attempt_ok_def HELLO_R_LEN_def result_simps)
  ultimately show thesis by (intro that [of at]) (simp_all add: first_attempt_def returns_simps wp_simps repick_def)
qed

lemma finish_accept_returns:
  assumes law: "laws ox" and me: "able ox env me n" "fe_ox env = ox" "dsa_law ox (me_signer me)"
    and peer: "ready ox (fw_net w) peer keys" "usable_at (current_advert keys) now" "cr_identity req = sk_public_key (me_signer peer)"
    and an: "announced ox (me_signer peer) (sk_public_key (me_signer me)) keys' rpk an" "cr_lookup_key req = an_key an"
      "cr_advert_serial req = an_serial an" "pk = an_control_key an"
      "nt_channel (fw_net w) (an_key an, CONTROL_SUBKEY) = Some (an_control an)"
    and w: "sole p (cs_peer_identity_pk st) w" "files_at p w = opened_files st sealed_at slot"
    and st: "st = requested_conv req key cv \<lparr>send_seq = 1, peer_collected = 0\<rparr> pk" "length key = HELLO_LOOKUP_KEY_LEN"
      "key \<noteq> replicate HELLO_LOOKUP_KEY_LEN 0" "map_option pt_pk (v_peer_latest (cv_receiving cv)) = Some rpk"
    and slot: "header_decode slot = Inr (h, c)" "h_seq h = 0" "h_kem_pk h = Some rpk'"
    and ring: "nt_channel (fw_net w) (an_key an, slot_for 0) = Some raw" "nt_channel (fw_net w) (an_key an, slot_for 1) = None"
      "open_ring_slot ox raw 0 cv \<lparr>send_seq = 1, peer_collected = 0\<rparr> =
         (Inr (RsMessage 0 t body None), reader, \<lparr>send_seq = 1, peer_collected = 0\<rparr>)"
  shows "returns (finish_accept env me p st (Some sl) now) w"
proof -
  have e: "answers env" "alone env" "unraced env" "module_answers ox" "draws_answer env n" "draws_sized env" "signs ox me"
    using me(1) draws_answer_sized by (auto simp: able_def answers_def)
  have dr: "\<exists>b. fe_draw env j = Some b \<and> length b = 12" for j using e(5) by (simp add: draws_answer_def)
  have pl: "length (cr_identity req) = DSA_PK_LEN" "keys_made ox keys" using peer(1,3) by (auto simp: ready_def dsa_law_def)
  have sf: "cs_outgoing_lookup_key st = key" "cs_incoming_lookup_key st = an_key an" "cs_own_opening st = None"
    "cs_my_collected st = 0" "cs_peer_collected st = 0" "cs_send_seq st = 1" "cs_conversation st = snapshot cv"
    "\<not> cs_delete_pending st" "cs_outstanding_hello st = None" "\<not> cs_awaiting_acceptance st" "cs_peer_control_key st = Some (an_control_key an)"
    "cs_peer_advert_serial st = Some (an_serial an)" "cs_peer_identity_pk st = cr_identity req"
    using st(1) an(2,3,4) by (simp_all add: requested_conv_simps)
  have o: "wp (outstanding_zero env 41 p) Q w = (fe_io env 41 = IoOk \<longrightarrow> Q (Some slot) (loaded w))" for Q
    using wp_outstanding_zero [OF e(2) w(1), of st] w(2) sf by (simp add: outstanding_first)
  have l: "files_at p (loaded w) = opened_files st sealed_at slot" using loaded_sole [OF w(1)] w(2) by simp
  have rd: "map_option pt_pk (rs_peer_latest (sn_receiving (snapshot cv))) = Some rpk"
    using st(4) by (cases "v_peer_latest (cv_receiving cv)") (auto simp: snapshot_def peer_turn_duplicate_def)
  from seeds_answer(1) [OF e(4)] obtain owner where ow: "advert_owner_seed ox (cr_identity req) = Inr owner" unfolding is_ok_iff by blast
  from peer_advert [OF law peer(1)] ow peer(3) obtain bytes where
    ad: "nt_advert (fw_net w) owner = Some bytes" "advert_verify ox (cr_identity req) bytes = Inr (current_advert keys)" by metis
  have "\<exists>m. fe_fill env 42 0 = Some m \<and> length m = 32" using e(5) unfolding draws_answer_def by (metis zero_neq_numeral)
  then obtain m where "fe_fill env 42 0 = Some m" "length m = 32" by blast
  from encapsulates [where fill = "fe_fill env 42", OF e(4) pl(2) peer(2) this] obtain enc where
    enc: "encapsulate_to ox (current_advert keys) now (fe_fill env 42) = Inr enc" unfolding is_ok_iff by blast
  have "length rpk' = KEM_EK_LEN" using header_decode_sound [OF slot(1)] slot(3) by (simp add: header_wf_def)
  from opening_answers [OF law me(3) e(7) pl(1) st(2) this] obtain opn where
    op: "opening_build ox (me_signer me) (cr_identity req) key rpk' (he_serial enc) = Inr opn" "opening_decode (opening_encode opn) = Inr opn"
    by blast
  from seeds_answer(4) [OF e(4)] obtain ck where ck: "control_key ox (he_shared_secret enc) = Inr ck" by blast
  from control_answers [OF e(4) ck] dr obtain ctl where ctl: "\<And>x. seal_control_with_key ox (fe_draw env 44) ck x = Inr (ctl x)"
    unfolding is_ok_iff by metis
  obtain at where at: "attempt_ok ox at" "\<And>w Q. wp (first_attempt env 43) Q w \<longleftrightarrow> Q at w" "\<And>w. returns (first_attempt env 43) w"
    using first_attempt_is [OF e(5), of 43] e(4) me(2) by auto
  let ?seal = "\<lparr>hs_shared_secret = he_shared_secret enc, hs_kem_ct = he_ciphertext enc, hs_advert_serial = o_advert_serial opn, hs_original = None\<rparr>"
  have h: "is_ok (seal_outstanding ox (fe_draw env j) ?seal key (cr_identity req) at)" for j
    using hello_answers [OF law e(4) _ _ st(2) _ encapsulated_length [OF law pl(2) enc], of "fe_draw env j"] dr [of j] at(1)
    by (auto simp: attempt_ok_def)
  then obtain hello where hello: "seal_outstanding ox (fe_draw env 43) ?seal key (cr_identity req) at = Inr hello" unfolding is_ok_iff by blast
  obtain ans where ans: "push_answer ox ck key 0 = Inr ans" using seeds_answer(6) [OF e(4)] unfolding is_ok_iff by blast
  obtain myd where myd: "drop_owner_seed ox (sk_public_key (me_signer me)) = Inr myd" using seeds_answer(2) [OF e(4)] unfolding is_ok_iff by blast
  have rr: "ring_restore 1 0 = (Inr \<lparr>send_seq = 1, peer_collected = 0\<rparr> :: ch_error + ring)" by (simp add: ring_restore_def)
  have rdr: "returns (read_ring env 100 (an_key an) 0 cv \<lparr>send_seq = 1, peer_collected = 0\<rparr>) (touch p fs (loaded w))"
    "wp (read_ring env 100 (an_key an) 0 cv \<lparr>send_seq = 1, peer_collected = 0\<rparr>) Q (touch p fs (loaded w)) = (fe_rec env 100 = RecOk \<longrightarrow> fe_rec env (Suc 100) = RecOk \<longrightarrow>
       Q (\<lparr>rr_messages = [(t, body)], rr_collected = 1, rr_unopened = None\<rparr>, reader, \<lparr>send_seq = 1, peer_collected = 0\<rparr>) (touch p fs (loaded w)))" for Q fs
    using read_ring_one(1) [of "touch p fs (loaded w)" "an_key an" 0 raw env cv _ t body None reader _ 100 Q]
      read_ring_one(2) [of "touch p fs (loaded w)" "an_key an" 0 raw env cv _ t body None reader _ 100] ring me(2) e(1)
    by (auto simp: returns_def)
  have hb: "returns (place_hello env i p (cr_identity req) key ?seal at) v" if "f_conv (files_at p v) = Held s'" for i v s'
    by (rule returns_place_hello [OF e(1,3) _ that]) (use e(4) me(2) h in simp_all)
  note ra = read_accepted_opening_returns [OF e(1) me(2) an(1,5), folded peer(3)]
  show ?thesis
    unfolding finish_accept_def Let_def own_channel_def mint_acceptance_def
    apply (simp add: returns_simps wp_simps rdr hb sf ra rd o me(2) l returns_store [OF e(1)] returns_records [OF e(1)] wp_store [OF e(2)] st(3) slot
       ow ad enc op ck rr restore_snapshot ctl offer_hello_back_def at hello ans myd batch_one.simps hello_back_def)
    apply (intro impI)
    apply (rule wp_place_hello [OF e(2,6)])
     apply (simp add: at(1) me(2))
    apply (auto simp: hello_placed_def wp_simps returns_simps returns_store [OF e(1)])
    done
qed

lemma accept_returns:
  assumes law: "laws ox" and me: "able ox env me 32" "flow_ready ox env" "dsa_law ox (me_signer me)"
    and peer: "ready ox net peer keys" "usable_at (current_advert keys) now"
    and c: "contacted ox peer (sk_public_key (me_signer me)) keys' body now\<^sub>0 net an rpk slot cv st w"
    and fresh: "\<forall>\<sigma>. nt_channel net (an_key an, \<sigma>) = None"
    and s: "new_conversation (sk_public_key (me_signer peer)) s" and reply: "length reply \<le> MESSAGE_BODY_MAX_LEN"
  shows "returns (accept env me (request_of peer an) reply now) (loaded \<lparr>fw_store = s, fw_net = fw_net w\<rparr>)"
proof -
  let ?v = "\<lparr>fw_store = s, fw_net = fw_net w\<rparr>" and ?req = "request_of peer an" and ?pP = "sk_public_key (me_signer peer)"
  let ?w = "loaded ?v"
  have e: "answers env" "alone env" "unraced env" "module_answers ox" "draws_answer env 32" "signs ox me"
    using me(1) by (auto simp: able_def answers_def)
  have r: "fe_ox env = ox" "addressed env" "fe_label env = Some the_peer" using me(2) by (simp_all add: flow_ready_def)
  have g: "gcm_law ox" "kem_law ox" using law by (simp_all add: laws_def)
  from c obtain ifill A\<^sub>0 draw fill where an: "announced ox (me_signer peer) (sk_public_key (me_signer me)) keys' rpk an"
    and i: "initiate ox (an_secret an) ifill = Inr (rpk, A\<^sub>0)" and sA: "seal_slot ox draw fill now\<^sub>0 body A\<^sub>0 = (Inr slot, cv)"
    and aw: "nt_channel (fw_net w) = (nt_channel net)((an_key an, CONTROL_SUBKEY) \<mapsto> an_control an, (an_key an, slot_for 0) \<mapsto> slot)"
      "nt_advert (fw_net w) = nt_advert net"
    unfolding contacted_def by blast
  note rq = request_of_announced [OF an] and sl = ring_slots_distinct
  have l: "sole the_peer ?pP ?w" "files_at the_peer ?w = no_files"
    using loaded_sole [of the_peer ?pP ?v] new_conversation_sole [of ?pP ?v] s by (simp_all add: settled_files_def)
  have ll: "sole the_peer ?pP (loaded ?w)" "files_at the_peer (loaded ?w) = no_files"
    using loaded_sole [OF l(1)] l(2) by (simp_all add: settled_files_def)
  have fb: "fits_a_message reply = Inr ()" "ring_index 0 = 0" using reply by (simp_all add: fits_a_message_def ring_index_def)
  have co: "wp (correspondence_for env 0 ?pP) Q ?w = (fe_io env 0 = IoOk \<longrightarrow> Q None (loaded ?w))" for Q
    using wp_correspondence_for(2) [OF e(2) l(1)] l(2) by (simp add: no_files_def)
  from seeds_answer(3) [OF e(4)] obtain chan where ch: "derive_owner_seed ox (me_channel_root me) ?pP (cr_generation ?req) = Inr chan"
    unfolding is_ok_iff by blast
  let ?key = "fe_channel_key env chan"
  have k: "length ?key = HELLO_LOOKUP_KEY_LEN" "?key \<noteq> replicate HELLO_LOOKUP_KEY_LEN 0"
    using r(2) by (simp_all add: addressed_def NO_LOOKUP_KEY_def)
  obtain B where B: "chain_accept ox (an_secret an) rpk = Inr B" using accept_answers [OF e(4)] unfolding is_ok_iff by blast
  then have pl: "map_option pt_pk (v_peer_latest (cv_receiving B)) = Some rpk" by (auto simp: chain_accept_def result_simps)
  from first_seals [OF g i B services_of_env [OF e(4,5)] reply disjI2 [OF refl], of 0 now] obtain h c' B' where
    sB: "seal_slot ox (fe_draw env 0) (fe_fill env 0) now reply B = (Inr (header_encode h @ c'), B')" "header_wf h" "h_seq h = 0"
      "length (header_encode h @ c') \<le> CHANNEL_SUBKEY_LEN" "h_kem_pk h \<noteq> None"
      "v_peer_latest (cv_receiving B') = v_peer_latest (cv_receiving B)" by auto
  let ?slot = "header_encode h @ c'"
  obtain rpk' where rpk': "h_kem_pk h = Some rpk'" using sB(5) by blast
  have hd: "header_decode ?slot = Inr (h, c')" by (rule header_decode_encode [OF sB(2)])
  from first_reads_of [OF g i sA] B sB(1) obtain reader where
    rd: "open_ring_slot ox slot 0 B' \<lparr>send_seq = 1, peer_collected = 0\<rparr> =
      (Inr (RsMessage 0 (sat_mul now\<^sub>0 1000) body None), reader, \<lparr>send_seq = 1, peer_collected = 0\<rparr>)"
    unfolding first_reads_def by blast
  have ck: "control_key ox (an_secret an) = Inr (an_control_key an)" using an by (auto simp: announced_def announces_def)
  have as: "cr_advert_serial ?req = an_serial an"
    using announced_opening(5) an unfolding announced_def by (simp add: request_of_def contact_request_of_def heard_of_def) blast
  let ?st = "requested_conv ?req ?key B' \<lparr>send_seq = 1, peer_collected = 0\<rparr> (an_control_key an)"
  let ?u = "touch the_peer (opened_files ?st now ?slot) (loaded ?w)"
  have u: "ready ox (fw_net ?u) peer keys" using peer(1) aw(2) by (simp add: ready_def published_def)
  have "returns (finish_accept env me the_peer ?st (Some (cr_slot ?req)) now) ?u"
    by (rule finish_accept_returns [OF law me(1) r(1) me(3) u peer(2) rq(1) an rq(2) as refl _ _ _ refl k _ hd sB(3) rpk' _ _ rd])
      (use aw ll fresh sl pl sB(6) rq(1) in \<open>simp_all add: requested_conv_simps\<close>)
  note fin = this [unfolded opened_files_def no_files_def, simplified]
  show ?thesis
    unfolding accept_def
    by (simp add: returns_simps wp_simps returns_store [OF e(1)] returns_records [OF e(1)] rq co r fb ch B sB(1,4) [simplified] ck
      mint_label_def returns_seal_zero wp_seal_zero wp_store [OF e(2)] wp_persist_outbox [OF e(2)] ll no_files_def fin)
qed

end
