(* ===== verification/Handshake_Done.thy ===== *)
theory Handshake_Done
  imports Handshake_Live
begin

text \<open>
  C2. A first contact becomes an established channel. Say one side's \<open>first_contact\<close> with another
  returned, whatever failed or was clobbered on the way. Then the other's scan of that slot surfaces it as
  a request of this identity over this channel. If accepting it returns, it returns exactly the first
  message, and the first side's scan of the slot of the hello back recognises the acceptance and returns
  exactly the reply. From there on the two stores are an established channel: any sends, collections and
  repairs, with any failures and restarts, keep what each side was returned a prefix of what the other
  committed, first message and reply included, and a repair delivers everything owed.
\<close>

theorem first_contact_establishes:
  assumes law: "laws ox" and parties: "ready ox net A keys\<^sub>A" "ready ox net B keys\<^sub>B"
    and stores: "new_conversation (sk_public_key (me_signer B)) s\<^sub>A" "new_conversation (sk_public_key (me_signer A)) s\<^sub>B"
    and envs: "flow_ready ox env\<^sub>A" "flow_ready ox env\<^sub>B" "scan_ready ox scan\<^sub>A" "scan_ready ox scan\<^sub>B"
    and blocked: "\<not> blocked\<^sub>A (sk_public_key (me_signer B))" "\<not> blocked\<^sub>B (sk_public_key (me_signer A))"
    and opened: "first_contact env\<^sub>A A (sk_public_key (me_signer B)) body now \<lparr>fw_store = s\<^sub>A, fw_net = net\<rparr>
      = (Inr (Opened the_peer key at_slot n), w\<^sub>A)"
    and fresh: "\<forall>\<sigma>. nt_channel net (key, \<sigma>) = None"
  shows "\<exists>req w\<^sub>B. collect_slot scan\<^sub>B B keys\<^sub>B blocked\<^sub>B at_slot \<lparr>fw_store = s\<^sub>B, fw_net = fw_net w\<^sub>A\<rparr>
        = (Inr (Some (ContactRequest req)), w\<^sub>B) \<and>
      cr_identity req = sk_public_key (me_signer A) \<and> cr_lookup_key req = key \<and>
      (\<forall>r w\<^sub>B'. accept env\<^sub>B B req reply now' w\<^sub>B = (Inr r, w\<^sub>B') \<longrightarrow> acd_outgoing_lookup_key r \<noteq> key \<longrightarrow>
         (\<forall>\<sigma>. nt_channel net (acd_outgoing_lookup_key r, \<sigma>) = None) \<longrightarrow>
         acd_messages r = [(sat_mul now 1000, body)] \<and>
         (\<exists>acc w\<^sub>A'. collect_slot scan\<^sub>A A keys\<^sub>A blocked\<^sub>A (acd_hello_slot r) \<lparr>fw_store = fw_store w\<^sub>A, fw_net = fw_net w\<^sub>B'\<rparr>
             = (Inr (Some (Accepted acc)), w\<^sub>A') \<and> ac_messages acc = [(sat_mul now' 1000, reply)] \<and>
           delivers ox (channel_between (sat_mul now 1000, body) (sat_mul now' 1000, reply) w\<^sub>A' w\<^sub>B')))"
  using assms by (rule contact_establishes)

section \<open>Nothing fails\<close>

lemma first_contact_opens:
  assumes law: "laws ox" and parties: "ready ox net A keys\<^sub>A" "ready ox net B keys\<^sub>B"
    and me: "able ox env A n" "flow_ready ox env" and now: "usable_at (current_advert keys\<^sub>B) now"
    and s: "new_conversation (sk_public_key (me_signer B)) s" and body: "length body \<le> MESSAGE_BODY_MAX_LEN"
  obtains key at_slot n w owner where "first_contact env A (sk_public_key (me_signer B)) body now \<lparr>fw_store = s, fw_net = net\<rparr>
      = (Inr (Opened the_peer key at_slot n), w)" "key = fe_channel_key env owner"
proof -
  let ?w = "\<lparr>fw_store = s, fw_net = net\<rparr>" and ?pB = "sk_public_key (me_signer B)"
  have d: "dsa_law ox (me_signer A)" using parties(1) by (simp add: ready_def)
  have e: "alone env" "draws_sized env" "fe_label env = Some the_peer"
    using me draws_answer_sized by (auto simp: able_def answers_def flow_ready_def)
  have l: "sole the_peer ?pB ?w" "files_at the_peer ?w = no_files" using new_conversation_sole [of ?pB ?w] s by simp_all
  from first_contact_returns [OF law me d parties(2) now refl s body] obtain x w where
    r: "first_contact env A ?pB body now ?w = (Inr x, w)" by (auto simp: returns_def)
  from wpD [OF first_contact_leaves [OF e(1,2) l e(3)] r] that r show thesis unfolding contact_made_def by blast
qed

text \<open>What the acceptance of a request of \<open>collect_slot\<close> gives where nothing fails.\<close>

lemma accept_opens:
  assumes law: "laws ox" and parties: "ready ox net A keys\<^sub>A" "ready ox net B keys\<^sub>B"
    and stores: "new_conversation (sk_public_key (me_signer B)) s\<^sub>A" "new_conversation (sk_public_key (me_signer A)) s\<^sub>B"
    and envs: "flow_ready ox env\<^sub>A" "able ox env\<^sub>B B 32" "flow_ready ox env\<^sub>B" "scan_ready ox scan\<^sub>B"
    and blocked: "\<not> blocked\<^sub>B (sk_public_key (me_signer A))"
    and now: "usable_at (current_advert keys\<^sub>A) now'" and reply: "length reply \<le> MESSAGE_BODY_MAX_LEN"
    and opened: "first_contact env\<^sub>A A (sk_public_key (me_signer B)) body now \<lparr>fw_store = s\<^sub>A, fw_net = net\<rparr>
      = (Inr (Opened the_peer key at_slot n), w\<^sub>A)"
    and fresh: "\<forall>\<sigma>. nt_channel net (key, \<sigma>) = None"
    and scan: "collect_slot scan\<^sub>B B keys\<^sub>B blocked\<^sub>B at_slot \<lparr>fw_store = s\<^sub>B, fw_net = fw_net w\<^sub>A\<rparr> = (Inr (Some (ContactRequest req)), w\<^sub>B)"
  obtains r w owner where "accept env\<^sub>B B req reply now' w\<^sub>B = (Inr r, w)" "acd_outgoing_lookup_key r = fe_channel_key env\<^sub>B owner"
proof -
  let ?v = "\<lparr>fw_store = s\<^sub>B, fw_net = fw_net w\<^sub>A\<rparr>" and ?pA = "sk_public_key (me_signer A)"
  have d: "dsa_law ox (me_signer A)" "dsa_law ox (me_signer B)" "keys_made ox keys\<^sub>B" "published ox net (me_signer B) keys\<^sub>B"
    using parties by (simp_all add: ready_def)
  have g: "gcm_law ox" "kem_law ox" using law by (simp_all add: laws_def)
  have e: "alone env\<^sub>B" "draws_sized env\<^sub>B" "addressed env\<^sub>B" "fe_label env\<^sub>B = Some the_peer" "fe_ox env\<^sub>B = ox"
    using envs(2,3) draws_answer_sized by (auto simp: able_def answers_def flow_ready_def)
  obtain an rpk slot A\<^sub>1 st where c: "contacted ox A (sk_public_key (me_signer B)) keys\<^sub>B body now net an rpk slot A\<^sub>1 st w\<^sub>A"
    and k: "an_key an = key" "ha_slot (an_attempt an) = at_slot"
    by (rule first_contact_announces [OF law d envs(1) stores(1) opened])
  have rq: "req = request_of A an" "w\<^sub>B = loaded ?v"
    using request_surfaces [where blocked = blocked\<^sub>B, OF c stores(2) envs(4) blocked] scan by (simp_all add: k)
  have f: "\<forall>\<sigma>. nt_channel net (an_key an, \<sigma>) = None" using fresh k by simp
  from accept_returns [OF law envs(2,3) d(2) parties(1) now c f stores(2) reply] obtain r w where
    r: "accept env\<^sub>B B req reply now' w\<^sub>B = (Inr r, w)" by (auto simp: returns_def rq)
  from c have an: "announced ox (me_signer A) (sk_public_key (me_signer B)) keys\<^sub>B rpk an"
    and nt: "nt_channel (fw_net w\<^sub>A) = (nt_channel net)((an_key an, CONTROL_SUBKEY) \<mapsto> an_control an, (an_key an, slot_for 0) \<mapsto> slot)"
    by (simp_all add: contacted_def)
  from c obtain ifill A\<^sub>0 draw fill where i: "initiate ox (an_secret an) ifill = Inr (rpk, A\<^sub>0)"
    and sA: "seal_slot ox draw fill now body A\<^sub>0 = (Inr slot, A\<^sub>1)" unfolding contacted_def by blast
  note ro = request_of_announced [OF an]
  have l: "sole the_peer (cr_identity req) w\<^sub>B" "files_at the_peer w\<^sub>B = no_files"
    using loaded_sole [of the_peer ?pA ?v] new_conversation_sole [of ?pA ?v] stores(2) rq ro(1) by (simp_all add: settled_files_def)
  have ch: "nt_channel (fw_net w\<^sub>B) (cr_lookup_key req, slot_for 0) = Some slot" "nt_channel (fw_net w\<^sub>B) (cr_lookup_key req, slot_for 1) = None"
    using rq ro(2) nt f ring_slots_distinct by simp_all
  have "first_reads (fe_ox env\<^sub>B) (cr_shared_secret req) (cr_first_ratchet_pk req) slot (sat_mul now 1000) body now' reply"
    unfolding e(5) rq(1) ro(3,4) by (rule first_reads_of [OF g i sA])
  from wpD [OF accept_leaves [OF e(1-4) l ch this] r] obtain owner where "acd_outgoing_lookup_key r = fe_channel_key env\<^sub>B owner"
    unfolding acceptance_made_def by auto
  with r show thesis by (rule that)
qed

text \<open>Two sides' channels are records of their own that nobody wrote before.\<close>

definition unused_channels :: "network \<Rightarrow> flow_env \<Rightarrow> flow_env \<Rightarrow> bool" where
  "unused_channels net a b \<longleftrightarrow> (\<forall>o\<^sub>A o\<^sub>B \<sigma>. fe_channel_key a o\<^sub>A \<noteq> fe_channel_key b o\<^sub>B \<and>
     nt_channel net (fe_channel_key a o\<^sub>A, \<sigma>) = None \<and> nt_channel net (fe_channel_key b o\<^sub>B, \<sigma>) = None)"

text \<open>
  C3. A handshake completes. Where no operation fails and no other writer takes the drop's slot, the whole
  exchange returns: the first contact opens the conversation, the recipient's scan surfaces its request,
  accepting it returns the first message, the initiator's scan recognises the acceptance and returns the
  reply, and the channel that stands then delivers everything either side sends.
\<close>

theorem handshake_completes:
  assumes law: "laws ox" and parties: "ready ox net A keys\<^sub>A" "ready ox net B keys\<^sub>B"
    and stores: "new_conversation (sk_public_key (me_signer B)) s\<^sub>A" "new_conversation (sk_public_key (me_signer A)) s\<^sub>B"
    and envs: "flow_ready ox env\<^sub>A" "flow_ready ox env\<^sub>B" "scan_ready ox scan\<^sub>A" "scan_ready ox scan\<^sub>B"
    and able: "able ox env\<^sub>A A 8" "able ox env\<^sub>B B 32"
    and now: "usable_at (current_advert keys\<^sub>B) now" "usable_at (current_advert keys\<^sub>A) now'"
    and blocked: "\<not> blocked\<^sub>A (sk_public_key (me_signer B))" "\<not> blocked\<^sub>B (sk_public_key (me_signer A))"
    and fit: "length body \<le> MESSAGE_BODY_MAX_LEN" "length reply \<le> MESSAGE_BODY_MAX_LEN"
    and fresh: "unused_channels net env\<^sub>A env\<^sub>B"
  shows "\<exists>key at_slot n w\<^sub>A req w\<^sub>B r w\<^sub>B' acc w\<^sub>A'.
    first_contact env\<^sub>A A (sk_public_key (me_signer B)) body now \<lparr>fw_store = s\<^sub>A, fw_net = net\<rparr>
      = (Inr (Opened the_peer key at_slot n), w\<^sub>A) \<and>
    collect_slot scan\<^sub>B B keys\<^sub>B blocked\<^sub>B at_slot \<lparr>fw_store = s\<^sub>B, fw_net = fw_net w\<^sub>A\<rparr>
      = (Inr (Some (ContactRequest req)), w\<^sub>B) \<and> cr_identity req = sk_public_key (me_signer A) \<and>
    accept env\<^sub>B B req reply now' w\<^sub>B = (Inr r, w\<^sub>B') \<and> acd_messages r = [(sat_mul now 1000, body)] \<and>
    collect_slot scan\<^sub>A A keys\<^sub>A blocked\<^sub>A (acd_hello_slot r) \<lparr>fw_store = fw_store w\<^sub>A, fw_net = fw_net w\<^sub>B'\<rparr>
      = (Inr (Some (Accepted acc)), w\<^sub>A') \<and> ac_messages acc = [(sat_mul now' 1000, reply)] \<and>
    delivers ox (channel_between (sat_mul now 1000, body) (sat_mul now' 1000, reply) w\<^sub>A' w\<^sub>B')"
proof -
  obtain key at_slot n w\<^sub>A owner where o: "first_contact env\<^sub>A A (sk_public_key (me_signer B)) body now \<lparr>fw_store = s\<^sub>A, fw_net = net\<rparr>
      = (Inr (Opened the_peer key at_slot n), w\<^sub>A)" "key = fe_channel_key env\<^sub>A owner"
    by (rule first_contact_opens [OF law parties able(1) envs(1) now(1) stores(1) fit(1)])
  have f: "\<forall>\<sigma>. nt_channel net (key, \<sigma>) = None" using fresh o(2) by (simp add: unused_channels_def)
  note est = contact_establishes [where blocked\<^sub>A = blocked\<^sub>A and blocked\<^sub>B = blocked\<^sub>B, OF law parties stores envs blocked o(1) f]
  then obtain req w\<^sub>B where c: "collect_slot scan\<^sub>B B keys\<^sub>B blocked\<^sub>B at_slot \<lparr>fw_store = s\<^sub>B, fw_net = fw_net w\<^sub>A\<rparr>
      = (Inr (Some (ContactRequest req)), w\<^sub>B)" by blast
  obtain r w\<^sub>B' owner' where a: "accept env\<^sub>B B req reply now' w\<^sub>B = (Inr r, w\<^sub>B')" "acd_outgoing_lookup_key r = fe_channel_key env\<^sub>B owner'"
    by (rule accept_opens [where blocked\<^sub>B = blocked\<^sub>B, OF law parties stores envs(1) able(2) envs(2,4) blocked(2) now(2) fit(2) o(1) f c])
  have "acd_outgoing_lookup_key r \<noteq> key" "\<forall>\<sigma>. nt_channel net (acd_outgoing_lookup_key r, \<sigma>) = None"
    using fresh o(2) a(2) by (metis unused_channels_def)+
  with est c a(1) o(1) show ?thesis by fastforce
qed


section \<open>A concrete instance\<close>

definition demo_keys :: advert_keys where
  "demo_keys = \<lparr>aks_current = \<lparr>ak_serial = 0, ak_not_before = 0, ak_ek = replicate KEM_EK_LEN 7, ak_dk = []\<rparr>, aks_previous = None\<rparr>"

definition demo_me :: "byte \<Rightarrow> me" where
  "demo_me b = \<lparr>me_signer = \<lparr>sk_public_key = replicate DSA_PK_LEN b, sk_secret_key = []\<rparr>, me_channel_root = []\<rparr>"

definition demo_env :: "byte \<Rightarrow> nat \<Rightarrow> flow_env" where
  "demo_env b n = \<lparr>fe_ox = demo_oxi, fe_io = (\<lambda>_. IoOk), fe_between = (\<lambda>_ s. s), fe_rec = (\<lambda>_. RecOk), fe_writers = (\<lambda>_ d. d),
     fe_fill = (\<lambda>i j. Some (replicate (if i = 0 then n else 32) 5)), fe_draw = (\<lambda>_. Some (replicate 12 0)),
     fe_channel_key = (\<lambda>_. replicate HELLO_LOOKUP_KEY_LEN b), fe_label = Some the_peer,
     fe_reach = (\<lparr>r_route = None, r_handle = None\<rparr>, 0)\<rparr>"

definition demo_net :: network where
  "demo_net = \<lparr>nt_channel = (\<lambda>_. None), nt_drop = (\<lambda>_. None), nt_advert = (\<lambda>_. Some (u64_be 0 @ u64_be 0 @ replicate KEM_EK_LEN 7 @
     replicate DSA_SIG_LEN (word_of_nat (length (advert_signing_input (replicate DSA_PK_LEN 1) 0 0 (replicate KEM_EK_LEN 7)))))),
     nt_offered = []\<rparr>"

definition no_conversations :: dm_store where
  "no_conversations = \<lparr>sto_peers = [], sto_files = (\<lambda>_. no_files)\<rparr>"

lemma demo_laws: "laws demo_oxi"
  by (simp add: laws_def demo_gcm_law demo_kem_law demo_sha_law)

lemma demo_ready: "ready demo_oxi demo_net (demo_me b) demo_keys"
proof -
  have o: "\<exists>owner. advert_owner_seed demo_oxi (replicate DSA_PK_LEN b) = Inr owner"
    by (simp add: advert_owner_seed_def oxi_defs demo_oxi_def)
  have "length (advert_signing_input (replicate DSA_PK_LEN b) 0 0 (replicate KEM_EK_LEN 7)) =
      length (advert_signing_input (replicate DSA_PK_LEN 1) 0 0 (replicate KEM_EK_LEN 7))"
    by (simp add: advert_signing_input_def)
  then have "advert_bytes demo_oxi (me_signer (demo_me b)) demo_keys = Inr (the (nt_advert demo_net []))"
    by (simp add: advert_bytes_def advert_build_def keypair_sign_def oxi_defs demo_oxi_def demo_me_def demo_keys_def demo_net_def)
  then have "published demo_oxi demo_net (me_signer (demo_me b)) demo_keys"
    using o by (auto simp: published_def demo_me_def demo_net_def)
  moreover have "keys_made demo_oxi demo_keys"
    by (auto simp: keys_made_def demo_keys_def oxi_defs demo_oxi_def)
  ultimately show ?thesis by (simp add: ready_def demo_dsa_law demo_me_def)
qed

lemma demo_new: "new_conversation pk no_conversations"
  by (simp add: new_conversation_def no_conversations_def no_files_def)

lemma demo_answers: "able demo_oxi (demo_env b n) me n"
  by (simp add: able_def answers_def alone_def unraced_def draws_answer_def module_answers_def signs_def demo_env_def oxi_defs
      demo_oxi_def gcm_nonce_def keypair_sign_def crypto_lens)

lemma demo_flow: "b \<noteq> 0 \<Longrightarrow> flow_ready demo_oxi (demo_env b n)" "scan_ready demo_oxi (demo_env b n)"
proof -
  have a: "answers (demo_env b n)" "draws_sized (demo_env b n)"
    using demo_answers [of b n] draws_answer_sized [of "demo_env b n" n] by (simp_all add: able_def)
  have "replicate HELLO_LOOKUP_KEY_LEN b \<noteq> NO_LOOKUP_KEY" if "b \<noteq> 0"
    using that by (auto simp: NO_LOOKUP_KEY_def HELLO_LOOKUP_KEY_LEN_def)
  then show "b \<noteq> 0 \<Longrightarrow> flow_ready demo_oxi (demo_env b n)"
    using a by (simp add: flow_ready_def answers_def addressed_def handle_valid_def demo_env_def)
  show "scan_ready demo_oxi (demo_env b n)" using a(1) by (simp add: scan_ready_def demo_env_def)
qed

lemma demo_one: "flow_ready demo_oxi (demo_env 1 n)" "flow_ready demo_oxi (demo_env 2 n)"
  by (rule demo_flow(1); simp)+

lemma demo_usable: "usable_at (current_advert demo_keys) 1000"
  by (simp add: usable_at_def current_advert_def demo_keys_def CLOCK_SKEW_SECS_def ROTATION_PERIOD_SECS_def sat_sub_def sat_add_def sat_mul_def Let_def)

lemma demo_unused: "unused_channels demo_net (demo_env 1 n) (demo_env 2 m)"
  by (simp add: unused_channels_def demo_env_def demo_net_def HELLO_LOOKUP_KEY_LEN_def)

lemma demo_fits: "length [x :: byte] \<le> MESSAGE_BODY_MAX_LEN"
  by (simp add: channel_sizes crypto_lens)

theorem handshake_completes_witness:
  "\<exists>key at_slot n w\<^sub>A req w\<^sub>B r w\<^sub>B' acc w\<^sub>A'.
    first_contact (demo_env 1 8) (demo_me 1) (sk_public_key (me_signer (demo_me 2))) [11] 1000
      \<lparr>fw_store = no_conversations, fw_net = demo_net\<rparr> = (Inr (Opened the_peer key at_slot n), w\<^sub>A) \<and>
    collect_slot (demo_env 2 32) (demo_me 2) demo_keys (\<lambda>_. False) at_slot \<lparr>fw_store = no_conversations, fw_net = fw_net w\<^sub>A\<rparr>
      = (Inr (Some (ContactRequest req)), w\<^sub>B) \<and> cr_identity req = sk_public_key (me_signer (demo_me 1)) \<and>
    accept (demo_env 2 32) (demo_me 2) req [22] 1000 w\<^sub>B = (Inr r, w\<^sub>B') \<and> acd_messages r = [(sat_mul 1000 1000, [11])] \<and>
    collect_slot (demo_env 1 8) (demo_me 1) demo_keys (\<lambda>_. False) (acd_hello_slot r) \<lparr>fw_store = fw_store w\<^sub>A, fw_net = fw_net w\<^sub>B'\<rparr>
      = (Inr (Some (Accepted acc)), w\<^sub>A') \<and> ac_messages acc = [(sat_mul 1000 1000, [22])] \<and>
    delivers demo_oxi (channel_between (sat_mul 1000 1000, [11]) (sat_mul 1000 1000, [22]) w\<^sub>A' w\<^sub>B')"
  by (rule handshake_completes [OF demo_laws demo_ready demo_ready demo_new demo_new demo_one demo_flow(2) demo_flow(2)
      demo_answers demo_answers demo_usable demo_usable _ _ demo_fits demo_fits demo_unused]) simp_all

theorem first_contact_establishes_witness:
  "\<exists>key at_slot n w\<^sub>A req w\<^sub>B r w\<^sub>B'.
    first_contact (demo_env 1 8) (demo_me 1) (sk_public_key (me_signer (demo_me 2))) [11] 1000
      \<lparr>fw_store = no_conversations, fw_net = demo_net\<rparr> = (Inr (Opened the_peer key at_slot n), w\<^sub>A) \<and>
    collect_slot (demo_env 2 32) (demo_me 2) demo_keys (\<lambda>_. False) at_slot \<lparr>fw_store = no_conversations, fw_net = fw_net w\<^sub>A\<rparr>
      = (Inr (Some (ContactRequest req)), w\<^sub>B) \<and>
    accept (demo_env 2 32) (demo_me 2) req [22] 1000 w\<^sub>B = (Inr r, w\<^sub>B') \<and> acd_messages r = [(sat_mul 1000 1000, [11])]"
proof -
  obtain key at_slot n w\<^sub>A owner where o: "first_contact (demo_env 1 8) (demo_me 1) (sk_public_key (me_signer (demo_me 2))) [11] 1000
      \<lparr>fw_store = no_conversations, fw_net = demo_net\<rparr> = (Inr (Opened the_peer key at_slot n), w\<^sub>A)"
      "key = fe_channel_key (demo_env 1 8) owner"
    by (rule first_contact_opens [OF demo_laws demo_ready demo_ready demo_answers demo_one(1) demo_usable demo_new demo_fits])
  have f: "\<forall>\<sigma>. nt_channel demo_net (key, \<sigma>) = None" by (simp add: demo_net_def)
  note est = first_contact_establishes [where blocked\<^sub>A = "\<lambda>_. False" and blocked\<^sub>B = "\<lambda>_. False" and reply = "[22]" and now' = 1000,
      OF demo_laws demo_ready demo_ready demo_new demo_new demo_one(1) demo_one(2) [of 32] demo_flow(2) [of 1 8] demo_flow(2) [of 2 32] _ _ o(1) f]
  then obtain req w\<^sub>B where c: "collect_slot (demo_env 2 32) (demo_me 2) demo_keys (\<lambda>_. False) at_slot
      \<lparr>fw_store = no_conversations, fw_net = fw_net w\<^sub>A\<rparr> = (Inr (Some (ContactRequest req)), w\<^sub>B)" by auto
  obtain r w\<^sub>B' owner' where a: "accept (demo_env 2 32) (demo_me 2) req [22] 1000 w\<^sub>B = (Inr r, w\<^sub>B')"
      "acd_outgoing_lookup_key r = fe_channel_key (demo_env 2 32) owner'"
    by (rule accept_opens [where blocked\<^sub>B = "\<lambda>_. False", OF demo_laws demo_ready demo_ready demo_new demo_new demo_one(1) demo_answers
      demo_one(2) demo_flow(2) _ demo_usable demo_fits o(1) f c]) simp
  have "acd_outgoing_lookup_key r \<noteq> key" using o(2) a(2) by (simp add: demo_env_def HELLO_LOOKUP_KEY_LEN_def)
  with est c a(1) o(1) show ?thesis by (fastforce simp: demo_net_def)
qed

end
