(* ===== verification/Scheduler.thy ===== *)
theory Scheduler
  imports Prelude "HOL-Library.Product_Lexorder"
begin

text \<open>
  The write scheduler of \<^verbatim>\<open>daemonseed-veilid-net/src/schedule.rs\<close>: the one queue before the network's
  write primitive. Its state is \<open>sched\<close> (\<open>State\<close>), its operations \<open>enqueue\<close>, \<open>try_dispatch\<close>,
  \<open>on_done\<close>, \<open>next_wakeup\<close> and \<open>drain_for_shutdown\<close>, one definition each.

  An instant is a number of nanoseconds, a duration a difference of two; \<open>saturating_duration_since\<close> is
  subtraction on \<open>nat\<close>. The queues, a \<open>HashMap\<close>, are a function of the record with the list of the
  map's keys in iteration order, which no pick depends on. A request's reply is named by its item: an
  operation returns the items whose reply it resolves without a write. The sequence counter, a \<open>u64\<close>
  that one process cannot exhaust, is a \<open>nat\<close>.
\<close>

section \<open>Classes, kinds and requests\<close>

type_synonym record_id = "byte list"

datatype dispatch_lane = LChat | LFloor | LWindow

datatype write_class = Chat | SessionBoundary | AdvertRefresh | Keepalive | Republish

fun rank :: "write_class \<Rightarrow> nat" where
  "rank Chat = 1"
| "rank SessionBoundary = 2"
| "rank AdvertRefresh = 3"
| "rank Keepalive = 4"
| "rank Republish = 5"

lemma rank_inject [simp]: "rank a = rank b \<longleftrightarrow> a = b"
  by (cases a; cases b) simp_all

lemma rank_bounds: "1 \<le> rank c" "rank c \<le> 5"
  by (cases c; simp)+

text \<open>The order on classes: the smaller is the higher priority.\<close>

instantiation write_class :: linorder
begin

definition less_eq_write_class :: "write_class \<Rightarrow> write_class \<Rightarrow> bool" where
  "less_eq_write_class a b \<longleftrightarrow> rank a \<le> rank b"

definition less_write_class :: "write_class \<Rightarrow> write_class \<Rightarrow> bool" where
  "less_write_class a b \<longleftrightarrow> rank a < rank b"

instance
  by intro_classes (auto simp: less_eq_write_class_def less_write_class_def)

end

definition strongest_class :: "write_class \<Rightarrow> write_class \<Rightarrow> write_class" where
  "strongest_class a b = (if rank a \<le> rank b then a else b)"

lemma strongest_class_min: "strongest_class a b = min a b"
  by (simp add: strongest_class_def min_def less_eq_write_class_def)

lemma Chat_le [simp]: "Chat \<le> c" "c \<le> Chat \<longleftrightarrow> c = Chat"
  by (cases c; simp add: less_eq_write_class_def)+

datatype write_kind = Ring | CurrentState string | Tombstone string

fun logical_id :: "write_kind \<Rightarrow> string option" where
  "logical_id Ring = None"
| "logical_id (CurrentState lid) = Some lid"
| "logical_id (Tombstone lid) = Some lid"

fun is_tombstone :: "write_kind \<Rightarrow> bool" where
  "is_tombstone (Tombstone lid) = True"
| "is_tombstone k = False"

record 'd write_request =
  wr_record :: record_id
  wr_class :: write_class
  wr_kind :: write_kind
  wr_deadline :: "nat option"
  wr_item :: 'd

datatype direct_message_write =
    DmAdvert | DmHello | DmHelloErase | DmChannelOpening | DmMessageSlot | DmCursor | DmSlotRepair
  | DmClosedMarker | DmChannelErase

definition dm_class :: "direct_message_write \<Rightarrow> write_class" where "dm_class w = Chat"

definition dm_kind :: "direct_message_write \<Rightarrow> write_kind" where "dm_kind w = Ring"

definition direct_message :: "record_id \<Rightarrow> direct_message_write \<Rightarrow> 'd \<Rightarrow> 'd write_request" where
  "direct_message record write item =
    \<lparr>wr_record = record, wr_class = dm_class write, wr_kind = dm_kind write, wr_deadline = None, wr_item = item\<rparr>"

section \<open>State\<close>

record scheduler_config =
  sc_nonchat_cap :: nat
  sc_age_bounds :: "nat list"

definition default_config :: scheduler_config where
  "default_config = \<lparr>sc_nonchat_cap = 2, sc_age_bounds = map ((*) 1000000000) [2, 30, 60, 120, 90]\<rparr>"

record 'd pending =
  pn_seq :: nat
  pn_enqueued :: nat
  pn_starved_since :: nat
  pn_class :: write_class
  pn_kind :: write_kind
  pn_deadline :: "nat option"
  pn_item :: 'd

record 'd sched =
  ss_cfg :: scheduler_config
  ss_records :: "record_id list"
  ss_queue :: "record_id \<Rightarrow> 'd pending list"
  ss_in_flight :: "record_id set"
  ss_in_flight_tombstone :: "record_id \<Rightarrow> string option"
  ss_window_in_flight :: nat
  ss_floor_in_flight :: nat
  ss_latency_probe :: nat
  ss_latency_ring :: "nat list"
  ss_seq :: nat

definition sched_new :: "scheduler_config \<Rightarrow> 'd sched" where
  "sched_new cfg = \<lparr>ss_cfg = cfg, ss_records = [], ss_queue = (\<lambda>_. []), ss_in_flight = {},
     ss_in_flight_tombstone = (\<lambda>_. None), ss_window_in_flight = 0, ss_floor_in_flight = 0,
     ss_latency_probe = 0, ss_latency_ring = [], ss_seq = 0\<rparr>"

definition LATENCY_WINDOW :: nat where "LATENCY_WINDOW = 5"

definition median_ms :: "nat list \<Rightarrow> nat" where
  "median_ms ring =
    (let v = sort (ring @ replicate (max LATENCY_WINDOW (length ring) - length ring) 0)
     in v ! (length v div 2))"

section \<open>Enqueueing\<close>

record coalesced =
  co_starved_since :: nat
  co_strongest :: write_class

text \<open>The accumulator \<open>out\<close> is the loop's; the second result is the queue left, the third the items dropped.\<close>

fun drop_same_id_current_state ::
  "string \<Rightarrow> coalesced option \<Rightarrow> 'd pending list \<Rightarrow> coalesced option \<times> 'd pending list \<times> 'd list" where
  "drop_same_id_current_state lid out [] = (out, [], [])"
| "drop_same_id_current_state lid out (p # q) =
    (if pn_kind p = CurrentState lid then
       let out' = Some (case out of
             None \<Rightarrow> \<lparr>co_starved_since = pn_starved_since p, co_strongest = pn_class p\<rparr>
           | Some acc \<Rightarrow> \<lparr>co_starved_since = min (co_starved_since acc) (pn_starved_since p),
                           co_strongest = strongest_class (co_strongest acc) (pn_class p)\<rparr>)
       in (case drop_same_id_current_state lid out' q of (co, rest, dropped) \<Rightarrow> (co, rest, pn_item p # dropped))
     else (case drop_same_id_current_state lid out q of (co, rest, dropped) \<Rightarrow> (co, p # rest, dropped)))"

fun drop_superseded :: "string \<Rightarrow> 'd pending list \<Rightarrow> 'd pending list \<times> 'd list" where
  "drop_superseded lid [] = ([], [])"
| "drop_superseded lid (p # q) =
    (case drop_superseded lid q of (rest, dropped) \<Rightarrow>
       if logical_id (pn_kind p) = Some lid then (rest, pn_item p # dropped) else (p # rest, dropped))"

definition dominated :: "string \<Rightarrow> record_id \<Rightarrow> 'd sched \<Rightarrow> bool" where
  "dominated lid r s \<longleftrightarrow>
    list_ex (\<lambda>p. is_tombstone (pn_kind p) \<and> logical_id (pn_kind p) = Some lid) (ss_queue s r) \<or>
    ss_in_flight_tombstone s r = Some lid"

definition push_back ::
  "nat \<Rightarrow> nat \<Rightarrow> write_class \<Rightarrow> 'd write_request \<Rightarrow> 'd pending list \<Rightarrow> 'd sched \<Rightarrow> 'd sched" where
  "push_back now starved_since class req q s =
    s\<lparr>ss_records := List.insert (wr_record req) (ss_records s),
      ss_queue := (ss_queue s)(wr_record req := q @
        [\<lparr>pn_seq = ss_seq s, pn_enqueued = now, pn_starved_since = starved_since, pn_class = class,
          pn_kind = wr_kind req, pn_deadline = wr_deadline req, pn_item = wr_item req\<rparr>]),
      ss_seq := ss_seq s + 1\<rparr>"

definition enqueue :: "nat \<Rightarrow> 'd write_request \<Rightarrow> 'd sched \<Rightarrow> 'd list \<times> 'd sched" where
  "enqueue now req s =
    (let q = ss_queue s (wr_record req)
     in case wr_kind req of
       Ring \<Rightarrow> ([], push_back now now (wr_class req) req q s)
     | CurrentState lid \<Rightarrow>
         if dominated lid (wr_record req) s
         then ([wr_item req], s\<lparr>ss_records := List.insert (wr_record req) (ss_records s)\<rparr>)
         else (case drop_same_id_current_state lid None q of
             (None, rest, dropped) \<Rightarrow> (dropped, push_back now now (wr_class req) req rest s)
           | (Some elder, rest, dropped) \<Rightarrow>
               (dropped, push_back now (co_starved_since elder) (strongest_class (wr_class req) (co_strongest elder)) req rest s))
     | Tombstone lid \<Rightarrow>
         (case drop_superseded lid q of (rest, dropped) \<Rightarrow>
           (dropped, push_back now now (wr_class req) req rest s)))"

section \<open>Picking a record\<close>

text \<open>\<open>Iterator::min_by\<close>: the first of the elements with the smallest key.\<close>

fun min_by_key :: "('a \<Rightarrow> 'k::linorder) \<Rightarrow> 'a list \<Rightarrow> 'a option" where
  "min_by_key f [] = None"
| "min_by_key f (x # xs) =
    (case min_by_key f xs of None \<Rightarrow> Some x | Some y \<Rightarrow> if f y < f x then Some y else Some x)"

definition idle :: "'d sched \<Rightarrow> record_id \<Rightarrow> bool" where
  "idle s r \<longleftrightarrow> r \<notin> ss_in_flight s"

text \<open>The idle records with something queued, and the head of a queue.\<close>

definition ready :: "'d sched \<Rightarrow> record_id list" where
  "ready s = filter (\<lambda>r. idle s r \<and> ss_queue s r \<noteq> []) (ss_records s)"

definition head :: "'d sched \<Rightarrow> record_id \<Rightarrow> 'd pending" where
  "head s r = hd (ss_queue s r)"

definition age_bound :: "'d sched \<Rightarrow> write_class \<Rightarrow> nat" where
  "age_bound s c = sc_age_bounds (ss_cfg s) ! (rank c - 1)"

definition floor_age :: "'d sched \<Rightarrow> write_class \<Rightarrow> nat" where
  "floor_age s c = age_bound s c * 2"

definition deadline_due :: "nat \<Rightarrow> 'd sched \<Rightarrow> record_id \<Rightarrow> bool" where
  "deadline_due now s r \<longleftrightarrow> pn_class (head s r) \<noteq> Chat \<and>
     (case pn_deadline (head s r) of None \<Rightarrow> False | Some d \<Rightarrow> d \<le> now)"

definition floor_aged :: "nat \<Rightarrow> 'd sched \<Rightarrow> record_id \<Rightarrow> bool" where
  "floor_aged now s r \<longleftrightarrow> pn_class (head s r) \<noteq> Chat \<and>
     now - pn_starved_since (head s r) \<ge> floor_age s (pn_class (head s r))"

definition pick_floor :: "nat \<Rightarrow> 'd sched \<Rightarrow> record_id option" where
  "pick_floor now s =
    (case min_by_key (\<lambda>r. (the (pn_deadline (head s r)), pn_seq (head s r))) (filter (deadline_due now s) (ready s)) of
       Some r \<Rightarrow> Some r
     | None \<Rightarrow> min_by_key (\<lambda>r. (rank (pn_class (head s r)), pn_starved_since (head s r), pn_seq (head s r)))
         (filter (floor_aged now s) (ready s)))"

definition pick_chat_ready :: "'d sched \<Rightarrow> record_id option" where
  "pick_chat_ready s =
    min_by_key (\<lambda>r. pn_seq (head s r)) (filter (\<lambda>r. pn_class (head s r) = Chat) (ready s))"

definition effective_rank :: "nat \<Rightarrow> 'd sched \<Rightarrow> 'd pending \<Rightarrow> nat" where
  "effective_rank now s p =
    (if now - pn_starved_since p \<ge> age_bound s (pn_class p) then max (rank (pn_class p) - 1) 1
     else rank (pn_class p))"

definition pick_best_nonchat :: "nat \<Rightarrow> 'd sched \<Rightarrow> record_id option" where
  "pick_best_nonchat now s =
    min_by_key (\<lambda>r. (effective_rank now s (head s r), pn_seq (head s r)))
      (filter (\<lambda>r. pn_class (head s r) \<noteq> Chat) (ready s))"

definition distinct_pending_nonchat :: "'d sched \<Rightarrow> nat" where
  "distinct_pending_nonchat s =
    length (filter (\<lambda>r. idle s r \<and> (case ss_queue s r of [] \<Rightarrow> False | p # _ \<Rightarrow> pn_class p \<noteq> Chat)) (ss_records s))
    + ss_window_in_flight s"

section \<open>Dispatching\<close>

definition dispatch :: "record_id \<Rightarrow> dispatch_lane \<Rightarrow> 'd sched \<Rightarrow> 'd pending option \<times> 'd sched" where
  "dispatch r lane s =
    (if r \<notin> set (ss_records s) then (None, s)
     else case ss_queue s r of [] \<Rightarrow> (None, s)
      | p # q \<Rightarrow> (Some p, s\<lparr>
          ss_records := (if q = [] then removeAll r (ss_records s) else ss_records s),
          ss_queue := (ss_queue s)(r := q),
          ss_in_flight := insert r (ss_in_flight s),
          ss_in_flight_tombstone := (case pn_kind p of
             Tombstone lid \<Rightarrow> (ss_in_flight_tombstone s)(r \<mapsto> lid) | _ \<Rightarrow> ss_in_flight_tombstone s),
          ss_window_in_flight := ss_window_in_flight s + (if lane = LWindow then 1 else 0),
          ss_floor_in_flight := ss_floor_in_flight s + (if lane = LFloor then 1 else 0)\<rparr>))"

definition total_queued :: "'d sched \<Rightarrow> nat" where
  "total_queued s = (\<Sum>r\<leftarrow>ss_records s. length (ss_queue s r))"

lemma dispatch_shrinks:
  assumes "dispatch r lane s = (Some p, s')"
  shows "total_queued s' < total_queued s"
proof -
  from assms obtain q where q: "r \<in> set (ss_records s)" "ss_queue s r = p # q"
    and s': "ss_records s' = (if q = [] then removeAll r (ss_records s) else ss_records s)"
      "ss_queue s' = (ss_queue s)(r := q)"
    by (auto simp: dispatch_def split: if_splits list.splits)
  let ?f = "\<lambda>x. length (ss_queue s x)"
  have "(\<Sum>x\<leftarrow>xs. if x = r then length q else ?f x) + (if r \<in> set xs then 1 else 0) \<le> sum_list (map ?f xs)" for xs
    by (induction xs) (auto simp: q(2) split: if_splits)
  from this [of "ss_records s"] q(1)
  have *: "(\<Sum>x\<leftarrow>ss_records s. if x = r then length q else ?f x) < sum_list (map ?f (ss_records s))" by simp
  have "(\<Sum>x\<leftarrow>removeAll r xs. if x = r then 0 else ?f x) \<le> (\<Sum>x\<leftarrow>xs. if x = r then 0 else ?f x)" for xs
    by (induction xs) auto
  from this [of "ss_records s"] * show ?thesis
    by (auto simp: total_queued_def s' fun_upd_def if_distrib cong: if_cong map_cong split: if_splits)
qed

text \<open>
  Dispatch what \<open>pick\<close> names until it names nothing; the list is what was handed to the sink, in order.
\<close>

function dispatch_loop ::
  "('d sched \<Rightarrow> (record_id \<times> dispatch_lane) option) \<Rightarrow> 'd sched \<Rightarrow>
   (record_id \<times> 'd pending \<times> dispatch_lane) list \<times> 'd sched" where
  "dispatch_loop pick s =
    (case pick s of None \<Rightarrow> ([], s)
     | Some (r, lane) \<Rightarrow>
       (case dispatch r lane s of (None, s') \<Rightarrow> ([], s')
        | (Some p, s') \<Rightarrow> (case dispatch_loop pick s' of (sent, s'') \<Rightarrow> ((r, p, lane) # sent, s''))))"
  by pat_completeness auto
termination
  by (relation "measure (\<lambda>(pick, s). total_queued s)") (auto, metis dispatch_shrinks)

text \<open>One pass of the loop of \<open>try_dispatch\<close>: floor, then chat, then window.\<close>

definition pick_lane :: "nat \<Rightarrow> 'd sched \<Rightarrow> (record_id \<times> dispatch_lane) option" where
  "pick_lane now s =
    (case (if ss_floor_in_flight s < 1 then pick_floor now s else None) of
       Some r \<Rightarrow> Some (r, LFloor)
     | None \<Rightarrow>
       (case pick_chat_ready s of
          Some r \<Rightarrow> Some (r, LChat)
        | None \<Rightarrow>
          let window = min (distinct_pending_nonchat s) (sc_nonchat_cap (ss_cfg s))
          in if ss_window_in_flight s < window
             then map_option (\<lambda>r. (r, LWindow)) (pick_best_nonchat now s) else None))"

definition try_dispatch :: "nat \<Rightarrow> 'd sched \<Rightarrow> (record_id \<times> 'd pending \<times> dispatch_lane) list \<times> 'd sched" where
  "try_dispatch now s = dispatch_loop (pick_lane now) s"

section \<open>Completion, wakeup and shutdown\<close>

definition on_done :: "record_id \<Rightarrow> dispatch_lane \<Rightarrow> nat \<Rightarrow> 'd sched \<Rightarrow> 'd sched" where
  "on_done r lane latency_ms s =
    (let s1 = s\<lparr>ss_in_flight := ss_in_flight s - {r},
                ss_in_flight_tombstone := (ss_in_flight_tombstone s)(r := None),
                ss_window_in_flight := ss_window_in_flight s - (if lane = LWindow then 1 else 0),
                ss_floor_in_flight := ss_floor_in_flight s - (if lane = LFloor then 1 else 0)\<rparr>
     in if lane = LChat then s1
        else let ring = ss_latency_ring s @ [min latency_ms (2 ^ 64 - 1)];
                 ring' = drop (length ring - LATENCY_WINDOW) ring
             in s1\<lparr>ss_latency_ring := ring', ss_latency_probe := median_ms ring'\<rparr>)"

definition wake_times :: "nat \<Rightarrow> 'd sched \<Rightarrow> record_id \<Rightarrow> nat list" where
  "wake_times now s r =
    (let p = head s r;
         deadline = (case pn_deadline p of Some d \<Rightarrow> if d > now then [d] else [] | None \<Rightarrow> []);
         bound = age_bound s (pn_class p);
         esc = pn_starved_since p + bound;
         floor = pn_starved_since p + bound * 2
     in deadline @ (if pn_class p = Chat then [] else
          (if esc > now then [esc] else []) @ (if floor > now then [floor] else [])))"

definition next_wakeup :: "nat \<Rightarrow> 'd sched \<Rightarrow> nat option" where
  "next_wakeup now s = min_by_key (\<lambda>t. t) (concat (map (wake_times now s) (ready s)))"

definition flushable :: "'d pending \<Rightarrow> bool" where
  "flushable p \<longleftrightarrow> pn_class p = Chat \<or> is_tombstone (pn_kind p)"

definition shed :: "'d sched \<Rightarrow> 'd sched" where
  "shed s = s\<lparr>ss_queue := (\<lambda>r. filter flushable (ss_queue s r)),
     ss_records := filter (\<lambda>r. filter flushable (ss_queue s r) \<noteq> []) (ss_records s)\<rparr>"

definition pick_flush :: "'d sched \<Rightarrow> (record_id \<times> dispatch_lane) option" where
  "pick_flush s = map_option (\<lambda>r. (r, if pn_class (head s r) = Chat then LChat else LWindow))
     (min_by_key (\<lambda>r. pn_seq (head s r)) (ready s))"

definition drain_for_shutdown :: "'d sched \<Rightarrow> (record_id \<times> 'd pending \<times> dispatch_lane) list \<times> 'd sched" where
  "drain_for_shutdown s = dispatch_loop pick_flush (shed s)"

definition shutdown_work_remaining :: "'d sched \<Rightarrow> bool" where
  "shutdown_work_remaining s \<longleftrightarrow> ss_in_flight s \<noteq> {} \<or>
     list_ex (\<lambda>r. list_ex flushable (ss_queue s r)) (ss_records s)"

end
