(* ===== verification/Scheduler_Run.thy ===== *)
theory Scheduler_Run
  imports Scheduler
begin

text \<open>
  The scheduler at work: what an enqueue does to a queue, the driver task as a machine of events
  (\<open>sched_step\<close>) with a log of what it handed out, and the invariant of its runs. The dispatch loops of
  the normal operation and of the shutdown share the locale \<open>dispatcher\<close>: a pick that names only ready
  records makes a loop that ends with nothing left to pick and keeps what each dispatch keeps.
\<close>

section \<open>What each operation does to a queue\<close>

fun keeps :: "write_kind \<Rightarrow> 'd pending \<Rightarrow> bool" where
  "keeps Ring = (\<lambda>p. True)"
| "keeps (CurrentState lid) = (\<lambda>p. pn_kind p \<noteq> CurrentState lid)"
| "keeps (Tombstone lid) = (\<lambda>p. logical_id (pn_kind p) \<noteq> Some lid)"

lemma drop_superseded_eq:
  "drop_superseded lid q = (filter (keeps (Tombstone lid)) q, map pn_item (filter (\<lambda>p. \<not> keeps (Tombstone lid) p) q))"
  by (induction q) auto

definition covers :: "coalesced \<Rightarrow> 'd pending \<Rightarrow> bool" where
  "covers co p \<longleftrightarrow> co_starved_since co \<le> pn_starved_since p \<and> co_strongest co \<le> pn_class p"

lemma drop_same_id_eq:
  "\<exists>co. drop_same_id_current_state lid out q =
      (co, filter (keeps (CurrentState lid)) q, map pn_item (filter (\<lambda>p. \<not> keeps (CurrentState lid) p) q)) \<and>
    (co = None \<longrightarrow> out = None \<and> (\<forall>p \<in> set q. keeps (CurrentState lid) p)) \<and>
    (\<forall>c. co = Some c \<longrightarrow> (\<forall>p \<in> set q. \<not> keeps (CurrentState lid) p \<longrightarrow> covers c p) \<and>
       (\<forall>acc. out = Some acc \<longrightarrow> co_starved_since c \<le> co_starved_since acc \<and> co_strongest c \<le> co_strongest acc))"
proof (induction q arbitrary: out)
  case (Cons p q)
  show ?case
  proof (cases "pn_kind p = CurrentState lid")
    case True
    let ?out = "Some (case out of
         None \<Rightarrow> \<lparr>co_starved_since = pn_starved_since p, co_strongest = pn_class p\<rparr>
       | Some acc \<Rightarrow> \<lparr>co_starved_since = min (co_starved_since acc) (pn_starved_since p),
                       co_strongest = strongest_class (co_strongest acc) (pn_class p)\<rparr>)"
    from Cons.IH [of ?out] obtain co where c: "drop_same_id_current_state lid ?out q =
        (Some co, filter (keeps (CurrentState lid)) q, map pn_item (filter (\<lambda>p. \<not> keeps (CurrentState lid) p) q))"
      "\<forall>p \<in> set q. \<not> keeps (CurrentState lid) p \<longrightarrow> covers co p"
      "co_starved_since co \<le> co_starved_since (the ?out)" "co_strongest co \<le> co_strongest (the ?out)"
      by auto
    have "covers co p" "\<forall>acc. out = Some acc \<longrightarrow> co_starved_since co \<le> co_starved_since acc \<and> co_strongest co \<le> co_strongest acc"
      using c(3,4) by (auto simp: covers_def strongest_class_min split: option.splits)
    with True c(1,2) show ?thesis by (simp add: Let_def)
  next
    case False
    with Cons.IH [of out] show ?thesis by (auto split: prod.split)
  qed
qed simp

text \<open>
  An enqueue either drops its request, dominated by a withdraw, or removes what the request supersedes
  and appends it, with the starvation clock and the class of the strongest it removed.
\<close>

lemma enqueue_cases:
  assumes "enqueue now req s = (items, s')"
  obtains (dropped) lid where "wr_kind req = CurrentState lid" "dominated lid (wr_record req) s" "items = [wr_item req]"
      "s' = s\<lparr>ss_records := List.insert (wr_record req) (ss_records s)\<rparr>"
    | (pushed) starved cls where "\<forall>lid. wr_kind req = CurrentState lid \<longrightarrow> \<not> dominated lid (wr_record req) s"
      "s' = push_back now starved cls req (filter (keeps (wr_kind req)) (ss_queue s (wr_record req))) s"
      "items = map pn_item (filter (\<lambda>p. \<not> keeps (wr_kind req) p) (ss_queue s (wr_record req)))"
      "cls \<le> wr_class req" "wr_kind req = Ring \<or> is_tombstone (wr_kind req) \<Longrightarrow> cls = wr_class req \<and> starved = now"
      "\<forall>p \<in> set (ss_queue s (wr_record req)). \<not> keeps (wr_kind req) p \<longrightarrow> is_tombstone (wr_kind req) \<or>
         starved \<le> pn_starved_since p \<and> cls \<le> pn_class p"
proof (cases "wr_kind req")
  case Ring
  with assms pushed [of now "wr_class req"] show thesis by (auto simp: enqueue_def)
next
  case (CurrentState lid)
  show thesis
  proof (cases "dominated lid (wr_record req) s")
    case True
    with assms CurrentState dropped show thesis by (auto simp: enqueue_def)
  next
    case False
    obtain co where d: "drop_same_id_current_state lid None (ss_queue s (wr_record req)) =
        (co, filter (keeps (CurrentState lid)) (ss_queue s (wr_record req)),
         map pn_item (filter (\<lambda>p. \<not> keeps (CurrentState lid) p) (ss_queue s (wr_record req))))"
      "co = None \<longrightarrow> (\<forall>p \<in> set (ss_queue s (wr_record req)). keeps (CurrentState lid) p)"
      "\<forall>c. co = Some c \<longrightarrow> (\<forall>p \<in> set (ss_queue s (wr_record req)). \<not> keeps (CurrentState lid) p \<longrightarrow> covers c p)"
      using drop_same_id_eq [of lid None "ss_queue s (wr_record req)"] by blast
    show thesis
    proof (cases co)
      case None
      with assms CurrentState False d pushed [of now "wr_class req"] show thesis by (auto simp: enqueue_def)
    next
      case (Some c)
      have "strongest_class (wr_class req) (co_strongest c) \<le> wr_class req" by (simp add: strongest_class_min)
      moreover have "\<forall>p \<in> set (ss_queue s (wr_record req)). \<not> keeps (CurrentState lid) p \<longrightarrow>
          co_starved_since c \<le> pn_starved_since p \<and> strongest_class (wr_class req) (co_strongest c) \<le> pn_class p"
        using d(3) Some by (auto simp: covers_def strongest_class_min min_le_iff_disj)
      ultimately show thesis
        using assms CurrentState False d(1) Some
          pushed [of "co_starved_since c" "strongest_class (wr_class req) (co_strongest c)"]
        by (auto simp: enqueue_def)
    qed
  qed
next
  case (Tombstone lid)
  with assms pushed [of now "wr_class req"] show thesis by (auto simp: enqueue_def drop_superseded_eq Let_def)
qed

section \<open>The state's invariant\<close>

definition queue_wf :: "nat \<Rightarrow> string option \<Rightarrow> 'd pending list \<Rightarrow> bool" where
  "queue_wf n tomb q \<longleftrightarrow> sorted_wrt (<) (map pn_seq q) \<and> (\<forall>p \<in> set q. pn_seq p < n) \<and>
     (\<forall>lid. tomb = Some lid \<or> (\<exists>p \<in> set q. pn_kind p = Tombstone lid) \<longrightarrow>
        (\<forall>p \<in> set q. pn_kind p \<noteq> CurrentState lid))"

definition sched_wf :: "'d sched \<Rightarrow> bool" where
  "sched_wf s \<longleftrightarrow> distinct (ss_records s) \<and> (\<forall>r. ss_queue s r \<noteq> [] \<longrightarrow> r \<in> set (ss_records s)) \<and>
     (\<forall>r. queue_wf (ss_seq s) (ss_in_flight_tombstone s r) (ss_queue s r)) \<and>
     (\<forall>r. ss_in_flight_tombstone s r \<noteq> None \<longrightarrow> r \<in> ss_in_flight s)"

lemma dominated_iff:
  "dominated lid r s \<longleftrightarrow> ss_in_flight_tombstone s r = Some lid \<or> (\<exists>p \<in> set (ss_queue s r). pn_kind p = Tombstone lid)"
proof -
  have "is_tombstone k \<and> logical_id k = Some lid \<longleftrightarrow> k = Tombstone lid" for k by (cases k) auto
  then show ?thesis by (auto simp: dominated_def list_ex_iff)
qed

lemma sorted_wrt_map_filter: "sorted_wrt R (map f q) \<Longrightarrow> sorted_wrt R (map f (filter P q))"
  by (induction q) auto

lemma queue_wf_filter: "queue_wf n tomb q \<Longrightarrow> queue_wf n tomb (filter P q)"
  by (auto simp: queue_wf_def sorted_wrt_map_filter)

lemma queue_wf_later: "queue_wf n tomb q \<Longrightarrow> n \<le> m \<Longrightarrow> queue_wf m tomb q"
  by (auto simp: queue_wf_def intro: less_le_trans)

lemma keeps_logical: "k = CurrentState lid \<or> k = Tombstone lid \<Longrightarrow> keeps k p \<Longrightarrow> pn_kind p \<noteq> CurrentState lid"
  by (cases "pn_kind p") auto

lemma queue_wf_push:
  assumes "queue_wf n tomb q" "pn_seq p = n"
    and "\<forall>lid. pn_kind p = CurrentState lid \<longrightarrow> \<not> (tomb = Some lid \<or> (\<exists>p \<in> set q. pn_kind p = Tombstone lid))"
  shows "queue_wf (n + 1) tomb (filter (keeps (pn_kind p)) q @ [p])"
proof -
  have f: "queue_wf n tomb (filter (keeps (pn_kind p)) q)" using assms(1) by (rule queue_wf_filter)
  have "pn_kind x \<noteq> CurrentState lid"
    if "tomb = Some lid \<or> (\<exists>y \<in> set (filter (keeps (pn_kind p)) q @ [p]). pn_kind y = Tombstone lid)"
      "x \<in> set (filter (keeps (pn_kind p)) q @ [p])" for x lid
  proof (cases "tomb = Some lid \<or> (\<exists>y \<in> set q. pn_kind y = Tombstone lid)")
    case True
    with assms(1) have "\<forall>x \<in> set q. pn_kind x \<noteq> CurrentState lid" unfolding queue_wf_def by blast
    moreover have "pn_kind p \<noteq> CurrentState lid" using True assms(3) by blast
    ultimately show ?thesis using that(2) by auto
  next
    case False
    with that(1) have "pn_kind p = Tombstone lid" by auto
    with that(2) keeps_logical [of "pn_kind p" lid x] show ?thesis by auto
  qed
  then have t: "\<forall>lid. tomb = Some lid \<or> (\<exists>y \<in> set (filter (keeps (pn_kind p)) q @ [p]). pn_kind y = Tombstone lid) \<longrightarrow>
      (\<forall>x \<in> set (filter (keeps (pn_kind p)) q @ [p]). pn_kind x \<noteq> CurrentState lid)" by blast
  have "sorted_wrt (<) (map pn_seq (filter (keeps (pn_kind p)) q @ [p]))"
    "\<forall>x \<in> set (filter (keeps (pn_kind p)) q @ [p]). pn_seq x < n + 1"
    using f assms(2) unfolding queue_wf_def by (auto simp: sorted_wrt_append less_Suc_eq)
  with t show ?thesis unfolding queue_wf_def by blast
qed

lemma sched_wf_enqueue:
  assumes "sched_wf s" "enqueue now req s = (items, s')"
  shows "sched_wf s'"
  using assms(2)
proof (cases rule: enqueue_cases)
  case dropped
  with assms(1) show ?thesis by (auto simp: sched_wf_def)
next
  case (pushed starved cls)
  let ?p = "\<lparr>pn_seq = ss_seq s, pn_enqueued = now, pn_starved_since = starved, pn_class = cls,
      pn_kind = wr_kind req, pn_deadline = wr_deadline req, pn_item = wr_item req\<rparr>"
  have "queue_wf (ss_seq s + 1) (ss_in_flight_tombstone s (wr_record req))
      (filter (keeps (pn_kind ?p)) (ss_queue s (wr_record req)) @ [?p])"
    using assms(1) pushed(1) by (intro queue_wf_push) (auto simp: sched_wf_def dominated_iff)
  with assms(1) pushed(2) show ?thesis
    by (auto simp: sched_wf_def push_back_def intro: queue_wf_later)
qed

lemma sched_wf_dispatch:
  assumes "sched_wf s" "dispatch r lane s = (Some p, s')"
  shows "sched_wf s'"
proof -
  from assms(2) obtain q where q: "ss_queue s r = p # q" and s': "s' = snd (dispatch r lane s)"
    by (auto simp: dispatch_def split: if_splits list.splits)
  have w: "queue_wf (ss_seq s) (ss_in_flight_tombstone s r) (p # q)" using assms(1) q by (metis sched_wf_def)
  have "queue_wf (ss_seq s) (case pn_kind p of Tombstone lid \<Rightarrow> Some lid | _ \<Rightarrow> ss_in_flight_tombstone s r) q"
    using w by (auto simp: queue_wf_def split: write_kind.split)
  with assms q show ?thesis
    by (auto simp: sched_wf_def dispatch_def distinct_removeAll split: if_splits write_kind.splits)
qed

lemma sched_wf_done: "sched_wf s \<Longrightarrow> sched_wf (on_done r lane ms s)"
  by (auto simp: sched_wf_def on_done_def Let_def queue_wf_def)

lemma sched_wf_shed: "sched_wf s \<Longrightarrow> sched_wf (shed s)"
  unfolding sched_wf_def shed_def by (simp add: queue_wf_filter) (metis filter.simps(1))

section \<open>The driver's run\<close>

text \<open>
  The driver task as a machine: a request arrives, a dispatched write completes, a timer fires, the
  shutdown begins. After the shutdown no request is taken. Beside the state the run keeps which lane each
  write in flight drew (the tag its \<open>Done\<close> carries), the log of what was handed to the sink and what
  was acknowledged (with the sequence counter at that time), the requests taken, and the items whose reply
  was resolved without a write.
\<close>

datatype 'd sched_log = LSent record_id "'d pending" dispatch_lane | LAcked record_id nat

datatype 'd sched_event =
    EvEnqueue nat "'d write_request" | EvDone nat record_id nat | EvTimer nat | EvShutdown

record 'd sched_run =
  sr_s :: "'d sched"
  sr_lane :: "record_id \<Rightarrow> dispatch_lane option"
  sr_log :: "'d sched_log list"
  sr_submitted :: "'d write_request list"
  sr_superseded :: "'d list"
  sr_closing :: bool

definition run_new :: "scheduler_config \<Rightarrow> 'd sched_run" where
  "run_new cfg = \<lparr>sr_s = sched_new cfg, sr_lane = (\<lambda>_. None), sr_log = [], sr_submitted = [],
     sr_superseded = [], sr_closing = False\<rparr>"

definition lanes_after ::
  "(record_id \<times> 'd pending \<times> dispatch_lane) list \<Rightarrow> (record_id \<Rightarrow> dispatch_lane option) \<Rightarrow> record_id \<Rightarrow> dispatch_lane option" where
  "lanes_after sent f = fold (\<lambda>(r, p, l) f. f(r \<mapsto> l)) sent f"

definition sent_log :: "(record_id \<times> 'd pending \<times> dispatch_lane) list \<Rightarrow> 'd sched_log list" where
  "sent_log sent = map (\<lambda>(r, p, l). LSent r p l) sent"

definition hand_out ::
  "(record_id \<times> 'd pending \<times> dispatch_lane) list \<times> 'd sched \<Rightarrow> 'd sched_run \<Rightarrow> 'd sched_run" where
  "hand_out x w = w\<lparr>sr_s := snd x, sr_lane := lanes_after (fst x) (sr_lane w), sr_log := sr_log w @ sent_log (fst x)\<rparr>"

fun sched_step :: "'d sched_event \<Rightarrow> 'd sched_run \<Rightarrow> 'd sched_run" where
  "sched_step (EvEnqueue now req) w =
    (if sr_closing w then w
     else case enqueue now req (sr_s w) of (items, s) \<Rightarrow>
       hand_out (try_dispatch now s)
         (w\<lparr>sr_submitted := sr_submitted w @ [req], sr_superseded := sr_superseded w @ items\<rparr>))"
| "sched_step (EvDone now r ms) w =
    (case sr_lane w r of None \<Rightarrow> w
     | Some lane \<Rightarrow>
       let s = on_done r lane ms (sr_s w);
           w1 = w\<lparr>sr_lane := (sr_lane w)(r := None), sr_log := sr_log w @ [LAcked r (ss_seq s)]\<rparr>
       in hand_out (if sr_closing w then drain_for_shutdown s else try_dispatch now s) w1)"
| "sched_step (EvTimer now) w =
    (if sr_closing w then w else hand_out (try_dispatch now (sr_s w)) w)"
| "sched_step EvShutdown w =
    (if sr_closing w then w else hand_out (drain_for_shutdown (sr_s w)) (w\<lparr>sr_closing := True\<rparr>))"

section \<open>The dispatch loop\<close>

declare dispatch_loop.simps [simp del]

lemma min_by_key_in: "min_by_key f xs = Some x \<Longrightarrow> x \<in> set xs"
  by (induction xs arbitrary: x) (auto split: option.splits if_splits)

lemma min_by_key_None: "min_by_key f xs = None \<longleftrightarrow> xs = []"
  by (cases xs) (auto split: option.splits)

lemma min_by_key_least: "min_by_key f xs = Some x \<Longrightarrow> y \<in> set xs \<Longrightarrow> f x \<le> f y"
  by (induction xs arbitrary: x y) (fastforce simp: min_by_key_None split: option.splits if_splits)+

lemma ready_iff: "r \<in> set (ready s) \<longleftrightarrow> r \<in> set (ss_records s) \<and> idle s r \<and> ss_queue s r \<noteq> []"
  by (simp add: ready_def)

lemma dispatch_ready:
  assumes "r \<in> set (ready s)"
  obtains p s' where "dispatch r l s = (Some p, s')"
  using assms by (cases "ss_queue s r") (auto simp: ready_iff dispatch_def)

locale dispatcher =
  fixes pick :: "'d sched \<Rightarrow> (record_id \<times> dispatch_lane) option"
  assumes pick_ready: "pick s = Some (r, l) \<Longrightarrow> r \<in> set (ready s)"
begin

lemma loop_unfold:
  "dispatch_loop pick s = (case pick s of None \<Rightarrow> ([], s)
     | Some (r, l) \<Rightarrow> let (p, s') = dispatch r l s; (sent, s'') = dispatch_loop pick s' in ((r, the p, l) # sent, s''))"
proof (cases "pick s")
  case (Some x)
  obtain r l where x: "x = (r, l)" by fastforce
  obtain p s' where "dispatch r l s = (Some p, s')" using dispatch_ready [OF pick_ready, of s r l] Some x by blast
  with Some x show ?thesis by (subst dispatch_loop.simps) (simp split: prod.split)
qed (subst dispatch_loop.simps, simp)

lemma loop_ends: "pick (snd (dispatch_loop pick s)) = None"
proof (induction s rule: measure_induct_rule [of total_queued])
  case (less s)
  show ?case
  proof (cases "pick s")
    case (Some x)
    obtain r l where x: "x = (r, l)" by fastforce
    obtain p s' where d: "dispatch r l s = (Some p, s')" using dispatch_ready [OF pick_ready, of s r l] Some x by blast
    have "snd (dispatch_loop pick s) = snd (dispatch_loop pick s')"
      using Some x d by (subst loop_unfold) (simp split: prod.split)
    with less [OF dispatch_shrinks [OF d]] show ?thesis by simp
  qed (subst loop_unfold, simp)
qed

lemma loop_keeps:
  assumes "P s lane log"
    and step: "\<And>s lane log r l p s'. P s lane log \<Longrightarrow> pick s = Some (r, l) \<Longrightarrow> dispatch r l s = (Some p, s') \<Longrightarrow>
      P s' (lane(r \<mapsto> l)) (log @ [LSent r p l])"
  shows "P (snd (dispatch_loop pick s)) (lanes_after (fst (dispatch_loop pick s)) lane)
    (log @ sent_log (fst (dispatch_loop pick s)))"
  using assms(1)
proof (induction s arbitrary: lane log rule: measure_induct_rule [of total_queued])
  case (less s)
  show ?case
  proof (cases "pick s")
    case None
    then have "dispatch_loop pick s = ([], s)" by (subst loop_unfold) simp
    with less.prems show ?thesis by (simp add: lanes_after_def sent_log_def)
  next
    case (Some x)
    obtain r l where x: "x = (r, l)" by fastforce
    obtain p s' where d: "dispatch r l s = (Some p, s')" using dispatch_ready [OF pick_ready, of s r l] Some x by blast
    obtain sent s'' where l: "dispatch_loop pick s' = (sent, s'')" by fastforce
    have "dispatch_loop pick s = ((r, p, l) # sent, s'')"
      using Some x d l by (subst loop_unfold) simp
    with less.IH [OF dispatch_shrinks [OF d] step [OF less.prems _ d]] Some x l show ?thesis
      by (simp add: lanes_after_def sent_log_def del: fun_upd_apply)
  qed
qed

end

lemma pick_floor_ready: "pick_floor now s = Some r \<Longrightarrow> r \<in> set (ready s) \<and> pn_class (head s r) \<noteq> Chat"
  by (auto simp: pick_floor_def deadline_due_def floor_aged_def dest!: min_by_key_in split: option.splits)

lemma pick_chat_ready_ready: "pick_chat_ready s = Some r \<Longrightarrow> r \<in> set (ready s) \<and> pn_class (head s r) = Chat"
  by (auto simp: pick_chat_ready_def dest!: min_by_key_in)

lemma pick_best_nonchat_ready: "pick_best_nonchat now s = Some r \<Longrightarrow> r \<in> set (ready s) \<and> pn_class (head s r) \<noteq> Chat"
  by (auto simp: pick_best_nonchat_def dest!: min_by_key_in)

interpretation write_lanes: dispatcher "pick_lane now" for now :: nat
  by unfold_locales
    (auto simp: pick_lane_def Let_def dest: pick_floor_ready pick_chat_ready_ready pick_best_nonchat_ready
      split: option.splits if_splits)

interpretation flush_lane: dispatcher pick_flush
  by unfold_locales (auto simp: pick_flush_def dest: min_by_key_in)

section \<open>The run's invariant\<close>

definition sent_of :: "record_id \<Rightarrow> 'd sched_log list \<Rightarrow> 'd pending list" where
  "sent_of r log = concat (map (\<lambda>e. case e of LSent r' p l \<Rightarrow> if r' = r then [p] else [] | LAcked _ _ \<Rightarrow> []) log)"

lemma sent_of_simps [simp]:
  "sent_of r [] = []" "sent_of r (xs @ ys) = sent_of r xs @ sent_of r ys"
  "sent_of r (LSent r' p l # log) = (if r' = r then p # sent_of r log else sent_of r log)"
  "sent_of r (LAcked r' n # log) = sent_of r log"
  by (simp_all add: sent_of_def)

text \<open>One write in flight per record, and the counters count the lanes.\<close>

definition lanes_ok :: "'d sched \<Rightarrow> (record_id \<Rightarrow> dispatch_lane option) \<Rightarrow> bool" where
  "lanes_ok s lane \<longleftrightarrow> ss_in_flight s = dom lane \<and> finite (dom lane) \<and>
     ss_window_in_flight s = card {r. lane r = Some LWindow} \<and>
     ss_floor_in_flight s = card {r. lane r = Some LFloor}"

text \<open>Each record's writes were handed out in the order they were taken.\<close>

definition fifo_ok :: "'d sched \<Rightarrow> 'd sched_log list \<Rightarrow> bool" where
  "fifo_ok s log \<longleftrightarrow> (\<forall>r. sorted_wrt (<) (map pn_seq (sent_of r log @ ss_queue s r)) \<and>
     (\<forall>p \<in> set (sent_of r log). pn_seq p < ss_seq s) \<and> (\<forall>n. LAcked r n \<in> set log \<longrightarrow> n \<le> ss_seq s))"

text \<open>What is between a withdraw and a later write of the same id.\<close>

definition withdrawn_ok :: "'d sched \<Rightarrow> 'd sched_log list \<Rightarrow> bool" where
  "withdrawn_ok s log \<longleftrightarrow> (\<forall>r lid xs p l ys. log = xs @ LSent r p l # ys \<longrightarrow> pn_kind p = Tombstone lid \<longrightarrow>
     (ss_in_flight_tombstone s r = Some lid \<and> sent_of r ys = [] \<and> (\<forall>n. LAcked r n \<notin> set ys)) \<or>
     (\<exists>n. LAcked r n \<in> set ys \<and> (\<forall>q \<in> set (ss_queue s r @ sent_of r ys). pn_kind q = CurrentState lid \<longrightarrow> n \<le> pn_seq q)))"

text \<open>A record's next write is handed out only after its last one was acknowledged.\<close>

definition flight_ok :: "'d sched \<Rightarrow> 'd sched_log list \<Rightarrow> bool" where
  "flight_ok s log \<longleftrightarrow> (\<forall>r xs p l ys. log = xs @ LSent r p l # ys \<longrightarrow> (\<forall>n. LAcked r n \<notin> set ys) \<longrightarrow>
     r \<in> ss_in_flight s \<and> sent_of r ys = [])"

text \<open>The ring writes of the classes \<open>C\<close>: what was taken is what was handed out and what is queued.\<close>

definition ring_taken :: "(write_class \<Rightarrow> bool) \<Rightarrow> record_id \<Rightarrow> 'd write_request list \<Rightarrow> 'd list" where
  "ring_taken C r reqs = map wr_item (filter (\<lambda>q. wr_record q = r \<and> wr_kind q = Ring \<and> C (wr_class q)) reqs)"

definition rings :: "(write_class \<Rightarrow> bool) \<Rightarrow> 'd pending list \<Rightarrow> 'd list" where
  "rings C ps = map pn_item (filter (\<lambda>p. pn_kind p = Ring \<and> C (pn_class p)) ps)"

definition ring_ok :: "(write_class \<Rightarrow> bool) \<Rightarrow> 'd sched \<Rightarrow> 'd sched_log list \<Rightarrow> 'd write_request list \<Rightarrow> bool" where
  "ring_ok C s log reqs \<longleftrightarrow> (\<forall>r. ring_taken C r reqs = rings C (sent_of r log @ ss_queue s r))"

definition caps_ok :: "'d sched \<Rightarrow> bool" where
  "caps_ok s \<longleftrightarrow> ss_window_in_flight s \<le> sc_nonchat_cap (ss_cfg s) \<and> ss_floor_in_flight s \<le> 1"

definition run_ok :: "'d sched_run \<Rightarrow> bool" where
  "run_ok w \<longleftrightarrow> sched_wf (sr_s w) \<and> lanes_ok (sr_s w) (sr_lane w) \<and> fifo_ok (sr_s w) (sr_log w) \<and>
     withdrawn_ok (sr_s w) (sr_log w) \<and> flight_ok (sr_s w) (sr_log w) \<and> ring_ok (\<lambda>c. c = Chat) (sr_s w) (sr_log w) (sr_submitted w) \<and>
     (\<not> sr_closing w \<longrightarrow> ring_ok (\<lambda>_. True) (sr_s w) (sr_log w) (sr_submitted w) \<and> caps_ok (sr_s w))"

section \<open>Every operation keeps it\<close>

lemma dispatchE:
  assumes "dispatch r l s = (Some p, s')"
  obtains q where "ss_queue s r = p # q" "ss_queue s' = (ss_queue s)(r := q)" "ss_in_flight s' = insert r (ss_in_flight s)"
    "ss_in_flight_tombstone s' = (case pn_kind p of Tombstone lid \<Rightarrow> (ss_in_flight_tombstone s)(r \<mapsto> lid) | _ \<Rightarrow> ss_in_flight_tombstone s)"
    "ss_window_in_flight s' = ss_window_in_flight s + (if l = LWindow then 1 else 0)"
    "ss_floor_in_flight s' = ss_floor_in_flight s + (if l = LFloor then 1 else 0)"
    "ss_seq s' = ss_seq s" "ss_cfg s' = ss_cfg s"
  using assms by (auto simp: dispatch_def split: if_splits list.splits)

lemma card_lane_insert:
  assumes "r \<notin> dom lane" "finite (dom lane)"
  shows "card {x. (lane(r \<mapsto> l)) x = Some k} = card {x. lane x = Some k} + (if l = k then 1 else 0)"
proof -
  have "{x. (lane(r \<mapsto> l)) x = Some k} = (if l = k then insert r {x. lane x = Some k} else {x. lane x = Some k})"
    using assms(1) by auto
  moreover have "finite {x. lane x = Some k}" by (rule finite_subset [OF _ assms(2)]) auto
  moreover have "r \<notin> {x. lane x = Some k}" using assms(1) by auto
  ultimately show ?thesis by simp
qed

lemma card_lane_remove:
  assumes "lane r = Some l" "finite (dom lane)"
  shows "card {x. (lane(r := None)) x = Some k} = card {x. lane x = Some k} - (if l = k then 1 else 0)"
proof -
  have "{x. (lane(r := None)) x = Some k} = (if l = k then {x. lane x = Some k} - {r} else {x. lane x = Some k})"
    using assms(1) by auto
  moreover have "l = k \<Longrightarrow> r \<in> {x. lane x = Some k}" using assms(1) by auto
  ultimately show ?thesis by (simp add: card_Diff_singleton_if)
qed

lemma lanes_ok_dispatch:
  assumes "lanes_ok s lane" "idle s r" "dispatch r l s = (Some p, s')"
  shows "lanes_ok s' (lane(r \<mapsto> l))"
  using assms(3)
proof (rule dispatchE)
  have r: "r \<notin> dom lane" "finite (dom lane)" using assms(1,2) by (auto simp: lanes_ok_def idle_def)
  assume "ss_in_flight s' = insert r (ss_in_flight s)"
    "ss_window_in_flight s' = ss_window_in_flight s + (if l = LWindow then 1 else 0)"
    "ss_floor_in_flight s' = ss_floor_in_flight s + (if l = LFloor then 1 else 0)"
  with assms(1) card_lane_insert [OF r] show ?thesis by (simp add: lanes_ok_def)
qed

lemma lanes_ok_done:
  assumes "lanes_ok s lane" "lane r = Some l"
  shows "lanes_ok (on_done r l ms s) (lane(r := None))"
  using assms card_lane_remove [of lane r l LWindow] card_lane_remove [of lane r l LFloor]
  by (auto simp: lanes_ok_def on_done_def Let_def)

lemma fifo_ok_dispatch:
  assumes "fifo_ok s log" "sched_wf s" "dispatch r l s = (Some p, s')"
  shows "fifo_ok s' (log @ [LSent r p l])"
  using assms(3)
proof (rule dispatchE)
  fix q assume q: "ss_queue s r = p # q" "ss_queue s' = (ss_queue s)(r := q)" "ss_seq s' = ss_seq s"
  have "pn_seq p < ss_seq s" using assms(2) q(1) unfolding sched_wf_def queue_wf_def by (metis list.set_intros(1))
  with assms(1) q show ?thesis by (auto simp: fifo_ok_def) (metis append.assoc append_Cons append_Nil list.simps(9) map_append)+
qed

lemma ring_ok_dispatch:
  assumes "ring_ok C s log reqs" "dispatch r l s = (Some p, s')"
  shows "ring_ok C s' (log @ [LSent r p l]) reqs"
  using assms(2) by (rule dispatchE) (use assms(1) in \<open>auto simp: ring_ok_def rings_def\<close>)

lemma last_split:
  "log @ [e] = xs @ x # ys \<longleftrightarrow> (ys = [] \<and> xs = log \<and> x = e) \<or> (\<exists>ys'. ys = ys' @ [e] \<and> log = xs @ x # ys')"
  by (cases ys rule: rev_cases) auto

lemma withdrawn_ok_dispatch:
  assumes w: "withdrawn_ok s log" and wf: "sched_wf s" and i: "idle s r" and d: "dispatch r l s = (Some p, s')"
  shows "withdrawn_ok s' (log @ [LSent r p l])"
  unfolding withdrawn_ok_def
proof (intro allI impI)
  fix r0 lid xs p0 l0 ys
  assume e: "log @ [LSent r p l] = xs @ LSent r0 p0 l0 # ys" and k: "pn_kind p0 = Tombstone lid"
  from d obtain q where q: "ss_queue s r = p # q" "ss_queue s' = (ss_queue s)(r := q)"
    "ss_in_flight_tombstone s' = (case pn_kind p of Tombstone lid \<Rightarrow> (ss_in_flight_tombstone s)(r \<mapsto> lid) | _ \<Rightarrow> ss_in_flight_tombstone s)"
    by (rule dispatchE)
  from e consider "ys = []" "r0 = r" "p0 = p" | ys' where "ys = ys' @ [LSent r p l]" "log = xs @ LSent r0 p0 l0 # ys'"
    by (auto simp: last_split)
  then show "ss_in_flight_tombstone s' r0 = Some lid \<and> sent_of r0 ys = [] \<and> (\<forall>n. LAcked r0 n \<notin> set ys) \<or>
     (\<exists>n. LAcked r0 n \<in> set ys \<and> (\<forall>q \<in> set (ss_queue s' r0 @ sent_of r0 ys). pn_kind q = CurrentState lid \<longrightarrow> n \<le> pn_seq q))"
  proof cases
    case 1
    with k q show ?thesis by simp
  next
    case (2 ys')
    from w 2(2) k have "(ss_in_flight_tombstone s r0 = Some lid \<and> sent_of r0 ys' = [] \<and> (\<forall>n. LAcked r0 n \<notin> set ys')) \<or>
       (\<exists>n. LAcked r0 n \<in> set ys' \<and> (\<forall>q \<in> set (ss_queue s r0 @ sent_of r0 ys'). pn_kind q = CurrentState lid \<longrightarrow> n \<le> pn_seq q))"
      unfolding withdrawn_ok_def by blast
    then show ?thesis
    proof
      assume a: "ss_in_flight_tombstone s r0 = Some lid \<and> sent_of r0 ys' = [] \<and> (\<forall>n. LAcked r0 n \<notin> set ys')"
      with wf i have "r0 \<noteq> r" unfolding sched_wf_def idle_def by auto
      with a q 2(1) show ?thesis by (auto split: write_kind.split)
    next
      assume "\<exists>n. LAcked r0 n \<in> set ys' \<and> (\<forall>q \<in> set (ss_queue s r0 @ sent_of r0 ys'). pn_kind q = CurrentState lid \<longrightarrow> n \<le> pn_seq q)"
      with q 2(1) show ?thesis by (auto split: if_splits)
    qed
  qed
qed

lemma withdrawn_ok_done:
  assumes w: "withdrawn_ok s log" and wf: "sched_wf s"
  shows "withdrawn_ok (on_done r lane ms s) (log @ [LAcked r (ss_seq s)])"
  unfolding withdrawn_ok_def
proof (intro allI impI)
  let ?s = "on_done r lane ms s"
  fix r0 lid xs p0 l0 ys
  assume "log @ [LAcked r (ss_seq s)] = xs @ LSent r0 p0 l0 # ys" and k: "pn_kind p0 = Tombstone lid"
  then obtain ys' where y: "ys = ys' @ [LAcked r (ss_seq s)]" "log = xs @ LSent r0 p0 l0 # ys'"
    by (auto simp: last_split)
  have q: "ss_queue ?s = ss_queue s" "ss_in_flight_tombstone ?s = (ss_in_flight_tombstone s)(r := None)"
    by (simp_all add: on_done_def Let_def)
  from w y(2) k have "(ss_in_flight_tombstone s r0 = Some lid \<and> sent_of r0 ys' = [] \<and> (\<forall>n. LAcked r0 n \<notin> set ys')) \<or>
     (\<exists>n. LAcked r0 n \<in> set ys' \<and> (\<forall>q \<in> set (ss_queue s r0 @ sent_of r0 ys'). pn_kind q = CurrentState lid \<longrightarrow> n \<le> pn_seq q))"
    unfolding withdrawn_ok_def by blast
  then show "ss_in_flight_tombstone ?s r0 = Some lid \<and> sent_of r0 ys = [] \<and> (\<forall>n. LAcked r0 n \<notin> set ys) \<or>
     (\<exists>n. LAcked r0 n \<in> set ys \<and> (\<forall>q \<in> set (ss_queue ?s r0 @ sent_of r0 ys). pn_kind q = CurrentState lid \<longrightarrow> n \<le> pn_seq q))"
  proof
    assume a: "ss_in_flight_tombstone s r0 = Some lid \<and> sent_of r0 ys' = [] \<and> (\<forall>n. LAcked r0 n \<notin> set ys')"
    show ?thesis
    proof (cases "r0 = r")
      case True
      have "\<forall>q \<in> set (ss_queue s r0). pn_kind q \<noteq> CurrentState lid"
        using wf a unfolding sched_wf_def queue_wf_def by blast
      with True a y(1) q(1) show ?thesis by auto
    next
      case False
      with a y(1) q show ?thesis by auto
    qed
  next
    assume "\<exists>n. LAcked r0 n \<in> set ys' \<and> (\<forall>q \<in> set (ss_queue s r0 @ sent_of r0 ys'). pn_kind q = CurrentState lid \<longrightarrow> n \<le> pn_seq q)"
    with y(1) q(1) show ?thesis by auto
  qed
qed

lemma withdrawn_ok_queue:
  assumes "withdrawn_ok s log" "ss_in_flight_tombstone s' = ss_in_flight_tombstone s"
    and "\<forall>r. \<forall>q \<in> set (ss_queue s' r). q \<in> set (ss_queue s r) \<or> (\<forall>n. LAcked r n \<in> set log \<longrightarrow> n \<le> pn_seq q)"
  shows "withdrawn_ok s' log"
  unfolding withdrawn_ok_def
proof (intro allI impI)
  fix r lid xs p l ys
  assume e: "log = xs @ LSent r p l # ys" and k: "pn_kind p = Tombstone lid"
  from assms(1) e k have "(ss_in_flight_tombstone s r = Some lid \<and> sent_of r ys = [] \<and> (\<forall>n. LAcked r n \<notin> set ys)) \<or>
     (\<exists>n. LAcked r n \<in> set ys \<and> (\<forall>q \<in> set (ss_queue s r @ sent_of r ys). pn_kind q = CurrentState lid \<longrightarrow> n \<le> pn_seq q))"
    unfolding withdrawn_ok_def by blast
  then show "ss_in_flight_tombstone s' r = Some lid \<and> sent_of r ys = [] \<and> (\<forall>n. LAcked r n \<notin> set ys) \<or>
     (\<exists>n. LAcked r n \<in> set ys \<and> (\<forall>q \<in> set (ss_queue s' r @ sent_of r ys). pn_kind q = CurrentState lid \<longrightarrow> n \<le> pn_seq q))"
  proof
    assume "\<exists>n. LAcked r n \<in> set ys \<and> (\<forall>q \<in> set (ss_queue s r @ sent_of r ys). pn_kind q = CurrentState lid \<longrightarrow> n \<le> pn_seq q)"
    then obtain n where n: "LAcked r n \<in> set ys"
      "\<forall>q \<in> set (ss_queue s r @ sent_of r ys). pn_kind q = CurrentState lid \<longrightarrow> n \<le> pn_seq q" by blast
    from n(1) e have "LAcked r n \<in> set log" by simp
    with n assms(3) have "\<forall>q \<in> set (ss_queue s' r @ sent_of r ys). pn_kind q = CurrentState lid \<longrightarrow> n \<le> pn_seq q"
      by (metis Un_iff set_append)
    with n(1) show ?thesis by blast
  qed (simp add: assms(2))
qed

lemma fifo_seq_bound: "fifo_ok s log \<Longrightarrow> sched_wf s \<Longrightarrow> p \<in> set (sent_of r log @ ss_queue s r) \<Longrightarrow> pn_seq p < ss_seq s"
  unfolding fifo_ok_def sched_wf_def queue_wf_def by auto

lemma rings_keeps: "rings C (filter (keeps k) q) = rings C q"
  by (induction q) (cases k; auto simp: rings_def)+

text \<open>What \<open>enqueue\<close> keeps, as one bundle of facts about the state it leaves.\<close>

lemma enqueue_keeps:
  assumes wf: "sched_wf s" and e: "enqueue now req s = (items, s')"
  shows "lanes_ok s lane \<Longrightarrow> lanes_ok s' lane"
    and "fifo_ok s log \<Longrightarrow> fifo_ok s' log"
    and "fifo_ok s log \<Longrightarrow> withdrawn_ok s log \<Longrightarrow> withdrawn_ok s' log"
    and "ring_ok C s log reqs \<Longrightarrow> ring_ok C s' log (reqs @ [req])"
    and "caps_ok s \<Longrightarrow> caps_ok s'"
proof -
  from e have "(lanes_ok s lane \<longrightarrow> lanes_ok s' lane) \<and> (caps_ok s \<longrightarrow> caps_ok s')"
    by (cases rule: enqueue_cases) (auto simp: lanes_ok_def caps_ok_def push_back_def)
  then show "lanes_ok s lane \<Longrightarrow> lanes_ok s' lane" "caps_ok s \<Longrightarrow> caps_ok s'" by blast+
  show "fifo_ok s' log" if f: "fifo_ok s log"
    using e
  proof (cases rule: enqueue_cases)
    case dropped
    with f show ?thesis by (simp add: fifo_ok_def)
  next
    case (pushed starved cls)
    have "sorted_wrt (<) (map pn_seq (sent_of r log @ filter P (ss_queue s r)))" for r P
      using f unfolding fifo_ok_def by (auto simp: sorted_wrt_append sorted_wrt_map_filter)
    moreover have "\<forall>p \<in> set (sent_of r log @ filter P (ss_queue s r)). pn_seq p < ss_seq s" for r P
      using fifo_seq_bound [OF f wf] by auto
    moreover have "sorted_wrt (<) (map pn_seq xs @ [n])" if "sorted_wrt (<) (map pn_seq xs)" "\<forall>p \<in> set xs. pn_seq p < n"
      for xs :: "'a pending list" and n using that by (simp add: sorted_wrt_append)
    ultimately have "sorted_wrt (<) (map pn_seq (sent_of r log @ filter P (ss_queue s r)) @ [ss_seq s])" for r P
      by blast
    moreover have "map pn_seq (sent_of r log @ ss_queue s' r) =
        (if r = wr_record req then map pn_seq (sent_of r log @ filter (keeps (wr_kind req)) (ss_queue s r)) @ [ss_seq s]
         else map pn_seq (sent_of r log @ ss_queue s r))" for r
      by (simp add: pushed(2) push_back_def)
    moreover have "ss_seq s' = ss_seq s + 1" by (simp add: pushed(2) push_back_def)
    ultimately show ?thesis using f unfolding fifo_ok_def
      by (auto simp del: map_append intro: less_SucI le_SucI)
  qed
  show "withdrawn_ok s' log" if f: "fifo_ok s log" and w: "withdrawn_ok s log"
    using e
  proof (cases rule: enqueue_cases)
    case dropped
    with w show ?thesis by (simp add: withdrawn_ok_def)
  next
    case (pushed starved cls)
    with f show ?thesis
      by (intro withdrawn_ok_queue [OF w]) (auto simp: push_back_def fifo_ok_def)
  qed
  show "ring_ok C s' log (reqs @ [req])" if r: "ring_ok C s log reqs"
    using e
  proof (cases rule: enqueue_cases)
    case dropped
    with r show ?thesis by (simp add: ring_ok_def ring_taken_def)
  next
    case (pushed starved cls)
    have "rings C (sent_of x log @ ss_queue s' x) = rings C (sent_of x log @ ss_queue s x) @
        (if x = wr_record req \<and> wr_kind req = Ring \<and> C (wr_class req) then [wr_item req] else [])" for x
      using rings_keeps [of C "wr_kind req" "ss_queue s (wr_record req)"] pushed(2,5)
      by (auto simp: push_back_def rings_def)
    with r show ?thesis by (simp add: ring_ok_def ring_taken_def)
  qed
qed

lemma flight_ok_dispatch:
  assumes "flight_ok s log" "idle s r" "dispatch r l s = (Some p, s')"
  shows "flight_ok s' (log @ [LSent r p l])"
  unfolding flight_ok_def
proof (intro allI impI)
  fix r0 xs p0 l0 ys
  assume e: "log @ [LSent r p l] = xs @ LSent r0 p0 l0 # ys" and n: "\<forall>n. LAcked r0 n \<notin> set ys"
  have i: "ss_in_flight s' = insert r (ss_in_flight s)" using assms(3) by (rule dispatchE)
  from e consider "ys = []" "r0 = r" | ys' where "ys = ys' @ [LSent r p l]" "log = xs @ LSent r0 p0 l0 # ys'"
    by (auto simp: last_split)
  then show "r0 \<in> ss_in_flight s' \<and> sent_of r0 ys = []"
  proof cases
    case (2 ys')
    with n assms(1) have "r0 \<in> ss_in_flight s \<and> sent_of r0 ys' = []" unfolding flight_ok_def by auto
    with assms(2) i 2(1) show ?thesis by (auto simp: idle_def)
  qed (simp add: i)
qed

lemma flight_ok_done:
  assumes "flight_ok s log"
  shows "flight_ok (on_done r lane ms s) (log @ [LAcked r (ss_seq s)])"
  unfolding flight_ok_def
proof (intro allI impI)
  fix r0 xs p0 l0 ys
  assume "log @ [LAcked r (ss_seq s)] = xs @ LSent r0 p0 l0 # ys" and n: "\<forall>n. LAcked r0 n \<notin> set ys"
  then obtain ys' where "ys = ys' @ [LAcked r (ss_seq s)]" "log = xs @ LSent r0 p0 l0 # ys'"
    by (auto simp: last_split)
  with n assms show "r0 \<in> ss_in_flight (on_done r lane ms s) \<and> sent_of r0 ys = []"
    unfolding flight_ok_def by (auto simp: on_done_def Let_def)
qed

lemma flight_ok_queue: "flight_ok s log \<Longrightarrow> ss_in_flight s' = ss_in_flight s \<Longrightarrow> flight_ok s' log"
  by (simp add: flight_ok_def)

lemma enqueue_in_flight: "enqueue now req s = (items, s') \<Longrightarrow> ss_in_flight s' = ss_in_flight s"
  by (erule enqueue_cases) (simp_all add: push_back_def)

lemma done_keeps:
  assumes wf: "sched_wf s"
  shows "fifo_ok s log \<Longrightarrow> fifo_ok (on_done r lane ms s) (log @ [LAcked r (ss_seq s)])"
    and "ring_ok C s log reqs \<Longrightarrow> ring_ok C (on_done r lane ms s) (log @ [LAcked r (ss_seq s)]) reqs"
    and "caps_ok s \<Longrightarrow> caps_ok (on_done r lane ms s)"
  by (auto simp: fifo_ok_def ring_ok_def caps_ok_def on_done_def Let_def)

lemma shed_keeps:
  assumes wf: "sched_wf s"
  shows "lanes_ok s lane \<Longrightarrow> lanes_ok (shed s) lane"
    and "fifo_ok s log \<Longrightarrow> fifo_ok (shed s) log"
    and "withdrawn_ok s log \<Longrightarrow> withdrawn_ok (shed s) log"
    and "ring_ok (\<lambda>c. c = Chat) s log reqs \<Longrightarrow> ring_ok (\<lambda>c. c = Chat) (shed s) log reqs"
proof -
  show "lanes_ok s lane \<Longrightarrow> lanes_ok (shed s) lane" by (simp add: lanes_ok_def shed_def)
  show "fifo_ok s log \<Longrightarrow> fifo_ok (shed s) log"
    by (auto simp: fifo_ok_def shed_def sorted_wrt_append sorted_wrt_map_filter)
  show "withdrawn_ok s log \<Longrightarrow> withdrawn_ok (shed s) log"
    by (erule withdrawn_ok_queue) (auto simp: shed_def)
  have "rings (\<lambda>c. c = Chat) (filter flushable q) = rings (\<lambda>c. c = Chat) q" for q :: "'a pending list"
    by (induction q) (auto simp: rings_def flushable_def)
  then show "ring_ok (\<lambda>c. c = Chat) s log reqs \<Longrightarrow> ring_ok (\<lambda>c. c = Chat) (shed s) log reqs"
    by (simp add: ring_ok_def shed_def) (simp add: rings_def)
qed

section \<open>The machine\<close>

text \<open>What every dispatch keeps, whatever picked it.\<close>

definition core_ok ::
  "'d write_request list \<Rightarrow> 'd sched \<Rightarrow> (record_id \<Rightarrow> dispatch_lane option) \<Rightarrow> 'd sched_log list \<Rightarrow> bool" where
  "core_ok reqs s lane log \<longleftrightarrow> sched_wf s \<and> lanes_ok s lane \<and> fifo_ok s log \<and> withdrawn_ok s log \<and>
     flight_ok s log \<and> ring_ok (\<lambda>c. c = Chat) s log reqs"

lemma core_ok_dispatch:
  assumes "core_ok reqs s lane log" "r \<in> set (ready s)" "dispatch r l s = (Some p, s')"
  shows "core_ok reqs s' (lane(r \<mapsto> l)) (log @ [LSent r p l])"
  using assms sched_wf_dispatch lanes_ok_dispatch fifo_ok_dispatch withdrawn_ok_dispatch flight_ok_dispatch ring_ok_dispatch
  unfolding core_ok_def ready_iff by metis

definition open_ok ::
  "'d write_request list \<Rightarrow> 'd sched \<Rightarrow> (record_id \<Rightarrow> dispatch_lane option) \<Rightarrow> 'd sched_log list \<Rightarrow> bool" where
  "open_ok reqs s lane log \<longleftrightarrow> core_ok reqs s lane log \<and> ring_ok (\<lambda>_. True) s log reqs \<and> caps_ok s"

lemma run_ok_iff:
  "run_ok w \<longleftrightarrow> core_ok (sr_submitted w) (sr_s w) (sr_lane w) (sr_log w) \<and>
     (\<not> sr_closing w \<longrightarrow> open_ok (sr_submitted w) (sr_s w) (sr_lane w) (sr_log w))"
  by (auto simp: run_ok_def core_ok_def open_ok_def)

lemma caps_ok_dispatch:
  assumes "caps_ok s" "pick_lane now s = Some (r, l)" "dispatch r l s = (Some p, s')"
  shows "caps_ok s'"
  using assms(3)
  by (rule dispatchE) (use assms(1,2) in \<open>auto simp: caps_ok_def pick_lane_def Let_def split: option.splits if_splits\<close>)

lemma open_ok_try_dispatch:
  assumes "open_ok reqs s lane log"
  shows "open_ok reqs (snd (try_dispatch now s)) (lanes_after (fst (try_dispatch now s)) lane)
    (log @ sent_log (fst (try_dispatch now s)))"
  unfolding try_dispatch_def
proof (rule write_lanes.loop_keeps [where P = "open_ok reqs"])
  fix s lane log r l p s'
  assume "open_ok reqs s lane log" "pick_lane now s = Some (r, l)" "dispatch r l s = (Some p, s')"
  then show "open_ok reqs s' (lane(r \<mapsto> l)) (log @ [LSent r p l])"
    using core_ok_dispatch write_lanes.pick_ready ring_ok_dispatch caps_ok_dispatch unfolding open_ok_def by metis
qed (rule assms)

lemma core_ok_drain:
  assumes "core_ok reqs s lane log"
  shows "core_ok reqs (snd (drain_for_shutdown s)) (lanes_after (fst (drain_for_shutdown s)) lane)
    (log @ sent_log (fst (drain_for_shutdown s)))"
  unfolding drain_for_shutdown_def
proof (rule flush_lane.loop_keeps [where P = "core_ok reqs"])
  show "core_ok reqs (shed s) lane log"
  proof -
    have "ss_in_flight (shed s) = ss_in_flight s" by (simp add: shed_def)
    with assms sched_wf_shed shed_keeps flight_ok_queue show ?thesis unfolding core_ok_def by metis
  qed
  fix s lane log r l p s'
  assume "core_ok reqs s lane log" "pick_flush s = Some (r, l)" "dispatch r l s = (Some p, s')"
  then show "core_ok reqs s' (lane(r \<mapsto> l)) (log @ [LSent r p l])"
    using core_ok_dispatch flush_lane.pick_ready by metis
qed

lemma enqueue_open_ok:
  assumes "open_ok reqs s lane log" "enqueue now req s = (items, s')"
  shows "open_ok (reqs @ [req]) s' lane log"
proof -
  have wf: "sched_wf s" using assms(1) by (simp add: open_ok_def core_ok_def)
  note k = enqueue_keeps [OF wf assms(2)]
  from assms(1) k sched_wf_enqueue [OF wf assms(2)] flight_ok_queue [OF _ enqueue_in_flight [OF assms(2)]] show ?thesis unfolding open_ok_def core_ok_def by blast
qed

lemma done_core_ok:
  assumes "core_ok reqs s lane log" "lane r = Some l"
  shows "core_ok reqs (on_done r l ms s) (lane(r := None)) (log @ [LAcked r (ss_seq s)])"
  using assms sched_wf_done lanes_ok_done withdrawn_ok_done flight_ok_done done_keeps(1,2) unfolding core_ok_def by metis

lemma done_open_ok:
  assumes "open_ok reqs s lane log" "lane r = Some l"
  shows "open_ok reqs (on_done r l ms s) (lane(r := None)) (log @ [LAcked r (ss_seq s)])"
proof -
  have "sched_wf s" using assms(1) by (simp add: open_ok_def core_ok_def)
  then show ?thesis using assms done_core_ok done_keeps(2,3) unfolding open_ok_def by metis
qed

lemma seq_done: "ss_seq (on_done r l ms s) = ss_seq s"
  by (simp add: on_done_def Let_def)

lemma hand_out_sel [simp]:
  "sr_s (hand_out x w) = snd x" "sr_lane (hand_out x w) = lanes_after (fst x) (sr_lane w)"
  "sr_log (hand_out x w) = sr_log w @ sent_log (fst x)" "sr_submitted (hand_out x w) = sr_submitted w"
  "sr_closing (hand_out x w) = sr_closing w"
  by (simp_all add: hand_out_def)

lemma run_ok_step:
  assumes "run_ok w"
  shows "run_ok (sched_step e w)"
proof (cases e)
  case (EvEnqueue now req)
  obtain items s where q: "enqueue now req (sr_s w) = (items, s)" by fastforce
  show ?thesis
  proof (cases "sr_closing w")
    case False
    with assms have "open_ok (sr_submitted w) (sr_s w) (sr_lane w) (sr_log w)" by (simp add: run_ok_iff)
    from open_ok_try_dispatch [OF enqueue_open_ok [OF this q], of now] show ?thesis
      using False q by (simp add: EvEnqueue run_ok_iff open_ok_def)
  qed (use assms in \<open>simp add: EvEnqueue\<close>)
next
  case (EvDone now r ms)
  show ?thesis
  proof (cases "sr_lane w r")
    case (Some lane)
    let ?s = "on_done r lane ms (sr_s w)"
    show ?thesis
    proof (cases "sr_closing w")
      case True
      have "core_ok (sr_submitted w) (sr_s w) (sr_lane w) (sr_log w)" using assms by (simp add: run_ok_iff)
      from core_ok_drain [OF done_core_ok [OF this Some, of ms]] True Some show ?thesis
        by (simp add: EvDone run_ok_iff Let_def seq_done)
    next
      case False
      with assms have "open_ok (sr_submitted w) (sr_s w) (sr_lane w) (sr_log w)" by (simp add: run_ok_iff)
      from open_ok_try_dispatch [OF done_open_ok [OF this Some, of ms], of now] False Some show ?thesis
        by (simp add: EvDone run_ok_iff Let_def seq_done open_ok_def)
    qed
  qed (use assms in \<open>simp add: EvDone\<close>)
next
  case (EvTimer now)
  show ?thesis
    using assms open_ok_try_dispatch [of "sr_submitted w" "sr_s w" "sr_lane w" "sr_log w" now]
    by (auto simp: EvTimer run_ok_iff open_ok_def)
next
  case EvShutdown
  show ?thesis
    using assms core_ok_drain [of "sr_submitted w" "sr_s w" "sr_lane w" "sr_log w"]
    by (auto simp: EvShutdown run_ok_iff)
qed

lemma run_new_ok: "run_ok (run_new cfg)"
  by (simp add: run_ok_def run_new_def sched_new_def sched_wf_def queue_wf_def lanes_ok_def fifo_ok_def
      withdrawn_ok_def flight_ok_def ring_ok_def ring_taken_def rings_def caps_ok_def dom_def)

interpretation sched_run: machine "\<lambda>w. \<exists>cfg. w = run_new cfg" sched_step run_ok
  by unfold_locales (auto simp: run_new_ok run_ok_step)

end
