(* ===== verification/Scheduler_Spec.thy ===== *)
theory Scheduler_Spec
  imports Scheduler_Run
begin

text \<open>
  What the scheduler promises: work conservation and the wake-up, the shutdown, the latency estimate, and
  the properties of its runs.
\<close>

section \<open>What waits, and until when\<close>

lemma pick_lane_None:
  "pick_lane now s = None \<longleftrightarrow>
    (ss_floor_in_flight s < 1 \<longrightarrow> (\<forall>r \<in> set (ready s). \<not> deadline_due now s r \<and> \<not> floor_aged now s r)) \<and>
    (\<forall>r \<in> set (ready s). pn_class (head s r) \<noteq> Chat) \<and>
    (ss_window_in_flight s < min (distinct_pending_nonchat s) (sc_nonchat_cap (ss_cfg s)) \<longrightarrow> ready s = [])"
  by (auto simp: pick_lane_def pick_floor_def pick_chat_ready_def pick_best_nonchat_def min_by_key_None
      filter_empty_conv Let_def split: option.splits)

lemma distinct_pending_pos:
  assumes "\<forall>r \<in> set (ready s). pn_class (head s r) \<noteq> Chat" "ready s \<noteq> []"
  shows "ss_window_in_flight s < distinct_pending_nonchat s"
proof -
  obtain r where "r \<in> set (ready s)" using assms(2) by (cases "ready s") auto
  moreover from this have "pn_class (head s r) \<noteq> Chat" using assms(1) by blast
  ultimately have "r \<in> set (filter (\<lambda>r. idle s r \<and> (case ss_queue s r of [] \<Rightarrow> False | p # _ \<Rightarrow> pn_class p \<noteq> Chat)) (ss_records s))"
    by (cases "ss_queue s r") (simp_all add: ready_iff head_def)
  then show ?thesis unfolding distinct_pending_nonchat_def by (drule_tac length_pos_if_in_set) simp
qed

text \<open>A state in which nothing can be dispatched.\<close>

definition settled :: "nat \<Rightarrow> 'd sched \<Rightarrow> bool" where
  "settled now s \<longleftrightarrow> (\<forall>r. ss_queue s r \<noteq> [] \<longrightarrow> r \<notin> ss_in_flight s \<longrightarrow>
     pn_class (head s r) \<noteq> Chat \<and> ss_window_in_flight s \<ge> sc_nonchat_cap (ss_cfg s) \<and>
     (ss_floor_in_flight s \<ge> 1 \<or> \<not> deadline_due now s r \<and> \<not> floor_aged now s r))"

lemma settled_iff:
  assumes "sched_wf s"
  shows "settled now s \<longleftrightarrow> pick_lane now s = None"
proof -
  have r: "r \<in> set (ready s) \<longleftrightarrow> ss_queue s r \<noteq> [] \<and> r \<notin> ss_in_flight s" for r
    using assms unfolding sched_wf_def ready_iff idle_def by blast
  have "settled now s \<longleftrightarrow> (\<forall>r \<in> set (ready s).
     pn_class (head s r) \<noteq> Chat \<and> ss_window_in_flight s \<ge> sc_nonchat_cap (ss_cfg s) \<and>
     (ss_floor_in_flight s \<ge> 1 \<or> \<not> deadline_due now s r \<and> \<not> floor_aged now s r))"
    by (simp only: settled_def Ball_def r imp_conjL)
  also have "\<dots> \<longleftrightarrow> pick_lane now s = None"
  proof (cases "ready s = []")
    case False
    then obtain a where a: "a \<in> set (ready s)" by (cases "ready s") auto
    from False distinct_pending_pos [of s] a show ?thesis
      unfolding pick_lane_None not_less min_le_iff_disj by fastforce
  qed (simp add: pick_lane_None)
  finally show ?thesis .
qed

lemma try_dispatch_settled:
  assumes "open_ok reqs s lane log"
  shows "settled now (snd (try_dispatch now s))"
proof -
  have "sched_wf (snd (try_dispatch now s))"
    using open_ok_try_dispatch [OF assms, of now] by (simp add: open_ok_def core_ok_def)
  with write_lanes.loop_ends [of now s] show ?thesis by (simp add: settled_iff try_dispatch_def)
qed

text \<open>What makes a write that could not be dispatched dispatchable is a wake time.\<close>

lemma later_due:
  assumes "deadline_due t s r" "\<not> deadline_due now s r"
  shows "\<exists>w \<in> set (wake_times now s r). w \<le> t"
  using assms by (auto simp: deadline_due_def wake_times_def Let_def split: option.splits)

lemma later_aged:
  assumes "floor_aged t s r" "\<not> floor_aged now s r"
  shows "\<exists>w \<in> set (wake_times now s r). w \<le> t"
proof
  let ?w = "pn_starved_since (head s r) + age_bound s (pn_class (head s r)) * 2"
  from assms show "?w \<in> set (wake_times now s r)"
    by (auto simp: floor_aged_def floor_age_def wake_times_def Let_def)
  from assms show "?w \<le> t" by (auto simp: floor_aged_def floor_age_def)
qed

lemma wake_times_future: "w \<in> set (wake_times now s r) \<Longrightarrow> now < w"
  by (auto simp: wake_times_def Let_def split: option.splits if_splits)

lemma next_wakeup_None: "next_wakeup now s = None \<longleftrightarrow> (\<forall>r \<in> set (ready s). wake_times now s r = [])"
  by (simp add: next_wakeup_def min_by_key_None)

lemma next_wakeup_least: "next_wakeup now s = Some w \<Longrightarrow> r \<in> set (ready s) \<Longrightarrow> t \<in> set (wake_times now s r) \<Longrightarrow> w \<le> t"
  unfolding next_wakeup_def by (drule min_by_key_least [where y = t]) auto

lemma quiet_until_wakeup:
  assumes "pick_lane now s = None" "\<forall>w. next_wakeup now s = Some w \<longrightarrow> t < w"
  shows "pick_lane t s = None"
proof -
  have no: "\<not> (\<exists>w \<in> set (wake_times now s r). w \<le> t)" if "r \<in> set (ready s)" for r
  proof
    assume "\<exists>w \<in> set (wake_times now s r). w \<le> t"
    then obtain w where w: "w \<in> set (wake_times now s r)" "w \<le> t" by blast
    with that obtain u where "next_wakeup now s = Some u" using next_wakeup_None [of now s] by fastforce
    with next_wakeup_least [OF this that w(1)] assms(2) w(2) show False by auto
  qed
  from assms(1) show ?thesis
    unfolding pick_lane_None using later_due later_aged no by blast
qed

section \<open>Shutdown\<close>

text \<open>What the shutdown owes to a record: what is queued or handed out of chat writes and withdraws.\<close>

definition owed_writes :: "'d sched_run \<Rightarrow> record_id \<Rightarrow> 'd pending list" where
  "owed_writes w r = filter flushable (sent_of r (sr_log w) @ ss_queue (sr_s w) r)"

lemma drain_keeps_owed:
  "filter flushable (sent_of r (log @ sent_log (fst (drain_for_shutdown s))) @ ss_queue (snd (drain_for_shutdown s)) r)
   = filter flushable (sent_of r log @ ss_queue s r)"
proof -
  let ?P = "\<lambda>s' (lane :: record_id \<Rightarrow> dispatch_lane option) log'. filter flushable (sent_of r log' @ ss_queue s' r) = filter flushable (sent_of r log @ ss_queue s r)"
  have "?P (snd (dispatch_loop pick_flush (shed s))) (lanes_after (fst (dispatch_loop pick_flush (shed s))) (\<lambda>_. None))
      (log @ sent_log (fst (dispatch_loop pick_flush (shed s))))"
  proof (rule flush_lane.loop_keeps [where P = ?P])
    show "?P (shed s) (\<lambda>_. None) log" by (simp add: shed_def)
    fix s1 and lane :: "record_id \<Rightarrow> dispatch_lane option" and log1 x l p s2
    assume a: "?P s1 lane log1" and d: "dispatch x l s1 = (Some p, s2)"
    from d obtain q where "ss_queue s1 x = p # q" "ss_queue s2 = (ss_queue s1)(x := q)" by (rule dispatchE)
    with a show "?P s2 (lane(x \<mapsto> l)) (log1 @ [LSent x p l])" by (auto split: if_splits)
  qed
  then show ?thesis by (simp add: drain_for_shutdown_def)
qed

lemma closing_keeps_owed:
  assumes "sr_closing w"
  shows "sr_closing (sched_step e w) \<and> owed_writes (sched_step e w) r = owed_writes w r"
proof (cases e)
  case (EvDone now x ms)
  show ?thesis
  proof (cases "sr_lane w x")
    case (Some lane)
    let ?s = "on_done x lane ms (sr_s w)"
    have "ss_queue ?s = ss_queue (sr_s w)" by (simp add: on_done_def Let_def)
    with drain_keeps_owed [of r "sr_log w @ [LAcked x (ss_seq ?s)]" ?s] assms Some show ?thesis
      by (simp add: EvDone owed_writes_def Let_def)
  qed (use assms EvDone in simp)
qed (use assms in auto)

lemma shutdown_keeps_owed:
  "\<not> sr_closing w \<Longrightarrow> sr_closing (sched_step EvShutdown w) \<and> owed_writes (sched_step EvShutdown w) r = owed_writes w r"
  using drain_keeps_owed [of r "sr_log w" "sr_s w"] by (simp add: owed_writes_def)

lemma closing_run_owed:
  "sr_closing w \<Longrightarrow> sr_closing (fold sched_step es w) \<and> owed_writes (fold sched_step es w) r = owed_writes w r"
  by (induction es arbitrary: w) (use closing_keeps_owed in auto)

lemma shutdown_done_queue:
  assumes "run_ok w" "\<not> shutdown_work_remaining (sr_s w)"
  shows "ss_in_flight (sr_s w) = {} \<and> filter flushable (ss_queue (sr_s w) r) = []"
proof -
  have "r \<in> set (ss_records (sr_s w))" if "ss_queue (sr_s w) r \<noteq> []"
    using assms(1) that by (simp add: run_ok_def sched_wf_def)
  with assms(2) show ?thesis
    by (cases "ss_queue (sr_s w) r = []") (auto simp: shutdown_work_remaining_def list_ex_iff filter_empty_conv)
qed

section \<open>The congestion estimate\<close>

lemma sorted_nth_iff:
  fixes x :: "'a::linorder"
  assumes "sorted v" "i < length v"
  shows "x \<le> v ! i \<longleftrightarrow> length v - i \<le> length (filter (\<lambda>y. x \<le> y) v)"
  using assms
proof (induction v arbitrary: i)
  case (Cons a v)
  show ?case
  proof (cases i)
    case 0
    have "x \<le> a \<longleftrightarrow> length (a # v) \<le> length (filter (\<lambda>y. x \<le> y) (a # v))"
    proof
      assume "x \<le> a"
      then have "filter (\<lambda>y. x \<le> y) (a # v) = a # v" using Cons.prems(1) by (intro filter_True) auto
      then show "length (a # v) \<le> length (filter (\<lambda>y. x \<le> y) (a # v))" by simp
    next
      assume "length (a # v) \<le> length (filter (\<lambda>y. x \<le> y) (a # v))"
      then show "x \<le> a" using length_filter_le [of "\<lambda>y. x \<le> y" v] by (cases "x \<le> a") simp_all
    qed
    with 0 show ?thesis by simp
  next
    case (Suc j)
    with Cons.prems have ih: "x \<le> v ! j \<longleftrightarrow> length v - j \<le> length (filter (\<lambda>y. x \<le> y) v)" by (intro Cons.IH) auto
    show ?thesis
    proof (cases "x \<le> a")
      case True
      then have "\<forall>y \<in> set v. x \<le> y" using Cons.prems by auto
      then have "filter (\<lambda>y. x \<le> y) v = v" "x \<le> v ! j" using Cons.prems Suc by (auto intro!: filter_True)
      with Suc True show ?thesis by simp
    qed (use ih Suc in simp)
  qed
qed simp

lemma median_ms_ge:
  assumes "length ring \<le> 5" "0 < x"
  shows "x \<le> median_ms ring \<longleftrightarrow> 3 \<le> length (filter (\<lambda>y. x \<le> y) ring)"
proof -
  let ?u = "ring @ replicate (5 - length ring) 0"
  have l: "length (sort ?u) = 5" using assms(1) by simp
  have "length (filter (\<lambda>y. x \<le> y) (sort ?u)) = length (filter (\<lambda>y. x \<le> y) ?u)"
    by (metis filter_sort length_sort)
  also have "\<dots> = length (filter (\<lambda>y. x \<le> y) ring)" using assms(2) by simp
  finally show ?thesis
    using sorted_nth_iff [of "sort ?u" 2 x] l assms(1)
    by (cases "length ring = 5") (simp_all add: median_ms_def LATENCY_WINDOW_def Let_def max_def)
qed

section \<open>Reading the log\<close>

text \<open>
  What the log says after a withdraw of \<open>lid\<close>: nothing of the record was handed out since, or an
  acknowledgement came before every current-state write of \<open>lid\<close> handed out since was even taken.
\<close>

definition stays_withdrawn :: "record_id \<Rightarrow> string \<Rightarrow> 'd sched_log list \<Rightarrow> bool" where
  "stays_withdrawn r lid es \<longleftrightarrow> sent_of r es = [] \<or>
     list_ex (\<lambda>e. case e of LSent _ _ _ \<Rightarrow> False
       | LAcked r' n \<Rightarrow> r' = r \<and> list_all (\<lambda>q. pn_kind q = CurrentState lid \<longrightarrow> n \<le> pn_seq q) (sent_of r es)) es"

fun no_resurrection :: "'d sched_log list \<Rightarrow> bool" where
  "no_resurrection [] = True"
| "no_resurrection (LSent r p l # es) =
    ((case pn_kind p of Tombstone lid \<Rightarrow> stays_withdrawn r lid es | _ \<Rightarrow> True) \<and> no_resurrection es)"
| "no_resurrection (LAcked r n # es) = no_resurrection es"

lemma no_resurrectionI:
  "(\<And>xs r p l ys lid. log = xs @ LSent r p l # ys \<Longrightarrow> pn_kind p = Tombstone lid \<Longrightarrow> stays_withdrawn r lid ys) \<Longrightarrow>
   no_resurrection log"
proof (induction log)
  case (Cons e log)
  have t: "no_resurrection log" by (rule Cons.IH) (use Cons.prems [of "e # _"] in simp)
  show ?case
  proof (cases e)
    case (LSent r p l)
    have "stays_withdrawn r lid log" if "pn_kind p = Tombstone lid" for lid
      using Cons.prems [of "[]"] LSent that by simp
    with t LSent show ?thesis by (simp split: write_kind.split)
  qed (use t in simp)
qed simp

lemma withdrawn_ok_no_resurrection:
  assumes "withdrawn_ok s log"
  shows "no_resurrection log"
proof (rule no_resurrectionI)
  fix xs r p l ys lid
  assume "log = xs @ LSent r p l # ys" "pn_kind p = Tombstone lid"
  with assms consider "sent_of r ys = []"
    | n where "LAcked r n \<in> set ys" "\<forall>q \<in> set (sent_of r ys). pn_kind q = CurrentState lid \<longrightarrow> n \<le> pn_seq q"
    unfolding withdrawn_ok_def by (metis UnCI set_append)
  then show "stays_withdrawn r lid ys"
    unfolding stays_withdrawn_def list_ex_iff list_all_iff by cases force+
qed

section \<open>Progress of the shutdown\<close>

definition unfinished :: "'d sched \<Rightarrow> nat" where
  "unfinished s = total_queued s + card (ss_in_flight s)"

lemma total_queued_shed: "total_queued (shed s) \<le> total_queued s"
proof -
  have "(\<Sum>r\<leftarrow>filter (\<lambda>r. filter flushable (ss_queue s r) \<noteq> []) xs. length (filter flushable (ss_queue s r)))
      \<le> (\<Sum>r\<leftarrow>xs. length (ss_queue s r))" for xs
    by (induction xs) (auto intro: add_mono simp: trans_le_add2)
  then show ?thesis by (simp add: total_queued_def shed_def)
qed

lemma drain_unfinished:
  fixes s :: "'d sched"
  assumes "finite (ss_in_flight s)"
  shows "unfinished (snd (drain_for_shutdown s)) \<le> unfinished s"
proof -
  let ?P = "\<lambda>(s' :: 'd sched) (lane :: record_id \<Rightarrow> dispatch_lane option) (log :: 'd sched_log list). finite (ss_in_flight s') \<and> unfinished s' \<le> unfinished s"
  have "?P (snd (dispatch_loop pick_flush (shed s))) (lanes_after (fst (dispatch_loop pick_flush (shed s))) (\<lambda>_. None))
      ([] @ sent_log (fst (dispatch_loop pick_flush (shed s))))"
  proof (rule flush_lane.loop_keeps [where P = ?P])
    show "?P (shed s) (\<lambda>_. None) []" using assms total_queued_shed [of s] by (simp add: unfinished_def) (simp add: shed_def)
    fix s1 and lane :: "record_id \<Rightarrow> dispatch_lane option" and log1 :: "'d sched_log list" and x l p s2
    assume a: "?P s1 lane log1" and d: "dispatch x l s1 = (Some p, s2)"
    have "total_queued s2 < total_queued s1" by (rule dispatch_shrinks [OF d])
    moreover from d have "ss_in_flight s2 = insert x (ss_in_flight s1)" by (rule dispatchE)
    moreover have "card (insert x (ss_in_flight s1)) \<le> Suc (card (ss_in_flight s1))" by (rule card_insert_le_m1) simp_all
    ultimately show "?P s2 (lane(x \<mapsto> l)) (log1 @ [LSent x p l])" using a by (auto simp: unfinished_def)
  qed
  then show ?thesis by (simp add: drain_for_shutdown_def)
qed

lemma drain_ready: "ready (snd (drain_for_shutdown s)) = []"
  using flush_lane.loop_ends [of "shed s"] by (simp add: drain_for_shutdown_def pick_flush_def min_by_key_None)

lemma done_unfinished:
  assumes "finite (ss_in_flight s)" "r \<in> ss_in_flight s"
  shows "unfinished (on_done r l ms s) < unfinished s"
  using assms card_Diff1_less [of "ss_in_flight s" r]
  by (simp add: unfinished_def total_queued_def on_done_def Let_def)

lemma closing_progress:
  assumes "run_ok w" "sr_closing w" "r \<in> ss_in_flight (sr_s w)"
  shows "unfinished (sr_s (sched_step (EvDone now r ms) w)) < unfinished (sr_s w)"
proof -
  have f: "finite (ss_in_flight (sr_s w))" "ss_in_flight (sr_s w) = dom (sr_lane w)"
    using assms(1) by (simp_all add: run_ok_def lanes_ok_def)
  with assms(3) obtain l where l: "sr_lane w r = Some l" by auto
  have "unfinished (snd (drain_for_shutdown (on_done r l ms (sr_s w)))) \<le> unfinished (on_done r l ms (sr_s w))"
    by (rule drain_unfinished) (use f(1) in \<open>simp add: on_done_def Let_def\<close>)
  with done_unfinished [OF f(1) assms(3), of l ms] l assms(2) show ?thesis by (simp add: Let_def)
qed

text \<open>Once the shutdown has begun, what is queued waits for a write in flight to its record.\<close>

lemma closing_ready: "sr_closing w \<longrightarrow> ready (sr_s w) = [] \<Longrightarrow> sr_closing (sched_step e w) \<longrightarrow> ready (sr_s (sched_step e w)) = []"
  by (cases e) (auto simp: drain_ready Let_def split: option.split prod.split)

lemma closing_run_ready: "sr_closing w \<longrightarrow> ready (sr_s w) = [] \<Longrightarrow> sr_closing (fold sched_step es w) \<longrightarrow> ready (sr_s (fold sched_step es w)) = []"
  by (induction es arbitrary: w) (use closing_ready in auto)

lemma work_in_flight:
  assumes "run_ok w" "ready (sr_s w) = []" "shutdown_work_remaining (sr_s w)"
  shows "ss_in_flight (sr_s w) \<noteq> {}"
proof
  assume e: "ss_in_flight (sr_s w) = {}"
  with assms(3) obtain r p where "r \<in> set (ss_records (sr_s w))" "p \<in> set (ss_queue (sr_s w) r)"
    by (auto simp: shutdown_work_remaining_def list_ex_iff)
  with e have "r \<in> set (ready (sr_s w))" by (auto simp: ready_iff idle_def)
  with assms(2) show False by simp
qed

lemma open_step: "\<not> sr_closing w \<Longrightarrow> e \<noteq> EvShutdown \<Longrightarrow> \<not> sr_closing (sched_step e w)"
  by (cases e) (auto simp: Let_def split: option.split prod.split)

lemma open_run: "\<not> sr_closing w \<Longrightarrow> EvShutdown \<notin> set es \<Longrightarrow> \<not> sr_closing (fold sched_step es w)"
  by (induction es arbitrary: w) (simp, metis fold_simps(2) list.set_intros open_step)

lemma run_new_open [simp]: "\<not> sr_closing (run_new cfg)"
  by (simp add: run_new_def)

lemma reached_ok: "run_ok (fold sched_step es (run_new cfg))"
  by (rule sched_run.inv_run) blast

section \<open>The scheduler's promises\<close>

text \<open>
  C15. A withdraw is never undone by an older write: in every run of the driver, once a tombstone has been
  handed to the network, every current-state write of the same logical id handed out after it was taken
  only after an acknowledgement that followed the tombstone; a write taken before is dropped or coalesced.
\<close>

theorem withdraw_is_never_undone: "no_resurrection (sr_log (fold sched_step es (run_new cfg)))"
  using reached_ok [of es cfg] withdrawn_ok_no_resurrection unfolding run_ok_def by blast

text \<open>
  C16. A ring write is handed out exactly once and in order: for every record the ring writes taken are
  those handed out, in order, followed by those still queued. For writes of the chat class this holds
  through the shutdown too. And no write is handed out while its record has one unacknowledged, at most the
  cap of the window lane is in flight, and at most one of the floor lane, as the scheduler's counters say.
\<close>

theorem ring_writes_exactly_once:
  "let w = fold sched_step es (run_new cfg); s = sr_s w in
     ring_taken (\<lambda>c. c = Chat) r (sr_submitted w) = rings (\<lambda>c. c = Chat) (sent_of r (sr_log w) @ ss_queue s r) \<and>
     (sr_closing w \<or>
        ring_taken (\<lambda>_. True) r (sr_submitted w) = rings (\<lambda>_. True) (sent_of r (sr_log w) @ ss_queue s r) \<and>
        card {r. sr_lane w r = Some LWindow} \<le> sc_nonchat_cap (ss_cfg s) \<and> card {r. sr_lane w r = Some LFloor} \<le> 1) \<and>
     lanes_ok s (sr_lane w) \<and> flight_ok s (sr_log w)"
  using reached_ok [of es cfg] by (auto simp: Let_def run_ok_def ring_ok_def caps_ok_def lanes_ok_def)





text \<open>
  An enqueue loses nothing it should keep: a current-state write dominated by a withdraw is dropped and
  only its own reply resolved; otherwise the request is queued last, exactly the writes it supersedes are
  removed and their replies resolved, and a current-state write inherits the oldest starvation clock and the
  strongest class of those it replaces.
\<close>

lemma enqueue_supersedes_exactly:
  "case enqueue now req s of (items, s') \<Rightarrow>
     (\<exists>lid. wr_kind req = CurrentState lid \<and> dominated lid (wr_record req) s \<and> items = [wr_item req] \<and> ss_queue s' = ss_queue s) \<or>
     (\<exists>p q. ss_queue s' = (ss_queue s)(wr_record req := q @ [p]) \<and>
        q = filter (keeps (wr_kind req)) (ss_queue s (wr_record req)) \<and>
        items = map pn_item (filter (\<lambda>p. \<not> keeps (wr_kind req) p) (ss_queue s (wr_record req))) \<and>
        pn_item p = wr_item req \<and> pn_kind p = wr_kind req \<and> pn_deadline p = wr_deadline req \<and> pn_seq p = ss_seq s \<and>
        pn_class p \<le> wr_class req \<and>
        (\<forall>old \<in> set (ss_queue s (wr_record req)). keeps (wr_kind req) old \<or> is_tombstone (wr_kind req) \<or>
           pn_starved_since p \<le> pn_starved_since old \<and> pn_class p \<le> pn_class old))"
proof -
  obtain items s' where e: "enqueue now req s = (items, s')" by fastforce
  then show ?thesis
  proof (cases rule: enqueue_cases)
    case (pushed starved cls)
    let ?p = "\<lparr>pn_seq = ss_seq s, pn_enqueued = now, pn_starved_since = starved, pn_class = cls,
      pn_kind = wr_kind req, pn_deadline = wr_deadline req, pn_item = wr_item req\<rparr>"
    have "ss_queue s' = (ss_queue s)(wr_record req := filter (keeps (wr_kind req)) (ss_queue s (wr_record req)) @ [?p])"
      by (simp add: pushed(2) push_back_def)
    with pushed show ?thesis unfolding e prod.case by (intro disjI2 exI [of _ ?p]) auto
  qed (use e in auto)
qed

lemma enqueue_supersedes_exactly_witness:
  "let req = direct_message [1] DmCursor 8; s = snd (enqueue 3 (direct_message [1] DmCursor 7) (sched_new default_config)) in
   case enqueue 9 req s of (items, s') \<Rightarrow>
     (\<exists>lid. wr_kind req = CurrentState lid \<and> dominated lid (wr_record req) s \<and> items = [wr_item req] \<and> ss_queue s' = ss_queue s) \<or>
     (\<exists>p q. ss_queue s' = (ss_queue s)(wr_record req := q @ [p]) \<and>
        q = filter (keeps (wr_kind req)) (ss_queue s (wr_record req)) \<and>
        items = map pn_item (filter (\<lambda>p. \<not> keeps (wr_kind req) p) (ss_queue s (wr_record req))) \<and>
        pn_item p = wr_item req \<and> pn_kind p = wr_kind req \<and> pn_deadline p = wr_deadline req \<and> pn_seq p = ss_seq s \<and>
        pn_class p \<le> wr_class req \<and>
        (\<forall>old \<in> set (ss_queue s (wr_record req)). keeps (wr_kind req) old \<or> is_tombstone (wr_kind req) \<or>
           pn_starved_since p \<le> pn_starved_since old \<and> pn_class p \<le> pn_class old))"
  unfolding Let_def by (rule enqueue_supersedes_exactly)

text \<open>
  The published latency is a median of five that one outlier cannot move: with a window of at most five
  samples it is at least a positive \<open>x\<close> exactly when at least three samples are.
\<close>

theorem median_needs_three:
  assumes "length ring \<le> 5" "0 < x"
  shows "x \<le> median_ms ring \<longleftrightarrow> 3 \<le> length (filter (\<lambda>y. x \<le> y) ring)"
  by (rule median_ms_ge [OF assms])

theorem median_needs_three_witness:
  "(7::nat) \<le> median_ms [900, 7, 7, 1, 8] \<longleftrightarrow> 3 \<le> length (filter (\<lambda>y. (7::nat) \<le> y) [900, 7, 7, 1, 8])"
  by (rule median_needs_three) simp_all

end
