(* ===== verification/Presence.thy ===== *)
theory Presence
  imports Prelude "HOL-Library.AList" "HOL-Library.List_Lexorder" "HOL-Library.Char_ord" "HOL-Library.Product_Lexorder"
begin

text \<open>
  The roster of a room (\<open>presence.rs\<close>): the beacons, leaves and chat writes folded into it, the slow reap
  and the gate that suspends it. Instants are milliseconds of the monotonic clock (their subtraction
  saturates), wall-clock times the \<open>i64\<close> milliseconds a member wrote. The maps are association lists;
  their order stands for the hash map's iteration order, which the code leaves open.
\<close>

section \<open>The messages\<close>

text \<open>The wire message (\<open>daemonseed.v1.rs\<close>, generated from the schema).\<close>

record member_heartbeat =
  hb_room :: string
  hb_sender_pubkey :: "byte list"
  hb_sender_handle :: string
  hb_sent_unix_ms :: int
  hb_signature :: "byte list"
  hb_live_share_ids :: "string list"
  hb_is_leave :: bool

definition PRESENCE_TTL :: nat where "PRESENCE_TTL = 600 * 1000"
definition REAP_CONGESTION_THRESHOLD :: nat where "REAP_CONGESTION_THRESHOLD = 8 * 1000"
definition REAP_CALM_THRESHOLD :: nat where "REAP_CALM_THRESHOLD = 4 * 1000"
definition REAP_RESUME_GRACE :: nat where "REAP_RESUME_GRACE = 220 * 1000"
definition REPLAY_FRESHNESS_PAST :: int where "REPLAY_FRESHNESS_PAST = 300 * 1000"
definition REPLAY_FRESHNESS_FUTURE :: int where "REPLAY_FRESHNESS_FUTURE = 60 * 1000"

text \<open>Both sums stay in an \<open>i64\<close> for every clock within 292 million years of the epoch.\<close>

definition beacon_is_fresh :: "int \<Rightarrow> int \<Rightarrow> bool" where
  "beacon_is_fresh sent_unix_ms now_unix_ms \<longleftrightarrow>
     sent_unix_ms \<ge> now_unix_ms - REPLAY_FRESHNESS_PAST \<and> sent_unix_ms \<le> now_unix_ms + REPLAY_FRESHNESS_FUTURE"

text \<open>\<open>interval_in_band\<close>: the eight drawn bytes as a little-endian number, \<open>None\<close> where the source failed.\<close>

definition interval_in_band :: "nat \<Rightarrow> nat \<Rightarrow> u64 option \<Rightarrow> nat" where
  "interval_in_band min_ms max_ms fill =
    (let span = max_ms - min_ms;
         offset = (case fill of Some b \<Rightarrow> unat b mod (span + 1) | None \<Rightarrow> span div 2)
     in min_ms + offset)"

definition KEEPALIVE_INTERVAL_MIN :: nat where "KEEPALIVE_INTERVAL_MIN = 180 * 1000"
definition KEEPALIVE_INTERVAL_MAX :: nat where "KEEPALIVE_INTERVAL_MAX = 220 * 1000"

definition next_keepalive_interval :: "u64 option \<Rightarrow> nat" where
  "next_keepalive_interval fill = interval_in_band KEEPALIVE_INTERVAL_MIN KEEPALIVE_INTERVAL_MAX fill"

section \<open>The tracker\<close>

record live_member =
  lm_handle :: string
  lm_pubkey :: "byte list"
  lm_beacon_unix_ms :: int
  lm_last_seen :: nat

datatype presence_change = Appeared | Refreshed | Departed | PresenceUnchanged

record departed_mark =
  dp_leave_ms :: int
  dp_at :: nat

record presence_tracker =
  pt_members :: "(byte list \<times> live_member) list"
  pt_departed :: "(byte list \<times> departed_mark) list"
  pt_room :: "string option"
  pt_ttl :: nat

definition tracker_new :: "nat \<Rightarrow> presence_tracker" where
  "tracker_new ttl = \<lparr>pt_members = [], pt_departed = [], pt_room = None, pt_ttl = ttl\<rparr>"

definition tracker_for_room :: "string \<Rightarrow> nat \<Rightarrow> presence_tracker" where
  "tracker_for_room room ttl = \<lparr>pt_members = [], pt_departed = [], pt_room = Some room, pt_ttl = ttl\<rparr>"

definition with_cadence :: "nat \<Rightarrow> nat \<Rightarrow> presence_tracker" where
  "with_cadence interval miss_count = tracker_new (interval * max miss_count 1)"

definition fold_write ::
  "byte list \<Rightarrow> string \<Rightarrow> int \<Rightarrow> nat \<Rightarrow> presence_tracker \<Rightarrow> presence_change \<times> presence_tracker" where
  "fold_write pubkey handle sent_unix_ms now t =
    (let dominated = (case map_of (pt_departed t) pubkey of Some mark \<Rightarrow> sent_unix_ms \<le> dp_leave_ms mark | None \<Rightarrow> False)
     in if dominated then (PresenceUnchanged, t)
        else let t = t\<lparr>pt_departed := AList.delete pubkey (pt_departed t)\<rparr>
             in case map_of (pt_members t) pubkey of
                  Some cur \<Rightarrow>
                    if sent_unix_ms < lm_beacon_unix_ms cur then (PresenceUnchanged, t)
                    else (Refreshed, t\<lparr>pt_members := AList.update pubkey
                      (cur\<lparr>lm_handle := handle, lm_beacon_unix_ms := sent_unix_ms, lm_last_seen := now\<rparr>) (pt_members t)\<rparr>)
                | None \<Rightarrow> (Appeared, t\<lparr>pt_members := AList.update pubkey
                      \<lparr>lm_handle = handle, lm_pubkey = pubkey, lm_beacon_unix_ms = sent_unix_ms, lm_last_seen = now\<rparr> (pt_members t)\<rparr>))"

definition apply_leave :: "byte list \<Rightarrow> int \<Rightarrow> nat \<Rightarrow> presence_tracker \<Rightarrow> presence_change \<times> presence_tracker" where
  "apply_leave pubkey leave_ms now t =
    (let stale = (case map_of (pt_members t) pubkey of Some cur \<Rightarrow> leave_ms < lm_beacon_unix_ms cur | None \<Rightarrow> False)
     in if stale then (PresenceUnchanged, t)
        else let entry = (case map_of (pt_departed t) pubkey of Some m \<Rightarrow> m | None \<Rightarrow> \<lparr>dp_leave_ms = leave_ms, dp_at = now\<rparr>);
                 entry = (if leave_ms \<ge> dp_leave_ms entry then \<lparr>dp_leave_ms = leave_ms, dp_at = now\<rparr> else entry);
                 was = map_of (pt_members t) pubkey
             in (if was \<noteq> None then Departed else PresenceUnchanged,
                 t\<lparr>pt_departed := AList.update pubkey entry (pt_departed t), pt_members := AList.delete pubkey (pt_members t)\<rparr>))"

definition apply_heartbeat :: "member_heartbeat \<Rightarrow> nat \<Rightarrow> presence_tracker \<Rightarrow> presence_change \<times> presence_tracker" where
  "apply_heartbeat hb now t =
    (if hb_is_leave hb then apply_leave (hb_sender_pubkey hb) (hb_sent_unix_ms hb) now t
     else fold_write (hb_sender_pubkey hb) (hb_sender_handle hb) (hb_sent_unix_ms hb) now t)"

definition apply_member_write ::
  "string \<Rightarrow> byte list \<Rightarrow> string \<Rightarrow> int \<Rightarrow> nat \<Rightarrow> presence_tracker \<Rightarrow> presence_change \<times> presence_tracker" where
  "apply_member_write room pubkey handle sent_unix_ms now t =
    (if (case pt_room t of Some r \<Rightarrow> r \<noteq> room | None \<Rightarrow> False) then (PresenceUnchanged, t)
     else fold_write pubkey handle sent_unix_ms now t)"

definition reap :: "nat \<Rightarrow> bool \<Rightarrow> presence_tracker \<Rightarrow> live_member list \<times> presence_tracker" where
  "reap now congested t =
    (if congested then ([], t)
     else let alive = (\<lambda>m. now - lm_last_seen m < pt_ttl t)
          in (map snd (filter (\<lambda>(_, m). \<not> alive m) (pt_members t)),
              t\<lparr>pt_departed := filter (\<lambda>(_, m). now - dp_at m < pt_ttl t) (pt_departed t),
                pt_members := filter (\<lambda>(_, m). alive m) (pt_members t)\<rparr>))"

definition stale_suspected :: "nat \<Rightarrow> bool \<Rightarrow> presence_tracker \<Rightarrow> bool" where
  "stale_suspected now congested t \<longleftrightarrow> congested \<and> list_ex (\<lambda>(_, m). now - lm_last_seen m \<ge> pt_ttl t) (pt_members t)"

text \<open>\<open>members\<close>: by handle, then by key; both compare byte by byte.\<close>

definition roster :: "presence_tracker \<Rightarrow> live_member list" where
  "roster t = sort_key (\<lambda>m. (lm_handle m, lm_pubkey m)) (map snd (pt_members t))"

section \<open>The gate\<close>

record reap_gate =
  rg_elevated :: bool
  rg_calm_since :: "nat option"

definition gate_new :: reap_gate where "gate_new = \<lparr>rg_elevated = False, rg_calm_since = None\<rparr>"

definition gate_observe :: "nat \<Rightarrow> nat \<Rightarrow> reap_gate \<Rightarrow> reap_gate" where
  "gate_observe weather_ms now g =
    (if rg_elevated g then
       (if weather_ms \<le> REAP_CALM_THRESHOLD then \<lparr>rg_elevated = False, rg_calm_since = Some now\<rparr> else g)
     else if weather_ms \<ge> REAP_CONGESTION_THRESHOLD then \<lparr>rg_elevated = True, rg_calm_since = None\<rparr> else g)"

definition suspend_reaping :: "nat \<Rightarrow> reap_gate \<Rightarrow> bool" where
  "suspend_reaping now g \<longleftrightarrow>
     rg_elevated g \<or> (case rg_calm_since g of Some c \<Rightarrow> now - c < REAP_RESUME_GRACE | None \<Rightarrow> False)"

section \<open>Ingest\<close>

text \<open>
  What the net actors do with an opened beacon and a verified chat write: their own beacons and everything
  not fresh by the wall clock are dropped before the fold.
\<close>

definition ingest_beacon :: "byte list option \<Rightarrow> int \<Rightarrow> nat \<Rightarrow> member_heartbeat \<Rightarrow> presence_tracker \<Rightarrow> presence_tracker" where
  "ingest_beacon own now_unix_ms now hb t =
    (if own \<noteq> Some (hb_sender_pubkey hb) \<and> beacon_is_fresh (hb_sent_unix_ms hb) now_unix_ms
     then snd (apply_heartbeat hb now t) else t)"

definition ingest_write ::
  "int \<Rightarrow> nat \<Rightarrow> string \<Rightarrow> byte list \<Rightarrow> string \<Rightarrow> int \<Rightarrow> presence_tracker \<Rightarrow> presence_tracker" where
  "ingest_write now_unix_ms now room pubkey handle sent_unix_ms t =
    (if beacon_is_fresh sent_unix_ms now_unix_ms then snd (apply_member_write room pubkey handle sent_unix_ms now t) else t)"

section \<open>The roster is a function of what was heard\<close>

datatype heard_message = HeardWrite "byte list" string int | HeardLeave "byte list" int

fun hear :: "heard_message \<times> nat \<Rightarrow> presence_tracker \<Rightarrow> presence_tracker" where
  "hear (HeardWrite pk h s, now) t = snd (fold_write pk h s now t)"
| "hear (HeardLeave pk l, now) t = snd (apply_leave pk l now t)"

text \<open>Reference: the newest write of the member stands unless a leave is as new.\<close>

definition writes_of :: "byte list \<Rightarrow> heard_message set \<Rightarrow> int set" where
  "writes_of pk ms = {s. \<exists>h. HeardWrite pk h s \<in> ms}"

definition leaves_of :: "byte list \<Rightarrow> heard_message set \<Rightarrow> int set" where
  "leaves_of pk ms = {l. HeardLeave pk l \<in> ms}"

definition standing :: "byte list \<Rightarrow> heard_message set \<Rightarrow> int option" where
  "standing pk ms = (if writes_of pk ms \<noteq> {} \<and> (\<forall>l \<in> leaves_of pk ms. l < Max (writes_of pk ms))
     then Some (Max (writes_of pk ms)) else None)"

definition beacon_at :: "presence_tracker \<Rightarrow> byte list \<Rightarrow> int option" where
  "beacon_at t pk = map_option lm_beacon_unix_ms (map_of (pt_members t) pk)"

definition mark_at :: "presence_tracker \<Rightarrow> byte list \<Rightarrow> int option" where
  "mark_at t pk = map_option dp_leave_ms (map_of (pt_departed t) pk)"

text \<open>What is known of a member after a set of messages: the beacon that stands, or the leave that rules.\<close>

definition settled :: "presence_tracker \<Rightarrow> heard_message set \<Rightarrow> byte list \<Rightarrow> bool" where
  "settled t ms pk \<longleftrightarrow> (case beacon_at t pk of
     Some b \<Rightarrow> b \<in> writes_of pk ms \<and> (\<forall>s \<in> writes_of pk ms. s \<le> b) \<and> (\<forall>l \<in> leaves_of pk ms. l < b) \<and> mark_at t pk = None
   | None \<Rightarrow> (case mark_at t pk of
        Some m \<Rightarrow> m \<in> leaves_of pk ms \<and> (\<forall>l \<in> leaves_of pk ms. l \<le> m) \<and> (\<forall>s \<in> writes_of pk ms. s \<le> m)
      | None \<Rightarrow> writes_of pk ms = {} \<and> leaves_of pk ms = {}))"

lemma writes_insert [simp]:
  "writes_of pk (insert (HeardWrite pk' h s) ms) = (if pk' = pk then insert s (writes_of pk ms) else writes_of pk ms)"
  "writes_of pk (insert (HeardLeave pk' l) ms) = writes_of pk ms"
  "leaves_of pk (insert (HeardWrite pk' h s) ms) = leaves_of pk ms"
  "leaves_of pk (insert (HeardLeave pk' l) ms) = (if pk' = pk then insert l (leaves_of pk ms) else leaves_of pk ms)"
  by (auto simp: writes_of_def leaves_of_def)

lemma maps_of [simp]:
  "map_of (AList.update k v al) k' = (if k' = k then Some v else map_of al k')"
  "map_of (AList.delete k al) k' = (if k' = k then None else map_of al k')"
  by (auto simp: update_conv' delete_conv')

definition dominated :: "presence_tracker \<Rightarrow> byte list \<Rightarrow> int \<Rightarrow> bool" where
  "dominated t pk s \<longleftrightarrow> (\<exists>m. mark_at t pk = Some m \<and> s \<le> m)"

definition stale_leave :: "presence_tracker \<Rightarrow> byte list \<Rightarrow> int \<Rightarrow> bool" where
  "stale_leave t pk l \<longleftrightarrow> (\<exists>b. beacon_at t pk = Some b \<and> l < b)"

lemma fold_write_effect:
  "beacon_at (snd (fold_write k h s now t)) pk = (if pk = k \<and> \<not> dominated t k s
     then Some (case beacon_at t k of Some b \<Rightarrow> max b s | None \<Rightarrow> s) else beacon_at t pk)"
  "mark_at (snd (fold_write k h s now t)) pk = (if pk = k \<and> \<not> dominated t k s then None else mark_at t pk)"
  by (cases "map_of (pt_members t) k"; cases "map_of (pt_departed t) k";
      auto simp: fold_write_def beacon_at_def mark_at_def dominated_def Let_def)+

lemma apply_leave_effect:
  "beacon_at (snd (apply_leave k l now t)) pk = (if pk = k \<and> \<not> stale_leave t k l then None else beacon_at t pk)"
  "mark_at (snd (apply_leave k l now t)) pk = (if pk = k \<and> \<not> stale_leave t k l
     then Some (case mark_at t k of Some m \<Rightarrow> max m l | None \<Rightarrow> l) else mark_at t pk)"
  by (cases "map_of (pt_members t) k"; cases "map_of (pt_departed t) k";
      auto simp: apply_leave_def beacon_at_def mark_at_def stale_leave_def Let_def)+

lemma hear_settled:
  assumes "settled t ms pk"
  shows "settled (hear (m, now) t) (insert m ms) pk"
  using assms
  by (cases m; cases "beacon_at t pk"; cases "mark_at t pk")
    (auto simp: settled_def fold_write_effect apply_leave_effect dominated_def stale_leave_def max_def not_less split: if_splits)

lemma fold_settled:
  "settled t ms pk \<Longrightarrow> settled (fold hear es t) (ms \<union> fst ` set es) pk"
proof (induction es arbitrary: t ms)
  case (Cons e es)
  then show ?case using hear_settled [OF Cons.prems, of "fst e" "snd e"] Cons.IH [of "hear e t" "insert (fst e) ms"]
    by (simp add: insert_commute)
qed simp

lemma finite_heard: "finite ms \<Longrightarrow> finite (writes_of pk ms)"
proof -
  assume f: "finite ms"
  have "writes_of pk ms \<subseteq> (\<lambda>m. case m of HeardWrite _ _ s \<Rightarrow> s | HeardLeave _ l \<Rightarrow> l) ` ms"
    by (force simp: writes_of_def)
  then show ?thesis using f by (meson finite_imageI finite_subset)
qed

lemma settled_standing:
  assumes "settled t ms pk" "finite ms"
  shows "beacon_at t pk = standing pk ms"
proof (cases "beacon_at t pk")
  case (Some b)
  with assms(1) have "b \<in> writes_of pk ms" "\<forall>s \<in> writes_of pk ms. s \<le> b" "\<forall>l \<in> leaves_of pk ms. l < b" by (auto simp: settled_def)
  moreover from this have "Max (writes_of pk ms) = b" using finite_heard [OF assms(2)] by (meson Max_eqI)
  ultimately show ?thesis using Some by (auto simp: standing_def)
next
  case None
  then show ?thesis
  proof (cases "mark_at t pk")
    case (Some m)
    with None assms(1) have "m \<in> leaves_of pk ms" "\<forall>s \<in> writes_of pk ms. s \<le> m" by (auto simp: settled_def)
    moreover have "Max (writes_of pk ms) \<in> writes_of pk ms" if "writes_of pk ms \<noteq> {}"
      using that finite_heard [OF assms(2)] by (rule Max_in [rotated])
    ultimately show ?thesis using None by (force simp: standing_def)
  qed (use assms(1) in \<open>simp add: settled_def standing_def\<close>)
qed



section \<open>A member that left stays away\<close>

text \<open>
  A tracker over time: one clock drives the instants and, from \<open>off\<close>, the wall clock the freshness test reads.
\<close>

datatype room_event = RBeacon member_heartbeat | RChat string "byte list" string int | RReap bool

fun room_step :: "byte list option \<Rightarrow> int \<Rightarrow> room_event \<times> nat \<Rightarrow> presence_tracker \<Rightarrow> presence_tracker" where
  "room_step own off (RBeacon hb, now) t = ingest_beacon own (off + int now) now hb t"
| "room_step own off (RChat room pk handle sent, now) t = ingest_write (off + int now) now room pk handle sent t"
| "room_step own off (RReap congested, now) t = snd (reap now congested t)"

text \<open>
  What every reachable tracker keeps: one entry for a member, on the roster or departed but never both, each
  filed under its key, and no time later than the instant it was heard at allows.
\<close>

definition tracker_ok :: "int \<Rightarrow> nat \<Rightarrow> presence_tracker \<Rightarrow> bool" where
  "tracker_ok off now t \<longleftrightarrow> distinct (map fst (pt_members t)) \<and> distinct (map fst (pt_departed t)) \<and>
     (\<forall>pk m. map_of (pt_members t) pk = Some m \<longrightarrow> map_of (pt_departed t) pk = None \<and> lm_pubkey m = pk \<and>
        lm_beacon_unix_ms m \<le> off + int (lm_last_seen m) + REPLAY_FRESHNESS_FUTURE \<and> lm_last_seen m \<le> now) \<and>
     (\<forall>pk d. map_of (pt_departed t) pk = Some d \<longrightarrow>
        dp_leave_ms d \<le> off + int (dp_at d) + REPLAY_FRESHNESS_FUTURE \<and> dp_at d \<le> now)"

lemma tracker_ok_later: "tracker_ok off now t \<Longrightarrow> now \<le> now' \<Longrightarrow> tracker_ok off now' t"
  unfolding tracker_ok_def by (meson order_trans)

lemma fold_write_ok:
  assumes "tracker_ok off now t" "sent \<le> off + int now + REPLAY_FRESHNESS_FUTURE"
  shows "tracker_ok off now (snd (fold_write pk h sent now t))"
  using assms
  by (cases "map_of (pt_members t) pk"; cases "map_of (pt_departed t) pk")
    (auto simp: tracker_ok_def fold_write_def Let_def AList.distinct_update distinct_delete
      simp del: map_of_eq_Some_iff split: if_splits)

lemma apply_leave_ok:
  assumes "tracker_ok off now t" "l \<le> off + int now + REPLAY_FRESHNESS_FUTURE"
  shows "tracker_ok off now (snd (apply_leave pk l now t))"
  using assms
  by (cases "map_of (pt_members t) pk"; cases "map_of (pt_departed t) pk")
    (auto simp: tracker_ok_def apply_leave_def Let_def AList.distinct_update distinct_delete
      simp del: map_of_eq_Some_iff split: if_splits)

lemma map_of_filter_values:
  "distinct (map fst al) \<Longrightarrow> map_of (filter (\<lambda>(_, m). P m) al) k = (case map_of al k of Some m \<Rightarrow> if P m then Some m else None | None \<Rightarrow> None)"
  by (induction al) (auto simp: map_of_eq_None_iff split: option.split)

lemma distinct_filter_keys: "distinct (map fst al) \<Longrightarrow> distinct (map fst (filter P al))"
  by (induction al) auto

lemma reap_ok: "tracker_ok off now t \<Longrightarrow> tracker_ok off now (snd (reap now congested t))"
  by (auto simp: tracker_ok_def reap_def Let_def distinct_filter_keys map_of_filter_values simp del: map_of_eq_Some_iff
      split: option.splits if_splits)

lemma room_step_ok:
  assumes "tracker_ok off now t"
  shows "tracker_ok off now (room_step own off (e, now) t)"
  using assms
  by (cases e) (auto simp: ingest_beacon_def ingest_write_def apply_heartbeat_def apply_member_write_def beacon_is_fresh_def
      fold_write_ok apply_leave_ok reap_ok split: option.split)

lemma reap_effect:
  assumes "tracker_ok off now t"
  shows "beacon_at (snd (reap now congested t)) pk = (case map_of (pt_members t) pk of
      Some m \<Rightarrow> if congested \<or> now - lm_last_seen m < pt_ttl t then Some (lm_beacon_unix_ms m) else None | None \<Rightarrow> None)"
    "mark_at (snd (reap now congested t)) pk = (case map_of (pt_departed t) pk of
      Some d \<Rightarrow> if congested \<or> now - dp_at d < pt_ttl t then Some (dp_leave_ms d) else None | None \<Rightarrow> None)"
  using assms
  by (auto simp: tracker_ok_def reap_def beacon_at_def mark_at_def Let_def map_of_filter_values split: option.split)

lemma room_ttl [simp]: "pt_ttl (room_step own off e t) = pt_ttl t"
  by (cases "(own, off, e, t)" rule: room_step.cases)
    (auto simp: ingest_beacon_def ingest_write_def apply_heartbeat_def apply_member_write_def fold_write_def apply_leave_def
      reap_def Let_def split: option.split)

text \<open>No write up to \<open>L\<close> brings the member back: a newer write stands, a leave rules it out, or it is no longer fresh.\<close>

definition barred :: "int \<Rightarrow> nat \<Rightarrow> int \<Rightarrow> byte list \<Rightarrow> presence_tracker \<Rightarrow> bool" where
  "barred off now L pk t \<longleftrightarrow> (case beacon_at t pk of Some b \<Rightarrow> L < b
     | None \<Rightarrow> (\<exists>m. mark_at t pk = Some m \<and> L \<le> m) \<or> L < off + int now - REPLAY_FRESHNESS_PAST)"

lemma barred_later: "barred off now L pk t \<Longrightarrow> now \<le> now' \<Longrightarrow> barred off now' L pk t"
  by (auto simp: barred_def split: option.splits)

lemma barred_write:
  assumes "barred off now L pk t" "off + int now - REPLAY_FRESHNESS_PAST \<le> sent"
  shows "barred off now L pk (snd (fold_write k h sent now t))"
  using assms
  by (cases "beacon_at t pk") (auto simp: barred_def fold_write_effect dominated_def max_def split: if_splits)

lemma barred_leave:
  assumes "barred off now L pk t"
  shows "barred off now L pk (snd (apply_leave k l now t))"
  using assms
  by (cases "beacon_at t pk"; cases "mark_at t pk") (auto simp: barred_def apply_leave_effect stale_leave_def max_def split: if_splits)

lemma barred_reap:
  assumes "barred off now L pk t" "tracker_ok off now t" "pt_ttl t = PRESENCE_TTL"
  shows "barred off now L pk (snd (reap now congested t))"
proof -
  have m: "L < off + int now - REPLAY_FRESHNESS_PAST" if "map_of (pt_members t) pk = Some m" "\<not> now - lm_last_seen m < pt_ttl t" for m
    using assms that by (fastforce simp: barred_def beacon_at_def tracker_ok_def PRESENCE_TTL_def REPLAY_FRESHNESS_PAST_def REPLAY_FRESHNESS_FUTURE_def)
  have d: "L < off + int now - REPLAY_FRESHNESS_PAST" if "map_of (pt_departed t) pk = Some d" "\<not> now - dp_at d < pt_ttl t"
      "L \<le> dp_leave_ms d" for d
    using assms that by (fastforce simp: tracker_ok_def PRESENCE_TTL_def REPLAY_FRESHNESS_PAST_def REPLAY_FRESHNESS_FUTURE_def)
  show ?thesis
    using assms(1) m d unfolding barred_def reap_effect [OF assms(2)]
    by (cases "map_of (pt_members t) pk"; cases "map_of (pt_departed t) pk") (auto simp: beacon_at_def mark_at_def)
qed

lemma barred_step:
  assumes "barred off now L pk t" "tracker_ok off now t" "pt_ttl t = PRESENCE_TTL"
  shows "barred off now L pk (room_step own off (e, now) t)"
  using assms barred_write barred_leave barred_reap
  by (cases e) (auto simp: ingest_beacon_def ingest_write_def apply_heartbeat_def apply_member_write_def beacon_is_fresh_def)

lemma barred_run:
  assumes "barred off now L pk t" "tracker_ok off now t" "pt_ttl t = PRESENCE_TTL" "sorted (now # map snd es)"
  shows "\<exists>now'. barred off now' L pk (fold (room_step own off) es t)"
  using assms
proof (induction es arbitrary: t now)
  case (Cons e es)
  obtain v n where e: "e = (v, n)" by (cases e)
  with Cons.prems(4) have n: "now \<le> n" "sorted (n # map snd es)" by auto
  note b = barred_later [OF Cons.prems(1) n(1)] and o = tracker_ok_later [OF Cons.prems(2) n(1)]
  show ?case
    using Cons.IH [OF barred_step [OF b o Cons.prems(3)] room_step_ok [OF o] _ n(2), of own v] Cons.prems(3) e by simp
qed auto

text \<open>The two ways off the roster bar everything up to the beacon that stood.\<close>

lemma departure_bars:
  assumes "tracker_ok off now t" "pt_ttl t = PRESENCE_TTL" "beacon_at t pk = Some L" "beacon_at (room_step own off (e, now) t) pk = None"
  shows "barred off now L pk (room_step own off (e, now) t)"
proof -
  have r: "L < off + int now - REPLAY_FRESHNESS_PAST" if "map_of (pt_members t) pk = Some m" "\<not> now - lm_last_seen m < pt_ttl t" for m
    using assms that by (fastforce simp: beacon_at_def tracker_ok_def PRESENCE_TTL_def REPLAY_FRESHNESS_PAST_def REPLAY_FRESHNESS_FUTURE_def)
  show ?thesis
  proof (cases e)
    case (RReap c)
    with assms r show ?thesis
      unfolding barred_def RReap room_step.simps reap_effect [OF assms(1)] by (auto simp: beacon_at_def split: if_splits)
  next
    case (RBeacon hb)
    with assms(3,4) show ?thesis
      by (cases "mark_at t pk") (auto simp: barred_def ingest_beacon_def apply_heartbeat_def fold_write_effect apply_leave_effect stale_leave_def
        split: if_splits option.splits)
  next
    case (RChat room k h s)
    with assms(3,4) show ?thesis
      by (auto simp: ingest_write_def apply_member_write_def fold_write_effect split: if_splits option.splits)
  qed
qed


definition demo_beat :: "int \<Rightarrow> bool \<Rightarrow> member_heartbeat" where
  "demo_beat sent leave = \<lparr>hb_room = ''lobby'', hb_sender_pubkey = [1], hb_sender_handle = ''ada'', hb_sent_unix_ms = sent,
     hb_signature = [], hb_live_share_ids = [], hb_is_leave = leave\<rparr>"


end
