(* ===== verification/Route_Budget.thy ===== *)
theory Route_Budget
  imports Prelude "HOL-Library.Multiset"
begin

text \<open>
  The concurrency budget of the download routes (\<open>route_budget.rs\<close>): one window per route, driven by the
  outcomes of its fragments, a global pool, and a learned ceiling per sharer. Counters are \<open>nat\<close>: each is
  bounded by a window, the pool or the number of live leases. A clean-up that recovers a poisoned lock does
  what the ordinary one does.
\<close>

section \<open>The window of a route\<close>

definition W_FLOOR :: nat where "W_FLOOR = 2"
definition W_CEIL :: nat where "W_CEIL = 8"
definition DEFAULT_ROUTE_CEIL :: nat where "DEFAULT_ROUTE_CEIL = W_FLOOR"
definition G_GLOBAL :: nat where "G_GLOBAL = 12"
definition LATENCY_VALVE_BREACHES :: nat where "LATENCY_VALVE_BREACHES = 3"
definition LATENCY_VALVE_WINDOW :: nat where "LATENCY_VALVE_WINDOW = 5"

lemmas budget_sizes = W_FLOOR_def W_CEIL_def DEFAULT_ROUTE_CEIL_def G_GLOBAL_def LATENCY_VALVE_BREACHES_def LATENCY_VALVE_WINDOW_def

datatype fragment_outcome = Completed bool | FragmentFailed

record route_window =
  rw_width :: nat
  rw_ceiling :: nat
  rw_healthy :: nat
  rw_breaches :: "bool list"
  rw_collapsed :: bool

definition window_new :: "nat \<Rightarrow> route_window" where
  "window_new ceiling =
    (let ceiling = min (max ceiling W_FLOOR) W_CEIL
     in \<lparr>rw_width = min W_FLOOR ceiling, rw_ceiling = ceiling, rw_healthy = 0, rw_breaches = [], rw_collapsed = False\<rparr>)"

text \<open>\<open>observe\<close>: the window after one outcome and the ceiling it learned.\<close>

definition window_observe :: "fragment_outcome \<Rightarrow> route_window \<Rightarrow> nat option \<times> route_window" where
  "window_observe outcome w =
    (case outcome of
       FragmentFailed \<Rightarrow>
         let w = w\<lparr>rw_healthy := 0, rw_breaches := []\<rparr>
         in if rw_collapsed w then (None, w)
            else let learned = min (max (rw_width w div 2) W_FLOOR) (rw_ceiling w)
                 in (Some learned, w\<lparr>rw_ceiling := learned, rw_width := min W_FLOOR learned, rw_collapsed := True\<rparr>)
     | Completed over_threshold \<Rightarrow>
         let breaches = rw_breaches w @ [over_threshold];
             breaches = (if length breaches > LATENCY_VALVE_WINDOW then tl breaches else breaches)
         in if length (filter id breaches) \<ge> LATENCY_VALVE_BREACHES
            then (None, w\<lparr>rw_width := max (rw_width w div 2) W_FLOOR, rw_healthy := 0, rw_breaches := []\<rparr>)
            else if \<not> over_threshold then
              let healthy = rw_healthy w + 1
              in if healthy \<ge> rw_width w then
                   (None, if rw_width w < rw_ceiling w
                     then w\<lparr>rw_width := rw_width w + 1, rw_healthy := 0, rw_breaches := breaches, rw_collapsed := False\<rparr>
                     else w\<lparr>rw_healthy := 0, rw_breaches := breaches\<rparr>)
                 else (None, w\<lparr>rw_healthy := healthy, rw_breaches := breaches\<rparr>)
            else (None, w\<lparr>rw_breaches := breaches\<rparr>))"

section \<open>The registry\<close>

record ('r, 's) route_account =
  ra_in_flight :: nat
  ra_window :: route_window
  ra_sharer :: 's
  ra_refs :: nat

record ('r, 's) budget =
  bg_global_in_flight :: nat
  bg_routes :: "'r \<rightharpoonup> ('r, 's) route_account"
  bg_ceilings :: "'s \<rightharpoonup> nat"
  bg_default_ceiling :: nat

definition with_default_ceiling :: "nat \<Rightarrow> ('r, 's) budget" where
  "with_default_ceiling ceiling = \<lparr>bg_global_in_flight = 0, bg_routes = Map.empty, bg_ceilings = Map.empty, bg_default_ceiling = ceiling\<rparr>"

definition budget_new :: "('r, 's) budget" where
  "budget_new = with_default_ceiling DEFAULT_ROUTE_CEIL"

definition lease :: "'r \<Rightarrow> 's \<Rightarrow> ('r, 's) budget \<Rightarrow> ('r, 's) budget" where
  "lease route sharer b =
    (let ceiling = (case bg_ceilings b sharer of Some c \<Rightarrow> c | None \<Rightarrow> bg_default_ceiling b);
         acct = (case bg_routes b route of Some a \<Rightarrow> a
           | None \<Rightarrow> \<lparr>ra_in_flight = 0, ra_window = window_new ceiling, ra_sharer = sharer, ra_refs = 0\<rparr>)
     in b\<lparr>bg_routes := (bg_routes b)(route \<mapsto> acct\<lparr>ra_refs := ra_refs acct + 1, ra_sharer := sharer\<rparr>)\<rparr>)"

text \<open>One turn of the loop of \<open>acquire\<close>: the permit, or another wait.\<close>

definition try_acquire :: "'r \<Rightarrow> ('r, 's) budget \<Rightarrow> bool \<times> ('r, 's) budget" where
  "try_acquire route b =
    (case bg_routes b route of
       Some a \<Rightarrow>
         if ra_in_flight a < rw_width (ra_window a) \<and> bg_global_in_flight b < G_GLOBAL
         then (True, b\<lparr>bg_global_in_flight := bg_global_in_flight b + 1,
           bg_routes := (bg_routes b)(route \<mapsto> a\<lparr>ra_in_flight := ra_in_flight a + 1\<rparr>)\<rparr>)
         else (False, b)
     | None \<Rightarrow> (False, b))"

definition lease_observe :: "'r \<Rightarrow> fragment_outcome \<Rightarrow> ('r, 's) budget \<Rightarrow> ('r, 's) budget" where
  "lease_observe route outcome b =
    (case bg_routes b route of
       None \<Rightarrow> b
     | Some a \<Rightarrow>
         (case window_observe outcome (ra_window a) of (learned, w) \<Rightarrow>
           let b = b\<lparr>bg_routes := (bg_routes b)(route \<mapsto> a\<lparr>ra_window := w\<rparr>)\<rparr>
           in case learned of None \<Rightarrow> b
              | Some l \<Rightarrow> b\<lparr>bg_ceilings := (bg_ceilings b)(ra_sharer a \<mapsto>
                  min (case bg_ceilings b (ra_sharer a) of Some c \<Rightarrow> c | None \<Rightarrow> W_CEIL) l)\<rparr>))"

definition drop_lease :: "'r \<Rightarrow> ('r, 's) budget \<Rightarrow> ('r, 's) budget" where
  "drop_lease route b =
    (case bg_routes b route of
       None \<Rightarrow> b
     | Some a \<Rightarrow>
         if ra_refs a - 1 = 0 then b\<lparr>bg_routes := (bg_routes b)(route := None)\<rparr>
         else b\<lparr>bg_routes := (bg_routes b)(route \<mapsto> a\<lparr>ra_refs := ra_refs a - 1\<rparr>)\<rparr>)"

definition drop_permit :: "'r \<Rightarrow> ('r, 's) budget \<Rightarrow> ('r, 's) budget" where
  "drop_permit route b =
    (let b = (case bg_routes b route of None \<Rightarrow> b
       | Some a \<Rightarrow> b\<lparr>bg_routes := (bg_routes b)(route \<mapsto> a\<lparr>ra_in_flight := ra_in_flight a - 1\<rparr>)\<rparr>)
     in b\<lparr>bg_global_in_flight := bg_global_in_flight b - 1\<rparr>)"

section \<open>The window stays in its band\<close>

definition window_ok :: "route_window \<Rightarrow> bool" where
  "window_ok w \<longleftrightarrow> W_FLOOR \<le> rw_width w \<and> rw_width w \<le> rw_ceiling w \<and> rw_ceiling w \<le> W_CEIL \<and>
     rw_healthy w < rw_width w \<and> length (rw_breaches w) \<le> LATENCY_VALVE_WINDOW \<and>
     length (filter id (rw_breaches w)) < LATENCY_VALVE_BREACHES"

lemma window_new_ok: "window_ok (window_new c)"
  by (auto simp: window_ok_def window_new_def budget_sizes Let_def)

lemma breaches_bound:
  assumes "length bs \<le> n"
  shows "length (if length (bs @ [b]) > n then tl (bs @ [b]) else bs @ [b]) \<le> n"
  using assms by (cases bs) auto

lemma window_observe_ok:
  assumes "window_ok w" "window_observe outcome w = (learned, w')"
  shows "window_ok w'" "rw_ceiling w' \<le> rw_ceiling w"
    "learned = Some l \<Longrightarrow> l = rw_ceiling w' \<and> W_FLOOR \<le> l \<and> l \<le> W_CEIL div 2"
    "learned = None \<Longrightarrow> rw_ceiling w' = rw_ceiling w"
proof -
  define bs where "bs b = (if length (rw_breaches w @ [b]) > LATENCY_VALVE_WINDOW then tl (rw_breaches w @ [b]) else rw_breaches w @ [b])" for b
  have l: "length (bs b) \<le> LATENCY_VALVE_WINDOW" for b
    unfolding bs_def by (rule breaches_bound) (use assms(1) in \<open>simp add: window_ok_def\<close>)
  note o = assms(2) [unfolded window_observe_def Let_def, folded bs_def]
  show "window_ok w'" "rw_ceiling w' \<le> rw_ceiling w"
    "learned = Some l \<Longrightarrow> l = rw_ceiling w' \<and> W_FLOOR \<le> l \<and> l \<le> W_CEIL div 2"
    "learned = None \<Longrightarrow> rw_ceiling w' = rw_ceiling w"
    using assms(1) o l
    by (cases outcome; auto simp: window_ok_def budget_sizes Let_def not_le split: if_splits)+
qed

section \<open>The budget in use\<close>

text \<open>
  A system of downloads on one budget: the leases and permits that are out, as multisets of routes. A permit
  is taken through a lease and the code borrows the lease for as long as it holds the permit, so the last
  lease of a route goes only once its permits have.
\<close>

record ('r, 's) budget_run =
  br_budget :: "('r, 's) budget"
  br_leases :: "'r multiset"
  br_permits :: "'r multiset"

inductive budget_step :: "('r, 's) budget_run \<Rightarrow> ('r, 's) budget_run \<Rightarrow> bool" where
  step_lease: "budget_step x (x\<lparr>br_budget := lease r s (br_budget x), br_leases := add_mset r (br_leases x)\<rparr>)"
| step_acquire: "r \<in># br_leases x \<Longrightarrow> try_acquire r (br_budget x) = (True, b) \<Longrightarrow>
    budget_step x (x\<lparr>br_budget := b, br_permits := add_mset r (br_permits x)\<rparr>)"
| step_wait: "r \<in># br_leases x \<Longrightarrow> try_acquire r (br_budget x) = (False, b) \<Longrightarrow> budget_step x (x\<lparr>br_budget := b\<rparr>)"
| step_observe: "r \<in># br_leases x \<Longrightarrow> budget_step x (x\<lparr>br_budget := lease_observe r outcome (br_budget x)\<rparr>)"
| step_drop_lease: "r \<in># br_leases x \<Longrightarrow> count (br_leases x) r > 1 \<or> r \<notin># br_permits x \<Longrightarrow>
    budget_step x (x\<lparr>br_budget := drop_lease r (br_budget x), br_leases := br_leases x - {#r#}\<rparr>)"
| step_drop_permit: "r \<in># br_permits x \<Longrightarrow>
    budget_step x (x\<lparr>br_budget := drop_permit r (br_budget x), br_permits := br_permits x - {#r#}\<rparr>)"

inductive budget_reach :: "nat \<Rightarrow> ('r, 's) budget_run \<Rightarrow> bool" for c where
  reach_start: "budget_reach c \<lparr>br_budget = with_default_ceiling c, br_leases = {#}, br_permits = {#}\<rparr>"
| reach_step: "budget_reach c x \<Longrightarrow> budget_step x y \<Longrightarrow> budget_reach c y"

definition account_ok :: "('r, 's) budget_run \<Rightarrow> 'r \<Rightarrow> bool" where
  "account_ok x r \<longleftrightarrow> (case bg_routes (br_budget x) r of
     None \<Rightarrow> r \<notin># br_leases x \<and> r \<notin># br_permits x
   | Some a \<Rightarrow> ra_refs a = count (br_leases x) r \<and> 0 < ra_refs a \<and> ra_in_flight a = count (br_permits x) r \<and> window_ok (ra_window a))"

definition budget_ok :: "('r, 's) budget_run \<Rightarrow> bool" where
  "budget_ok x \<longleftrightarrow> (\<forall>r. account_ok x r) \<and> bg_global_in_flight (br_budget x) = size (br_permits x) \<and>
     size (br_permits x) \<le> G_GLOBAL \<and> (\<forall>s c. bg_ceilings (br_budget x) s = Some c \<longrightarrow> W_FLOOR \<le> c \<and> c \<le> W_CEIL)"

lemma budget_okD:
  assumes "budget_ok x"
  shows "account_ok x r" "bg_global_in_flight (br_budget x) = size (br_permits x)" "size (br_permits x) \<le> G_GLOBAL"
    "bg_ceilings (br_budget x) s = Some c \<Longrightarrow> W_FLOOR \<le> c \<and> c \<le> W_CEIL"
  using assms by (auto simp: budget_ok_def)

lemma budget_step_ok: "budget_step x y \<Longrightarrow> budget_ok x \<Longrightarrow> budget_ok y"
proof (induction rule: budget_step.induct)
  case (step_lease x r s)
  note acc = budget_okD(1) [OF step_lease]
  have "account_ok (x\<lparr>br_budget := lease r s (br_budget x), br_leases := add_mset r (br_leases x)\<rparr>) q" for q
    using acc [of q] acc [of r]
    by (auto simp: account_ok_def lease_def Let_def window_new_ok not_in_iff split: option.splits)
  then show ?case using step_lease by (simp add: budget_ok_def lease_def Let_def)
next
  case (step_acquire r x b)
  note acc = budget_okD(1) [OF step_acquire(3)]
  obtain a where a: "bg_routes (br_budget x) r = Some a" "bg_global_in_flight (br_budget x) < G_GLOBAL"
    "b = (br_budget x)\<lparr>bg_global_in_flight := bg_global_in_flight (br_budget x) + 1,
       bg_routes := (bg_routes (br_budget x))(r \<mapsto> a\<lparr>ra_in_flight := ra_in_flight a + 1\<rparr>)\<rparr>"
    using step_acquire(2) by (auto simp: try_acquire_def split: option.splits if_splits)
  have "account_ok (x\<lparr>br_budget := b, br_permits := add_mset r (br_permits x)\<rparr>) q" for q
    using acc [of q] acc [of r] a by (auto simp: account_ok_def split: option.splits)
  then show ?case using step_acquire a by (simp add: budget_ok_def)
next
  case (step_wait r x b)
  then have "b = br_budget x" by (auto simp: try_acquire_def split: option.splits if_splits)
  then show ?case using step_wait by simp
next
  case (step_observe r x outcome)
  note acc = budget_okD(1) [OF step_observe(2)]
  obtain a where a: "bg_routes (br_budget x) r = Some a"
    using acc [of r] step_observe(1) by (auto simp: account_ok_def split: option.splits)
  obtain learned w where o: "window_observe outcome (ra_window a) = (learned, w)" by fastforce
  have wok: "window_ok (ra_window a)" using acc [of r] a by (simp add: account_ok_def)
  note w = window_observe_ok [OF wok o]
  have "account_ok (x\<lparr>br_budget := lease_observe r outcome (br_budget x)\<rparr>) q" for q
    using acc [of q] acc [of r] a o w(1) by (auto simp: account_ok_def lease_observe_def Let_def split: option.splits)
  moreover have "W_FLOOR \<le> c \<and> c \<le> W_CEIL" if "bg_ceilings (lease_observe r outcome (br_budget x)) s = Some c" for s c
    using that budget_okD(4) [OF step_observe(2)] a o w(3)
    by (force simp: lease_observe_def Let_def budget_sizes split: option.splits if_splits)
  moreover have "bg_global_in_flight (lease_observe r outcome (br_budget x)) = bg_global_in_flight (br_budget x)"
    using a o by (simp add: lease_observe_def Let_def split: option.split)
  ultimately show ?case using step_observe(2) by (auto simp: budget_ok_def)
next
  case (step_drop_lease r x)
  note acc = budget_okD(1) [OF step_drop_lease(3)]
  have "account_ok (x\<lparr>br_budget := drop_lease r (br_budget x), br_leases := br_leases x - {#r#}\<rparr>) q" for q
    using acc [of q] acc [of r] step_drop_lease(1,2)
    by (auto simp: account_ok_def drop_lease_def not_in_iff split: option.splits)
  moreover have "bg_global_in_flight (drop_lease r (br_budget x)) = bg_global_in_flight (br_budget x)"
    "bg_ceilings (drop_lease r (br_budget x)) = bg_ceilings (br_budget x)"
    by (auto simp: drop_lease_def split: option.split)
  ultimately show ?case using step_drop_lease(3) by (simp add: budget_ok_def)
next
  case (step_drop_permit r x)
  note acc = budget_okD(1) [OF step_drop_permit(2)]
  have "account_ok (x\<lparr>br_budget := drop_permit r (br_budget x), br_permits := br_permits x - {#r#}\<rparr>) q" for q
    using acc [of q] acc [of r] step_drop_permit(1)
    by (auto simp: account_ok_def drop_permit_def Let_def not_in_iff split: option.splits)
  moreover have "bg_global_in_flight (drop_permit r (br_budget x)) = bg_global_in_flight (br_budget x) - 1"
    "bg_ceilings (drop_permit r (br_budget x)) = bg_ceilings (br_budget x)"
    by (auto simp: drop_permit_def Let_def split: option.split)
  ultimately show ?case using step_drop_permit by (auto simp: budget_ok_def size_Diff_singleton)
qed

lemma budget_reach_ok: "budget_reach c x \<Longrightarrow> budget_ok x"
proof (induction rule: budget_reach.induct)
  case reach_start
  then show ?case by (simp add: budget_ok_def account_ok_def with_default_ceiling_def)
qed (rule budget_step_ok)

text \<open>
  C34. The route budget holds in every run of downloads. The pool never has more than \<open>G_GLOBAL\<close> fragments
  in flight, the counters are exactly the permits that are out, each window keeps between the floor and its
  route's ceiling, a permit is granted only below the window, and the budget never wedges: a lease whose
  route has fewer permits out than the floor is admitted as soon as the pool has room.
\<close>

theorem route_budget_holds:
  assumes "budget_reach c x" and "r \<in># br_leases x"
  shows "\<exists>a. bg_routes (br_budget x) r = Some a \<and> size (br_permits x) \<le> G_GLOBAL \<and>
    bg_global_in_flight (br_budget x) = size (br_permits x) \<and> ra_in_flight a = count (br_permits x) r \<and>
    W_FLOOR \<le> rw_width (ra_window a) \<and> rw_width (ra_window a) \<le> rw_ceiling (ra_window a) \<and> rw_ceiling (ra_window a) \<le> W_CEIL \<and>
    (fst (try_acquire r (br_budget x)) \<longleftrightarrow> count (br_permits x) r < rw_width (ra_window a) \<and> size (br_permits x) < G_GLOBAL) \<and>
    (count (br_permits x) r < W_FLOOR \<and> size (br_permits x) < G_GLOBAL \<longrightarrow> fst (try_acquire r (br_budget x)))"
proof -
  have ok: "budget_ok x" by (rule budget_reach_ok [OF assms(1)])
  then obtain a where "bg_routes (br_budget x) r = Some a"
    using assms(2) by (auto simp: budget_ok_def account_ok_def split: option.splits) (metis not_Some_eq)
  moreover from this ok have "ra_in_flight a = count (br_permits x) r" "window_ok (ra_window a)"
    by (auto simp: budget_ok_def account_ok_def split: option.splits dest!: spec [of _ r])
  ultimately show ?thesis using ok by (auto simp: budget_ok_def window_ok_def try_acquire_def)
qed

definition clean_window :: "route_window \<Rightarrow> route_window" where
  "clean_window w = snd (window_observe (Completed False) w)"

theorem route_budget_holds_witness:
  "\<exists>x :: (nat, nat) budget_run. budget_reach 2 x \<and> br_leases x = {#7#} \<and> br_permits x = {#7#} \<and>
     size (br_permits x) \<le> G_GLOBAL \<and> (fst (try_acquire 7 (br_budget x)) \<longleftrightarrow> (1::nat) < 2)"
proof -
  let ?b = "lease (7::nat) (1::nat) (with_default_ceiling 2)"
  let ?b' = "snd (try_acquire 7 ?b)"
  let ?x = "\<lparr>br_budget = ?b', br_leases = {#7#}, br_permits = {#7#}\<rparr>"
  have l: "budget_reach 2 \<lparr>br_budget = ?b, br_leases = {#7#}, br_permits = {#}\<rparr>"
    using reach_step [OF reach_start [of 2] step_lease [where r = "7::nat" and s = "1::nat"]] by simp
  have "try_acquire 7 ?b = (True, ?b')"
    by (simp add: try_acquire_def lease_def with_default_ceiling_def window_new_def budget_sizes Let_def)
  with reach_step [OF l step_acquire [where r = 7]] have x: "budget_reach 2 ?x" by simp
  moreover have "rw_width (ra_window (the (bg_routes ?b' 7))) = 2"
    by (simp add: try_acquire_def lease_def with_default_ceiling_def window_new_def budget_sizes Let_def)
  ultimately show ?thesis using route_budget_holds [OF x, of 7]
    by (intro exI [of _ ?x]) (auto simp: G_GLOBAL_def)
qed

text \<open>Distance of a window from its ceiling, which every clean completion shortens.\<close>

definition to_widen :: "route_window \<Rightarrow> nat" where
  "to_widen w = (rw_ceiling w - rw_width w) * W_CEIL + (rw_width w - rw_healthy w)"

lemma clean_observe:
  assumes "window_ok w"
  shows "\<exists>bs. clean_window w = (if rw_healthy w + 1 \<ge> rw_width w
      then if rw_width w < rw_ceiling w
        then w\<lparr>rw_width := rw_width w + 1, rw_healthy := 0, rw_breaches := bs, rw_collapsed := False\<rparr>
        else w\<lparr>rw_healthy := 0, rw_breaches := bs\<rparr>
      else w\<lparr>rw_healthy := rw_healthy w + 1, rw_breaches := bs\<rparr>)"
proof -
  define bs where "bs = (if length (rw_breaches w @ [False]) > LATENCY_VALVE_WINDOW then tl (rw_breaches w @ [False]) else rw_breaches w @ [False])"
  have "\<not> LATENCY_VALVE_BREACHES \<le> length (filter id bs)"
    using assms unfolding bs_def by (cases "rw_breaches w") (auto simp: window_ok_def split: if_splits)
  then show ?thesis
    by (intro exI [of _ bs]) (simp only: clean_window_def window_observe_def fragment_outcome.case Let_def bs_def [symmetric] if_False snd_conv
      not_False_eq_True if_True split: if_split, simp)
qed

lemma clean_completion:
  assumes "window_ok w" "rw_width w < rw_ceiling w"
  shows "to_widen (clean_window w) < to_widen w"
proof -
  obtain k where k: "rw_ceiling w = rw_width w + Suc k" using assms(2) by (metis less_iff_Suc_add add_Suc_right)
  from clean_observe [OF assms(1)] show ?thesis
    using assms k by (auto simp: to_widen_def window_ok_def budget_sizes)
qed

lemma clean_at_ceiling:
  assumes "window_ok w" "rw_width w = rw_ceiling w"
  shows "rw_width (clean_window w) = rw_ceiling w"
  using clean_observe [OF assms(1)] assms(2) by auto

lemma window_after:
  assumes "window_ok w"
  shows "window_ok (snd (window_observe (Completed b) w))" "rw_ceiling (snd (window_observe (Completed b) w)) = rw_ceiling w"
proof -
  obtain l w' where o: "window_observe (Completed b) w = (l, w')" by fastforce
  have "l = None" using o by (auto simp: window_observe_def Let_def split: if_splits)
  with window_observe_ok [OF assms o] o show "window_ok (snd (window_observe (Completed b) w))"
    "rw_ceiling (snd (window_observe (Completed b) w)) = rw_ceiling w" by simp_all
qed

lemma clean_run:
  "window_ok w \<Longrightarrow> to_widen w \<le> n \<Longrightarrow> rw_width ((clean_window ^^ n) w) = rw_ceiling w"
proof (induction n arbitrary: w)
  case 0
  then show ?case by (simp add: to_widen_def window_ok_def)
next
  case (Suc n)
  let ?w = "clean_window w"
  note a = window_after [OF Suc.prems(1), of False, folded clean_window_def]
  have at: "rw_width ((clean_window ^^ m) v) = rw_ceiling v"
    if "window_ok v" "rw_width v = rw_ceiling v" for m v
    using that
  proof (induction m arbitrary: v)
    case (Suc m)
    let ?v = "clean_window v"
    have "rw_width ((clean_window ^^ m) ?v) = rw_ceiling ?v"
      by (rule Suc.IH) (use window_after [OF Suc.prems(1), of False, folded clean_window_def] clean_at_ceiling [OF Suc.prems] in simp_all)
    then show ?case using window_after(2) [OF Suc.prems(1), of False, folded clean_window_def] by (simp add: funpow_swap1)
  qed simp
  show ?case
  proof (cases "rw_width w < rw_ceiling w")
    case True
    with clean_completion [OF Suc.prems(1)] Suc.prems(2) have "to_widen ?w \<le> n" by simp
    from Suc.IH [OF a(1) this] a(2) show ?thesis by (simp add: funpow_swap1)
  next
    case False
    then have "rw_width w = rw_ceiling w" using Suc.prems(1) by (simp add: window_ok_def)
    then show ?thesis by (rule at [OF Suc.prems(1)])
  qed
qed

text \<open>
  C35. A window recovers. From any state a window can be in, 56 clean completions in a row bring it to its
  ceiling, and only a failure lowers a ceiling: never below the floor, never above half the largest width,
  and not twice in a row without a widening in between.
\<close>

theorem window_recovers_and_ratchets:
  assumes "window_ok w" "56 \<le> n"
  shows "rw_width ((clean_window ^^ n) w) = rw_ceiling w \<and>
    rw_ceiling (snd (window_observe (Completed b) w)) = rw_ceiling w \<and>
    (let (learned, w') = window_observe FragmentFailed w
     in rw_ceiling w' \<le> rw_ceiling w \<and> (learned = None \<or> learned = Some (rw_ceiling w') \<and> W_FLOOR \<le> rw_ceiling w' \<and> rw_ceiling w' \<le> W_CEIL div 2) \<and>
        rw_collapsed w' \<and> snd (window_observe FragmentFailed w') = w')"
proof -
  obtain l w' where o: "window_observe FragmentFailed w = (l, w')" by fastforce
  have c: "rw_collapsed w'" "rw_healthy w' = 0" "rw_breaches w' = []"
    using o by (auto simp: window_observe_def Let_def split: if_splits)
  then have again: "snd (window_observe FragmentFailed w') = w'" by (simp add: window_observe_def)
  have "to_widen w \<le> n" using assms
    by (auto simp: window_ok_def to_widen_def budget_sizes)
  from clean_run [OF assms(1) this] window_after(2) [OF assms(1), of b] window_observe_ok [OF assms(1) o] o again c(1)
  show ?thesis by (cases l) auto
qed

theorem window_recovers_and_ratchets_witness:
  "window_ok (window_new 8) \<and> rw_width ((clean_window ^^ 56) (window_new 8)) = 8"
  using window_recovers_and_ratchets [OF window_new_ok [of 8], of 56] window_new_ok [of 8]
  by (simp add: window_new_def budget_sizes Let_def)

end
