(* ===== verification/Session_Health.thy ===== *)
theory Session_Health
  imports Prelude
begin

text \<open>
  The consumer's session-health tracker (\<open>session_health.rs\<close>): one pass of sweep results per record, a streak of
  failed passes, the latch of a due repair and the backoff that survives a repair. Counters are the \<open>u32\<close> of
  the code as \<open>nat\<close> with their saturation written out. The reference is the history of a record: what the
  passes since the last success and the last repair say.
\<close>

section \<open>The tracker\<close>

definition REPAIR_K_THRESHOLD :: nat where "REPAIR_K_THRESHOLD = 2"
definition REPAIR_BACKOFF_CAP :: nat where "REPAIR_BACKOFF_CAP = 8"

definition sat32 :: "nat \<Rightarrow> nat" where "sat32 n = min n (2 ^ 32 - 1)"

datatype weather = Calm | Elevated

datatype watch_state = WatchUnknown | WatchLive | WatchDead

record sweep_health_input =
  sh_attempted :: nat
  sh_failed :: nat
  sh_found :: nat
  sh_watch :: watch_state
  sh_weather :: weather

definition is_failed_pass :: "sweep_health_input \<Rightarrow> bool" where
  "is_failed_pass i \<longleftrightarrow> sh_watch i = WatchDead \<or> sh_attempted i > 0 \<and> sh_found i = 0 \<and> sh_failed i > 0"

datatype repair_decision = NotDue | Suppressed | RepairDue

record record_health =
  rh_consecutive_failed :: nat
  rh_repair_due_latched :: bool
  rh_backoff_mult :: nat

definition health_default :: record_health where
  "health_default = \<lparr>rh_consecutive_failed = 0, rh_repair_due_latched = False, rh_backoff_mult = 1\<rparr>"

record 'k health_tracker =
  ht_records :: "'k \<rightharpoonup> record_health"
  ht_k_threshold :: nat

definition health_new :: "'k health_tracker" where
  "health_new = \<lparr>ht_records = Map.empty, ht_k_threshold = REPAIR_K_THRESHOLD\<rparr>"

definition with_threshold :: "nat \<Rightarrow> 'k health_tracker" where
  "with_threshold k_threshold = \<lparr>ht_records = Map.empty, ht_k_threshold = k_threshold\<rparr>"

definition health_observe :: "'k \<Rightarrow> sweep_health_input \<Rightarrow> 'k health_tracker \<Rightarrow> repair_decision \<times> 'k health_tracker" where
  "health_observe key input t =
    (let entry = (case ht_records t key of Some e \<Rightarrow> e | None \<Rightarrow> health_default);
         put = (\<lambda>e. t\<lparr>ht_records := (ht_records t)(key \<mapsto> e)\<rparr>)
     in if sh_attempted input = 0 \<and> sh_watch input \<noteq> WatchDead then (NotDue, put entry)
        else if \<not> is_failed_pass input
        then (NotDue, put (entry\<lparr>rh_consecutive_failed := 0, rh_repair_due_latched := False, rh_backoff_mult := 1\<rparr>))
        else let k = sat32 (ht_k_threshold t * rh_backoff_mult entry);
                 entry = entry\<lparr>rh_consecutive_failed := sat32 (rh_consecutive_failed entry + 1)\<rparr>
             in if rh_consecutive_failed entry < k then (NotDue, put entry)
                else if rh_repair_due_latched entry then (NotDue, put entry)
                else case sh_weather input of
                       Calm \<Rightarrow> (RepairDue, put (entry\<lparr>rh_repair_due_latched := True\<rparr>))
                     | Elevated \<Rightarrow> (Suppressed, put entry))"

definition note_repair_dispatched :: "'k \<Rightarrow> 'k health_tracker \<Rightarrow> 'k health_tracker" where
  "note_repair_dispatched key t =
    (case ht_records t key of
       Some e \<Rightarrow> t\<lparr>ht_records := (ht_records t)(key \<mapsto> e\<lparr>rh_consecutive_failed := 0, rh_repair_due_latched := False,
         rh_backoff_mult := min (sat32 (rh_backoff_mult e * 2)) REPAIR_BACKOFF_CAP\<rparr>)\<rparr>
     | None \<Rightarrow> t)"

definition health_clear :: "'k \<Rightarrow> 'k health_tracker \<Rightarrow> 'k health_tracker" where
  "health_clear key t = t\<lparr>ht_records := (ht_records t)(key := None)\<rparr>"

definition is_repair_due :: "'k \<Rightarrow> 'k health_tracker \<Rightarrow> bool" where
  "is_repair_due key t \<longleftrightarrow> (case ht_records t key of Some r \<Rightarrow> rh_repair_due_latched r | None \<Rightarrow> False)"

section \<open>Against the history\<close>

datatype 'k health_event = Pass 'k sweep_health_input | Dispatched 'k | Cleared 'k

fun health_step :: "'k health_event \<Rightarrow> 'k health_tracker \<Rightarrow> 'k health_tracker" where
  "health_step (Pass k i) t = snd (health_observe k i t)"
| "health_step (Dispatched k) t = note_repair_dispatched k t"
| "health_step (Cleared k) t = health_clear k t"

text \<open>The kinds of pass, and the history of one record, newest event first.\<close>

definition silent :: "sweep_health_input \<Rightarrow> bool" where
  "silent i \<longleftrightarrow> sh_attempted i = 0 \<and> sh_watch i \<noteq> WatchDead"

datatype mark = Served | FailedIn weather | Repaired

fun tracked :: "'k \<Rightarrow> 'k health_event list \<Rightarrow> bool" where
  "tracked k [] \<longleftrightarrow> False"
| "tracked k (Pass k' i # es) \<longleftrightarrow> k' = k \<or> tracked k es"
| "tracked k (Dispatched k' # es) \<longleftrightarrow> tracked k es"
| "tracked k (Cleared k' # es) \<longleftrightarrow> k' \<noteq> k \<and> tracked k es"

fun marks :: "'k \<Rightarrow> 'k health_event list \<Rightarrow> mark list" where
  "marks k [] = []"
| "marks k (Pass k' i # es) =
    (if k' \<noteq> k \<or> silent i then marks k es
     else if is_failed_pass i then FailedIn (sh_weather i) # marks k es else Served # marks k es)"
| "marks k (Dispatched k' # es) = (if k' = k \<and> tracked k es then Repaired # marks k es else marks k es)"
| "marks k (Cleared k' # es) = (if k' = k then [] else marks k es)"

text \<open>
  The present episode is the failures since the last success or repair; the repairs since the last success
  set the length it needs.
\<close>

definition episode :: "mark list \<Rightarrow> mark list" where
  "episode ms = takeWhile (\<lambda>m. m \<noteq> Served \<and> m \<noteq> Repaired) ms"

definition repairs :: "mark list \<Rightarrow> nat" where
  "repairs ms = length (filter (\<lambda>m. m = Repaired) (takeWhile (\<lambda>m. m \<noteq> Served) ms))"

definition needed :: "nat \<Rightarrow> mark list \<Rightarrow> nat" where
  "needed base ms = sat32 (base * min (2 ^ repairs ms) REPAIR_BACKOFF_CAP)"

text \<open>
  A repair is due once the episode is long enough and some pass of it, from the one that made it long enough
  on, was calm.
\<close>

definition long_and_calm :: "nat \<Rightarrow> mark list \<Rightarrow> bool" where
  "long_and_calm n ep \<longleftrightarrow> (\<exists>i < length ep. ep ! i = FailedIn Calm \<and> n \<le> length ep - i)"

definition due :: "nat \<Rightarrow> mark list \<Rightarrow> bool" where
  "due base ms \<longleftrightarrow> long_and_calm (needed base ms) (episode ms)"

lemma sat32_sat32 [simp]: "sat32 (sat32 n + 1) = sat32 (n + 1)" "sat32 (Suc (sat32 n)) = sat32 (Suc n)"
  by (auto simp: sat32_def min_def)

lemma below_sat32 [simp]: "sat32 n < sat32 m \<longleftrightarrow> n < sat32 m"
  by (auto simp: sat32_def min_def)

lemma episode_simps [simp]:
  "episode [] = []" "episode (Served # ms) = []" "episode (Repaired # ms) = []"
  "episode (FailedIn w # ms) = FailedIn w # episode ms"
  by (simp_all add: episode_def)

lemma repairs_simps [simp]:
  "repairs [] = 0" "repairs (Served # ms) = 0" "repairs (Repaired # ms) = Suc (repairs ms)" "repairs (FailedIn w # ms) = repairs ms"
  by (simp_all add: repairs_def)

lemma needed_failed [simp]: "needed base (FailedIn w # ms) = needed base ms"
  by (simp add: needed_def)

lemma long_and_calm_simps [simp]:
  "\<not> long_and_calm n []"
  "long_and_calm n (m # ep) \<longleftrightarrow> m = FailedIn Calm \<and> n \<le> Suc (length ep) \<or> long_and_calm n ep"
  by (auto simp: long_and_calm_def less_Suc_eq_0_disj)

lemma due_simps [simp]:
  "\<not> due base []" "\<not> due base (Served # ms)" "\<not> due base (Repaired # ms)"
  "due base (FailedIn w # ms) \<longleftrightarrow> w = Calm \<and> needed base ms \<le> Suc (length (episode ms)) \<or> due base ms"
  by (simp_all add: due_def)

lemma fresh_record [simp]: "sat32 0 = 0" "min (Suc 0) REPAIR_BACKOFF_CAP = Suc 0"
  by (simp_all add: sat32_def REPAIR_BACKOFF_CAP_def)

lemma backoff_doubles: "min (sat32 (min (2 ^ r) REPAIR_BACKOFF_CAP * 2)) REPAIR_BACKOFF_CAP = min (2 ^ Suc r) REPAIR_BACKOFF_CAP"
  by (auto simp: sat32_def REPAIR_BACKOFF_CAP_def min_def)

definition health_of :: "nat \<Rightarrow> mark list \<Rightarrow> record_health" where
  "health_of base ms = \<lparr>rh_consecutive_failed = sat32 (length (episode ms)), rh_repair_due_latched = due base ms,
     rh_backoff_mult = min (2 ^ repairs ms) REPAIR_BACKOFF_CAP\<rparr>"

definition follows :: "nat \<Rightarrow> 'k health_event list \<Rightarrow> 'k health_tracker \<Rightarrow> bool" where
  "follows base es t \<longleftrightarrow> ht_k_threshold t = base \<and>
     (\<forall>k. (case ht_records t k of Some e \<Rightarrow> e | None \<Rightarrow> health_default) = health_of base (marks k es) \<and>
          (ht_records t k = None \<longleftrightarrow> \<not> tracked k es))"

lemma followsD:
  assumes "follows base es t"
  shows "(case ht_records t k of Some e \<Rightarrow> e | None \<Rightarrow> health_default) = health_of base (marks k es)"
    "ht_k_threshold t = base" "ht_records t k = None \<longleftrightarrow> \<not> tracked k es"
  using assms by (simp_all add: follows_def)

definition decision :: "nat \<Rightarrow> mark list \<Rightarrow> sweep_health_input \<Rightarrow> repair_decision" where
  "decision base ms i =
    (if silent i \<or> \<not> is_failed_pass i \<or> Suc (length (episode ms)) < needed base ms \<or> due base ms then NotDue
     else if sh_weather i = Calm then RepairDue else Suppressed)"

lemma observe_follows:
  assumes "follows base es t"
  shows "fst (health_observe k i t) = decision base (marks k es) i"
    "snd (health_observe k i t) = t\<lparr>ht_records := (ht_records t)(k \<mapsto> health_of base (marks k (Pass k i # es)))\<rparr>"
proof -
  note f = followsD [OF assms]
  show "fst (health_observe k i t) = decision base (marks k es) i"
    unfolding health_observe_def Let_def f
    by (cases "sh_weather i") (auto simp: decision_def silent_def health_of_def needed_def not_less)
  show "snd (health_observe k i t) = t\<lparr>ht_records := (ht_records t)(k \<mapsto> health_of base (marks k (Pass k i # es)))\<rparr>"
    unfolding health_observe_def Let_def f
    by (cases "sh_weather i") (auto simp: silent_def health_of_def needed_def not_less not_le)
qed

lemma health_step_follows: "follows base es t \<Longrightarrow> follows base (e # es) (health_step e t)"
proof (cases e)
  case (Pass k i)
  assume f: "follows base es t"
  then show ?thesis unfolding Pass health_step.simps observe_follows(2) [OF f]
    by (auto simp: follows_def)
next
  case (Dispatched k)
  assume f: "follows base es t"
  note g = followsD [OF f]
  show ?thesis
  proof (cases "ht_records t k")
    case None
    then have "note_repair_dispatched k t = t" "\<not> tracked k es" using g(3) [of k] by (simp_all add: note_repair_dispatched_def)
    then show ?thesis using f by (auto simp: Dispatched follows_def)
  next
    case (Some e)
    have e: "e = health_of base (marks k es)" "tracked k es" using g(1,3) [of k] Some by simp_all
    have "note_repair_dispatched k t = t\<lparr>ht_records := (ht_records t)(k \<mapsto> health_of base (Repaired # marks k es))\<rparr>"
      using Some e(1) backoff_doubles [of "repairs (marks k es)"] by (simp add: note_repair_dispatched_def health_of_def sat32_def)
    then show ?thesis using f e(2) by (auto simp: Dispatched follows_def)
  qed
next
  case (Cleared k)
  assume "follows base es t"
  then show ?thesis
    by (auto simp: Cleared follows_def health_clear_def health_of_def health_default_def sat32_def REPAIR_BACKOFF_CAP_def)
qed

lemma run_follows: "follows base es (foldr health_step es (with_threshold base))"
proof (induction es)
  case Nil
  show ?case by (simp add: follows_def with_threshold_def health_of_def health_default_def sat32_def REPAIR_BACKOFF_CAP_def)
qed (simp add: health_step_follows)

lemma needed_bound: "needed base ms \<le> base * REPAIR_BACKOFF_CAP"
proof -
  have "base * min (2 ^ repairs ms) REPAIR_BACKOFF_CAP \<le> base * REPAIR_BACKOFF_CAP" by simp
  then show ?thesis unfolding needed_def sat32_def by (rule min.coboundedI1)
qed

lemma dead_record_is_due: "0 < n \<Longrightarrow> base * REPAIR_BACKOFF_CAP \<le> n \<Longrightarrow> due base (replicate n (FailedIn Calm) @ ms)"
proof -
  assume n: "0 < n" "base * REPAIR_BACKOFF_CAP \<le> n"
  have "needed base (replicate m (FailedIn Calm) @ ms) = needed base ms \<and>
      length (episode (replicate m (FailedIn Calm) @ ms)) = m + length (episode ms)" for m
    by (induction m) simp_all
  with n needed_bound [of base ms] show ?thesis by (cases n) auto
qed

text \<open>
  C36. The tracker decides by the history. After any sequence of passes, repairs and clearings, over any number
  of records, the decision on the next pass of a record is the one its own history calls for: a repair when the
  pass is calm and makes the episode as long as the repairs since the last success require, a suppression when
  the weather is elevated, and one repair an episode. A record that stays dead in calm weather is due after at
  most \<open>REPAIR_BACKOFF_CAP\<close> times the threshold of passes, whatever came before.
\<close>

theorem decision_follows_history:
  fixes es :: "'k health_event list" and base :: nat
  defines "t \<equiv> foldr health_step es (with_threshold base)"
  shows "fst (health_observe k i t) = decision base (marks k es) i \<and> (is_repair_due k t \<longleftrightarrow> due base (marks k es)) \<and>
    (0 < n \<and> base * REPAIR_BACKOFF_CAP \<le> n \<longrightarrow> due base (replicate n (FailedIn Calm) @ marks k es))"
proof -
  have f: "follows base es t" unfolding t_def by (rule run_follows)
  have "is_repair_due k t \<longleftrightarrow> rh_repair_due_latched (case ht_records t k of Some e \<Rightarrow> e | None \<Rightarrow> health_default)"
    by (simp add: is_repair_due_def health_default_def split: option.split)
  then have "is_repair_due k t \<longleftrightarrow> due base (marks k es)"
    unfolding followsD(1) [OF f] by (simp add: health_of_def)
  with observe_follows(1) [OF f] dead_record_is_due show ?thesis by blast
qed

definition dead_pass :: sweep_health_input where
  "dead_pass = \<lparr>sh_attempted = 3, sh_failed = 3, sh_found = 0, sh_watch = WatchUnknown, sh_weather = Calm\<rparr>"

theorem decision_follows_history_witness:
  "fst (health_observe (1::nat) dead_pass (foldr health_step [Pass 1 dead_pass, Dispatched 1, Pass 2 dead_pass, Pass 1 dead_pass, Pass 1 dead_pass] (with_threshold 2))) = NotDue \<and>
   fst (health_observe (1::nat) dead_pass (foldr health_step [Pass 2 dead_pass, Pass 1 dead_pass] (with_threshold 2))) = RepairDue \<and>
   due 2 (replicate 16 (FailedIn Calm) @ marks (1::nat) [Pass 1 dead_pass])"
  using decision_follows_history [of "1::nat" dead_pass "[Pass 1 dead_pass, Dispatched 1, Pass 2 dead_pass, Pass 1 dead_pass, Pass 1 dead_pass]" 2]
    decision_follows_history [of "1::nat" dead_pass "[Pass 2 dead_pass, Pass 1 dead_pass]" 2]
    decision_follows_history [of "1::nat" dead_pass "[Pass 1 dead_pass]" 2 16]
  by (simp add: decision_def dead_pass_def silent_def is_failed_pass_def needed_def sat32_def REPAIR_BACKOFF_CAP_def del: foldr.simps)

end
