(* ===== verification/Route_Guard.thy ===== *)
theory Route_Guard
  imports Prelude "HOL-Library.Multiset"
begin

text \<open>
  The guard of imported routes (\<open>route_guard.rs\<close>): one entry per share, with the route last imported, the fetches
  in flight, one superseded route held back, and the mark of a withdrawal. Routes are compared only by the
  caller; the count of fetches is bounded by the fetches that are running.
\<close>

section \<open>The guard\<close>

record 'r guard_entry =
  ge_route :: "'r option"
  ge_in_flight :: nat
  ge_pending_release :: "'r option"
  ge_withdrawn :: bool

definition entry_default :: "'r guard_entry" where
  "entry_default = \<lparr>ge_route = None, ge_in_flight = 0, ge_pending_release = None, ge_withdrawn = False\<rparr>"

definition entry_is_empty :: "'r guard_entry \<Rightarrow> bool" where
  "entry_is_empty e \<longleftrightarrow> ge_route e = None \<and> ge_in_flight e = 0 \<and> ge_pending_release e = None"

type_synonym ('s, 'r) route_guard = "'s \<rightharpoonup> 'r guard_entry"

definition guard_new :: "('s, 'r) route_guard" where "guard_new = Map.empty"

definition guard_gc :: "'s \<Rightarrow> ('s, 'r) route_guard \<Rightarrow> ('s, 'r) route_guard" where
  "guard_gc share g = (case g share of Some e \<Rightarrow> if entry_is_empty e then g(share := None) else g | None \<Rightarrow> g)"

definition note_fetch_started :: "'s \<Rightarrow> ('s, 'r) route_guard \<Rightarrow> ('s, 'r) route_guard" where
  "note_fetch_started share g =
    (let entry = (case g share of Some e \<Rightarrow> e | None \<Rightarrow> entry_default)
     in g(share \<mapsto> entry\<lparr>ge_in_flight := ge_in_flight entry + 1, ge_withdrawn := False\<rparr>))"

definition note_fetch_finished :: "'s \<Rightarrow> 'r option \<Rightarrow> ('s, 'r) route_guard \<Rightarrow> 'r list \<times> ('s, 'r) route_guard" where
  "note_fetch_finished share imported g =
    (case g share of
       None \<Rightarrow>
         ([], case imported of None \<Rightarrow> g
              | Some route \<Rightarrow> g(share \<mapsto> \<lparr>ge_route = Some route, ge_in_flight = 0, ge_pending_release = None, ge_withdrawn = False\<rparr>))
     | Some entry \<Rightarrow>
         let entry = entry\<lparr>ge_in_flight := ge_in_flight entry - 1\<rparr>;
             entry = (case imported of Some route \<Rightarrow> entry\<lparr>ge_route := Some route\<rparr> | None \<Rightarrow> entry);
             (release, entry) =
               (if ge_in_flight entry = 0
                then let release = (case ge_pending_release entry of Some pending \<Rightarrow> [pending] | None \<Rightarrow> []);
                         entry = entry\<lparr>ge_pending_release := None\<rparr>
                     in if ge_withdrawn entry
                        then case ge_route entry of
                               Some route \<Rightarrow> (release @ [route], entry\<lparr>ge_route := None\<rparr>)
                             | None \<Rightarrow> (release, entry)
                        else (release, entry)
                else ([], entry))
         in (release, guard_gc share (g(share \<mapsto> entry))))"

definition note_advert_replaced :: "'s \<Rightarrow> ('s, 'r) route_guard \<Rightarrow> 'r option \<times> ('s, 'r) route_guard" where
  "note_advert_replaced share g =
    (case g share of
       None \<Rightarrow> (None, g)
     | Some entry \<Rightarrow>
         (case ge_route entry of
            None \<Rightarrow> (None, g)
          | Some superseded \<Rightarrow>
              let entry = entry\<lparr>ge_route := None\<rparr>
              in if ge_in_flight entry = 0 then (Some superseded, guard_gc share (g(share \<mapsto> entry)))
                 else (None, g(share \<mapsto> (if ge_pending_release entry = None
                                         then entry\<lparr>ge_pending_release := Some superseded\<rparr> else entry)))))"

definition note_share_withdrawn :: "'s \<Rightarrow> ('s, 'r) route_guard \<Rightarrow> 'r option \<times> ('s, 'r) route_guard" where
  "note_share_withdrawn share g =
    (case g share of
       None \<Rightarrow> (None, g)
     | Some entry \<Rightarrow>
         if ge_in_flight entry = 0 then (ge_route entry, g(share := None))
         else (None, g(share \<mapsto> entry\<lparr>ge_withdrawn := True\<rparr>)))"

section \<open>Runs\<close>

text \<open>
  The calls of a net actor, in any order: also a finish without a start, which the code expects. A run keeps, per
  share, the fetches in flight, the routes the fetches imported, those handed back for release, and those the
  guard leaves to the transport's own cache: a route a later import replaced, or one superseded while another
  was already held back.
\<close>

datatype ('s, 'r) guard_event = FetchStarted 's | FetchFinished 's "'r option" | AdvertReplaced 's | ShareWithdrawn 's

primrec mset_of :: "'r option \<Rightarrow> 'r multiset" where
  "mset_of None = {#}"
| "mset_of (Some r) = {#r#}"

record ('s, 'r) guard_run =
  gr_guard :: "('s, 'r) route_guard"
  gr_flying :: "'s \<Rightarrow> nat"
  gr_imported :: "'s \<Rightarrow> 'r multiset"
  gr_released :: "'s \<Rightarrow> 'r multiset"
  gr_left :: "'s \<Rightarrow> 'r multiset"

definition guard_start :: "('s, 'r) guard_run" where
  "guard_start = \<lparr>gr_guard = guard_new, gr_flying = (\<lambda>_. 0), gr_imported = (\<lambda>_. {#}), gr_released = (\<lambda>_. {#}), gr_left = (\<lambda>_. {#})\<rparr>"

fun event_share :: "('s, 'r) guard_event \<Rightarrow> 's" where
  "event_share (FetchStarted s) = s"
| "event_share (FetchFinished s i) = s"
| "event_share (AdvertReplaced s) = s"
| "event_share (ShareWithdrawn s) = s"

fun guard_call :: "('s, 'r) guard_event \<Rightarrow> ('s, 'r) route_guard \<Rightarrow> 'r multiset \<times> ('s, 'r) route_guard" where
  "guard_call (FetchStarted s) g = ({#}, note_fetch_started s g)"
| "guard_call (FetchFinished s i) g = map_prod mset id (note_fetch_finished s i g)"
| "guard_call (AdvertReplaced s) g = map_prod mset_of id (note_advert_replaced s g)"
| "guard_call (ShareWithdrawn s) g = map_prod mset_of id (note_share_withdrawn s g)"

fun left_by :: "('s, 'r) guard_event \<Rightarrow> 'r guard_entry option \<Rightarrow> 'r multiset" where
  "left_by (FetchFinished s (Some r)) (Some e) = mset_of (ge_route e)"
| "left_by (AdvertReplaced s) (Some e) = (if ge_in_flight e > 0 \<and> ge_pending_release e \<noteq> None then mset_of (ge_route e) else {#})"
| "left_by c e = {#}"

fun flying_after :: "('s, 'r) guard_event \<Rightarrow> nat \<Rightarrow> nat" where
  "flying_after (FetchStarted s) n = n + 1"
| "flying_after (FetchFinished s i) n = n - 1"
| "flying_after c n = n"

fun imported_by :: "('s, 'r) guard_event \<Rightarrow> 'r multiset" where
  "imported_by (FetchFinished s i) = mset_of i"
| "imported_by c = {#}"

definition guard_exec :: "('s, 'r) guard_event \<Rightarrow> ('s, 'r) guard_run \<Rightarrow> ('s, 'r) guard_run" where
  "guard_exec c x =
    (let s = event_share c; (released, g) = guard_call c (gr_guard x)
     in \<lparr>gr_guard = g, gr_flying = (gr_flying x)(s := flying_after c (gr_flying x s)),
         gr_imported = (gr_imported x)(s := gr_imported x s + imported_by c),
         gr_released = (gr_released x)(s := gr_released x s + released),
         gr_left = (gr_left x)(s := gr_left x s + left_by c (gr_guard x s))\<rparr>)"

section \<open>What an entry may look like\<close>

definition held :: "'r guard_entry option \<Rightarrow> 'r multiset" where
  "held oe = (case oe of None \<Rightarrow> {#} | Some e \<Rightarrow> mset_of (ge_route e) + mset_of (ge_pending_release e))"

definition entry_ok :: "nat \<Rightarrow> 'r guard_entry option \<Rightarrow> bool" where
  "entry_ok flying oe \<longleftrightarrow> (case oe of None \<Rightarrow> flying = 0
     | Some e \<Rightarrow> ge_in_flight e = flying \<and>
         (flying = 0 \<longrightarrow> ge_route e \<noteq> None \<and> ge_pending_release e = None \<and> \<not> ge_withdrawn e))"

definition run_ok :: "('s, 'r) guard_run \<Rightarrow> bool" where
  "run_ok x \<longleftrightarrow> (\<forall>s. entry_ok (gr_flying x s) (gr_guard x s) \<and>
     gr_imported x s = gr_released x s + held (gr_guard x s) + gr_left x s)"

text \<open>A call touches its own share and conserves its routes.\<close>

lemma guard_call_other: "s \<noteq> event_share c \<Longrightarrow> snd (guard_call c g) s = g s"
  by (cases c) (auto simp: note_fetch_started_def note_fetch_finished_def note_advert_replaced_def note_share_withdrawn_def
    guard_gc_def Let_def split: option.splits)

lemma guard_call_own:
  assumes "entry_ok n (g s)" "event_share c = s"
  shows "entry_ok (flying_after c n) (snd (guard_call c g) s)"
    "held (g s) + imported_by c = fst (guard_call c g) + held (snd (guard_call c g) s) + left_by c (g s)"
    "fst (guard_call c g) \<noteq> {#} \<Longrightarrow> flying_after c n = 0"
  using assms
  by (cases c; cases "g s"; force simp: entry_ok_def entry_default_def note_fetch_started_def note_fetch_finished_def
    note_advert_replaced_def note_share_withdrawn_def guard_gc_def entry_is_empty_def held_def Let_def split: option.splits if_splits)+

lemma guard_exec_ok: "run_ok x \<Longrightarrow> run_ok (guard_exec c x)"
proof -
  assume ok: "run_ok x"
  then have e: "entry_ok (gr_flying x s) (gr_guard x s)"
    "gr_imported x s = gr_released x s + held (gr_guard x s) + gr_left x s" for s by (simp_all add: run_ok_def)
  obtain rel g where c: "guard_call c (gr_guard x) = (rel, g)" by fastforce
  note own = guard_call_own [where s = "event_share c" and c = c and g = "gr_guard x", OF e(1) refl, unfolded c fst_conv snd_conv]
  note other = guard_call_other [of _ c "gr_guard x", unfolded c snd_conv]
  have "gr_imported x (event_share c) + imported_by c =
      gr_released x (event_share c) + rel + held (g (event_share c)) + (gr_left x (event_share c) + left_by c (gr_guard x (event_share c)))"
    unfolding e(2) using own(2) by (simp add: add_ac)
  then show ?thesis using e own(1) other by (simp add: run_ok_def guard_exec_def Let_def c)
qed

lemma guard_runs_ok: "run_ok (fold guard_exec cs x)" if "run_ok x"
  using that by (induction cs arbitrary: x) (simp_all add: guard_exec_ok)

lemma guard_start_ok: "run_ok guard_start"
  by (simp add: run_ok_def guard_start_def guard_new_def entry_ok_def held_def)

text \<open>
  C38. The guard keeps its shape: after any calls in any order an entry counts exactly the fetches in flight, and
  an entry kept while the share is idle holds a route, holds nothing back and carries no withdrawal. So the
  map has no entry that only waits, and a withdrawal of an idle share leaves nothing behind.
\<close>

theorem guard_entries_well_formed:
  "case gr_guard (fold guard_exec cs guard_start) s of
     None \<Rightarrow> gr_flying (fold guard_exec cs guard_start) s = 0
   | Some e \<Rightarrow> ge_in_flight e = gr_flying (fold guard_exec cs guard_start) s \<and>
       (ge_in_flight e > 0 \<or> ge_route e \<noteq> None \<and> ge_pending_release e = None \<and> ge_withdrawn e = False)"
  using guard_runs_ok [OF guard_start_ok, of cs]
  by (auto simp: run_ok_def entry_ok_def split: option.splits dest!: spec [of _ s])

text \<open>
  C37. No route is released under a fetch, none twice and none that was not imported. In every run each import is
  in exactly one place: handed back once, held by the guard, or left to the transport's cache; and a call that
  hands a route back leaves its share without a fetch in flight.
\<close>

theorem guard_conserves_routes:
  fixes cs :: "('s, 'r) guard_event list"
  defines "x \<equiv> fold guard_exec cs guard_start"
  shows "gr_imported x s = gr_released x s + held (gr_guard x s) + gr_left x s \<and>
    (gr_released (guard_exec c x) s \<noteq> gr_released x s \<longrightarrow> gr_flying (guard_exec c x) s = 0)"
proof -
  have ok: "run_ok x" unfolding x_def by (rule guard_runs_ok [OF guard_start_ok])
  obtain rel g where c: "guard_call c (gr_guard x) = (rel, g)" by fastforce
  have "gr_flying (guard_exec c x) s = 0" if "gr_released (guard_exec c x) s \<noteq> gr_released x s"
    using that guard_call_own(3) [of "gr_flying x s" "gr_guard x" s c] ok c
    by (auto simp: guard_exec_def Let_def run_ok_def split: if_splits)
  with ok show ?thesis by (simp add: run_ok_def)
qed

theorem guard_conserves_routes_witness:
  "let x = fold guard_exec [FetchStarted (1::nat), FetchFinished 1 (Some (5::nat))] guard_start
   in gr_released x 1 = {#} \<and> gr_released (guard_exec (AdvertReplaced 1) x) 1 = {#5#} \<and> gr_flying (guard_exec (AdvertReplaced 1) x) 1 = 0"
proof -
  let ?x = "fold guard_exec [FetchStarted (1::nat), FetchFinished 1 (Some (5::nat))] guard_start"
  have r: "gr_released ?x 1 = {#}" "gr_released (guard_exec (AdvertReplaced 1) ?x) 1 = {#5#}"
    by (simp_all add: guard_exec_def guard_start_def guard_new_def note_fetch_started_def note_fetch_finished_def
      note_advert_replaced_def entry_default_def guard_gc_def entry_is_empty_def)
  then have "gr_released (guard_exec (AdvertReplaced 1) ?x) 1 \<noteq> gr_released ?x 1" by simp
  then have "gr_flying (guard_exec (AdvertReplaced 1) ?x) 1 = 0"
    using guard_conserves_routes [of "[FetchStarted (1::nat), FetchFinished 1 (Some (5::nat))]" 1 "AdvertReplaced 1"] by blast
  with r show ?thesis by (simp add: Let_def)
qed

end
