(* ===== verification/Room_Messages.thy ===== *)
theory Room_Messages
  imports Presence Channel_Wire
begin

text \<open>
  The sealed and signed messages of a room: the presence beacon (\<open>heartbeat.rs\<close>), the chat message
  (\<open>room_message.rs\<close>, as a circle and a public room use it), the roll call (\<open>share_rollcall.rs\<close>) and the share
  announcement (\<open>share_announce.rs\<close>). Each is signed over a domain and length-prefixed fields, encoded by
  \<open>prost\<close> and sealed under the room's key. The \<open>prost\<close> crate is not part of the repository: a message type
  has its encoder and decoder as a pair \<open>codec\<close>, whose documented law is that a well-formed message decodes
  to itself and a decoded message is one of its Rust type. Strings are their bytes as characters, \<open>i64\<close> values integers.
\<close>

section \<open>Encodings\<close>

record ('m, 'd) codec =
  encode_to_vec :: "'m \<Rightarrow> byte list"
  decode_msg :: "byte list \<Rightarrow> 'd + 'm"

definition codec_law :: "('m, 'd) codec \<Rightarrow> ('m \<Rightarrow> bool) \<Rightarrow> bool" where
  "codec_law c ok \<longleftrightarrow> (\<forall>m. ok m \<longrightarrow> decode_msg c (encode_to_vec c m) = Inr m) \<and> (\<forall>bs m. decode_msg c bs = Inr m \<longrightarrow> ok m)"

lemma codec_lawD:
  assumes "codec_law c ok"
  shows "ok m \<Longrightarrow> decode_msg c (encode_to_vec c m) = Inr m" "decode_msg c bs = Inr m \<Longrightarrow> ok m"
  using assms by (auto simp: codec_law_def)

definition i64_ok :: "int \<Rightarrow> bool" where "i64_ok x \<longleftrightarrow> - (2 ^ 63) \<le> x \<and> x < 2 ^ 63"

definition i64_be :: "int \<Rightarrow> byte list" where "i64_be x = u64_be (word_of_int x)"

text \<open>A Rust \<open>String\<close> is UTF-8 and, like any slice, shorter than \<open>2 ^ 64\<close> bytes.\<close>

definition string_ok :: "string \<Rightarrow> bool" where "string_ok s \<longleftrightarrow> utf8_valid (ascii s) \<and> lp_ok (ascii s)"

lemma length_i64_be [simp]: "length (i64_be x) = 8"
  by (simp add: i64_be_def)

lemma i64_be_inj: "i64_ok x \<Longrightarrow> i64_ok y \<Longrightarrow> i64_be x = i64_be y \<longleftrightarrow> x = y"
proof
  assume ok: "i64_ok x" "i64_ok y" and e: "i64_be x = i64_be y"
  then have "(word_of_int x :: u64) = word_of_int y" by (metis i64_be_def u64_of_be_u64_be)
  then have "x mod 2 ^ 64 = y mod 2 ^ 64" by (simp add: word_of_int_eq_iff take_bit_eq_mod)
  then have "2 ^ 64 dvd x - y" by (simp add: mod_eq_dvd_iff)
  moreover have "\<bar>x - y\<bar> < 2 ^ 64" using ok by (auto simp: i64_ok_def abs_less_iff)
  ultimately show "x = y" using zdvd_not_zless [of "\<bar>x - y\<bar>" "2 ^ 64"] by auto
qed simp

lemma ascii_inj [simp]: "ascii s = ascii t \<longleftrightarrow> s = t"
proof
  assume "ascii s = ascii t"
  moreover have "inj (of_char :: char \<Rightarrow> byte)"
  proof (rule injI)
    fix c d :: char
    assume "(of_char c :: byte) = of_char d"
    then have "unat (word_of_nat (of_char c) :: byte) = unat (word_of_nat (of_char d) :: byte)"
      by (simp only: of_nat_of_char)
    then have "(of_char c :: nat) mod 256 = of_char d mod 256" by (simp only: unat_of_nat) simp
    then show "c = d" by (simp only: of_char_mod_256 of_char_eq_iff)
  qed
  ultimately show "s = t" by (simp add: ascii_def)
qed simp

definition unascii :: "byte list \<Rightarrow> string" where "unascii bs = map (\<lambda>b. char_of (unat b)) bs"

lemma unascii_ascii [simp]: "unascii (ascii s) = s"
proof -
  have "char_of (unat (of_char c :: byte)) = c" for c :: char
  proof -
    have "unat (word_of_nat (of_char c) :: byte) = of_char c mod 256" by (simp only: unat_of_nat) simp
    then have "unat (of_char c :: byte) = of_char c" by (simp only: of_nat_of_char of_char_mod_256)
    then show ?thesis by (simp only: char_of_char)
  qed
  then show ?thesis by (simp add: unascii_def ascii_def comp_def)
qed

lemma map_unascii [simp]: "map (unascii \<circ> ascii) xs = xs"
  by (simp add: comp_def)

lemma ascii_unascii [simp]: "ascii (unascii bs) = bs"
proof -
  have "(of_char (char_of (unat b)) :: byte) = b" for b :: byte
  proof -
    have "(of_char (char_of (unat b)) :: byte) = word_of_nat (of_char (char_of (unat b)))" by (simp only: of_nat_of_char)
    also have "\<dots> = word_of_nat (unat b mod 256)" by (simp only: of_char_of)
    also have "\<dots> = b" using unat_less_exp [of b] by simp
    finally show ?thesis .
  qed
  then show ?thesis by (simp add: ascii_def unascii_def comp_def)
qed

text \<open>\<open>push_field\<close> appends what \<open>push_lp\<close> appends; a signing input is a domain and its fields.\<close>

definition push_fields :: "byte list list \<Rightarrow> byte list" where "push_fields fs = concat (map push_lp fs)"

lemma push_fields_simps [simp]:
  "push_fields [] = []" "push_fields (f # fs) = push_lp f @ push_fields fs" "push_fields (fs @ gs) = push_fields fs @ push_fields gs"
  by (simp_all add: push_fields_def)

lemma lp_ok_short [simp]: "lp_ok [b]" "lp_ok (i64_be x)" "lp_ok (u64_be w)" "lp_ok []"
  by (simp_all add: lp_ok_def)

lemma push_fields_inj:
  assumes "list_all lp_ok fs" "list_all lp_ok gs" "length fs = length gs"
  shows "push_fields fs @ r = push_fields gs @ s \<longleftrightarrow> fs = gs \<and> r = s"
  using assms(3,1,2) by (induction fs gs rule: list_induct2) (auto simp: push_lp_append_eq)

section \<open>The beacon (\<open>heartbeat.rs\<close>)\<close>

definition HEARTBEAT_AAD :: "byte list" where "HEARTBEAT_AAD = ascii ''daemonseed/presence/heartbeat/v1''"
definition HEARTBEAT_PROVENANCE_DOMAIN :: "byte list" where "HEARTBEAT_PROVENANCE_DOMAIN = ascii ''daemonseed/presence/heartbeat/v1''"
definition HEARTBEAT_PADDED_PLAINTEXT_LEN :: nat where "HEARTBEAT_PADDED_PLAINTEXT_LEN = 8192"
definition HEARTBEAT_LEN_PREFIX :: nat where "HEARTBEAT_LEN_PREFIX = 4"
definition HEARTBEAT_SEALED_LEN :: nat where "HEARTBEAT_SEALED_LEN = NONCE_LEN + HEARTBEAT_PADDED_PLAINTEXT_LEN + TAG_LEN"

datatype 'd heartbeat_error =
    HbKeyInit oxi_error
  | HbEntropySource
  | HbAead oxi_error
  | HbAuthentication
  | HbTruncated
  | HbTooLarge nat nat
  | HbDecode 'd
  | HbSign
  | HbProvenance

fun heartbeat_of_envelope :: "envelope_error \<Rightarrow> 'd heartbeat_error" where
  "heartbeat_of_envelope EntropySource = HbEntropySource"
| "heartbeat_of_envelope (Encrypt m) = HbAead m"
| "heartbeat_of_envelope TooShort = HbTruncated"
| "heartbeat_of_envelope (Decrypt e) = (if e = TagMismatch then HbAuthentication else HbAead e)"

record heartbeat_fields =
  hf_room :: string
  hf_sender_handle :: string
  hf_sent_unix_ms :: int
  hf_live_share_ids :: "string list"
  hf_is_leave :: bool

definition heartbeat_input :: "string \<Rightarrow> byte list \<Rightarrow> int \<Rightarrow> string list \<Rightarrow> bool \<Rightarrow> byte list" where
  "heartbeat_input room sender_pubkey sent_unix_ms live_share_ids is_leave =
     HEARTBEAT_PROVENANCE_DOMAIN @ push_fields
       ([ascii room, sender_pubkey, i64_be sent_unix_ms, u64_be (word_of_nat (length live_share_ids))]
        @ map ascii live_share_ids @ [[of_bool is_leave]])"

definition pad_plaintext :: "(member_heartbeat, 'd) codec \<Rightarrow> member_heartbeat \<Rightarrow> 'd heartbeat_error + byte list" where
  "pad_plaintext c message =
    (let encoded = encode_to_vec c message
     in if HEARTBEAT_LEN_PREFIX + length encoded > HEARTBEAT_PADDED_PLAINTEXT_LEN
        then Inl (HbTooLarge (HEARTBEAT_LEN_PREFIX + length encoded) HEARTBEAT_PADDED_PLAINTEXT_LEN)
        else Inr (u32_le (word_of_nat (length encoded)) @ encoded
          @ replicate (HEARTBEAT_PADDED_PLAINTEXT_LEN - (HEARTBEAT_LEN_PREFIX + length encoded)) 0))"

definition unpad_plaintext :: "byte list \<Rightarrow> 'd heartbeat_error + byte list" where
  "unpad_plaintext padded =
    (if length padded < HEARTBEAT_LEN_PREFIX then Inl HbTruncated
     else let len = unat (u32_of_le (take HEARTBEAT_LEN_PREFIX padded));
              end = HEARTBEAT_LEN_PREFIX + len
          in if end \<le> length padded then Inr (take len (drop HEARTBEAT_LEN_PREFIX padded)) else Inl HbTruncated)"

text \<open>\<open>seal_public_heartbeat\<close> and \<open>seal_circle_heartbeat\<close> pass their key's bytes.\<close>

definition seal_heartbeat_with ::
  "oxi \<Rightarrow> (member_heartbeat, 'd) codec \<Rightarrow> byte list option \<Rightarrow> byte list \<Rightarrow> sign_keypair \<Rightarrow> heartbeat_fields \<Rightarrow> 'd heartbeat_error + byte list" where
  "seal_heartbeat_with ox c draw key_bytes member flds =
    (let sender_pubkey = sk_public_key member;
         signing_input = heartbeat_input (hf_room flds) sender_pubkey (hf_sent_unix_ms flds)
           (hf_live_share_ids flds) (hf_is_leave flds)
     in rbind (map_err (\<lambda>_. HbSign) (keypair_sign ox member signing_input)) (\<lambda>signature.
        let message = \<lparr>hb_room = hf_room flds, hb_sender_pubkey = sender_pubkey, hb_sender_handle = hf_sender_handle flds,
          hb_sent_unix_ms = hf_sent_unix_ms flds, hb_signature = signature,
          hb_live_share_ids = hf_live_share_ids flds, hb_is_leave = hf_is_leave flds\<rparr>
        in rbind (map_err HbKeyInit (aes256_key ox key_bytes)) (\<lambda>aes.
           rbind (pad_plaintext c message) (\<lambda>plaintext.
           map_err heartbeat_of_envelope (seal_envelope ox draw aes HEARTBEAT_AAD plaintext)))))"

definition open_heartbeat ::
  "oxi \<Rightarrow> (member_heartbeat, 'd) codec \<Rightarrow> byte list \<Rightarrow> byte list \<Rightarrow> 'd heartbeat_error + member_heartbeat" where
  "open_heartbeat ox c key sealed =
    rbind (map_err HbKeyInit (aes256_key ox key)) (\<lambda>aes.
    rbind (map_err heartbeat_of_envelope (open_envelope ox aes HEARTBEAT_AAD sealed)) (\<lambda>plaintext.
    rbind (rbind (unpad_plaintext plaintext) (\<lambda>pb. map_err HbDecode (decode_msg c pb))) (\<lambda>message.
    if length (hb_sender_pubkey message) \<noteq> DSA_PK_LEN then Inl HbProvenance
    else if length (hb_signature message) \<noteq> DSA_SIG_LEN then Inl HbProvenance
    else rbind (map_err (\<lambda>_. HbProvenance) (verify_signature ox (hb_sender_pubkey message)
        (heartbeat_input (hb_room message) (hb_sender_pubkey message) (hb_sent_unix_ms message)
          (hb_live_share_ids message) (hb_is_leave message)) (hb_signature message))) (\<lambda>_.
      Inr message))))"

section \<open>The chat message (\<open>room_message.rs\<close>)\<close>

record room_message =
  rm_room_id :: string
  rm_sender_pubkey :: "byte list"
  rm_sender_handle :: string
  rm_body :: string
  rm_sent_unix_ms :: int
  rm_signature :: "byte list"

datatype 'd room_message_error =
    RmKeyInit oxi_error
  | RmEntropySource
  | RmAead oxi_error
  | RmAuthentication
  | RmTruncated
  | RmDecode 'd
  | RmSign
  | RmProvenance

fun room_message_of_envelope :: "envelope_error \<Rightarrow> 'd room_message_error" where
  "room_message_of_envelope EntropySource = RmEntropySource"
| "room_message_of_envelope (Encrypt m) = RmAead m"
| "room_message_of_envelope TooShort = RmTruncated"
| "room_message_of_envelope (Decrypt e) = (if e = TagMismatch then RmAuthentication else RmAead e)"

definition room_input :: "byte list \<Rightarrow> string \<Rightarrow> byte list \<Rightarrow> int \<Rightarrow> string \<Rightarrow> byte list" where
  "room_input provenance_domain room_id sender_pubkey sent_unix_ms body =
     provenance_domain @ push_fields [ascii room_id, sender_pubkey, i64_be sent_unix_ms, ascii body]"

definition seal_signed_room_message ::
  "oxi \<Rightarrow> (room_message, 'd) codec \<Rightarrow> byte list option \<Rightarrow> byte list \<Rightarrow> byte list \<Rightarrow> byte list \<Rightarrow> sign_keypair \<Rightarrow> string \<Rightarrow> string \<Rightarrow> string \<Rightarrow> int
    \<Rightarrow> 'd room_message_error + byte list" where
  "seal_signed_room_message ox c draw key aad provenance_domain sender room_id sender_handle body sent_unix_ms =
    (let sender_pubkey = sk_public_key sender;
         signing_input = room_input provenance_domain room_id sender_pubkey sent_unix_ms body
     in rbind (map_err (\<lambda>_. RmSign) (keypair_sign ox sender signing_input)) (\<lambda>signature.
        let message = \<lparr>rm_room_id = room_id, rm_sender_pubkey = sender_pubkey, rm_sender_handle = sender_handle,
          rm_body = body, rm_sent_unix_ms = sent_unix_ms, rm_signature = signature\<rparr>
        in rbind (map_err RmKeyInit (aes256_key ox key)) (\<lambda>aes.
           map_err room_message_of_envelope (seal_envelope ox draw aes aad (encode_to_vec c message)))))"

definition open_signed_room_message ::
  "oxi \<Rightarrow> (room_message, 'd) codec \<Rightarrow> byte list \<Rightarrow> byte list \<Rightarrow> byte list \<Rightarrow> byte list \<Rightarrow> string \<Rightarrow> 'd room_message_error + room_message" where
  "open_signed_room_message ox c key aad provenance_domain sealed expected_room_id =
    rbind (map_err RmKeyInit (aes256_key ox key)) (\<lambda>aes.
    rbind (map_err room_message_of_envelope (open_envelope ox aes aad sealed)) (\<lambda>plaintext.
    rbind (map_err RmDecode (decode_msg c plaintext)) (\<lambda>message.
    if length (rm_sender_pubkey message) \<noteq> DSA_PK_LEN then Inl RmProvenance
    else if length (rm_signature message) \<noteq> DSA_SIG_LEN then Inl RmProvenance
    else rbind (map_err (\<lambda>_. RmProvenance) (verify_signature ox (rm_sender_pubkey message)
        (room_input provenance_domain expected_room_id (rm_sender_pubkey message) (rm_sent_unix_ms message) (rm_body message))
        (rm_signature message))) (\<lambda>_.
      Inr message))))"

subsection \<open>In a circle (\<open>circle/message.rs\<close>) and in a public room (\<open>public_room.rs\<close>)\<close>

definition MESSAGE_AAD :: "byte list" where "MESSAGE_AAD = ascii ''daemonseed/circle/message/v2''"
definition CIRCLE_PROVENANCE_DOMAIN :: "byte list" where "CIRCLE_PROVENANCE_DOMAIN = ascii ''daemonseed/circle/message/v2''"
definition ROOM_MESSAGE_AAD :: "byte list" where "ROOM_MESSAGE_AAD = ascii ''daemonseed/public-room/message/v1''"
definition ROOM_PROVENANCE_DOMAIN :: "byte list" where "ROOM_PROVENANCE_DOMAIN = ascii ''daemonseed/public-room/message/v1''"
definition CIRCLE_FINGERPRINT_HEX_LEN :: nat where "CIRCLE_FINGERPRINT_HEX_LEN = 12"

definition hex_digit :: "nat \<Rightarrow> char" where
  "hex_digit n = (''0123456789abcdef'' ! n)"

definition hex :: "byte list \<Rightarrow> string" where
  "hex bs = concat (map (\<lambda>b. [hex_digit (unat b div 16), hex_digit (unat b mod 16)]) bs)"

definition circle_room_id :: "oxi \<Rightarrow> byte list \<Rightarrow> string" where
  "circle_room_id ox cot_key =
    (case sha384 ox cot_key of Inl _ \<Rightarrow> [] | Inr digest \<Rightarrow> hex (take (CIRCLE_FINGERPRINT_HEX_LEN div 2) digest))"

definition seal_message :: "oxi \<Rightarrow> (room_message, 'd) codec \<Rightarrow> byte list option \<Rightarrow> byte list \<Rightarrow> sign_keypair \<Rightarrow> string \<Rightarrow> string \<Rightarrow> int
    \<Rightarrow> 'd room_message_error + byte list" where
  "seal_message ox c draw cot_key sender sender_handle body sent_unix_ms =
     seal_signed_room_message ox c draw cot_key MESSAGE_AAD CIRCLE_PROVENANCE_DOMAIN sender (circle_room_id ox cot_key)
       sender_handle body sent_unix_ms"

definition open_message :: "oxi \<Rightarrow> (room_message, 'd) codec \<Rightarrow> byte list \<Rightarrow> byte list \<Rightarrow> 'd room_message_error + room_message" where
  "open_message ox c cot_key sealed =
     open_signed_room_message ox c cot_key MESSAGE_AAD CIRCLE_PROVENANCE_DOMAIN sealed (circle_room_id ox cot_key)"

definition seal_room_message :: "oxi \<Rightarrow> (room_message, 'd) codec \<Rightarrow> byte list option \<Rightarrow> byte list \<Rightarrow> sign_keypair \<Rightarrow> string \<Rightarrow> string \<Rightarrow> string \<Rightarrow> int
    \<Rightarrow> 'd room_message_error + byte list" where
  "seal_room_message ox c draw room_key sender room sender_handle body sent_unix_ms =
     seal_signed_room_message ox c draw room_key ROOM_MESSAGE_AAD ROOM_PROVENANCE_DOMAIN sender room sender_handle body sent_unix_ms"

definition open_room_message :: "oxi \<Rightarrow> (room_message, 'd) codec \<Rightarrow> byte list \<Rightarrow> string \<Rightarrow> byte list \<Rightarrow> 'd room_message_error + room_message" where
  "open_room_message ox c room_key room sealed =
     open_signed_room_message ox c room_key ROOM_MESSAGE_AAD ROOM_PROVENANCE_DOMAIN sealed room"

section \<open>The roll call (\<open>share_rollcall.rs\<close>)\<close>

definition SHARE_ROLLCALL_AAD :: "byte list" where "SHARE_ROLLCALL_AAD = ascii ''daemonseed/share/rollcall/v1''"
definition SHARE_ROLLCALL_PROVENANCE_DOMAIN :: "byte list" where "SHARE_ROLLCALL_PROVENANCE_DOMAIN = ascii ''daemonseed/share/rollcall/v1''"

record share_roll_call =
  rc_room :: string
  rc_requester_pubkey :: "byte list"
  rc_requester_handle :: string
  rc_sent_unix_ms :: int
  rc_signature :: "byte list"

record roll_call_fields =
  rf_room :: string
  rf_requester_handle :: string
  rf_sent_unix_ms :: int

datatype 'd roll_call_error =
    RcKeyInit oxi_error
  | RcEntropySource
  | RcAead oxi_error
  | RcAuthentication
  | RcTruncated
  | RcDecode 'd
  | RcSign
  | RcProvenance

fun roll_call_of_envelope :: "envelope_error \<Rightarrow> 'd roll_call_error" where
  "roll_call_of_envelope EntropySource = RcEntropySource"
| "roll_call_of_envelope (Encrypt m) = RcAead m"
| "roll_call_of_envelope TooShort = RcTruncated"
| "roll_call_of_envelope (Decrypt e) = (if e = TagMismatch then RcAuthentication else RcAead e)"

definition roll_call_input :: "string \<Rightarrow> byte list \<Rightarrow> int \<Rightarrow> byte list" where
  "roll_call_input room requester_pubkey sent_unix_ms =
     SHARE_ROLLCALL_PROVENANCE_DOMAIN @ push_fields [ascii room, requester_pubkey, i64_be sent_unix_ms]"

definition seal_rollcall_with ::
  "oxi \<Rightarrow> (share_roll_call, 'd) codec \<Rightarrow> byte list option \<Rightarrow> byte list \<Rightarrow> sign_keypair \<Rightarrow> roll_call_fields \<Rightarrow> 'd roll_call_error + byte list" where
  "seal_rollcall_with ox c draw key_bytes requester flds =
    (let requester_pubkey = sk_public_key requester;
         signing_input = roll_call_input (rf_room flds) requester_pubkey (rf_sent_unix_ms flds)
     in rbind (map_err (\<lambda>_. RcSign) (keypair_sign ox requester signing_input)) (\<lambda>signature.
        let message = \<lparr>rc_room = rf_room flds, rc_requester_pubkey = requester_pubkey,
          rc_requester_handle = rf_requester_handle flds, rc_sent_unix_ms = rf_sent_unix_ms flds, rc_signature = signature\<rparr>
        in rbind (map_err RcKeyInit (aes256_key ox key_bytes)) (\<lambda>aes.
           map_err roll_call_of_envelope (seal_envelope ox draw aes SHARE_ROLLCALL_AAD (encode_to_vec c message)))))"

definition open_rollcall ::
  "oxi \<Rightarrow> (share_roll_call, 'd) codec \<Rightarrow> byte list \<Rightarrow> byte list \<Rightarrow> 'd roll_call_error + share_roll_call" where
  "open_rollcall ox c key sealed =
    rbind (map_err RcKeyInit (aes256_key ox key)) (\<lambda>aes.
    rbind (map_err roll_call_of_envelope (open_envelope ox aes SHARE_ROLLCALL_AAD sealed)) (\<lambda>plaintext.
    rbind (map_err RcDecode (decode_msg c plaintext)) (\<lambda>message.
    if length (rc_requester_pubkey message) \<noteq> DSA_PK_LEN then Inl RcProvenance
    else if length (rc_signature message) \<noteq> DSA_SIG_LEN then Inl RcProvenance
    else rbind (map_err (\<lambda>_. RcProvenance) (verify_signature ox (rc_requester_pubkey message)
        (roll_call_input (rc_room message) (rc_requester_pubkey message) (rc_sent_unix_ms message)) (rc_signature message))) (\<lambda>_.
      Inr message))))"

section \<open>The share announcement (\<open>share_announce.rs\<close>)\<close>

definition SHARE_ANNOUNCE_AAD :: "byte list" where "SHARE_ANNOUNCE_AAD = ascii ''daemonseed/share/announce/aad/v2''"
definition SHARE_ANNOUNCE_PROVENANCE_DOMAIN :: "byte list" where
  "SHARE_ANNOUNCE_PROVENANCE_DOMAIN = ascii ''daemonseed/share/announce/provenance/v2''"
definition SHARE_NONCE_SALT :: "byte list" where "SHARE_NONCE_SALT = ascii ''daemonseed/share-root-nonce-salt/v2''"
definition SHARE_ROOT_NONCE_DOMAIN :: "byte list" where "SHARE_ROOT_NONCE_DOMAIN = ascii ''daemonseed/share-root-nonce/v2''"
definition SHARE_ROOT_COMMITMENT_DOMAIN :: "byte list" where "SHARE_ROOT_COMMITMENT_DOMAIN = ascii ''daemonseed/share-root-commitment/v2''"
definition SHARE_ID_V2_DOMAIN :: "byte list" where "SHARE_ID_V2_DOMAIN = ascii ''daemonseed/share-id/v2''"
definition SHARE_ROOT_NONCE_LEN :: nat where "SHARE_ROOT_NONCE_LEN = 32"
definition ROOT_COMMITMENT_LEN :: nat where "ROOT_COMMITMENT_LEN = 48"

record share_announcement =
  sa_room :: string
  sa_sender_pubkey :: "byte list"
  sa_sender_handle :: string
  sa_share_id :: string
  sa_root_commitment :: "byte list"
  sa_name :: string
  sa_rating :: string
  sa_withdraw :: bool
  sa_sent_unix_ms :: int
  sa_signature :: "byte list"

record announcement_fields =
  af_room :: string
  af_sender_handle :: string
  af_share_id :: string
  af_root_commitment :: "byte list"
  af_name :: string
  af_rating :: string
  af_withdraw :: bool
  af_sent_unix_ms :: int

datatype 'd share_announce_error =
    SaKeyInit oxi_error
  | SaEntropySource
  | SaAead oxi_error
  | SaAuthentication
  | SaTruncated
  | SaDecode 'd
  | SaSign
  | SaProvenance

text \<open>
  The derivations panic where the module is down; their models return the error. A share's identifier binds
  its sender and the commitment to its root.
\<close>

definition derive_share_root_nonce :: "oxi \<Rightarrow> byte list \<Rightarrow> string \<Rightarrow> oxi_error + byte list" where
  "derive_share_root_nonce ox ikm root =
    rbind (hkdf_extract ox (Some SHARE_NONCE_SALT) ikm) (\<lambda>hkdf.
    hkdf_expand ox hkdf (push_lp SHARE_ROOT_NONCE_DOMAIN @ push_lp (ascii root)) SHARE_ROOT_NONCE_LEN)"

definition derive_root_commitment :: "oxi \<Rightarrow> string \<Rightarrow> byte list \<Rightarrow> oxi_error + byte list" where
  "derive_root_commitment ox root nonce =
     sha384 ox (push_lp SHARE_ROOT_COMMITMENT_DOMAIN @ push_lp (ascii root) @ push_lp nonce)"

definition derive_share_id_v2 :: "oxi \<Rightarrow> byte list \<Rightarrow> byte list \<Rightarrow> oxi_error + string" where
  "derive_share_id_v2 ox sender_pubkey root_commitment =
    rbind (sha384 ox (push_lp SHARE_ID_V2_DOMAIN @ push_lp sender_pubkey @ push_lp root_commitment)) (\<lambda>digest.
    Inr (hex (take 16 digest)))"

definition share_binding_is_valid :: "oxi \<Rightarrow> share_announcement \<Rightarrow> bool" where
  "share_binding_is_valid ox ann \<longleftrightarrow> length (sa_root_commitment ann) = ROOT_COMMITMENT_LEN \<and>
     derive_share_id_v2 ox (sa_sender_pubkey ann) (sa_root_commitment ann) = Inr (sa_share_id ann)"

definition announce_input :: "string \<Rightarrow> byte list \<Rightarrow> string \<Rightarrow> byte list \<Rightarrow> string \<Rightarrow> string \<Rightarrow> bool \<Rightarrow> int \<Rightarrow> byte list" where
  "announce_input room sender_pubkey share_id root_commitment name rating withdraw sent_unix_ms =
     SHARE_ANNOUNCE_PROVENANCE_DOMAIN @ push_fields [ascii room, sender_pubkey, ascii share_id, root_commitment,
       ascii name, ascii rating, [of_bool withdraw], i64_be sent_unix_ms]"

definition seal_announcement_with ::
  "oxi \<Rightarrow> (share_announcement, 'd) codec \<Rightarrow> byte list option \<Rightarrow> byte list \<Rightarrow> sign_keypair \<Rightarrow> announcement_fields
    \<Rightarrow> 'd share_announce_error + byte list" where
  "seal_announcement_with ox c draw key_bytes announcer flds =
    (let sender_pubkey = sk_public_key announcer;
         signing_input = announce_input (af_room flds) sender_pubkey (af_share_id flds) (af_root_commitment flds)
           (af_name flds) (af_rating flds) (af_withdraw flds) (af_sent_unix_ms flds)
     in rbind (map_err (\<lambda>_. SaSign) (keypair_sign ox announcer signing_input)) (\<lambda>signature.
        let message = \<lparr>sa_room = af_room flds, sa_sender_pubkey = sender_pubkey, sa_sender_handle = af_sender_handle flds,
          sa_share_id = af_share_id flds, sa_root_commitment = af_root_commitment flds, sa_name = af_name flds,
          sa_rating = af_rating flds, sa_withdraw = af_withdraw flds, sa_sent_unix_ms = af_sent_unix_ms flds,
          sa_signature = signature\<rparr>
        in rbind (map_err SaKeyInit (aes256_key ox key_bytes)) (\<lambda>aes.
           rbind (ok_or SaEntropySource draw) (\<lambda>nonce.
           rbind (map_err SaAead (gcm_encrypt ox aes nonce SHARE_ANNOUNCE_AAD (encode_to_vec c message))) (\<lambda>(ciphertext, tag).
           Inr (nonce @ ciphertext @ tag))))))"

definition open_announcement ::
  "oxi \<Rightarrow> (share_announcement, 'd) codec \<Rightarrow> byte list \<Rightarrow> byte list \<Rightarrow> 'd share_announce_error + share_announcement" where
  "open_announcement ox c key sealed =
    (if length sealed < NONCE_LEN + TAG_LEN then Inl SaTruncated
     else let nonce = take NONCE_LEN sealed;
              after_nonce = drop NONCE_LEN sealed;
              ciphertext_len = length after_nonce - TAG_LEN;
              ciphertext = take ciphertext_len after_nonce;
              tag = drop ciphertext_len after_nonce
          in rbind (map_err SaKeyInit (aes256_key ox key)) (\<lambda>aes.
             rbind (map_err (\<lambda>e. if e = TagMismatch then SaAuthentication else SaAead e)
               (gcm_decrypt ox aes nonce SHARE_ANNOUNCE_AAD ciphertext tag)) (\<lambda>plaintext.
             rbind (map_err SaDecode (decode_msg c plaintext)) (\<lambda>message.
             if length (sa_sender_pubkey message) \<noteq> DSA_PK_LEN then Inl SaProvenance
             else if length (sa_signature message) \<noteq> DSA_SIG_LEN then Inl SaProvenance
             else rbind (map_err (\<lambda>_. SaProvenance) (verify_signature ox (sa_sender_pubkey message)
                 (announce_input (sa_room message) (sa_sender_pubkey message) (sa_share_id message) (sa_root_commitment message)
                   (sa_name message) (sa_rating message) (sa_withdraw message) (sa_sent_unix_ms message)) (sa_signature message))) (\<lambda>_.
               Inr message)))))"

section \<open>The route advert (\<open>discovery.rs\<close>)\<close>

definition ROUTE_ADVERT_DOMAIN :: "byte list" where "ROUTE_ADVERT_DOMAIN = ascii ''daemonseed/veilid/share-route/v1''"

definition route_provenance_input :: "string \<Rightarrow> byte list \<Rightarrow> byte list" where
  "route_provenance_input share_id route_blob = ROUTE_ADVERT_DOMAIN @ push_lp (ascii share_id) @ push_lp route_blob"

definition verify_route_advert :: "oxi \<Rightarrow> byte list \<Rightarrow> string \<Rightarrow> byte list \<Rightarrow> byte list \<Rightarrow> bool" where
  "verify_route_advert ox announcer_pubkey share_id route_blob route_sig \<longleftrightarrow>
     length announcer_pubkey = DSA_PK_LEN \<and> length route_sig = DSA_SIG_LEN \<and>
     is_ok (verify_signature ox announcer_pubkey (route_provenance_input share_id route_blob) route_sig)"

record discovery_envelope =
  de_sealed_announcement :: "byte list"
  de_route_blob :: "byte list"
  de_route_sig :: "byte list"

definition put_field :: "byte list \<Rightarrow> byte list" where
  "put_field field = u32_be (word_of_nat (length field)) @ field"

definition discovery_encode :: "discovery_envelope \<Rightarrow> byte list" where
  "discovery_encode e = concat (map put_field [de_sealed_announcement e, de_route_blob e, de_route_sig e])"

text \<open>The error is the one value \<open>malformed()\<close>.\<close>

definition take_field :: "byte list \<Rightarrow> unit + (byte list \<times> byte list)" where
  "take_field rest =
    (if length rest < 4 then Inl ()
     else let len = unat (u32_of_be (take 4 rest)); after_len = drop 4 rest
          in if length after_len < len then Inl () else Inr (take len after_len, drop len after_len))"

definition discovery_decode :: "byte list \<Rightarrow> unit + discovery_envelope" where
  "discovery_decode bytes =
    rbind (take_field bytes) (\<lambda>(ann, rest).
    rbind (take_field rest) (\<lambda>(blob, rest).
    rbind (take_field rest) (\<lambda>(sig, rest).
    if rest \<noteq> [] then Inl ()
    else Inr \<lparr>de_sealed_announcement = ann, de_route_blob = blob, de_route_sig = sig\<rparr>)))"

text \<open>A slice of \<open>2 ^ 32\<close> bytes or more would have its length cut by the cast.\<close>

definition field_ok :: "byte list \<Rightarrow> bool" where "field_ok f \<longleftrightarrow> length f < 2 ^ 32"

lemma take_field_iff: "take_field bs = Inr (f, rest) \<longleftrightarrow> field_ok f \<and> bs = put_field f @ rest"
proof
  assume t: "take_field bs = Inr (f, rest)"
  define len where "len = unat (u32_of_be (take 4 bs))"
  have l: "4 \<le> length bs" "len \<le> length (drop 4 bs)" "f = take len (drop 4 bs)" "rest = drop len (drop 4 bs)"
    using t by (auto simp: take_field_def len_def Let_def split: if_splits)
  have "length f = len" using l by simp
  moreover have "len < 2 ^ 32" using unat_less_exp [of "u32_of_be (take 4 bs)"] by (simp add: len_def)
  moreover have "u32_be (word_of_nat len) = take 4 bs" using l(1) by (simp add: len_def u32_be_u32_of_be)
  moreover have "bs = take 4 bs @ f @ rest" unfolding l(3,4) append_take_drop_id ..
  ultimately show "field_ok f \<and> bs = put_field f @ rest" by (simp add: field_ok_def put_field_def)
next
  assume "field_ok f \<and> bs = put_field f @ rest"
  then show "take_field bs = Inr (f, rest)"
    by (simp add: take_field_def put_field_def field_ok_def unat_of_nat Let_def)
qed

interpretation discovery_field: exact_codec put_field take_field field_ok
  by unfold_locales (simp_all add: take_field_iff)

definition discovery_ok :: "discovery_envelope \<Rightarrow> bool" where
  "discovery_ok e \<longleftrightarrow> field_ok (de_sealed_announcement e) \<and> field_ok (de_route_blob e) \<and> field_ok (de_route_sig e)"

lemma discovery_codec_exact: "discovery_decode bs = Inr e \<longleftrightarrow> discovery_ok e \<and> bs = discovery_encode e"
  by (cases e) (auto simp: discovery_decode_def discovery_encode_def discovery_ok_def discovery_field.dec_iff result_simps
    split: if_splits)

end
