(* ===== verification/Statements.thy ===== *)
theory Statements
  imports Room_Messages Advert Channel_Control
begin

text \<open>
  One identity key signs for many parts of the program. This theory gathers what it signs as one type of
  statements and shows that a signature has one meaning: the bytes signed determine the statement.
\<close>

section \<open>Statements\<close>

datatype chat_scope = InCircle | InPublicRoom

datatype statement =
    SaysBeacon string int "string list" bool
  | SaysChat chat_scope string int string
  | SaysRollCall string int
  | SaysAnnouncement string string "byte list" string string bool int
  | SaysRoute string "byte list"
  | SaysAdvert u64 u64 "byte list"
  | SaysOpening "byte list" "byte list" "byte list" u64

fun chat_domain :: "chat_scope \<Rightarrow> byte list" where
  "chat_domain InCircle = CIRCLE_PROVENANCE_DOMAIN"
| "chat_domain InPublicRoom = ROOM_PROVENANCE_DOMAIN"

text \<open>What the code passes to \<open>sign\<close> under the key \<open>pk\<close>.\<close>

fun signed_bytes :: "byte list \<Rightarrow> statement \<Rightarrow> byte list" where
  "signed_bytes pk (SaysBeacon room t ids leave) = heartbeat_input room pk t ids leave"
| "signed_bytes pk (SaysChat sc room t body) = room_input (chat_domain sc) room pk t body"
| "signed_bytes pk (SaysRollCall room t) = roll_call_input room pk t"
| "signed_bytes pk (SaysAnnouncement room i c n r w t) = announce_input room pk i c n r w t"
| "signed_bytes pk (SaysRoute i blob) = route_provenance_input i blob"
| "signed_bytes pk (SaysAdvert s nb k) = advert_signing_input pk s nb k"
| "signed_bytes pk (SaysOpening r l k s) = opening_signing_input pk r l k s"

text \<open>
  What the Rust types guarantee. A vector of strings holds 24 bytes an element and at most \<open>2 ^ 63\<close> bytes, so
  fewer than \<open>2 ^ 59\<close> elements.
\<close>

fun statement_ok :: "statement \<Rightarrow> bool" where
  "statement_ok (SaysBeacon room t ids leave) \<longleftrightarrow> string_ok room \<and> i64_ok t \<and> list_all string_ok ids \<and> length ids < 2 ^ 59"
| "statement_ok (SaysChat sc room t body) \<longleftrightarrow> string_ok room \<and> i64_ok t \<and> string_ok body"
| "statement_ok (SaysRollCall room t) \<longleftrightarrow> string_ok room \<and> i64_ok t"
| "statement_ok (SaysAnnouncement room i c n r w t) \<longleftrightarrow>
     string_ok room \<and> string_ok i \<and> lp_ok c \<and> string_ok n \<and> string_ok r \<and> i64_ok t"
| "statement_ok (SaysRoute i blob) \<longleftrightarrow> string_ok i \<and> lp_ok blob"
| "statement_ok (SaysAdvert s nb k) \<longleftrightarrow> lp_ok k"
| "statement_ok (SaysOpening r l k s) \<longleftrightarrow> lp_ok r \<and> lp_ok l \<and> lp_ok k"

section \<open>The domains\<close>

definition domain_strings :: "string list" where
  "domain_strings = [''daemonseed/presence/heartbeat/v1'', ''daemonseed/circle/message/v2'', ''daemonseed/public-room/message/v1'',
     ''daemonseed/share/rollcall/v1'', ''daemonseed/share/announce/provenance/v2'', ''daemonseed/veilid/share-route/v1'',
     ''daemonseed/dm/advert/sig/v1'', ''daemonseed/dm/channel/opening-sig/v1'']"

fun domain_of :: "statement \<Rightarrow> nat" where
  "domain_of (SaysBeacon room t ids leave) = 0"
| "domain_of (SaysChat sc room t body) = (case sc of InCircle \<Rightarrow> 1 | InPublicRoom \<Rightarrow> 2)"
| "domain_of (SaysRollCall room t) = 3"
| "domain_of (SaysAnnouncement room i c n r w t) = 4"
| "domain_of (SaysRoute i blob) = 5"
| "domain_of (SaysAdvert s nb k) = 6"
| "domain_of (SaysOpening r l k s) = 7"

fun fields_of :: "byte list \<Rightarrow> statement \<Rightarrow> byte list list" where
  "fields_of pk (SaysBeacon room t ids leave) =
     [ascii room, pk, i64_be t, u64_be (word_of_nat (length ids))] @ map ascii ids @ [[of_bool leave]]"
| "fields_of pk (SaysChat sc room t body) = [ascii room, pk, i64_be t, ascii body]"
| "fields_of pk (SaysRollCall room t) = [ascii room, pk, i64_be t]"
| "fields_of pk (SaysAnnouncement room i c n r w t) = [ascii room, pk, ascii i, c, ascii n, ascii r, [of_bool w], i64_be t]"
| "fields_of pk (SaysRoute i blob) = [ascii i, blob]"
| "fields_of pk (SaysAdvert s nb k) = [pk, u64_be s, u64_be nb, k]"
| "fields_of pk (SaysOpening r l k s) = [pk, r, l, k, u64_be s]"

lemmas domains = HEARTBEAT_PROVENANCE_DOMAIN_def CIRCLE_PROVENANCE_DOMAIN_def ROOM_PROVENANCE_DOMAIN_def
  SHARE_ROLLCALL_PROVENANCE_DOMAIN_def SHARE_ANNOUNCE_PROVENANCE_DOMAIN_def ROUTE_ADVERT_DOMAIN_def DM_ADVERT_SIG_def
  DM_CHANNEL_OPENING_SIG_def

lemma domain_of_less: "domain_of st < length domain_strings"
  by (cases st) (auto simp: domain_strings_def split: chat_scope.split)

lemma signed_bytes_split: "signed_bytes pk st = ascii (domain_strings ! domain_of st) @ push_fields (fields_of pk st)"
  by (cases st rule: statement.exhaust)
    (auto simp: domains domain_strings_def heartbeat_input_def room_input_def roll_call_input_def announce_input_def
      route_provenance_input_def advert_signing_input_def opening_signing_input_def split: chat_scope.split)

lemma prefix_free: "list_all (\<lambda>s. list_all (\<lambda>t. s = t \<or> take (length t) s \<noteq> t) domain_strings) domain_strings"
  by (simp add: domain_strings_def)

lemma distinct_domains: "distinct domain_strings"
  by (simp add: domain_strings_def)

lemma domain_unique:
  assumes "s \<in> set domain_strings" "t \<in> set domain_strings" "ascii s @ x = ascii t @ y"
  shows "s = t"
proof -
  have no: "\<not> (length t' \<le> length s' \<and> s' \<noteq> t')"
    if "s' \<in> set domain_strings" "t' \<in> set domain_strings" "ascii s' @ x' = ascii t' @ y'" for s' t' x' y'
  proof
    assume l: "length t' \<le> length s' \<and> s' \<noteq> t'"
    have "ascii (take (length t') s') = take (length t') (ascii s' @ x')" using l by (simp add: ascii_def take_map)
    also have "\<dots> = ascii t'" unfolding that(3) by (simp add: ascii_def)
    finally have "take (length t') s' = t'" by simp
    with prefix_free that(1,2) l show False by (auto simp: list_all_iff)
  qed
  show ?thesis
  proof (cases "length t \<le> length s")
    case True
    with no [OF assms] show ?thesis by blast
  next
    case False
    with no [OF assms(2,1) assms(3) [symmetric]] show ?thesis by simp
  qed
qed

lemma fields_ok: "lp_ok pk \<Longrightarrow> statement_ok st \<Longrightarrow> list_all lp_ok (fields_of pk st)"
  by (cases st) (auto simp: string_ok_def list_all_iff)

lemma ids_inj: "map ascii xs = map ascii ys \<Longrightarrow> xs = ys"
  by (induction xs arbitrary: ys) auto

lemma beacon_fields_inj:
  assumes "push_fields (fields_of pk (SaysBeacon room t ids leave)) = push_fields (fields_of pk' (SaysBeacon room' t' ids' leave'))"
    and ok: "lp_ok pk" "lp_ok pk'" "statement_ok (SaysBeacon room t ids leave)" "statement_ok (SaysBeacon room' t' ids' leave')"
  shows "SaysBeacon room t ids leave = SaysBeacon room' t' ids' leave' \<and> pk = pk'"
proof -
  let ?h = "\<lambda>pk room t ids. [ascii room, pk, i64_be t, u64_be (word_of_nat (length ids))]"
  have o: "list_all lp_ok (?h pk room t ids)" "list_all lp_ok (?h pk' room' t' ids')" using ok by (simp_all add: string_ok_def)
  have "push_fields (?h pk room t ids) @ push_fields (map ascii ids @ [[of_bool leave]])
      = push_fields (?h pk' room' t' ids') @ push_fields (map ascii ids' @ [[of_bool leave']])"
    using assms(1) by simp
  then have h: "?h pk room t ids = ?h pk' room' t' ids'"
    and r: "push_fields (map ascii ids @ [[of_bool leave]]) = push_fields (map ascii ids' @ [[of_bool leave']])"
    using push_fields_inj [OF o] by auto
  have "length ids < 2 ^ 59" "length ids' < 2 ^ 59" using ok by simp_all
  moreover have "(word_of_nat (length ids) :: u64) = word_of_nat (length ids')" using h by simp
  then have "unat (word_of_nat (length ids) :: u64) = unat (word_of_nat (length ids') :: u64)" by simp
  ultimately have l: "length ids = length ids'" by (simp add: unat_of_nat)
  have k: "list_all lp_ok (map ascii ids @ [[of_bool leave]])" "list_all lp_ok (map ascii ids' @ [[of_bool leave']])"
    using ok by (auto simp: string_ok_def list_all_iff)
  have "map ascii ids @ [[of_bool leave]] = map ascii ids' @ [[of_bool leave' :: byte]]"
    using push_fields_inj [OF k, of "[]" "[]"] l r by simp
  then have "ids = ids'" "leave = leave'" using ids_inj by (auto split: if_splits)
  with h ok show ?thesis by (simp add: i64_be_inj)
qed

lemma signed_bytes_inj:
  assumes "signed_bytes pk st = signed_bytes pk' st'" "lp_ok pk" "lp_ok pk'" "statement_ok st" "statement_ok st'"
  shows "st = st'"
proof -
  have e: "ascii (domain_strings ! domain_of st) @ push_fields (fields_of pk st)
      = ascii (domain_strings ! domain_of st') @ push_fields (fields_of pk' st')"
    using assms(1) unfolding signed_bytes_split .
  then have "domain_strings ! domain_of st = domain_strings ! domain_of st'"
    using domain_unique domain_of_less by (metis nth_mem)
  then have d: "domain_of st = domain_of st'"
    using distinct_domains domain_of_less by (simp add: nth_eq_iff_index_eq)
  with e have f: "push_fields (fields_of pk st) = push_fields (fields_of pk' st')" by simp
  have g: "fields_of pk st = fields_of pk' st'" if "length (fields_of pk st) = length (fields_of pk' st')"
    using push_fields_inj [OF fields_ok fields_ok that, of "[]" "[]"] assms(2-5) f by simp
  show ?thesis
  proof (cases st)
    case (SaysBeacon room t ids leave)
    with d obtain room' t' ids' leave' where "st' = SaysBeacon room' t' ids' leave'"
      by (cases st') (auto split: chat_scope.splits)
    with SaysBeacon beacon_fields_inj f assms(2-5) show ?thesis by blast
  qed (use d g assms(4,5) in \<open>cases st'; auto simp: i64_be_inj split: chat_scope.splits if_splits\<close>)+
qed

text \<open>
  What a signature scheme gives: under the key \<open>pk\<close> nothing verifies but what its holder signed, and the holder
  signed the statements of \<open>log\<close>.
\<close>

definition signs_only :: "oxi \<Rightarrow> byte list \<Rightarrow> statement set \<Rightarrow> bool" where
  "signs_only ox pk log \<longleftrightarrow> (\<forall>msg sig. verify_signature ox pk msg sig = Inr () \<longrightarrow>
     (\<exists>st \<in> log. statement_ok st \<and> msg = signed_bytes pk st))"

lemma signs_onlyD:
  assumes "signs_only ox pk log" "verify_signature ox pk (signed_bytes pk st) sig = Inr ()" "statement_ok st" "lp_ok pk"
  shows "st \<in> log"
  using assms signed_bytes_inj unfolding signs_only_def by blast

section \<open>Interface: a sealed message with a speaker\<close>

text \<open>
  What the room's messages share: a seal by a key pair opens, under the same key, to the message of the sealed
  fields with some signature, and whatever opens carries a signature of its speaker over what it says.
  \<open>law\<close> is the law of the message's codec.
\<close>

locale signed_message =
  fixes law :: bool
    and seal :: "oxi \<Rightarrow> byte list option \<Rightarrow> byte list \<Rightarrow> sign_keypair \<Rightarrow> 'f \<Rightarrow> 'e + byte list"
    and unseal :: "oxi \<Rightarrow> byte list \<Rightarrow> byte list \<Rightarrow> 'e + 'm"
    and message :: "sign_keypair \<Rightarrow> 'f \<Rightarrow> byte list \<Rightarrow> 'm"
    and fields_wf :: "'f \<Rightarrow> bool"
    and speaker :: "'m \<Rightarrow> byte list"
    and says :: "'m \<Rightarrow> statement"
  assumes unseal_seal: "law \<Longrightarrow> gcm_law ox \<Longrightarrow> dsa_law ox kp \<Longrightarrow> fields_wf f \<Longrightarrow> seal ox draw key kp f = Inr s
      \<Longrightarrow> \<exists>sig. length sig = DSA_SIG_LEN \<and> unseal ox key s = Inr (message kp f sig)"
    and unseal_says: "law \<Longrightarrow> unseal ox key s = Inr m \<Longrightarrow> statement_ok (says m) \<and> lp_ok (speaker m) \<and>
      (\<exists>sig. verify_signature ox (speaker m) (signed_bytes (speaker m) (says m)) sig = Inr ())"
begin

lemma said:
  assumes "law" "signs_only ox pk log" "unseal ox key s = Inr m" "speaker m = pk"
  shows "says m \<in> log"
  using signs_onlyD [OF assms(2)] unseal_says [OF assms(1,3)] assms(4) by blast

end

section \<open>The four messages of a room\<close>

definition beacon_ok :: "member_heartbeat \<Rightarrow> bool" where
  "beacon_ok m \<longleftrightarrow> string_ok (hb_room m) \<and> lp_ok (hb_sender_pubkey m) \<and> string_ok (hb_sender_handle m) \<and> i64_ok (hb_sent_unix_ms m) \<and>
     lp_ok (hb_signature m) \<and> list_all string_ok (hb_live_share_ids m) \<and> length (hb_live_share_ids m) < 2 ^ 59"

definition chat_ok :: "room_message \<Rightarrow> bool" where
  "chat_ok m \<longleftrightarrow> string_ok (rm_room_id m) \<and> lp_ok (rm_sender_pubkey m) \<and> string_ok (rm_sender_handle m) \<and> string_ok (rm_body m) \<and>
     i64_ok (rm_sent_unix_ms m) \<and> lp_ok (rm_signature m)"

definition roll_call_ok :: "share_roll_call \<Rightarrow> bool" where
  "roll_call_ok m \<longleftrightarrow> string_ok (rc_room m) \<and> lp_ok (rc_requester_pubkey m) \<and> string_ok (rc_requester_handle m) \<and>
     i64_ok (rc_sent_unix_ms m) \<and> lp_ok (rc_signature m)"

definition announcement_ok :: "share_announcement \<Rightarrow> bool" where
  "announcement_ok m \<longleftrightarrow> string_ok (sa_room m) \<and> lp_ok (sa_sender_pubkey m) \<and> string_ok (sa_sender_handle m) \<and> string_ok (sa_share_id m) \<and>
     lp_ok (sa_root_commitment m) \<and> string_ok (sa_name m) \<and> string_ok (sa_rating m) \<and> i64_ok (sa_sent_unix_ms m) \<and> lp_ok (sa_signature m)"

definition beacon_of :: "sign_keypair \<Rightarrow> heartbeat_fields \<Rightarrow> byte list \<Rightarrow> member_heartbeat" where
  "beacon_of kp f sig = \<lparr>hb_room = hf_room f, hb_sender_pubkey = sk_public_key kp, hb_sender_handle = hf_sender_handle f,
     hb_sent_unix_ms = hf_sent_unix_ms f, hb_signature = sig, hb_live_share_ids = hf_live_share_ids f, hb_is_leave = hf_is_leave f\<rparr>"

definition beacon_fields_ok :: "heartbeat_fields \<Rightarrow> bool" where
  "beacon_fields_ok f \<longleftrightarrow> string_ok (hf_room f) \<and> string_ok (hf_sender_handle f) \<and> i64_ok (hf_sent_unix_ms f) \<and>
     list_all string_ok (hf_live_share_ids f) \<and> length (hf_live_share_ids f) < 2 ^ 59"

definition beacon_says :: "member_heartbeat \<Rightarrow> statement" where
  "beacon_says m = SaysBeacon (hb_room m) (hb_sent_unix_ms m) (hb_live_share_ids m) (hb_is_leave m)"

lemma unpad_pad: "pad_plaintext c m = Inr p \<Longrightarrow> unpad_plaintext p = Inr (encode_to_vec c m) \<and> length p = HEARTBEAT_PADDED_PLAINTEXT_LEN"
  by (auto simp: pad_plaintext_def unpad_plaintext_def HEARTBEAT_LEN_PREFIX_def HEARTBEAT_PADDED_PLAINTEXT_LEN_def Let_def
    unat_of_nat split: if_splits)

lemma dsa_lens: "dsa_law ox kp \<Longrightarrow> lp_ok (sk_public_key kp)" "length sig = DSA_SIG_LEN \<Longrightarrow> lp_ok sig"
  by (simp_all add: dsa_law_def lp_ok_def crypto_lens)

lemma dsa_pk_length: "dsa_law ox kp \<Longrightarrow> length (sk_public_key kp) = DSA_PK_LEN"
  by (simp add: dsa_law_def)

lemma seal_heartbeat_InrE:
  assumes "seal_heartbeat_with ox c draw key kp f = Inr s" "dsa_law ox kp"
  obtains sig aes p where "verify_signature ox (sk_public_key kp) (heartbeat_input (hf_room f) (sk_public_key kp) (hf_sent_unix_ms f)
      (hf_live_share_ids f) (hf_is_leave f)) sig = Inr ()" "length sig = DSA_SIG_LEN"
    "aes256_key ox key = Inr aes" "pad_plaintext c (beacon_of kp f sig) = Inr p" "seal_envelope ox draw aes HEARTBEAT_AAD p = Inr s"
  using assms(1) verify_signature_sign [OF assms(2)] that
  by (auto simp: seal_heartbeat_with_def beacon_of_def Let_def result_simps) blast

interpretation beacon: signed_message "codec_law c beacon_ok" "\<lambda>ox. seal_heartbeat_with ox c" "\<lambda>ox. open_heartbeat ox c"
  beacon_of beacon_fields_ok hb_sender_pubkey beacon_says
  for c :: "(member_heartbeat, 'd) codec"
proof
  fix ox kp f draw key s
  assume law: "codec_law c beacon_ok" "gcm_law ox" "dsa_law ox kp" "beacon_fields_ok f"
    and "seal_heartbeat_with ox c draw key kp f = Inr s"
  then obtain sig aes p where v: "verify_signature ox (sk_public_key kp) (heartbeat_input (hf_room f) (sk_public_key kp) (hf_sent_unix_ms f)
      (hf_live_share_ids f) (hf_is_leave f)) sig = Inr ()" "length sig = DSA_SIG_LEN"
    "aes256_key ox key = Inr aes" "pad_plaintext c (beacon_of kp f sig) = Inr p" "seal_envelope ox draw aes HEARTBEAT_AAD p = Inr s"
    by (blast elim: seal_heartbeat_InrE)
  have "beacon_ok (beacon_of kp f sig)"
    using law(4) dsa_lens(1) [OF law(3)] dsa_lens(2) [OF v(2)] by (simp add: beacon_ok_def beacon_of_def beacon_fields_ok_def)
  moreover have "unpad_plaintext p = (Inr (encode_to_vec c (beacon_of kp f sig)) :: 'd heartbeat_error + byte list)"
    by (rule unpad_pad [OF v(4), THEN conjunct1])
  ultimately have "open_heartbeat ox c key s = Inr (beacon_of kp f sig)"
    using v open_seal_envelope [OF law(2) v(5)] codec_lawD(1) [OF law(1)] dsa_pk_length [OF law(3)]
    by (simp add: open_heartbeat_def) (simp add: beacon_of_def)
  with v(2) show "\<exists>sig. length sig = DSA_SIG_LEN \<and> open_heartbeat ox c key s = Inr (beacon_of kp f sig)" by blast
next
  fix ox key s m
  assume "codec_law c beacon_ok" "open_heartbeat ox c key s = Inr m"
  then show "statement_ok (beacon_says m) \<and> lp_ok (hb_sender_pubkey m) \<and>
      (\<exists>sig. verify_signature ox (hb_sender_pubkey m) (signed_bytes (hb_sender_pubkey m) (beacon_says m)) sig = Inr ())"
    using codec_lawD(2) [of c beacon_ok]
    by (fastforce simp: open_heartbeat_def beacon_says_def beacon_ok_def result_simps split: if_splits)
qed

text \<open>A chat message is opened for the room the opener expects, whatever the message carries.\<close>

definition chat_of :: "string \<Rightarrow> sign_keypair \<Rightarrow> string \<times> string \<times> int \<Rightarrow> byte list \<Rightarrow> room_message" where
  "chat_of room kp = (\<lambda>(handle, body, t) sig. \<lparr>rm_room_id = room, rm_sender_pubkey = sk_public_key kp, rm_sender_handle = handle,
     rm_body = body, rm_sent_unix_ms = t, rm_signature = sig\<rparr>)"

definition chat_fields_ok :: "string \<times> string \<times> int \<Rightarrow> bool" where
  "chat_fields_ok = (\<lambda>(handle, body, t). string_ok handle \<and> string_ok body \<and> i64_ok t)"

definition chat_says :: "chat_scope \<Rightarrow> string \<Rightarrow> room_message \<Rightarrow> statement" where
  "chat_says sc room m = SaysChat sc room (rm_sent_unix_ms m) (rm_body m)"

interpretation chat: signed_message "codec_law c chat_ok \<and> string_ok room"
  "\<lambda>ox draw key kp f. seal_signed_room_message ox c draw key aad (chat_domain sc) kp room (fst f) (fst (snd f)) (snd (snd f))"
  "\<lambda>ox key s. open_signed_room_message ox c key aad (chat_domain sc) s room"
  "chat_of room" chat_fields_ok rm_sender_pubkey "chat_says sc room"
  for c :: "(room_message, 'd) codec" and aad sc room
proof
  fix ox kp f draw key s
  assume law: "codec_law c chat_ok \<and> string_ok room" "gcm_law ox" "dsa_law ox kp" "chat_fields_ok f"
    and "seal_signed_room_message ox c draw key aad (chat_domain sc) kp room (fst f) (fst (snd f)) (snd (snd f)) = Inr s"
  then obtain sig aes where v: "verify_signature ox (sk_public_key kp) (room_input (chat_domain sc) room (sk_public_key kp)
      (snd (snd f)) (fst (snd f))) sig = Inr ()" "length sig = DSA_SIG_LEN"
    "aes256_key ox key = Inr aes" "seal_envelope ox draw aes aad (encode_to_vec c (chat_of room kp f sig)) = Inr s"
    using verify_signature_sign [OF law(3)]
    by (cases f) (auto simp: seal_signed_room_message_def chat_of_def Let_def result_simps)
  have "chat_ok (chat_of room kp f sig)"
    using law(1,4) dsa_lens(1) [OF law(3)] dsa_lens(2) [OF v(2)] by (cases f) (simp add: chat_ok_def chat_of_def chat_fields_ok_def)
  then have "open_signed_room_message ox c key aad (chat_domain sc) s room = Inr (chat_of room kp f sig)"
    using v open_seal_envelope [OF law(2) v(4)] codec_lawD(1) [of c chat_ok] law(1) dsa_pk_length [OF law(3)]
    by (cases f) (simp add: open_signed_room_message_def, simp add: chat_of_def)
  with v(2) show "\<exists>sig. length sig = DSA_SIG_LEN \<and>
      open_signed_room_message ox c key aad (chat_domain sc) s room = Inr (chat_of room kp f sig)" by blast
next
  fix ox key s m
  assume "codec_law c chat_ok \<and> string_ok room" "open_signed_room_message ox c key aad (chat_domain sc) s room = Inr m"
  then show "statement_ok (chat_says sc room m) \<and> lp_ok (rm_sender_pubkey m) \<and>
      (\<exists>sig. verify_signature ox (rm_sender_pubkey m) (signed_bytes (rm_sender_pubkey m) (chat_says sc room m)) sig = Inr ())"
    using codec_lawD(2) [of c chat_ok]
    by (fastforce simp: open_signed_room_message_def chat_says_def chat_ok_def result_simps split: if_splits)
qed

definition roll_call_of :: "sign_keypair \<Rightarrow> roll_call_fields \<Rightarrow> byte list \<Rightarrow> share_roll_call" where
  "roll_call_of kp f sig = \<lparr>rc_room = rf_room f, rc_requester_pubkey = sk_public_key kp, rc_requester_handle = rf_requester_handle f,
     rc_sent_unix_ms = rf_sent_unix_ms f, rc_signature = sig\<rparr>"

definition roll_call_fields_ok :: "roll_call_fields \<Rightarrow> bool" where
  "roll_call_fields_ok f \<longleftrightarrow> string_ok (rf_room f) \<and> string_ok (rf_requester_handle f) \<and> i64_ok (rf_sent_unix_ms f)"

definition roll_call_says :: "share_roll_call \<Rightarrow> statement" where
  "roll_call_says m = SaysRollCall (rc_room m) (rc_sent_unix_ms m)"

interpretation roll_call: signed_message "codec_law c roll_call_ok" "\<lambda>ox. seal_rollcall_with ox c" "\<lambda>ox. open_rollcall ox c"
  roll_call_of roll_call_fields_ok rc_requester_pubkey roll_call_says
  for c :: "(share_roll_call, 'd) codec"
proof
  fix ox kp f draw key s
  assume law: "codec_law c roll_call_ok" "gcm_law ox" "dsa_law ox kp" "roll_call_fields_ok f"
    and "seal_rollcall_with ox c draw key kp f = Inr s"
  then obtain sig aes where v: "verify_signature ox (sk_public_key kp) (roll_call_input (rf_room f) (sk_public_key kp)
      (rf_sent_unix_ms f)) sig = Inr ()" "length sig = DSA_SIG_LEN"
    "aes256_key ox key = Inr aes" "seal_envelope ox draw aes SHARE_ROLLCALL_AAD (encode_to_vec c (roll_call_of kp f sig)) = Inr s"
    using verify_signature_sign [OF law(3)]
    by (auto simp: seal_rollcall_with_def roll_call_of_def Let_def result_simps)
  have "roll_call_ok (roll_call_of kp f sig)"
    using law(4) dsa_lens(1) [OF law(3)] dsa_lens(2) [OF v(2)] by (simp add: roll_call_ok_def roll_call_of_def roll_call_fields_ok_def)
  then have "open_rollcall ox c key s = Inr (roll_call_of kp f sig)"
    using v open_seal_envelope [OF law(2) v(4)] codec_lawD(1) [OF law(1)] dsa_pk_length [OF law(3)]
    by (simp add: open_rollcall_def) (simp add: roll_call_of_def)
  with v(2) show "\<exists>sig. length sig = DSA_SIG_LEN \<and> open_rollcall ox c key s = Inr (roll_call_of kp f sig)" by blast
next
  fix ox key s m
  assume "codec_law c roll_call_ok" "open_rollcall ox c key s = Inr m"
  then show "statement_ok (roll_call_says m) \<and> lp_ok (rc_requester_pubkey m) \<and>
      (\<exists>sig. verify_signature ox (rc_requester_pubkey m) (signed_bytes (rc_requester_pubkey m) (roll_call_says m)) sig = Inr ())"
    using codec_lawD(2) [of c roll_call_ok]
    by (fastforce simp: open_rollcall_def roll_call_says_def roll_call_ok_def result_simps split: if_splits)
qed

definition announcement_of :: "sign_keypair \<Rightarrow> announcement_fields \<Rightarrow> byte list \<Rightarrow> share_announcement" where
  "announcement_of kp f sig = \<lparr>sa_room = af_room f, sa_sender_pubkey = sk_public_key kp, sa_sender_handle = af_sender_handle f,
     sa_share_id = af_share_id f, sa_root_commitment = af_root_commitment f, sa_name = af_name f, sa_rating = af_rating f,
     sa_withdraw = af_withdraw f, sa_sent_unix_ms = af_sent_unix_ms f, sa_signature = sig\<rparr>"

definition announcement_fields_ok :: "announcement_fields \<Rightarrow> bool" where
  "announcement_fields_ok f \<longleftrightarrow> string_ok (af_room f) \<and> string_ok (af_sender_handle f) \<and> string_ok (af_share_id f) \<and>
     lp_ok (af_root_commitment f) \<and> string_ok (af_name f) \<and> string_ok (af_rating f) \<and> i64_ok (af_sent_unix_ms f)"

definition announcement_says :: "share_announcement \<Rightarrow> statement" where
  "announcement_says m = SaysAnnouncement (sa_room m) (sa_share_id m) (sa_root_commitment m) (sa_name m) (sa_rating m)
     (sa_withdraw m) (sa_sent_unix_ms m)"

text \<open>The announcement's own sealing is the envelope of the other messages.\<close>

fun announce_of_envelope :: "envelope_error \<Rightarrow> 'd share_announce_error" where
  "announce_of_envelope EntropySource = SaEntropySource"
| "announce_of_envelope (Encrypt m) = SaAead m"
| "announce_of_envelope TooShort = SaTruncated"
| "announce_of_envelope (Decrypt e) = (if e = TagMismatch then SaAuthentication else SaAead e)"

lemma announcement_seal:
  "seal_announcement_with ox c draw key kp f =
     rbind (map_err (\<lambda>_. SaSign) (keypair_sign ox kp (signed_bytes (sk_public_key kp) (announcement_says (announcement_of kp f []))))) (\<lambda>sig.
     rbind (map_err SaKeyInit (aes256_key ox key)) (\<lambda>aes.
     map_err announce_of_envelope (seal_envelope ox draw aes SHARE_ANNOUNCE_AAD (encode_to_vec c (announcement_of kp f sig)))))"
  by (auto simp: seal_announcement_with_def announcement_says_def announcement_of_def seal_envelope_def Let_def
    rbind_def map_err_def ok_or_def split: sum.split option.split prod.split)

lemma announcement_open:
  "open_announcement ox c key s = Inr m \<longleftrightarrow>
     (\<exists>aes pt. aes256_key ox key = Inr aes \<and> open_envelope ox aes SHARE_ANNOUNCE_AAD s = Inr pt \<and> decode_msg c pt = Inr m \<and>
       length (sa_sender_pubkey m) = DSA_PK_LEN \<and> length (sa_signature m) = DSA_SIG_LEN \<and>
       verify_signature ox (sa_sender_pubkey m) (signed_bytes (sa_sender_pubkey m) (announcement_says m)) (sa_signature m) = Inr ())"
  by (auto simp: open_announcement_def open_envelope_def announcement_says_def Let_def result_simps split: if_splits)

interpretation announcement: signed_message "codec_law c announcement_ok" "\<lambda>ox. seal_announcement_with ox c"
  "\<lambda>ox. open_announcement ox c" announcement_of announcement_fields_ok sa_sender_pubkey announcement_says
  for c :: "(share_announcement, 'd) codec"
proof
  fix ox kp f draw key s
  assume law: "codec_law c announcement_ok" "gcm_law ox" "dsa_law ox kp" "announcement_fields_ok f"
    and "seal_announcement_with ox c draw key kp f = Inr s"
  then obtain sig aes where v: "verify_signature ox (sk_public_key kp) (signed_bytes (sk_public_key kp)
      (announcement_says (announcement_of kp f sig))) sig = Inr ()" "length sig = DSA_SIG_LEN"
    "aes256_key ox key = Inr aes" "seal_envelope ox draw aes SHARE_ANNOUNCE_AAD (encode_to_vec c (announcement_of kp f sig)) = Inr s"
    using verify_signature_sign [OF law(3)]
    by (auto simp: announcement_seal announcement_says_def result_simps) (auto simp: announcement_of_def)
  have "announcement_ok (announcement_of kp f sig)" using law(4) dsa_lens(1) [OF law(3)] dsa_lens(2) [OF v(2)]
    by (simp add: announcement_ok_def announcement_of_def announcement_fields_ok_def)
  then have "open_announcement ox c key s = Inr (announcement_of kp f sig)"
    using v open_seal_envelope [OF law(2) v(4)] codec_lawD(1) [OF law(1)] dsa_pk_length [OF law(3)]
    by (simp add: announcement_open) (simp add: announcement_of_def)
  with v(2) show "\<exists>sig. length sig = DSA_SIG_LEN \<and> open_announcement ox c key s = Inr (announcement_of kp f sig)" by blast
next
  fix ox key s m
  assume "codec_law c announcement_ok" "open_announcement ox c key s = Inr m"
  then show "statement_ok (announcement_says m) \<and> lp_ok (sa_sender_pubkey m) \<and>
      (\<exists>sig. verify_signature ox (sa_sender_pubkey m) (signed_bytes (sa_sender_pubkey m) (announcement_says m)) sig = Inr ())"
    using codec_lawD(2) [of c announcement_ok]
    by (auto simp: announcement_open) (auto simp: announcement_says_def announcement_ok_def)
qed

text \<open>A circle's room identifier is hexadecimal.\<close>

lemma utf8_low: "list_all (\<lambda>b. unat b < 128) bs \<Longrightarrow> utf8_valid bs"
  by (induction bs) (auto simp: in_range_def simp del: utf8_valid.simps(2) simp: utf8_ascii)

lemma hex_low: "n < 16 \<Longrightarrow> unat (of_char (hex_digit n) :: byte) < 128"
proof -
  assume "n < 16"
  moreover have "list_all (\<lambda>n. unat (of_char (hex_digit n) :: byte) < 128) [0..<16]" by code_simp
  ultimately show ?thesis by (simp add: list_all_iff)
qed

lemma hex_ok: "length bs < 2 ^ 32 \<Longrightarrow> string_ok (hex bs)"
proof -
  assume l: "length bs < 2 ^ 32"
  have "unat b div 16 < 16" for b :: byte using unat_less_exp [of b] by simp
  then have "list_all (\<lambda>b. unat b < 128) (ascii (hex bs))"
    by (auto simp: ascii_def hex_def list_all_iff intro!: hex_low)
  moreover have "length (hex bs) = 2 * length bs" by (induction bs) (simp_all add: hex_def)
  ultimately show ?thesis using l by (simp add: string_ok_def utf8_low lp_ok_def ascii_def)
qed

lemma circle_room_id_ok: "string_ok (circle_room_id ox key)"
proof (cases "sha384 ox key")
  case (Inr d)
  have "length (take (CIRCLE_FINGERPRINT_HEX_LEN div 2) d) < 2 ^ 32" by (simp add: CIRCLE_FINGERPRINT_HEX_LEN_def)
  from hex_ok [OF this] Inr show ?thesis by (simp add: circle_room_id_def)
qed (simp add: circle_room_id_def string_ok_def ascii_def lp_ok_def)

section \<open>What the messages guarantee\<close>

text \<open>
  A beacon opens to what was sealed and its length says nothing: whatever the room, the handle, the shares
  and the kind of beacon, a sealed beacon has \<open>HEARTBEAT_SEALED_LEN\<close> bytes and opens, under the room's key, to the
  fields it was sealed from under the sender's key; and one that does not fit is refused, never cut.
\<close>

lemma heartbeat_round_trip:
  assumes "codec_law c beacon_ok" "gcm_law ox" "dsa_law ox kp" "beacon_fields_ok f"
  shows "(seal_heartbeat_with ox c draw key kp f = Inr s \<longrightarrow> length s = HEARTBEAT_SEALED_LEN \<and>
      (\<exists>sig. length sig = DSA_SIG_LEN \<and> open_heartbeat ox c key s = Inr (beacon_of kp f sig))) \<and>
    (keypair_sign ox kp (signed_bytes (sk_public_key kp) (beacon_says (beacon_of kp f []))) = Inr sig \<longrightarrow>
      aes256_key ox key = Inr aes \<longrightarrow> HEARTBEAT_PADDED_PLAINTEXT_LEN < HEARTBEAT_LEN_PREFIX + length (encode_to_vec c (beacon_of kp f sig)) \<longrightarrow>
      seal_heartbeat_with ox c draw key kp f =
        Inl (HbTooLarge (HEARTBEAT_LEN_PREFIX + length (encode_to_vec c (beacon_of kp f sig))) HEARTBEAT_PADDED_PLAINTEXT_LEN))"
proof (intro conjI impI)
  assume s: "seal_heartbeat_with ox c draw key kp f = Inr s"
  then obtain aes sig p where "seal_envelope ox draw aes HEARTBEAT_AAD p = Inr s" "pad_plaintext c (beacon_of kp f sig) = Inr p"
    by (rule seal_heartbeat_InrE [OF _ assms(3)])
  then show "length s = HEARTBEAT_SEALED_LEN"
    using length_seal_envelope [OF assms(2)] unpad_pad by (metis HEARTBEAT_SEALED_LEN_def)
  show "\<exists>sig. length sig = DSA_SIG_LEN \<and> open_heartbeat ox c key s = Inr (beacon_of kp f sig)"
    by (rule beacon.unseal_seal [OF assms s])
qed (auto simp: seal_heartbeat_with_def pad_plaintext_def beacon_says_def beacon_of_def Let_def)

text \<open>
  C5. What opens was said. Where nothing verifies under a key but what its holder signed, every message that opens
  under that key is one its holder sealed, field by field: a beacon with its room, time, shares and kind, a chat
  message of exactly the room and the scope it was opened for, a roll call, an announcement, a route advert for
  exactly its share, a published advert, a channel opening for exactly its recipient, channel and advert. No
  signature of one kind stands for another, so nothing captured in one part of the program replays in another.
\<close>

theorem opened_messages_were_said:
  fixes m_b :: member_heartbeat and cb :: "(member_heartbeat, 'd) codec"
  assumes "signs_only ox pk log" "lp_ok pk"
    and "codec_law cb beacon_ok" "codec_law cc chat_ok" "codec_law cr roll_call_ok" "codec_law ca announcement_ok"
  shows "(open_heartbeat ox cb key s = Inr m_b \<and> hb_sender_pubkey m_b = pk \<longrightarrow>
      SaysBeacon (hb_room m_b) (hb_sent_unix_ms m_b) (hb_live_share_ids m_b) (hb_is_leave m_b) \<in> log) \<and>
    (string_ok room \<and> open_room_message ox cc key room s = Inr m_c \<and> rm_sender_pubkey m_c = pk \<longrightarrow>
      SaysChat InPublicRoom room (rm_sent_unix_ms m_c) (rm_body m_c) \<in> log) \<and>
    (open_message ox cc key s = Inr m_c \<and> rm_sender_pubkey m_c = pk \<longrightarrow>
      SaysChat InCircle (circle_room_id ox key) (rm_sent_unix_ms m_c) (rm_body m_c) \<in> log) \<and>
    (open_rollcall ox cr key s = Inr m_r \<and> rc_requester_pubkey m_r = pk \<longrightarrow> SaysRollCall (rc_room m_r) (rc_sent_unix_ms m_r) \<in> log) \<and>
    (open_announcement ox ca key s = Inr m_a \<and> sa_sender_pubkey m_a = pk \<longrightarrow>
      SaysAnnouncement (sa_room m_a) (sa_share_id m_a) (sa_root_commitment m_a) (sa_name m_a) (sa_rating m_a) (sa_withdraw m_a)
        (sa_sent_unix_ms m_a) \<in> log) \<and>
    (string_ok share_id \<and> lp_ok blob \<and> verify_route_advert ox pk share_id blob sig \<longrightarrow> SaysRoute share_id blob \<in> log) \<and>
    (advert_verify ox pk bytes = Inr ad \<longrightarrow> SaysAdvert (ad_serial ad) (ad_not_before ad) (ad_kem_pk ad) \<in> log) \<and>
    (opening_verify ox opn r l n = Inr () \<and> o_writer_identity_pk opn = pk \<and> lp_ok r \<and> lp_ok l \<and> lp_ok (o_first_ratchet_pk opn) \<longrightarrow>
      SaysOpening r l (o_first_ratchet_pk opn) n \<in> log)"
proof (intro conjI impI; (elim conjE)?)
  assume "open_heartbeat ox cb key s = Inr m_b" "hb_sender_pubkey m_b = pk"
  then show "SaysBeacon (hb_room m_b) (hb_sent_unix_ms m_b) (hb_live_share_ids m_b) (hb_is_leave m_b) \<in> log"
    using beacon.said [OF assms(3,1)] by (simp add: beacon_says_def)
next
  assume "string_ok room" "open_room_message ox cc key room s = Inr m_c" "rm_sender_pubkey m_c = pk"
  then show "SaysChat InPublicRoom room (rm_sent_unix_ms m_c) (rm_body m_c) \<in> log"
    using chat.said [OF _ assms(1), where sc = InPublicRoom and room = room and c = cc] assms(4)
    by (simp add: open_room_message_def chat_says_def)
next
  assume "open_message ox cc key s = Inr m_c" "rm_sender_pubkey m_c = pk"
  then show "SaysChat InCircle (circle_room_id ox key) (rm_sent_unix_ms m_c) (rm_body m_c) \<in> log"
    using chat.said [OF _ assms(1), where sc = InCircle and room = "circle_room_id ox key" and c = cc] assms(4) circle_room_id_ok
    by (simp add: open_message_def chat_says_def)
next
  assume "open_rollcall ox cr key s = Inr m_r" "rc_requester_pubkey m_r = pk"
  then show "SaysRollCall (rc_room m_r) (rc_sent_unix_ms m_r) \<in> log"
    using roll_call.said [OF assms(5,1)] by (simp add: roll_call_says_def)
next
  assume "open_announcement ox ca key s = Inr m_a" "sa_sender_pubkey m_a = pk"
  then show "SaysAnnouncement (sa_room m_a) (sa_share_id m_a) (sa_root_commitment m_a) (sa_name m_a) (sa_rating m_a) (sa_withdraw m_a)
      (sa_sent_unix_ms m_a) \<in> log"
    using announcement.said [OF assms(6,1)] by (simp add: announcement_says_def)
next
  assume "string_ok share_id" "lp_ok blob" "verify_route_advert ox pk share_id blob sig"
  then show "SaysRoute share_id blob \<in> log"
    using signs_onlyD [OF assms(1), of "SaysRoute share_id blob" sig] assms(2) by (auto simp: verify_route_advert_def is_ok_iff)
next
  assume "advert_verify ox pk bytes = Inr ad"
  then show "SaysAdvert (ad_serial ad) (ad_not_before ad) (ad_kem_pk ad) \<in> log"
    using advert_verify_sound [of ox pk bytes ad] signs_onlyD [OF assms(1), of "SaysAdvert (ad_serial ad) (ad_not_before ad) (ad_kem_pk ad)"]
      assms(2) by (auto simp: advert_signed_def lp_ok_def crypto_lens)
next
  assume "opening_verify ox opn r l n = Inr ()" "o_writer_identity_pk opn = pk" "lp_ok r" "lp_ok l" "lp_ok (o_first_ratchet_pk opn)"
  then show "SaysOpening r l (o_first_ratchet_pk opn) n \<in> log"
    using signs_onlyD [OF assms(1), of "SaysOpening r l (o_first_ratchet_pk opn) n" "o_signature opn"] assms(2)
    by (auto simp: opening_verify_def Let_def result_simps split: if_splits)
qed

section \<open>Codecs that satisfy the law\<close>

text \<open>A computable instance for evaluating the definitions: a message is the list of its fields, counted.\<close>

fun rd_fields :: "nat \<Rightarrow> byte list \<Rightarrow> byte list list" where
  "rd_fields 0 bs = []"
| "rd_fields (Suc n) bs = (case rd_lp bs of Inl _ \<Rightarrow> [] | Inr (f, rest) \<Rightarrow> f # rd_fields n rest)"

definition demo_codec :: "('m \<Rightarrow> byte list list) \<Rightarrow> (byte list list \<Rightarrow> 'm) \<Rightarrow> ('m \<Rightarrow> bool) \<Rightarrow> ('m, unit) codec" where
  "demo_codec to from ok = \<lparr>encode_to_vec = (\<lambda>m. u64_be (word_of_nat (length (to m))) @ push_fields (to m)),
     decode_msg = (\<lambda>bs. let m = from (rd_fields (unat (u64_of_be (take 8 bs))) (drop 8 bs)) in if ok m then Inr m else Inl ())\<rparr>"

lemma rd_fields_push: "list_all lp_ok fs \<Longrightarrow> rd_fields (length fs) (push_fields fs) = fs"
  by (induction fs) (simp_all add: rd_enc)

lemma demo_codec_law:
  assumes "\<And>m. ok m \<Longrightarrow> from (to m) = m \<and> list_all lp_ok (to m) \<and> length (to m) < 2 ^ 64"
  shows "codec_law (demo_codec to from ok) ok"
  unfolding codec_law_def
proof (intro conjI allI impI)
  fix m assume m: "ok m"
  with assms [OF m] show "decode_msg (demo_codec to from ok) (encode_to_vec (demo_codec to from ok) m) = Inr m"
    by (simp add: demo_codec_def Let_def unat_of_nat rd_fields_push)
next
  fix bs m assume "decode_msg (demo_codec to from ok) bs = Inr m"
  then show "ok m" by (auto simp: demo_codec_def Let_def split: if_splits)
qed

definition i64_of_be :: "byte list \<Rightarrow> int" where "i64_of_be bs = sint (u64_of_be bs)"

lemma i64_of_be_i64_be [simp]: "i64_ok x \<Longrightarrow> i64_of_be (i64_be x) = x"
  by (simp add: i64_of_be_def i64_be_def i64_ok_def sint_sbintrunc' signed_take_bit_int_eq_self)

definition demo_beacons :: "(member_heartbeat, unit) codec" where
  "demo_beacons = demo_codec
     (\<lambda>m. [ascii (hb_room m), hb_sender_pubkey m, ascii (hb_sender_handle m), i64_be (hb_sent_unix_ms m), hb_signature m,
       [of_bool (hb_is_leave m)]] @ map ascii (hb_live_share_ids m))
     (\<lambda>fs. \<lparr>hb_room = unascii (fs ! 0), hb_sender_pubkey = fs ! 1, hb_sender_handle = unascii (fs ! 2), hb_sent_unix_ms = i64_of_be (fs ! 3),
       hb_signature = fs ! 4, hb_live_share_ids = map unascii (drop 6 fs), hb_is_leave = fs ! 5 = [1]\<rparr>)
     beacon_ok"

definition demo_chats :: "(room_message, unit) codec" where
  "demo_chats = demo_codec
     (\<lambda>m. [ascii (rm_room_id m), rm_sender_pubkey m, ascii (rm_sender_handle m), ascii (rm_body m), i64_be (rm_sent_unix_ms m), rm_signature m])
     (\<lambda>fs. \<lparr>rm_room_id = unascii (fs ! 0), rm_sender_pubkey = fs ! 1, rm_sender_handle = unascii (fs ! 2), rm_body = unascii (fs ! 3),
       rm_sent_unix_ms = i64_of_be (fs ! 4), rm_signature = fs ! 5\<rparr>) chat_ok"

definition demo_roll_calls :: "(share_roll_call, unit) codec" where
  "demo_roll_calls = demo_codec
     (\<lambda>m. [ascii (rc_room m), rc_requester_pubkey m, ascii (rc_requester_handle m), i64_be (rc_sent_unix_ms m), rc_signature m])
     (\<lambda>fs. \<lparr>rc_room = unascii (fs ! 0), rc_requester_pubkey = fs ! 1, rc_requester_handle = unascii (fs ! 2),
       rc_sent_unix_ms = i64_of_be (fs ! 3), rc_signature = fs ! 4\<rparr>) roll_call_ok"

definition demo_announcements :: "(share_announcement, unit) codec" where
  "demo_announcements = demo_codec
     (\<lambda>m. [ascii (sa_room m), sa_sender_pubkey m, ascii (sa_sender_handle m), ascii (sa_share_id m), sa_root_commitment m,
       ascii (sa_name m), ascii (sa_rating m), [of_bool (sa_withdraw m)], i64_be (sa_sent_unix_ms m), sa_signature m])
     (\<lambda>fs. \<lparr>sa_room = unascii (fs ! 0), sa_sender_pubkey = fs ! 1, sa_sender_handle = unascii (fs ! 2), sa_share_id = unascii (fs ! 3),
       sa_root_commitment = fs ! 4, sa_name = unascii (fs ! 5), sa_rating = unascii (fs ! 6), sa_withdraw = fs ! 7 = [1],
       sa_sent_unix_ms = i64_of_be (fs ! 8), sa_signature = fs ! 9\<rparr>) announcement_ok"

lemma demo_codec_laws:
  "codec_law demo_beacons beacon_ok" "codec_law demo_chats chat_ok" "codec_law demo_roll_calls roll_call_ok"
  "codec_law demo_announcements announcement_ok"
  unfolding demo_beacons_def demo_chats_def demo_roll_calls_def demo_announcements_def
  by (rule demo_codec_law; auto simp: beacon_ok_def chat_ok_def roll_call_ok_def announcement_ok_def string_ok_def list_all_iff)+

section \<open>Witnesses\<close>

definition demo_member :: sign_keypair where
  "demo_member = \<lparr>sk_public_key = replicate DSA_PK_LEN 1, sk_secret_key = [2]\<rparr>"

definition demo_fields :: heartbeat_fields where
  "demo_fields = \<lparr>hf_room = ''lobby'', hf_sender_handle = ''ann'', hf_sent_unix_ms = -5, hf_live_share_ids = [''a'', ''b''], hf_is_leave = True\<rparr>"

lemma demo_member_law: "dsa_law demo_oxi demo_member"
  by (rule demo_dsa_law) (simp add: demo_member_def)

lemma demo_fields_ok: "beacon_fields_ok demo_fields"
  by (simp add: beacon_fields_ok_def demo_fields_def string_ok_def ascii_def in_range_def lp_ok_def i64_ok_def)

lemma demo_beacon_length: "length (encode_to_vec demo_beacons (beacon_of demo_member demo_fields sig)) = 2683 + length sig"
  by (simp add: demo_beacons_def demo_codec_def beacon_of_def demo_member_def demo_fields_def ascii_def crypto_lens)

lemma heartbeat_round_trip_witness:
  "\<exists>s sig. seal_heartbeat_with demo_oxi demo_beacons (Some (replicate 12 9)) [3] demo_member demo_fields = Inr s \<and>
     length s = 8220 \<and> open_heartbeat demo_oxi demo_beacons [3] s = Inr (beacon_of demo_member demo_fields sig)"
proof -
  obtain s where s: "seal_heartbeat_with demo_oxi demo_beacons (Some (replicate 12 9)) [3] demo_member demo_fields = Inr s"
    using demo_beacon_length
    by (auto simp: seal_heartbeat_with_def keypair_sign_def ml_dsa_sign_def aes256_key_def oxi_module_def seal_envelope_def
        gcm_encrypt_def gcm_nonce_def demo_oxi_def pad_plaintext_def HEARTBEAT_LEN_PREFIX_def HEARTBEAT_PADDED_PLAINTEXT_LEN_def
        beacon_of_def DSA_SIG_LEN_def Let_def)
  from heartbeat_round_trip [OF demo_codec_laws(1) demo_gcm_law demo_member_law demo_fields_ok] s
  have "length s = HEARTBEAT_SEALED_LEN \<and> (\<exists>sig. length sig = DSA_SIG_LEN \<and>
      open_heartbeat demo_oxi demo_beacons [3] s = Inr (beacon_of demo_member demo_fields sig))" by blast
  with s show ?thesis by (auto simp: HEARTBEAT_SEALED_LEN_def NONCE_LEN_def TAG_LEN_def HEARTBEAT_PADDED_PLAINTEXT_LEN_def)
qed

text \<open>A library under which the only bytes that verify are those of one chat message.\<close>

definition one_chat :: statement where "one_chat = SaysChat InPublicRoom ''lobby'' 7 ''hi''"

definition demo_signer :: oxi where
  "demo_signer = demo_oxi\<lparr>lib_dsa_verify := (\<lambda>pk msg ctx sig.
     if pk = sk_public_key demo_member \<and> msg = signed_bytes pk one_chat then Inr () else Inl SignatureInvalid)\<rparr>"

lemma demo_signer_verifies:
  "verify_signature demo_signer pk msg sig =
     (if pk = sk_public_key demo_member \<and> msg = signed_bytes pk one_chat then Inr () else Inl BadSignature)"
  by (simp add: verify_signature_def ml_dsa_verify_def oxi_module_def demo_signer_def demo_oxi_def)

lemma one_chat_ok: "statement_ok one_chat"
  by (simp add: one_chat_def string_ok_def ascii_def in_range_def lp_ok_def i64_ok_def)

lemma demo_signs_only: "signs_only demo_signer (sk_public_key demo_member) {one_chat}"
  by (simp add: signs_only_def demo_signer_verifies one_chat_ok)

definition demo_chat :: room_message where
  "demo_chat = \<lparr>rm_room_id = ''else'', rm_sender_pubkey = sk_public_key demo_member, rm_sender_handle = ''ann'', rm_body = ''hi'',
     rm_sent_unix_ms = 7, rm_signature = replicate DSA_SIG_LEN 0\<rparr>"

theorem opened_messages_were_said_witness:
  "\<exists>s. open_room_message demo_signer demo_chats [3] ''lobby'' s = Inr demo_chat \<and>
     SaysChat InPublicRoom ''lobby'' (rm_sent_unix_ms demo_chat) (rm_body demo_chat) \<in> {one_chat}"
proof -
  let ?pt = "encode_to_vec demo_chats demo_chat"
  have ok: "chat_ok demo_chat"
    by (simp add: chat_ok_def demo_chat_def demo_member_def string_ok_def ascii_def in_range_def lp_ok_def i64_ok_def crypto_lens)
  have law: "gcm_law demo_signer"
    by (auto simp: gcm_law_def gcm_encrypt_def gcm_decrypt_def gcm_nonce_def oxi_module_def demo_signer_def demo_oxi_def split: if_splits)
  obtain s where s: "seal_envelope demo_signer (Some (replicate 12 9)) [3] ROOM_MESSAGE_AAD ?pt = Inr s"
    by (auto simp: seal_envelope_def gcm_encrypt_def gcm_nonce_def oxi_module_def demo_signer_def demo_oxi_def)
  have k: "aes256_key demo_signer [3] = Inr [3]" by (simp add: aes256_key_def oxi_module_def demo_signer_def demo_oxi_def)
  note o = open_seal_envelope [OF law s] and d = codec_lawD(1) [OF demo_codec_laws(2) ok]
  have v: "verify_signature demo_signer (rm_sender_pubkey demo_chat) (room_input ROOM_PROVENANCE_DOMAIN ''lobby'' (rm_sender_pubkey demo_chat)
      (rm_sent_unix_ms demo_chat) (rm_body demo_chat)) (rm_signature demo_chat) = Inr ()"
    by (simp add: demo_signer_verifies demo_chat_def one_chat_def)
  have l: "length (rm_sender_pubkey demo_chat) = DSA_PK_LEN" "length (rm_signature demo_chat) = DSA_SIG_LEN"
    by (simp_all add: demo_chat_def demo_member_def)
  have "open_room_message demo_signer demo_chats [3] ''lobby'' s = Inr demo_chat"
    by (simp add: open_room_message_def open_signed_room_message_def k o d v l)
  moreover have "string_ok ''lobby''" by (simp add: string_ok_def ascii_def in_range_def lp_ok_def)
  moreover have "lp_ok (sk_public_key demo_member)" by (simp add: demo_member_def lp_ok_def crypto_lens)
  ultimately have "SaysChat InPublicRoom ''lobby'' (rm_sent_unix_ms demo_chat) (rm_body demo_chat) \<in> {one_chat}"
    using opened_messages_were_said [OF demo_signs_only _ demo_codec_laws, where room = "''lobby''" and key = "[3]" and s = s and m_c = demo_chat]
    by (simp add: demo_chat_def)
  with \<open>open_room_message demo_signer demo_chats [3] ''lobby'' s = Inr demo_chat\<close> show ?thesis by blast
qed

end
