(* ===== verification/Share_Frame.thy ===== *)
theory Share_Frame
  imports Statements
begin

text \<open>
  The frames of a share (\<open>share_envelope.rs\<close>), what a fetcher and a sharer exchange over a route, and their sealing
  under the room's key (\<open>share_seal.rs\<close>). The reader's position is the rest of the buffer. Casts of lengths to
  their field's width wrap, as in the source.
\<close>

section \<open>Frames\<close>

definition CHUNK_ADDR_LEN :: nat where "CHUNK_ADDR_LEN = 48"

type_synonym chunk_addr = "byte list"

record manifest_entry =
  me_rel_path :: string
  me_size :: u64
  me_chunks :: "chunk_addr list"

datatype share_frame =
    ManifestRequest
  | ManifestResponse "manifest_entry list"
  | ChunkRequest chunk_addr
  | ChunkResponse chunk_addr "byte list"

definition KIND_MANIFEST_REQUEST :: byte where "KIND_MANIFEST_REQUEST = 0"
definition KIND_MANIFEST_RESPONSE :: byte where "KIND_MANIFEST_RESPONSE = 1"
definition KIND_CHUNK_REQUEST :: byte where "KIND_CHUNK_REQUEST = 2"
definition KIND_CHUNK_RESPONSE :: byte where "KIND_CHUNK_RESPONSE = 3"

lemmas kinds = KIND_MANIFEST_REQUEST_def KIND_MANIFEST_RESPONSE_def KIND_CHUNK_REQUEST_def KIND_CHUNK_RESPONSE_def

datatype frame_error = UnknownKind byte | FrameTruncated | BadUtf8

definition entry_encode :: "manifest_entry \<Rightarrow> byte list" where
  "entry_encode e =
     u16_be (word_of_nat (length (ascii (me_rel_path e)))) @ ascii (me_rel_path e) @ u64_be (me_size e)
     @ u32_be (word_of_nat (length (me_chunks e))) @ concat (me_chunks e)"

fun frame_encode :: "share_frame \<Rightarrow> byte list" where
  "frame_encode ManifestRequest = [KIND_MANIFEST_REQUEST]"
| "frame_encode (ManifestResponse entries) =
     [KIND_MANIFEST_RESPONSE] @ u32_be (word_of_nat (length entries)) @ concat (map entry_encode entries)"
| "frame_encode (ChunkRequest chunk_addr) = [KIND_CHUNK_REQUEST] @ chunk_addr"
| "frame_encode (ChunkResponse chunk_addr data) = [KIND_CHUNK_RESPONSE] @ chunk_addr @ data"

definition read_slice :: "nat \<Rightarrow> byte list \<Rightarrow> frame_error + (byte list \<times> byte list)" where
  "read_slice n bs = (if length bs < n then Inl FrameTruncated else Inr (take n bs, drop n bs))"

definition read_u8 :: "byte list \<Rightarrow> frame_error + (byte \<times> byte list)" where
  "read_u8 bs = rbind (read_slice 1 bs) (\<lambda>(s, rest). Inr (s ! 0, rest))"

definition read_u16_be :: "byte list \<Rightarrow> frame_error + (u16 \<times> byte list)" where
  "read_u16_be bs = rbind (read_slice 2 bs) (\<lambda>(s, rest). Inr (u16_of_be s, rest))"

definition read_u32_be :: "byte list \<Rightarrow> frame_error + (u32 \<times> byte list)" where
  "read_u32_be bs = rbind (read_slice 4 bs) (\<lambda>(s, rest). Inr (u32_of_be s, rest))"

definition read_u64_be :: "byte list \<Rightarrow> frame_error + (u64 \<times> byte list)" where
  "read_u64_be bs = rbind (read_slice 8 bs) (\<lambda>(s, rest). Inr (u64_of_be s, rest))"

text \<open>The two loops of \<open>decode\<close>: a reader as many times as a count says.\<close>

fun read_many :: "nat \<Rightarrow> (byte list \<Rightarrow> frame_error + ('a \<times> byte list)) \<Rightarrow> byte list \<Rightarrow> frame_error + ('a list \<times> byte list)" where
  "read_many 0 rd bs = Inr ([], bs)"
| "read_many (Suc n) rd bs = rbind (rd bs) (\<lambda>(x, rest). rbind (read_many n rd rest) (\<lambda>(xs, rest). Inr (x # xs, rest)))"

definition read_entry :: "byte list \<Rightarrow> frame_error + (manifest_entry \<times> byte list)" where
  "read_entry bs =
    rbind (read_u16_be bs) (\<lambda>(path_len, bs).
    rbind (read_slice (unat path_len) bs) (\<lambda>(path_bytes, bs).
    if \<not> utf8_valid path_bytes then Inl BadUtf8
    else rbind (read_u64_be bs) (\<lambda>(size', bs).
    rbind (read_u32_be bs) (\<lambda>(chunk_count, bs).
    rbind (read_many (unat chunk_count) (read_slice CHUNK_ADDR_LEN) bs) (\<lambda>(chunks, bs).
    Inr (\<lparr>me_rel_path = unascii path_bytes, me_size = size', me_chunks = chunks\<rparr>, bs))))))"

definition frame_decode :: "byte list \<Rightarrow> frame_error + share_frame" where
  "frame_decode bytes =
    rbind (read_u8 bytes) (\<lambda>(kind, bs).
    if kind = KIND_MANIFEST_REQUEST then Inr ManifestRequest
    else if kind = KIND_MANIFEST_RESPONSE then
      rbind (read_u32_be bs) (\<lambda>(count, bs). rbind (read_many (unat count) read_entry bs) (\<lambda>(entries, _). Inr (ManifestResponse entries)))
    else if kind = KIND_CHUNK_REQUEST then rbind (read_slice CHUNK_ADDR_LEN bs) (\<lambda>(addr, _). Inr (ChunkRequest addr))
    else if kind = KIND_CHUNK_RESPONSE then rbind (read_slice CHUNK_ADDR_LEN bs) (\<lambda>(addr, data). Inr (ChunkResponse addr data))
    else Inl (UnknownKind kind))"

section \<open>Sealed frames\<close>

definition SHARE_FRAME_AAD :: "byte list" where "SHARE_FRAME_AAD = ascii ''daemonseed/share/frame/v1''"

datatype share_seal_error =
    SsKeyInit oxi_error
  | SsEntropySource
  | SsAead oxi_error
  | SsAuthentication
  | SsTruncated
  | SsDecode frame_error

definition seal_frame_with :: "oxi \<Rightarrow> byte list option \<Rightarrow> byte list \<Rightarrow> share_frame \<Rightarrow> share_seal_error + byte list" where
  "seal_frame_with ox draw key_bytes frame =
    rbind (map_err SsKeyInit (aes256_key ox key_bytes)) (\<lambda>aes.
    rbind (ok_or SsEntropySource draw) (\<lambda>nonce.
    rbind (map_err SsAead (gcm_encrypt ox aes nonce SHARE_FRAME_AAD (frame_encode frame))) (\<lambda>(ciphertext, tag).
    Inr (nonce @ ciphertext @ tag))))"

definition open_share_frame :: "oxi \<Rightarrow> byte list \<Rightarrow> byte list \<Rightarrow> share_seal_error + share_frame" where
  "open_share_frame ox key sealed =
    (if length sealed < NONCE_LEN + TAG_LEN then Inl SsTruncated
     else let nonce = take NONCE_LEN sealed;
              after_nonce = drop NONCE_LEN sealed;
              ciphertext_len = length after_nonce - TAG_LEN;
              ciphertext = take ciphertext_len after_nonce;
              tag = drop ciphertext_len after_nonce
          in rbind (map_err SsKeyInit (aes256_key ox key)) (\<lambda>aes.
             rbind (map_err (\<lambda>e. if e = TagMismatch then SsAuthentication else SsAead e)
               (gcm_decrypt ox aes nonce SHARE_FRAME_AAD ciphertext tag)) (\<lambda>plaintext.
             map_err SsDecode (frame_decode plaintext))))"

section \<open>The decoder accepts what the encoder writes\<close>

lemma read_slice_iff [result_simps]: "read_slice n bs = Inr (s, rest) \<longleftrightarrow> length s = n \<and> bs = s @ rest"
  by (auto simp: read_slice_def)

interpretation u16_field: exact_codec u16_be read_u16_be "\<lambda>_. True"
  by unfold_locales (auto simp: read_u16_be_def result_simps u16_be_u16_of_be)

interpretation u32_field: exact_codec u32_be read_u32_be "\<lambda>_. True"
  by unfold_locales (auto simp: read_u32_be_def result_simps u32_be_u32_of_be)

interpretation u64_field: exact_codec u64_be read_u64_be "\<lambda>_. True"
  by unfold_locales (auto simp: read_u64_be_def result_simps u64_be_u64_of_be)

interpretation addr_field: exact_codec "\<lambda>a. a" "read_slice CHUNK_ADDR_LEN" "\<lambda>a. length a = CHUNK_ADDR_LEN"
  by unfold_locales (auto simp: result_simps)

lemma read_many_iff:
  assumes "\<And>bs x rest. rd bs = Inr (x, rest) \<longleftrightarrow> ok x \<and> bs = enc x @ rest"
  shows "read_many n rd bs = Inr (xs, rest) \<longleftrightarrow> length xs = n \<and> list_all ok xs \<and> bs = concat (map enc xs) @ rest"
proof (induction n arbitrary: bs xs)
  case (Suc n)
  show ?case by (cases xs) (auto simp: result_simps assms Suc.IH)
qed auto

definition entry_ok :: "manifest_entry \<Rightarrow> bool" where
  "entry_ok e \<longleftrightarrow> length (ascii (me_rel_path e)) < 2 ^ 16 \<and> utf8_valid (ascii (me_rel_path e)) \<and> length (me_chunks e) < 2 ^ 32 \<and>
     list_all (\<lambda>a. length a = CHUNK_ADDR_LEN) (me_chunks e)"

lemma word_count: "length xs < 2 ^ LENGTH('l) \<Longrightarrow> unat (word_of_nat (length xs) :: 'l::len word) = length xs"
  by (simp add: unat_of_nat)

lemma count_word: "length xs = unat (w :: 'l::len word) \<longleftrightarrow> length xs < 2 ^ LENGTH('l) \<and> w = word_of_nat (length xs)"
proof
  assume "length xs = unat w"
  then show "length xs < 2 ^ LENGTH('l) \<and> w = word_of_nat (length xs)" using unat_less_exp [of w] by simp
qed (simp add: word_count)

lemma read_entry_iff: "read_entry bs = Inr (e, rest) \<longleftrightarrow> entry_ok e \<and> bs = entry_encode e @ rest"
proof -
  have many: "read_many n (read_slice CHUNK_ADDR_LEN) t = Inr (xs, rest) \<longleftrightarrow>
      length xs = n \<and> list_all (\<lambda>a. length a = CHUNK_ADDR_LEN) xs \<and> t = concat xs @ rest" for n t xs
    using read_many_iff [of "read_slice CHUNK_ADDR_LEN" "\<lambda>a. length a = CHUNK_ADDR_LEN" "\<lambda>a. a"] by (simp add: result_simps)
  show ?thesis
  proof
    assume "read_entry bs = Inr (e, rest)"
    then obtain pl t path t1 sz t2 cc t3 chunks where
      "read_u16_be bs = Inr (pl, t)" "read_slice (unat pl) t = Inr (path, t1)" "utf8_valid path" "read_u64_be t1 = Inr (sz, t2)"
        "read_u32_be t2 = Inr (cc, t3)" "read_many (unat cc) (read_slice CHUNK_ADDR_LEN) t3 = Inr (chunks, rest)"
        "e = \<lparr>me_rel_path = unascii path, me_size = sz, me_chunks = chunks\<rparr>"
      by (auto simp: read_entry_def rbind_Inr_iff split: if_splits prod.splits)
    then have r: "bs = u16_be pl @ path @ u64_be sz @ u32_be cc @ concat chunks @ rest" "length path = unat pl" "utf8_valid path"
        "e = \<lparr>me_rel_path = unascii path, me_size = sz, me_chunks = chunks\<rparr>" "list_all (\<lambda>a. length a = CHUNK_ADDR_LEN) chunks"
        "length chunks = unat cc"
      by (simp_all add: u16_field.dec_iff u32_field.dec_iff u64_field.dec_iff read_slice_iff many)
    from r(2,6) have "length path < 2 ^ 16" "pl = word_of_nat (length path)" "length chunks < 2 ^ 32" "cc = word_of_nat (length chunks)"
      by (simp_all add: count_word)
    with r(1,3-5) show "entry_ok e \<and> bs = entry_encode e @ rest" by (simp add: entry_ok_def entry_encode_def)
  next
    assume ok: "entry_ok e \<and> bs = entry_encode e @ rest"
    let ?path = "ascii (me_rel_path e)"
    have "read_u16_be bs = Inr (word_of_nat (length ?path), ?path @ u64_be (me_size e) @ u32_be (word_of_nat (length (me_chunks e))) @ concat (me_chunks e) @ rest)"
      using ok by (simp add: entry_encode_def u16_field.dec_enc)
    moreover have "read_slice (unat (word_of_nat (length ?path) :: u16)) (?path @ t) = Inr (?path, t)" for t
      using ok by (simp add: entry_ok_def word_count read_slice_def)
    moreover have "read_many (unat (word_of_nat (length (me_chunks e)) :: u32)) (read_slice CHUNK_ADDR_LEN) (concat (me_chunks e) @ rest) = Inr (me_chunks e, rest)"
      using ok by (simp add: entry_ok_def word_count many)
    ultimately show "read_entry bs = Inr (e, rest)"
      using ok by (simp add: read_entry_def u64_field.dec_enc u32_field.dec_enc entry_ok_def)
  qed
qed

interpretation entry_codec: exact_codec entry_encode read_entry entry_ok
  by unfold_locales (simp_all add: read_entry_iff)

fun frame_ok :: "share_frame \<Rightarrow> bool" where
  "frame_ok ManifestRequest \<longleftrightarrow> True"
| "frame_ok (ManifestResponse entries) \<longleftrightarrow> length entries < 2 ^ 32 \<and> list_all entry_ok entries"
| "frame_ok (ChunkRequest addr) \<longleftrightarrow> length addr = CHUNK_ADDR_LEN"
| "frame_ok (ChunkResponse addr data) \<longleftrightarrow> length addr = CHUNK_ADDR_LEN"

fun takes_rest :: "share_frame \<Rightarrow> bool" where
  "takes_rest (ChunkResponse addr data) \<longleftrightarrow> True"
| "takes_rest _ \<longleftrightarrow> False"

lemma read_u8_iff: "read_u8 bs = Inr (b, rest) \<longleftrightarrow> bs = b # rest"
  by (cases bs) (auto simp: read_u8_def read_slice_def)

lemma frame_decode_sound:
  assumes "frame_decode bs = Inr f"
  shows "frame_ok f \<and> (\<exists>junk. bs = frame_encode f @ junk \<and> (takes_rest f \<longrightarrow> junk = []))"
proof -
  note entries = read_many_iff [of read_entry entry_ok entry_encode, OF read_entry_iff]
  obtain kind t where bs: "bs = kind # t" using assms by (cases bs) (auto simp: frame_decode_def read_u8_def read_slice_def)
  have d: "frame_decode bs = (if kind = 0 then Inr ManifestRequest
      else if kind = 1 then rbind (read_u32_be t) (\<lambda>(count, bs). rbind (read_many (unat count) read_entry bs) (\<lambda>(entries, _). Inr (ManifestResponse entries)))
      else if kind = 2 then rbind (read_slice CHUNK_ADDR_LEN t) (\<lambda>(addr, _). Inr (ChunkRequest addr))
      else if kind = 3 then rbind (read_slice CHUNK_ADDR_LEN t) (\<lambda>(addr, data). Inr (ChunkResponse addr data))
      else Inl (UnknownKind kind))"
    by (simp add: bs frame_decode_def read_u8_def read_slice_def kinds)
  consider "kind = 0" "f = ManifestRequest"
    | count u es junk where "kind = 1" "read_u32_be t = Inr (count, u)" "read_many (unat count) read_entry u = Inr (es, junk)" "f = ManifestResponse es"
    | addr junk where "kind = 2" "read_slice CHUNK_ADDR_LEN t = Inr (addr, junk)" "f = ChunkRequest addr"
    | addr data where "kind = 3" "read_slice CHUNK_ADDR_LEN t = Inr (addr, data)" "f = ChunkResponse addr data"
    using assms unfolding d by (auto simp: rbind_Inr_iff split: if_splits prod.splits)
  then show ?thesis
  proof cases
    case 2
    then have "t = u32_be count @ concat (map entry_encode es) @ junk" "length es = unat count" "list_all entry_ok es"
      by (simp_all add: u32_field.dec_iff entries)
    then show ?thesis using 2 by (simp add: bs kinds count_word)
  qed (simp_all add: bs kinds read_slice_iff)
qed

lemma frame_decode_complete:
  assumes "frame_ok f" "takes_rest f \<longrightarrow> junk = []"
  shows "frame_decode (frame_encode f @ junk) = Inr f"
proof (cases f)
  case (ManifestResponse es)
  then have "read_many (length es) read_entry (concat (map entry_encode es) @ junk) = Inr (es, junk)"
    using assms read_many_iff [of read_entry entry_ok entry_encode, OF read_entry_iff] by simp
  with ManifestResponse assms show ?thesis
    by (simp add: frame_decode_def read_u8_def read_slice_def kinds u32_field.dec_enc word_count)
qed (use assms in \<open>simp_all add: frame_decode_def read_u8_def read_slice_def kinds\<close>)

lemma frame_decode_iff:
  "frame_decode bs = Inr f \<longleftrightarrow> frame_ok f \<and> (\<exists>junk. bs = frame_encode f @ junk \<and> (takes_rest f \<longrightarrow> junk = []))"
  using frame_decode_sound frame_decode_complete by blast

lemma open_share_frame_iff:
  "open_share_frame ox key s = Inr f \<longleftrightarrow>
     (\<exists>aes pt. aes256_key ox key = Inr aes \<and> open_envelope ox aes SHARE_FRAME_AAD s = Inr pt \<and> frame_decode pt = Inr f)"
  by (auto simp: open_share_frame_def open_envelope_def Let_def result_simps split: if_splits)

text \<open>
  The frames of a share read back. A frame within its field widths seals and opens to itself under the room's
  key, and the decoder accepts exactly the encodings of such frames; bytes after a frame that does not run to
  the end are ignored, which is the only freedom: two frames with one encoding are the same frame.
\<close>

lemma share_frames_read_back:
  assumes "gcm_law ox" "frame_ok f"
  shows "(frame_decode bs = Inr g \<longleftrightarrow> frame_ok g \<and> (\<exists>junk. bs = frame_encode g @ junk \<and> (takes_rest g \<longrightarrow> junk = []))) \<and>
    (seal_frame_with ox draw key f = Inr s \<longrightarrow> open_share_frame ox key s = Inr f \<and>
       length s = NONCE_LEN + length (frame_encode f) + TAG_LEN) \<and>
    (frame_ok g \<longrightarrow> frame_encode f = frame_encode g \<longrightarrow> f = g)"
proof (intro conjI impI)
  show "frame_decode bs = Inr g \<longleftrightarrow> frame_ok g \<and> (\<exists>junk. bs = frame_encode g @ junk \<and> (takes_rest g \<longrightarrow> junk = []))"
    by (rule frame_decode_iff)
next
  assume "seal_frame_with ox draw key f = Inr s"
  then obtain aes where k: "aes256_key ox key = Inr aes" and s: "seal_envelope ox draw aes SHARE_FRAME_AAD (frame_encode f) = Inr s"
    by (auto simp: seal_frame_with_def seal_envelope_def result_simps)
  show "length s = NONCE_LEN + length (frame_encode f) + TAG_LEN" by (rule length_seal_envelope [OF assms(1) s])
  have "frame_decode (frame_encode f) = Inr f" using frame_decode_complete [OF assms(2), of "[]"] by simp
  with k open_seal_envelope [OF assms(1) s] show "open_share_frame ox key s = Inr f" by (auto simp: open_share_frame_iff)
next
  assume "frame_ok g" "frame_encode f = frame_encode g"
  then show "f = g" using frame_decode_complete [OF assms(2), of "[]"] frame_decode_complete [of g "[]"] by simp
qed

lemma share_frames_read_back_witness:
  "\<exists>s. let f = ManifestResponse [\<lparr>me_rel_path = ''a/b'', me_size = 5, me_chunks = [replicate CHUNK_ADDR_LEN 7]\<rparr>] in
     seal_frame_with demo_oxi (Some (replicate 12 9)) [3] f = Inr s \<and> open_share_frame demo_oxi [3] s = Inr f"
proof -
  let ?f = "ManifestResponse [\<lparr>me_rel_path = ''a/b'', me_size = 5, me_chunks = [replicate CHUNK_ADDR_LEN 7]\<rparr>]"
  have ok: "frame_ok ?f" by (simp add: entry_ok_def ascii_def in_range_def)
  obtain s where s: "seal_frame_with demo_oxi (Some (replicate 12 9)) [3] ?f = Inr s"
    by (auto simp: seal_frame_with_def aes256_key_def gcm_encrypt_def gcm_nonce_def oxi_module_def demo_oxi_def)
  with share_frames_read_back [OF demo_gcm_law ok] show ?thesis unfolding Let_def by blast
qed

end
