(* ===== verification/Release.thy ===== *)
theory Release
  imports Oxi
begin

text \<open>
  The release side of the client: the trust anchor (\<open>release/anchor.rs\<close>), the quorum of signatures over an artifact
  (\<open>release/verify.rs\<close>) and the lifecycle of an update (\<open>release/update.rs\<close>). Fetching, digests and the swap of the
  binary are outside the module. The anchor file is parsed by a third-party crate and enters as the record it
  parses to.
\<close>

section \<open>The anchor\<close>

record release_anchor =
  an_keys :: "byte list list"
  an_threshold :: nat

datatype anchor_error = NoKeys | ThresholdOutOfRange

definition anchor_new :: "byte list list \<Rightarrow> nat \<Rightarrow> anchor_error + release_anchor" where
  "anchor_new keys threshold =
    (if keys = [] then Inl NoKeys
     else if threshold = 0 \<or> threshold > length keys then Inl ThresholdOutOfRange
     else Inr \<lparr>an_keys = keys, an_threshold = threshold\<rparr>)"

record bundled_release_anchor =
  ba_version :: nat
  ba_threshold :: nat
  ba_keys :: "string list"

text \<open>
  \<open>u8::from_str_radix(_, 16)\<close> on two characters: one or two hexadecimal digits of either case, the first of which may
  be replaced by a plus sign. Slicing a string inside a character panics; hexadecimal digits and the sign are
  single bytes, so the model's \<open>None\<close> covers it.
\<close>

definition hex_value :: "char \<Rightarrow> nat option" where
  "hex_value ch =
    (let n = (of_char ch :: nat)
     in if 48 \<le> n \<and> n \<le> 57 then Some (n - 48)
        else if 97 \<le> n \<and> n \<le> 102 then Some (n - 87)
        else if 65 \<le> n \<and> n \<le> 70 then Some (n - 55)
        else None)"

definition radix16 :: "char \<Rightarrow> char \<Rightarrow> byte option" where
  "radix16 a b =
    (case hex_value b of
       None \<Rightarrow> None
     | Some lo \<Rightarrow> (case hex_value a of
         Some hi \<Rightarrow> Some (word_of_nat (16 * hi + lo))
       | None \<Rightarrow> if a = CHR ''+'' then Some (word_of_nat lo) else None))"

fun hex_decode :: "string \<Rightarrow> byte list option" where
  "hex_decode [] = Some []"
| "hex_decode [_] = None"
| "hex_decode (a # b # s) = (case radix16 a b of None \<Rightarrow> None | Some x \<Rightarrow> map_option ((#) x) (hex_decode s))"

fun anchor_keys :: "string list \<Rightarrow> byte list list option" where
  "anchor_keys [] = Some []"
| "anchor_keys (h # hs) =
    (case hex_decode h of
       None \<Rightarrow> None
     | Some bytes \<Rightarrow> if length bytes \<noteq> DSA_PK_LEN then None else map_option ((#) bytes) (anchor_keys hs))"

definition to_anchor :: "bundled_release_anchor \<Rightarrow> release_anchor option" where
  "to_anchor ba =
    (if ba_keys ba = [] then None
     else case anchor_keys (ba_keys ba) of
       None \<Rightarrow> None
     | Some keys \<Rightarrow> (case anchor_new keys (ba_threshold ba) of Inr a \<Rightarrow> Some a | Inl _ \<Rightarrow> None))"

section \<open>The quorum\<close>

datatype release_verify_error = BelowThreshold nat nat | UnrecognizedSignature | MalformedSignature | ReleaseModule

text \<open>The inner loop: the first key under which the signature verifies.\<close>

fun match_key :: "oxi \<Rightarrow> byte list \<Rightarrow> byte list \<Rightarrow> nat \<Rightarrow> byte list list \<Rightarrow> release_verify_error + nat option" where
  "match_key ox message sig i [] = Inr None"
| "match_key ox message sig i (key # keys) =
    (case verify_signature ox key message sig of
       Inr _ \<Rightarrow> Inr (Some i)
     | Inl (SigModule _) \<Rightarrow> Inl ReleaseModule
     | Inl BadSignature \<Rightarrow> match_key ox message sig (i + 1) keys)"

fun satisfied_keys :: "oxi \<Rightarrow> release_anchor \<Rightarrow> byte list \<Rightarrow> byte list list \<Rightarrow> nat set \<Rightarrow> release_verify_error + nat set" where
  "satisfied_keys ox anchor message [] satisfied = Inr satisfied"
| "satisfied_keys ox anchor message (sig # sigs) satisfied =
    (if length sig \<noteq> DSA_SIG_LEN then Inl MalformedSignature
     else rbind (match_key ox message sig 0 (an_keys anchor)) (\<lambda>matched.
       case matched of
         Some i \<Rightarrow> satisfied_keys ox anchor message sigs (insert i satisfied)
       | None \<Rightarrow> Inl UnrecognizedSignature))"

definition verify_multisig :: "oxi \<Rightarrow> release_anchor \<Rightarrow> byte list \<Rightarrow> byte list list \<Rightarrow> release_verify_error + unit" where
  "verify_multisig ox anchor message signatures =
    rbind (satisfied_keys ox anchor message signatures {}) (\<lambda>satisfied.
      let valid = card satisfied
      in if valid \<ge> an_threshold anchor then Inr () else Inl (BelowThreshold (an_threshold anchor) valid))"

section \<open>The lifecycle of an update\<close>

record release_version =
  rv_major :: nat
  rv_minor :: nat
  rv_patch :: nat

definition version_less :: "release_version \<Rightarrow> release_version \<Rightarrow> bool" where
  "version_less a b \<longleftrightarrow> rv_major a < rv_major b \<or> rv_major a = rv_major b \<and>
     (rv_minor a < rv_minor b \<or> rv_minor a = rv_minor b \<and> rv_patch a < rv_patch b)"

datatype update_channel = Primary | RelayFallback

record update_record =
  up_version :: release_version
  up_channel :: update_channel
  up_emergency :: bool

record failure_log_entry =
  fl_timestamp_unix_ms :: int
  fl_channel :: update_channel
  fl_version_attempted :: release_version
  fl_reason :: release_verify_error

datatype update_state =
    UpIdle
  | Available update_record
  | Verified update_record bool
  | ConfirmedReadyToInstall update_record
  | UpFailed failure_log_entry

datatype confirm_error = NotVerified | DowngradeNotAcknowledged

text \<open>The three events the lifecycle emits, of the many of \<open>trust_events.rs\<close>.\<close>

datatype update_event = UpdateRelayFallbackUsed | EmergencySecurityUpdateAvailable | UpdateVerificationFailed

record update_lifecycle =
  ul_state :: update_state
  ul_current_version :: release_version
  ul_artifact :: "byte list option"
  ul_failure_log :: "failure_log_entry list"
  ul_pending_events :: "update_event list"

definition lifecycle_new :: "release_version \<Rightarrow> update_lifecycle" where
  "lifecycle_new v = \<lparr>ul_state = UpIdle, ul_current_version = v, ul_artifact = None, ul_failure_log = [], ul_pending_events = []\<rparr>"

definition discover :: "update_record \<Rightarrow> byte list \<Rightarrow> update_lifecycle \<Rightarrow> update_lifecycle" where
  "discover record artifact u =
    (let u = (if up_channel record = RelayFallback
              then u\<lparr>ul_pending_events := ul_pending_events u @ [UpdateRelayFallbackUsed]\<rparr> else u)
     in u\<lparr>ul_artifact := Some artifact, ul_state := Available record\<rparr>)"

definition update_verify :: "oxi \<Rightarrow> release_anchor \<Rightarrow> byte list \<Rightarrow> byte list list \<Rightarrow> int \<Rightarrow> update_lifecycle \<Rightarrow> update_lifecycle" where
  "update_verify ox anchor message signatures now_ms u =
    (case ul_state u of
       Available record \<Rightarrow>
         (case verify_multisig ox anchor message signatures of
            Inr _ \<Rightarrow>
              let is_downgrade = version_less (up_version record) (ul_current_version u);
                  u = (if up_emergency record
                       then u\<lparr>ul_pending_events := ul_pending_events u @ [EmergencySecurityUpdateAvailable]\<rparr> else u)
              in u\<lparr>ul_state := Verified record is_downgrade\<rparr>
          | Inl reason \<Rightarrow>
              let entry = \<lparr>fl_timestamp_unix_ms = now_ms, fl_channel = up_channel record,
                    fl_version_attempted = up_version record, fl_reason = reason\<rparr>
              in u\<lparr>ul_artifact := None, ul_failure_log := ul_failure_log u @ [entry],
                   ul_pending_events := ul_pending_events u @ [UpdateVerificationFailed], ul_state := UpFailed entry\<rparr>)
     | _ \<Rightarrow> u)"

definition confirm :: "bool \<Rightarrow> update_lifecycle \<Rightarrow> (confirm_error + unit) \<times> update_lifecycle" where
  "confirm acknowledge_downgrade u =
    (case ul_state u of
       Verified record is_downgrade \<Rightarrow>
         if is_downgrade \<and> \<not> acknowledge_downgrade then (Inl DowngradeNotAcknowledged, u)
         else (Inr (), u\<lparr>ul_state := ConfirmedReadyToInstall record\<rparr>)
     | _ \<Rightarrow> (Inl NotVerified, u))"

definition take_pending_events :: "update_lifecycle \<Rightarrow> update_event list \<times> update_lifecycle" where
  "take_pending_events u = (ul_pending_events u, u\<lparr>ul_pending_events := []\<rparr>)"

section \<open>What a quorum is\<close>

definition verifies :: "oxi \<Rightarrow> byte list \<Rightarrow> byte list \<Rightarrow> byte list \<Rightarrow> bool" where
  "verifies ox message key sig \<longleftrightarrow> verify_signature ox key message sig = Inr ()"

definition signers :: "oxi \<Rightarrow> release_anchor \<Rightarrow> byte list \<Rightarrow> byte list list \<Rightarrow> byte list set" where
  "signers ox anchor message sigs = {key \<in> set (an_keys anchor). \<exists>sig \<in> set sigs. verifies ox message key sig}"

definition recognized :: "oxi \<Rightarrow> release_anchor \<Rightarrow> byte list \<Rightarrow> byte list \<Rightarrow> bool" where
  "recognized ox anchor message sig \<longleftrightarrow> length sig = DSA_SIG_LEN \<and> (\<exists>key \<in> set (an_keys anchor). verifies ox message key sig)"

text \<open>\<open>verify_signature\<close> has one failure, so the module's branch of the loop is never taken.\<close>

lemma verify_signature_cases: "verify_signature ox key message sig = Inr () \<or> verify_signature ox key message sig = Inl BadSignature"
  by (auto simp: verify_signature_def split: sum.split)

lemma match_key_spec:
  "match_key ox message sig i keys =
     Inr (if \<exists>key \<in> set keys. verifies ox message key sig
          then Some (i + length (takeWhile (\<lambda>key. \<not> verifies ox message key sig) keys)) else None)"
proof (induction keys arbitrary: i)
  case (Cons key keys)
  show ?case using verify_signature_cases [of ox key message sig] Cons.IH by (auto simp: verifies_def)
qed simp

definition first_key :: "oxi \<Rightarrow> release_anchor \<Rightarrow> byte list \<Rightarrow> byte list \<Rightarrow> nat" where
  "first_key ox anchor message sig = length (takeWhile (\<lambda>key. \<not> verifies ox message key sig) (an_keys anchor))"

lemma satisfied_keys_spec:
  "satisfied_keys ox anchor message sigs sat = Inr out \<longleftrightarrow>
     list_all (recognized ox anchor message) sigs \<and> out = sat \<union> first_key ox anchor message ` set sigs"
  by (induction sigs arbitrary: sat) (auto simp: match_key_spec recognized_def first_key_def)

lemma takeWhile_stops: "x \<in> set xs \<Longrightarrow> \<not> P x \<Longrightarrow> length (takeWhile P xs) < length xs"
  by (induction xs) auto

lemma first_key_verifies:
  assumes "recognized ox anchor message sig"
  shows "first_key ox anchor message sig < length (an_keys anchor)"
    "verifies ox message (an_keys anchor ! first_key ox anchor message sig) sig"
    "j < first_key ox anchor message sig \<Longrightarrow> \<not> verifies ox message (an_keys anchor ! j) sig"
proof -
  let ?P = "\<lambda>key. \<not> verifies ox message key sig"
  from assms obtain key where k: "key \<in> set (an_keys anchor)" "verifies ox message key sig" by (auto simp: recognized_def)
  show l: "first_key ox anchor message sig < length (an_keys anchor)"
    unfolding first_key_def using k by (intro takeWhile_stops) auto
  then show "verifies ox message (an_keys anchor ! first_key ox anchor message sig) sig"
    unfolding first_key_def using nth_length_takeWhile [of ?P] by blast
  assume "j < first_key ox anchor message sig"
  then show "\<not> verifies ox message (an_keys anchor ! j) sig"
    unfolding first_key_def using nth_mem [of j "takeWhile ?P (an_keys anchor)"] set_takeWhileD [of _ ?P] takeWhile_nth [of j ?P] by metis
qed

text \<open>Satisfied indices stand for different keys: an index is the first of its key under which a signature verifies.\<close>

lemma first_keys_inj:
  assumes "list_all (recognized ox anchor message) sigs"
  shows "inj_on ((!) (an_keys anchor)) (first_key ox anchor message ` set sigs)"
proof (rule inj_onI)
  fix i j
  assume ij: "i \<in> first_key ox anchor message ` set sigs" "j \<in> first_key ox anchor message ` set sigs"
    "an_keys anchor ! i = an_keys anchor ! j"
  then obtain s t where "s \<in> set sigs" "t \<in> set sigs" "i = first_key ox anchor message s" "j = first_key ox anchor message t" by auto
  with assms first_key_verifies [of ox anchor message s] first_key_verifies [of ox anchor message t] ij(3) show "i = j"
    by (metis list_all_iff linorder_neqE_nat)
qed

lemma quorum_count:
  assumes "verify_multisig ox anchor message sigs = Inr ()"
  shows "list_all (recognized ox anchor message) sigs" "an_threshold anchor \<le> card (signers ox anchor message sigs)"
proof -
  let ?I = "first_key ox anchor message ` set sigs"
  from assms show r: "list_all (recognized ox anchor message) sigs"
    by (auto simp: verify_multisig_def satisfied_keys_spec Let_def result_simps split: if_splits)
  have "an_threshold anchor \<le> card ?I"
    using assms by (auto simp: verify_multisig_def satisfied_keys_spec Let_def result_simps split: if_splits)
  also have "\<dots> = card ((!) (an_keys anchor) ` ?I)" by (rule card_image [OF first_keys_inj [OF r], symmetric])
  also have "\<dots> \<le> card (signers ox anchor message sigs)"
  proof (intro card_mono subsetI)
    fix key
    assume "key \<in> (!) (an_keys anchor) ` ?I"
    then obtain sig where s: "sig \<in> set sigs" "key = an_keys anchor ! first_key ox anchor message sig" by auto
    then have "recognized ox anchor message sig" using r by (simp add: list_all_iff)
    note f = first_key_verifies [OF this]
    with s nth_mem [OF f(1)] show "key \<in> signers ox anchor message sigs" by (auto simp: signers_def)
  qed (simp add: signers_def)
  finally show "an_threshold anchor \<le> card (signers ox anchor message sigs)" .
qed


text \<open>
  A module that is down is not reported as such: the failure that \<open>ReleaseModule\<close> stands for never occurs, and a
  well-formed signature of a real signer is refused as unrecognised.
\<close>

lemma module_down_is_never_reported:
  "verify_multisig ox anchor message sigs \<noteq> Inl ReleaseModule"
  "\<not> operational ox \<Longrightarrow> sigs \<noteq> [] \<Longrightarrow> list_all (\<lambda>sig. length sig = DSA_SIG_LEN) sigs \<Longrightarrow>
     verify_multisig ox anchor message sigs = Inl UnrecognizedSignature"
proof -
  have "satisfied_keys ox anchor message sigs sat \<noteq> Inl ReleaseModule" for sat
    by (induction sigs arbitrary: sat) (auto simp: match_key_spec)
  then show "verify_multisig ox anchor message sigs \<noteq> Inl ReleaseModule"
    by (auto simp: verify_multisig_def Let_def result_simps split: if_splits)
  assume "\<not> operational ox" "sigs \<noteq> []" "list_all (\<lambda>sig. length sig = DSA_SIG_LEN) sigs"
  moreover from this(1) have "\<not> verifies ox message key sig" for key sig
    by (simp add: verifies_def verify_signature_def ml_dsa_verify_def oxi_module_def)
  ultimately show "verify_multisig ox anchor message sigs = Inl UnrecognizedSignature"
    by (cases sigs) (simp_all add: verify_multisig_def match_key_spec)
qed

section \<open>Nothing installs unverified\<close>

datatype update_call =
    Discover update_record "byte list"
  | Verify release_anchor "byte list" "byte list list" int
  | Confirm bool
  | TakeEvents

fun exec_update :: "oxi \<Rightarrow> update_call \<Rightarrow> update_lifecycle \<Rightarrow> update_lifecycle" where
  "exec_update ox (Discover r artifact) u = discover r artifact u"
| "exec_update ox (Verify anchor message sigs now) u = update_verify ox anchor message sigs now u"
| "exec_update ox (Confirm ack) u = snd (confirm ack u)"
| "exec_update ox TakeEvents u = snd (take_pending_events u)"

text \<open>The last discovery of a history, newest call first, and the calls since.\<close>

fun discovered :: "update_call list \<Rightarrow> (update_record \<times> byte list) option" where
  "discovered [] = None"
| "discovered (Discover r artifact # cs) = Some (r, artifact)"
| "discovered (c # cs) = discovered cs"

fun since :: "update_call list \<Rightarrow> update_call list" where
  "since [] = []"
| "since (Discover r artifact # cs) = []"
| "since (c # cs) = c # since cs"

definition quorum_since :: "oxi \<Rightarrow> update_call list \<Rightarrow> bool" where
  "quorum_since ox cs \<longleftrightarrow> (\<exists>anchor message sigs now. Verify anchor message sigs now \<in> set (since cs) \<and>
     verify_multisig ox anchor message sigs = Inr () \<and> an_threshold anchor \<le> card (signers ox anchor message sigs))"

definition lifecycle_ok :: "oxi \<Rightarrow> release_version \<Rightarrow> update_call list \<Rightarrow> update_lifecycle \<Rightarrow> bool" where
  "lifecycle_ok ox v cs u \<longleftrightarrow> ul_current_version u = v \<and>
     (case ul_state u of
        UpIdle \<Rightarrow> discovered cs = None \<and> ul_artifact u = None
      | Available r \<Rightarrow> \<exists>a. discovered cs = Some (r, a) \<and> ul_artifact u = Some a
      | Verified r d \<Rightarrow> \<exists>a. discovered cs = Some (r, a) \<and> ul_artifact u = Some a \<and> quorum_since ox cs \<and> d = version_less (up_version r) v
      | ConfirmedReadyToInstall r \<Rightarrow> \<exists>a ack. discovered cs = Some (r, a) \<and> ul_artifact u = Some a \<and> quorum_since ox cs \<and>
          Confirm ack \<in> set (since cs) \<and> (version_less (up_version r) v \<longrightarrow> ack)
      | UpFailed entry \<Rightarrow> ul_artifact u = None \<and> ul_failure_log u \<noteq> [] \<and> last (ul_failure_log u) = entry \<and>
          (\<exists>r a. discovered cs = Some (r, a) \<and> fl_version_attempted entry = up_version r \<and> fl_channel entry = up_channel r))"

lemma quorum_since_Cons: "quorum_since ox cs \<Longrightarrow> (\<And>r a. c \<noteq> Discover r a) \<Longrightarrow> quorum_since ox (c # cs)"
  by (cases c) (auto simp: quorum_since_def)

lemma since_Cons: "x \<in> set (since cs) \<Longrightarrow> (\<And>r a. c \<noteq> Discover r a) \<Longrightarrow> x \<in> set (since (c # cs))"
  by (cases c) auto

lemma quorum_since_verify:
  "verify_multisig ox anchor message sigs = Inr () \<Longrightarrow> quorum_since ox (Verify anchor message sigs now # cs)"
  unfolding quorum_since_def by (intro exI [of _ anchor] exI [of _ message] exI [of _ sigs] exI [of _ now]) (simp add: quorum_count(2))

lemma update_call_ok: "lifecycle_ok ox v cs u \<Longrightarrow> lifecycle_ok ox v (c # cs) (exec_update ox c u)"
proof (cases c)
  case (Discover r a)
  then show "lifecycle_ok ox v cs u \<Longrightarrow> ?thesis" by (simp add: lifecycle_ok_def discover_def Let_def)
next
  case (Verify anchor message sigs now)
  assume ok: "lifecycle_ok ox v cs u"
  show ?thesis
  proof (cases "verify_multisig ox anchor message sigs")
    case (Inr x)
    then have "quorum_since ox (Verify anchor message sigs now # cs)" by (intro quorum_since_verify) simp
    with ok Verify Inr show ?thesis
      by (auto simp: lifecycle_ok_def update_verify_def Let_def intro: quorum_since_Cons split: update_state.splits)
  qed (use ok Verify in \<open>auto simp: lifecycle_ok_def update_verify_def Let_def intro: quorum_since_Cons split: update_state.splits\<close>)
next
  case (Confirm ack)
  assume "lifecycle_ok ox v cs u"
  with Confirm show ?thesis
    by (auto simp: lifecycle_ok_def confirm_def intro: quorum_since_Cons split: update_state.splits if_splits)
next
  case TakeEvents
  assume "lifecycle_ok ox v cs u"
  with TakeEvents show ?thesis
    by (auto simp: lifecycle_ok_def take_pending_events_def intro: quorum_since_Cons split: update_state.splits)
qed

lemma update_run_ok: "lifecycle_ok ox v cs (foldr (exec_update ox) cs (lifecycle_new v))"
proof (induction cs)
  case Nil
  show ?case by (simp add: lifecycle_ok_def lifecycle_new_def)
qed (simp add: update_call_ok)


definition demo_anchor :: release_anchor where "demo_anchor = \<lparr>an_keys = [[1], [2]], an_threshold = 1\<rparr>"

definition demo_update :: update_record where
  "demo_update = \<lparr>up_version = \<lparr>rv_major = 0, rv_minor = 9, rv_patch = 1\<rparr>, up_channel = RelayFallback, up_emergency = False\<rparr>"

definition demo_calls :: "update_call list" where
  "demo_calls = [Confirm True, Confirm False, Verify demo_anchor [5] [replicate DSA_SIG_LEN 1] 3, Discover demo_update [7]]"

lemma demo_multisig: "verify_multisig demo_oxi demo_anchor [5] [replicate DSA_SIG_LEN 1] = Inr ()"
  by (simp add: verify_multisig_def demo_anchor_def verify_signature_def ml_dsa_verify_def oxi_module_def demo_oxi_def)



end
