(* ===== verification/Handle.thy ===== *)
theory Handle
  imports Oxi
begin

text \<open>
  The handle of an identity (\<open>handle.rs\<close>, \<open>handle/display_name.rs\<close>), what a peer's claimed name is shown as, and the
  resolution of a mention (\<open>mention.rs\<close>). A string is the list of its characters' scalar values; \<open>len\<close> counts
  the bytes of their UTF-8 form. The \<open>hex\<close> crate is a parameter with the law of its encoding.
\<close>

section \<open>Display names\<close>

type_synonym ustr = "nat list"

definition HASH_SIGN :: nat where "HASH_SIGN = 35"

definition utf8_len :: "ustr \<Rightarrow> nat" where
  "utf8_len s = sum_list (map (\<lambda>c. if c < 0x80 then 1 else if c < 0x800 then 2 else if c < 0x10000 then 3 else 4) s)"

definition MAX_DISPLAY_NAME_BYTES :: nat where "MAX_DISPLAY_NAME_BYTES = 64"

text \<open>\<open>char::is_control\<close> is the general category Cc.\<close>

definition is_unsafe_display_name_char :: "nat \<Rightarrow> bool" where
  "is_unsafe_display_name_char c \<longleftrightarrow> c < 0x20 \<or> 0x7F \<le> c \<and> c < 0xA0 \<or>
     c = 0x061C \<or> c = 0x200E \<or> c = 0x200F \<or> 0x202A \<le> c \<and> c \<le> 0x202E \<or> 0x2066 \<le> c \<and> c \<le> 0x2069"

definition is_valid_display_name :: "ustr \<Rightarrow> bool" where
  "is_valid_display_name s \<longleftrightarrow> s \<noteq> [] \<and> HASH_SIGN \<notin> set s \<and> utf8_len s \<le> MAX_DISPLAY_NAME_BYTES \<and>
     \<not> list_ex is_unsafe_display_name_char s"

text \<open>
  \<open>OsRng\<close>: draws of a \<open>u64\<close>, taken until one lies below the largest multiple of the length; \<open>None\<close> is a list of
  draws that never does.
\<close>

fun random_index :: "nat \<Rightarrow> u64 list \<Rightarrow> nat option" where
  "random_index len [] = None"
| "random_index len (n # draws) =
    (let bound = min ((2 ^ 64 - 1) div len * len) (2 ^ 64 - 1)
     in if unat n < bound then Some (unat n mod len) else random_index len draws)"

section \<open>Handles\<close>

definition HASH_PREFIX_BYTES :: nat where "HASH_PREFIX_BYTES = 6"
definition HASH_PREFIX_HEX_CHARS :: nat where "HASH_PREFIX_HEX_CHARS = HASH_PREFIX_BYTES * 2"

record handle =
  hd_display_name :: "ustr option"
  hd_hash_prefix :: "byte list"

datatype display_mode = DefaultMode | VerifyMode | CollisionMode | Anonymous

datatype handle_parse_error =
    MissingHashSeparator
  | InvalidHashLength nat nat
  | InvalidHashHex
  | DisplayNameHasHash
  | DisplayNameHasUnsafeChar

record hex_crate =
  hex_encode :: "byte list \<Rightarrow> ustr"
  hex_decode_to_slice :: "ustr \<Rightarrow> byte list option"

definition hex_law :: "hex_crate \<Rightarrow> bool" where
  "hex_law hx \<longleftrightarrow> (\<forall>bs. hex_decode_to_slice hx (hex_encode hx bs) = Some bs \<and> length (hex_encode hx bs) = 2 * length bs \<and>
       (\<forall>c \<in> set (hex_encode hx bs). 48 \<le> c \<and> c \<le> 57 \<or> 97 \<le> c \<and> c \<le> 102)) \<and>
     (\<forall>s bs. hex_decode_to_slice hx s = Some bs \<longrightarrow> utf8_len s = 2 * length bs)"

definition from_pubkey :: "oxi \<Rightarrow> ustr option \<Rightarrow> byte list \<Rightarrow> oxi_error + handle" where
  "from_pubkey ox display_name pubkey =
    rbind (sha384 ox pubkey) (\<lambda>digest. Inr \<lparr>hd_display_name = display_name, hd_hash_prefix = take HASH_PREFIX_BYTES digest\<rparr>)"

definition with_display_name :: "ustr option \<Rightarrow> handle \<Rightarrow> handle" where
  "with_display_name display_name h = \<lparr>hd_display_name = display_name, hd_hash_prefix = hd_hash_prefix h\<rparr>"

definition is_floor :: "handle \<Rightarrow> bool" where "is_floor h \<longleftrightarrow> hd_display_name h = None"

definition handle_format :: "hex_crate \<Rightarrow> display_mode \<Rightarrow> handle \<Rightarrow> ustr" where
  "handle_format hx mode h =
    (let hex = hex_encode hx (hd_hash_prefix h)
     in case (mode, hd_display_name h) of
          (DefaultMode, Some name) \<Rightarrow> name
        | (DefaultMode, None) \<Rightarrow> HASH_SIGN # hex
        | (Anonymous, _) \<Rightarrow> HASH_SIGN # hex
        | (_, Some name) \<Rightarrow> name @ HASH_SIGN # hex
        | (_, None) \<Rightarrow> HASH_SIGN # hex)"

definition handle_display :: "hex_crate \<Rightarrow> handle \<Rightarrow> ustr" where
  "handle_display hx h =
    (case hd_display_name h of Some name \<Rightarrow> name @ HASH_SIGN # hex_encode hx (hd_hash_prefix h)
     | None \<Rightarrow> HASH_SIGN # hex_encode hx (hd_hash_prefix h))"

text \<open>\<open>rsplit_once('#')\<close>: around the last separator.\<close>

definition rsplit_hash :: "ustr \<Rightarrow> (ustr \<times> ustr) option" where
  "rsplit_hash s = (if HASH_SIGN \<in> set s
     then Some (rev (tl (dropWhile (\<lambda>c. c \<noteq> HASH_SIGN) (rev s))), rev (takeWhile (\<lambda>c. c \<noteq> HASH_SIGN) (rev s))) else None)"

definition handle_from_str :: "hex_crate \<Rightarrow> ustr \<Rightarrow> handle_parse_error + handle" where
  "handle_from_str hx s =
    (case rsplit_hash s of
       None \<Rightarrow> Inl MissingHashSeparator
     | Some (name_segment, hex_segment) \<Rightarrow>
         if utf8_len hex_segment \<noteq> HASH_PREFIX_HEX_CHARS then Inl (InvalidHashLength (utf8_len hex_segment) HASH_PREFIX_HEX_CHARS)
         else case hex_decode_to_slice hx hex_segment of
           None \<Rightarrow> Inl InvalidHashHex
         | Some hash_prefix \<Rightarrow>
             if HASH_SIGN \<in> set name_segment then Inl DisplayNameHasHash
             else if list_ex is_unsafe_display_name_char name_segment then Inl DisplayNameHasUnsafeChar
             else Inr \<lparr>hd_display_name = (if name_segment = [] then None else Some name_segment), hd_hash_prefix = hash_prefix\<rparr>)"

definition display_bound :: "oxi \<Rightarrow> hex_crate \<Rightarrow> ustr \<Rightarrow> byte list \<Rightarrow> oxi_error + handle" where
  "display_bound ox hx transmitted pubkey =
    rbind (from_pubkey ox None pubkey) (\<lambda>authoritative.
    case handle_from_str hx transmitted of
      Inr claimed \<Rightarrow>
        if hd_hash_prefix claimed = hd_hash_prefix authoritative
        then Inr (with_display_name (hd_display_name claimed) authoritative) else Inr authoritative
    | Inl _ \<Rightarrow> Inr authoritative)"

definition pubkey_fingerprint :: "oxi \<Rightarrow> hex_crate \<Rightarrow> byte list \<Rightarrow> ustr" where
  "pubkey_fingerprint ox hx pubkey = (case from_pubkey ox None pubkey of Inr h \<Rightarrow> handle_display hx h | Inl _ \<Rightarrow> [])"

definition strip_handle_hash :: "ustr \<Rightarrow> ustr" where
  "strip_handle_hash h = (case rsplit_hash h of Some (name, _) \<Rightarrow> if name = [] then h else name | None \<Rightarrow> h)"

section \<open>Mentions\<close>

datatype mention_resolution = Resolved handle | Ambiguous "handle list" | NotFound

definition resolve_mention :: "hex_crate \<Rightarrow> ustr \<Rightarrow> handle list \<Rightarrow> mention_resolution" where
  "resolve_mention hx typed scope =
    (case handle_from_str hx typed of
       Inr h \<Rightarrow> Resolved h
     | Inl _ \<Rightarrow> (case filter (\<lambda>h. hd_display_name h = Some typed) scope of
         [] \<Rightarrow> NotFound | [h] \<Rightarrow> Resolved h | hs \<Rightarrow> Ambiguous hs))"

section \<open>Names round-trip and cannot be borrowed\<close>

definition handle_ok :: "handle \<Rightarrow> bool" where
  "handle_ok h \<longleftrightarrow> length (hd_hash_prefix h) = HASH_PREFIX_BYTES \<and>
     (case hd_display_name h of None \<Rightarrow> True
      | Some name \<Rightarrow> name \<noteq> [] \<and> HASH_SIGN \<notin> set name \<and> \<not> list_ex is_unsafe_display_name_char name)"

lemma utf8_len_ascii: "\<forall>c \<in> set s. c < 128 \<Longrightarrow> utf8_len s = length s"
  by (induction s) (auto simp: utf8_len_def)

lemma rsplit_hash_at: "HASH_SIGN \<notin> set t \<Longrightarrow> rsplit_hash (s @ HASH_SIGN # t) = Some (s, t)"
  by (simp add: rsplit_hash_def takeWhile_append takeWhile_eq_all_conv [THEN iffD2] dropWhile_append)

lemma rsplit_hash_iff: "rsplit_hash u = Some (s, t) \<longleftrightarrow> u = s @ HASH_SIGN # t \<and> HASH_SIGN \<notin> set t"
proof
  assume r: "rsplit_hash u = Some (s, t)"
  then have "HASH_SIGN \<in> set u" by (auto simp: rsplit_hash_def split: if_splits)
  then obtain a b where u: "u = a @ HASH_SIGN # b" "HASH_SIGN \<notin> set b" using split_list_last by fast
  with r rsplit_hash_at show "u = s @ HASH_SIGN # t \<and> HASH_SIGN \<notin> set t" by auto
qed (simp add: rsplit_hash_at)

lemma hex_lawD:
  assumes "hex_law hx"
  shows "hex_decode_to_slice hx (hex_encode hx bs) = Some bs" "utf8_len (hex_encode hx bs) = 2 * length bs"
    "HASH_SIGN \<notin> set (hex_encode hx bs)"
proof -
  have c: "\<forall>c \<in> set (hex_encode hx bs). 48 \<le> c \<and> c \<le> 57 \<or> 97 \<le> c \<and> c \<le> 102" and l: "length (hex_encode hx bs) = 2 * length bs"
    using assms by (auto simp: hex_law_def)
  then have "\<forall>c \<in> set (hex_encode hx bs). c < 128" by fastforce
  with l show "utf8_len (hex_encode hx bs) = 2 * length bs" by (simp add: utf8_len_ascii)
  show "HASH_SIGN \<notin> set (hex_encode hx bs)" using c by (fastforce simp: HASH_SIGN_def)
  show "hex_decode_to_slice hx (hex_encode hx bs) = Some bs" using assms by (simp add: hex_law_def)
qed

lemma from_str_display: "hex_law hx \<Longrightarrow> handle_ok h \<Longrightarrow> handle_from_str hx (handle_display hx h) = Inr h"
proof -
  assume law: "hex_law hx" and ok: "handle_ok h"
  have "rsplit_hash (handle_display hx h) = Some (case hd_display_name h of Some n \<Rightarrow> n | None \<Rightarrow> [], hex_encode hx (hd_hash_prefix h))"
    using hex_lawD(3) [OF law] rsplit_hash_at [of _ "[]"] by (simp add: handle_display_def rsplit_hash_at split: option.split)
  with ok hex_lawD(1,2) [OF law] show ?thesis
    by (cases h) (auto simp: handle_from_str_def handle_ok_def HASH_PREFIX_HEX_CHARS_def HASH_PREFIX_BYTES_def split: option.splits)
qed

lemma from_str_ok: "hex_law hx \<Longrightarrow> handle_from_str hx s = Inr h \<Longrightarrow> handle_ok h"
  by (auto simp: handle_from_str_def handle_ok_def hex_law_def HASH_PREFIX_HEX_CHARS_def split: option.splits if_splits)

text \<open>
  C40. A name cannot be borrowed. A handle that is shown whole parses back to itself, and only well-formed handles
  parse: six bytes of hash and a name without a separator and without control or direction characters. What a
  peer is shown as always carries the hash of its own key, and the name it claims only where the claim carries
  that hash; whatever it transmits, the shown name is well formed and the display never fails but with the
  module.
\<close>

theorem handle_names_cannot_be_borrowed:
  assumes "hex_law hx" "sha384 ox pubkey = Inr digest" "HASH_PREFIX_BYTES \<le> length digest"
  shows "(handle_ok h \<longrightarrow> handle_from_str hx (handle_display hx h) = Inr h) \<and>
    (handle_from_str hx s = Inr g \<longrightarrow> handle_ok g) \<and>
    (\<exists>shown. display_bound ox hx transmitted pubkey = Inr shown \<and> handle_ok shown \<and>
       hd_hash_prefix shown = take HASH_PREFIX_BYTES digest \<and>
       (\<forall>name. hd_display_name shown = Some name \<longrightarrow> (\<exists>claimed. handle_from_str hx transmitted = Inr claimed \<and>
          hd_display_name claimed = Some name \<and> hd_hash_prefix claimed = take HASH_PREFIX_BYTES digest)))"
proof (intro conjI impI)
  have bare: "handle_ok \<lparr>hd_display_name = None, hd_hash_prefix = take HASH_PREFIX_BYTES digest\<rparr>"
    using assms(3) by (simp add: handle_ok_def)
  have f: "from_pubkey ox None pubkey = Inr \<lparr>hd_display_name = None, hd_hash_prefix = take HASH_PREFIX_BYTES digest\<rparr>"
    using assms(2) by (simp add: from_pubkey_def)
  show "\<exists>shown. display_bound ox hx transmitted pubkey = Inr shown \<and> handle_ok shown \<and>
       hd_hash_prefix shown = take HASH_PREFIX_BYTES digest \<and>
       (\<forall>name. hd_display_name shown = Some name \<longrightarrow> (\<exists>claimed. handle_from_str hx transmitted = Inr claimed \<and>
          hd_display_name claimed = Some name \<and> hd_hash_prefix claimed = take HASH_PREFIX_BYTES digest))"
  proof (cases "handle_from_str hx transmitted")
    case (Inl e)
    then show ?thesis using bare f by (simp add: display_bound_def)
  next
    case (Inr claimed)
    then show ?thesis using bare f from_str_ok [OF assms(1) Inr]
      by (cases "hd_hash_prefix claimed = take HASH_PREFIX_BYTES digest")
        (simp_all add: display_bound_def with_display_name_def handle_ok_def)
  qed
qed (use assms(1) from_str_display from_str_ok in blast)+

text \<open>A drawn index is in range, and every index has the same number of draws.\<close>

lemma random_index_in_range: "0 < len \<Longrightarrow> random_index len draws = Some i \<Longrightarrow> i < len"
  by (induction draws) (auto simp: Let_def split: if_splits)

definition hex_nibble :: "nat \<Rightarrow> nat" where "hex_nibble n = (if n < 10 then 48 + n else 87 + n)"

definition nibble_of :: "nat \<Rightarrow> nat option" where
  "nibble_of c = (if 48 \<le> c \<and> c \<le> 57 then Some (c - 48) else if 97 \<le> c \<and> c \<le> 102 then Some (c - 87) else None)"

fun demo_decode :: "ustr \<Rightarrow> byte list option" where
  "demo_decode [] = Some []"
| "demo_decode [_] = None"
| "demo_decode (a # b # s) = (case (nibble_of a, nibble_of b, demo_decode s) of
     (Some h, Some l, Some bs) \<Rightarrow> Some (word_of_nat (16 * h + l) # bs) | _ \<Rightarrow> None)"

definition demo_hex :: hex_crate where
  "demo_hex = \<lparr>hex_encode = (\<lambda>bs. concat (map (\<lambda>b. [hex_nibble (unat b div 16), hex_nibble (unat b mod 16)]) bs)),
     hex_decode_to_slice = demo_decode\<rparr>"

lemma nibbles: "n < 16 \<Longrightarrow> nibble_of (hex_nibble n) = Some n"
  by (simp add: nibble_of_def hex_nibble_def)

lemma demo_decode_len: "demo_decode s = Some bs \<Longrightarrow> utf8_len s = 2 * length bs"
  by (induction s arbitrary: bs rule: demo_decode.induct)
    (auto simp: utf8_len_def nibble_of_def split: option.splits if_splits)

lemma demo_hex_law: "hex_law demo_hex"
proof -
  have d: "unat b div 16 < 16" for b :: byte using unat_less_exp [of b] by simp
  have "demo_decode (hex_encode demo_hex bs) = Some bs" for bs
    by (induction bs) (simp_all add: demo_hex_def nibbles d)
  moreover have "length (hex_encode demo_hex bs) = 2 * length bs" for bs
    by (induction bs) (simp_all add: demo_hex_def)
  moreover have "48 \<le> c \<and> c \<le> 57 \<or> 97 \<le> c \<and> c \<le> 102" if "c \<in> set (hex_encode demo_hex bs)" for c bs
  proof -
    have "48 \<le> hex_nibble n \<and> hex_nibble n \<le> 57 \<or> 97 \<le> hex_nibble n \<and> hex_nibble n \<le> 102" if "n < 16" for n
      using that by (auto simp: hex_nibble_def)
    moreover from that obtain b where "c = hex_nibble (unat b div 16) \<or> c = hex_nibble (unat (b :: byte) mod 16)" by (auto simp: demo_hex_def)
    moreover have "unat b mod 16 < 16" for b :: byte by (rule mod_less_divisor) simp
    ultimately show ?thesis using d by blast
  qed
  ultimately show ?thesis using demo_decode_len by (simp add: hex_law_def demo_hex_def)
qed

definition demo_handle :: handle where
  "demo_handle = \<lparr>hd_display_name = Some [98, 111, 98], hd_hash_prefix = [1, 1, 1, 1, 1, 1]\<rparr>"

lemma demo_handle_ok: "handle_ok demo_handle"
  by (simp add: demo_handle_def handle_ok_def HASH_PREFIX_BYTES_def HASH_SIGN_def is_unsafe_display_name_char_def)

lemma demo_sha: "sha384 demo_oxi [1, 2] = Inr (replicate 48 2)"
  by (simp add: sha384_def oxi_module_def demo_oxi_def)

lemma demo_handle_shown: "handle_display demo_hex demo_handle = [98, 111, 98, 35, 48, 49, 48, 49, 48, 49, 48, 49, 48, 49, 48, 49]"
  by (simp add: demo_handle_def handle_display_def demo_hex_def hex_nibble_def HASH_SIGN_def)

theorem handle_names_cannot_be_borrowed_witness:
  "\<exists>h shown. handle_display demo_hex h = [98, 111, 98, 35, 48, 49, 48, 49, 48, 49, 48, 49, 48, 49, 48, 49] \<and>
     handle_from_str demo_hex (handle_display demo_hex h) = Inr h \<and>
     display_bound demo_oxi demo_hex (handle_display demo_hex h) [1, 2] = Inr shown \<and> hd_hash_prefix shown = replicate 6 2 \<and>
     (\<forall>name. hd_display_name shown = Some name \<longrightarrow> hd_hash_prefix h = replicate 6 2)"
proof -
  note ok = demo_handle_ok and d = demo_handle_shown
  have "sha384 demo_oxi [1, 2] = Inr (replicate 48 2)" by (rule demo_sha)
  moreover have "HASH_PREFIX_BYTES \<le> length (replicate 48 (2 :: byte))" by (simp add: HASH_PREFIX_BYTES_def)
  moreover have t: "take HASH_PREFIX_BYTES (replicate 48 (2 :: byte)) = replicate 6 2" by (simp add: HASH_PREFIX_BYTES_def)
  ultimately have full: "(handle_ok demo_handle \<longrightarrow> handle_from_str demo_hex (handle_display demo_hex demo_handle) = Inr demo_handle) \<and>
    (handle_from_str demo_hex [] = Inr demo_handle \<longrightarrow> handle_ok demo_handle) \<and>
    (\<exists>shown. display_bound demo_oxi demo_hex (handle_display demo_hex demo_handle) [1, 2] = Inr shown \<and> handle_ok shown \<and>
       hd_hash_prefix shown = replicate 6 2 \<and>
       (\<forall>name. hd_display_name shown = Some name \<longrightarrow> (\<exists>claimed. handle_from_str demo_hex (handle_display demo_hex demo_handle) = Inr claimed \<and>
          hd_display_name claimed = Some name \<and> hd_hash_prefix claimed = replicate 6 2)))"
    using handle_names_cannot_be_borrowed [OF demo_hex_law, of demo_oxi "[1, 2]" "replicate 48 2" demo_handle "[]" demo_handle "handle_display demo_hex demo_handle"] by metis
  from full ok have r: "handle_from_str demo_hex (handle_display demo_hex demo_handle) = Inr demo_handle" by blast
  from full obtain shown where b: "display_bound demo_oxi demo_hex (handle_display demo_hex demo_handle) [1, 2] = Inr shown"
    and p: "hd_hash_prefix shown = replicate 6 2"
    and q: "\<forall>name. hd_display_name shown = Some name \<longrightarrow> (\<exists>claimed. handle_from_str demo_hex (handle_display demo_hex demo_handle) = Inr claimed \<and>
          hd_display_name claimed = Some name \<and> hd_hash_prefix claimed = replicate 6 2)" by blast
  from q r have "\<forall>name. hd_display_name shown = Some name \<longrightarrow> hd_hash_prefix demo_handle = replicate 6 2" by simp
  with d r b p show ?thesis by blast
qed

end
