(* ===== verification/Reach_Store.thy ===== *)
theory Reach_Store
  imports Store Handle
begin

text \<open>
  How a correspondent is reached (\<open>Store\<close> in \<open>dm/store.rs\<close>, \<open>Reach\<close> in \<open>dm/channel.rs\<close>): the node's own reach and
  the serials it issues for it, the route and handle kept of a correspondent, and the delivery of the one to the other
  by control records and pushes that arrive late, twice or not at all. Below the store, a section's reads and writes go
  as its \<open>io\<close> says; a write that lands and is reported not durable is \<open>IoLands\<close>.
\<close>

section \<open>A handle a reach carries\<close>

text \<open>A \<open>String\<close> holds the UTF-8 bytes of its characters.\<close>

definition utf8_char :: "nat \<Rightarrow> byte list" where
  "utf8_char c =
    (if c < 0x80 then [word_of_nat c]
     else if c < 0x800 then [word_of_nat (0xC0 + c div 64), word_of_nat (0x80 + c mod 64)]
     else if c < 0x10000 then [word_of_nat (0xE0 + c div 4096), word_of_nat (0x80 + c div 64 mod 64), word_of_nat (0x80 + c mod 64)]
     else [word_of_nat (0xF0 + c div 262144), word_of_nat (0x80 + c div 4096 mod 64), word_of_nat (0x80 + c div 64 mod 64),
           word_of_nat (0x80 + c mod 64)])"

definition utf8_bytes :: "ustr \<Rightarrow> byte list" where
  "utf8_bytes s = concat (map utf8_char s)"

definition low6 :: "byte \<Rightarrow> nat" where "low6 b = unat b - 0x80"

fun utf8_chars :: "byte list \<Rightarrow> ustr" where
  "utf8_chars [] = []"
| "utf8_chars (a # bs) =
    (if unat a < 0x80 then unat a # utf8_chars bs
     else if unat a < 0xE0 then (case bs of
         b # rest \<Rightarrow> ((unat a - 0xC0) * 64 + low6 b) # utf8_chars rest | [] \<Rightarrow> [])
     else if unat a < 0xF0 then (case bs of
         b # c # rest \<Rightarrow> ((unat a - 0xE0) * 4096 + low6 b * 64 + low6 c) # utf8_chars rest | _ \<Rightarrow> [])
     else (case bs of
         b # c # d # rest \<Rightarrow> ((unat a - 0xF0) * 262144 + low6 b * 4096 + low6 c * 64 + low6 d) # utf8_chars rest | _ \<Rightarrow> []))"

definition verified_handle :: "oxi \<Rightarrow> hex_crate \<Rightarrow> byte list \<Rightarrow> reach \<Rightarrow> byte list option" where
  "verified_handle ox hx writer_identity_pk reach =
    (case r_handle reach of
       None \<Rightarrow> None
     | Some handle \<Rightarrow>
       (case (handle_from_str hx (utf8_chars handle), from_pubkey ox None writer_identity_pk) of
          (Inr claimed, Inr actual) \<Rightarrow>
            if hd_hash_prefix claimed = hd_hash_prefix actual
            then Some (utf8_bytes (handle_format hx VerifyMode claimed)) else None
        | _ \<Rightarrow> None))"

section \<open>The node's own reach\<close>

text \<open>
  \<open>nr_file\<close> is the payload of the reach-serial record, \<open>None\<close> where there is none. A read of it fails as \<open>rd\<close> says.
\<close>

record node_reach =
  nr_held :: "reach \<times> u64"
  nr_file :: "byte list option"

datatype set_reach_outcome = Unchanged | Issued | IssuedOverUndecodable

definition open_reach :: "dm_store_error option \<Rightarrow> byte list option \<Rightarrow> node_reach" where
  "open_reach rd file =
    \<lparr>nr_held = (reach_default,
       (case (rd, file) of
          (None, Some bytes) \<Rightarrow> (case decode_reach_serial bytes of Inr serial \<Rightarrow> serial | Inl _ \<Rightarrow> 0)
        | _ \<Rightarrow> 0)),
     nr_file = file\<rparr>"

definition persisted_serial :: "dm_store_error option \<Rightarrow> byte list option \<Rightarrow> store_error + (u64 \<times> bool)" where
  "persisted_serial rd file =
    (case rd of
       None \<Rightarrow> (case file of
           Some bytes \<Rightarrow> if bytes \<noteq> [] then (case decode_reach_serial bytes of Inr serial \<Rightarrow> Inr (serial, False) | Inl _ \<Rightarrow> Inr (0, True))
                         else Inr (0, False)
         | None \<Rightarrow> Inr (0, False))
     | Some (NotAuthentic _) \<Rightarrow> Inr (0, True)
     | Some (WrongFileLen _ _ _) \<Rightarrow> Inr (0, True)
     | Some (ErasureInterrupted _) \<Rightarrow> Inr (0, True)
     | Some e \<Rightarrow> Inl (StStore e))"

definition set_reach :: "dm_store_error option \<Rightarrow> io \<Rightarrow> u64 \<Rightarrow> reach \<Rightarrow> node_reach \<Rightarrow> (store_error + set_reach_outcome) \<times> node_reach" where
  "set_reach rd wr now reach node =
    (if fst (nr_held node) = reach then (Inr Unchanged, node)
     else (case persisted_serial rd (nr_file node) of
        Inl e \<Rightarrow> (Inl e, node)
      | Inr (persisted, undecodable) \<Rightarrow>
        (let serial = max now (sat_add (max (snd (nr_held node)) persisted) 1)
         in case wr of
              IoFails e \<Rightarrow> (Inl (StStore e), node)
            | IoLands e \<Rightarrow> (Inl (StStore e), node\<lparr>nr_file := Some (encode_reach_serial serial)\<rparr>)
            | IoOk \<Rightarrow> (Inr (if undecodable then IssuedOverUndecodable else Issued),
                node\<lparr>nr_held := (reach, serial), nr_file := Some (encode_reach_serial serial)\<rparr>))))"

definition reach_with_serial :: "node_reach \<Rightarrow> reach \<times> u64" where
  "reach_with_serial node = nr_held node"

section \<open>What is kept of a correspondent\<close>

definition read_route_record :: "files \<Rightarrow> (byte list option \<times> u64) \<times> files" where
  "read_route_record fs =
    ((case held (f_route fs) of Some (route, serial) \<Rightarrow> (non_empty route, serial) | None \<Rightarrow> (None, 0)),
     fs\<lparr>f_route := finish_delete_of (f_route fs)\<rparr>)"

definition read_handle :: "files \<Rightarrow> byte list option \<times> files" where
  "read_handle fs = (held (f_handle fs), fs\<lparr>f_handle := finish_delete_of (f_handle fs)\<rparr>)"

definition record_handle :: "io \<Rightarrow> correspondence_label \<Rightarrow> byte list \<Rightarrow> dm_store \<Rightarrow> (store_error + bool) \<times> dm_store" where
  "record_handle io peer handle =
    (let handle = cut_handle handle
     in critical_section io peer (\<lambda>fs. case read_conv fs of
          (None, fs) \<Rightarrow> (Inl MissingConversation, fs)
        | (Some _, fs) \<Rightarrow> (case read_handle fs of (recorded, fs) \<Rightarrow>
            if recorded = Some handle then (Inr False, fs) else (Inr True, fs\<lparr>f_handle := Held handle\<rparr>))))"

definition correspondent_handle :: "io \<Rightarrow> correspondence_label \<Rightarrow> dm_store \<Rightarrow> (store_error + byte list option) \<times> dm_store" where
  "correspondent_handle io peer = critical_section io peer (\<lambda>fs. case read_handle fs of (h, fs) \<Rightarrow> (Inr h, fs))"

datatype reach_take = Newer | Same | Older

definition take_applied :: "reach_take \<Rightarrow> bool" where
  "take_applied t \<longleftrightarrow> t = Newer \<or> t = Same"

record reach_applied =
  ra_take :: reach_take
  ra_handle_changed :: bool
  ra_handle_error :: "store_error option"

definition usable_route :: "reach \<Rightarrow> byte list option" where
  "usable_route reach = (case r_route reach of
     Some route \<Rightarrow> if route \<noteq> [] \<and> length route \<le> REACH_ROUTE_MAX_LEN then Some route else None | None \<Rightarrow> None)"

text \<open>The comparison of the serials and the record to write, if any.\<close>

definition compare_reach :: "u64 \<Rightarrow> reach \<Rightarrow> files \<Rightarrow> reach_take \<times> (byte list \<times> u64) option" where
  "compare_reach serial reach fs =
    (case read_route_record fs of ((held_route, held_serial), _) \<Rightarrow>
       if serial < held_serial then (Older, None)
       else if serial = held_serial then
         (Same, case (held_route, usable_route reach) of (None, Some route) \<Rightarrow> Some (route, serial) | _ \<Rightarrow> None)
       else (Newer, Some (case usable_route reach of Some route \<Rightarrow> route | None \<Rightarrow>
              (case held_route of Some route \<Rightarrow> route | None \<Rightarrow> []), serial)))"

text \<open>The files with the record written.\<close>

definition with_written :: "(byte list \<times> u64) option \<Rightarrow> files \<Rightarrow> files" where
  "with_written r fs = (let fs = snd (read_route_record fs) in case r of Some r \<Rightarrow> fs\<lparr>f_route := Held r\<rparr> | None \<Rightarrow> fs)"

definition keep_handle :: "io \<Rightarrow> byte list option \<Rightarrow> files \<Rightarrow> (store_error + bool) \<times> files" where
  "keep_handle hio handle fs =
    (case handle of
       None \<Rightarrow> (Inr False, fs)
     | Some handle \<Rightarrow>
       (let handle = cut_handle handle
        in case hio of
             IoFails e \<Rightarrow> (Inl (StStore e), fs)
           | _ \<Rightarrow> (case read_handle fs of (recorded, fs) \<Rightarrow>
               if recorded = Some handle then (Inr False, fs)
               else (case hio of IoLands e \<Rightarrow> Inl (StStore e) | _ \<Rightarrow> Inr True, fs\<lparr>f_handle := Held handle\<rparr>))))"

text \<open>
  The result, what \<open>hold\<close> is called with, if it is, and the store. \<open>io\<close> is the section up to the route record, \<open>hio\<close>
  the handle record.
\<close>

definition take_reach ::
  "oxi \<Rightarrow> hex_crate \<Rightarrow> io \<Rightarrow> io \<Rightarrow> correspondence_label \<Rightarrow> u64 \<Rightarrow> reach \<Rightarrow> dm_store \<Rightarrow>
   (store_error + reach_applied) \<times> reach_take option \<times> dm_store" where
  "take_reach ox hx io hio peer serial reach s =
    (case io of
       IoFails e \<Rightarrow> (Inl (StStore e), None, s)
     | _ \<Rightarrow>
       (case read_conv (sto_files s peer) of
          (None, fs) \<Rightarrow> (Inl MissingConversation, None, set_files peer fs s)
        | (Some state, fs) \<Rightarrow>
          (case compare_reach serial reach fs of (taken, write) \<Rightarrow>
           (let fs = with_written write fs
            in case (io, write) of
                 (IoLands e, Some _) \<Rightarrow> (Inl (StStore e), None, set_files peer fs s)
               | _ \<Rightarrow>
                 (case keep_handle hio (if take_applied taken then verified_handle ox hx (cs_peer_identity_pk state) reach else None) fs of
                    (Inr changed, fs) \<Rightarrow>
                      (Inr \<lparr>ra_take = taken, ra_handle_changed = changed, ra_handle_error = None\<rparr>, Some taken, set_files peer fs s)
                  | (Inl e, fs) \<Rightarrow>
                      (Inr \<lparr>ra_take = taken, ra_handle_changed = False, ra_handle_error = Some e\<rparr>, Some taken, set_files peer fs s))))))"

text \<open>\<open>hold\<close> is called with the pair this returns, and \<open>forget\<close> exactly where this succeeds.\<close>

definition with_route :: "io \<Rightarrow> correspondence_label \<Rightarrow> dm_store \<Rightarrow> (store_error + (byte list option \<times> u64)) \<times> dm_store" where
  "with_route io peer = critical_section io peer (\<lambda>fs. case read_conv fs of
     (None, fs) \<Rightarrow> (Inl MissingConversation, fs)
   | (Some _, fs) \<Rightarrow> (case read_route_record fs of (r, fs) \<Rightarrow> (Inr r, fs)))"

definition reach_serial_of :: "io \<Rightarrow> correspondence_label \<Rightarrow> dm_store \<Rightarrow> (store_error + u64) \<times> dm_store" where
  "reach_serial_of io peer = critical_section io peer (\<lambda>fs. case read_route_record fs of ((_, serial), fs) \<Rightarrow> (Inr serial, fs))"

definition forget_route :: "io \<Rightarrow> correspondence_label \<Rightarrow> byte list \<Rightarrow> dm_store \<Rightarrow> (store_error + bool) \<times> dm_store" where
  "forget_route io peer route = critical_section io peer (\<lambda>fs. case read_route_record fs of ((recorded, serial), fs) \<Rightarrow>
     let removed = (recorded = Some route)
     in (Inr removed, if removed then fs\<lparr>f_route := if serial = 0 then Absent else Held ([], serial)\<rparr> else fs))"

definition correspondent_route :: "io \<Rightarrow> correspondence_label \<Rightarrow> dm_store \<Rightarrow> (store_error + byte list option) \<times> dm_store" where
  "correspondent_route io peer = critical_section io peer (\<lambda>fs. case read_route_record fs of ((route, _), fs) \<Rightarrow> (Inr route, fs))"


section \<open>Issuing, delivering, restarting\<close>

text \<open>
  One correspondent hears of a node's reach. \<open>rr_published\<close> is every pair the node ever held, so every pair a control
  record or a push of its can carry; an event delivers any of them, as often and as late as it likes.
\<close>

record reach_run =
  rr_node :: node_reach
  rr_published :: "(reach \<times> u64) list"
  rr_store :: dm_store

datatype reach_event =
    SetReach "dm_store_error option" io u64 reach
  | Reopen "dm_store_error option"
  | Deliver nat io io
  | ForgetRoute io "byte list"

fun reach_step :: "oxi \<Rightarrow> hex_crate \<Rightarrow> correspondence_label \<Rightarrow> reach_event \<Rightarrow> reach_run \<Rightarrow> reach_run" where
  "reach_step ox hx peer (SetReach rd wr now reach) w =
    (let node = snd (set_reach rd wr now reach (rr_node w))
     in w\<lparr>rr_node := node, rr_published := rr_published w @ [reach_with_serial node]\<rparr>)"
| "reach_step ox hx peer (Reopen rd) w =
    (let node = open_reach rd (nr_file (rr_node w))
     in w\<lparr>rr_node := node, rr_published := rr_published w @ [reach_with_serial node]\<rparr>)"
| "reach_step ox hx peer (Deliver i io hio) w =
    (if i < length (rr_published w)
     then (case rr_published w ! i of (reach, serial) \<Rightarrow>
       w\<lparr>rr_store := snd (snd (take_reach ox hx io hio peer serial reach (rr_store w)))\<rparr>)
     else w)"
| "reach_step ox hx peer (ForgetRoute io route) w = w\<lparr>rr_store := snd (forget_route io peer route (rr_store w))\<rparr>"

definition run_reach :: "oxi \<Rightarrow> hex_crate \<Rightarrow> correspondence_label \<Rightarrow> reach_event list \<Rightarrow> reach_run \<Rightarrow> reach_run" where
  "run_reach ox hx peer es w = fold (reach_step ox hx peer) es w"

definition reach_start :: "dm_store \<Rightarrow> reach_run" where
  "reach_start s = \<lparr>rr_node = open_reach None None, rr_published = [reach_with_serial (open_reach None None)], rr_store = s\<rparr>"

text \<open>The reach-serial record is never lost: a read of it that fails does so without losing the record.\<close>

fun keeps_record :: "reach_event \<Rightarrow> bool" where
  "keeps_record (SetReach (Some (NotAuthentic _)) _ _ _) = False"
| "keeps_record (SetReach (Some (WrongFileLen _ _ _)) _ _ _) = False"
| "keeps_record (SetReach (Some (ErasureInterrupted _)) _ _ _) = False"
| "keeps_record _ = True"

fun delivers_or_forgets :: "reach_event \<Rightarrow> bool" where
  "delivers_or_forgets (Deliver _ _ _) = True"
| "delivers_or_forgets (ForgetRoute _ _) = True"
| "delivers_or_forgets _ = False"

fun leaves_route :: "byte list \<Rightarrow> reach_event \<Rightarrow> bool" where
  "leaves_route x (ForgetRoute _ route) \<longleftrightarrow> route \<noteq> x"
| "leaves_route x (SetReach _ _ _ _) \<longleftrightarrow> False"
| "leaves_route x _ \<longleftrightarrow> True"

definition applied :: "correspondence_label \<Rightarrow> dm_store \<Rightarrow> byte list option \<times> u64" where
  "applied peer s = fst (read_route_record (sto_files s peer))"

definition in_conversation :: "correspondence_label \<Rightarrow> dm_store \<Rightarrow> bool" where
  "in_conversation peer s \<longleftrightarrow> (\<exists>state. f_conv (sto_files s peer) = Held state)"

fun after_take :: "u64 \<Rightarrow> reach \<Rightarrow> byte list option \<times> u64 \<Rightarrow> byte list option \<times> u64" where
  "after_take serial reach (route, applied_serial) =
    (if serial < applied_serial then (route, applied_serial)
     else if serial = applied_serial then (if route = None then usable_route reach else route, applied_serial)
     else (if usable_route reach = None then route else usable_route reach, serial))"

lemma usable_not_empty: "usable_route reach \<noteq> Some []"
  by (auto simp: usable_route_def split: option.split)

lemma keep_handle_keeps: "f_conv (snd (keep_handle hio h fs)) = f_conv fs \<and> f_route (snd (keep_handle hio h fs)) = f_route fs"
  by (auto simp: keep_handle_def read_handle_def Let_def split: option.splits io.splits)

lemma sto_files_set_files [simp]: "sto_files (set_files peer fs s) peer = fs"
  by (simp add: set_files_def)

lemma compare_effect:
  "fst (read_route_record (with_written (snd (compare_reach serial reach fs)) fs)) =
     after_take serial reach (fst (read_route_record fs))"
  using usable_not_empty [of reach]
  by (cases "f_route fs")
    (auto simp: with_written_def compare_reach_def read_route_record_def Let_def non_empty_def split: option.splits if_splits)

lemma take_reach_effect:
  assumes "in_conversation peer s"
  shows "in_conversation peer (snd (snd (take_reach ox hx io hio peer serial reach s)))"
    "applied peer (snd (snd (take_reach ox hx io hio peer serial reach s))) =
      (case io of IoFails _ \<Rightarrow> applied peer s | _ \<Rightarrow> after_take serial reach (applied peer s))"
proof -
  from assms obtain state where c: "f_conv (sto_files s peer) = Held state" by (auto simp: in_conversation_def)
  define fs where "fs = sto_files s peer"
  have r: "read_conv fs = (Some state, fs)" using c by (simp add: read_conv_def fs_def)
  define taken "write" where "taken = fst (compare_reach serial reach fs)" and "write = snd (compare_reach serial reach fs)"
  then have m: "compare_reach serial reach fs = (taken, write)" by simp
  define fs2 where "fs2 = with_written write fs"
  have a: "fst (read_route_record fs2) = after_take serial reach (fst (read_route_record fs))"
    unfolding fs2_def write_def by (rule compare_effect)
  have c2: "f_conv fs2 = Held state"
    using c by (simp add: fs2_def with_written_def read_route_record_def Let_def fs_def split: option.split)
  define h where "h = (if take_applied taken then verified_handle ox hx (cs_peer_identity_pk state) reach else None)"
  obtain r3 fs3 where k: "keep_handle hio h fs2 = (r3, fs3)" by fastforce
  have k3: "f_conv fs3 = Held state" "fst (read_route_record fs3) = after_take serial reach (fst (read_route_record fs))"
    using keep_handle_keeps [of hio h fs2] k c2 a by (simp_all add: read_route_record_def)
  have e: "snd (snd (take_reach ox hx io hio peer serial reach s)) =
      (case io of IoFails e \<Rightarrow> s | IoOk \<Rightarrow> set_files peer fs3 s
       | IoLands e \<Rightarrow> (if write = None then set_files peer fs3 s else set_files peer fs2 s))"
    using r m k [unfolded fs2_def] by (cases io; cases "write"; cases r3)
      (simp_all add: take_reach_def Let_def fs_def [symmetric] fs2_def h_def [symmetric])
  show "in_conversation peer (snd (snd (take_reach ox hx io hio peer serial reach s)))"
    using assms k3 c2 by (auto simp: e in_conversation_def split: io.split)
  show "applied peer (snd (snd (take_reach ox hx io hio peer serial reach s))) =
      (case io of IoFails _ \<Rightarrow> applied peer s | _ \<Rightarrow> after_take serial reach (applied peer s))"
    using k3 a by (auto simp: e applied_def fs_def split: io.split)
qed

lemma forget_route_effect:
  "f_conv (sto_files (snd (forget_route io peer route s)) peer) = f_conv (sto_files s peer) \<and>
   applied peer (snd (forget_route io peer route s)) \<in> {applied peer s, (None, snd (applied peer s))} \<and>
   (fst (applied peer s) \<noteq> Some route \<longrightarrow> applied peer (snd (forget_route io peer route s)) = applied peer s)"
  by (cases io; cases "f_route (sto_files s peer)")
    (auto simp: forget_route_def critical_section_def applied_def read_route_record_def non_empty_def Let_def split: if_splits)

section \<open>The serials a node issues\<close>

definition persisted_floor :: "byte list option \<Rightarrow> u64" where
  "persisted_floor file = (case file of None \<Rightarrow> 0 | Some bytes \<Rightarrow> (case decode_reach_serial bytes of Inr n \<Rightarrow> n | Inl _ \<Rightarrow> 0))"

definition issuer_ok :: "reach_run \<Rightarrow> bool" where
  "issuer_ok w \<longleftrightarrow> nr_file (rr_node w) \<in> insert None (range (Some \<circ> encode_reach_serial)) \<and>
     (\<forall>(r, n) \<in> set (rr_published w). n \<le> persisted_floor (nr_file (rr_node w))) \<and>
     snd (nr_held (rr_node w)) \<le> persisted_floor (nr_file (rr_node w))"

lemma persisted_floor_encoded [simp]: "persisted_floor (Some (encode_reach_serial n)) = n" "persisted_floor None = 0"
  by (simp_all add: persisted_floor_def decode_encode_reach_serial)

lemma encode_reach_serial_not_empty [simp]: "encode_reach_serial n \<noteq> []"
  by (simp add: encode_reach_serial_def REACH_SERIAL_MAGIC_def)

lemma sat_add_one: "x \<le> sat_add x (1 :: u64)" "x \<noteq> - 1 \<Longrightarrow> x < sat_add x (1 :: u64)"
proof -
  show "x \<le> sat_add x (1 :: u64)" using unat_less_exp [of x] by (simp add: word_le_nat_alt unat_sat_add)
  assume "x \<noteq> - 1"
  then have "unat x \<noteq> 2 ^ 64 - 1" by (simp add: word_unat_eq_iff unat_minus_one)
  then show "x < sat_add x (1 :: u64)" using unat_less_exp [of x] by (simp add: word_less_nat_alt unat_sat_add)
qed

lemma set_reach_effect:
  assumes "nr_file node \<in> insert None (range (Some \<circ> encode_reach_serial))" "keeps_record (SetReach rd wr now reach)"
    and "snd (nr_held node) \<le> persisted_floor (nr_file node)"
    and "set_reach rd wr now reach node = (res, node')"
  shows "nr_file node' \<in> insert None (range (Some \<circ> encode_reach_serial)) \<and>
     persisted_floor (nr_file node) \<le> persisted_floor (nr_file node') \<and>
     snd (nr_held node') \<le> persisted_floor (nr_file node') \<and>
     (res = Inr Issued \<longrightarrow> nr_held node' = (reach, persisted_floor (nr_file node')) \<and>
        (persisted_floor (nr_file node) \<noteq> - 1 \<longrightarrow> persisted_floor (nr_file node) < persisted_floor (nr_file node')))"
proof (cases "fst (nr_held node) = reach \<or> (\<exists>e. persisted_serial rd (nr_file node) = Inl e)")
  case True
  then have "node' = node" "res \<noteq> Inr Issued" using assms(4) by (auto simp: set_reach_def split: if_splits)
  then show ?thesis using assms by simp
next
  case False
  have p: "persisted_serial rd (nr_file node) = Inr (persisted_floor (nr_file node), False)"
    using False assms(1,2) by (auto simp: persisted_serial_def decode_encode_reach_serial split: option.splits dm_store_error.splits)
  define n where "n = max now (sat_add (max (snd (nr_held node)) (persisted_floor (nr_file node))) 1)"
  have m: "max (snd (nr_held node)) (persisted_floor (nr_file node)) = persisted_floor (nr_file node)" using assms(3) by simp
  have n: "persisted_floor (nr_file node) \<le> n" "persisted_floor (nr_file node) \<noteq> - 1 \<Longrightarrow> persisted_floor (nr_file node) < n"
    using sat_add_one [of "persisted_floor (nr_file node)"] unfolding n_def m by (simp_all add: le_max_iff_disj less_max_iff_disj)
  have "set_reach rd wr now reach node = (case wr of
      IoOk \<Rightarrow> (Inr Issued, node\<lparr>nr_held := (reach, n), nr_file := Some (encode_reach_serial n)\<rparr>)
    | IoFails e \<Rightarrow> (Inl (StStore e), node) | IoLands e \<Rightarrow> (Inl (StStore e), node\<lparr>nr_file := Some (encode_reach_serial n)\<rparr>))"
    using False p by (cases wr) (simp_all add: set_reach_def Let_def flip: n_def)
  with assms(1,3,4) n show ?thesis by (cases wr) auto
qed

lemma open_reach_effect:
  "nr_file (open_reach rd file) = file" "fst (nr_held (open_reach rd file)) = reach_default"
  "snd (nr_held (open_reach rd file)) \<le> persisted_floor file"
  by (auto simp: open_reach_def persisted_floor_def split: option.split sum.split)

lemma reach_step_effect:
  assumes "issuer_ok w" "in_conversation peer (rr_store w)" "keeps_record e"
  shows "issuer_ok (reach_step ox hx peer e w) \<and> in_conversation peer (rr_store (reach_step ox hx peer e w)) \<and>
    persisted_floor (nr_file (rr_node w)) \<le> persisted_floor (nr_file (rr_node (reach_step ox hx peer e w))) \<and>
    (\<exists>new. rr_published (reach_step ox hx peer e w) = rr_published w @ new)"
proof (cases e)
  case (SetReach rd wr now reach)
  obtain res node where r: "set_reach rd wr now reach (rr_node w) = (res, node)" by fastforce
  have k: "keeps_record (SetReach rd wr now reach)" using assms(3) SetReach by simp
  from set_reach_effect [OF _ k _ r] assms(1) have n:
    "nr_file node \<in> insert None (range (Some \<circ> encode_reach_serial))" "snd (nr_held node) \<le> persisted_floor (nr_file node)"
    "persisted_floor (nr_file (rr_node w)) \<le> persisted_floor (nr_file node)" unfolding issuer_ok_def by blast+
  have "n \<le> persisted_floor (nr_file node)" if "(x, n) \<in> set (rr_published w @ [nr_held node])" for x n
    using that assms(1) n(2,3) by (cases "nr_held node") (auto simp: issuer_ok_def intro: order_trans)
  with n r SetReach assms(2) show ?thesis by (auto simp: issuer_ok_def reach_with_serial_def Let_def)
next
  case (Reopen rd)
  then show ?thesis using assms open_reach_effect [of rd "nr_file (rr_node w)"]
    by (auto simp: issuer_ok_def reach_with_serial_def Let_def)
next
  case (Deliver i io hio)
  then show ?thesis using assms take_reach_effect(1) [OF assms(2)] by (auto simp: issuer_ok_def split: prod.split)
next
  case (ForgetRoute io route)
  then show ?thesis using assms forget_route_effect [of io peer route "rr_store w"]
    by (auto simp: issuer_ok_def in_conversation_def)
qed

lemma run_reach_effect:
  assumes "issuer_ok w" "in_conversation peer (rr_store w)" "\<forall>e \<in> set es. keeps_record e"
  shows "issuer_ok (run_reach ox hx peer es w) \<and> in_conversation peer (rr_store (run_reach ox hx peer es w)) \<and>
    persisted_floor (nr_file (rr_node w)) \<le> persisted_floor (nr_file (rr_node (run_reach ox hx peer es w)))"
  using assms
proof (induction es arbitrary: w)
  case (Cons e es)
  let ?w = "reach_step ox hx peer e w"
  have r: "run_reach ox hx peer (e # es) w = run_reach ox hx peer es ?w" by (simp add: run_reach_def)
  have s: "issuer_ok ?w" "in_conversation peer (rr_store ?w)"
    "persisted_floor (nr_file (rr_node w)) \<le> persisted_floor (nr_file (rr_node ?w))"
    using reach_step_effect [OF Cons.prems(1,2), of e ox hx] Cons.prems(3) by simp_all
  from Cons.IH [OF s(1,2)] Cons.prems(3) s(3) show ?case unfolding r by (auto intro: order_trans)
qed (simp add: run_reach_def)

lemma serial_monotone:
  assumes "in_conversation peer (rr_store w)"
  shows "snd (applied peer (rr_store w)) \<le> snd (applied peer (rr_store (reach_step ox hx peer e w)))"
proof (cases e)
  case (Deliver i io hio)
  obtain r n where p: "rr_published w ! i = (r, n)" by fastforce
  obtain route k where a: "applied peer (rr_store w) = (route, k)" by fastforce
  show ?thesis using Deliver p a take_reach_effect(2) [OF assms, of ox hx io hio n r] by (auto split: io.split)
next
  case (ForgetRoute io route)
  then show ?thesis using forget_route_effect [of io peer route "rr_store w"] by auto
qed (simp_all add: Let_def)


lemma serial_monotone_run:
  assumes "issuer_ok w" "in_conversation peer (rr_store w)" "\<forall>e \<in> set es. keeps_record e"
  shows "snd (applied peer (rr_store w)) \<le> snd (applied peer (rr_store (run_reach ox hx peer es w)))"
  using assms
proof (induction es arbitrary: w)
  case (Cons e es)
  let ?w = "reach_step ox hx peer e w"
  have s: "issuer_ok ?w" "in_conversation peer (rr_store ?w)"
    using reach_step_effect [OF Cons.prems(1,2), of e ox hx] Cons.prems(3) by simp_all
  from Cons.IH [OF this] Cons.prems(3) serial_monotone [OF Cons.prems(2), of ox hx e]
  show ?case by (auto simp: run_reach_def intro: order_trans)
qed (simp add: run_reach_def)

section \<open>The newest reach wins\<close>

text \<open>
  \<open>newest k r n\<close>: of what is published the pair at \<open>k\<close> is the newest, and what else carries its serial is the empty reach
  of a relaunch.
\<close>

definition newest :: "nat \<Rightarrow> reach \<Rightarrow> u64 \<Rightarrow> reach_run \<Rightarrow> bool" where
  "newest k r n w \<longleftrightarrow> k < length (rr_published w) \<and> rr_published w ! k = (r, n) \<and>
     persisted_floor (nr_file (rr_node w)) = n \<and>
     (\<forall>(r', n') \<in> set (rr_published w). n' < n \<or> n' = n \<and> (r' = r \<or> r' = reach_default))"

lemma usable_default [simp]: "usable_route reach_default = None"
  by (simp add: usable_route_def reach_default_def)

lemma newest_step:
  assumes "newest k r n w" "leaves_route x e \<or> delivers_or_forgets e"
  shows "newest k r n (reach_step ox hx peer e w)"
proof (cases e)
  case (Reopen rd)
  have "n' < n \<or> n' = n \<and> (r' = r \<or> r' = reach_default)" if "(r', n') = nr_held (open_reach rd (nr_file (rr_node w)))" for r' n'
    using open_reach_effect(2,3) [of rd "nr_file (rr_node w)"] assms(1) that
    by (cases "nr_held (open_reach rd (nr_file (rr_node w)))") (auto simp: newest_def)
  with assms Reopen show ?thesis
    by (fastforce simp: newest_def open_reach_effect(1) reach_with_serial_def Let_def nth_append)
qed (use assms in \<open>auto simp: newest_def Let_def split: prod.split\<close>)

text \<open>Before the newest has arrived, with no relaunch: the serial is below it, or it is the newest whose route is kept or forgotten.\<close>

lemma before_step:
  assumes "\<forall>(r', n') \<in> set (rr_published w). n' < n \<or> n' = n \<and> r' = r" "usable_route r = Some x" "delivers_or_forgets e"
    and "in_conversation peer (rr_store w)" "snd (applied peer (rr_store w)) < n \<or> applied peer (rr_store w) \<in> {(Some x, n), (None, n)}"
  shows "snd (applied peer (rr_store (reach_step ox hx peer e w))) < n \<or>
    applied peer (rr_store (reach_step ox hx peer e w)) \<in> {(Some x, n), (None, n)}"
proof (cases e)
  case (Deliver i io hio)
  obtain r' n' where p: "rr_published w ! i = (r', n')" by fastforce
  obtain route m where a: "applied peer (rr_store w) = (route, m)" by fastforce
  have "n' < n \<or> n' = n \<and> r' = r" if "i < length (rr_published w)" using assms(1) p nth_mem [OF that] by fastforce
  with Deliver p a assms(2,5) take_reach_effect(2) [OF assms(4), of ox hx io hio n' r'] show ?thesis
    by (auto split: io.split)
next
  case (ForgetRoute io route)
  with assms(5) forget_route_effect [of io peer route "rr_store w"] show ?thesis by auto
qed (use assms(3) in simp_all)

lemma after_step:
  assumes "newest k r n w" "usable_route r = Some x" "leaves_route x e"
    and "in_conversation peer (rr_store w)" "applied peer (rr_store w) = (Some x, n)"
  shows "applied peer (rr_store (reach_step ox hx peer e w)) = (Some x, n)"
proof (cases e)
  case (Deliver i io hio)
  obtain r' n' where p: "rr_published w ! i = (r', n')" by fastforce
  have "n' < n \<or> n' = n" if "i < length (rr_published w)" using assms(1) p nth_mem [OF that] by (fastforce simp: newest_def)
  with Deliver p assms(2,5) take_reach_effect(2) [OF assms(4), of ox hx io hio n' r'] show ?thesis
    by (auto split: io.split)
next
  case (ForgetRoute io route)
  with assms(3,5) forget_route_effect [of io peer route "rr_store w"] show ?thesis by simp
qed (use assms in \<open>simp_all add: Let_def\<close>)


lemma applied_bounded:
  assumes "issuer_ok w" "in_conversation peer (rr_store w)" "keeps_record e"
    and "snd (applied peer (rr_store w)) \<le> persisted_floor (nr_file (rr_node w))"
  shows "snd (applied peer (rr_store (reach_step ox hx peer e w))) \<le> persisted_floor (nr_file (rr_node (reach_step ox hx peer e w)))"
proof (cases e)
  case (Deliver i io hio)
  obtain r n where p: "rr_published w ! i = (r, n)" by fastforce
  obtain route m where a: "applied peer (rr_store w) = (route, m)" by fastforce
  have "n \<le> persisted_floor (nr_file (rr_node w))" if "i < length (rr_published w)"
    using assms(1) p nth_mem [OF that] by (fastforce simp: issuer_ok_def)
  with Deliver p a assms(4) take_reach_effect(2) [OF assms(2), of ox hx io hio n r] show ?thesis by (auto split: io.split)
next
  case (ForgetRoute io route)
  with assms(4) forget_route_effect [of io peer route "rr_store w"] show ?thesis by auto
next
  case (SetReach rd wr now reach)
  then show ?thesis using reach_step_effect [OF assms(1-3), of ox hx] assms(4) by (auto simp: Let_def intro: order_trans)
qed (use assms open_reach_effect in \<open>simp_all add: Let_def\<close>)

lemma applied_bounded_run:
  assumes "issuer_ok w" "in_conversation peer (rr_store w)" "\<forall>e \<in> set es. keeps_record e"
    and "snd (applied peer (rr_store w)) \<le> persisted_floor (nr_file (rr_node w))"
  shows "snd (applied peer (rr_store (run_reach ox hx peer es w))) \<le> persisted_floor (nr_file (rr_node (run_reach ox hx peer es w)))"
  using assms
proof (induction es arbitrary: w)
  case (Cons e es)
  have k: "keeps_record e" using Cons.prems(3) by simp
  note s = reach_step_effect [OF Cons.prems(1,2) k, of ox hx] and b = applied_bounded [OF Cons.prems(1,2) k Cons.prems(4), of ox hx]
  from Cons.IH [of "reach_step ox hx peer e w"] s b Cons.prems(3) show ?case by (simp add: run_reach_def)
qed (simp add: run_reach_def)

lemma published_length: "length (rr_published w) \<le> length (rr_published (reach_step ox hx peer e w))"
  by (cases e) (auto simp: Let_def split: prod.split)

lemma before_run:
  assumes "\<forall>e \<in> set es. delivers_or_forgets e" "newest k r n w" "\<forall>(r', n') \<in> set (rr_published w). n' < n \<or> n' = n \<and> r' = r"
    and "usable_route r = Some x" "in_conversation peer (rr_store w)" "issuer_ok w"
    and "snd (applied peer (rr_store w)) < n \<or> applied peer (rr_store w) \<in> {(Some x, n), (None, n)}"
  shows "(let w' = run_reach ox hx peer es w in newest k r n w' \<and> in_conversation peer (rr_store w') \<and> rr_published w' = rr_published w \<and>
    (snd (applied peer (rr_store w')) < n \<or> applied peer (rr_store w') \<in> {(Some x, n), (None, n)}))"
  using assms
proof (induction es arbitrary: w)
  case (Cons e es)
  let ?w = "reach_step ox hx peer e w"
  have d: "delivers_or_forgets e" "keeps_record e" using Cons.prems(1) by (cases e; simp)+
  have "newest k r n ?w" "rr_published ?w = rr_published w" "issuer_ok ?w" "in_conversation peer (rr_store ?w)"
    using newest_step [OF Cons.prems(2), of x e ox hx peer] reach_step_effect [OF Cons.prems(6,5) d(2), of ox hx] d(1)
    by (cases e; auto split: prod.split)+
  with Cons.IH [of ?w] Cons.prems before_step [OF Cons.prems(3,4) d(1) Cons.prems(5,7), of ox hx]
  show ?case by (simp add: run_reach_def Let_def)
qed (simp add: run_reach_def)

lemma after_run:
  assumes "\<forall>e \<in> set es. leaves_route x e" "newest k r n w" "usable_route r = Some x" "in_conversation peer (rr_store w)" "issuer_ok w"
    and "applied peer (rr_store w) = (Some x, n)"
  shows "applied peer (rr_store (run_reach ox hx peer es w)) = (Some x, n)"
  using assms
proof (induction es arbitrary: w)
  case (Cons e es)
  have d: "leaves_route x e" "keeps_record e" using Cons.prems(1) by (cases e; simp)+
  with Cons.IH [of "reach_step ox hx peer e w"] Cons.prems newest_step [OF Cons.prems(2), of x e ox hx peer]
    reach_step_effect [OF Cons.prems(5,4) d(2), of ox hx] after_step [OF Cons.prems(2,3) d(1) Cons.prems(4,6), of ox hx]
  show ?case by (simp add: run_reach_def)
qed (simp add: run_reach_def)

text \<open>
  A relaunch publishes the empty reach at the serial of the reach before it, so one serial names two reaches: a
  correspondent that takes the empty one first keeps the older route, and never the one issued at that serial.
\<close>

lemma relaunch_reuses_a_serial:
  assumes "fst (set_reach rd wr now r node) = Inr Issued" "m < n"
  shows "nr_held (open_reach None (nr_file (snd (set_reach rd wr now r node)))) = (reach_default, snd (nr_held (snd (set_reach rd wr now r node))))"
    "after_take n r (after_take n reach_default (Some y, m)) = (Some y, n)"
  using assms by (auto simp: set_reach_def open_reach_def Let_def decode_encode_reach_serial split: if_splits sum.splits prod.splits io.splits)

lemma reach_start_ok:
  assumes "in_conversation peer s" "f_route (sto_files s peer) = Absent"
  shows "issuer_ok (reach_start s)" "in_conversation peer (rr_store (reach_start s))" "applied peer (rr_store (reach_start s)) = (None, 0)"
  using assms by (simp_all add: issuer_ok_def reach_start_def open_reach_def reach_with_serial_def applied_def read_route_record_def)

lemma serial_never_goes_back:
  assumes "issuer_ok w" "in_conversation peer (rr_store w)" "\<forall>e \<in> set es. keeps_record e"
  shows "snd (applied peer (rr_store (run_reach ox hx peer (take k es) w))) \<le> snd (applied peer (rr_store (run_reach ox hx peer es w)))"
proof -
  let ?m = "run_reach ox hx peer (take k es) w"
  have "issuer_ok ?m" "in_conversation peer (rr_store ?m)" using run_reach_effect [OF assms(1,2), of "take k es"] assms(3) by (auto dest: in_set_takeD)
  moreover have "run_reach ox hx peer (drop k es) ?m = run_reach ox hx peer es w"
    unfolding run_reach_def using fold_append [of "reach_step ox hx peer" "take k es" "drop k es"] by (metis append_take_drop_id comp_apply)
  moreover have "\<forall>e \<in> set (drop k es). keeps_record e" using assms(3) by (auto dest: in_set_dropD)
  ultimately show ?thesis using serial_monotone_run [of ?m peer "drop k es" ox hx] by simp
qed

lemma issued_is_newest:
  assumes "issuer_ok w" "in_conversation peer (rr_store w)" "snd (applied peer (rr_store w)) \<le> persisted_floor (nr_file (rr_node w))"
    and "keeps_record (SetReach rd wr now r)" "set_reach rd wr now r (rr_node w) = (Inr Issued, node)"
    and "persisted_floor (nr_file (rr_node w)) \<noteq> - 1"
    and "w' = reach_step ox hx peer (SetReach rd wr now r) w"
  shows "newest (length (rr_published w)) r (snd (nr_held node)) w'" "issuer_ok w'" "in_conversation peer (rr_store w')"
    "\<forall>(r', n') \<in> set (rr_published w'). n' < snd (nr_held node) \<or> n' = snd (nr_held node) \<and> r' = r"
    "snd (applied peer (rr_store w')) < snd (nr_held node)"
proof -
  let ?n = "snd (nr_held node)"
  from set_reach_effect [OF _ assms(4) _ assms(5)] assms(1,6)
  have h: "nr_held node = (r, ?n)" "persisted_floor (nr_file node) = ?n" "persisted_floor (nr_file (rr_node w)) < ?n"
    by (auto simp: issuer_ok_def)
  have below: "\<forall>(r', n') \<in> set (rr_published w). n' < ?n" using assms(1) h(3) by (fastforce simp: issuer_ok_def)
  have w': "rr_published w' = rr_published w @ [(r, ?n)]" "rr_node w' = node" "rr_store w' = rr_store w"
    using h(1) assms(5,7) by (simp_all add: Let_def reach_with_serial_def)
  show "issuer_ok w'" "in_conversation peer (rr_store w')"
    using reach_step_effect [OF assms(1,2,4), of ox hx] unfolding assms(7) by blast+
  show "newest (length (rr_published w)) r ?n w'" "\<forall>(r', n') \<in> set (rr_published w'). n' < ?n \<or> n' = ?n \<and> r' = r"
    using below h(2) unfolding newest_def w' by auto
  show "snd (applied peer (rr_store w')) < ?n" using assms(3) h(3) unfolding w' by (rule le_less_trans)
qed



end
