(* ===== verification/Flow_Batch.thy ===== *)
theory Flow_Batch
  imports Flow_Net Acceptance
begin

text \<open>
  A batch of collections and its publication (\<open>collect_batch\<close> in \<open>dm/flows.rs\<close>): the steps it is made of, that it ends,
  what it reads, and what it has recorded where it fails.
\<close>

section \<open>The batch\<close>

text \<open>
  A step of the loop meets the network and the store as they are then: \<open>port k\<close> is how the store calls of the k-th step
  go, how its read goes, what the network holds at it, and what other writers do to the store during it.
\<close>

record step_port =
  po_io :: "nat \<Rightarrow> io"
  po_rio :: record_io
  po_net :: records
  po_between :: "dm_store \<Rightarrow> dm_store"

fun batch_rounds ::
  "oxi \<Rightarrow> (nat \<Rightarrow> step_port) \<Rightarrow> correspondence_label \<Rightarrow> nat \<Rightarrow> nat \<Rightarrow> received_message list \<Rightarrow> dm_store \<Rightarrow>
   ((flow_error + (received_message list \<times> unopened option \<times> flow_error option)) \<times> dm_store) option" where
  "batch_rounds ox port peer 0 k messages s = None"
| "batch_rounds ox port peer (Suc fuel) k messages s =
    (case collect_step ox (po_io (port k)) (po_rio (port k)) (po_between (port k)) (po_net (port k)) peer s of
       (Inr (RsMessage _ sent_at body _), s') \<Rightarrow> batch_rounds ox port peer fuel (Suc k) (messages @ [(sent_at, body)]) s'
     | (Inr RsEnd, s') \<Rightarrow> Some (Inr (messages, None, None), s')
     | (Inr (RsUnopened seq subkey error), s') \<Rightarrow> Some (Inr (messages, Some (seq, subkey, error), None), s')
     | (Inl Conflict, s') \<Rightarrow> Some (Inr (messages, None, None), s')
     | (Inl e, s') \<Rightarrow> if messages = [] then Some (Inl e, s') else Some (Inr (messages, None, Some e), s'))"

record batch =
  ba_messages :: "received_message list"
  ba_my_collected :: u64
  ba_cursor_published :: bool
  ba_unopened :: "unopened option"
  ba_stopped :: "flow_error option"

text \<open>\<open>pio\<close> and \<open>prio\<close> are how the publication goes, \<open>lio\<close> the load after it.\<close>

definition collect_batch ::
  "oxi \<Rightarrow> byte list option \<Rightarrow> nat \<Rightarrow> (nat \<Rightarrow> step_port) \<Rightarrow> (nat \<Rightarrow> io) \<Rightarrow> record_io \<Rightarrow> reach \<times> u64 \<Rightarrow> io \<Rightarrow>
   correspondence_label \<Rightarrow> dm_store \<Rightarrow> records \<Rightarrow> ((flow_error + batch) \<times> dm_store \<times> records) option" where
  "collect_batch ox draw fuel port pio prio own_reach lio peer s net =
    (case batch_rounds ox port peer fuel 0 [] s of
       None \<Rightarrow> None
     | Some (Inl e, s1) \<Rightarrow> Some (Inl e, s1, net)
     | Some (Inr (messages, unopened, stopped), s1) \<Rightarrow>
       (case publish_cursor ox draw pio prio own_reach peer s1 net of
          (Inl e, s2, net') \<Rightarrow> Some (Inl e, s2, net')
        | (Inr published, s2, net') \<Rightarrow>
          (case flow_load lio peer s2 of
             (Inl e, s3) \<Rightarrow> Some (Inl e, s3, net')
           | (Inr state, s3) \<Rightarrow>
               Some (Inr \<lparr>ba_messages = messages, ba_my_collected = cs_my_collected state, ba_cursor_published = published,
                  ba_unopened = unopened, ba_stopped = stopped\<rparr>, s3, net'))))"

section \<open>What there is to read\<close>

text \<open>\<open>reads ox net st ms st'\<close>: the slots of the ring from the cursor of \<open>st\<close> on hold the messages \<open>ms\<close>, and opening them leaves \<open>st'\<close>.\<close>

fun reads :: "oxi \<Rightarrow> records \<Rightarrow> conv_state \<Rightarrow> received_message list \<Rightarrow> conv_state \<Rightarrow> bool" where
  "reads ox net st [] st' \<longleftrightarrow> st' = st"
| "reads ox net st (m # ms) st' \<longleftrightarrow> (\<exists>raw h cv. net (cs_incoming_lookup_key st, slot_for (cs_my_collected st)) = Some raw \<and>
     slot_opens ox st raw h cv (fst m) (snd m) \<and> reads ox net (collected_conv st cv (h_cursor h)) ms st')"

lemma reads_append: "reads ox net st (ms @ ns) st' \<longleftrightarrow> (\<exists>st1. reads ox net st ms st1 \<and> reads ox net st1 ns st')"
  by (induction ms arbitrary: st) auto

lemma collected_conv_simps [simp]:
  "cs_my_collected (collected_conv st cv c) = cs_my_collected st + 1"
  "cs_incoming_lookup_key (collected_conv st cv c) = cs_incoming_lookup_key st"
  "cs_send_seq (collected_conv st cv c) = cs_send_seq st"
  "cs_delete_pending (collected_conv st cv c) = cs_delete_pending st"
  "cs_acceptance_pending (collected_conv st cv c) = cs_acceptance_pending st"
  "cs_cursor_published (collected_conv st cv c) = cs_cursor_published st"
  by (simp_all add: collected_conv_def)

lemma collected_conv_cursor:
  assumes "cs_peer_collected st \<le> cs_send_seq st"
  shows "cs_peer_collected (collected_conv st cv c) \<le> cs_send_seq st"
  using assms advance_ok [of "\<lparr>send_seq = cs_send_seq st, peer_collected = cs_peer_collected st\<rparr>" c]
  by (auto simp: collected_conv_def advance_peer_collected_def Let_def word_le_nat_alt word_less_nat_alt min_def split: if_splits)

lemma reads_keeps:
  "reads ox net st ms st' \<Longrightarrow> cs_my_collected st' = cs_my_collected st + word_of_nat (length ms) \<and>
     cs_incoming_lookup_key st' = cs_incoming_lookup_key st \<and> cs_send_seq st' = cs_send_seq st \<and>
     cs_delete_pending st' = cs_delete_pending st \<and> cs_acceptance_pending st' = cs_acceptance_pending st \<and>
     cs_cursor_published st' = cs_cursor_published st \<and> (cs_peer_collected st \<le> cs_send_seq st \<longrightarrow> cs_peer_collected st' \<le> cs_send_seq st')"
proof (induction ms arbitrary: st)
  case (Cons m ms)
  from Cons.prems obtain h :: message_header and cv where "reads ox net (collected_conv st cv (h_cursor h)) ms st'" unfolding reads.simps by blast
  from Cons.IH [OF this] collected_conv_cursor [of st cv "h_cursor h"] show ?case by (auto simp: algebra_simps)
qed simp

lemma reads_det: "reads ox net st ms a \<Longrightarrow> reads ox net st ms b \<Longrightarrow> a = b"
proof (induction ms arbitrary: st)
  case (Cons m ms)
  from Cons.prems obtain raw h cv h' cv' where n: "net (cs_incoming_lookup_key st, slot_for (cs_my_collected st)) = Some raw"
    "slot_opens ox st raw h cv (fst m) (snd m)" "reads ox net (collected_conv st cv (h_cursor h)) ms a"
    "slot_opens ox st raw h' cv' (fst m) (snd m)" "reads ox net (collected_conv st cv' (h_cursor h')) ms b"
    by auto
  then have "h' = h \<and> cv' = cv" by (auto simp: slot_opens_def)
  with n Cons.IH show ?case by blast
qed simp

lemma reads_nth:
  assumes "reads ox net st ms st'" "i < length ms"
  shows "\<exists>raw h sealed. net (cs_incoming_lookup_key st, slot_for (cs_my_collected st + word_of_nat i)) = Some raw \<and>
    header_decode raw = Inr (h, sealed) \<and> h_seq h = cs_my_collected st + word_of_nat i"
proof -
  have s: "ms = take i ms @ ms ! i # drop (Suc i) ms" using assms(2) by (rule id_take_nth_drop)
  with assms(1) obtain st1 where "reads ox net st (take i ms) st1" "reads ox net st1 (ms ! i # drop (Suc i) ms) st'"
    unfolding reads_append [symmetric] by (metis reads_append)
  with reads_keeps [of ox net st "take i ms" st1] assms(2) show ?thesis by (auto simp: slot_opens_def)
qed

text \<open>A slot names one sequence, so a ring that stands still holds at most as many messages to read as it has slots.\<close>

lemma reads_bound:
  assumes "reads ox net st ms st'" "unat (cs_my_collected st) + 63 < 2 ^ 64"
  shows "length ms \<le> 63"
proof (rule ccontr)
  assume "\<not> length ms \<le> 63"
  then have l: "0 < length ms" "63 < length ms" by linarith+
  let ?a = "cs_my_collected st"
  have u: "unat (?a + 63) = unat ?a + 63" using assms(2) by (simp add: unat_word_ariths)
  have "slot_for (?a + 63) = slot_for ?a"
    using unat_slot_for [of ?a] unat_slot_for [of "?a + 63"] u by (simp add: word_unat_eq_iff)
  with reads_nth [OF assms(1) l(1)] reads_nth [OF assms(1) l(2)] have "?a = ?a + 63" by auto
  then show False using u by simp
qed


section \<open>What the loop does\<close>

definition no_lands :: "(nat \<Rightarrow> step_port) \<Rightarrow> bool" where
  "no_lands port \<longleftrightarrow> (\<forall>k e. po_io (port k) 1 \<noteq> IoLands e)"

definition stands_still :: "records \<Rightarrow> (nat \<Rightarrow> step_port) \<Rightarrow> bool" where
  "stands_still net port \<longleftrightarrow> (\<forall>k. po_net (port k) = net \<and> po_between (port k) = (\<lambda>s. s))"

definition nothing_fails :: "(nat \<Rightarrow> step_port) \<Rightarrow> bool" where
  "nothing_fails port \<longleftrightarrow> (\<forall>k. po_io (port k) = (\<lambda>_. IoOk) \<and> po_rio (port k) = RecOk)"

definition readable :: "conv_state \<Rightarrow> bool" where
  "readable st \<longleftrightarrow> \<not> cs_delete_pending st \<and> \<not> cs_acceptance_pending st \<and> cs_peer_collected st \<le> cs_send_seq st"

lemma batch_rounds_reads:
  assumes "conv_of s peer = Held st1" "reads ox net st messages st1" "no_lands port" "stands_still net port"
    and "batch_rounds ox port peer fuel k messages s = Some (r, s')"
  shows "\<exists>ms st'. conv_of s' peer = Held st' \<and> reads ox net st ms st' \<and> (\<forall>got u e. r = Inr (got, u, e) \<longrightarrow> got = ms) \<and>
    (\<forall>e. r = Inl e \<longrightarrow> ms = [] \<and> messages = []) \<and>
    (nothing_fails port \<and> readable st \<longrightarrow> (\<nexists>m st2. reads ox net st (ms @ [m]) st2))"
  using assms
proof (induction fuel arbitrary: k messages s st1)
  case (Suc fuel)
  obtain rs s1 where c: "collect_step ox (po_io (port k)) (po_rio (port k)) (\<lambda>s. s) net peer s = (rs, s1)" by fastforce
  have p: "po_net (port k) = net" "po_between (port k) = (\<lambda>s. s)" "\<forall>e. po_io (port k) 1 \<noteq> IoLands e"
    using Suc.prems(3,4) by (simp_all add: stands_still_def no_lands_def)
  from Suc.prems(1) c p(3) show ?case
  proof (cases rule: collect_step_cases)
    case stays
    have "\<nexists>m st2. reads ox net st (messages @ [m]) st2" if "nothing_fails port" "readable st"
    proof -
      have f: "po_io (port k) 0 = IoOk" "po_io (port k) 1 = IoOk" "po_rio (port k) = RecOk" "readable st1"
        using that reads_keeps [OF Suc.prems(2)] by (auto simp: nothing_fails_def readable_def)
      have "\<not> reads ox net st1 [m] st2" for m st2
      proof
        assume "reads ox net st1 [m] st2"
        then obtain raw h cv where "net (cs_incoming_lookup_key st1, slot_for (cs_my_collected st1)) = Some raw"
          "slot_opens ox st1 raw h cv (fst m) (snd m)" by auto
        from collect_step_takes [OF Suc.prems(1), of "po_io (port k)" "po_rio (port k)" net raw ox h cv "fst m" "snd m", OF f(1-3) _ _ _ this] f(4) c stays(3) show False by (auto simp: readable_def)
      qed
      moreover have "st2 = st1" if "reads ox net st messages st2" for st2
        using reads_det [OF that Suc.prems(2)] .
      ultimately show ?thesis unfolding reads_append by blast
    qed
    moreover have "s' = s1 \<and> (\<forall>got u e. r = Inr (got, u, e) \<longrightarrow> got = messages) \<and> (\<forall>e. r = Inl e \<longrightarrow> messages = [])"
      using Suc.prems(5) c p stays(3) by (auto split: sum.splits ring_step.splits flow_error.splits if_splits)
    ultimately show ?thesis using stays(1) Suc.prems(2) by blast
  next
    case (takes raw hh cv t b oe)
    have "reads ox net st (messages @ [(t, b)]) (collected_conv st1 cv (h_cursor hh))"
      using Suc.prems(2) takes(1,2) by (auto simp: reads_append)
    moreover have "batch_rounds ox port peer fuel (Suc k) (messages @ [(t, b)]) s1 = Some (r, s')"
      using Suc.prems(5) c p takes(3) by simp
    ultimately show ?thesis using Suc.IH [OF takes(4) _ Suc.prems(3,4)] by (meson snoc_eq_iff_butlast)
  qed
qed simp

lemma batch_rounds_ends:
  assumes "conv_of s peer = Held st1" "reads ox net st messages st1" "no_lands port" "stands_still net port"
    and "unat (cs_my_collected st) + 63 < 2 ^ 64" "63 < length messages + fuel"
  shows "batch_rounds ox port peer fuel k messages s \<noteq> None"
  using assms
proof (induction fuel arbitrary: k messages s st1)
  case 0
  with reads_bound [OF 0(2,5)] show ?case by simp
next
  case (Suc fuel)
  obtain rs s1 where c: "collect_step ox (po_io (port k)) (po_rio (port k)) (\<lambda>s. s) net peer s = (rs, s1)" by fastforce
  have p: "po_net (port k) = net" "po_between (port k) = (\<lambda>s. s)" "\<forall>e. po_io (port k) 1 \<noteq> IoLands e"
    using Suc.prems(3,4) by (simp_all add: stands_still_def no_lands_def)
  from Suc.prems(1) c p(3) show ?case
  proof (cases rule: collect_step_cases)
    case stays
    with c p show ?thesis by (auto split: sum.splits ring_step.splits flow_error.splits)
  next
    case (takes raw hh cv t b oe)
    have "reads ox net st (messages @ [(t, b)]) (collected_conv st1 cv (h_cursor hh))"
      using Suc.prems(2) takes(1,2) by (auto simp: reads_append)
    from Suc.IH [OF takes(4) this Suc.prems(3-5)] Suc.prems(6) c p takes(3) show ?thesis by simp
  qed
qed


section \<open>The publication\<close>

lemma update_conv_held:
  assumes "conv_of s peer = Held st" "update_conv io peer f s = (r, s')"
  shows "(\<exists>e. r = Inl e) \<and> conv_of s' peer = Held st \<or> conv_of s' peer = Held (snd (f st))"
  using assms
  by (cases io; cases "f st") (auto simp: update_conv_def critical_section_def read_conv_def conv_of_def)

lemma publish_cursor_held:
  assumes "conv_of s peer = Held st" "publish_cursor ox draw pio prio own_reach peer s net = (r, s', net')"
  shows "\<exists>pub. conv_of s' peer = Held (st\<lparr>cs_cursor_published := pub\<rparr>) \<and> pub \<in> {cs_cursor_published st, max (cs_cursor_published st) (cs_my_collected st)} \<and>
    (r = Inr True \<longrightarrow> pub = cs_my_collected st) \<and> (r = Inr False \<longrightarrow> cs_my_collected st \<le> cs_cursor_published st) \<and>
    (\<forall>at. at \<noteq> (cs_outgoing_lookup_key st, CONTROL_SUBKEY) \<longrightarrow> net' at = net at)"
proof -
  obtain r1 s1 where l: "flow_load (pio 0) peer s = (r1, s1)" by fastforce
  with flow_load_held [OF assms(1), of "pio 0"] have h: "conv_of s1 peer = Held st" "r1 = Inr st \<or> (\<exists>e. r1 = Inl e)"
    by (auto split: io.splits)
  show ?thesis
  proof (cases "r1 = Inr st \<and> \<not> cs_delete_pending st \<and> \<not> cs_acceptance_pending st \<and> \<not> cs_my_collected st \<le> cs_cursor_published st")
    case False
    have "s' = s1 \<and> net' = net \<and> r \<noteq> Inr True \<and> (r = Inr False \<longrightarrow> cs_my_collected st \<le> cs_cursor_published st)"
      using assms(2) l h(2) False by (auto simp: publish_cursor_def split: if_splits)
    with h(1) show ?thesis by (intro exI [of _ "cs_cursor_published st"]) simp
  next
    case True
    have "\<exists>c. publish_cursor ox draw pio prio own_reach peer s net = (case c of
         Inl e \<Rightarrow> (Inl e, s1, net)
       | Inr control \<Rightarrow> (case write_channel prio (cs_outgoing_lookup_key st) CONTROL_SUBKEY control net of
            (Inl e, net') \<Rightarrow> (Inl e, s1, net')
          | (Inr _, net') \<Rightarrow>
            (case update_conv (pio 1) peer (\<lambda>st'. ((), st'\<lparr>cs_cursor_published := max (cs_cursor_published st') (cs_my_collected st)\<rparr>)) s1 of
               (Inl e, s2) \<Rightarrow> (Inl (FlStore e), s2, net')
             | (Inr _, s2) \<Rightarrow> (Inr True, s2, net'))))"
      using True l unfolding publish_cursor_def by (intro exI) simp
    then obtain c where c: "(r, s', net') = (case c of
         Inl e \<Rightarrow> (Inl e, s1, net)
       | Inr control \<Rightarrow> (case write_channel prio (cs_outgoing_lookup_key st) CONTROL_SUBKEY control net of
            (Inl e, net') \<Rightarrow> (Inl e, s1, net')
          | (Inr _, net') \<Rightarrow>
            (case update_conv (pio 1) peer (\<lambda>st'. ((), st'\<lparr>cs_cursor_published := max (cs_cursor_published st') (cs_my_collected st)\<rparr>)) s1 of
               (Inl e, s2) \<Rightarrow> (Inl (FlStore e), s2, net')
             | (Inr _, s2) \<Rightarrow> (Inr True, s2, net'))))" using assms(2) by auto
    have m: "max (cs_cursor_published st) (cs_my_collected st) = cs_my_collected st" using True by (meson linorder_linear max_absorb2)
    have o: "(\<exists>e. r = Inl e) \<and> conv_of s' peer = Held st \<or>
        r \<noteq> Inr False \<and> conv_of s' peer = Held (st\<lparr>cs_cursor_published := max (cs_cursor_published st) (cs_my_collected st)\<rparr>)"
    proof -
      obtain uc su where u: "update_conv (pio 1) peer (\<lambda>st'. ((), st'\<lparr>cs_cursor_published := max (cs_cursor_published st') (cs_my_collected st)\<rparr>)) s1 = (uc, su)"
        by fastforce
      define st2 where "st2 = st\<lparr>cs_cursor_published := max (cs_cursor_published st) (cs_my_collected st)\<rparr>"
      have u2: "(\<exists>e. uc = Inl e) \<and> conv_of su peer = Held st \<or> conv_of su peer = Held st2"
        using update_conv_held [OF h(1) u] unfolding st2_def snd_conv .
      show ?thesis unfolding st2_def [symmetric]
      proof (cases c)
        case (Inl e)
        with c h(1) show "(\<exists>e. r = Inl e) \<and> conv_of s' peer = Held st \<or> r \<noteq> Inr False \<and> conv_of s' peer = Held st2" by simp
      next
        case (Inr control)
        from c [unfolded Inr u] h(1) u2 show "(\<exists>e. r = Inl e) \<and> conv_of s' peer = Held st \<or> r \<noteq> Inr False \<and> conv_of s' peer = Held st2"
          by (cases prio; cases uc) (simp_all add: write_channel_def)
      qed
    qed
    have n: "\<forall>at. at \<noteq> (cs_outgoing_lookup_key st, CONTROL_SUBKEY) \<longrightarrow> net' at = net at"
      using c by (cases c; cases prio) (auto simp: write_channel_def split: prod.splits sum.splits)
    from o show ?thesis
    proof
      assume "(\<exists>e. r = Inl e) \<and> conv_of s' peer = Held st"
      with n show ?thesis by (intro exI [of _ "cs_cursor_published st"]) auto
    next
      assume "r \<noteq> Inr False \<and> conv_of s' peer = Held (st\<lparr>cs_cursor_published := max (cs_cursor_published st) (cs_my_collected st)\<rparr>)"
      with n m show ?thesis by (intro exI [of _ "cs_my_collected st"]) simp
    qed
  qed
qed


text \<open>
  A refused publication loses what the batch read: the messages are recorded as collected and are not returned, now or
  by any later batch.
\<close>

lemma refused_publication_loses_messages:
  assumes "batch_rounds ox port peer fuel 0 [] s = Some (Inr (ms, u, stop), s1)" "conv_of s1 peer = Held st1"
    and "publish_cursor ox draw pio RecRefused own_reach peer s1 net = (r, s2, net')" "cs_cursor_published st1 < cs_my_collected st1"
  shows "(\<exists>e. collect_batch ox draw fuel port pio RecRefused own_reach lio peer s net = Some (Inl e, s2, net'))
    \<and> net' = net \<and> (\<exists>st2. conv_of s2 peer = Held st2 \<and> cs_my_collected st2 = cs_my_collected st1)"
proof -
  have "\<exists>e. r = Inl e" "net' = net"
    using assms(2,3) flow_load_held [OF assms(2), of "pio 0"] assms(4)
    by (auto simp: publish_cursor_def write_channel_def linorder_not_le split: prod.splits sum.splits if_splits io.splits)
  moreover from publish_cursor_held [OF assms(2,3)]
  have "\<exists>st2. conv_of s2 peer = Held st2 \<and> cs_my_collected st2 = cs_my_collected st1" by auto
  ultimately show ?thesis using assms(1,3) by (auto simp: collect_batch_def)
qed



definition demo_port :: "nat \<Rightarrow> step_port" where
  "demo_port = (\<lambda>_. \<lparr>po_io = (\<lambda>_. IoOk), po_rio = RecOk, po_net = (\<lambda>_. Some []), po_between = (\<lambda>s. s)\<rparr>)"

definition demo_reader :: dm_store where
  "demo_reader = \<lparr>sto_peers = [[9]], sto_files = (\<lambda>_. no_files\<lparr>f_conv := Held demo_conv\<rparr>)\<rparr>"

lemma demo_nothing_to_read: "reads ox (\<lambda>_. Some []) st ms st' \<Longrightarrow> ms = []"
  by (cases ms) (auto simp: slot_opens_def header_decode_def rd_u32_def rd_take_def result_simps)


end
