(* ===== verification/Reset.thy ===== *)
theory Reset
  imports Flow_Steps First_Contact
begin

text \<open>
  The user-triggered reset (\<open>reset\<close> in \<open>dm/flows.rs\<close>) and the advert state of the store it rotates
  (\<open>update_advert_state\<close> and its neighbours in \<open>dm/store.rs\<close>).
\<close>

section \<open>The advert state of a profile\<close>

text \<open>
  The record holds the keys and the serial of the last advert confirmed published; \<open>None\<close> is a record never written.
  A profile's critical section goes as a correspondence's does.
\<close>

type_synonym advert_file = "(advert_snapshot \<times> u64 option) option"

definition profile_section :: "io \<Rightarrow> (advert_file \<Rightarrow> (store_error + 'a) \<times> advert_file) \<Rightarrow> advert_file \<Rightarrow> (store_error + 'a) \<times> advert_file" where
  "profile_section io body file =
    (case io of
       IoFails e \<Rightarrow> (Inl (StStore e), file)
     | IoOk \<Rightarrow> body file
     | IoLands e \<Rightarrow> (case body file of (Inl d, file') \<Rightarrow> (Inl d, file') | (Inr a, file') \<Rightarrow> (Inl (StStore e), file')))"

definition persist_advert_keys :: "io \<Rightarrow> advert_snapshot \<Rightarrow> advert_file \<Rightarrow> (store_error + unit) \<times> advert_file" where
  "persist_advert_keys io sn = profile_section io (\<lambda>_. (Inr (), Some (sn, None)))"

definition load_advert_keys :: "io \<Rightarrow> advert_file \<Rightarrow> (store_error + advert_snapshot option) \<times> advert_file" where
  "load_advert_keys io = profile_section io (\<lambda>file. (Inr (map_option fst file), file))"

definition update_advert_state ::
  "io \<Rightarrow> (advert_keys \<Rightarrow> u64 option \<Rightarrow> 'r \<times> advert_keys) \<Rightarrow> advert_file \<Rightarrow> (store_error + 'r) \<times> advert_file" where
  "update_advert_state io f = profile_section io (\<lambda>file. case file of
     None \<Rightarrow> (Inl MissingAdvertKeys, file)
   | Some (sn, published) \<Rightarrow>
       (case f (keys_restore sn) published of (out, keys) \<Rightarrow> (Inr out, Some (keys_snapshot keys, published))))"

definition update_advert_keys :: "io \<Rightarrow> (advert_keys \<Rightarrow> 'r \<times> advert_keys) \<Rightarrow> advert_file \<Rightarrow> (store_error + 'r) \<times> advert_file" where
  "update_advert_keys io f = update_advert_state io (\<lambda>keys _. f keys)"

definition mark_advert_published :: "io \<Rightarrow> u64 \<Rightarrow> advert_file \<Rightarrow> (store_error + unit) \<times> advert_file" where
  "mark_advert_published io serial = profile_section io (\<lambda>file. case file of
     None \<Rightarrow> (Inl MissingAdvertKeys, file)
   | Some (sn, published) \<Rightarrow>
       if serial > av_serial sn then (Inl (UnbuiltAdvertSerial serial (av_serial sn)), file)
       else (Inr (), Some (sn, Some (case published of None \<Rightarrow> serial | Some p \<Rightarrow> max p serial))))"

section \<open>The reset\<close>

definition flagged :: "conv_state \<Rightarrow> conv_state" where
  "flagged state = state\<lparr>cs_conversation := set_stored_force True (cs_conversation state)\<rparr>"

text \<open>\<open>ios k\<close> is how the k-th record's section went, \<open>between k\<close> what other writers did before it.\<close>

fun flag_all :: "(nat \<Rightarrow> io) \<Rightarrow> (nat \<Rightarrow> dm_store \<Rightarrow> dm_store) \<Rightarrow> nat \<Rightarrow> loaded_conv list \<Rightarrow> dm_store \<Rightarrow> (flow_error + unit) \<times> dm_store" where
  "flag_all ios between k [] s = (Inr (), s)"
| "flag_all ios between k (loaded # rest) s =
    (case update_conv (ios k) (lc_peer loaded) (\<lambda>state. ((), flagged state)) (between k s) of
       (Inr _, s') \<Rightarrow> flag_all ios between (Suc k) rest s'
     | (Inl MissingConversation, s') \<Rightarrow> flag_all ios between (Suc k) rest s'
     | (Inl e, s') \<Rightarrow> (Inl (FlStore e), s'))"

definition rotate_published :: "oxi \<Rightarrow> u64 \<Rightarrow> fill \<Rightarrow> advert_keys \<Rightarrow> u64 option \<Rightarrow> (advert_error + unit) \<times> advert_keys" where
  "rotate_published ox now fill keys published =
    (case published of
       Some serial \<Rightarrow> if ak_serial (aks_current keys) \<le> serial then rotate_now ox now fill keys else (Inr (), keys)
     | None \<Rightarrow> (Inr (), keys))"

definition reset ::
  "oxi \<Rightarrow> io \<Rightarrow> (nat \<Rightarrow> io) \<Rightarrow> io \<Rightarrow> (nat \<Rightarrow> dm_store \<Rightarrow> dm_store) \<Rightarrow> fill \<Rightarrow> u64 \<Rightarrow> dm_store \<Rightarrow> advert_file \<Rightarrow>
   (flow_error + unit) \<times> dm_store \<times> advert_file" where
  "reset ox lio ios aio between fill now s file =
    (case store_load lio s of
       (Inl e, s1) \<Rightarrow> (Inl (FlStore e), s1, file)
     | (Inr convs, s1) \<Rightarrow>
       (case flag_all ios between 0 convs s1 of
          (Inl e, s2) \<Rightarrow> (Inl e, s2, file)
        | (Inr _, s2) \<Rightarrow>
          (case update_advert_state aio (rotate_published ox now fill) file of
             (Inr (Inr _), file') \<Rightarrow> (Inr (), s2, file')
           | (Inr (Inl e), file') \<Rightarrow> (Inl (FlAdvert e), s2, file')
           | (Inl MissingAdvertKeys, file') \<Rightarrow> (Inr (), s2, file')
           | (Inl e, file') \<Rightarrow> (Inl (FlStore e), s2, file'))))"

section \<open>What a reset leaves\<close>

lemma flagged_simps [simp]: "stored_force (flagged st)" "flagged (flagged st) = flagged st"
  by (simp_all add: flagged_def stored_force_def set_stored_force_def)

lemma update_flagged:
  assumes "update_conv io p (\<lambda>state. ((), flagged state)) s = (r, s')" "r = Inr () \<or> r = Inl MissingConversation"
  shows "conv_of s' q = (case conv_of s q of Held st \<Rightarrow> Held (if q = p then flagged st else st) | c \<Rightarrow> conv_of s' q) \<and>
    (held (conv_of s q) = None \<longrightarrow> held (conv_of s' q) = None)"
  using assms
  by (cases io; cases "f_conv (sto_files s p)")
    (auto simp: update_conv_def critical_section_def read_conv_def conv_of_def set_files_def split: stored.split)

lemma flag_all_effect:
  assumes "flag_all ios (\<lambda>_ s. s) k lcs s = (Inr (), s')" "conv_of s p = Held st"
  shows "conv_of s' p = Held (if p \<in> lc_peer ` set lcs then flagged st else st)"
  using assms
proof (induction lcs arbitrary: k s st)
  case (Cons lc lcs)
  obtain r s1 where u: "update_conv (ios k) (lc_peer lc) (\<lambda>state. ((), flagged state)) s = (r, s1)" by fastforce
  with Cons.prems(1) have r: "r = Inr () \<or> r = Inl MissingConversation" "flag_all ios (\<lambda>_ s. s) (Suc k) lcs s1 = (Inr (), s')"
    by (auto split: sum.splits store_error.splits)
  have "conv_of s1 p = Held (if p = lc_peer lc then flagged st else st)" using update_flagged [OF u r(1), of p] Cons.prems(2) by simp
  from Cons.IH [OF r(2) this] show ?case by auto
qed simp

lemma load_all_keeps:
  assumes "distinct ps" "conv_of s p = Held st"
  shows "conv_of (snd (load_all ps s)) p = Held st" "p \<in> set ps \<Longrightarrow> p \<in> lc_peer ` set (fst (load_all ps s))"
proof -
  have l: "load_one p (sto_files s p) = (fst (load_one p (sto_files s p)), snd (load_one p (sto_files s p)))" by simp
  have o: "f_conv (snd (load_one p (sto_files s p))) = Held st" "\<exists>lc. fst (load_one p (sto_files s p)) = Some lc \<and> lc_peer lc = p"
    using assms(2) by (simp_all add: load_one_def read_conv_def conv_of_def Let_def split: prod.split)
      (auto simp: read_outbox_table_def)
  from load_all_files [OF assms(1), of s p] o(1) assms(2) show "conv_of (snd (load_all ps s)) p = Held st"
    by (simp add: conv_of_def split: if_splits)
  assume "p \<in> set ps"
  with load_all_files [OF assms(1), of s p] o(2) show "p \<in> lc_peer ` set (fst (load_all ps s))"
    by (force simp: List.map_filter_def)
qed


lemma forced_seal_starts_turn:
  assumes "d_force_turn (cv_sending cv)" "conversation_seal ox draw fill body dev cv = (Inr (h, c), cv')"
  shows "starts_turn h"
proof -
  obtain d' where s: "direction_seal ox draw fill (seal_input cv) body dev (with_cursor cv) = (Inr (h, c), d')"
    using assms(2) by (auto simp: conversation_seal_eq split: prod.splits sum.splits option.splits)
  have "turn_due (with_cursor cv) (seal_input cv)" using assms(1) by (simp add: turn_due_def set_cursor_def)
  with s show ?thesis
    by (auto simp: direction_seal_def turn_material_def Let_def result_simps starts_turn_def split: sum.splits if_splits prod.splits)
qed

lemma flagged_forces: "d_force_turn (cv_sending (restore (cs_conversation (flagged st))))"
  by (simp add: flagged_def set_stored_force_def restore_def)

lemma flagged_unchanged: "as_loaded_unchanged al (flagged st) = as_loaded_unchanged al st"
  by (simp add: as_loaded_unchanged_def flagged_def set_stored_force_def)

lemma keys_snapshot_restore: "keys_snapshot (keys_restore sn) = sn"
  by (cases sn; cases "av_previous sn") (auto simp: keys_snapshot_def keys_restore_def)

section \<open>The published serial\<close>

definition published_ok :: "advert_file \<Rightarrow> bool" where
  "published_ok file \<longleftrightarrow> (case file of Some (sn, Some p) \<Rightarrow> p \<le> av_serial sn | _ \<Rightarrow> True)"

definition advert_serial :: "advert_file \<Rightarrow> u64" where
  "advert_serial file = (case file of Some (sn, _) \<Rightarrow> av_serial sn | None \<Rightarrow> 0)"

lemma profile_section_cases:
  assumes "profile_section io body file = (r, file')"
  shows "file' = file \<and> (\<exists>e. r = Inl (StStore e)) \<or> file' = snd (body file) \<and> (r = fst (body file) \<or> (\<exists>e. r = Inl (StStore e)))"
  using assms by (cases io; cases "body file") (auto simp: profile_section_def split: sum.splits)

lemma rotate_now_serial:
  "rotate_now ox now fill ks = (r, ks') \<Longrightarrow>
    (if r = Inr () then ak_serial (aks_current ks') = sat_add (ak_serial (aks_current ks)) 1 \<and>
        aks_previous ks' = Some \<lparr>rk_key = aks_current ks, rk_retired_at = now\<rparr>
     else aks_current ks' = aks_current ks)"
  by (auto simp: rotate_now_def rotate_keys_def prune_def generate_def result_simps split: sum.splits option.splits if_splits)

text \<open>The store never records an advert published that its keys have not reached.\<close>

lemma published_ok_kept:
  assumes "published_ok file"
  shows "published_ok (snd (persist_advert_keys io sn file))" "published_ok (snd (mark_advert_published io serial file))"
    "(\<And>sn p. av_serial sn \<le> ak_serial (aks_current (snd (f (keys_restore sn) p)))) \<Longrightarrow> published_ok (snd (update_advert_state io f file))"
proof -
  show "published_ok (snd (persist_advert_keys io sn file))"
    using assms by (auto simp: persist_advert_keys_def profile_section_def published_ok_def split: io.splits)
  show "published_ok (snd (mark_advert_published io serial file))"
    using assms by (auto simp: mark_advert_published_def profile_section_def published_ok_def split: io.splits option.splits)
  assume up: "\<And>sn p. av_serial sn \<le> ak_serial (aks_current (snd (f (keys_restore sn) p)))"
  have "published_ok (Some (keys_snapshot keys, p))" if "published_ok (Some (sn, p))" "f (keys_restore sn) p = (out, keys)" for sn p out keys
    using that up [of sn p] by (auto simp: published_ok_def keys_snapshot_def split: option.splits)
  with assms show "published_ok (snd (update_advert_state io f file))"
    by (auto simp: update_advert_state_def profile_section_def split: io.splits option.splits prod.splits)
qed

text \<open>What the rotation of a reset makes of the advert file.\<close>

lemma rotation_effect:
  assumes "update_advert_state io (rotate_published ox now fill) file = (r, file')"
  shows "map_option snd file' = map_option snd file \<and>
    (r = Inr (Inr ()) \<longrightarrow> (case file of None \<Rightarrow> False | Some (sn, published) \<Rightarrow>
       if \<exists>p. published = Some p \<and> av_serial sn \<le> p
       then \<exists>sn'. file' = Some (sn', published) \<and> av_serial sn' = sat_add (av_serial sn) 1 \<and> av_previous sn' =
         Some \<lparr>rt_serial = av_serial sn, rt_retired_at = now, rt_decapsulation_key = av_decapsulation_key sn\<rparr>
       else file' = file)) \<and>
    (r = Inl MissingAdvertKeys \<longrightarrow> file = None \<and> file' = None) \<and>
    (advert_serial file' = advert_serial file \<or> advert_serial file' = sat_add (advert_serial file) 1) \<and>
    ((\<forall>sn published. file = Some (sn, published) \<longrightarrow> \<not> (\<exists>p. published = Some p \<and> av_serial sn \<le> p)) \<longrightarrow> file' = file)"
proof (cases "file")
  case None
  then show ?thesis using assms profile_section_cases by (fastforce simp: update_advert_state_def advert_serial_def)
next
  case (Some x)
  obtain sn published where x: "x = (sn, published)" by (cases x)
  obtain out keys where f: "rotate_published ox now fill (keys_restore sn) published = (out, keys)" by fastforce
  have c: "file' = file \<and> (\<exists>e. r = Inl (StStore e)) \<or>
      file' = Some (keys_snapshot keys, published) \<and> (r = Inr out \<or> (\<exists>e. r = Inl (StStore e)))"
    using profile_section_cases [OF assms [unfolded update_advert_state_def]] by (simp add: Some x f)
  show ?thesis
  proof (cases "\<exists>p. published = Some p \<and> av_serial sn \<le> p")
    case False
    then have "out = Inr () \<and> keys = keys_restore sn" using f by (auto simp: rotate_published_def keys_restore_def split: option.splits)
    with c False show ?thesis by (auto simp: Some x keys_snapshot_restore)
  next
    case True
    then have "rotate_now ox now fill (keys_restore sn) = (out, keys)" using f by (auto simp: rotate_published_def keys_restore_def)
    note n = rotate_now_serial [OF this]
    have "out = Inr () \<Longrightarrow> av_serial (keys_snapshot keys) = sat_add (av_serial sn) 1 \<and> av_previous (keys_snapshot keys) =
         Some \<lparr>rt_serial = av_serial sn, rt_retired_at = now, rt_decapsulation_key = av_decapsulation_key sn\<rparr>"
      "out \<noteq> Inr () \<Longrightarrow> av_serial (keys_snapshot keys) = av_serial sn"
      using n by (simp_all add: keys_snapshot_def keys_restore_def)
    with c True show ?thesis by (cases "out = Inr ()") (auto simp: Some x advert_serial_def)
  qed
qed


text \<open>Whatever its outcome, a reset is its flags and then at most one rotation of the file.\<close>

lemma reset_cases:
  assumes "reset ox lio ios aio between fill now s file = (r, s', file')"
  shows "file' = file \<and> r \<noteq> Inr () \<or> (\<exists>u. update_advert_state aio (rotate_published ox now fill) file = (u, file') \<and>
    (r = Inr () \<longrightarrow> u = Inr (Inr ()) \<or> u = Inl MissingAdvertKeys))"
  using assms by (auto simp: reset_def split: sum.splits prod.splits store_error.splits)

lemma reset_flags:
  assumes "distinct (sto_peers s)" "reset ox lio ios aio (\<lambda>_ s. s) fill now s file = (Inr (), s', file')"
    and "p \<in> set (sto_peers s)" "conv_of s p = Held st"
  shows "conv_of s' p = Held (flagged st)"
proof -
  obtain convs s1 where l: "store_load lio s = (Inr convs, s1)" "flag_all ios (\<lambda>_ s. s) 0 convs s1 = (Inr (), s')"
    using assms(2) by (auto simp: reset_def split: sum.splits prod.splits store_error.splits)
  then have "convs = fst (load_all (sto_peers s) s)" "s1 = snd (load_all (sto_peers s) s)"
    by (auto simp: store_load_def split: io.splits prod.splits)
  with load_all_keeps [OF assms(1,4)] assms(3) flag_all_effect [OF l(2)] show ?thesis by auto
qed

text \<open>
  C14. A reset starts every conversation afresh and rotates the advert once. Where it returns, every conversation is
  flagged and otherwise as it was: its next message starts a turn whatever has been read, and a send under way when
  the flag was set still commits. The advert keys advance by one serial, keeping the old key, exactly where the
  current key has been published, and the published serial stands; after it, however it ended, no further reset
  changes them until a newer advert is published.
\<close>

theorem reset_starts_afresh:
  assumes "distinct (sto_peers s)" "published_ok file" "advert_serial file \<noteq> - 1"
    and "reset ox lio ios aio (\<lambda>_ s. s) fill now s file = (r, s', file')"
    and "reset ox lio2 ios2 aio2 between2 fill2 now2 s2 file' = (r2, s3, file3)"
  shows "(\<forall>p \<in> set (sto_peers s). \<forall>st. r = Inr () \<and> conv_of s p = Held st \<longrightarrow> conv_of s' p = Held (flagged st) \<and>
      (\<forall>draw fill body dev h c cv. conversation_seal ox draw fill body dev (restore (cs_conversation (flagged st))) = (Inr (h, c), cv) \<longrightarrow> starts_turn h) \<and>
      (\<forall>al. as_loaded_unchanged al (flagged st) = as_loaded_unchanged al st)) \<and>
    (\<forall>sn published. r = Inr () \<and> file = Some (sn, published) \<longrightarrow>
      (if published = Some (av_serial sn)
       then \<exists>sn'. file' = Some (sn', published) \<and> av_serial sn' = av_serial sn + 1 \<and> av_previous sn' =
          Some \<lparr>rt_serial = av_serial sn, rt_retired_at = now, rt_decapsulation_key = av_decapsulation_key sn\<rparr>
       else file' = file)) \<and>
    (advert_serial file' \<noteq> advert_serial file \<longrightarrow> file3 = file')"
proof (intro conjI ballI allI impI)
  fix p st assume p: "p \<in> set (sto_peers s)" "r = Inr () \<and> conv_of s p = Held st"
  then show "conv_of s' p = Held (flagged st)" using reset_flags [OF assms(1)] assms(4) by simp
  show "starts_turn h" if "conversation_seal ox draw fill body dev (restore (cs_conversation (flagged st))) = (Inr (h, c), cv)" for draw fill body dev h c cv
    using forced_seal_starts_turn [OF flagged_forces that] .
  show "as_loaded_unchanged al (flagged st) = as_loaded_unchanged al st" for al by (rule flagged_unchanged)
next
  have one: "sat_add (advert_serial file) 1 = advert_serial file + 1" "advert_serial file < advert_serial file + 1"
    using assms(3) by (simp_all add: sat_add_def word_unat_eq_iff unat_minus_one word_less_nat_alt unat_word_ariths)
      (use unat_less_exp [of "advert_serial file"] in auto)
  {
    fix sn published assume f: "r = Inr () \<and> file = Some (sn, published)"
    with reset_cases [OF assms(4)] obtain u where u: "update_advert_state aio (rotate_published ox now fill) file = (u, file')"
      "u = Inr (Inr ()) \<or> u = Inl MissingAdvertKeys" by blast
    have "(\<exists>p. published = Some p \<and> av_serial sn \<le> p) \<longleftrightarrow> published = Some (av_serial sn)"
      using assms(2) f by (auto simp: published_ok_def split: option.splits)
    with rotation_effect [OF u(1)] u(2) f one(1)
    show "if published = Some (av_serial sn)
       then \<exists>sn'. file' = Some (sn', published) \<and> av_serial sn' = av_serial sn + 1 \<and> av_previous sn' =
          Some \<lparr>rt_serial = av_serial sn, rt_retired_at = now, rt_decapsulation_key = av_decapsulation_key sn\<rparr>
       else file' = file" by (auto simp: advert_serial_def)
  }
  assume d: "advert_serial file' \<noteq> advert_serial file"
  with reset_cases [OF assms(4)] obtain u where u: "update_advert_state aio (rotate_published ox now fill) file = (u, file')" by auto
  note e = rotation_effect [OF u]
  have "\<not> (\<exists>p. published = Some p \<and> av_serial sn \<le> p)" if f: "file' = Some (sn, published)" for sn published
  proof -
    have "av_serial sn = advert_serial file + 1" using e d one(1) f by (auto simp: advert_serial_def)
    moreover from e have "map_option snd file' = map_option snd file" by blast
    then obtain sn0 where "file = Some (sn0, published)" using f by (cases "file") auto
    ultimately show ?thesis using assms(2) one(2) by (auto simp: published_ok_def advert_serial_def split: option.splits)
  qed
  moreover from reset_cases [OF assms(5)]
  have "file3 = file' \<or> (\<exists>u. update_advert_state aio2 (rotate_published ox now2 fill2) file' = (u, file3))" by blast
  ultimately show "file3 = file'" using rotation_effect [of aio2 ox now2 fill2 file' _ file3] by blast
qed

definition demo_profile :: dm_store where
  "demo_profile = \<lparr>sto_peers = [[9]], sto_files = (\<lambda>_. no_files\<lparr>f_conv := Held demo_conv\<rparr>)\<rparr>"

definition demo_adverts :: advert_file where
  "demo_adverts = Some (\<lparr>av_serial = 3, av_not_before = 7, av_decapsulation_key = [5], av_previous = None\<rparr>, Some 3)"

definition demo_reset :: "dm_store \<Rightarrow> advert_file \<Rightarrow> (flow_error + unit) \<times> dm_store \<times> advert_file" where
  "demo_reset = reset demo_oxi IoOk (\<lambda>_. IoOk) IoOk (\<lambda>_ s. s) (\<lambda>_. Some (replicate 32 1)) 100"

lemma demo_reset_returns: "fst (demo_reset demo_profile demo_adverts) = Inr ()"
  by (simp add: demo_reset_def reset_def demo_profile_def demo_adverts_def store_load_def load_one_def read_conv_def no_files_def
      read_outbox_table_def Let_def update_conv_def critical_section_def set_files_def update_advert_state_def profile_section_def
      rotate_published_def keys_restore_def rotate_now_def prune_def rotate_keys_def generate_def ml_kem_keygen_def oxi_module_def
      demo_oxi_def result_simps)

theorem reset_starts_afresh_witness:
  "\<exists>s' file'. demo_reset demo_profile demo_adverts = (Inr (), s', file') \<and>
    conv_of s' [9] = Held (flagged demo_conv) \<and> advert_serial file' = 4 \<and> snd (snd (demo_reset s' file')) = file'"
proof -
  obtain s' file' where r: "demo_reset demo_profile demo_adverts = (Inr (), s', file')"
    using demo_reset_returns by (metis prod.collapse)
  obtain r2 s2 file2 where r2: "demo_reset s' file' = (r2, s2, file2)" by (metis prod.collapse)
  have "distinct (sto_peers demo_profile)" "published_ok demo_adverts" "advert_serial demo_adverts \<noteq> - 1"
    by (simp_all add: demo_profile_def demo_adverts_def published_ok_def advert_serial_def)
  from reset_starts_afresh [OF this r [unfolded demo_reset_def] r2 [unfolded demo_reset_def]]
  have "conv_of s' [9] = Held (flagged demo_conv) \<and> advert_serial file' = 4 \<and> file2 = file'"
    by (auto simp: demo_profile_def demo_adverts_def conv_of_def advert_serial_def no_files_def)
  with r r2 show ?thesis by simp
qed

end
