(* ===== verification/Push.thy ===== *)
theory Push
  imports Reset Flow_Batch Handshake_Live
begin

text \<open>
  The direct lane (\<open>dm/push.rs\<close>): a message, a reach notice or an acceptance sent straight to a correspondent's route,
  beside the record store. The codec, the codes that answer a push and tag a route, and the taking of a pushed message
  and of a reach notice.
\<close>

section \<open>Codes\<close>

definition PUSH_TAG :: "byte list" where "PUSH_TAG = ascii ''dsdmpsh1''"
definition PUSH_MAX_LEN :: nat where "PUSH_MAX_LEN = 32 * 1024"
definition ROUTE_TAG_LEN :: nat where "ROUTE_TAG_LEN = 32"
definition DM_PUSH_ROUTE :: "byte list" where "DM_PUSH_ROUTE = ascii ''daemonseed/dm/push/route/v1''"
definition KIND_MESSAGE :: byte where "KIND_MESSAGE = 1"
definition KIND_ACCEPTANCE :: byte where "KIND_ACCEPTANCE = 2"
definition KIND_REACH :: byte where "KIND_REACH = 3"
definition KIND_MESSAGE_WITH_ROUTE :: byte where "KIND_MESSAGE_WITH_ROUTE = 4"

definition route_tag :: "oxi \<Rightarrow> byte list \<Rightarrow> byte list \<Rightarrow> u64 \<Rightarrow> byte list \<Rightarrow> flow_error + byte list" where
  "route_tag ox key lookup_key seq route =
    rbind (map_err (\<lambda>e. FlChannel (ChKdf e)) (hkdf_extract ox (Some DM_PUSH_ANSWER_SALT) key)) (\<lambda>hkdf.
    map_err (\<lambda>e. FlChannel (ChKdf e)) (hkdf_expand ox hkdf
      (DM_PUSH_ROUTE @ push_lp lookup_key @ u64_be seq @ push_lp route) ROUTE_TAG_LEN))"

definition same_bytes :: "byte list \<Rightarrow> byte list \<Rightarrow> bool" where
  "same_bytes expected got =
    (length got = length expected \<and> fold (\<lambda>(x, y) diff. or diff (xor x y)) (zip expected got) 0 = (0 :: byte))"

definition answer_matches :: "byte list \<Rightarrow> byte list \<Rightarrow> bool" where
  "answer_matches expected got = same_bytes expected got"

section \<open>The codec\<close>

record push_route =
  pr_route :: "byte list"
  pr_tag :: "byte list"

datatype push =
    PuMessage "byte list" u16 "byte list" "push_route option"
  | PuReach "byte list" "byte list"
  | PuAcceptance "byte list" u16 "byte list" "byte list" u16 "byte list"

definition publishable :: "byte list \<Rightarrow> bool" where
  "publishable route \<longleftrightarrow> route \<noteq> [] \<and> length route \<le> REACH_ROUTE_MAX_LEN"

fun publishable_route :: "push_route option \<Rightarrow> push_route option" where
  "publishable_route None = None"
| "publishable_route (Some r) = (if publishable (pr_route r) then Some r else None)"

fun push_body :: "push \<Rightarrow> byte list" where
  "push_body (PuMessage lookup_key subkey slot route) =
    (case publishable_route route of
       Some r \<Rightarrow> [KIND_MESSAGE_WITH_ROUTE] @ lookup_key @ u16_be subkey @ push_lp slot @ push_lp (pr_route r) @ pr_tag r
     | None \<Rightarrow> [KIND_MESSAGE] @ lookup_key @ u16_be subkey @ slot)"
| "push_body (PuReach lookup_key control) = [KIND_REACH] @ lookup_key @ push_lp control"
| "push_body (PuAcceptance lookup_key hello_slot hello control reply_subkey reply) =
    [KIND_ACCEPTANCE] @ lookup_key @ u16_be hello_slot @ push_lp hello @ push_lp control @ u16_be reply_subkey @ push_lp reply"

definition push_encode :: "push \<Rightarrow> byte list option" where
  "push_encode p = (let out = PUSH_TAG @ push_body p in if length out \<le> PUSH_MAX_LEN then Some out else None)"

definition split_at :: "nat \<Rightarrow> byte list \<Rightarrow> (byte list \<times> byte list) option" where
  "split_at n bs = (if n \<le> length bs then Some (take n bs, drop n bs) else None)"

definition take_u16 :: "byte list \<Rightarrow> (u16 \<times> byte list) option" where
  "take_u16 bs = Option.bind (split_at 2 bs) (\<lambda>(h, t). Some (u16_of_be h, t))"

definition take_lp :: "byte list \<Rightarrow> (byte list \<times> byte list) option" where
  "take_lp bs = Option.bind (split_at 8 bs) (\<lambda>(len, t). split_at (unat (u64_of_be len)) t)"

definition push_decode :: "byte list \<Rightarrow> push option" where
  "push_decode bs =
    (if take (length PUSH_TAG) bs \<noteq> PUSH_TAG then None
     else case drop (length PUSH_TAG) bs of
       [] \<Rightarrow> None
     | kind # rest \<Rightarrow> Option.bind (split_at HELLO_LOOKUP_KEY_LEN rest) (\<lambda>(lookup_key, rest).
         if kind = KIND_MESSAGE then Option.bind (take_u16 rest) (\<lambda>(subkey, slot). Some (PuMessage lookup_key subkey slot None))
         else if kind = KIND_MESSAGE_WITH_ROUTE then
           Option.bind (take_u16 rest) (\<lambda>(subkey, rest).
           Option.bind (take_lp rest) (\<lambda>(slot, rest).
           Option.bind (take_lp rest) (\<lambda>(route, rest).
           Option.bind (split_at ROUTE_TAG_LEN rest) (\<lambda>(tag, rest).
           if rest = [] \<and> publishable route then Some (PuMessage lookup_key subkey slot (Some \<lparr>pr_route = route, pr_tag = tag\<rparr>)) else None))))
         else if kind = KIND_REACH then
           Option.bind (take_lp rest) (\<lambda>(control, rest).
           if rest = [] \<and> control \<noteq> [] \<and> length control \<le> SEALED_CONTROL_MAX_LEN then Some (PuReach lookup_key control) else None)
         else if kind = KIND_ACCEPTANCE then
           Option.bind (take_u16 rest) (\<lambda>(hello_slot, rest).
           Option.bind (take_lp rest) (\<lambda>(hello, rest).
           Option.bind (take_lp rest) (\<lambda>(control, rest).
           Option.bind (take_u16 rest) (\<lambda>(reply_subkey, rest).
           Option.bind (take_lp rest) (\<lambda>(reply, rest).
           if rest = [] then Some (PuAcceptance lookup_key hello_slot hello control reply_subkey reply) else None)))))
         else None))"

definition is_push :: "byte list \<Rightarrow> bool" where
  "is_push bs \<longleftrightarrow> take (length PUSH_TAG) bs = PUSH_TAG"

lemma split_at_iff: "split_at n bs = Some (a, b) \<longleftrightarrow> length a = n \<and> bs = a @ b"
  by (auto simp: split_at_def)

lemma take_u16_iff: "take_u16 bs = Some (w, b) \<longleftrightarrow> bs = u16_be w @ b"
  by (auto simp: take_u16_def split_at_iff bind_eq_Some_conv u16_be_u16_of_be)

lemma take_lp_iff: "take_lp bs = Some (f, b) \<longleftrightarrow> lp_ok f \<and> bs = push_lp f @ b"
proof
  assume "take_lp bs = Some (f, b)"
  then obtain h where "length h = 8" "length f = unat (u64_of_be h)" "bs = h @ f @ b"
    by (auto simp: take_lp_def split_at_iff bind_eq_Some_conv)
  then show "lp_ok f \<and> bs = push_lp f @ b"
    using unat_less_exp [of "u64_of_be h"] by (simp add: lp_ok_def push_lp_def u64_be_u64_of_be)
next
  assume "lp_ok f \<and> bs = push_lp f @ b"
  then show "take_lp bs = Some (f, b)"
    by (auto simp: take_lp_def split_at_iff bind_eq_Some_conv push_lp_def unat_length_lp u64_of_be_u64_be)
qed

fun push_wf :: "push \<Rightarrow> bool" where
  "push_wf (PuMessage lookup_key subkey slot route) \<longleftrightarrow> length lookup_key = HELLO_LOOKUP_KEY_LEN \<and>
     (\<forall>r. route = Some r \<longrightarrow> publishable (pr_route r) \<and> length (pr_tag r) = ROUTE_TAG_LEN \<and> lp_ok slot)"
| "push_wf (PuReach lookup_key control) \<longleftrightarrow> length lookup_key = HELLO_LOOKUP_KEY_LEN \<and> control \<noteq> [] \<and> length control \<le> SEALED_CONTROL_MAX_LEN"
| "push_wf (PuAcceptance lookup_key hello_slot hello control reply_subkey reply) \<longleftrightarrow> length lookup_key = HELLO_LOOKUP_KEY_LEN \<and>
     lp_ok hello \<and> lp_ok control \<and> lp_ok reply"

lemmas push_kinds = KIND_MESSAGE_def KIND_ACCEPTANCE_def KIND_REACH_def KIND_MESSAGE_WITH_ROUTE_def

lemma push_takes [simp]:
  "length a = n \<Longrightarrow> split_at n (a @ b) = Some (a, b)" "length a = n \<Longrightarrow> split_at n a = Some (a, [])"
  "take_u16 (u16_be w @ b) = Some (w, b)"
  "lp_ok f \<Longrightarrow> take_lp (push_lp f @ b) = Some (f, b)" "lp_ok f \<Longrightarrow> take_lp (push_lp f) = Some (f, [])"
  by (simp_all add: split_at_iff take_u16_iff take_lp_iff)

lemma sealed_control_lp_ok: "length control \<le> SEALED_CONTROL_MAX_LEN \<Longrightarrow> lp_ok control"
  by (simp add: lp_ok_def channel_sizes opening_offsets crypto_lens)

lemma publishable_lp_ok: "publishable route \<Longrightarrow> lp_ok route"
  by (simp add: publishable_def lp_ok_def REACH_ROUTE_MAX_LEN_def)

lemma push_decode_body: "push_wf p \<Longrightarrow> push_decode (PUSH_TAG @ push_body p) = Some p"
proof (cases p)
  case (PuMessage lookup_key subkey slot route)
  moreover assume "push_wf p"
  ultimately show ?thesis
    by (cases route) (auto simp: push_decode_def push_kinds publishable_lp_ok)
next
  case (PuReach lookup_key control)
  moreover assume "push_wf p"
  ultimately show ?thesis by (simp add: push_decode_def push_kinds sealed_control_lp_ok)
next
  case (PuAcceptance lookup_key hello_slot hello control reply_subkey reply)
  moreover assume "push_wf p"
  ultimately show ?thesis by (simp add: push_decode_def push_kinds)
qed

lemma push_decode_iff: "push_decode bs = Some p \<longleftrightarrow> push_wf p \<and> bs = PUSH_TAG @ push_body p"
proof
  assume d: "push_decode bs = Some p"
  define tag where "tag = PUSH_TAG"
  have s: "take (length tag) bs = tag \<Longrightarrow> drop (length tag) bs = k # r \<Longrightarrow> bs = tag @ k # r" for k r
    by (metis append_take_drop_id)
  from d show "push_wf p \<and> bs = PUSH_TAG @ push_body p"
    unfolding push_decode_def tag_def [symmetric]
    by (auto simp: split_at_iff take_u16_iff take_lp_iff bind_eq_Some_conv split: if_splits list.splits dest!: s)
qed (auto simp: push_decode_body)

section \<open>Taking a push\<close>

text \<open>
  A push is taken against a store other writers share: \<open>pp_before\<close> is what they do between the load and the step,
  \<open>pp_between\<close> what they do between the step's load and its commit. \<open>pp_io i\<close> is how the i-th store call went.
\<close>

record push_port =
  pp_io :: "nat \<Rightarrow> io"
  pp_before :: "dm_store \<Rightarrow> dm_store"
  pp_between :: "dm_store \<Rightarrow> dm_store"

datatype taken =
    TkRecorded correspondence_label u64 received_message "byte list" "byte list option"
  | TkBlocked correspondence_label
  | TkDuplicate correspondence_label "byte list option"
  | TkAhead correspondence_label
  | TkDropped

text \<open>\<open>OneSlot\<close>: the records as a step over a pushed slot reads them.\<close>

definition one_slot :: "byte list \<Rightarrow> u16 \<Rightarrow> byte list \<Rightarrow> records" where
  "one_slot lookup_key subkey slot = (\<lambda>at. if at = (lookup_key, subkey) then Some slot else None)"

definition duplicate :: "oxi \<Rightarrow> correspondence_label \<Rightarrow> byte list \<Rightarrow> byte list \<Rightarrow> u64 \<Rightarrow> u64 \<Rightarrow> flow_error + taken" where
  "duplicate ox peer key lookup_key seq cursor =
    (if seq \<noteq> - 1 \<and> seq + 1 = cursor
     then rbind (push_answer ox key lookup_key seq) (\<lambda>a. Inr (TkDuplicate peer (Some a)))
     else Inr (TkDuplicate peer None))"

text \<open>What a recorded message is handed back with.\<close>

definition recorded ::
  "oxi \<Rightarrow> correspondence_label \<Rightarrow> byte list \<Rightarrow> byte list \<Rightarrow> push_route option \<Rightarrow> u64 \<Rightarrow> received_message \<Rightarrow> flow_error + taken" where
  "recorded ox peer key lookup_key route seq message =
    rbind (case route of
        None \<Rightarrow> Inr None
      | Some r \<Rightarrow> rbind (route_tag ox key lookup_key seq (pr_route r)) (\<lambda>expected.
          Inr (if same_bytes expected (pr_tag r) then Some (pr_route r) else None))) (\<lambda>route.
    rbind (push_answer ox key lookup_key seq) (\<lambda>a. Inr (TkRecorded peer seq message a route)))"

text \<open>What the step over the pushed slot comes to. At the ring's end the record has moved on since the load: it is read again.\<close>

definition after_step ::
  "oxi \<Rightarrow> io \<Rightarrow> correspondence_label \<Rightarrow> byte list \<Rightarrow> byte list \<Rightarrow> push_route option \<Rightarrow> u64 \<Rightarrow> flow_error + ring_step \<Rightarrow> dm_store \<Rightarrow>
   (flow_error + taken) \<times> dm_store" where
  "after_step ox io peer key lookup_key route seq step s =
    (case step of
       Inr (RsMessage seq sent_at body _) \<Rightarrow> (recorded ox peer key lookup_key route seq (sent_at, body), s)
     | Inr RsEnd \<Rightarrow>
         (case load_conv io peer s of
            (Inl e, s') \<Rightarrow> (Inl (FlStore e), s')
          | (Inr st, s') \<Rightarrow>
              (duplicate ox peer key lookup_key seq (case st of Some state \<Rightarrow> cs_my_collected state | None \<Rightarrow> seq), s'))
     | Inr (RsUnopened _ _ _) \<Rightarrow> (Inr TkDropped, s)
     | Inl e \<Rightarrow> if e \<in> {DeletePending, AwaitingAcceptance, FlStore MissingConversation} then (Inr TkDropped, s) else (Inl e, s))"

definition take_message_once ::
  "oxi \<Rightarrow> push_port \<Rightarrow> (byte list \<Rightarrow> bool) \<Rightarrow> byte list \<Rightarrow> u16 \<Rightarrow> byte list \<Rightarrow> push_route option \<Rightarrow> dm_store \<Rightarrow>
   (flow_error + taken) \<times> dm_store" where
  "take_message_once ox port is_blocked lookup_key subkey slot route s =
    (if lookup_key = replicate HELLO_LOOKUP_KEY_LEN 0 then (Inr TkDropped, s)
     else case store_load (pp_io port 0) s of
       (Inl e, s1) \<Rightarrow> (Inl (FlStore e), s1)
     | (Inr convs, s1) \<Rightarrow>
       (case List.find (\<lambda>lc. cs_incoming_lookup_key (lc_state lc) = lookup_key) convs of
          None \<Rightarrow> (Inr TkDropped, s1)
        | Some lc \<Rightarrow>
          (let peer = lc_peer lc; state = lc_state lc in
           if is_blocked (cs_peer_identity_pk state) then (Inr (TkBlocked peer), s1)
           else if cs_delete_pending state \<or> cs_awaiting_acceptance state \<or> cs_acceptance_pending state then (Inr TkDropped, s1)
           else (case (cs_peer_control_key state, header_decode slot) of
              (None, _) \<Rightarrow> (Inr TkDropped, s1)
            | (Some _, Inl _) \<Rightarrow> (Inr TkDropped, s1)
            | (Some key, Inr (header, _)) \<Rightarrow>
              if h_seq header < cs_my_collected state
              then (duplicate ox peer key lookup_key (h_seq header) (cs_my_collected state), s1)
              else if h_seq header > cs_my_collected state then (Inr (TkAhead peer), s1)
              else if subkey \<noteq> slot_for (h_seq header) then (Inr TkDropped, s1)
              else (case collect_step ox (\<lambda>i. pp_io port (Suc i)) RecOk (pp_between port)
                      (one_slot lookup_key subkey slot) peer (pp_before port s1) of
                 (step, s2) \<Rightarrow> after_step ox (pp_io port 2) peer key lookup_key route (h_seq header) step s2)))))"

definition TAKE_ATTEMPTS :: nat where "TAKE_ATTEMPTS = 4"

function take_from ::
  "oxi \<Rightarrow> (nat \<Rightarrow> push_port) \<Rightarrow> (byte list \<Rightarrow> bool) \<Rightarrow> byte list \<Rightarrow> u16 \<Rightarrow> byte list \<Rightarrow> push_route option \<Rightarrow> nat \<Rightarrow> dm_store \<Rightarrow>
   (flow_error + taken) \<times> dm_store" where
  "take_from ox ports is_blocked lookup_key subkey slot route attempts s =
    (case take_message_once ox (ports attempts) is_blocked lookup_key subkey slot route s of
       (Inl Conflict, s') \<Rightarrow>
         if attempts < TAKE_ATTEMPTS
         then take_from ox ports is_blocked lookup_key subkey slot route (attempts + 1) s'
         else (Inl Conflict, s')
     | taken \<Rightarrow> taken)"
  by pat_completeness auto
termination by (relation "measure (\<lambda>(_, _, _, _, _, _, _, attempts, _). TAKE_ATTEMPTS - attempts)") auto

declare take_from.simps [simp del]

definition take_message ::
  "oxi \<Rightarrow> (nat \<Rightarrow> push_port) \<Rightarrow> (byte list \<Rightarrow> bool) \<Rightarrow> byte list \<Rightarrow> u16 \<Rightarrow> byte list \<Rightarrow> push_route option \<Rightarrow> dm_store \<Rightarrow>
   (flow_error + taken) \<times> dm_store" where
  "take_message ox ports is_blocked lookup_key subkey slot route s =
    take_from ox ports is_blocked lookup_key subkey slot route 1 s"

section \<open>Taking a reach notice\<close>

datatype reach_taken = RtApplied correspondence_label control "byte list" | RtBlocked correspondence_label | RtDropped

definition reach_seq :: "oxi \<Rightarrow> byte list \<Rightarrow> flow_error + u64" where
  "reach_seq ox control = map_err FlChannel (map_err ChModule (rbind (sha384 ox control) (\<lambda>digest. Inr (u64_of_be (take 8 digest)))))"

definition take_reach_notice ::
  "oxi \<Rightarrow> io \<Rightarrow> (byte list \<Rightarrow> bool) \<Rightarrow> byte list \<Rightarrow> byte list \<Rightarrow> dm_store \<Rightarrow> (flow_error + reach_taken) \<times> dm_store" where
  "take_reach_notice ox io is_blocked lookup_key control s =
    (if lookup_key = replicate HELLO_LOOKUP_KEY_LEN 0 then (Inr RtDropped, s)
     else case store_load io s of
       (Inl e, s1) \<Rightarrow> (Inl (FlStore e), s1)
     | (Inr convs, s1) \<Rightarrow>
       (case List.find (\<lambda>lc. cs_incoming_lookup_key (lc_state lc) = lookup_key) convs of
          None \<Rightarrow> (Inr RtDropped, s1)
        | Some lc \<Rightarrow>
          (let peer = lc_peer lc; state = lc_state lc in
           if is_blocked (cs_peer_identity_pk state) then (Inr (RtBlocked peer), s1)
           else if cs_delete_pending state \<or> cs_awaiting_acceptance state \<or> cs_acceptance_pending state then (Inr RtDropped, s1)
           else (case cs_peer_control_key state of
              None \<Rightarrow> (Inr RtDropped, s1)
            | Some key \<Rightarrow>
              (case open_control_with_key ox key control of
                 Inl _ \<Rightarrow> (Inr RtDropped, s1)
               | Inr opened \<Rightarrow>
                   (rbind (reach_seq ox control) (\<lambda>seq. rbind (push_answer ox key lookup_key seq) (\<lambda>a.
                     Inr (RtApplied peer opened a))), s1))))))"

section \<open>What a step leaves of the other conversations\<close>

definition only_touches :: "correspondence_label \<Rightarrow> dm_store \<Rightarrow> dm_store \<Rightarrow> bool" where
  "only_touches peer s s' \<longleftrightarrow> (\<forall>q. q \<noteq> peer \<longrightarrow> sto_files s' q = sto_files s q) \<and>
     distinct (sto_peers s') = distinct (sto_peers s) \<and> set (sto_peers s) \<subseteq> set (sto_peers s')"

lemma only_touches_refl [simp]: "only_touches peer s s"
  by (simp add: only_touches_def)

lemma only_touches_trans [trans]: "only_touches peer s s1 \<Longrightarrow> only_touches peer s1 s2 \<Longrightarrow> only_touches peer s s2"
  by (auto simp: only_touches_def)

lemma only_touches_conv: "only_touches peer s s' \<Longrightarrow> q \<noteq> peer \<Longrightarrow> conv_of s' q = conv_of s q"
  by (simp add: only_touches_def conv_of_def)

lemma section_only_touches: "only_touches peer s (snd (critical_section io peer body s))"
  by (auto simp: only_touches_def critical_section_def set_files_def split: io.splits sum.splits prod.splits)

lemma calls_only_touch:
  "only_touches peer s (snd (load_conv io peer s))" "only_touches peer s (snd (flow_load io peer s))"
  "only_touches peer s (snd (flow_update io peer f s))" "only_touches peer s (snd (delete_outbox_through io peer cursor s))"
  by (simp_all add: load_conv_def flow_load_def flow_update_def try_update_conv_def delete_outbox_through_def case_prod_beta section_only_touches)

lemma calls_touch:
  "load_conv io peer s = (r1, s') \<Longrightarrow> only_touches peer s s'"
  "flow_load io peer s = (r2, s') \<Longrightarrow> only_touches peer s s'"
  "flow_update io peer f s = (r3, s') \<Longrightarrow> only_touches peer s s'"
  "delete_outbox_through io peer cursor s = (r4, s') \<Longrightarrow> only_touches peer s s'"
  using calls_only_touch [of peer s io] by (metis snd_conv)+

lemma collect_step_only_touches: "collect_step ox io rio (\<lambda>s. s) net peer s = (r, s') \<Longrightarrow> only_touches peer s s'"
  by (auto simp: collect_step_def split: sum.splits option.splits prod.splits ring_step.splits if_splits
      dest!: calls_touch intro: only_touches_trans)

section \<open>Both lanes of a conversation\<close>

text \<open>
  A message reaches its reader by a push or by the ring of its channel, whichever is first. \<open>lane_step\<close> is one arrival;
  its result is what it hands over: the correspondent, the sequence and the message.
\<close>

datatype lane_event =
    ByPush "nat \<Rightarrow> push_port" "byte list" u16 "byte list" "push_route option"
  | ByRing correspondence_label "nat \<Rightarrow> io" record_io records

fun handed_by_push :: "flow_error + taken \<Rightarrow> (correspondence_label \<times> u64 \<times> received_message) option" where
  "handed_by_push (Inr (TkRecorded peer seq message a route)) = Some (peer, seq, message)"
| "handed_by_push _ = None"

fun handed_by_ring :: "correspondence_label \<Rightarrow> flow_error + ring_step \<Rightarrow> (correspondence_label \<times> u64 \<times> received_message) option" where
  "handed_by_ring peer (Inr (RsMessage seq sent_at body oe)) = Some (peer, seq, (sent_at, body))"
| "handed_by_ring peer _ = None"

fun lane_step :: "oxi \<Rightarrow> (byte list \<Rightarrow> bool) \<Rightarrow> lane_event \<Rightarrow> dm_store \<Rightarrow> (correspondence_label \<times> u64 \<times> received_message) option \<times> dm_store" where
  "lane_step ox is_blocked (ByPush ports lookup_key subkey slot route) s =
    (case take_message ox ports is_blocked lookup_key subkey slot route s of (r, s') \<Rightarrow> (handed_by_push r, s'))"
| "lane_step ox is_blocked (ByRing peer io rio net) s =
    (case collect_step ox io rio (\<lambda>s. s) net peer s of (r, s') \<Rightarrow> (handed_by_ring peer r, s'))"

fun handed :: "oxi \<Rightarrow> (byte list \<Rightarrow> bool) \<Rightarrow> correspondence_label \<Rightarrow> lane_event list \<Rightarrow> dm_store \<Rightarrow> (u64 \<times> received_message) list \<times> dm_store" where
  "handed ox is_blocked peer [] s = ([], s)"
| "handed ox is_blocked peer (e # es) s =
    (case lane_step ox is_blocked e s of (out, s1) \<Rightarrow>
     case handed ox is_blocked peer es s1 of (rest, s2) \<Rightarrow>
       ((case out of Some (q, m) \<Rightarrow> if q = peer then m # rest else rest | None \<Rightarrow> rest), s2))"

text \<open>No other writer comes between an arrival's load and its commit, and no commit lands that is reported not durable.\<close>

fun quiet :: "lane_event \<Rightarrow> bool" where
  "quiet (ByPush ports lookup_key subkey slot route) \<longleftrightarrow>
     (\<forall>k. pp_before (ports k) = (\<lambda>s. s) \<and> pp_between (ports k) = (\<lambda>s. s) \<and> (\<forall>e. pp_io (ports k) 2 \<noteq> IoLands e))"
| "quiet (ByRing peer io rio net) \<longleftrightarrow> (\<forall>e. io 1 \<noteq> IoLands e)"

fun offers :: "lane_event \<Rightarrow> byte list set" where
  "offers (ByPush ports lookup_key subkey slot route) = {slot}"
| "offers (ByRing peer io rio net) = ran net"

text \<open>\<open>opened ox slots st ms st'\<close>: the messages \<open>ms\<close> open one after the other from \<open>st\<close> on, each from one of the \<open>slots\<close>.\<close>

fun opened :: "oxi \<Rightarrow> byte list set \<Rightarrow> conv_state \<Rightarrow> (u64 \<times> received_message) list \<Rightarrow> conv_state \<Rightarrow> bool" where
  "opened ox slots st [] st' \<longleftrightarrow> st' = st"
| "opened ox slots st ((seq, m) # ms) st' \<longleftrightarrow> (\<exists>raw h cv. raw \<in> slots \<and> seq = cs_my_collected st \<and>
     slot_opens ox st raw h cv (fst m) (snd m) \<and> opened ox slots (collected_conv st cv (h_cursor h)) ms st')"

lemma opened_mono: "opened ox slots st ms st' \<Longrightarrow> slots \<subseteq> slots' \<Longrightarrow> opened ox slots' st ms st'"
proof (induction ms arbitrary: st)
  case (Cons m ms)
  then show ?case by (cases m) (auto; blast)
qed simp

lemma opened_in_order:
  "opened ox slots st ms st' \<Longrightarrow> map fst ms = map (\<lambda>i. cs_my_collected st + word_of_nat i) [0..<length ms] \<and>
     cs_my_collected st' = cs_my_collected st + word_of_nat (length ms)"
proof (induction ms arbitrary: st)
  case (Cons m ms)
  obtain q x where m: "m = (q, x)" by (cases m)
  with Cons.prems obtain raw and h :: message_header and cv where o: "q = cs_my_collected st"
    "opened ox slots (collected_conv st cv (h_cursor h)) ms st'" by auto
  show ?case
    using Cons.IH [OF o(2)] o(1) by (simp add: m upt_conv_Cons map_Suc_upt [symmetric] algebra_simps del: upt_Suc map_Suc_upt)
qed simp

lemma store_load_keeps:
  assumes "distinct (sto_peers s)" "store_load io s = (r, s')"
  shows "distinct (sto_peers s')" "conv_of s p = Held st \<Longrightarrow> conv_of s' p = Held st"
proof -
  have "s' = s \<or> s' = snd (load_all (sto_peers s) s)" using assms(2) by (auto simp: store_load_def split: io.splits prod.splits)
  then show "distinct (sto_peers s')" "conv_of s p = Held st \<Longrightarrow> conv_of s' p = Held st"
    using assms(1) load_all_peers [of "sto_peers s" s] load_all_keeps(1) [OF assms(1)] by auto
qed

lemma route_tag_answers:
  assumes "module_answers ox"
  shows "\<exists>tag. route_tag ox key lk q route = Inr tag"
proof -
  from assms obtain prk where "hkdf_extract ox (Some DM_PUSH_ANSWER_SALT) key = Inr prk"
    unfolding module_answers_def is_ok_iff by blast
  moreover from assms obtain okm where "hkdf_expand ox prk (DM_PUSH_ROUTE @ push_lp lk @ u64_be q @ push_lp route) 32 = Inr okm"
    unfolding module_answers_def by blast
  ultimately show ?thesis by (simp add: route_tag_def ROUTE_TAG_LEN_def)
qed

lemma recorded_answers:
  assumes "module_answers ox"
  shows "\<exists>a r. recorded ox peer key lk route q m = Inr (TkRecorded peer q m a r)"
proof -
  from seeds_answer(6) [OF assms, of key lk q] obtain a where "push_answer ox key lk q = Inr a" by (auto simp: is_ok_iff)
  moreover have "\<exists>t. route_tag ox key lk q r = Inr t" for r by (rule route_tag_answers [OF assms])
  then obtain t where "\<And>r. route_tag ox key lk q r = Inr (t r)" by metis
  ultimately show ?thesis by (cases route) (simp_all add: recorded_def)
qed

lemma duplicate_not_handed: "duplicate ox peer key lk q c \<noteq> Inr (TkRecorded p n m a r)"
  by (auto simp: duplicate_def result_simps)

lemma load_conv_keeps:
  "load_conv io q s = (r, s') \<Longrightarrow> distinct (sto_peers s') = distinct (sto_peers s) \<and> (conv_of s p = Held st \<longrightarrow> conv_of s' p = Held st)"
  using calls_touch(1) [of io q s r s']
  by (auto simp: only_touches_def load_conv_def critical_section_def read_conv_def conv_of_def set_files_def
      split: io.splits stored.splits)

lemma duplicate_handed [simp]: "handed_by_push (duplicate ox peer key lk q c) = None"
  by (cases "push_answer ox key lk q") (auto simp: duplicate_def)

lemma after_step_effect:
  assumes "module_answers ox" "after_step ox io peer key lk route q step s = (r, s')"
  shows "handed_by_push r = handed_by_ring peer step \<and> distinct (sto_peers s') = distinct (sto_peers s) \<and>
    (conv_of s p = Held st \<longrightarrow> conv_of s' p = Held st)"
proof (cases "step = Inr RsEnd")
  case True
  with assms(2) load_conv_keeps [of io peer s] show ?thesis by (auto simp: after_step_def split: sum.splits prod.splits)
next
  case False
  with assms(2) recorded_answers [OF assms(1), of peer key lk route] show ?thesis
    by (cases step; cases "projr step") (auto simp: after_step_def split: if_splits, metis handed_by_push.simps(1))
qed

lemma take_once_split:
  assumes "take_message_once ox port is_blocked lk sk slot route s = (r, s')" "pp_before port = (\<lambda>s. s)" "pp_between port = (\<lambda>s. s)"
  shows "(s' = s \<or> (\<exists>l. store_load (pp_io port 0) s = (l, s'))) \<and> handed_by_push r = None \<or>
    (\<exists>l s1 peer key q step s2. store_load (pp_io port 0) s = (l, s1) \<and>
       collect_step ox (\<lambda>i. pp_io port (Suc i)) RecOk (\<lambda>s. s) (one_slot lk sk slot) peer s1 = (step, s2) \<and>
       after_step ox (pp_io port 2) peer key lk route q step s2 = (r, s'))"
  using assms by (auto simp: take_message_once_def Let_def split: if_splits sum.splits option.splits prod.splits)

lemma take_once_cases:
  assumes "module_answers ox" "distinct (sto_peers s)" "conv_of s p = Held st"
    and port: "pp_before port = (\<lambda>s. s)" "pp_between port = (\<lambda>s. s)" "\<forall>e. pp_io port 2 \<noteq> IoLands e"
    and t: "take_message_once ox port is_blocked lk sk slot route s = (r, s')"
  shows "distinct (sto_peers s') \<and>
    ((conv_of s' p = Held st \<and> (\<forall>x. handed_by_push r = Some x \<longrightarrow> fst x \<noteq> p)) \<or>
     (\<exists>h cv m. handed_by_push r = Some (p, cs_my_collected st, m) \<and> slot_opens ox st slot h cv (fst m) (snd m) \<and>
        conv_of s' p = Held (collected_conv st cv (h_cursor h))))"
  using take_once_split [OF t port(1,2)]
proof (elim disjE exE conjE)
  fix l assume "store_load (pp_io port 0) s = (l, s')" "handed_by_push r = None"
  with store_load_keeps [OF assms(2)] assms(3) show ?thesis by auto
next
  fix l s1 peer key q step s2
  assume l: "store_load (pp_io port 0) s = (l, s1)"
    and c: "collect_step ox (\<lambda>i. pp_io port (Suc i)) RecOk (\<lambda>s. s) (one_slot lk sk slot) peer s1 = (step, s2)"
    and a: "after_step ox (pp_io port 2) peer key lk route q step s2 = (r, s')"
  note k = store_load_keeps(1) [OF assms(2) l] store_load_keeps(2) [OF assms(2) l assms(3)]
  note e = after_step_effect [OF assms(1) a]
  have d: "distinct (sto_peers s')" using collect_step_only_touches [OF c] k(1) e by (simp add: only_touches_def)
  show ?thesis
  proof (cases "peer = p")
    case False
    then have "conv_of s2 p = Held st" using only_touches_conv [OF collect_step_only_touches [OF c]] k(2) by simp
    moreover have "fst x \<noteq> p" if "handed_by_push r = Some x" for x
      using that False e by (cases step; cases "projr step") auto
    ultimately show ?thesis using e d by blast
  next
    case True
    have "\<forall>e. (\<lambda>i. pp_io port (Suc i)) 1 \<noteq> IoLands e" using port(3) by (simp add: numeral_2_eq_2)
    with c have "collect_step ox (\<lambda>i. pp_io port (Suc i)) RecOk (\<lambda>s. s) (one_slot lk sk slot) p s1 = (step, s2)"
      "\<forall>e. pp_io port (Suc 1) \<noteq> IoLands e" by (simp_all add: True)
    with k(2) show ?thesis
    proof (cases rule: collect_step_cases)
      case stays
      then have "handed_by_push r = None" using e by (cases step; cases "projr step") auto
      with stays(1) d e show ?thesis by simp
    next
      case (takes raw hh cv t b oe)
      then have "raw = slot" by (simp add: one_slot_def split: if_splits)
      with takes e True d show ?thesis by fastforce
    qed
  qed
qed (use assms(2,3) in simp)

definition moves_on :: "oxi \<Rightarrow> byte list set \<Rightarrow> correspondence_label \<Rightarrow> conv_state \<Rightarrow> dm_store \<Rightarrow> (correspondence_label \<times> u64 \<times> received_message) option \<Rightarrow> bool" where
  "moves_on ox slots p st s' out \<longleftrightarrow> distinct (sto_peers s') \<and>
    ((conv_of s' p = Held st \<and> (\<forall>x. out = Some x \<longrightarrow> fst x \<noteq> p)) \<or>
     (\<exists>raw h cv m. raw \<in> slots \<and> out = Some (p, cs_my_collected st, m) \<and> slot_opens ox st raw h cv (fst m) (snd m) \<and>
        conv_of s' p = Held (collected_conv st cv (h_cursor h))))"

lemma take_from_moves_on:
  assumes "module_answers ox" "quiet (ByPush ports lk sk slot route)"
  shows "distinct (sto_peers s) \<Longrightarrow> conv_of s p = Held st \<Longrightarrow> take_from ox ports is_blocked lk sk slot route n s = (r, s') \<Longrightarrow>
    moves_on ox {slot} p st s' (handed_by_push r)"
proof (induction "TAKE_ATTEMPTS - n" arbitrary: n s rule: less_induct)
  case less
  obtain r1 s1 where o: "take_message_once ox (ports n) is_blocked lk sk slot route s = (r1, s1)" by fastforce
  have m: "moves_on ox {slot} p st s1 (handed_by_push r1)"
    unfolding moves_on_def using take_once_cases [OF assms(1) less.prems(1,2) _ _ _ o] assms(2) by auto
  note t = less.prems(3) [unfolded take_from.simps [of ox ports is_blocked lk sk slot route n s] o]
  show ?case
  proof (cases "r1 = Inl Conflict \<and> n < TAKE_ATTEMPTS")
    case True
    with t have "take_from ox ports is_blocked lk sk slot route (n + 1) s1 = (r, s')" by simp
    with True m less.hyps [of "n + 1" s1] show ?thesis by (auto simp: moves_on_def)
  next
    case False
    with t have "r = r1 \<and> s' = s1" by (auto split: sum.splits flow_error.splits if_splits)
    with m show ?thesis by simp
  qed
qed

lemma lane_step_moves_on:
  assumes "module_answers ox" "quiet e" "distinct (sto_peers s)" "conv_of s p = Held st" "lane_step ox is_blocked e s = (out, s')"
  shows "moves_on ox (offers e) p st s' out"
proof (cases e)
  case (ByPush ports lk sk slot route)
  with assms(5) take_from_moves_on [OF assms(1) assms(2) [unfolded ByPush] assms(3,4), of is_blocked 1] show ?thesis
    by (auto simp: take_message_def split: prod.splits)
next
  case (ByRing peer io rio net)
  with assms(5) obtain r where c: "collect_step ox io rio (\<lambda>s. s) net peer s = (r, s')" "out = handed_by_ring peer r" by (auto split: prod.splits)
  have d: "distinct (sto_peers s')" using collect_step_only_touches [OF c(1)] assms(3) by (simp add: only_touches_def)
  show ?thesis
  proof (cases "peer = p")
    case False
    then have "conv_of s' p = Held st" using only_touches_conv [OF collect_step_only_touches [OF c(1)]] assms(4) by simp
    moreover have "fst x \<noteq> p" if "out = Some x" for x using that False c(2) by (cases r; cases "projr r") auto
    ultimately show ?thesis using d by (simp add: moves_on_def)
  next
    case True
    from assms(2) ByRing have "\<forall>e. io 1 \<noteq> IoLands e" by simp
    from assms(4) c(1) [unfolded True] this show ?thesis
    proof (cases rule: collect_step_cases)
      case stays
      then have "out = None" using c(2) by (cases r; cases "projr r") auto
      with stays(1) d show ?thesis by (simp add: moves_on_def)
    next
      case (takes raw hh cv t b oe)
      then have "raw \<in> offers e" using ByRing by (simp add: ranI)
      with takes c(2) True d show ?thesis unfolding moves_on_def by fastforce
    qed
  qed
qed

lemma handed_moves_on:
  assumes "module_answers ox"
  shows "\<forall>e \<in> set es. quiet e \<Longrightarrow> distinct (sto_peers s) \<Longrightarrow> conv_of s p = Held st \<Longrightarrow> handed ox is_blocked p es s = (ms, s') \<Longrightarrow>
    \<exists>st'. conv_of s' p = Held st' \<and> opened ox (\<Union>e \<in> set es. offers e) st ms st'"
proof (induction es arbitrary: s st ms)
  case (Cons e es)
  obtain out s1 where l: "lane_step ox is_blocked e s = (out, s1)" by fastforce
  obtain rest where h: "handed ox is_blocked p es s1 = (rest, s')" and ms: "ms = (case out of Some (q, m) \<Rightarrow> if q = p then m # rest else rest | None \<Rightarrow> rest)"
    using Cons.prems(4) l by (auto split: prod.splits)
  from lane_step_moves_on [OF assms _ Cons.prems(2,3) l] Cons.prems(1) have m: "moves_on ox (offers e) p st s1 out" by simp
  then have d: "distinct (sto_peers s1)" by (simp add: moves_on_def)
  have q: "\<forall>e \<in> set es. quiet e" using Cons.prems(1) by simp
  note IH = Cons.IH [OF q d _ h]
  from m consider (stays) "conv_of s1 p = Held st" "\<forall>x. out = Some x \<longrightarrow> fst x \<noteq> p"
    | (takes) raw h cv x where "raw \<in> offers e" "out = Some (p, cs_my_collected st, x)" "slot_opens ox st raw h cv (fst x) (snd x)"
        "conv_of s1 p = Held (collected_conv st cv (h_cursor h))" by (auto simp: moves_on_def)
  then show ?case
  proof cases
    case stays
    then have "ms = rest" using ms by (auto split: option.splits)
    with IH [OF stays(1)] show ?thesis using opened_mono by fastforce
  next
    case takes
    from IH [OF takes(4)] obtain st' where s': "conv_of s' p = Held st'"
      "opened ox (\<Union>e \<in> set es. offers e) (collected_conv st cv (h_cursor h)) rest st'" by blast
    have "ms = (cs_my_collected st, x) # rest" using ms takes(2) by simp
    moreover have "opened ox (\<Union>e \<in> set (e # es). offers e) (collected_conv st cv (h_cursor h)) rest st'" using opened_mono [OF s'(2)] by fastforce
    ultimately show ?thesis using s'(1) takes(1,3) by auto
  qed
qed simp


section \<open>A push that is answered\<close>

definition hears :: "byte list \<Rightarrow> correspondence_label \<Rightarrow> conv_state \<Rightarrow> dm_store \<Rightarrow> bool" where
  "hears lk p st s \<longleftrightarrow> distinct (sto_peers s) \<and> p \<in> set (sto_peers s) \<and> conv_of s p = Held st \<and> cs_incoming_lookup_key st = lk \<and>
     (\<forall>q st2. q \<noteq> p \<longrightarrow> conv_of s q = Held st2 \<longrightarrow> cs_incoming_lookup_key st2 \<noteq> lk)"

definition established :: "(byte list \<Rightarrow> bool) \<Rightarrow> conv_state \<Rightarrow> byte list \<Rightarrow> bool" where
  "established is_blocked st key \<longleftrightarrow> \<not> is_blocked (cs_peer_identity_pk st) \<and> \<not> cs_delete_pending st \<and> \<not> cs_awaiting_acceptance st \<and>
     \<not> cs_acceptance_pending st \<and> cs_peer_control_key st = Some key"

lemma load_one_of_held: "f_conv fs = Held st \<Longrightarrow> \<exists>c. fst (load_one q fs) = Some c \<and> lc_peer c = q \<and> lc_state c = st"
  by (auto simp: load_one_def read_conv_def Let_def split: prod.splits)

lemma load_one_keeps: "f_conv (snd (load_one q fs)) = Held st \<longleftrightarrow> f_conv fs = Held st"
  by (cases "f_conv fs") (auto simp: load_one_def read_conv_def read_outbox_table_def Let_def split: prod.splits)

lemma hears_loads:
  assumes "hears lk p st s"
  shows "\<exists>lc s1. store_load IoOk s = (Inr (fst (load_all (sto_peers s) s)), s1) \<and> hears lk p st s1 \<and>
    List.find (\<lambda>lc. cs_incoming_lookup_key (lc_state lc) = lk) (fst (load_all (sto_peers s) s)) = Some lc \<and> lc_peer lc = p \<and> lc_state lc = st"
proof -
  have d: "distinct (sto_peers s)" "p \<in> set (sto_peers s)" "conv_of s p = Held st" "cs_incoming_lookup_key st = lk"
    using assms by (simp_all add: hears_def)
  note f = load_all_files [OF d(1)]
  obtain c where c: "fst (load_one p (sto_files s p)) = Some c" "lc_peer c = p" "lc_state c = st"
    using d(3) load_one_of_held unfolding conv_of_def by blast
  have no: "cs_incoming_lookup_key (lc_state x) \<noteq> lk" if "q \<noteq> p" "fst (load_one q (sto_files s q)) = Some x" for q x
    using that assms load_one_identity [OF that(2)] by (auto simp: hears_def conv_of_def)
  have "List.find (\<lambda>lc. cs_incoming_lookup_key (lc_state lc) = lk) (fst (load_all (sto_peers s) s)) = Some c"
    unfolding f [THEN conjunct1] using c d(4) no by (intro find_unique [OF d(1,2)]) auto
  moreover have "hears lk p st (snd (load_all (sto_peers s) s))"
    using assms load_all_peers [of "sto_peers s" s] by (auto simp: hears_def conv_of_def f load_one_keeps split: if_splits)
  ultimately show ?thesis using c by (auto simp: store_load_def split: prod.splits)
qed

text \<open>With the store answering, a push of a conversation's next slot comes to the step over it, an older one to its duplicate.\<close>

lemma take_once_heard:
  assumes "hears lk p st s" "established is_blocked st key" "lk \<noteq> replicate HELLO_LOOKUP_KEY_LEN 0" "header_decode slot = Inr (h, sealed)"
    and "pp_before port = (\<lambda>s. s)" "pp_between port = (\<lambda>s. s)" "\<forall>i. pp_io port i = IoOk"
  shows "\<exists>s1. hears lk p st s1 \<and>
    (h_seq h < cs_my_collected st \<longrightarrow> take_message_once ox port is_blocked lk sk slot route s =
       (duplicate ox p key lk (h_seq h) (cs_my_collected st), s1)) \<and>
    (h_seq h = cs_my_collected st \<and> sk = slot_for (h_seq h) \<longrightarrow> take_message_once ox port is_blocked lk sk slot route s =
       (case collect_step ox (\<lambda>_. IoOk) RecOk (\<lambda>s. s) (one_slot lk sk slot) p s1 of
          (step, s2) \<Rightarrow> after_step ox IoOk p key lk route (h_seq h) step s2))"
proof -
  from hears_loads [OF assms(1)] obtain lc s1 where l: "store_load IoOk s = (Inr (fst (load_all (sto_peers s) s)), s1)" "hears lk p st s1"
    "List.find (\<lambda>lc. cs_incoming_lookup_key (lc_state lc) = lk) (fst (load_all (sto_peers s) s)) = Some lc" "lc_peer lc = p" "lc_state lc = st" by blast
  have e: "\<not> is_blocked (cs_peer_identity_pk st)" "\<not> cs_delete_pending st" "\<not> cs_awaiting_acceptance st"
    "\<not> cs_acceptance_pending st" "cs_peer_control_key st = Some key" using assms(2) by (simp_all add: established_def)
  show ?thesis
    using l(2) by (intro exI [of _ s1]) (simp add: take_message_once_def assms(3-7) l(1,3-5) e)
qed

lemma word_less_succ: "x \<noteq> - 1 \<Longrightarrow> x < x + (1 :: u64)"
  by (simp add: word_unat_eq_iff unat_minus_one word_less_nat_alt unat_word_ariths) (use unat_less_exp [of x] in auto)

lemma take_message_first:
  "take_message_once ox (ports 1) is_blocked lk sk slot route s = (r, s') \<Longrightarrow> r \<noteq> Inl Conflict \<Longrightarrow>
   take_message ox ports is_blocked lk sk slot route s = (r, s')"
  unfolding take_message_def by (subst take_from.simps) (auto split: sum.splits flow_error.splits)

lemma pushed_is_recorded:
  assumes "module_answers ox" "hears lk p st s" "established is_blocked st key" "lk \<noteq> replicate HELLO_LOOKUP_KEY_LEN 0"
    and "cs_peer_collected st \<le> cs_send_seq st" "slot_opens ox st slot h cv t b"
    and port: "pp_before port = (\<lambda>s. s)" "pp_between port = (\<lambda>s. s)" "\<forall>i. pp_io port i = IoOk"
  shows "\<exists>a rt s1. take_message_once ox port is_blocked lk (slot_for (cs_my_collected st)) slot route s =
      (Inr (TkRecorded p (cs_my_collected st) (t, b) a rt), s1) \<and> push_answer ox key lk (cs_my_collected st) = Inr a \<and>
    hears lk p (collected_conv st cv (h_cursor h)) s1"
proof -
  let ?st' = "collected_conv st cv (h_cursor h)" and ?net = "one_slot lk (slot_for (cs_my_collected st)) slot"
  obtain sealed where hd: "header_decode slot = Inr (h, sealed)" "h_seq h = cs_my_collected st" using assms(6) by (auto simp: slot_opens_def)
  from take_once_heard [OF assms(2,3,4) hd(1) port] hd(2) obtain s0 where s0: "hears lk p st s0"
    "take_message_once ox port is_blocked lk (slot_for (cs_my_collected st)) slot route s =
       (case collect_step ox (\<lambda>_. IoOk) RecOk (\<lambda>s. s) ?net p s0 of
          (step, s2) \<Rightarrow> after_step ox IoOk p key lk route (cs_my_collected st) step s2)" by metis
  have held: "conv_of s0 p = Held st" "cs_incoming_lookup_key st = lk" using s0(1) by (simp_all add: hears_def)
  obtain step s1 where c: "collect_step ox (\<lambda>_. IoOk) RecOk (\<lambda>s. s) ?net p s0 = (step, s1)" by fastforce
  obtain oe where step: "step = Inr (RsMessage (cs_my_collected st) t b oe)"
    using collect_step_takes [OF held(1) _ _ _ _ _ assms(5) _ assms(6), of "\<lambda>_. IoOk" RecOk ?net]
      assms(3) c held(2) by (auto simp: established_def one_slot_def)
  have io: "\<forall>e. IoOk \<noteq> IoLands e" by simp
  have s1: "conv_of s1 p = Held ?st'"
    using held(1) c io
  proof (cases rule: collect_step_cases)
    case (takes raw hh cv2 t2 b2 oe2)
    then have "raw = slot" by (simp add: one_slot_def split: if_splits)
    with takes(2) assms(6) have "hh = h \<and> cv2 = cv" by (auto simp: slot_opens_def)
    with takes(4) show ?thesis by simp
  qed (use step in auto)
  have "hears lk p ?st' s1"
    using s0(1) s1 collect_step_only_touches [OF c] by (auto simp: hears_def only_touches_def conv_of_def)
  moreover obtain a rt where r: "recorded ox p key lk route (cs_my_collected st) (t, b) = Inr (TkRecorded p (cs_my_collected st) (t, b) a rt)"
    using recorded_answers [OF assms(1)] by blast
  moreover from r have "push_answer ox key lk (cs_my_collected st) = Inr a" by (auto simp: recorded_def result_simps)
  ultimately show ?thesis using s0(2) c step by (auto simp: after_step_def)
qed

text \<open>
  C11. A push that opens is recorded and answered, and pushed again it is answered the same. Where the store and the
  module answer, a slot of an established conversation that opens as its next message is recorded and handed over
  with the answer its sender waits for; if that answer is lost and the sender pushes the slot again, at whatever
  subkey and with whatever route, nothing changes and the answer is the same.
\<close>

theorem pushed_message_is_answered_again:
  assumes "module_answers ox" "hears lk p st s" "established is_blocked st key" "lk \<noteq> replicate HELLO_LOOKUP_KEY_LEN 0"
    and "cs_peer_collected st \<le> cs_send_seq st" "cs_my_collected st \<noteq> - 1" "slot_opens ox st slot h cv t b"
    and "\<forall>k i. pp_before (ports k) = (\<lambda>s. s) \<and> pp_between (ports k) = (\<lambda>s. s) \<and> pp_io (ports k) i = IoOk"
  shows "\<exists>a rt s1 s2. take_message ox ports is_blocked lk (slot_for (cs_my_collected st)) slot route s =
      (Inr (TkRecorded p (cs_my_collected st) (t, b) a rt), s1) \<and>
    take_message ox ports is_blocked lk sk slot route2 s1 = (Inr (TkDuplicate p (Some a)), s2) \<and>
    conv_of s1 p = Held (collected_conv st cv (h_cursor h)) \<and> conv_of s2 p = conv_of s1 p"
proof -
  let ?st' = "collected_conv st cv (h_cursor h)"
  have port: "pp_before (ports 1) = (\<lambda>s. s)" "pp_between (ports 1) = (\<lambda>s. s)" "\<forall>i. pp_io (ports 1) i = IoOk" using assms(8) by simp_all
  obtain sealed where hd: "header_decode slot = Inr (h, sealed)" "h_seq h = cs_my_collected st" using assms(7) by (auto simp: slot_opens_def)
  from pushed_is_recorded [OF assms(1-5,7) port] obtain a rt s1 where
    r: "take_message_once ox (ports 1) is_blocked lk (slot_for (cs_my_collected st)) slot route s =
      (Inr (TkRecorded p (cs_my_collected st) (t, b) a rt), s1)"
    and a: "push_answer ox key lk (cs_my_collected st) = Inr a" and h1: "hears lk p ?st' s1" by blast
  have e1: "established is_blocked ?st' key" using assms(3) by (simp add: established_def collected_conv_def)
  have lt: "h_seq h < cs_my_collected ?st'" using word_less_succ [OF assms(6)] hd(2) by simp
  from take_once_heard [OF h1 e1 assms(4) hd(1) port, of ox sk route2] lt hd(2) obtain s2 where s2: "hears lk p ?st' s2"
    "take_message_once ox (ports 1) is_blocked lk sk slot route2 s1 = (duplicate ox p key lk (cs_my_collected st) (cs_my_collected ?st'), s2)" by metis
  have "take_message ox ports is_blocked lk sk slot route2 s1 = (Inr (TkDuplicate p (Some a)), s2)"
    using s2(2) a assms(6) by (intro take_message_first) (simp_all add: duplicate_def)
  moreover have "conv_of s2 p = conv_of s1 p" "conv_of s1 p = Held ?st'" using s2(1) h1 by (simp_all add: hears_def)
  moreover have "take_message ox ports is_blocked lk (slot_for (cs_my_collected st)) slot route s =
      (Inr (TkRecorded p (cs_my_collected st) (t, b) a rt), s1)" by (rule take_message_first) (use r in simp_all)
  ultimately show ?thesis by blast
qed

section \<open>A concrete conversation\<close>

definition demo_listener :: conv_state where
  "demo_listener = demo_conv\<lparr>cs_conversation := snapshot \<lparr>cv_sending = fresh_direction [1] None,
     cv_receiving = (fresh_receiving [1] (Some (replicate 32 2)))\<lparr>v_next_seq := 4\<rparr>\<rparr>\<rparr>"

definition demo_listening :: dm_store where
  "demo_listening = \<lparr>sto_peers = [[9]], sto_files = (\<lambda>_. no_files)([9] := no_files\<lparr>f_conv := Held demo_listener\<rparr>)\<rparr>"

definition demo_push_port :: push_port where
  "demo_push_port = \<lparr>pp_io = (\<lambda>_. IoOk), pp_before = (\<lambda>s. s), pp_between = (\<lambda>s. s)\<rparr>"

lemma demo_module_answers: "module_answers demo_oxi"
  by (simp add: module_answers_def oxi_defs demo_oxi_def gcm_nonce_def crypto_lens)

lemma demo_slot_opens: "\<exists>slot h cv. slot_opens demo_oxi demo_listener slot h cv 1000 [104]"
proof -
  let ?r = "(fresh_receiving [1] (Some (replicate 32 2)))\<lparr>v_next_seq := 4\<rparr>" and ?h = "continuing 0 0 0 4 0"
  let ?cv = "\<lparr>cv_sending = fresh_direction [1] None, cv_receiving = ?r\<rparr>"
  obtain mk next_chain where c: "chain_step demo_oxi (replicate 32 2) = Inr (mk, next_chain)"
    by (auto simp: chain_step_def oxi_defs demo_oxi_def MESSAGE_KEY_LEN_def CHAIN_KEY_LEN_def)
  obtain sealed where s: "seal_under demo_oxi (Some (replicate 12 0)) mk (message_aad ?h) (plaintext_of (1000, [104])) = Inr sealed"
    by (auto simp: seal_under_def seal_envelope_def oxi_defs demo_oxi_def gcm_nonce_def)
  have o: "open_under demo_oxi mk (message_aad ?h) sealed = Inr (plaintext_of (1000, [104]))"
    by (rule open_seal_under [OF demo_gcm_law s])
  have "\<exists>cv. conversation_open demo_oxi ?h sealed ?cv = (Inr (plaintext_of (1000, [104])), cv)" (is "\<exists>cv. ?opens cv")
    by (simp add: conversation_open_def receiving_open_def read_material_def continuing_def fresh_receiving_def c)
       (simp add: o [unfolded continuing_def])
  then obtain cv where "?opens cv" by blast
  moreover have "header_decode (header_encode ?h @ sealed) = Inr (?h, sealed)"
    by (rule header_codec.dec_enc) (simp add: header_wf_def continuing_def)
  moreover have "h_seq ?h = 4" by (simp add: continuing_def)
  moreover have "restore (cs_conversation demo_listener) = ?cv" "cs_my_collected demo_listener = 4"
    by (simp_all add: demo_listener_def restore_snapshot demo_conv_def)
  ultimately show ?thesis
    unfolding slot_opens_def using decode_plaintext_of [of "(1000, [104])"] by metis
qed


theorem pushed_message_is_answered_again_witness:
  "\<exists>slot a rt s1 s2. take_message demo_oxi (\<lambda>_. demo_push_port) (\<lambda>_. False) (replicate 32 3) (slot_for 4) slot None demo_listening =
      (Inr (TkRecorded [9] 4 (1000, [104]) a rt), s1) \<and>
    take_message demo_oxi (\<lambda>_. demo_push_port) (\<lambda>_. False) (replicate 32 3) (slot_for 4) slot None s1 = (Inr (TkDuplicate [9] (Some a)), s2)"
proof -
  from demo_slot_opens obtain slot h cv where o: "slot_opens demo_oxi demo_listener slot h cv 1000 [104]" by blast
  have "hears (replicate 32 3) [9] demo_listener demo_listening" "established (\<lambda>_. False) demo_listener (replicate 32 7)"
    "replicate 32 3 \<noteq> replicate HELLO_LOOKUP_KEY_LEN (0 :: byte)" "cs_peer_collected demo_listener \<le> cs_send_seq demo_listener"
    "cs_my_collected demo_listener \<noteq> - 1" "cs_my_collected demo_listener = 4"
    "\<forall>k i. pp_before ((\<lambda>_ :: nat. demo_push_port) k) = (\<lambda>s. s) \<and> pp_between ((\<lambda>_ :: nat. demo_push_port) k) = (\<lambda>s. s) \<and>
       pp_io ((\<lambda>_ :: nat. demo_push_port) k) i = IoOk"
    by (auto simp: hears_def established_def demo_listening_def demo_listener_def demo_conv_def conv_of_def no_files_def
        demo_push_port_def HELLO_LOOKUP_KEY_LEN_def split: if_splits)
  with pushed_message_is_answered_again [OF demo_module_answers this(1-5) o this(7), of None "slot_for 4" None] show ?thesis by metis
qed

end
