(* ===== verification/Contacts.thy ===== *)
theory Contacts
  imports Store Presence Room_Messages
begin

text \<open>
  What a profile keeps of people beside their conversations: the block list (\<open>dm/block_list.rs\<close>), the contact cache
  (\<open>dm/contact_cache.rs\<close>), and what the outbox of a conversation says of its deliveries (\<open>dm/delivery.rs\<close>). Timestamps
  are the \<open>i64\<close> of the code as integers; a set of keys kept in order (\<open>BTreeSet\<close>) is its ascending list.
\<close>

section \<open>The block list\<close>

type_synonym block_list = "byte list list"

definition BLOCK_LIST_MAX_ENTRIES :: nat where "BLOCK_LIST_MAX_ENTRIES = 512"

datatype block_list_error = BlFull nat | NotWholeKeys nat | NotAscending

definition is_blocked :: "byte list \<Rightarrow> block_list \<Rightarrow> bool" where
  "is_blocked pk_lt bl \<longleftrightarrow> pk_lt \<in> set bl"

definition block :: "byte list \<Rightarrow> block_list \<Rightarrow> bool \<times> block_list" where
  "block pk_lt bl = (if pk_lt \<in> set bl then (False, bl) else (True, insort pk_lt bl))"

definition unblock :: "byte list \<Rightarrow> block_list \<Rightarrow> bool \<times> block_list" where
  "unblock pk_lt bl = (pk_lt \<in> set bl, remove1 pk_lt bl)"

definition suppresses_channel :: "byte list \<Rightarrow> block_list \<Rightarrow> bool" where
  "suppresses_channel pk_lt bl = is_blocked pk_lt bl"

definition encode_blocked :: "block_list \<Rightarrow> block_list_error + byte list" where
  "encode_blocked bl = (if length bl > BLOCK_LIST_MAX_ENTRIES then Inl (BlFull (length bl)) else Inr (concat bl))"

text \<open>\<open>as_chunks\<close>: the \<open>k\<close> chunks of \<open>n\<close> bytes.\<close>

fun chunks :: "nat \<Rightarrow> nat \<Rightarrow> byte list \<Rightarrow> byte list list" where
  "chunks n 0 bs = []"
| "chunks n (Suc k) bs = take n bs # chunks n k (drop n bs)"

fun read_keys :: "byte list option \<Rightarrow> byte list list \<Rightarrow> block_list \<Rightarrow> block_list_error + block_list" where
  "read_keys previous [] blocked = Inr blocked"
| "read_keys previous (chunk # rest) blocked =
    (if (case previous of Some prev \<Rightarrow> chunk \<le> prev | None \<Rightarrow> False) then Inl NotAscending
     else read_keys (Some chunk) rest (if chunk \<in> set blocked then blocked else insort chunk blocked))"

definition decode_blocked :: "byte list \<Rightarrow> block_list_error + block_list" where
  "decode_blocked bs =
    (if length bs mod DSA_PK_LEN \<noteq> 0 then Inl (NotWholeKeys (length bs))
     else let count = length bs div DSA_PK_LEN
       in if count > BLOCK_LIST_MAX_ENTRIES then Inl (BlFull count) else read_keys None (chunks DSA_PK_LEN count bs) [])"

definition block_list_ok :: "block_list \<Rightarrow> bool" where
  "block_list_ok bl \<longleftrightarrow> sorted_wrt (<) bl \<and> (\<forall>k \<in> set bl. length k = DSA_PK_LEN)"

lemma ascending_insort: "sorted_wrt (<) xs \<Longrightarrow> x \<notin> set xs \<Longrightarrow> sorted_wrt (<) (insort x xs)"
  by (simp add: strict_sorted_iff sorted_insort distinct_insort)

lemma block_ok: "block_list_ok bl \<Longrightarrow> length k = DSA_PK_LEN \<Longrightarrow> block_list_ok (snd (block k bl)) \<and> set (snd (block k bl)) = insert k (set bl)"
  by (auto simp: block_def block_list_ok_def ascending_insort set_insort_key)

lemma unblock_ok: "block_list_ok bl \<Longrightarrow> block_list_ok (snd (unblock k bl)) \<and> set (snd (unblock k bl)) = set bl - {k}"
  by (auto simp: unblock_def block_list_ok_def strict_sorted_iff sorted_remove1 dest: set_remove1_subset [THEN subsetD])

lemma chunks_concat: "\<forall>k \<in> set ks. length k = n \<Longrightarrow> chunks n (length ks) (concat ks) = ks"
  by (induction ks) auto

lemma concat_chunks: "length bs = k * n \<Longrightarrow> concat (chunks n k bs) = bs \<and> (\<forall>c \<in> set (chunks n k bs). length c = n) \<and> length (chunks n k bs) = k"
proof (induction k arbitrary: bs)
  case (Suc k)
  from Suc.IH [of "drop n bs"] Suc.prems show ?case by auto
qed simp

lemma length_concat_fixed: "\<forall>k \<in> set ks. length k = n \<Longrightarrow> length (concat ks) = length ks * n"
  by (induction ks) auto

lemma le_last: "sorted_wrt (<) xs \<Longrightarrow> x \<in> set xs \<Longrightarrow> x \<le> last (xs :: 'a :: linorder list)"
  by (induction xs) (auto intro: less_imp_le)

lemma insort_last: "\<forall>x \<in> set xs. x < k \<Longrightarrow> insort k xs = xs @ [k :: 'a :: linorder]"
  by (induction xs) (auto simp: not_le [symmetric])

lemma read_keys_iff:
  "sorted_wrt (<) seen \<Longrightarrow> previous = (if seen = [] then None else Some (last seen)) \<Longrightarrow>
   read_keys previous ks seen = (if sorted_wrt (<) (seen @ ks) then Inr (seen @ ks) else Inl NotAscending)"
proof (induction ks arbitrary: previous seen)
  case (Cons k ks)
  note less = le_last [OF Cons.prems(1)]
  show ?case
  proof (cases "seen \<noteq> [] \<and> k \<le> last seen")
    case True
    then have "\<not> sorted_wrt (<) (seen @ k # ks)" using last_in_set [of seen] by (auto simp: sorted_wrt_append not_less [symmetric])
    with True Cons.prems(2) show ?thesis by simp
  next
    case False
    then have l: "\<forall>x \<in> set seen. x < k" using less by fastforce
    then have "sorted_wrt (<) (seen @ [k])" using Cons.prems(1) by (simp add: sorted_wrt_append)
    from Cons.IH [OF this, of "Some k"] False l Cons.prems(2) show ?thesis by (auto simp: insort_last)
  qed
qed simp

lemma decode_blocked_iff: "decode_blocked bs = Inr bl \<longleftrightarrow> block_list_ok bl \<and> encode_blocked bl = Inr bs"
proof
  assume d: "decode_blocked bs = Inr bl"
  define k where "k = length bs div DSA_PK_LEN"
  from d have l: "length bs = k * DSA_PK_LEN" "k \<le> BLOCK_LIST_MAX_ENTRIES" "read_keys None (chunks DSA_PK_LEN k bs) [] = Inr bl"
    by (auto simp: decode_blocked_def k_def Let_def crypto_lens split: if_splits)
  with concat_chunks [OF l(1)] show "block_list_ok bl \<and> encode_blocked bl = Inr bs"
    by (auto simp: read_keys_iff block_list_ok_def encode_blocked_def split: if_splits)
next
  assume e: "block_list_ok bl \<and> encode_blocked bl = Inr bs"
  then have "bs = concat bl" "length bl \<le> BLOCK_LIST_MAX_ENTRIES" by (auto simp: encode_blocked_def split: if_splits)
  moreover from e have "length (concat bl) = length bl * DSA_PK_LEN" by (simp add: block_list_ok_def length_concat_fixed)
  ultimately show "decode_blocked bs = Inr bl"
    using e chunks_concat [of bl DSA_PK_LEN] by (auto simp: decode_blocked_def block_list_ok_def read_keys_iff crypto_lens)
qed

section \<open>The stored list (\<open>dm/runner.rs\<close>)\<close>

text \<open>The profile's record of the list: its bytes, \<open>None\<close> where it was never written. A critical section goes as its \<open>io\<close> says.\<close>

type_synonym block_file = "byte list option"

datatype block_list_failure = BfStore | BfFull

definition block_section :: "io \<Rightarrow> (block_file \<Rightarrow> (block_list_failure + 'a) \<times> block_file) \<Rightarrow> block_file \<Rightarrow> (block_list_failure + 'a) \<times> block_file" where
  "block_section io body disk =
    (case io of
       IoFails e \<Rightarrow> (Inl BfStore, disk)
     | IoOk \<Rightarrow> body disk
     | IoLands e \<Rightarrow> (case body disk of (Inl d, disk') \<Rightarrow> (Inl d, disk') | (Inr a, disk') \<Rightarrow> (Inl BfStore, disk')))"

definition decode_stored_block_list :: "byte list \<Rightarrow> block_list_failure + block_list" where
  "decode_stored_block_list bs = map_err (\<lambda>_. BfStore) (decode_blocked bs)"

definition read_block_list :: "block_file \<Rightarrow> block_list option" where
  "read_block_list disk = Option.bind disk (\<lambda>bs. case decode_stored_block_list bs of Inl _ \<Rightarrow> None | Inr bl \<Rightarrow> Some bl)"

definition update_block_list :: "io \<Rightarrow> (block_list \<Rightarrow> block_list) \<Rightarrow> block_file \<Rightarrow> (block_list_failure + block_list) \<times> block_file" where
  "update_block_list io change = block_section io (\<lambda>disk.
     case disk of None \<Rightarrow> (Inl BfStore, disk)
     | Some bs \<Rightarrow> (case decode_stored_block_list bs of Inl e \<Rightarrow> (Inl e, disk)
       | Inr list \<Rightarrow> (case encode_blocked (change list) of Inl _ \<Rightarrow> (Inl BfFull, disk)
         | Inr encoded \<Rightarrow> (Inr (change list), Some encoded))))"

definition provision_block_list :: "io \<Rightarrow> block_file \<Rightarrow> (block_list_failure + block_list) \<times> block_file" where
  "provision_block_list io = block_section io (\<lambda>disk.
     case disk of Some bs \<Rightarrow> (decode_stored_block_list bs, disk)
     | None \<Rightarrow> (case encode_blocked [] of Inl _ \<Rightarrow> (Inl BfFull, disk) | Inr encoded \<Rightarrow> (Inr [], Some encoded)))"

datatype block_event = BlockUser io "byte list" | UnblockUser io "byte list" | Launch io

fun block_step :: "block_event \<Rightarrow> block_file \<Rightarrow> block_file" where
  "block_step (BlockUser io k) disk = snd (update_block_list io (\<lambda>bl. snd (block k bl)) disk)"
| "block_step (UnblockUser io k) disk = snd (update_block_list io (\<lambda>bl. snd (unblock k bl)) disk)"
| "block_step (Launch io) disk = snd (provision_block_list io disk)"

text \<open>The reference: the set of blocked identities, or none before the first launch. A block over the maximum is refused.\<close>

definition fails :: "io \<Rightarrow> bool" where
  "fails io \<longleftrightarrow> (\<exists>e. io = IoFails e)"

fun blocked_after :: "block_event \<Rightarrow> byte list set option \<Rightarrow> byte list set option" where
  "blocked_after (BlockUser io k) (Some S) =
     (if fails io \<or> (k \<notin> S \<and> card S = BLOCK_LIST_MAX_ENTRIES) then Some S else Some (insert k S))"
| "blocked_after (UnblockUser io k) (Some S) = (if fails io then Some S else Some (S - {k}))"
| "blocked_after (Launch io) None = (if fails io then None else Some {})"
| "blocked_after _ S = S"

fun names_identity :: "block_event \<Rightarrow> bool" where
  "names_identity (BlockUser io k) \<longleftrightarrow> length k = DSA_PK_LEN"
| "names_identity _ \<longleftrightarrow> True"

definition stores :: "block_file \<Rightarrow> byte list set option \<Rightarrow> bool" where
  "stores disk S \<longleftrightarrow> (case disk of None \<Rightarrow> S = None
     | Some bs \<Rightarrow> \<exists>bl. S = Some (set bl) \<and> block_list_ok bl \<and> encode_blocked bl = Inr bs)"

lemma update_stores:
  assumes "stores disk S" "\<And>bl. block_list_ok bl \<Longrightarrow> block_list_ok (change bl) \<and> set (change bl) = f (set bl)"
  shows "stores (snd (update_block_list io change disk))
    (case S of None \<Rightarrow> None | Some B \<Rightarrow> if fails io \<or> card (f B) > BLOCK_LIST_MAX_ENTRIES then Some B else Some (f B))"
proof (cases disk)
  case None
  with assms(1) show ?thesis by (cases io) (auto simp: stores_def update_block_list_def block_section_def)
next
  case (Some bs)
  with assms(1) obtain bl where bl: "S = Some (set bl)" "block_list_ok bl" "encode_blocked bl = Inr bs" by (auto simp: stores_def)
  then have d: "decode_stored_block_list bs = Inr bl" using decode_blocked_iff [of bs bl] by (simp add: decode_stored_block_list_def)
  note c = assms(2) [OF bl(2)]
  then have card: "card (f (set bl)) = length (change bl)" by (metis block_list_ok_def distinct_card strict_sorted_iff)
  have e: "encode_blocked (change bl) = (if BLOCK_LIST_MAX_ENTRIES < card (f (set bl)) then Inl (BlFull (length (change bl))) else Inr (concat (change bl)))"
    by (simp add: encode_blocked_def card)
  have u: "snd (update_block_list io change disk) = (if fails io \<or> card (f (set bl)) > BLOCK_LIST_MAX_ENTRIES then disk else Some (concat (change bl)))"
    by (cases io) (simp_all add: update_block_list_def block_section_def fails_def e Some d)
  show ?thesis
  proof (cases "fails io \<or> card (f (set bl)) > BLOCK_LIST_MAX_ENTRIES")
    case True
    with u assms(1) bl(1) show ?thesis by simp
  next
    case False
    with u e c bl(1) show ?thesis by (auto simp: stores_def)
  qed
qed

lemma stores_card: "stores disk (Some S) \<Longrightarrow> card S \<le> BLOCK_LIST_MAX_ENTRIES \<and> finite S"
  by (auto simp: stores_def encode_blocked_def card_length order.trans [OF card_length] split: option.splits if_splits)

lemma block_step_stores:
  assumes "stores disk S" "names_identity e"
  shows "stores (block_step e disk) (blocked_after e S)"
proof (cases e)
  case (BlockUser io k)
  with assms update_stores [OF assms(1), of "\<lambda>bl. snd (block k bl)" "insert k" io] block_ok [of _ k] stores_card
  show ?thesis by (cases S) (fastforce simp: card_insert_if split: if_splits)+
next
  case (UnblockUser io k)
  have "card (B - {k}) \<le> BLOCK_LIST_MAX_ENTRIES" if "S = Some B" for B
    using stores_card [of disk B] assms(1) that by (meson card_Diff1_le order.trans)
  with UnblockUser update_stores [OF assms(1), of "\<lambda>bl. snd (unblock k bl)" "\<lambda>B. B - {k}" io] unblock_ok [of _ k]
  show ?thesis by (cases S) (auto split: if_splits simp: not_le [symmetric])
next
  case (Launch io)
  show ?thesis
  proof (cases disk)
    case None
    with assms(1) Launch show ?thesis
      by (cases io) (auto simp: stores_def provision_block_list_def block_section_def fails_def encode_blocked_def block_list_ok_def)
  next
    case (Some bs)
    then have "block_step e disk = disk" using Launch
      by (cases io) (auto simp: provision_block_list_def block_section_def split: sum.split)
    moreover have "blocked_after e S = S" using assms(1) Launch Some by (auto simp: stores_def)
    ultimately show ?thesis using assms(1) by simp
  qed
qed

text \<open>
  C24. A block holds until it is lifted. Whatever is blocked and unblocked and however the profile's sections go, across
  any relaunches: the stored list reads back, holds exactly the identities of the reference (the last change of an
  identity that was not refused decides), and never more than 512; and the decoder of the record accepts exactly what
  the encoder writes.
\<close>

theorem block_holds_until_lifted:
  assumes "\<forall>e \<in> set es. names_identity e"
  shows "(case fold blocked_after es None of
      None \<Rightarrow> read_block_list (fold block_step es None) = None
    | Some S \<Rightarrow> card S \<le> BLOCK_LIST_MAX_ENTRIES \<and>
       (\<exists>bl. read_block_list (fold block_step es None) = Some bl \<and> (\<forall>k. is_blocked k bl \<longleftrightarrow> k \<in> S) \<and> (\<forall>k. suppresses_channel k bl \<longleftrightarrow> k \<in> S)))
   \<and> (decode_blocked bs = Inr bl \<longleftrightarrow> block_list_ok bl \<and> encode_blocked bl = Inr bs)"
proof -
  have run: "stores (fold block_step es disk) (fold blocked_after es S)" if "stores disk S" for disk S
    using assms that by (induction es arbitrary: disk S) (auto dest: block_step_stores)
  then have "stores (fold block_step es None) (fold blocked_after es None)" by (simp add: stores_def)
  then show ?thesis using stores_card decode_blocked_iff [of bs bl]
    by (fastforce simp: stores_def read_block_list_def decode_stored_block_list_def is_blocked_def suppresses_channel_def
        decode_blocked_iff [symmetric] split: option.splits)
qed

section \<open>The contact cache\<close>

definition CONTACT_RECORD_VERSION :: byte where "CONTACT_RECORD_VERSION = 1"
definition TIMESTAMP_LEN :: nat where "TIMESTAMP_LEN = 8"
definition PSEUDONYM_PRESENCE_LEN :: nat where "PSEUDONYM_PRESENCE_LEN = 1"
definition PSEUDONYM_ABSENT :: byte where "PSEUDONYM_ABSENT = 0"
definition PSEUDONYM_PRESENT :: byte where "PSEUDONYM_PRESENT = 1"
definition AR_LEN :: nat where "AR_LEN = 32"

definition CONTACT_RECORD_LEN :: nat where
  "CONTACT_RECORD_LEN = 1 + 2 * DSA_PK_LEN + PSEUDONYM_PRESENCE_LEN + AR_LEN + 2 * TIMESTAMP_LEN"

datatype contact_cache_error =
    CcWrongLength nat nat
  | CcUnsupportedVersion byte byte
  | TimestampsOutOfOrder int int
  | PlaceholderAddressRoot
  | UnknownPseudonymPresence byte
  | PlaceholderPseudonym
  | PseudonymAlreadyRecorded

record contact_record =
  ct_pk_lt :: "byte list"
  ct_pk_pc :: "byte list option"
  ct_ar :: "byte list"
  ct_first_seen_ms :: int
  ct_last_seen_ms :: int

definition all_zero :: "byte list \<Rightarrow> bool" where
  "all_zero bs \<longleftrightarrow> list_all (\<lambda>b. b = 0) bs"

definition contact_new :: "byte list \<Rightarrow> byte list option \<Rightarrow> byte list \<Rightarrow> int \<Rightarrow> int \<Rightarrow> contact_cache_error + contact_record" where
  "contact_new pk_lt pk_pc ar first_seen_ms last_seen_ms =
    (if last_seen_ms < first_seen_ms then Inl (TimestampsOutOfOrder first_seen_ms last_seen_ms)
     else if all_zero ar then Inl PlaceholderAddressRoot
     else if (case pk_pc of Some k \<Rightarrow> all_zero k | None \<Rightarrow> False) then Inl PlaceholderPseudonym
     else Inr \<lparr>ct_pk_lt = pk_lt, ct_pk_pc = pk_pc, ct_ar = ar, ct_first_seen_ms = first_seen_ms, ct_last_seen_ms = last_seen_ms\<rparr>)"

definition record_pseudonym :: "byte list \<Rightarrow> contact_record \<Rightarrow> (contact_cache_error + bool) \<times> contact_record" where
  "record_pseudonym pk_pc c =
    (if all_zero pk_pc then (Inl PlaceholderPseudonym, c)
     else case ct_pk_pc c of
       Some recorded \<Rightarrow> if recorded = pk_pc then (Inr False, c) else (Inl PseudonymAlreadyRecorded, c)
     | None \<Rightarrow> (Inr True, c\<lparr>ct_pk_pc := Some pk_pc\<rparr>))"

definition observed_at :: "int \<Rightarrow> contact_record \<Rightarrow> bool \<times> contact_record" where
  "observed_at at_ms c = (if at_ms < ct_last_seen_ms c then (False, c) else (True, c\<lparr>ct_last_seen_ms := at_ms\<rparr>))"

definition addresses_same_channel :: "byte list \<Rightarrow> contact_record \<Rightarrow> bool" where
  "addresses_same_channel ar c \<longleftrightarrow> ct_ar c = ar"

definition i64_from_slice :: "byte list \<Rightarrow> int" where
  "i64_from_slice bs = sint (u64_of_be bs)"

definition encode_contact :: "contact_record \<Rightarrow> byte list" where
  "encode_contact c = [CONTACT_RECORD_VERSION] @ ct_pk_lt c @
    (case ct_pk_pc c of Some pk_pc \<Rightarrow> [PSEUDONYM_PRESENT] @ pk_pc | None \<Rightarrow> [PSEUDONYM_ABSENT] @ replicate DSA_PK_LEN 0) @
    ct_ar c @ i64_be (ct_first_seen_ms c) @ i64_be (ct_last_seen_ms c)"

definition decode_contact :: "byte list \<Rightarrow> contact_cache_error + contact_record" where
  "decode_contact bs =
    (if length bs \<noteq> CONTACT_RECORD_LEN then Inl (CcWrongLength CONTACT_RECORD_LEN (length bs))
     else if hd bs \<noteq> CONTACT_RECORD_VERSION then Inl (CcUnsupportedVersion (hd bs) CONTACT_RECORD_VERSION)
     else
       (let pk_lt = take DSA_PK_LEN (drop 1 bs); rest = drop (1 + DSA_PK_LEN) bs; found = hd rest;
            pseudonym = take DSA_PK_LEN (drop PSEUDONYM_PRESENCE_LEN rest);
            rest = drop (PSEUDONYM_PRESENCE_LEN + DSA_PK_LEN) rest;
            ar = take AR_LEN rest; rest = drop AR_LEN rest;
            first_seen_ms = i64_from_slice (take TIMESTAMP_LEN rest);
            last_seen_ms = i64_from_slice (take TIMESTAMP_LEN (drop TIMESTAMP_LEN rest))
        in if found = PSEUDONYM_ABSENT then contact_new pk_lt None ar first_seen_ms last_seen_ms
           else if found = PSEUDONYM_PRESENT then contact_new pk_lt (Some pseudonym) ar first_seen_ms last_seen_ms
           else Inl (UnknownPseudonymPresence found)))"

definition contact_ok :: "contact_record \<Rightarrow> bool" where
  "contact_ok c \<longleftrightarrow> length (ct_pk_lt c) = DSA_PK_LEN \<and> length (ct_ar c) = AR_LEN \<and> \<not> all_zero (ct_ar c) \<and>
     (\<forall>k. ct_pk_pc c = Some k \<longrightarrow> length k = DSA_PK_LEN \<and> \<not> all_zero k) \<and>
     i64_ok (ct_first_seen_ms c) \<and> i64_ok (ct_last_seen_ms c) \<and> ct_first_seen_ms c \<le> ct_last_seen_ms c"

lemma i64_from_slice_be: "i64_ok x \<Longrightarrow> i64_from_slice (i64_be x) = x"
  by (simp add: i64_from_slice_def i64_be_def i64_ok_def sint_sbintrunc' signed_take_bit_int_eq_self)

lemma decode_encode_contact:
  assumes "contact_ok c"
  shows "decode_contact (encode_contact c) = Inr c"
proof (cases "ct_pk_pc c")
  case None
  with assms show ?thesis
    by (simp add: decode_contact_def encode_contact_def contact_ok_def CONTACT_RECORD_LEN_def TIMESTAMP_LEN_def
        PSEUDONYM_PRESENCE_LEN_def PSEUDONYM_ABSENT_def Let_def contact_new_def i64_from_slice_be)
next
  case (Some k)
  with assms show ?thesis
    by (simp add: decode_contact_def encode_contact_def contact_ok_def CONTACT_RECORD_LEN_def TIMESTAMP_LEN_def
        PSEUDONYM_PRESENCE_LEN_def PSEUDONYM_ABSENT_def PSEUDONYM_PRESENT_def Let_def contact_new_def i64_from_slice_be)
qed

section \<open>What a contact remembers\<close>

text \<open>A sighting, a pseudonym someone claims for the contact, a relaunch that reads the record back.\<close>

datatype contact_event = Sighted int | Named "byte list" | Reloaded

fun contact_step :: "contact_event \<Rightarrow> contact_record \<Rightarrow> contact_record" where
  "contact_step (Sighted t) c = snd (observed_at t c)"
| "contact_step (Named k) c = snd (record_pseudonym k c)"
| "contact_step Reloaded c = (case decode_contact (encode_contact c) of Inr c' \<Rightarrow> c' | Inl _ \<Rightarrow> c)"

fun contact_event_ok :: "contact_event \<Rightarrow> bool" where
  "contact_event_ok (Sighted t) \<longleftrightarrow> i64_ok t"
| "contact_event_ok (Named k) \<longleftrightarrow> length k = DSA_PK_LEN"
| "contact_event_ok Reloaded \<longleftrightarrow> True"

fun sighting :: "contact_event \<Rightarrow> int option" where
  "sighting (Sighted t) = Some t"
| "sighting _ = None"

fun naming :: "contact_event \<Rightarrow> byte list option" where
  "naming (Named k) = (if all_zero k then None else Some k)"
| "naming _ = None"

definition first_named :: "byte list option \<Rightarrow> contact_event list \<Rightarrow> byte list option" where
  "first_named pc es = (case pc of Some k \<Rightarrow> Some k | None \<Rightarrow> (case List.map_filter naming es of [] \<Rightarrow> None | k # _ \<Rightarrow> Some k))"

lemma contact_step_ok:
  assumes "contact_ok c" "contact_event_ok e"
  shows "contact_ok (contact_step e c) \<and> ct_pk_lt (contact_step e c) = ct_pk_lt c \<and> ct_ar (contact_step e c) = ct_ar c \<and>
    ct_first_seen_ms (contact_step e c) = ct_first_seen_ms c \<and>
    ct_last_seen_ms (contact_step e c) = (case sighting e of Some t \<Rightarrow> max (ct_last_seen_ms c) t | None \<Rightarrow> ct_last_seen_ms c) \<and>
    ct_pk_pc (contact_step e c) = first_named (ct_pk_pc c) [e]"
  using assms by (cases e) (auto simp: observed_at_def record_pseudonym_def contact_ok_def decode_encode_contact
      first_named_def map_filter_simps max_def split: option.splits)

lemma first_named_append: "first_named (first_named pc es) fs = first_named pc (es @ fs)"
  by (auto simp: first_named_def List.map_filter_def split: option.splits list.splits)

lemma contact_run:
  "contact_ok c \<Longrightarrow> \<forall>e \<in> set es. contact_event_ok e \<Longrightarrow>
   contact_ok (fold contact_step es c) \<and> ct_pk_lt (fold contact_step es c) = ct_pk_lt c \<and> ct_ar (fold contact_step es c) = ct_ar c \<and>
   ct_first_seen_ms (fold contact_step es c) = ct_first_seen_ms c \<and>
   ct_last_seen_ms (fold contact_step es c) = fold max (List.map_filter sighting es) (ct_last_seen_ms c) \<and>
   ct_pk_pc (fold contact_step es c) = first_named (ct_pk_pc c) es"
proof (induction es arbitrary: c)
  case Nil
  then show ?case by (simp add: first_named_def map_filter_simps split: option.split)
next
  case (Cons e es)
  from Cons.prems contact_step_ok [of c e] Cons.IH [of "contact_step e c"] first_named_append [of "ct_pk_pc c" "[e]" es]
  show ?case by (simp add: map_filter_simps max.commute split: option.splits)
qed

text \<open>
  A contact keeps what it learned first. From the moment a contact is recorded, through any sightings, however out of
  order, any claims of a pseudonym and any relaunches: its identity, its address root and its first sighting never
  change, its last sighting is the latest of all, its pseudonym is the first that was a key at all and is never
  replaced, and the record reads back as written.
\<close>

lemma contact_keeps_what_it_learned:
  assumes "contact_new pk pc ar f l = Inr c" "length pk = DSA_PK_LEN" "length ar = AR_LEN" "\<forall>k. pc = Some k \<longrightarrow> length k = DSA_PK_LEN"
    and "i64_ok f" "i64_ok l" "\<forall>e \<in> set es. contact_event_ok e"
  shows "let c' = fold contact_step es c in
    ct_pk_lt c' = pk \<and> ct_ar c' = ar \<and> ct_first_seen_ms c' = f \<and> ct_last_seen_ms c' = fold max (List.map_filter sighting es) l \<and>
    ct_pk_pc c' = first_named pc es \<and> decode_contact (encode_contact c') = Inr c' \<and>
    (\<forall>k. ct_pk_pc c' = Some k \<longrightarrow> (\<forall>j. j \<noteq> k \<longrightarrow> is_ok (fst (record_pseudonym j c')) = False))"
proof -
  have "contact_ok c" "ct_pk_lt c = pk" "ct_ar c = ar" "ct_first_seen_ms c = f" "ct_last_seen_ms c = l" "ct_pk_pc c = pc"
    using assms(1-6) by (auto simp: contact_new_def contact_ok_def split: if_splits option.splits)
  with contact_run [OF this(1) assms(7)] decode_encode_contact show ?thesis
    by (auto simp: Let_def record_pseudonym_def)
qed

section \<open>Deliveries\<close>

definition BACKOFF_AFTER_SECS :: u64 where "BACKOFF_AFTER_SECS = 7 * 24 * 60 * 60"
definition BACKOFF_POLL_INTERVAL :: nat where "BACKOFF_POLL_INTERVAL = 24 * 60 * 60 * 1000"
definition POLL_INTERVAL_MIN :: nat where "POLL_INTERVAL_MIN = 40 * 60 * 1000"
definition POLL_INTERVAL_MAX :: nat where "POLL_INTERVAL_MAX = 60 * 60 * 1000"

text \<open>In milliseconds; \<open>fill\<close> is what the entropy source drew.\<close>

definition next_poll_interval :: "u64 \<Rightarrow> u64 \<Rightarrow> u64 option \<Rightarrow> nat" where
  "next_poll_interval outstanding_since_secs now_secs fill =
    (if sat_sub now_secs outstanding_since_secs \<ge> BACKOFF_AFTER_SECS then BACKOFF_POLL_INTERVAL
     else interval_in_band POLL_INTERVAL_MIN POLL_INTERVAL_MAX fill)"

definition oldest_uncollected_at :: "loaded_conv \<Rightarrow> u64 option" where
  "oldest_uncollected_at conv = (case map oe_sent_at (lc_outstanding_outbox conv) of [] \<Rightarrow> None | x # xs \<Rightarrow> Some (foldr min xs x))"

definition nudge_due :: "u64 option \<Rightarrow> u64 \<Rightarrow> u64 \<Rightarrow> bool" where
  "nudge_due oldest now_secs threshold_secs = (case oldest of Some at \<Rightarrow> sat_sub now_secs at \<ge> threshold_secs | None \<Rightarrow> False)"

record closed_marker =
  cl_collected_cursor :: u64

definition closed_control :: "closed_marker \<Rightarrow> channel_opening option \<Rightarrow> control" where
  "closed_control m opening = control_default\<lparr>c_opening := opening, c_collected_cursor := cl_collected_cursor m, c_closed := True\<rparr>"

record channel_erase =
  er_lookup_key :: "byte list"
  er_marker :: "closed_marker option"

definition prepare_delete :: "io \<Rightarrow> correspondence_label \<Rightarrow> bool \<Rightarrow> dm_store \<Rightarrow> (store_error + channel_erase) \<times> dm_store" where
  "prepare_delete io peer with_marker s =
    (case mark_delete_pending io peer s of
       (Inl e, s') \<Rightarrow> (Inl e, s')
     | (Inr state, s') \<Rightarrow> (Inr \<lparr>er_lookup_key = cs_outgoing_lookup_key state,
          er_marker = (if with_marker then Some \<lparr>cl_collected_cursor = cs_my_collected state\<rparr> else None)\<rparr>, s'))"

lemma foldr_min: "foldr min xs x \<le> (y :: 'a :: linorder) \<longleftrightarrow> (\<exists>z \<in> insert x (set xs). z \<le> y)"
  by (induction xs) (auto simp: min_le_iff_disj)

text \<open>A nudge is due exactly where some message has waited for the threshold.\<close>

lemma nudge_due_iff:
  "nudge_due (oldest_uncollected_at conv) now threshold \<longleftrightarrow> (\<exists>e \<in> set (lc_outstanding_outbox conv). threshold \<le> sat_sub now (oe_sent_at e))"
proof (cases "lc_outstanding_outbox conv")
  case (Cons e es)
  have s: "threshold \<le> sat_sub now at \<longleftrightarrow> threshold = 0 \<or> (threshold \<le> now \<and> at \<le> now - threshold)" for at
    by (auto simp: word_le_nat_alt unat_sat_sub word_unat_eq_iff unat_sub)
  have "foldr min (map oe_sent_at es) (oe_sent_at e) \<le> y \<longleftrightarrow> (\<exists>x \<in> set (lc_outstanding_outbox conv). oe_sent_at x \<le> y)" for y
    using Cons by (auto simp: foldr_min)
  with Cons show ?thesis by (auto simp: nudge_due_def oldest_uncollected_at_def s)
qed (simp add: nudge_due_def oldest_uncollected_at_def)

lemma prepare_delete_marks:
  assumes "f_conv (sto_files s peer) = Held state" "prepare_delete IoOk peer with_marker s = (r, s')"
  shows "r = Inr \<lparr>er_lookup_key = cs_outgoing_lookup_key state,
      er_marker = (if with_marker then Some \<lparr>cl_collected_cursor = cs_my_collected state\<rparr> else None)\<rparr>"
    "f_conv (sto_files s' peer) = Held (state\<lparr>cs_delete_pending := True\<rparr>)"
  using assms by (auto simp: prepare_delete_def mark_delete_pending_def critical_section_def read_conv_def set_files_def Let_def)

section \<open>Concrete runs\<close>

theorem block_holds_until_lifted_witness:
  "\<exists>bl. read_block_list (fold block_step [Launch IoOk, BlockUser IoOk (replicate DSA_PK_LEN 1), BlockUser IoOk (replicate DSA_PK_LEN 2),
       UnblockUser IoOk (replicate DSA_PK_LEN 2), Launch IoOk] None) = Some bl \<and>
     is_blocked (replicate DSA_PK_LEN 1) bl \<and> \<not> is_blocked (replicate DSA_PK_LEN 2) bl"
proof -
  let ?es = "[Launch IoOk, BlockUser IoOk (replicate DSA_PK_LEN 1), BlockUser IoOk (replicate DSA_PK_LEN 2),
       UnblockUser IoOk (replicate DSA_PK_LEN 2), Launch IoOk]"
  have e: "\<forall>e \<in> set ?es. names_identity e" by simp
  have d: "replicate DSA_PK_LEN (1 :: byte) \<noteq> replicate DSA_PK_LEN 2" by (simp add: crypto_lens)
  from block_holds_until_lifted [OF e, of "[]" "[]"] d show ?thesis
    by (auto simp: fails_def BLOCK_LIST_MAX_ENTRIES_def)
qed

lemma contact_keeps_what_it_learned_witness:
  "\<exists>c. contact_new (replicate DSA_PK_LEN 1) None (replicate 32 1) 5 5 = Inr c \<and>
     (let c' = fold contact_step [Sighted 9, Sighted 3, Named (replicate DSA_PK_LEN 7), Named (replicate DSA_PK_LEN 8), Reloaded] c
      in ct_last_seen_ms c' = 9 \<and> ct_pk_pc c' = Some (replicate DSA_PK_LEN 7))"
proof -
  let ?es = "[Sighted 9, Sighted 3, Named (replicate DSA_PK_LEN 7), Named (replicate DSA_PK_LEN 8), Reloaded]"
  obtain c where c: "contact_new (replicate DSA_PK_LEN 1) None (replicate 32 1) 5 5 = Inr c"
    by (auto simp: contact_new_def all_zero_def list_all_iff)
  have "\<forall>e \<in> set ?es. contact_event_ok e" "i64_ok 5" by (simp_all add: i64_ok_def)
  with contact_keeps_what_it_learned [OF c _ _ _ this(2,2,1)]
  have "let c' = fold contact_step ?es c in ct_last_seen_ms c' = fold max (List.map_filter sighting ?es) 5 \<and> ct_pk_pc c' = first_named None ?es"
    by (simp add: AR_LEN_def Let_def)
  then show ?thesis using c
    by (auto simp: Let_def map_filter_simps first_named_def all_zero_def list_all_iff crypto_lens)
qed

end
