(* ===== verification/Suites.thy ===== *)
theory Suites
  imports Room_Messages
begin

text \<open>
  The registry of crypto suites (\<open>crypto/suite.rs\<close>), the policy of writes (\<open>crypto/policy.rs\<close>) and a server's signed
  deprecation policy with its cache (\<open>crypto/deprecation.rs\<close>). Milliseconds are the \<open>i64\<close> of the code as integers; the
  wire encoding of the payload is the \<open>prost\<close> crate's.
\<close>

section \<open>Suites\<close>

type_synonym suite_id = u16

definition SENTINEL_INVALID :: u16 where "SENTINEL_INVALID = 0x0000"
definition SENTINEL_MAX :: u16 where "SENTINEL_MAX = 0xFFFF"

datatype suite_id_error = Sentinel u16

definition suite_id_try_new :: "u16 \<Rightarrow> suite_id_error + suite_id" where
  "suite_id_try_new raw = (if raw = SENTINEL_INVALID \<or> raw = SENTINEL_MAX then Inl (Sentinel raw) else Inr raw)"

datatype suite_aead = Aes256Gcm
datatype suite_kem = MlKem1024
datatype suite_sig = MlDsa87
datatype suite_hash = Sha384
datatype suite_kdf = HkdfSha384
datatype suite_memory_hard = Argon2id
datatype lifecycle_state = Proposed | ActiveWrite | ActiveReadOnly | ReadOnlyDeprecated | Removed

record suite =
  su_id :: suite_id
  su_aead :: suite_aead
  su_kem :: suite_kem
  su_sig :: suite_sig
  su_hash :: suite_hash
  su_kdf :: suite_kdf
  su_memory_hard :: suite_memory_hard
  su_state :: lifecycle_state

definition same_family :: "suite \<Rightarrow> suite \<Rightarrow> bool" where
  "same_family a b \<longleftrightarrow> su_kdf a = HkdfSha384 \<and> su_kdf b = HkdfSha384 \<and> su_hash a = Sha384 \<and> su_hash b = Sha384"

definition family_token :: "suite \<Rightarrow> string" where
  "family_token s = (case (su_kdf s, su_hash s) of (HkdfSha384, Sha384) \<Rightarrow> ''hkdf-sha384'')"

definition CNSA_2_0 :: suite where
  "CNSA_2_0 = \<lparr>su_id = 0x0001, su_aead = Aes256Gcm, su_kem = MlKem1024, su_sig = MlDsa87, su_hash = Sha384,
     su_kdf = HkdfSha384, su_memory_hard = Argon2id, su_state = ActiveWrite\<rparr>"

definition REGISTRY :: "suite list" where "REGISTRY = [CNSA_2_0]"

definition suite_lookup :: "suite_id \<Rightarrow> suite option" where
  "suite_lookup i = List.find (\<lambda>s. su_id s = i) REGISTRY"

datatype write_policy = RefuseDeprecated | RefuseRemoved | Allow

fun permits :: "write_policy \<Rightarrow> lifecycle_state \<Rightarrow> bool" where
  "permits RefuseDeprecated state \<longleftrightarrow> state = ActiveWrite"
| "permits RefuseRemoved state \<longleftrightarrow> state \<in> {ActiveWrite, ActiveReadOnly, ReadOnlyDeprecated}"
| "permits Allow state \<longleftrightarrow> True"

datatype write_refusal =
  WrUnknown suite_id | WrProposed suite_id | WrActiveReadOnly suite_id | WrDeprecated suite_id | WrRemoved suite_id

definition resolve_for_write_with :: "suite_id \<Rightarrow> write_policy \<Rightarrow> write_refusal + suite" where
  "resolve_for_write_with i policy =
    (case suite_lookup i of None \<Rightarrow> Inl (WrUnknown i)
     | Some suite \<Rightarrow>
       if permits policy (su_state suite) then Inr suite
       else (case su_state suite of
           ActiveWrite \<Rightarrow> Inr suite
         | ActiveReadOnly \<Rightarrow> Inl (WrActiveReadOnly i)
         | ReadOnlyDeprecated \<Rightarrow> Inl (WrDeprecated i)
         | Removed \<Rightarrow> Inl (WrRemoved i)
         | Proposed \<Rightarrow> Inl (WrProposed i)))"

definition resolve_for_write :: "suite_id \<Rightarrow> write_refusal + suite" where
  "resolve_for_write i = resolve_for_write_with i RefuseDeprecated"

text \<open>\<open>None\<close> is the panic of a registry without an entry to write with.\<close>

definition default_write_suite :: "suite_id option" where
  "default_write_suite = map_option su_id (List.find (\<lambda>s. su_state s = ActiveWrite) REGISTRY)"

lemma default_suite_resolves: "\<exists>i s. default_write_suite = Some i \<and> resolve_for_write i = Inr s \<and> su_state s = ActiveWrite"
  by (simp add: default_write_suite_def REGISTRY_def CNSA_2_0_def resolve_for_write_def resolve_for_write_with_def suite_lookup_def)

section \<open>The deprecation policy of a server\<close>

text \<open>\<open>i64::saturating_sub\<close>.\<close>

definition i64_sat_sub :: "int \<Rightarrow> int \<Rightarrow> int" where
  "i64_sat_sub a b = max (- (2 ^ 63)) (min (2 ^ 63 - 1) (a - b))"

definition CACHE_TTL :: int where "CACHE_TTL = 3600 * 1000"
definition MIN_CUTOFF_LEAD :: int where "MIN_CUTOFF_LEAD = 2 * 3600 * 1000"

record deprecation_entry =
  de_suite_id :: suite_id
  de_cutoff_unix_ms :: int
  de_recommended_suite_id :: suite_id

record deprecation_policy =
  dp_policy_version :: u64
  dp_signed_timestamp_ms :: int
  dp_entries :: "deprecation_entry list"

datatype policy_error =
    PolicyDecode
  | PolicySuiteId suite_id_error
  | CutoffTooSoon suite_id int
  | PolicySignature
  | VersionRollback u64 u64

fun check_cutoffs :: "int \<Rightarrow> deprecation_entry list \<Rightarrow> policy_error + unit" where
  "check_cutoffs now_ms [] = Inr ()"
| "check_cutoffs now_ms (e # es) =
    (let lead = i64_sat_sub (de_cutoff_unix_ms e) now_ms
     in if lead < MIN_CUTOFF_LEAD then Inl (CutoffTooSoon (de_suite_id e) lead) else check_cutoffs now_ms es)"

definition policy_build :: "u64 \<Rightarrow> int \<Rightarrow> deprecation_entry list \<Rightarrow> int \<Rightarrow> policy_error + deprecation_policy" where
  "policy_build version timestamp es now_ms =
    rbind (check_cutoffs now_ms es) (\<lambda>_. Inr \<lparr>dp_policy_version = version, dp_signed_timestamp_ms = timestamp, dp_entries = es\<rparr>)"

text \<open>The wire message (\<open>daemonseed.v1.rs\<close>, generated): suite ids are 32-bit fields.\<close>

record policy_payload =
  pl_policy_version :: u64
  pl_signed_timestamp_ms :: int
  pl_entries :: "(u32 \<times> int \<times> u32) list"

definition payload_of :: "deprecation_policy \<Rightarrow> policy_payload" where
  "payload_of p = \<lparr>pl_policy_version = dp_policy_version p, pl_signed_timestamp_ms = dp_signed_timestamp_ms p,
     pl_entries = map (\<lambda>e. (ucast (de_suite_id e), de_cutoff_unix_ms e, ucast (de_recommended_suite_id e))) (dp_entries p)\<rparr>"

definition to_signed_payload :: "(policy_payload, 'd) codec \<Rightarrow> deprecation_policy \<Rightarrow> byte list" where
  "to_signed_payload c p = encode_to_vec c (payload_of p)"

definition decode_suite_id :: "u32 \<Rightarrow> policy_error + suite_id" where
  "decode_suite_id raw = (if unat raw \<ge> 2 ^ 16 then Inl PolicyDecode else map_err PolicySuiteId (suite_id_try_new (ucast raw)))"

fun decode_entries :: "(u32 \<times> int \<times> u32) list \<Rightarrow> policy_error + deprecation_entry list" where
  "decode_entries [] = Inr []"
| "decode_entries ((s, cutoff, r) # es) =
    rbind (decode_suite_id s) (\<lambda>suite_id. rbind (decode_suite_id r) (\<lambda>recommended.
    rbind (decode_entries es) (\<lambda>rest.
    Inr (\<lparr>de_suite_id = suite_id, de_cutoff_unix_ms = cutoff, de_recommended_suite_id = recommended\<rparr> # rest))))"

definition from_signed_payload :: "(policy_payload, 'd) codec \<Rightarrow> byte list \<Rightarrow> policy_error + deprecation_policy" where
  "from_signed_payload c bs =
    rbind (map_err (\<lambda>_. PolicyDecode) (decode_msg c bs)) (\<lambda>payload.
    rbind (decode_entries (pl_entries payload)) (\<lambda>es.
    Inr \<lparr>dp_policy_version = pl_policy_version payload, dp_signed_timestamp_ms = pl_signed_timestamp_ms payload, dp_entries = es\<rparr>))"

definition entry_for :: "suite_id \<Rightarrow> deprecation_policy \<Rightarrow> deprecation_entry option" where
  "entry_for i p = List.find (\<lambda>e. de_suite_id e = i) (dp_entries p)"

definition is_past_cutoff :: "suite_id \<Rightarrow> int \<Rightarrow> deprecation_policy \<Rightarrow> bool" where
  "is_past_cutoff i now_ms p = (case entry_for i p of Some e \<Rightarrow> now_ms \<ge> de_cutoff_unix_ms e | None \<Rightarrow> False)"

definition affected :: "suite_id list \<Rightarrow> deprecation_policy \<Rightarrow> deprecation_entry list" where
  "affected in_use p = filter (\<lambda>e. de_suite_id e \<in> set in_use) (dp_entries p)"

record signed_artifact =
  art_signed_payload :: "byte list"
  art_signer_pubkey :: "byte list"
  art_signature :: "byte list"

definition sign_policy :: "oxi \<Rightarrow> (policy_payload, 'd) codec \<Rightarrow> deprecation_policy \<Rightarrow> sign_keypair \<Rightarrow> signature_error + signed_artifact" where
  "sign_policy ox c p signer =
    (let payload = to_signed_payload c p
     in rbind (keypair_sign ox signer payload) (\<lambda>sig.
        Inr \<lparr>art_signed_payload = payload, art_signer_pubkey = sk_public_key signer, art_signature = sig\<rparr>))"

definition verify_policy ::
  "oxi \<Rightarrow> (policy_payload, 'd) codec \<Rightarrow> signed_artifact \<Rightarrow> byte list \<Rightarrow> u64 option \<Rightarrow> policy_error + deprecation_policy" where
  "verify_policy ox c artifact server_wide_pubkey cached_version =
    (if art_signer_pubkey artifact \<noteq> server_wide_pubkey then Inl PolicySignature
     else if length (art_signature artifact) \<noteq> DSA_SIG_LEN then Inl PolicySignature
     else rbind (map_err (\<lambda>_. PolicySignature) (verify_signature ox server_wide_pubkey (art_signed_payload artifact) (art_signature artifact))) (\<lambda>_.
       rbind (from_signed_payload c (art_signed_payload artifact)) (\<lambda>policy.
       case cached_version of
         Some cached \<Rightarrow> if dp_policy_version policy < cached then Inl (VersionRollback cached (dp_policy_version policy)) else Inr policy
       | None \<Rightarrow> Inr policy)))"

section \<open>The cache\<close>

record cached_policy =
  cp_policy :: deprecation_policy
  cp_fetched_at_ms :: int

type_synonym policy_cache = "(string \<times> cached_policy) list"

definition cache_insert :: "string \<Rightarrow> deprecation_policy \<Rightarrow> int \<Rightarrow> policy_cache \<Rightarrow> policy_cache" where
  "cache_insert server_id policy fetched_at_ms cache = AList.update server_id \<lparr>cp_policy = policy, cp_fetched_at_ms = fetched_at_ms\<rparr> cache"

definition cached_version :: "string \<Rightarrow> policy_cache \<Rightarrow> u64 option" where
  "cached_version server_id cache = map_option (dp_policy_version \<circ> cp_policy) (map_of cache server_id)"

definition fresh_policy :: "string \<Rightarrow> int \<Rightarrow> policy_cache \<Rightarrow> deprecation_policy option" where
  "fresh_policy server_id now_ms cache = Option.bind (map_of cache server_id) (\<lambda>c.
     if i64_sat_sub now_ms (cp_fetched_at_ms c) \<le> CACHE_TTL then Some (cp_policy c) else None)"

definition is_stale :: "string \<Rightarrow> int \<Rightarrow> policy_cache \<Rightarrow> bool" where
  "is_stale server_id now_ms cache \<longleftrightarrow> fresh_policy server_id now_ms cache = None"

definition earliest_cutoff :: "suite_id \<Rightarrow> policy_cache \<Rightarrow> int option" where
  "earliest_cutoff i cache =
    (case List.map_filter (\<lambda>(_, c). map_option de_cutoff_unix_ms (entry_for i (cp_policy c))) cache of
       [] \<Rightarrow> None | x # xs \<Rightarrow> Some (foldr min xs x))"

section \<open>A client and its servers\<close>

text \<open>
  What \<open>PolicyCache::insert\<close> expects of its caller: an artifact arrives for a server, from the server or from anyone, is
  verified against the version cached of that server and, where it verifies, cached.
\<close>

type_synonym policy_offer = "string \<times> signed_artifact \<times> int"

definition take_offer :: "oxi \<Rightarrow> (policy_payload, 'd) codec \<Rightarrow> (string \<Rightarrow> byte list) \<Rightarrow> policy_offer \<Rightarrow> policy_cache \<Rightarrow> policy_cache" where
  "take_offer ox c key_of = (\<lambda>(server_id, artifact, now_ms) cache.
     case verify_policy ox c artifact (key_of server_id) (cached_version server_id cache) of
       Inr policy \<Rightarrow> cache_insert server_id policy now_ms cache
     | Inl _ \<Rightarrow> cache)"

definition comes_from :: "oxi \<Rightarrow> (policy_payload, 'd) codec \<Rightarrow> byte list \<Rightarrow> signed_artifact \<Rightarrow> deprecation_policy \<Rightarrow> bool" where
  "comes_from ox c pk artifact p \<longleftrightarrow> art_signer_pubkey artifact = pk \<and>
     verify_signature ox pk (art_signed_payload artifact) (art_signature artifact) = Inr () \<and> from_signed_payload c (art_signed_payload artifact) = Inr p"

lemma verify_policy_Inr:
  "verify_policy ox c artifact pk cached = Inr p \<Longrightarrow> comes_from ox c pk artifact p \<and> (\<forall>v. cached = Some v \<longrightarrow> v \<le> dp_policy_version p)"
  by (auto simp: verify_policy_def comes_from_def result_simps split: if_splits option.splits)

lemma take_offer_version:
  "\<exists>w. cached_version s (take_offer ox c key_of e cache) = w \<and> (\<forall>v. cached_version s cache = Some v \<longrightarrow> (\<exists>v'. w = Some v' \<and> v \<le> v'))"
  by (cases e) (auto simp: take_offer_def cached_version_def cache_insert_def update_conv' dest: verify_policy_Inr split: sum.split)

lemma take_offer_origin:
  assumes "map_of (take_offer ox c key_of (srv, art, t) cache) s = Some cp"
  shows "map_of cache s = Some cp \<or> (s = srv \<and> cp_fetched_at_ms cp = t \<and> comes_from ox c (key_of s) art (cp_policy cp))"
  using assms by (auto simp: take_offer_def cache_insert_def update_conv' dest: verify_policy_Inr split: sum.splits if_splits)

lemma versions_grow:
  "cached_version s cache = Some v \<Longrightarrow> \<exists>v'. cached_version s (fold (take_offer ox c key_of) es cache) = Some v' \<and> v \<le> v'"
proof (induction es arbitrary: cache v)
  case (Cons e es)
  from take_offer_version [of s ox c key_of e cache] Cons.prems obtain w where "cached_version s (take_offer ox c key_of e cache) = Some w" "v \<le> w" by blast
  with Cons.IH [of "take_offer ox c key_of e cache" w] show ?case by fastforce
qed simp

lemma origins:
  "map_of (fold (take_offer ox c key_of) es cache) s = Some cp \<Longrightarrow> map_of cache s = Some cp \<or>
     (\<exists>art. (s, art, cp_fetched_at_ms cp) \<in> set es \<and> comes_from ox c (key_of s) art (cp_policy cp))"
proof (induction es arbitrary: cache)
  case (Cons e es)
  obtain srv art t where e: "e = (srv, art, t)" by (cases e)
  from Cons.IH [of "take_offer ox c key_of e cache"] Cons.prems take_offer_origin [of ox c key_of srv art t cache s cp] e show ?case by fastforce
qed simp

section \<open>Reading a policy back\<close>

definition suite_id_ok :: "suite_id \<Rightarrow> bool" where
  "suite_id_ok i \<longleftrightarrow> i \<noteq> SENTINEL_INVALID \<and> i \<noteq> SENTINEL_MAX"

definition policy_ok :: "deprecation_policy \<Rightarrow> bool" where
  "policy_ok p \<longleftrightarrow> (\<forall>e \<in> set (dp_entries p). suite_id_ok (de_suite_id e) \<and> suite_id_ok (de_recommended_suite_id e))"

lemma decode_suite_id_ucast: "suite_id_ok i \<Longrightarrow> decode_suite_id (ucast i) = Inr i"
proof -
  have small: "unat i < 2 ^ 16" using unsigned_less [of i, where 'a = nat] by simp
  have u: "unat (ucast i :: u32) = unat i"
    unfolding unsigned_ucast_eq by (rule take_bit_nat_eq_self, rule less_le_trans [OF small]) simp
  have "unat (ucast (ucast i :: u32) :: u16) = unat i"
    unfolding unsigned_ucast_eq [of "ucast i :: u32"] u by (rule take_bit_nat_eq_self) (use small in simp)
  then have "(ucast (ucast i :: u32) :: u16) = i" by (rule unsigned_word_eqI)
  moreover assume "suite_id_ok i"
  ultimately show ?thesis using u small by (simp add: decode_suite_id_def suite_id_try_new_def suite_id_ok_def)
qed

lemma decode_entries_map:
  "\<forall>e \<in> set es. suite_id_ok (de_suite_id e) \<and> suite_id_ok (de_recommended_suite_id e) \<Longrightarrow>
   decode_entries (map (\<lambda>e. (ucast (de_suite_id e), de_cutoff_unix_ms e, ucast (de_recommended_suite_id e))) es) = Inr es"
  by (induction es) (simp_all add: decode_suite_id_ucast)

lemma payload_round_trip:
  assumes "codec_law c ok" "ok (payload_of p)" "policy_ok p"
  shows "from_signed_payload c (to_signed_payload c p) = Inr p"
  using assms codec_lawD(1) [OF assms(1,2)]
  by (simp add: from_signed_payload_def to_signed_payload_def payload_of_def decode_entries_map policy_ok_def)

lemma check_cutoffs_iff: "check_cutoffs now es = Inr () \<longleftrightarrow> (\<forall>e \<in> set es. MIN_CUTOFF_LEAD \<le> i64_sat_sub (de_cutoff_unix_ms e) now)"
  by (induction es) (auto simp: Let_def)

lemma built_lead:
  assumes "policy_build v t es now = Inr p" "entry_for i p = Some e"
  shows "now + MIN_CUTOFF_LEAD \<le> de_cutoff_unix_ms e"
proof -
  from assms have "e \<in> set es" by (auto simp: policy_build_def entry_for_def result_simps find_Some_iff)
  with assms(1) have "MIN_CUTOFF_LEAD \<le> i64_sat_sub (de_cutoff_unix_ms e) now" by (auto simp: policy_build_def result_simps check_cutoffs_iff)
  then show ?thesis by (auto simp: i64_sat_sub_def MIN_CUTOFF_LEAD_def min_def max_def split: if_splits)
qed

text \<open>
  C25. A deprecation policy never rolls back. Whatever artifacts arrive, in any order and from anyone: the version cached
  of a server never decreases, and every cached policy was read from an artifact that arrived for that server, at that
  time, and verifies under its key. A policy the server signs is accepted as signed, unless a newer one is cached; and
  one that was built passes no cutoff for two hours.
\<close>

theorem policies_never_roll_back:
  assumes "codec_law c ok" "ok (payload_of p)" "policy_ok p" "dsa_law ox signer" "sign_policy ox c p signer = Inr art"
    and "policy_build v t es now = Inr p" "now' < now + MIN_CUTOFF_LEAD"
  shows "(\<forall>w. cached_version s (fold (take_offer ox c key_of) os []) = Some w \<longrightarrow>
      (\<exists>w'. cached_version s (fold (take_offer ox c key_of) (os @ os') []) = Some w' \<and> w \<le> w')) \<and>
    (\<forall>q. fresh_policy s now' (fold (take_offer ox c key_of) os []) = Some q \<longrightarrow>
      (\<exists>a f. (s, a, f) \<in> set os \<and> comes_from ox c (key_of s) a q \<and> i64_sat_sub now' f \<le> CACHE_TTL)) \<and>
    verify_policy ox c art (sk_public_key signer) cached =
      (case cached of Some w \<Rightarrow> if v < w then Inl (VersionRollback w v) else Inr p | None \<Rightarrow> Inr p) \<and>
    \<not> is_past_cutoff i now' p"
proof (intro conjI allI impI)
  fix w assume "cached_version s (fold (take_offer ox c key_of) os []) = Some w"
  then show "\<exists>w'. cached_version s (fold (take_offer ox c key_of) (os @ os') []) = Some w' \<and> w \<le> w'"
    using versions_grow by fastforce
next
  fix q assume "fresh_policy s now' (fold (take_offer ox c key_of) os []) = Some q"
  then obtain cp where "map_of (fold (take_offer ox c key_of) os []) s = Some cp" "cp_policy cp = q"
    "i64_sat_sub now' (cp_fetched_at_ms cp) \<le> CACHE_TTL" by (auto simp: fresh_policy_def bind_eq_Some_conv split: if_splits)
  with origins [OF this(1)] show "\<exists>a f. (s, a, f) \<in> set os \<and> comes_from ox c (key_of s) a q \<and> i64_sat_sub now' f \<le> CACHE_TTL" by auto
next
  from assms(5) obtain sig where sig: "keypair_sign ox signer (to_signed_payload c p) = Inr sig"
    "art = \<lparr>art_signed_payload = to_signed_payload c p, art_signer_pubkey = sk_public_key signer, art_signature = sig\<rparr>"
    by (auto simp: sign_policy_def Let_def result_simps)
  moreover have "dp_policy_version p = v" using assms(6) by (auto simp: policy_build_def result_simps)
  ultimately show "verify_policy ox c art (sk_public_key signer) cached =
      (case cached of Some w \<Rightarrow> if v < w then Inl (VersionRollback w v) else Inr p | None \<Rightarrow> Inr p)"
    using verify_signature_sign [OF assms(4) sig(1)] payload_round_trip [OF assms(1-3)] by (simp add: verify_policy_def split: option.split)
next
  show "\<not> is_past_cutoff i now' p" using built_lead [OF assms(6)] assms(7) by (fastforce simp: is_past_cutoff_def split: option.splits)
qed

section \<open>A policy, a server and a client\<close>

definition demo_policy :: deprecation_policy where
  "demo_policy = \<lparr>dp_policy_version = 3, dp_signed_timestamp_ms = 5,
     dp_entries = [\<lparr>de_suite_id = 1, de_cutoff_unix_ms = 10000000, de_recommended_suite_id = 2\<rparr>]\<rparr>"

definition demo_policies :: "(policy_payload, unit) codec" where
  "demo_policies = \<lparr>encode_to_vec = (\<lambda>m. if m = payload_of demo_policy then [1] else []),
     decode_msg = (\<lambda>bs. if bs = [1] then Inr (payload_of demo_policy) else Inl ())\<rparr>"

definition demo_server :: sign_keypair where
  "demo_server = \<lparr>sk_public_key = replicate DSA_PK_LEN 7, sk_secret_key = []\<rparr>"

lemma policies_never_roll_back_witness:
  "verify_policy demo_oxi demo_policies
     (case sign_policy demo_oxi demo_policies demo_policy demo_server of Inr art \<Rightarrow> art)
     (sk_public_key demo_server) (Some 4) = Inl (VersionRollback 4 3)"
proof -
  have law: "codec_law demo_policies (\<lambda>m. m = payload_of demo_policy)"
    by (auto simp: codec_law_def demo_policies_def split: if_splits)
  have dsa: "dsa_law demo_oxi demo_server" by (rule demo_dsa_law) (simp add: demo_server_def)
  then obtain art where art: "sign_policy demo_oxi demo_policies demo_policy demo_server = Inr art"
    by (simp add: sign_policy_def keypair_sign_def oxi_defs demo_oxi_def Let_def)
  have ok: "policy_ok demo_policy" by (simp add: policy_ok_def demo_policy_def suite_id_ok_def SENTINEL_INVALID_def SENTINEL_MAX_def)
  have built: "policy_build 3 5 (dp_entries demo_policy) 0 = Inr demo_policy"
    by (simp add: policy_build_def demo_policy_def i64_sat_sub_def MIN_CUTOFF_LEAD_def result_simps)
  from policies_never_roll_back [OF law _ ok dsa art built, where s = "''s''" and os = "[]" and cached = "Some 4" and now' = 0] art
  show ?thesis by (simp add: MIN_CUTOFF_LEAD_def)
qed

end
