(* ===== verification/Trust_Events.thy ===== *)
theory Trust_Events
  imports Suites Statements
begin

text \<open>
  The audit log of trust decisions (\<open>trust_events.rs\<close>): its events and their classes, the bounded log, the encoding of its
  body in both versions and the file that seals it under the profile's passphrase. A \<open>String\<close> is its UTF-8 bytes. The
  \<open>argon2\<close> crate, the text of a \<open>uuid\<close> and the random nonce are arguments.
\<close>

section \<open>Events\<close>

datatype trust_event_class = Blocking | PersistentNonBlocking | Transient | LogOnly

datatype trust_event_key =
    ServerKeyRotated | ServerKeyMismatch | SuiteDeprecationPending
  | SuiteDeprecationCutoffHit | CircleContentBelowMinSuite | CircleCrossFamilyDeprecated
  | NoCommonVersion | UpdateVerificationFailed | EmergencySecurityUpdateAvailable
  | UnsupportedIdentityProofSuite | ServerDeprecationPolicyUnreadable | ServerDeprecationPolicyRollback
  | UpdateRelayFallbackUsed | ServerDeprecationPolicyExpiredOffline | FederationPeerKeyDivergence
  | ServerSourceUnverified | DmChannelTornDownOnRestart | DmProvisionalHandshakeLost
  | DmProvisionalRecordUnreadable | DmRecordErasureBlocked | DmCorrespondentStateLost
  | DmPeerStateRegressed | DmReestablishmentFailed | DmReestablishmentUnconfirmed
  | DmReestablishmentBackoffEngaged

definition ALL_EVENT_KEYS :: "trust_event_key list" where
  "ALL_EVENT_KEYS =
    [ServerKeyRotated, ServerKeyMismatch, SuiteDeprecationPending,
     SuiteDeprecationCutoffHit, CircleContentBelowMinSuite, CircleCrossFamilyDeprecated,
     NoCommonVersion, UpdateVerificationFailed, EmergencySecurityUpdateAvailable,
     UnsupportedIdentityProofSuite, ServerDeprecationPolicyUnreadable, ServerDeprecationPolicyRollback,
     UpdateRelayFallbackUsed, ServerDeprecationPolicyExpiredOffline, FederationPeerKeyDivergence,
     ServerSourceUnverified, DmChannelTornDownOnRestart, DmProvisionalHandshakeLost,
     DmProvisionalRecordUnreadable, DmRecordErasureBlocked, DmCorrespondentStateLost,
     DmPeerStateRegressed, DmReestablishmentFailed, DmReestablishmentUnconfirmed,
     DmReestablishmentBackoffEngaged]"

fun class_of :: "trust_event_key \<Rightarrow> trust_event_class" where
  "class_of ServerKeyRotated = PersistentNonBlocking"
| "class_of ServerKeyMismatch = Blocking"
| "class_of SuiteDeprecationPending = PersistentNonBlocking"
| "class_of SuiteDeprecationCutoffHit = Blocking"
| "class_of CircleContentBelowMinSuite = Blocking"
| "class_of CircleCrossFamilyDeprecated = PersistentNonBlocking"
| "class_of NoCommonVersion = Blocking"
| "class_of UpdateVerificationFailed = Blocking"
| "class_of EmergencySecurityUpdateAvailable = Blocking"
| "class_of UnsupportedIdentityProofSuite = Blocking"
| "class_of ServerDeprecationPolicyUnreadable = PersistentNonBlocking"
| "class_of ServerDeprecationPolicyRollback = Blocking"
| "class_of UpdateRelayFallbackUsed = Transient"
| "class_of ServerDeprecationPolicyExpiredOffline = PersistentNonBlocking"
| "class_of FederationPeerKeyDivergence = PersistentNonBlocking"
| "class_of ServerSourceUnverified = LogOnly"
| "class_of DmChannelTornDownOnRestart = PersistentNonBlocking"
| "class_of DmProvisionalHandshakeLost = PersistentNonBlocking"
| "class_of DmProvisionalRecordUnreadable = PersistentNonBlocking"
| "class_of DmRecordErasureBlocked = PersistentNonBlocking"
| "class_of DmCorrespondentStateLost = PersistentNonBlocking"
| "class_of DmPeerStateRegressed = PersistentNonBlocking"
| "class_of DmReestablishmentFailed = PersistentNonBlocking"
| "class_of DmReestablishmentUnconfirmed = PersistentNonBlocking"
| "class_of DmReestablishmentBackoffEngaged = PersistentNonBlocking"

fun event_key_string :: "trust_event_key \<Rightarrow> string" where
  "event_key_string ServerKeyRotated = ''server-key-rotated''"
| "event_key_string ServerKeyMismatch = ''server-key-mismatch''"
| "event_key_string SuiteDeprecationPending = ''suite-deprecation-pending''"
| "event_key_string SuiteDeprecationCutoffHit = ''suite-deprecation-cutoff-hit''"
| "event_key_string CircleContentBelowMinSuite = ''circle-content-below-min-suite''"
| "event_key_string CircleCrossFamilyDeprecated = ''circle-cross-family-deprecated''"
| "event_key_string NoCommonVersion = ''no-common-version''"
| "event_key_string UpdateVerificationFailed = ''update-verification-failed''"
| "event_key_string EmergencySecurityUpdateAvailable = ''emergency-security-update-available''"
| "event_key_string UnsupportedIdentityProofSuite = ''unsupported-identity-proof-suite''"
| "event_key_string ServerDeprecationPolicyUnreadable = ''server-deprecation-policy-unreadable''"
| "event_key_string ServerDeprecationPolicyRollback = ''server-deprecation-policy-rollback''"
| "event_key_string UpdateRelayFallbackUsed = ''update-relay-fallback-used''"
| "event_key_string ServerDeprecationPolicyExpiredOffline = ''server-deprecation-policy-expired-offline''"
| "event_key_string FederationPeerKeyDivergence = ''federation-peer-key-divergence''"
| "event_key_string ServerSourceUnverified = ''server-source-unverified''"
| "event_key_string DmChannelTornDownOnRestart = ''dm-channel-torn-down-on-restart''"
| "event_key_string DmProvisionalHandshakeLost = ''dm-provisional-handshake-lost''"
| "event_key_string DmProvisionalRecordUnreadable = ''dm-provisional-record-unreadable''"
| "event_key_string DmRecordErasureBlocked = ''dm-record-erasure-blocked''"
| "event_key_string DmCorrespondentStateLost = ''dm-correspondent-state-lost''"
| "event_key_string DmPeerStateRegressed = ''dm-peer-state-regressed''"
| "event_key_string DmReestablishmentFailed = ''dm-reestablishment-failed''"
| "event_key_string DmReestablishmentUnconfirmed = ''dm-reestablishment-unconfirmed''"
| "event_key_string DmReestablishmentBackoffEngaged = ''dm-reestablishment-backoff-engaged''"

text \<open>The bytes of a string that is known to be UTF-8.\<close>

definition event_key_from_str :: "byte list \<Rightarrow> trust_event_key option" where
  "event_key_from_str s = List.find (\<lambda>k. ascii (event_key_string k) = s) ALL_EVENT_KEYS"

fun stable_str :: "record_kind \<Rightarrow> string" where
  "stable_str RkResume = ''resume''"
| "stable_str RkProvisional = ''provisional''"
| "stable_str RkOutbox = ''outbox''"
| "stable_str RkReceiveCursor = ''receive-cursor''"
| "stable_str RkContactCache = ''contact-cache''"
| "stable_str RkBlockList = ''block-list''"
| "stable_str RkAdvertKeys = ''advert-keys''"
| "stable_str RkConversation = ''conversation''"
| "stable_str RkConversationOutbox = ''conversation-outbox''"
| "stable_str RkCorrespondentHandle = ''correspondent-handle''"
| "stable_str RkCorrespondentRoute = ''correspondent-route''"
| "stable_str RkReachSerial = ''reach-serial''"

definition ALL_RECORD_KINDS :: "record_kind list" where
  "ALL_RECORD_KINDS =
    [RkResume, RkProvisional, RkOutbox, RkReceiveCursor,
     RkContactCache, RkBlockList, RkAdvertKeys, RkConversation,
     RkConversationOutbox, RkCorrespondentHandle, RkCorrespondentRoute, RkReachSerial]"

definition from_stable_str :: "byte list \<Rightarrow> record_kind option" where
  "from_stable_str s = List.find (\<lambda>k. ascii (stable_str k) = s) ALL_RECORD_KINDS"

datatype resolution_status = Unresolved | Resolved

record trust_event =
  tv_timestamp_unix_ms :: int
  tv_key :: trust_event_key
  tv_server_id :: "byte list option"
  tv_suite_id :: "suite_id option"
  tv_record_kind :: "record_kind option"
  tv_resolution :: resolution_status
  tv_dismissed_at_unix_ms :: "int option"

record trust_event_scope =
  ts_key :: trust_event_key
  ts_record_kind :: "record_kind option"

definition scope_bare :: "trust_event_key \<Rightarrow> trust_event_scope" where
  "scope_bare key = \<lparr>ts_key = key, ts_record_kind = None\<rparr>"

definition scope_for_record :: "trust_event_key \<Rightarrow> record_kind \<Rightarrow> trust_event_scope" where
  "scope_for_record key kind = \<lparr>ts_key = key, ts_record_kind = Some kind\<rparr>"

definition scope_observed_at :: "trust_event_scope \<Rightarrow> int \<Rightarrow> byte list option \<Rightarrow> suite_id option \<Rightarrow> trust_event" where
  "scope_observed_at s timestamp_unix_ms server_id suite_id =
    \<lparr>tv_timestamp_unix_ms = timestamp_unix_ms, tv_key = ts_key s, tv_server_id = server_id, tv_suite_id = suite_id,
     tv_record_kind = ts_record_kind s, tv_resolution = Unresolved, tv_dismissed_at_unix_ms = None\<rparr>"

definition event_observed :: "int \<Rightarrow> trust_event_key \<Rightarrow> byte list option \<Rightarrow> suite_id option \<Rightarrow> trust_event" where
  "event_observed timestamp_unix_ms key server_id suite_id = scope_observed_at (scope_bare key) timestamp_unix_ms server_id suite_id"

record dismissal_scope =
  ds_server_id :: "byte list option"
  ds_suite_id :: "suite_id option"
  ds_record_kind :: "record_kind option"

section \<open>The log\<close>

definition DEFAULT_LOG_CAP :: nat where "DEFAULT_LOG_CAP = 10000"

record trust_event_log =
  tl_entries :: "trust_event list"
  tl_cap :: nat
  tl_unreadable :: nat

definition log_new :: "nat \<Rightarrow> trust_event_log" where
  "log_new cap = \<lparr>tl_entries = [], tl_cap = cap, tl_unreadable = 0\<rparr>"

definition log_prune_to :: "nat \<Rightarrow> trust_event_log \<Rightarrow> trust_event_log" where
  "log_prune_to cap l =
    (let l = l\<lparr>tl_cap := cap\<rparr>
     in if length (tl_entries l) > cap then l\<lparr>tl_entries := drop (length (tl_entries l) - cap) (tl_entries l)\<rparr> else l)"

definition log_append :: "trust_event \<Rightarrow> trust_event_log \<Rightarrow> trust_event_log" where
  "log_append e l =
    (if class_of (tv_key e) = Transient then l
     else let l = l\<lparr>tl_entries := tl_entries l @ [e]\<rparr> in log_prune_to (tl_cap l) l)"

definition dismiss_event :: "trust_event_key \<Rightarrow> dismissal_scope \<Rightarrow> int \<Rightarrow> trust_event \<Rightarrow> trust_event" where
  "dismiss_event key scope at_unix_ms e =
    (if tv_key e = key \<and> tv_server_id e = ds_server_id scope \<and> tv_suite_id e = ds_suite_id scope \<and>
       tv_record_kind e = ds_record_kind scope
     then e\<lparr>tv_dismissed_at_unix_ms := Some at_unix_ms\<rparr> else e)"

definition log_dismiss :: "trust_event_key \<Rightarrow> dismissal_scope \<Rightarrow> int \<Rightarrow> trust_event_log \<Rightarrow> trust_event_log" where
  "log_dismiss key scope at_unix_ms l = l\<lparr>tl_entries := map (dismiss_event key scope at_unix_ms) (tl_entries l)\<rparr>"

section \<open>Signals of a deprecation policy\<close>

record deprecation_signal =
  sg_key :: trust_event_key
  sg_suite_id :: suite_id
  sg_cutoff_unix_ms :: int
  sg_recommended_suite_id :: suite_id

definition assess_deprecation :: "deprecation_policy \<Rightarrow> suite_id list \<Rightarrow> int \<Rightarrow> deprecation_signal list" where
  "assess_deprecation policy in_use now_ms = map (\<lambda>e.
     \<lparr>sg_key = (if now_ms \<ge> de_cutoff_unix_ms e then SuiteDeprecationCutoffHit else SuiteDeprecationPending),
      sg_suite_id = de_suite_id e, sg_cutoff_unix_ms = de_cutoff_unix_ms e,
      sg_recommended_suite_id = de_recommended_suite_id e\<rparr>) (affected in_use policy)"

definition unreadable_policy_event :: trust_event_key where
  "unreadable_policy_event = ServerDeprecationPolicyUnreadable"

section \<open>The body of the file\<close>

definition u16_le :: "u16 \<Rightarrow> byte list" where "u16_le w = rev (u16_be w)"
definition i64_le :: "int \<Rightarrow> byte list" where "i64_le x = rev (i64_be x)"

definition enc_str16 :: "byte list \<Rightarrow> byte list" where
  "enc_str16 s = u16_le (word_of_nat (length s)) @ s"

definition enc_opt :: "('a \<Rightarrow> byte list) \<Rightarrow> 'a option \<Rightarrow> byte list" where
  "enc_opt enc v = (case v of Some x \<Rightarrow> 1 # enc x | None \<Rightarrow> [0])"

definition encode_event :: "trust_event \<Rightarrow> byte list" where
  "encode_event e =
    i64_le (tv_timestamp_unix_ms e) @ enc_str16 (ascii (event_key_string (tv_key e))) @
    enc_opt enc_str16 (tv_server_id e) @ enc_opt u16_le (tv_suite_id e) @
    [case tv_resolution e of Unresolved \<Rightarrow> 0 | Resolved \<Rightarrow> 1] @
    enc_opt i64_le (tv_dismissed_at_unix_ms e) @
    enc_opt (enc_str16 \<circ> ascii \<circ> stable_str) (tv_record_kind e)"

definition encode_log :: "trust_event_log \<Rightarrow> byte list" where
  "encode_log l = u32_le (word_of_nat (length (tl_entries l))) @ concat (map encode_event (tl_entries l))"

datatype body_version = V1 | V2

text \<open>The cursor is the bytes it has left.\<close>

type_synonym 'a taken = "('a \<times> byte list) option"

definition cur_bytes :: "nat \<Rightarrow> byte list \<Rightarrow> byte list taken" where
  "cur_bytes n c = (if n \<le> length c then Some (take n c, drop n c) else None)"

definition cur_u8 :: "byte list \<Rightarrow> byte taken" where
  "cur_u8 c = Option.bind (cur_bytes 1 c) (\<lambda>(b, c). Some (hd b, c))"

definition cur_u16 :: "byte list \<Rightarrow> u16 taken" where
  "cur_u16 c = Option.bind (cur_bytes 2 c) (\<lambda>(b, c). Some (u16_of_be (rev b), c))"

definition cur_u32 :: "byte list \<Rightarrow> u32 taken" where
  "cur_u32 c = Option.bind (cur_bytes 4 c) (\<lambda>(b, c). Some (u32_of_le b, c))"

definition cur_i64 :: "byte list \<Rightarrow> int taken" where
  "cur_i64 c = Option.bind (cur_bytes 8 c) (\<lambda>(b, c). Some (i64_of_be (rev b), c))"

definition cur_str16 :: "byte list \<Rightarrow> byte list taken" where
  "cur_str16 c = Option.bind (cur_u16 c) (\<lambda>(len, c). cur_bytes (unat len) c)"

text \<open>\<open>if c.u8()? == 1 { Some(..) } else { None }\<close>: any other byte is an absent field.\<close>

definition cur_opt :: "(byte list \<Rightarrow> 'a taken) \<Rightarrow> byte list \<Rightarrow> 'a option taken" where
  "cur_opt rd c = Option.bind (cur_u8 c) (\<lambda>(p, c).
     if p = 1 then Option.bind (rd c) (\<lambda>(x, c). Some (Some x, c)) else Some (None, c))"

definition cur_utf8 :: "byte list \<Rightarrow> byte list taken" where
  "cur_utf8 c = Option.bind (cur_str16 c) (\<lambda>(s, c). if utf8_valid s then Some (s, c) else None)"

definition cur_suite :: "byte list \<Rightarrow> suite_id taken" where
  "cur_suite c = Option.bind (cur_u16 c) (\<lambda>(raw, c). case suite_id_try_new raw of Inr i \<Rightarrow> Some (i, c) | Inl _ \<Rightarrow> None)"

definition cur_resolution :: "byte list \<Rightarrow> resolution_status taken" where
  "cur_resolution c = Option.bind (cur_u8 c) (\<lambda>(b, c).
     if b = 0 then Some (Unresolved, c) else if b = 1 then Some (Resolved, c) else None)"

text \<open>A word of a later build is no word of this one: \<open>from_utf8(..).ok().and_then(..)\<close>.\<close>

definition known_word :: "(byte list \<Rightarrow> 'a option) \<Rightarrow> byte list \<Rightarrow> 'a option" where
  "known_word from_str s = (if utf8_valid s then from_str s else None)"

definition cur_record_kind :: "body_version \<Rightarrow> byte list \<Rightarrow> record_kind option taken" where
  "cur_record_kind version c =
    (case version of
       V1 \<Rightarrow> Some (None, c)
     | V2 \<Rightarrow> Option.bind (cur_u8 c) (\<lambda>(p, c).
         if p = 1 then Option.bind (cur_str16 c) (\<lambda>(raw, c). Some (known_word from_stable_str raw, c)) else Some (None, c)))"

text \<open>One entry: \<open>None\<close> inside is an entry whose key this build does not know.\<close>

definition decode_event :: "body_version \<Rightarrow> byte list \<Rightarrow> trust_event option taken" where
  "decode_event version c =
    Option.bind (cur_i64 c) (\<lambda>(timestamp, c).
    Option.bind (cur_str16 c) (\<lambda>(key_str, c).
    Option.bind (cur_opt cur_utf8 c) (\<lambda>(server_id, c).
    Option.bind (cur_opt cur_suite c) (\<lambda>(suite_id, c).
    Option.bind (cur_resolution c) (\<lambda>(resolution, c).
    Option.bind (cur_opt cur_i64 c) (\<lambda>(dismissed, c).
    Option.bind (cur_record_kind version c) (\<lambda>(kind, c).
    Some (map_option (\<lambda>key. \<lparr>tv_timestamp_unix_ms = timestamp, tv_key = key, tv_server_id = server_id, tv_suite_id = suite_id,
      tv_record_kind = kind, tv_resolution = resolution, tv_dismissed_at_unix_ms = dismissed\<rparr>)
      (known_word event_key_from_str key_str), c))))))))"

fun decode_entries_loop :: "body_version \<Rightarrow> nat \<Rightarrow> byte list \<Rightarrow> (trust_event list \<times> nat) option" where
  "decode_entries_loop version 0 c = Some ([], 0)"
| "decode_entries_loop version (Suc n) c =
    Option.bind (decode_event version c) (\<lambda>(entry, c).
    Option.bind (decode_entries_loop version n c) (\<lambda>(es, unreadable).
    Some (case entry of None \<Rightarrow> (es, unreadable + 1) | Some e \<Rightarrow> (e # es, unreadable))))"

definition decode_log :: "byte list \<Rightarrow> body_version \<Rightarrow> trust_event_log option" where
  "decode_log bs version =
    Option.bind (cur_u32 bs) (\<lambda>(count, c).
    Option.bind (decode_entries_loop version (unat count) c) (\<lambda>(es, unreadable).
    Some \<lparr>tl_entries = es, tl_cap = max (length es) DEFAULT_LOG_CAP, tl_unreadable = unreadable\<rparr>))"

section \<open>The sealed file\<close>

record argon_params =
  ap_memory_kib :: u32
  ap_iterations :: u32
  ap_parallelism :: u32

definition MAX_OPENABLE_MEMORY_KIB :: nat where "MAX_OPENABLE_MEMORY_KIB = 1024 * 1024"
definition MAX_OPENABLE_ITERATIONS :: nat where "MAX_OPENABLE_ITERATIONS = 16"
definition MAX_OPENABLE_PARALLELISM :: nat where "MAX_OPENABLE_PARALLELISM = 16"
definition MAX_OPENABLE_MEMORY_ITERATION_PRODUCT :: nat where "MAX_OPENABLE_MEMORY_ITERATION_PRODUCT = 2 ^ 21"

definition is_openable :: "argon_params \<Rightarrow> bool" where
  "is_openable p \<longleftrightarrow> ap_memory_kib p > 0 \<and> ap_iterations p > 0 \<and> ap_parallelism p > 0 \<and>
     unat (ap_memory_kib p) \<le> MAX_OPENABLE_MEMORY_KIB \<and> unat (ap_iterations p) \<le> MAX_OPENABLE_ITERATIONS \<and>
     unat (ap_parallelism p) \<le> MAX_OPENABLE_PARALLELISM \<and>
     unat (ap_memory_kib p) * unat (ap_iterations p) \<le> MAX_OPENABLE_MEMORY_ITERATION_PRODUCT"

datatype 'a audit_log_error =
    AlArgon2 'a
  | AlHkdf oxi_error
  | AlAesKeyInit oxi_error
  | AlAesMode oxi_error
  | AlAuthenticationFailed
  | AlEntropySource
  | AlMalformed string

text \<open>
  The services behind the file: the cryptographic module, \<open>hash_password_into\<close> of the parameters, the passphrase and the
  salt, with the refusals of \<open>Params::new\<close>, and \<open>Uuid::to_string\<close>.
\<close>

record 'a log_env =
  le_oxi :: oxi
  le_argon2 :: "argon_params \<Rightarrow> byte list \<Rightarrow> byte list \<Rightarrow> 'a + byte list"
  le_uuid_string :: "byte list \<Rightarrow> string"

definition MAGIC_V1 :: "byte list" where "MAGIC_V1 = ascii ''DSTRUSTLOG1''"
definition MAGIC_V2 :: "byte list" where "MAGIC_V2 = ascii ''DSTRUSTLOG2''"
definition PROFILE_ID_LEN :: nat where "PROFILE_ID_LEN = 16"
definition HEADER_LEN :: nat where "HEADER_LEN = length MAGIC_V2 + PROFILE_ID_LEN + 4 + 4 + 4"
definition ARGON2_OUTPUT_LEN :: nat where "ARGON2_OUTPUT_LEN = 48"
definition AEAD_KEY_LEN :: nat where "AEAD_KEY_LEN = 32"

definition hkdf_from_prk :: "oxi \<Rightarrow> byte list \<Rightarrow> oxi_error + byte list" where
  "hkdf_from_prk ox prk = rbind (oxi_module ox) (\<lambda>_. if length prk = ARGON2_OUTPUT_LEN then Inr prk else Inl InvalidInput)"

definition trust_events_info :: "string \<Rightarrow> byte list" where
  "trust_events_info profile_id = ascii (''daemonseed/trust-events/'' @ profile_id)"

definition derive_audit_log_key :: "'a log_env \<Rightarrow> byte list \<Rightarrow> byte list \<Rightarrow> argon_params \<Rightarrow> 'a audit_log_error + byte list" where
  "derive_audit_log_key env passphrase profile_id params =
    rbind (map_err AlArgon2 (le_argon2 env params passphrase profile_id)) (\<lambda>intermediate.
    rbind (map_err AlHkdf (hkdf_from_prk (le_oxi env) intermediate)) (\<lambda>hkdf.
    map_err AlHkdf (hkdf_expand (le_oxi env) hkdf (trust_events_info (le_uuid_string env profile_id)) AEAD_KEY_LEN)))"

definition log_header :: "byte list \<Rightarrow> argon_params \<Rightarrow> byte list" where
  "log_header profile_id argon2 = MAGIC_V2 @ profile_id @ u32_le (ap_memory_kib argon2) @ u32_le (ap_iterations argon2) @
     u32_le (ap_parallelism argon2)"

definition seal_log ::
  "'a log_env \<Rightarrow> byte list option \<Rightarrow> trust_event_log \<Rightarrow> byte list \<Rightarrow> byte list \<Rightarrow> argon_params \<Rightarrow> 'a audit_log_error + byte list" where
  "seal_log env draw l passphrase profile_id argon2 =
    rbind (derive_audit_log_key env passphrase profile_id argon2) (\<lambda>key.
    rbind (map_err AlAesKeyInit (aes256_key (le_oxi env) key)) (\<lambda>aes.
    rbind (ok_or AlEntropySource draw) (\<lambda>nonce.
    let header = log_header profile_id argon2
    in rbind (map_err AlAesMode (gcm_encrypt (le_oxi env) aes nonce header (encode_log l))) (\<lambda>(ciphertext, tag).
       Inr (header @ nonce @ ciphertext @ tag)))))"

definition open_log :: "'a log_env \<Rightarrow> byte list \<Rightarrow> byte list \<Rightarrow> 'a audit_log_error + trust_event_log" where
  "open_log env bs passphrase =
    (if length bs < HEADER_LEN + NONCE_LEN + TAG_LEN then Inl (AlMalformed ''shorter than minimum header'')
     else
       rbind (let m = take (length MAGIC_V2) bs
         in if m = MAGIC_V2 then Inr V2 else if m = MAGIC_V1 then Inr V1 else Inl (AlMalformed ''magic prefix mismatch'')) (\<lambda>version.
       let cursor = length MAGIC_V2;
         profile_id = take PROFILE_ID_LEN (drop cursor bs); cursor = cursor + PROFILE_ID_LEN;
         memory_kib = u32_of_le (take 4 (drop cursor bs)); cursor = cursor + 4;
         iterations = u32_of_le (take 4 (drop cursor bs)); cursor = cursor + 4;
         parallelism = u32_of_le (take 4 (drop cursor bs)); cursor = cursor + 4;
         argon2 = \<lparr>ap_memory_kib = memory_kib, ap_iterations = iterations, ap_parallelism = parallelism\<rparr>
       in if \<not> is_openable argon2 then Inl (AlMalformed ''argon parameters out of range'')
       else
         let header = take cursor bs;
           nonce = take NONCE_LEN (drop cursor bs); cursor = cursor + NONCE_LEN;
           ciphertext_len = length bs - cursor - TAG_LEN;
           ciphertext = take ciphertext_len (drop cursor bs);
           tag = drop (cursor + ciphertext_len) bs
         in rbind (derive_audit_log_key env passphrase profile_id argon2) (\<lambda>key.
            rbind (map_err AlAesKeyInit (aes256_key (le_oxi env) key)) (\<lambda>aes.
            rbind (map_err (\<lambda>e. if e = TagMismatch then AlAuthenticationFailed else AlAesMode e)
              (gcm_decrypt (le_oxi env) aes nonce header ciphertext tag)) (\<lambda>plaintext.
            ok_or (AlMalformed ''bad log body'') (decode_log plaintext version))))))"

section \<open>Words\<close>

lemma event_words: "known_word event_key_from_str (ascii (event_key_string k)) = Some k" "length (event_key_string k) < 65536"
proof -
  show "known_word event_key_from_str (ascii (event_key_string k)) = Some k"
    by (cases k) (simp_all add: known_word_def event_key_from_str_def ALL_EVENT_KEYS_def, simp_all add: ascii_def in_range_def)
qed (cases k; simp)

lemma kind_words: "known_word from_stable_str (ascii (stable_str k)) = Some k" "length (stable_str k) < 65536"
proof -
  show "known_word from_stable_str (ascii (stable_str k)) = Some k"
    by (cases k) (simp_all add: known_word_def from_stable_str_def ALL_RECORD_KINDS_def, simp_all add: ascii_def in_range_def)
qed (cases k; simp)

section \<open>Reading a body back\<close>

text \<open>An entry as it stands in a file, whose words may be those of another build.\<close>

record raw_entry =
  rw_timestamp :: int
  rw_key :: "byte list"
  rw_server :: "byte list option"
  rw_suite :: "suite_id option"
  rw_resolution :: resolution_status
  rw_dismissed :: "int option"
  rw_kind :: "byte list option"

definition raw_encode :: "raw_entry \<Rightarrow> byte list" where
  "raw_encode r = i64_le (rw_timestamp r) @ enc_str16 (rw_key r) @ enc_opt enc_str16 (rw_server r) @ enc_opt u16_le (rw_suite r) @
     [case rw_resolution r of Unresolved \<Rightarrow> 0 | Resolved \<Rightarrow> 1] @ enc_opt i64_le (rw_dismissed r) @ enc_opt enc_str16 (rw_kind r)"

definition raw_of :: "trust_event \<Rightarrow> raw_entry" where
  "raw_of e = \<lparr>rw_timestamp = tv_timestamp_unix_ms e, rw_key = ascii (event_key_string (tv_key e)), rw_server = tv_server_id e,
     rw_suite = tv_suite_id e, rw_resolution = tv_resolution e, rw_dismissed = tv_dismissed_at_unix_ms e,
     rw_kind = map_option (ascii \<circ> stable_str) (tv_record_kind e)\<rparr>"

definition raw_read :: "raw_entry \<Rightarrow> trust_event option" where
  "raw_read r = map_option (\<lambda>key. \<lparr>tv_timestamp_unix_ms = rw_timestamp r, tv_key = key, tv_server_id = rw_server r,
     tv_suite_id = rw_suite r, tv_record_kind = Option.bind (rw_kind r) (known_word from_stable_str),
     tv_resolution = rw_resolution r, tv_dismissed_at_unix_ms = rw_dismissed r\<rparr>) (known_word event_key_from_str (rw_key r))"

definition str16_ok :: "byte list \<Rightarrow> bool" where "str16_ok s \<longleftrightarrow> length s < 65536"

definition raw_ok :: "raw_entry \<Rightarrow> bool" where
  "raw_ok r \<longleftrightarrow> i64_ok (rw_timestamp r) \<and> str16_ok (rw_key r) \<and> pred_option (\<lambda>s. str16_ok s \<and> utf8_valid s) (rw_server r) \<and>
     pred_option suite_id_ok (rw_suite r) \<and> pred_option i64_ok (rw_dismissed r) \<and> pred_option str16_ok (rw_kind r)"

definition event_ok :: "trust_event \<Rightarrow> bool" where
  "event_ok e \<longleftrightarrow> i64_ok (tv_timestamp_unix_ms e) \<and> pred_option (\<lambda>s. str16_ok s \<and> utf8_valid s) (tv_server_id e) \<and>
     pred_option suite_id_ok (tv_suite_id e) \<and> pred_option i64_ok (tv_dismissed_at_unix_ms e)"

lemma event_raw:
  "raw_read (raw_of e) = Some e" "encode_event e = raw_encode (raw_of e)" "event_ok e \<Longrightarrow> raw_ok (raw_of e)"
proof -
  show "raw_read (raw_of e) = Some e"
    by (cases "tv_record_kind e") (simp_all add: raw_read_def raw_of_def event_words kind_words)
  show "encode_event e = raw_encode (raw_of e)"
    by (cases "tv_record_kind e") (simp_all add: raw_of_def raw_encode_def encode_event_def enc_opt_def)
  show "event_ok e \<Longrightarrow> raw_ok (raw_of e)"
    using event_words(2) [of "tv_key e"] kind_words(2)
    by (cases "tv_record_kind e") (simp_all add: raw_of_def event_ok_def raw_ok_def str16_ok_def ascii_def)
qed

lemma cur_takes:
  "length a = n \<Longrightarrow> cur_bytes n (a @ c) = Some (a, c)" "cur_u8 (b # c) = Some (b, c)" "cur_u16 (u16_le w @ c) = Some (w, c)"
  "cur_u32 (u32_le v @ c) = Some (v, c)" "i64_ok x \<Longrightarrow> cur_i64 (i64_le x @ c) = Some (x, c)"
  by (simp_all add: cur_bytes_def cur_u8_def cur_u16_def cur_u32_def cur_i64_def u16_le_def i64_le_def i64_be_def)
    (simp add: i64_be_def [symmetric])

lemma cur_strings:
  "str16_ok s \<Longrightarrow> cur_str16 (enc_str16 s @ c) = Some (s, c)"
  "str16_ok s \<Longrightarrow> utf8_valid s \<Longrightarrow> cur_utf8 (enc_str16 s @ c) = Some (s, c)"
  "suite_id_ok i \<Longrightarrow> cur_suite (u16_le i @ c) = Some (i, c)"
  by (simp_all add: cur_str16_def enc_str16_def cur_takes str16_ok_def unat_of_nat cur_utf8_def cur_suite_def suite_id_try_new_def suite_id_ok_def)

lemma cur_opts:
  assumes "pred_option (\<lambda>x. \<forall>c. rd (enc x @ c) = Some (x, c)) v"
  shows "cur_opt rd (enc_opt enc v @ c) = Some (v, c)"
  using assms by (cases v) (simp_all add: cur_opt_def enc_opt_def cur_takes)

lemma decode_event_raw:
  assumes "raw_ok r"
  shows "decode_event V2 (raw_encode r @ c) = Some (raw_read r, c)"
proof -
  have o: "cur_opt cur_utf8 (enc_opt enc_str16 (rw_server r) @ d) = Some (rw_server r, d)"
    "cur_opt cur_suite (enc_opt u16_le (rw_suite r) @ d) = Some (rw_suite r, d)"
    "cur_opt cur_i64 (enc_opt i64_le (rw_dismissed r) @ d) = Some (rw_dismissed r, d)" for d
    using assms by (auto intro!: cur_opts simp: raw_ok_def cur_strings cur_takes elim!: option.pred_mono_strong)
  have k: "cur_record_kind V2 (enc_opt enc_str16 (rw_kind r) @ c) = Some (Option.bind (rw_kind r) (known_word from_stable_str), c)"
    using assms by (cases "rw_kind r") (simp_all add: cur_record_kind_def enc_opt_def cur_takes cur_strings raw_ok_def)
  have res: "cur_resolution ((case rw_resolution r of Unresolved \<Rightarrow> 0 | Resolved \<Rightarrow> 1) # d) = Some (rw_resolution r, d)" for d
    by (cases "rw_resolution r") (simp_all add: cur_resolution_def cur_takes)
  show ?thesis using assms by (simp add: decode_event_def raw_encode_def cur_takes cur_strings o k res raw_ok_def raw_read_def)
qed

lemma decode_loop_raw:
  "list_all raw_ok rs \<Longrightarrow> decode_entries_loop V2 (length rs) (concat (map raw_encode rs)) =
     Some (List.map_filter raw_read rs, length (filter (\<lambda>r. raw_read r = None) rs))"
  by (induction rs) (simp_all add: decode_event_raw List.map_filter_def split: option.split)

definition raw_body :: "raw_entry list \<Rightarrow> byte list" where
  "raw_body rs = u32_le (word_of_nat (length rs)) @ concat (map raw_encode rs)"

lemma decode_raw_body:
  assumes "list_all raw_ok rs" "length rs < 2 ^ 32"
  shows "decode_log (raw_body rs) V2 = Some \<lparr>tl_entries = List.map_filter raw_read rs,
     tl_cap = max (length (List.map_filter raw_read rs)) DEFAULT_LOG_CAP, tl_unreadable = length (filter (\<lambda>r. raw_read r = None) rs)\<rparr>"
  using assms by (simp add: decode_log_def raw_body_def cur_takes unat_of_nat decode_loop_raw)

lemma encode_log_raw: "encode_log l = raw_body (map raw_of (tl_entries l))"
  by (simp add: encode_log_def raw_body_def comp_def event_raw(2) [symmetric])

lemma read_raw_of: "List.map_filter raw_read (map raw_of es) = es" "filter (\<lambda>r. raw_read r = None) (map raw_of es) = []"
  by (simp_all add: List.map_filter_def event_raw comp_def filter_empty_conv)

definition log_ok :: "trust_event_log \<Rightarrow> bool" where
  "log_ok l \<longleftrightarrow> list_all event_ok (tl_entries l) \<and> length (tl_entries l) < 2 ^ 32"

definition reopened :: "trust_event_log \<Rightarrow> trust_event_log" where
  "reopened l = \<lparr>tl_entries = tl_entries l, tl_cap = max (length (tl_entries l)) DEFAULT_LOG_CAP, tl_unreadable = 0\<rparr>"

lemma decode_encode_log: "log_ok l \<Longrightarrow> decode_log (encode_log l) V2 = Some (reopened l)"
  using decode_raw_body [of "map raw_of (tl_entries l)"]
  by (simp add: log_ok_def encode_log_raw read_raw_of reopened_def list_all_iff event_raw(3))

section \<open>Reading a file back\<close>

lemma magic_lens: "length MAGIC_V1 = 11" "length MAGIC_V2 = 11"
  by (simp_all add: MAGIC_V1_def MAGIC_V2_def ascii_def)

lemma open_seal:
  assumes law: "gcm_law (le_oxi env)" and ap: "is_openable ap" "length profile_id = PROFILE_ID_LEN" and l: "log_ok l"
    and seal: "seal_log env draw l passphrase profile_id ap = Inr bs"
  shows "open_log env bs passphrase = Inr (reopened l)"
proof -
  from seal obtain key aes nonce ct tag where k: "derive_audit_log_key env passphrase profile_id ap = Inr key" "aes256_key (le_oxi env) key = Inr aes"
    and g: "gcm_encrypt (le_oxi env) aes nonce (log_header profile_id ap) (encode_log l) = Inr (ct, tag)"
    and bs: "bs = log_header profile_id ap @ nonce @ ct @ tag"
    by (auto simp: seal_log_def Let_def result_simps)
  from g have n: "length nonce = 12" by (auto simp: gcm_encrypt_def gcm_nonce_def result_simps split: if_splits)
  note d = gcm_lawD [OF law g]
  have e: "\<lparr>ap_memory_kib = ap_memory_kib ap, ap_iterations = ap_iterations ap, ap_parallelism = ap_parallelism ap\<rparr> = ap" by simp
  from k ap d n show ?thesis
    by (simp add: e open_log_def bs log_header_def HEADER_LEN_def magic_lens PROFILE_ID_LEN_def NONCE_LEN_def TAG_LEN_def Let_def
        decode_encode_log [OF l])
qed

text \<open>Opening hands only openable parameters to Argon2.\<close>

lemma open_cost:
  assumes "le_oxi env' = le_oxi env" "le_uuid_string env' = le_uuid_string env"
    and "\<And>ap pw salt. is_openable ap \<Longrightarrow> le_argon2 env' ap pw salt = le_argon2 env ap pw salt"
  shows "open_log env' bs pw = open_log env bs pw"
proof -
  have "is_openable ap \<Longrightarrow> derive_audit_log_key env' pw pid ap = derive_audit_log_key env pw pid ap" for ap pid
    using assms by (simp add: derive_audit_log_key_def)
  then show ?thesis by (simp add: open_log_def Let_def assms(1) cong: if_cong)
qed

section \<open>A log and everything that was recorded\<close>

text \<open>What happens to a log: an event, a dismissal, a smaller or larger bound, and a relaunch through its file.\<close>

datatype log_op =
    OpAppend trust_event
  | OpDismiss trust_event_key dismissal_scope int
  | OpPrune nat
  | OpReopen "byte list option" "byte list" "byte list" argon_params

fun log_step :: "'a log_env \<Rightarrow> log_op \<Rightarrow> trust_event_log \<Rightarrow> trust_event_log" where
  "log_step env (OpAppend e) l = log_append e l"
| "log_step env (OpDismiss key scope t) l = log_dismiss key scope t l"
| "log_step env (OpPrune cap) l = log_prune_to cap l"
| "log_step env (OpReopen draw pw pid ap) l =
    (case seal_log env draw l pw pid ap of Inl _ \<Rightarrow> l
     | Inr bs \<Rightarrow> (case open_log env bs pw of Inl _ \<Rightarrow> \<lparr>tl_entries = [], tl_cap = 0, tl_unreadable = 0\<rparr> | Inr l' \<Rightarrow> l'))"

text \<open>Everything ever recorded, with its dismissals: no bound, no file.\<close>

fun record_step :: "log_op \<Rightarrow> trust_event list \<Rightarrow> trust_event list" where
  "record_step (OpAppend e) es = (if class_of (tv_key e) = Transient then es else es @ [e])"
| "record_step (OpDismiss key scope t) es = map (dismiss_event key scope t) es"
| "record_step (OpPrune cap) es = es"
| "record_step (OpReopen draw pw pid ap) es = es"

fun op_ok :: "log_op \<Rightarrow> bool" where
  "op_ok (OpAppend e) \<longleftrightarrow> event_ok e"
| "op_ok (OpDismiss key scope t) \<longleftrightarrow> i64_ok t"
| "op_ok (OpPrune cap) \<longleftrightarrow> True"
| "op_ok (OpReopen draw pw pid ap) \<longleftrightarrow> is_openable ap \<and> length pid = PROFILE_ID_LEN"

fun keeps_bound :: "nat \<Rightarrow> log_op \<Rightarrow> bool" where
  "keeps_bound cap (OpPrune c) \<longleftrightarrow> cap \<le> c"
| "keeps_bound cap (OpReopen draw pw pid ap) \<longleftrightarrow> cap \<le> DEFAULT_LOG_CAP"
| "keeps_bound cap (OpAppend e) \<longleftrightarrow> True"
| "keeps_bound cap (OpDismiss key scope t) \<longleftrightarrow> True"

definition newest :: "trust_event_log \<Rightarrow> trust_event list \<Rightarrow> bool" where
  "newest l es \<longleftrightarrow> tl_entries l = drop (length es - length (tl_entries l)) es \<and> length (tl_entries l) \<le> length es \<and>
     length (tl_entries l) \<le> tl_cap l \<and> list_all event_ok es"

definition full :: "nat \<Rightarrow> trust_event_log \<Rightarrow> trust_event list \<Rightarrow> bool" where
  "full cap l es \<longleftrightarrow> cap \<le> tl_cap l \<and> min (length es) cap \<le> length (tl_entries l)"

lemma newest_iff:
  "newest l es \<longleftrightarrow> (\<exists>xs. es = xs @ tl_entries l) \<and> length (tl_entries l) \<le> tl_cap l \<and> list_all event_ok es"
proof
  assume n: "newest l es"
  then have "es = take (length es - length (tl_entries l)) es @ tl_entries l" by (metis append_take_drop_id newest_def)
  with n show "(\<exists>xs. es = xs @ tl_entries l) \<and> length (tl_entries l) \<le> tl_cap l \<and> list_all event_ok es" by (auto simp: newest_def)
qed (auto simp: newest_def)

lemma prune_entries:
  "tl_cap (log_prune_to cap l) = cap" "tl_entries (log_prune_to cap l) = drop (length (tl_entries l) - cap) (tl_entries l)"
  by (auto simp: log_prune_to_def Let_def)

lemma prune_newest:
  assumes "\<exists>xs. es = xs @ tl_entries l" "list_all event_ok es"
  shows "newest (log_prune_to cap l) es"
proof -
  from assms(1) obtain xs where "es = xs @ tl_entries l" ..
  then have "es = (xs @ take (length (tl_entries l) - cap) (tl_entries l)) @ tl_entries (log_prune_to cap l)" by (simp add: prune_entries)
  then have "\<exists>ys. es = ys @ tl_entries (log_prune_to cap l)" ..
  with assms(2) show ?thesis unfolding newest_iff by (simp add: prune_entries)
qed

lemma dismiss_ok: "event_ok e \<Longrightarrow> i64_ok t \<Longrightarrow> event_ok (dismiss_event key scope t e)"
  unfolding dismiss_event_def by (auto simp: event_ok_def)

lemma reopen_step:
  assumes "gcm_law (le_oxi env)" "op_ok (OpReopen draw pw pid ap)" "newest l es" "length es < 2 ^ 32"
  shows "log_step env (OpReopen draw pw pid ap) l \<in> {l, reopened l}"
proof -
  have "log_ok l" using assms(3,4) by (auto simp: newest_iff log_ok_def list_all_iff)
  then show ?thesis using open_seal [OF assms(1) _ _ \<open>log_ok l\<close>] assms(2) by (auto split: sum.split)
qed

lemma log_step_newest:
  assumes "gcm_law (le_oxi env)" "op_ok a" "newest l es" "length es < 2 ^ 32"
  shows "newest (log_step env a l) (record_step a es)"
proof (cases a)
  case (OpAppend e)
  from assms(3) obtain xs where "es = xs @ tl_entries l" "list_all event_ok es" by (auto simp: newest_iff)
  with assms(2,3) show ?thesis using prune_newest [of "es @ [e]" "l\<lparr>tl_entries := tl_entries l @ [e]\<rparr>" "tl_cap l"]
    by (auto simp: OpAppend log_append_def)
next
  case (OpDismiss key scope t)
  with assms(2,3) show ?thesis by (auto simp: newest_iff log_dismiss_def list_all_iff dismiss_ok)
next
  case (OpPrune cap)
  with assms(3) show ?thesis by (auto simp: newest_iff [of l] intro: prune_newest)
next
  case (OpReopen draw pw pid ap)
  with reopen_step [of env draw pw pid ap l es] assms show ?thesis by (auto simp: newest_iff reopened_def)
qed

lemma log_step_full:
  assumes "gcm_law (le_oxi env)" "op_ok a" "newest l es" "length es < 2 ^ 32" "keeps_bound cap a" "full cap l es"
  shows "full cap (log_step env a l) (record_step a es)"
proof (cases a)
  case (OpReopen draw pw pid ap)
  with reopen_step [of env draw pw pid ap l es] assms show ?thesis by (auto simp: full_def reopened_def)
qed (use assms(5,6) in \<open>auto simp: full_def log_append_def log_dismiss_def prune_entries Let_def\<close>)

lemma record_step_length: "length (record_step a es) \<le> Suc (length es)"
  by (cases a) simp_all

lemma log_run_newest:
  assumes "gcm_law (le_oxi env)"
  shows "list_all op_ok ops \<Longrightarrow> newest l es \<Longrightarrow> length es + length ops < 2 ^ 32 \<Longrightarrow>
    newest (fold (log_step env) ops l) (fold record_step ops es) \<and>
    (list_all (keeps_bound cap) ops \<longrightarrow> full cap l es \<longrightarrow> full cap (fold (log_step env) ops l) (fold record_step ops es))"
proof (induction ops arbitrary: l es)
  case (Cons a ops)
  from Cons.prems have s: "newest (log_step env a l) (record_step a es)" using log_step_newest [OF assms] by simp
  have len: "length (record_step a es) + length ops < 2 ^ 32" using record_step_length [of a es] Cons.prems(3) by simp
  have "keeps_bound cap a \<Longrightarrow> full cap l es \<Longrightarrow> full cap (log_step env a l) (record_step a es)"
    using log_step_full [OF assms] Cons.prems by simp
  with Cons.IH [OF _ s len] Cons.prems(1) show ?case by auto
qed simp

section \<open>The properties\<close>

text \<open>
  C26. The trust log keeps the newest events. Whatever is appended, dismissed and pruned, and however often the log goes
  through its sealed file: its entries are the newest of all the events recorded, in order and with their dismissals,
  within the bound; and where the bound never went below a number, at least that many of the newest are there. Only a
  transient event is not recorded, and a dismissal removes nothing.
\<close>

theorem trust_log_keeps_the_newest:
  assumes "gcm_law (le_oxi env)" "list_all op_ok ops" "length ops < 2 ^ 32"
  shows "let l = fold (log_step env) ops (log_new cap); es = fold record_step ops []
    in tl_entries l = drop (length es - length (tl_entries l)) es \<and> length (tl_entries l) \<le> tl_cap l \<and>
      (list_all (keeps_bound cap) ops \<longrightarrow> min (length es) cap \<le> length (tl_entries l))"
proof -
  have "newest (log_new cap) []" "full cap (log_new cap) []" by (simp_all add: newest_def full_def log_new_def)
  with log_run_newest [OF assms(1,2) this(1), of cap] assms(3) show ?thesis by (simp add: newest_def full_def Let_def)
qed

text \<open>
  C27. A trust log reads back. Sealed under openable parameters, a log opens to its very entries. A body of a later build
  loses nothing but what this build has no word for: an entry of an unknown key is counted, an unknown record kind
  becomes none, and everything else is read. And opening runs Argon2 only at openable parameters, whatever the file says.
\<close>

theorem trust_log_reads_back:
  assumes "gcm_law (le_oxi env)" "is_openable ap" "length profile_id = PROFILE_ID_LEN" "log_ok l"
    and "seal_log env draw l passphrase profile_id ap = Inr bs" "list_all raw_ok rs" "length rs < 2 ^ 32"
    and "le_oxi env' = le_oxi env" "le_uuid_string env' = le_uuid_string env"
    and "\<forall>ap pw salt. is_openable ap \<longrightarrow> le_argon2 env' ap pw salt = le_argon2 env ap pw salt"
  shows "open_log env bs passphrase = Inr (reopened l) \<and>
    decode_log (raw_body rs) V2 = Some \<lparr>tl_entries = List.map_filter raw_read rs,
      tl_cap = max (length (List.map_filter raw_read rs)) DEFAULT_LOG_CAP, tl_unreadable = length (filter (\<lambda>r. raw_read r = None) rs)\<rparr> \<and>
    open_log env' any pw = open_log env any pw"
  using open_seal [OF assms(1-5)] decode_raw_body [OF assms(6,7)] open_cost [OF assms(8,9)] assms(10) by simp

section \<open>A file of a later build\<close>

definition demo_log_env :: "unit log_env" where
  "demo_log_env = \<lparr>le_oxi = demo_oxi, le_argon2 = (\<lambda>ap pw salt. Inr (replicate 48 0)), le_uuid_string = (\<lambda>_. ''id'')\<rparr>"

definition demo_params :: argon_params where
  "demo_params = \<lparr>ap_memory_kib = 19456, ap_iterations = 2, ap_parallelism = 1\<rparr>"

definition demo_event :: trust_event where
  "demo_event = scope_observed_at (scope_for_record DmRecordErasureBlocked RkConversation) 7 (Some (ascii ''relay'')) (Some 1)"

definition demo_log :: trust_event_log where
  "demo_log = log_append demo_event (log_new 5)"

definition demo_raws :: "raw_entry list" where
  "demo_raws = [raw_of demo_event, (raw_of demo_event)\<lparr>rw_key := ascii ''later-key''\<rparr>, (raw_of demo_event)\<lparr>rw_kind := Some (ascii ''later'')\<rparr>]"

lemma demo_event_ok: "event_ok demo_event"
  by (simp add: event_ok_def demo_event_def scope_observed_at_def i64_ok_def suite_id_ok_def SENTINEL_INVALID_def SENTINEL_MAX_def
      str16_ok_def ascii_def in_range_def)

lemma demo_params_ok: "is_openable demo_params"
  by (simp add: is_openable_def demo_params_def MAX_OPENABLE_MEMORY_KIB_def MAX_OPENABLE_ITERATIONS_def MAX_OPENABLE_PARALLELISM_def
      MAX_OPENABLE_MEMORY_ITERATION_PRODUCT_def)

lemma demo_log_law: "gcm_law (le_oxi demo_log_env)"
  by (simp add: demo_log_env_def demo_gcm_law)

lemma trust_log_keeps_the_newest_witness:
  "let l = fold (log_step demo_log_env) [OpAppend demo_event, OpAppend demo_event, OpDismiss DmRecordErasureBlocked
      \<lparr>ds_server_id = None, ds_suite_id = None, ds_record_kind = None\<rparr> 9, OpAppend demo_event] (log_new 2)
   in length (tl_entries l) = 2 \<and> tl_entries l = [demo_event, demo_event]"
proof -
  let ?ops = "[OpAppend demo_event, OpAppend demo_event, OpDismiss DmRecordErasureBlocked
      \<lparr>ds_server_id = None, ds_suite_id = None, ds_record_kind = None\<rparr> 9, OpAppend demo_event]"
  let ?l = "fold (log_step demo_log_env) ?ops (log_new 2)"
  have c: "class_of (tv_key demo_event) \<noteq> Transient" "dismiss_event k \<lparr>ds_server_id = None, ds_suite_id = r, ds_record_kind = q\<rparr> t demo_event = demo_event" for k r q t
    by (simp_all add: demo_event_def scope_observed_at_def scope_for_record_def dismiss_event_def)
  have "list_all op_ok ?ops" by (simp add: demo_event_ok i64_ok_def)
  have rec: "fold record_step ?ops [] = [demo_event, demo_event, demo_event]" by (simp add: c)
  have kb: "list_all (keeps_bound 2) ?ops" by simp
  note r = trust_log_keeps_the_newest [OF demo_log_law \<open>list_all op_ok ?ops\<close>, of 2, unfolded Let_def rec]
  have "tl_cap ?l = 2" by (simp add: log_append_def log_dismiss_def prune_entries log_new_def c Let_def)
  with r kb have len: "length (tl_entries ?l) = 2" by auto
  from r have "tl_entries ?l = drop (length [demo_event, demo_event, demo_event] - length (tl_entries ?l)) [demo_event, demo_event, demo_event]"
    by auto
  also have "\<dots> = [demo_event, demo_event]" unfolding len by simp
  finally show ?thesis using len by (simp only: Let_def simp_thms)
qed

lemma trust_log_reads_back_witness:
  "open_log demo_log_env (case seal_log demo_log_env (Some (replicate 12 3)) demo_log [] (replicate 16 1) demo_params of Inr bs \<Rightarrow> bs) [] =
     Inr (reopened demo_log) \<and>
   decode_log (raw_body demo_raws) V2 = Some \<lparr>tl_entries = [demo_event, demo_event\<lparr>tv_record_kind := None\<rparr>],
     tl_cap = DEFAULT_LOG_CAP, tl_unreadable = 1\<rparr>"
proof -
  obtain bs where bs: "seal_log demo_log_env (Some (replicate 12 3)) demo_log [] (replicate 16 1) demo_params = Inr bs"
    by (simp add: seal_log_def derive_audit_log_key_def hkdf_from_prk_def demo_log_env_def oxi_defs demo_oxi_def gcm_nonce_def ARGON2_OUTPUT_LEN_def
        AEAD_KEY_LEN_def Let_def)
  have e: "raw_ok (raw_of demo_event)" using event_raw(3) [OF demo_event_ok] .
  have "raw_ok ((raw_of demo_event)\<lparr>rw_key := ascii ''later-key''\<rparr>)" "raw_ok ((raw_of demo_event)\<lparr>rw_kind := Some (ascii ''later'')\<rparr>)"
    using e by (simp_all add: raw_ok_def str16_ok_def ascii_def)
  with e have raws: "list_all raw_ok demo_raws" by (simp add: demo_raws_def)
  have w: "known_word event_key_from_str (ascii ''later-key'') = None" "known_word from_stable_str (ascii ''later'') = None"
    by (simp_all add: known_word_def event_key_from_str_def ALL_EVENT_KEYS_def from_stable_str_def ALL_RECORD_KINDS_def)
  have "log_ok demo_log" by (simp add: log_ok_def demo_log_def log_append_def prune_entries log_new_def Let_def demo_event_ok
    demo_event_def scope_observed_at_def scope_for_record_def) (simp add: demo_event_ok [unfolded demo_event_def scope_observed_at_def scope_for_record_def, simplified])
  note r = trust_log_reads_back [OF demo_log_law demo_params_ok _ this bs raws, of demo_log_env "[]" "[]"]
  have m: "List.map_filter raw_read demo_raws = [demo_event, demo_event\<lparr>tv_record_kind := None\<rparr>]"
    "length (filter (\<lambda>r. raw_read r = None) demo_raws) = 1"
    using event_raw(1) [of demo_event]
    by (simp_all add: demo_raws_def List.map_filter_def raw_read_def raw_of_def w event_words demo_event_def scope_observed_at_def scope_for_record_def)
  from r m bs show ?thesis by (simp add: PROFILE_ID_LEN_def DEFAULT_LOG_CAP_def demo_raws_def)
qed

end
