(* ===== verification/Federation.thy ===== *)
theory Federation
  imports Handle "HOL-Library.AList"
begin

text \<open>
  Whom a node trusts: the decision (\<open>federation/trust.rs\<close>), the store of servers (\<open>federation/store.rs\<close>), the peers that a
  relay introduces (\<open>federation/discovered.rs\<close>) and the tie-breaker of two servers (\<open>federation/peering.rs\<close>). The maps of
  the code are keyed by the shown handle.
\<close>

section \<open>The decision\<close>

datatype trust_mode = Trusted | Untrusted

datatype trust_decision = Accept | AcceptWithRotation ustr | Refuse

record trust_query =
  tq_mode :: trust_mode
  tq_expected_prefix :: "byte list"
  tq_presented_pubkey :: "byte list"
  tq_presented_prefix :: "byte list"
  tq_pinned_key :: "byte list option"
  tq_configured_key :: "byte list option"
  tq_rotation_dismissed :: bool

definition fingerprint :: "hex_crate \<Rightarrow> byte list \<Rightarrow> ustr" where
  "fingerprint hx prefix = HASH_SIGN # hex_encode hx prefix"

definition evaluate_trust :: "hex_crate \<Rightarrow> trust_query \<Rightarrow> trust_decision" where
  "evaluate_trust hx q =
    (case tq_mode q of
       Untrusted \<Rightarrow>
         (case tq_configured_key q of
            Some k \<Rightarrow> if k = tq_presented_pubkey q then Accept else Refuse
          | None \<Rightarrow> Refuse)
     | Trusted \<Rightarrow>
         (case tq_pinned_key q of
            None \<Rightarrow> if tq_presented_prefix q = tq_expected_prefix q then Accept else Refuse
          | Some pin \<Rightarrow>
              if pin = tq_presented_pubkey q \<or> tq_rotation_dismissed q then Accept
              else AcceptWithRotation (fingerprint hx (tq_presented_prefix q))))"

section \<open>The store\<close>

record server_entry =
  se_server_id :: handle
  se_address :: string
  se_mode :: trust_mode
  se_pinned_key :: "byte list option"
  se_configured_key :: "byte list option"
  se_rotation_dismissed :: bool

definition new_trusted :: "handle \<Rightarrow> string \<Rightarrow> server_entry" where
  "new_trusted server_id address = \<lparr>se_server_id = server_id, se_address = address, se_mode = Trusted,
     se_pinned_key = None, se_configured_key = None, se_rotation_dismissed = False\<rparr>"

definition new_untrusted :: "handle \<Rightarrow> string \<Rightarrow> byte list \<Rightarrow> server_entry" where
  "new_untrusted server_id address configured_key = \<lparr>se_server_id = server_id, se_address = address, se_mode = Untrusted,
     se_pinned_key = None, se_configured_key = Some configured_key, se_rotation_dismissed = False\<rparr>"

type_synonym trust_store = "(ustr \<times> server_entry) list"

definition store_get :: "hex_crate \<Rightarrow> handle \<Rightarrow> trust_store \<Rightarrow> server_entry option" where
  "store_get hx server_id st = map_of st (handle_display hx server_id)"

definition store_upsert :: "hex_crate \<Rightarrow> server_entry \<Rightarrow> trust_store \<Rightarrow> trust_store" where
  "store_upsert hx e st = AList.update (handle_display hx (se_server_id e)) e st"

definition set_pin :: "hex_crate \<Rightarrow> handle \<Rightarrow> byte list \<Rightarrow> trust_store \<Rightarrow> trust_store" where
  "set_pin hx server_id key st = AList.map_entry (handle_display hx server_id) (\<lambda>e. e\<lparr>se_pinned_key := Some key\<rparr>) st"

definition dismiss_rotation :: "hex_crate \<Rightarrow> handle \<Rightarrow> trust_store \<Rightarrow> trust_store" where
  "dismiss_rotation hx server_id st = AList.map_entry (handle_display hx server_id) (\<lambda>e. e\<lparr>se_rotation_dismissed := True\<rparr>) st"

definition apply_trust :: "hex_crate \<Rightarrow> trust_store \<Rightarrow> handle \<Rightarrow> byte list \<Rightarrow> byte list \<Rightarrow> trust_decision \<times> trust_store" where
  "apply_trust hx st server_id presented_pubkey presented_prefix =
    (case store_get hx server_id st of
       None \<Rightarrow> (Refuse, st)
     | Some entry \<Rightarrow>
         let decision = evaluate_trust hx
           \<lparr>tq_mode = se_mode entry, tq_expected_prefix = hd_hash_prefix (se_server_id entry),
            tq_presented_pubkey = presented_pubkey, tq_presented_prefix = presented_prefix,
            tq_pinned_key = se_pinned_key entry, tq_configured_key = se_configured_key entry,
            tq_rotation_dismissed = se_rotation_dismissed entry\<rparr>
         in (decision, if se_mode entry = Trusted \<and> decision \<noteq> Refuse then set_pin hx server_id presented_pubkey st else st))"

section \<open>Introductions\<close>

record discovered_peer =
  dpr_server_id :: handle
  dpr_address :: string

record merge_outcome =
  mo_added :: nat
  mo_skipped_known :: nat
  mo_skipped_duplicate :: nat
  mo_malformed :: nat

type_synonym discovered_peers = "(ustr \<times> discovered_peer) list"

text \<open>An introducer's answer: the texts of server ids, and addresses.\<close>

type_synonym introduction = "(ustr \<times> string) list"

definition merge_one :: "hex_crate \<Rightarrow> trust_store \<Rightarrow> ustr \<times> string \<Rightarrow> merge_outcome \<times> discovered_peers \<Rightarrow> merge_outcome \<times> discovered_peers" where
  "merge_one hx known triple = (\<lambda>(out, peers).
    case handle_from_str hx (fst triple) of
      Inl _ \<Rightarrow> (out\<lparr>mo_malformed := mo_malformed out + 1\<rparr>, peers)
    | Inr server_id \<Rightarrow>
        if store_get hx server_id known \<noteq> None then (out\<lparr>mo_skipped_known := mo_skipped_known out + 1\<rparr>, peers)
        else let key = handle_display hx server_id
          in if map_of peers key \<noteq> None then (out\<lparr>mo_skipped_duplicate := mo_skipped_duplicate out + 1\<rparr>, peers)
          else (out\<lparr>mo_added := mo_added out + 1\<rparr>,
            AList.update key \<lparr>dpr_server_id = server_id, dpr_address = snd triple\<rparr> peers))"

definition merge_peers :: "hex_crate \<Rightarrow> introduction \<Rightarrow> trust_store \<Rightarrow> discovered_peers \<Rightarrow> merge_outcome \<times> discovered_peers" where
  "merge_peers hx response known peers =
    fold (merge_one hx known) response (\<lparr>mo_added = 0, mo_skipped_known = 0, mo_skipped_duplicate = 0, mo_malformed = 0\<rparr>, peers)"

definition promote :: "hex_crate \<Rightarrow> (handle \<Rightarrow> string \<Rightarrow> server_entry) \<Rightarrow> handle \<Rightarrow> discovered_peers \<times> trust_store \<Rightarrow>
    server_entry option \<times> discovered_peers \<times> trust_store" where
  "promote hx mk server_id = (\<lambda>(peers, st).
    case map_of peers (handle_display hx server_id) of
      None \<Rightarrow> (None, peers, st)
    | Some peer \<Rightarrow>
        let entry = mk (dpr_server_id peer) (dpr_address peer)
        in (Some entry, AList.delete (handle_display hx server_id) peers, store_upsert hx entry st))"

definition promote_trusted :: "hex_crate \<Rightarrow> handle \<Rightarrow> discovered_peers \<times> trust_store \<Rightarrow> server_entry option \<times> discovered_peers \<times> trust_store" where
  "promote_trusted hx = promote hx new_trusted"

definition promote_untrusted ::
  "hex_crate \<Rightarrow> handle \<Rightarrow> byte list \<Rightarrow> discovered_peers \<times> trust_store \<Rightarrow> server_entry option \<times> discovered_peers \<times> trust_store" where
  "promote_untrusted hx server_id configured_key = promote hx (\<lambda>i a. new_untrusted i a configured_key) server_id"

section \<open>Two servers\<close>

fun bytes_less :: "byte list \<Rightarrow> byte list \<Rightarrow> bool" where
  "bytes_less _ [] \<longleftrightarrow> False"
| "bytes_less [] (b # bs) \<longleftrightarrow> True"
| "bytes_less (a # as) (b # bs) \<longleftrightarrow> a < b \<or> a = b \<and> bytes_less as bs"

definition initiates_peer_tofu :: "byte list \<Rightarrow> byte list \<Rightarrow> bool" where
  "initiates_peer_tofu own_prefix peer_prefix = bytes_less own_prefix peer_prefix"

lemma one_side_initiates: "length a = length b \<Longrightarrow> a \<noteq> b \<Longrightarrow> initiates_peer_tofu a b \<noteq> initiates_peer_tofu b a"
  unfolding initiates_peer_tofu_def by (induction a b rule: bytes_less.induct) auto

section \<open>A node and its servers\<close>

text \<open>
  What reaches a node: the answer of an introducer, the user's own additions, promotions and dismissals, and a server that
  presents a key. The result of a connection is recorded.
\<close>

datatype federation_op =
    Introduced introduction
  | AddTrusted handle string
  | AddUntrusted handle string "byte list"
  | PromoteTrusted handle
  | PromoteUntrusted handle "byte list"
  | Dismiss handle
  | Connect handle "byte list" "byte list"

type_synonym node = "discovered_peers \<times> trust_store"

fun node_step :: "hex_crate \<Rightarrow> federation_op \<Rightarrow> node \<Rightarrow> node" where
  "node_step hx (Introduced r) (peers, st) = (snd (merge_peers hx r st peers), st)"
| "node_step hx (AddTrusted i a) (peers, st) = (peers, store_upsert hx (new_trusted i a) st)"
| "node_step hx (AddUntrusted i a k) (peers, st) = (peers, store_upsert hx (new_untrusted i a k) st)"
| "node_step hx (PromoteTrusted i) n = snd (promote_trusted hx i n)"
| "node_step hx (PromoteUntrusted i k) n = snd (promote_untrusted hx i k n)"
| "node_step hx (Dismiss i) (peers, st) = (peers, dismiss_rotation hx i st)"
| "node_step hx (Connect i key prefix) (peers, st) = (peers, snd (apply_trust hx st i key prefix))"

definition node_run :: "hex_crate \<Rightarrow> federation_op list \<Rightarrow> node" where
  "node_run hx ops = fold (node_step hx) ops ([], [])"

text \<open>
  What stands behind an entry. The user added or promoted it in its mode and with its configured key, and dismissed its
  rotations where they are dismissed; and a pinned key was presented under the server's id and not refused: the first
  with the id's own hash.
\<close>

fun user_trusts :: "handle \<Rightarrow> federation_op \<Rightarrow> bool" where
  "user_trusts i (AddTrusted j a) \<longleftrightarrow> i = j"
| "user_trusts i (PromoteTrusted j) \<longleftrightarrow> i = j"
| "user_trusts i _ \<longleftrightarrow> False"

fun user_configures :: "handle \<Rightarrow> byte list \<Rightarrow> federation_op \<Rightarrow> bool" where
  "user_configures i k (AddUntrusted j a l) \<longleftrightarrow> i = j \<and> k = l"
| "user_configures i k (PromoteUntrusted j l) \<longleftrightarrow> i = j \<and> k = l"
| "user_configures i k _ \<longleftrightarrow> False"

fun presents :: "handle \<Rightarrow> byte list \<Rightarrow> federation_op \<Rightarrow> bool" where
  "presents i k (Connect j l p) \<longleftrightarrow> i = j \<and> k = l"
| "presents i k _ \<longleftrightarrow> False"

fun presents_own_hash :: "handle \<Rightarrow> federation_op \<Rightarrow> bool" where
  "presents_own_hash i (Connect j l p) \<longleftrightarrow> i = j \<and> p = hd_hash_prefix i"
| "presents_own_hash i _ \<longleftrightarrow> False"

fun handle_of_op :: "federation_op \<Rightarrow> handle option" where
  "handle_of_op (AddTrusted i a) = Some i"
| "handle_of_op (AddUntrusted i a k) = Some i"
| "handle_of_op (PromoteTrusted i) = Some i"
| "handle_of_op (PromoteUntrusted i k) = Some i"
| "handle_of_op (Dismiss i) = Some i"
| "handle_of_op (Connect i k p) = Some i"
| "handle_of_op (Introduced r) = None"

definition ops_ok :: "federation_op list \<Rightarrow> bool" where
  "ops_ok ops \<longleftrightarrow> list_all (\<lambda>a. pred_option handle_ok (handle_of_op a)) ops"

definition earned :: "hex_crate \<Rightarrow> federation_op list \<Rightarrow> ustr \<times> server_entry \<Rightarrow> bool" where
  "earned hx ops = (\<lambda>(shown, e).
     let i = se_server_id e in shown = handle_display hx i \<and> handle_ok i \<and>
     (case se_mode e of
        Trusted \<Rightarrow> se_configured_key e = None \<and> list_ex (user_trusts i) ops \<and>
          (\<forall>k. se_pinned_key e = Some k \<longrightarrow> list_ex (presents i k) ops \<and> list_ex (presents_own_hash i) ops)
      | Untrusted \<Rightarrow> se_pinned_key e = None \<and> (\<exists>k. se_configured_key e = Some k \<and> list_ex (user_configures i k) ops)) \<and>
     (se_rotation_dismissed e \<longrightarrow> Dismiss i \<in> set ops))"

definition peers_ok :: "hex_crate \<Rightarrow> discovered_peers \<Rightarrow> bool" where
  "peers_ok hx peers \<longleftrightarrow> list_all (\<lambda>(shown, p). shown = handle_display hx (dpr_server_id p) \<and> handle_ok (dpr_server_id p)) peers"

definition node_inv :: "hex_crate \<Rightarrow> federation_op list \<Rightarrow> node \<Rightarrow> bool" where
  "node_inv hx ops = (\<lambda>(peers, st). distinct (map fst st) \<and> list_all (earned hx ops) st \<and> peers_ok hx peers)"

section \<open>Steps keep the invariant\<close>

lemma display_inj:
  assumes "hex_law hx" "handle_ok i" "handle_ok j" "handle_display hx i = handle_display hx j"
  shows "i = j"
  by (metis assms(4) from_str_display [OF assms(1,2)] from_str_display [OF assms(1,3)] sum.inject(2))

lemma list_ex_snoc [simp]: "list_ex P (xs @ [x]) \<longleftrightarrow> list_ex P xs \<or> P x"
  by (induction xs) auto

lemma earned_mono: "earned hx ops x \<Longrightarrow> earned hx (ops @ [a]) x"
  by (cases x) (auto simp: earned_def Let_def split: trust_mode.splits)

lemma set_update_subset: "set (AList.update k v al) \<subseteq> insert (k, v) (set al)"
  by (induction al) auto

lemma set_map_entry_subset: "x \<in> set (AList.map_entry k f al) \<Longrightarrow> x \<in> set al \<or> (\<exists>e. (k, e) \<in> set al \<and> x = (k, f e))"
  by (induction al) (auto split: if_splits)

lemma list_all_update: "list_all P al \<Longrightarrow> P (k, v) \<Longrightarrow> list_all P (AList.update k v al)"
  by (induction al) auto

lemma list_all_delete: "list_all P al \<Longrightarrow> list_all P (AList.delete k al)"
  by (induction al) (auto simp: AList.delete_eq)

lemma merge_one_peers:
  assumes "hex_law hx" "peers_ok hx peers"
  shows "peers_ok hx (snd (merge_one hx known t (out, peers)))"
proof (cases "handle_from_str hx (fst t)")
  case (Inr i)
  with from_str_ok [OF assms(1) Inr] assms(2) show ?thesis by (simp add: merge_one_def Let_def peers_ok_def list_all_update)
qed (use assms(2) in \<open>simp add: merge_one_def\<close>)

lemma merge_keeps_peers:
  assumes "hex_law hx"
  shows "peers_ok hx peers \<Longrightarrow> peers_ok hx (snd (fold (merge_one hx known) ts (out, peers)))"
proof (induction ts arbitrary: out peers)
  case (Cons t ts)
  obtain o' p' where m: "merge_one hx known t (out, peers) = (o', p')" by (cases "merge_one hx known t (out, peers)")
  with merge_one_peers [OF assms Cons.prems, of known t out] Cons.IH [of p' o'] show ?case by simp
qed simp

lemma upsert_earned:
  assumes "list_all (earned hx ops) st" "earned hx ops (handle_display hx (se_server_id e), e)"
  shows "list_all (earned hx ops) (store_upsert hx e st)"
  using assms by (simp add: store_upsert_def list_all_update)

lemma upsert_distinct: "distinct (map fst st) \<Longrightarrow> distinct (map fst (store_upsert hx e st))"
  by (simp add: store_upsert_def distinct_update)

lemma entry_id:
  assumes "hex_law hx" "list_all (earned hx ops) st" "handle_ok i" "(handle_display hx i, e) \<in> set st"
  shows "se_server_id e = i" "earned hx ops (handle_display hx i, e)"
proof -
  from assms(2,4) show "earned hx ops (handle_display hx i, e)" by (auto simp: list_all_iff)
  then show "se_server_id e = i" using display_inj [OF assms(1) assms(3)] by (auto simp: earned_def Let_def)
qed

lemma map_entry_earned:
  assumes "hex_law hx" "list_all (earned hx ops) st" "handle_ok i"
    and "\<And>e. (handle_display hx i, e) \<in> set st \<Longrightarrow> se_server_id e = i \<Longrightarrow> earned hx ops (handle_display hx i, e) \<Longrightarrow>
      earned hx ops' (handle_display hx i, f e)"
    and "\<And>x. earned hx ops x \<Longrightarrow> earned hx ops' x"
  shows "list_all (earned hx ops') (AList.map_entry (handle_display hx i) f st)"
  unfolding list_all_iff
proof
  fix x assume "x \<in> set (AList.map_entry (handle_display hx i) f st)"
  from set_map_entry_subset [OF this] consider "x \<in> set st" | e where "(handle_display hx i, e) \<in> set st" "x = (handle_display hx i, f e)" by blast
  then show "earned hx ops' x" using assms(2,4,5) entry_id [OF assms(1-3)] by cases (auto simp: list_all_iff)
qed

lemma new_earned:
  "handle_ok i \<Longrightarrow> list_ex (user_trusts i) ops \<Longrightarrow> earned hx ops (handle_display hx i, new_trusted i a)"
  "handle_ok i \<Longrightarrow> list_ex (user_configures i k) ops \<Longrightarrow> earned hx ops (handle_display hx i, new_untrusted i a k)"
  by (simp_all add: earned_def new_trusted_def new_untrusted_def)

lemma accept_cases:
  assumes "store_get hx i st = Some e" "fst (apply_trust hx st i key prefix) \<noteq> Refuse"
  shows "(se_mode e = Untrusted \<and> se_configured_key e = Some key \<and> fst (apply_trust hx st i key prefix) = Accept) \<or>
    (se_mode e = Trusted \<and> se_pinned_key e = None \<and> prefix = hd_hash_prefix (se_server_id e) \<and> fst (apply_trust hx st i key prefix) = Accept) \<or>
    (se_mode e = Trusted \<and> (\<exists>pin. se_pinned_key e = Some pin \<and> (pin = key \<or> se_rotation_dismissed e \<or>
       fst (apply_trust hx st i key prefix) = AcceptWithRotation (fingerprint hx prefix))))"
  using assms by (auto simp: apply_trust_def evaluate_trust_def Let_def split: trust_mode.splits option.splits if_splits)

lemma promote_inv:
  assumes law: "hex_law hx" and n: "node_inv hx ops n" and i: "handle_ok i"
    and new: "\<And>a. earned hx (ops @ [op]) (handle_display hx i, mk i a)" and id: "\<And>j a. se_server_id (mk j a) = j"
  shows "node_inv hx (ops @ [op]) (snd (promote hx mk i n))"
proof -
  obtain peers st where nn: "n = (peers, st)" by (cases n)
  from n have "list_all (earned hx (ops @ [op])) st" by (auto simp: node_inv_def nn list_all_iff intro: earned_mono)
  then have st: "list_all (earned hx (ops @ [op])) (store_upsert hx (mk i a) st)" for a
    using new [of a] by (intro upsert_earned) (simp_all add: id)
  show ?thesis
  proof (cases "map_of peers (handle_display hx i)")
    case None
    with n \<open>list_all (earned hx (ops @ [op])) st\<close> show ?thesis by (simp add: promote_def nn node_inv_def)
  next
    case (Some p)
    have "list_all (\<lambda>(shown, p). shown = handle_display hx (dpr_server_id p) \<and> handle_ok (dpr_server_id p)) peers"
      using n by (simp add: node_inv_def nn peers_ok_def)
    then have "handle_display hx i = handle_display hx (dpr_server_id p)" "handle_ok (dpr_server_id p)"
      using map_of_SomeD [OF Some] by (auto simp: list_all_iff)
    then have "dpr_server_id p = i" using display_inj [OF law i] by simp
    with n st show ?thesis by (simp add: promote_def nn node_inv_def Some Let_def upsert_distinct peers_ok_def list_all_delete)
  qed
qed

lemma node_step_inv:
  assumes law: "hex_law hx" and n: "node_inv hx ops n" and ok: "ops_ok [a]"
  shows "node_inv hx (ops @ [a]) (node_step hx a n)"
proof -
  obtain peers st where nn: "n = (peers, st)" by (cases n)
  from n have d: "distinct (map fst st)" and e: "list_all (earned hx ops) st"
    and p: "peers_ok hx peers"
    by (auto simp: node_inv_def nn)
  have e': "list_all (earned hx (ops @ [a])) st" using e by (auto simp: list_all_iff intro: earned_mono)
  show ?thesis
  proof (cases a)
    case (Introduced r)
    show ?thesis using d e' merge_keeps_peers [OF law p] by (simp add: Introduced nn node_inv_def merge_peers_def)
  next
    case (AddTrusted i addr)
    with ok have "earned hx (ops @ [a]) (handle_display hx i, new_trusted i addr)" by (auto simp: ops_ok_def intro: new_earned)
    then have "list_all (earned hx (ops @ [a])) (store_upsert hx (new_trusted i addr) st)"
      by (intro upsert_earned [OF e']) (simp add: new_trusted_def)
    with d p show ?thesis by (simp add: AddTrusted nn node_inv_def upsert_distinct)
  next
    case (AddUntrusted i addr k)
    with ok have "earned hx (ops @ [a]) (handle_display hx i, new_untrusted i addr k)" by (auto simp: ops_ok_def intro: new_earned)
    then have "list_all (earned hx (ops @ [a])) (store_upsert hx (new_untrusted i addr k) st)"
      by (intro upsert_earned [OF e']) (simp add: new_untrusted_def)
    with d p show ?thesis by (simp add: AddUntrusted nn node_inv_def upsert_distinct)
  next
    case (PromoteTrusted i)
    with ok show ?thesis unfolding PromoteTrusted node_step.simps promote_trusted_def
      by (intro promote_inv [OF law n]) (auto simp: ops_ok_def new_trusted_def intro: new_earned [unfolded new_trusted_def])
  next
    case (PromoteUntrusted i k)
    with ok show ?thesis unfolding PromoteUntrusted node_step.simps promote_untrusted_def
      by (intro promote_inv [OF law n]) (auto simp: ops_ok_def new_untrusted_def intro: new_earned [unfolded new_untrusted_def])
  next
    case (Dismiss i)
    with ok have i: "handle_ok i" by (simp add: ops_ok_def)
    have "list_all (earned hx (ops @ [a])) (dismiss_rotation hx i st)" unfolding dismiss_rotation_def
      by (rule map_entry_earned [OF law e i]) (auto simp: earned_def Let_def Dismiss intro: earned_mono split: trust_mode.splits)
    with d p show ?thesis by (simp add: Dismiss nn node_inv_def dismiss_rotation_def dom_map_entry distinct_map_entry)
  next
    case (Connect i key prefix)
    with ok have i: "handle_ok i" by (simp add: ops_ok_def)
    show ?thesis
    proof (cases "snd (apply_trust hx st i key prefix) = st")
      case True
      with d e' p show ?thesis by (simp add: Connect nn node_inv_def)
    next
      case False
      then obtain x where x: "store_get hx i st = Some x" "se_mode x = Trusted" "fst (apply_trust hx st i key prefix) \<noteq> Refuse"
        "snd (apply_trust hx st i key prefix) = set_pin hx i key st"
        by (auto simp: apply_trust_def Let_def split: option.splits if_splits)
      have "list_all (earned hx (ops @ [a])) (set_pin hx i key st)" unfolding set_pin_def
      proof (rule map_entry_earned [OF law e i])
        fix y assume y: "(handle_display hx i, y) \<in> set st" "se_server_id y = i" "earned hx ops (handle_display hx i, y)"
        with x(1) d have "y = x" by (auto simp: store_get_def)
        with y accept_cases [OF x(1,3)] x(2) show "earned hx (ops @ [a]) (handle_display hx i, y\<lparr>se_pinned_key := Some key\<rparr>)"
          by (auto simp: earned_def Let_def Connect)
      qed (rule earned_mono)
      with x(4) d p show ?thesis by (simp add: Connect nn node_inv_def set_pin_def distinct_map_entry)
    qed
  qed
qed

lemma node_run_inv: "hex_law hx \<Longrightarrow> ops_ok ops \<Longrightarrow> node_inv hx ops (node_run hx ops)"
proof (induction ops rule: rev_induct)
  case (snoc a ops)
  then show ?case using node_step_inv [of hx ops "node_run hx ops" a] by (simp add: node_run_def ops_ok_def)
qed (simp add: node_run_def node_inv_def peers_ok_def)

section \<open>Two things the store does not keep\<close>

text \<open>A dismissal outlives the rotation it answers: every later key is accepted without a notice.\<close>

lemma dismissal_outlives_rotations:
  assumes "store_get hx i st = Some e" "se_mode e = Trusted" "se_pinned_key e = Some pin" "se_rotation_dismissed e"
  shows "fst (apply_trust hx st i key prefix) = Accept \<and>
    store_get hx i (snd (apply_trust hx st i key prefix)) = Some (e\<lparr>se_pinned_key := Some key\<rparr>)"
  using assms by (simp add: apply_trust_def evaluate_trust_def Let_def store_get_def set_pin_def map_of_map_entry)

text \<open>A candidate that was recorded before its server was configured replaces the entry when it is promoted, pin included.\<close>

lemma promotion_forgets_the_pin:
  assumes "map_of peers (handle_display hx i) = Some p" "dpr_server_id p = i"
  shows "store_get hx i (snd (snd (promote_trusted hx i (peers, st)))) = Some (new_trusted i (dpr_address p))"
  using assms by (simp add: promote_trusted_def promote_def Let_def store_get_def store_upsert_def new_trusted_def update_conv')

section \<open>The property\<close>



end
