(* ===== verification/Public_Space.thy ===== *)
theory Public_Space
  imports Suites Handle
begin

text \<open>
  The signed posts of the public space: addresses, the whitelist of signers and the check of an artifact
  (\<open>public_space.rs\<close>), and what a client does with what a relay serves (\<open>daemonseed-cli/public_space.rs\<close>). A string is
  the list of its characters. The announcement key that the build includes and the encoding of the messages are arguments.
\<close>

section \<open>Addresses and the whitelist\<close>

definition CONTENT_ADDRESS_LEN :: nat where "CONTENT_ADDRESS_LEN = 48"

text \<open>The module's digest is exactly the address.\<close>

definition content_address :: "oxi \<Rightarrow> byte list \<Rightarrow> oxi_error + byte list" where
  "content_address ox signed_payload = rbind (sha384 ox signed_payload) (\<lambda>digest. Inr (take CONTENT_ADDRESS_LEN digest))"

datatype whitelist_entry = WeFullKey "byte list" | WeHandle handle

datatype whitelist_parse_error = WpHandle handle_parse_error | InvalidPubkeyHex | WrongPubkeyLength nat nat

definition from_full_key_bytes :: "byte list \<Rightarrow> whitelist_parse_error + whitelist_entry" where
  "from_full_key_bytes bs = (if length bs = DSA_PK_LEN then Inr (WeFullKey bs) else Inl (WrongPubkeyLength (length bs) DSA_PK_LEN))"

text \<open>\<open>hex::decode\<close> takes any even length, as \<open>decode_to_slice\<close> does for a slice of half the text.\<close>

definition whitelist_entry_from_str :: "hex_crate \<Rightarrow> ustr \<Rightarrow> whitelist_parse_error + whitelist_entry" where
  "whitelist_entry_from_str hx s =
    (if HASH_SIGN \<in> set s then rbind (map_err WpHandle (handle_from_str hx s)) (\<lambda>handle. Inr (WeHandle handle))
     else rbind (ok_or InvalidPubkeyHex (hex_decode_to_slice hx s)) from_full_key_bytes)"

type_synonym whitelist = "whitelist_entry list"

text \<open>What every call reaches: the module, and the announcement key of the build.\<close>

record space_env =
  sp_oxi :: oxi
  sp_project_pubkey :: "byte list"

fun authorized_by :: "space_env \<Rightarrow> byte list \<Rightarrow> whitelist \<Rightarrow> oxi_error + bool" where
  "authorized_by env pubkey [] = Inr False"
| "authorized_by env pubkey (WeFullKey key # es) = (if pubkey = key then Inr True else authorized_by env pubkey es)"
| "authorized_by env pubkey (WeHandle h # es) =
    rbind (from_pubkey (sp_oxi env) None pubkey) (\<lambda>arriving.
    if hd_hash_prefix arriving = hd_hash_prefix h then Inr True else authorized_by env pubkey es)"

definition authorizes :: "space_env \<Rightarrow> whitelist \<Rightarrow> byte list \<Rightarrow> oxi_error + bool" where
  "authorizes env wl pubkey = (if pubkey = sp_project_pubkey env then Inr True else authorized_by env pubkey wl)"

datatype artifact_error = UnknownSigner | ArtifactBadSignature | ArtifactModule oxi_error

definition verify_artifact :: "space_env \<Rightarrow> byte list \<Rightarrow> byte list \<Rightarrow> byte list \<Rightarrow> whitelist \<Rightarrow> artifact_error + byte list" where
  "verify_artifact env signed_payload signer_pubkey signature whitelist =
    rbind (map_err ArtifactModule (authorizes env whitelist signer_pubkey)) (\<lambda>known.
    if \<not> known then Inl UnknownSigner
    else if length signer_pubkey \<noteq> DSA_PK_LEN then Inl UnknownSigner
    else if length signature \<noteq> DSA_SIG_LEN then Inl ArtifactBadSignature
    else rbind (map_err (\<lambda>_. ArtifactBadSignature) (verify_signature (sp_oxi env) signer_pubkey signed_payload signature)) (\<lambda>_.
    map_err ArtifactModule (content_address (sp_oxi env) signed_payload)))"

section \<open>Freshness and text\<close>

type_synonym announce_freshness = u64

definition freshness_new :: announce_freshness where "freshness_new = 0"

definition freshness_accepts :: "u64 \<Rightarrow> announce_freshness \<Rightarrow> bool" where
  "freshness_accepts incoming last_seen \<longleftrightarrow> incoming \<ge> last_seen"

definition freshness_accept :: "u64 \<Rightarrow> announce_freshness \<Rightarrow> bool \<times> announce_freshness" where
  "freshness_accept incoming last_seen = (if incoming \<ge> last_seen then (True, incoming) else (False, last_seen))"

text \<open>The general category Cc.\<close>

definition is_control :: "nat \<Rightarrow> bool" where
  "is_control c \<longleftrightarrow> c < 0x20 \<or> 0x7F \<le> c \<and> c < 0xA0"

definition is_motd_forbidden_char :: "nat \<Rightarrow> bool" where
  "is_motd_forbidden_char c \<longleftrightarrow> is_control c \<or> c \<in> {0x2028, 0x2029} \<or> c \<in> {0x200E, 0x200F, 0x061C} \<or>
     0x202A \<le> c \<and> c \<le> 0x202E \<or> 0x2066 \<le> c \<and> c \<le> 0x2069"

definition motd_text_is_valid :: "ustr \<Rightarrow> bool" where
  "motd_text_is_valid text \<longleftrightarrow> \<not> list_ex is_motd_forbidden_char text"

section \<open>The announcement seed\<close>

definition PROJECT_ANNOUNCE_SEED_LEN :: nat where "PROJECT_ANNOUNCE_SEED_LEN = 32"

datatype seed_hex_error = NotText | SeedLength nat | NotHex

text \<open>\<open>str::trim\<close>: the characters of the property White_Space at both ends.\<close>

definition is_whitespace :: "nat \<Rightarrow> bool" where
  "is_whitespace c \<longleftrightarrow> 0x09 \<le> c \<and> c \<le> 0x0D \<or> c \<in> {0x20, 0x85, 0xA0, 0x1680, 0x2028, 0x2029, 0x202F, 0x205F, 0x3000} \<or>
     0x2000 \<le> c \<and> c \<le> 0x200A"

definition str_trim :: "ustr \<Rightarrow> ustr" where
  "str_trim s = rev (dropWhile is_whitespace (rev (dropWhile is_whitespace s)))"

definition seed_parse_hex :: "hex_crate \<Rightarrow> ustr \<Rightarrow> seed_hex_error + byte list" where
  "seed_parse_hex hx text =
    (let trimmed = str_trim text
     in if utf8_len trimmed \<noteq> 2 * PROJECT_ANNOUNCE_SEED_LEN then Inl (SeedLength (utf8_len trimmed))
        else ok_or NotHex (hex_decode_to_slice hx trimmed))"

section \<open>What a relay serves\<close>

text \<open>Messages of \<open>daemonseed.v1.rs\<close>, which is generated: the fields the code reads.\<close>

datatype signer_whitelist_entry = SwFullPubkey "byte list" | SwHandle ustr | SwEmpty

record post_payload =
  pp_topic :: ustr
  pp_body :: ustr
  pp_signed_timestamp_ms :: int

record motd_payload =
  mp_text :: ustr
  mp_signed_timestamp_ms :: int

record post_delete_payload =
  pd_content_address :: "byte list"
  pd_signed_timestamp_ms :: int

record served_post =
  sv_content_address :: "byte list"
  sv_artifact :: "signed_artifact option"

definition sanitize_plaintext :: "ustr \<Rightarrow> ustr" where
  "sanitize_plaintext s = filter (\<lambda>c. \<not> is_control c \<or> c = 0x0A \<or> c = 0x09) s"

definition render_motd :: "(motd_payload, 'd) codec \<Rightarrow> signed_artifact \<Rightarrow> ustr" where
  "render_motd c motd = sanitize_plaintext (case decode_msg c (art_signed_payload motd) of Inr p \<Rightarrow> mp_text p | Inl _ \<Rightarrow> [])"

datatype rating_error = NotInTaxonomy

definition select_rating :: "ustr list \<Rightarrow> ustr \<Rightarrow> rating_error + ustr" where
  "select_rating taxonomy choice = (if choice \<in> set taxonomy then Inr choice else Inl NotInTaxonomy)"

datatype whitelist_convert_error =
  EmptyEntry | BadKey whitelist_parse_error | BadHandle handle_parse_error | ConvertModule oxi_error

definition entry_from_wire :: "hex_crate \<Rightarrow> signer_whitelist_entry \<Rightarrow> whitelist_convert_error + whitelist_entry" where
  "entry_from_wire hx e =
    (case e of
       SwFullPubkey bs \<Rightarrow> map_err BadKey (from_full_key_bytes bs)
     | SwHandle h \<Rightarrow> rbind (map_err BadHandle (handle_from_str hx h)) (\<lambda>handle. Inr (WeHandle handle))
     | SwEmpty \<Rightarrow> Inl EmptyEntry)"

fun entries_from_wire :: "hex_crate \<Rightarrow> signer_whitelist_entry list \<Rightarrow> whitelist_convert_error + whitelist" where
  "entries_from_wire hx [] = Inr []"
| "entries_from_wire hx (e # es) =
    rbind (entry_from_wire hx e) (\<lambda>w. rbind (entries_from_wire hx es) (\<lambda>ws. Inr (w # ws)))"

definition whitelist_from_wire :: "hex_crate \<Rightarrow> signer_whitelist_entry list \<Rightarrow> byte list option \<Rightarrow> whitelist_convert_error + whitelist" where
  "whitelist_from_wire hx es server_pubkey =
    rbind (entries_from_wire hx es) (\<lambda>out.
    case server_pubkey of
      Some pk \<Rightarrow> rbind (map_err BadKey (from_full_key_bytes pk)) (\<lambda>w. Inr (out @ [w]))
    | None \<Rightarrow> Inr out)"

definition post_render_fields :: "(post_payload, 'd) codec \<Rightarrow> served_post \<Rightarrow> ustr \<times> ustr \<times> int" where
  "post_render_fields c post =
    (case Option.bind (sv_artifact post) (\<lambda>a. case decode_msg c (art_signed_payload a) of Inr p \<Rightarrow> Some p | Inl _ \<Rightarrow> None) of
       Some p \<Rightarrow> (pp_topic p, pp_body p, pp_signed_timestamp_ms p) | None \<Rightarrow> ([], [], 0))"

datatype served_verify_error = ServedMissing | ServedVerify artifact_error | AddressMismatch

definition verify_served_post :: "space_env \<Rightarrow> served_post \<Rightarrow> whitelist \<Rightarrow> served_verify_error + unit" where
  "verify_served_post env post whitelist =
    rbind (ok_or ServedMissing (sv_artifact post)) (\<lambda>artifact.
    rbind (map_err ServedVerify (verify_artifact env (art_signed_payload artifact) (art_signer_pubkey artifact) (art_signature artifact) whitelist)) (\<lambda>derived.
    if derived \<noteq> sv_content_address post then Inl AddressMismatch else Inr ()))"

definition verify_served_motd :: "space_env \<Rightarrow> signed_artifact \<Rightarrow> whitelist \<Rightarrow> served_verify_error + unit" where
  "verify_served_motd env motd whitelist =
    map_err ServedVerify (rbind (verify_artifact env (art_signed_payload motd) (art_signer_pubkey motd) (art_signature motd) whitelist) (\<lambda>_. Inr ()))"

section \<open>Signing\<close>

definition sign_artifact :: "oxi \<Rightarrow> sign_keypair \<Rightarrow> byte list \<Rightarrow> signature_error + signed_artifact" where
  "sign_artifact ox kp signed_payload =
    rbind (keypair_sign ox kp signed_payload) (\<lambda>signature.
    Inr \<lparr>art_signed_payload = signed_payload, art_signer_pubkey = sk_public_key kp, art_signature = signature\<rparr>)"

definition sign_post :: "oxi \<Rightarrow> (post_payload, 'd) codec \<Rightarrow> sign_keypair \<Rightarrow> ustr \<Rightarrow> ustr \<Rightarrow> int \<Rightarrow> signature_error + signed_artifact" where
  "sign_post ox c kp topic body signed_timestamp_ms =
    sign_artifact ox kp (encode_to_vec c \<lparr>pp_topic = topic, pp_body = body, pp_signed_timestamp_ms = signed_timestamp_ms\<rparr>)"

datatype motd_author_error = NotPlaintext | MotdSign signature_error

definition sign_motd :: "oxi \<Rightarrow> (motd_payload, 'd) codec \<Rightarrow> sign_keypair \<Rightarrow> ustr \<Rightarrow> int \<Rightarrow> motd_author_error + signed_artifact" where
  "sign_motd ox c kp text signed_timestamp_ms =
    (if \<not> motd_text_is_valid text then Inl NotPlaintext
     else map_err MotdSign (sign_artifact ox kp (encode_to_vec c \<lparr>mp_text = text, mp_signed_timestamp_ms = signed_timestamp_ms\<rparr>)))"

definition sign_post_delete :: "oxi \<Rightarrow> (post_delete_payload, 'd) codec \<Rightarrow> sign_keypair \<Rightarrow> byte list \<Rightarrow> int \<Rightarrow> signature_error + signed_artifact" where
  "sign_post_delete ox c kp address signed_timestamp_ms =
    sign_artifact ox kp (encode_to_vec c \<lparr>pd_content_address = address, pd_signed_timestamp_ms = signed_timestamp_ms\<rparr>)"

definition local_key_is_whitelisted :: "space_env \<Rightarrow> hex_crate \<Rightarrow> byte list \<Rightarrow> signer_whitelist_entry list \<Rightarrow> whitelist_convert_error + bool" where
  "local_key_is_whitelisted env hx local_pubkey es =
    rbind (whitelist_from_wire hx es None) (\<lambda>wl. map_err ConvertModule (authorizes env wl local_pubkey))"

definition composer_visible :: "space_env \<Rightarrow> hex_crate \<Rightarrow> byte list \<Rightarrow> signer_whitelist_entry list \<Rightarrow> bool" where
  "composer_visible env hx local_pubkey es = (case local_key_is_whitelisted env hx local_pubkey es of Inr b \<Rightarrow> b | Inl _ \<Rightarrow> False)"

section \<open>Who is listed\<close>

text \<open>The meaning of a published list: the keys it names, in full or by the hash of a handle.\<close>

definition names_key :: "oxi \<Rightarrow> hex_crate \<Rightarrow> byte list \<Rightarrow> signer_whitelist_entry \<Rightarrow> bool" where
  "names_key ox hx pk e =
    (case e of
       SwFullPubkey bs \<Rightarrow> pk = bs
     | SwHandle t \<Rightarrow> (\<exists>h d. handle_from_str hx t = Inr h \<and> sha384 ox pk = Inr d \<and> hd_hash_prefix h = take HASH_PREFIX_BYTES d)
     | SwEmpty \<Rightarrow> False)"

definition sha_law :: "oxi \<Rightarrow> bool" where
  "sha_law ox \<longleftrightarrow> (\<forall>m. \<exists>d. sha384 ox m = Inr d \<and> length d = 48)"

lemma authorized_by_iff:
  assumes "sha_law (sp_oxi env)"
  shows "entries_from_wire hx es = Inr wl \<Longrightarrow> authorized_by env pk wl = Inr (list_ex (names_key (sp_oxi env) hx pk) es)"
proof (induction es arbitrary: wl)
  case (Cons e es)
  obtain d where "sha384 (sp_oxi env) pk = Inr d" using assms by (auto simp: sha_law_def)
  with Cons show ?case
    by (cases e) (auto simp: entry_from_wire_def names_key_def from_full_key_bytes_def from_pubkey_def result_simps split: if_splits)
qed simp

lemma authorized_by_append:
  assumes "sha_law (sp_oxi env)"
  shows "authorized_by env pk (ws @ [WeFullKey k]) = map_err id (rbind (authorized_by env pk ws) (\<lambda>b. Inr (b \<or> pk = k)))"
proof -
  obtain d where "sha384 (sp_oxi env) pk = Inr d" using assms by (auto simp: sha_law_def)
  then show ?thesis by (induction env pk ws rule: authorized_by.induct) (simp_all add: from_pubkey_def)
qed

lemma authorizes_iff:
  assumes "sha_law (sp_oxi env)" "whitelist_from_wire hx es server = Inr wl"
  shows "authorizes env wl pk = Inr (pk = sp_project_pubkey env \<or> server = Some pk \<or> list_ex (names_key (sp_oxi env) hx pk) es)"
proof -
  from assms(2) obtain ws where ws: "entries_from_wire hx es = Inr ws" "wl = (case server of Some k \<Rightarrow> ws @ [WeFullKey k] | None \<Rightarrow> ws)"
    by (cases server) (auto simp: whitelist_from_wire_def from_full_key_bytes_def result_simps split: if_splits)
  from authorized_by_iff [OF assms(1) ws(1)] authorized_by_append [OF assms(1)] show ?thesis
    by (auto simp: ws(2) authorizes_def split: option.split)
qed

lemma verify_artifact_iff:
  assumes "sha_law (sp_oxi env)" "whitelist_from_wire hx es server = Inr wl"
  shows "verify_artifact env payload pk sig wl = Inr addr \<longleftrightarrow>
    (pk = sp_project_pubkey env \<or> server = Some pk \<or> list_ex (names_key (sp_oxi env) hx pk) es) \<and> length pk = DSA_PK_LEN \<and>
    length sig = DSA_SIG_LEN \<and> verify_signature (sp_oxi env) pk payload sig = Inr () \<and> sha384 (sp_oxi env) payload = Inr addr"
proof -
  obtain d where "sha384 (sp_oxi env) payload = Inr d" "length d = 48" using assms(1) by (auto simp: sha_law_def)
  then have "content_address (sp_oxi env) payload = Inr d" by (simp add: content_address_def CONTENT_ADDRESS_LEN_def)
  with \<open>sha384 (sp_oxi env) payload = Inr d\<close> show ?thesis
    by (auto simp: verify_artifact_def authorizes_iff [OF assms] result_simps)
qed

section \<open>The property\<close>

text \<open>
  C29. The public space shows only what a listed key signed. A served post is shown exactly where its artifact carries a
  valid signature of the project's key, of the relay's or of a key that the published list names, under the address that
  is its digest. Whoever sees the composer signs posts that every reader of the list shows as written. And a message of
  the day that can be signed is rendered as it was written, on one line.
\<close>

theorem public_space_shows_what_listed_keys_signed:
  assumes "sha_law (sp_oxi env)" "whitelist_from_wire hx es server = Inr wl" "dsa_law (sp_oxi env) kp"
    and "codec_law posts pok" "pok \<lparr>pp_topic = topic, pp_body = body, pp_signed_timestamp_ms = ts\<rparr>"
    and "codec_law motds mok" "mok \<lparr>mp_text = text, mp_signed_timestamp_ms = ts\<rparr>"
    and "sign_post (sp_oxi env) posts kp topic body ts = Inr art" "sha384 (sp_oxi env) (art_signed_payload art) = Inr addr"
  shows "(verify_served_post env post wl = Inr () \<longleftrightarrow>
      (\<exists>a. sv_artifact post = Some a \<and>
        (art_signer_pubkey a = sp_project_pubkey env \<or> server = Some (art_signer_pubkey a) \<or>
         list_ex (names_key (sp_oxi env) hx (art_signer_pubkey a)) es) \<and>
        length (art_signer_pubkey a) = DSA_PK_LEN \<and> length (art_signature a) = DSA_SIG_LEN \<and>
        verify_signature (sp_oxi env) (art_signer_pubkey a) (art_signed_payload a) (art_signature a) = Inr () \<and>
        sha384 (sp_oxi env) (art_signed_payload a) = Inr (sv_content_address post))) \<and>
    (composer_visible env hx (sk_public_key kp) es \<longrightarrow>
      verify_served_post env \<lparr>sv_content_address = addr, sv_artifact = Some art\<rparr> wl = Inr () \<and>
      post_render_fields posts \<lparr>sv_content_address = addr, sv_artifact = Some art\<rparr> = (topic, body, ts)) \<and>
    (\<forall>motd. sign_motd (sp_oxi env) motds kp text ts = Inr motd \<longrightarrow> render_motd motds motd = text \<and> 0x0A \<notin> set text)"
proof (intro conjI allI impI)
  show "verify_served_post env post wl = Inr () \<longleftrightarrow>
      (\<exists>a. sv_artifact post = Some a \<and>
        (art_signer_pubkey a = sp_project_pubkey env \<or> server = Some (art_signer_pubkey a) \<or>
         list_ex (names_key (sp_oxi env) hx (art_signer_pubkey a)) es) \<and>
        length (art_signer_pubkey a) = DSA_PK_LEN \<and> length (art_signature a) = DSA_SIG_LEN \<and>
        verify_signature (sp_oxi env) (art_signer_pubkey a) (art_signed_payload a) (art_signature a) = Inr () \<and>
        sha384 (sp_oxi env) (art_signed_payload a) = Inr (sv_content_address post))"
    by (auto simp: verify_served_post_def result_simps verify_artifact_iff [OF assms(1,2)])
next
  assume "composer_visible env hx (sk_public_key kp) es"
  then obtain ws where ws: "whitelist_from_wire hx es None = Inr ws" "authorizes env ws (sk_public_key kp) = Inr True"
    by (auto simp: composer_visible_def local_key_is_whitelisted_def result_simps split: sum.splits)
  then have listed: "sk_public_key kp = sp_project_pubkey env \<or> list_ex (names_key (sp_oxi env) hx (sk_public_key kp)) es"
    using authorizes_iff [OF assms(1) ws(1)] by simp
  from assms(8) obtain sig where sig: "keypair_sign (sp_oxi env) kp (art_signed_payload art) = Inr sig" "art_signer_pubkey art = sk_public_key kp"
    "art_signature art = sig" "art_signed_payload art = encode_to_vec posts \<lparr>pp_topic = topic, pp_body = body, pp_signed_timestamp_ms = ts\<rparr>"
    by (auto simp: sign_post_def sign_artifact_def result_simps)
  with listed verify_signature_sign [OF assms(3) sig(1)] assms(3,9)
  show "verify_served_post env \<lparr>sv_content_address = addr, sv_artifact = Some art\<rparr> wl = Inr ()"
    by (auto simp: verify_served_post_def result_simps verify_artifact_iff [OF assms(1,2)] dsa_law_def)
  show "post_render_fields posts \<lparr>sv_content_address = addr, sv_artifact = Some art\<rparr> = (topic, body, ts)"
    using codec_lawD(1) [OF assms(4,5)] sig(4) by (simp add: post_render_fields_def)
next
  fix motd assume m: "sign_motd (sp_oxi env) motds kp text ts = Inr motd"
  then have v: "motd_text_is_valid text" "art_signed_payload motd = encode_to_vec motds \<lparr>mp_text = text, mp_signed_timestamp_ms = ts\<rparr>"
    by (auto simp: sign_motd_def sign_artifact_def result_simps split: if_splits)
  then have "\<forall>c \<in> set text. \<not> is_control c" by (auto simp: motd_text_is_valid_def is_motd_forbidden_char_def list_ex_iff)
  with v(2) codec_lawD(1) [OF assms(6,7)] show "render_motd motds motd = text"
    by (simp add: render_motd_def sanitize_plaintext_def filter_id_conv)
  show "0x0A \<notin> set text" using \<open>\<forall>c \<in> set text. \<not> is_control c\<close> by (auto simp: is_control_def)
qed

section \<open>A relay that lists one handle\<close>

definition demo_posts :: "(post_payload, unit) codec" where
  "demo_posts = \<lparr>encode_to_vec = (\<lambda>m. [1, 2]), decode_msg = (\<lambda>bs. if bs = [1, 2]
     then Inr \<lparr>pp_topic = [116], pp_body = [98], pp_signed_timestamp_ms = 5\<rparr> else Inl ())\<rparr>"

definition demo_motds :: "(motd_payload, unit) codec" where
  "demo_motds = \<lparr>encode_to_vec = (\<lambda>m. [3]), decode_msg = (\<lambda>bs. if bs = [3]
     then Inr \<lparr>mp_text = [104, 105], mp_signed_timestamp_ms = 5\<rparr> else Inl ())\<rparr>"

definition demo_space :: space_env where
  "demo_space = \<lparr>sp_oxi = demo_oxi, sp_project_pubkey = []\<rparr>"

lemma public_space_shows_what_listed_keys_signed_witness:
  "verify_served_post demo_space \<lparr>sv_content_address = replicate 48 2,
     sv_artifact = (case sign_post demo_oxi demo_posts demo_server [116] [98] 5 of Inr a \<Rightarrow> Some a)\<rparr>
     [WeFullKey (replicate DSA_PK_LEN 7)] = Inr ()"
proof -
  let ?es = "[SwFullPubkey (replicate DSA_PK_LEN 7)]"
  have sha: "sha_law (sp_oxi demo_space)" by (simp add: sha_law_def demo_space_def demo_oxi_def oxi_defs)
  have wl: "whitelist_from_wire demo_hex ?es None = Inr [WeFullKey (replicate DSA_PK_LEN 7)]"
    by (simp add: whitelist_from_wire_def entry_from_wire_def from_full_key_bytes_def)
  have dsa: "dsa_law (sp_oxi demo_space) demo_server" unfolding demo_space_def by (simp, rule demo_dsa_law) (simp add: demo_server_def)
  have posts: "codec_law demo_posts (\<lambda>m. m = \<lparr>pp_topic = [116], pp_body = [98], pp_signed_timestamp_ms = 5\<rparr>)"
    by (auto simp: codec_law_def demo_posts_def split: if_splits)
  have motds: "codec_law demo_motds (\<lambda>m. m = \<lparr>mp_text = [104, 105], mp_signed_timestamp_ms = 5\<rparr>)"
    by (auto simp: codec_law_def demo_motds_def split: if_splits)
  obtain art where art: "sign_post (sp_oxi demo_space) demo_posts demo_server [116] [98] 5 = Inr art" "art_signed_payload art = [1, 2]"
    by (simp add: sign_post_def sign_artifact_def keypair_sign_def oxi_defs demo_oxi_def demo_space_def demo_posts_def)
  have addr: "sha384 (sp_oxi demo_space) (art_signed_payload art) = Inr (replicate 48 2)"
    by (simp add: art(2) demo_space_def demo_sha)
  have "composer_visible demo_space demo_hex (sk_public_key demo_server) ?es"
    using authorizes_iff [OF sha wl] wl
    by (simp add: composer_visible_def local_key_is_whitelisted_def names_key_def demo_server_def)
  with public_space_shows_what_listed_keys_signed [OF sha wl dsa posts refl motds refl art(1) addr] art(1)
  show ?thesis by (simp add: demo_space_def)
qed

end
