(* ===== verification/Share_Catalog.thy ===== *)
theory Share_Catalog
  imports Room_Messages Handle "HOL-Library.AList" "HOL-Library.List_Lexorder" "HOL-Library.Char_ord"
begin

text \<open>
  The catalogue of the shares a client has heard of (\<open>share_catalog.rs\<close>), by the id of the share. Instants are the
  milliseconds of the client's own clock.
\<close>

section \<open>State\<close>

record discovered_share =
  dsh_share_id :: string
  dsh_name :: string
  dsh_rating :: string
  dsh_sender_handle :: string
  dsh_sender_pubkey :: "byte list"
  dsh_announced_unix_ms :: int
  dsh_received_at :: nat

record share_listing =
  sl_share_id :: string
  sl_name :: string
  sl_rating :: string
  sl_sharer_handle :: string
  sl_sharer_fingerprint :: ustr
  sl_mine :: bool
  sl_unresolved :: bool

definition listing_from :: "oxi \<Rightarrow> hex_crate \<Rightarrow> discovered_share \<Rightarrow> share_listing" where
  "listing_from ox hx d = \<lparr>sl_share_id = dsh_share_id d, sl_name = dsh_name d, sl_rating = dsh_rating d,
     sl_sharer_handle = dsh_sender_handle d, sl_sharer_fingerprint = pubkey_fingerprint ox hx (dsh_sender_pubkey d),
     sl_mine = False, sl_unresolved = False\<rparr>"

datatype catalog_change = Added | Updated | CRemoved | Unchanged

record share_catalog =
  cat_entries :: "(string \<times> discovered_share) list"
  cat_ttl :: nat

definition catalog_new :: "nat \<Rightarrow> share_catalog" where
  "catalog_new ttl = \<lparr>cat_entries = [], cat_ttl = ttl\<rparr>"

section \<open>Operations\<close>

definition refreshed :: "share_announcement \<Rightarrow> nat \<Rightarrow> discovered_share \<Rightarrow> discovered_share" where
  "refreshed ann now cur = cur\<lparr>dsh_name := sa_name ann, dsh_rating := sa_rating ann, dsh_sender_handle := sa_sender_handle ann,
     dsh_sender_pubkey := sa_sender_pubkey ann, dsh_announced_unix_ms := sa_sent_unix_ms ann, dsh_received_at := now\<rparr>"

definition catalog_apply :: "share_announcement \<Rightarrow> nat \<Rightarrow> share_catalog \<Rightarrow> catalog_change \<times> share_catalog" where
  "catalog_apply ann now c =
    (let es = cat_entries c; i = sa_share_id ann in
     if sa_withdraw ann then
       (case map_of es i of
          Some cur \<Rightarrow>
            if sa_sender_pubkey ann \<noteq> dsh_sender_pubkey cur then (Unchanged, c)
            else if sa_sent_unix_ms ann < dsh_announced_unix_ms cur then (Unchanged, c)
            else (CRemoved, c\<lparr>cat_entries := AList.delete i es\<rparr>)
        | None \<Rightarrow> (Unchanged, c))
     else
       (case map_of es i of
          Some cur \<Rightarrow>
            if sa_sender_pubkey ann \<noteq> dsh_sender_pubkey cur then (Unchanged, c)
            else if sa_sent_unix_ms ann < dsh_announced_unix_ms cur then (Unchanged, c)
            else if sa_sent_unix_ms ann = dsh_announced_unix_ms cur \<and> sa_name ann = dsh_name cur \<and>
              sa_rating ann = dsh_rating cur \<and> sa_sender_handle ann = dsh_sender_handle cur
            then (Unchanged, c\<lparr>cat_entries := AList.map_entry i (\<lambda>cur. cur\<lparr>dsh_received_at := now\<rparr>) es\<rparr>)
            else (Updated, c\<lparr>cat_entries := AList.map_entry i (refreshed ann now) es\<rparr>)
        | None \<Rightarrow> (Added, c\<lparr>cat_entries := AList.update i
            \<lparr>dsh_share_id = i, dsh_name = sa_name ann, dsh_rating = sa_rating ann, dsh_sender_handle = sa_sender_handle ann,
             dsh_sender_pubkey = sa_sender_pubkey ann, dsh_announced_unix_ms = sa_sent_unix_ms ann, dsh_received_at = now\<rparr> es\<rparr>)))"

definition apply_verified :: "oxi \<Rightarrow> share_announcement \<Rightarrow> nat \<Rightarrow> share_catalog \<Rightarrow> catalog_change \<times> share_catalog" where
  "apply_verified ox ann now c = (if \<not> share_binding_is_valid ox ann then (Unchanged, c) else catalog_apply ann now c)"

text \<open>\<open>saturating_duration_since\<close> is the subtraction of naturals.\<close>

definition catalog_prune :: "nat \<Rightarrow> share_catalog \<Rightarrow> nat \<times> share_catalog" where
  "catalog_prune now c =
    (let kept = filter (\<lambda>(_, s). now - dsh_received_at s < cat_ttl c) (cat_entries c)
     in (length (cat_entries c) - length kept, c\<lparr>cat_entries := kept\<rparr>))"

definition catalog_remove :: "string \<Rightarrow> share_catalog \<Rightarrow> bool \<times> share_catalog" where
  "catalog_remove i c = (map_of (cat_entries c) i \<noteq> None, c\<lparr>cat_entries := AList.delete i (cat_entries c)\<rparr>)"

definition heard_alive :: "byte list \<Rightarrow> nat \<Rightarrow> string \<Rightarrow> (string \<times> discovered_share) list \<Rightarrow> (string \<times> discovered_share) list" where
  "heard_alive sharer_pubkey now i es =
    AList.map_entry i (\<lambda>s. if dsh_sender_pubkey s = sharer_pubkey then s\<lparr>dsh_received_at := now\<rparr> else s) es"

definition reconcile_sharer :: "byte list \<Rightarrow> string list \<Rightarrow> nat \<Rightarrow> share_catalog \<Rightarrow> bool \<times> share_catalog" where
  "reconcile_sharer sharer_pubkey live_ids now c =
    (let gone = (\<lambda>(i, s). dsh_sender_pubkey s = sharer_pubkey \<and> i \<notin> set live_ids);
       kept = filter (\<lambda>e. \<not> gone e) (cat_entries c)
     in (list_ex gone (cat_entries c), c\<lparr>cat_entries := fold (heard_alive sharer_pubkey now) live_ids kept\<rparr>))"

definition prune_sharer :: "byte list \<Rightarrow> share_catalog \<Rightarrow> nat \<times> share_catalog" where
  "prune_sharer sharer_pubkey c =
    (let kept = filter (\<lambda>(_, s). dsh_sender_pubkey s \<noteq> sharer_pubkey) (cat_entries c)
     in (length (cat_entries c) - length kept, c\<lparr>cat_entries := kept\<rparr>))"

text \<open>The order by name and then by id, as two stable sorts.\<close>

definition catalog_entries :: "share_catalog \<Rightarrow> discovered_share list" where
  "catalog_entries c = sort_key dsh_name (sort_key dsh_share_id (map snd (cat_entries c)))"

section \<open>A client's catalogue\<close>

text \<open>What reaches it: announcements, beacons of its sharers, lapses, failed fetches and the timer.\<close>

datatype catalog_op =
    Heard share_announcement nat
  | Timer nat
  | FetchFailed string
  | Beacon "byte list" "string list" nat
  | Lapsed "byte list"

fun catalog_step :: "oxi \<Rightarrow> catalog_op \<Rightarrow> share_catalog \<Rightarrow> share_catalog" where
  "catalog_step ox (Heard ann now) c = snd (apply_verified ox ann now c)"
| "catalog_step ox (Timer now) c = snd (catalog_prune now c)"
| "catalog_step ox (FetchFailed i) c = snd (catalog_remove i c)"
| "catalog_step ox (Beacon pk ids now) c = snd (reconcile_sharer pk ids now c)"
| "catalog_step ox (Lapsed pk) c = snd (prune_sharer pk c)"

definition catalog_run :: "oxi \<Rightarrow> nat \<Rightarrow> catalog_op list \<Rightarrow> share_catalog" where
  "catalog_run ox ttl ops = fold (catalog_step ox) ops (catalog_new ttl)"

text \<open>What an entry says was announced, under an id that its owner's key derives; and its owner was heard when it says.\<close>

fun announces :: "oxi \<Rightarrow> string \<Rightarrow> discovered_share \<Rightarrow> catalog_op \<Rightarrow> bool" where
  "announces ox i s (Heard ann now) \<longleftrightarrow> \<not> sa_withdraw ann \<and> share_binding_is_valid ox ann \<and> sa_share_id ann = i \<and>
     sa_sender_pubkey ann = dsh_sender_pubkey s \<and> sa_name ann = dsh_name s \<and> sa_rating ann = dsh_rating s \<and>
     sa_sender_handle ann = dsh_sender_handle s \<and> sa_sent_unix_ms ann = dsh_announced_unix_ms s"
| "announces ox i s _ \<longleftrightarrow> False"

fun hears :: "string \<Rightarrow> byte list \<Rightarrow> nat \<Rightarrow> catalog_op \<Rightarrow> bool" where
  "hears i pk t (Heard ann now) \<longleftrightarrow> sa_share_id ann = i \<and> sa_sender_pubkey ann = pk \<and> now = t"
| "hears i pk t (Beacon q ids now) \<longleftrightarrow> q = pk \<and> i \<in> set ids \<and> now = t"
| "hears i pk t _ \<longleftrightarrow> False"

definition vouched :: "oxi \<Rightarrow> catalog_op list \<Rightarrow> string \<times> discovered_share \<Rightarrow> bool" where
  "vouched ox ops = (\<lambda>(i, s). dsh_share_id s = i \<and> list_ex (announces ox i s) ops \<and>
     list_ex (hears i (dsh_sender_pubkey s) (dsh_received_at s)) ops)"

definition catalog_inv :: "oxi \<Rightarrow> nat \<Rightarrow> catalog_op list \<Rightarrow> share_catalog \<Rightarrow> bool" where
  "catalog_inv ox ttl ops c \<longleftrightarrow> cat_ttl c = ttl \<and> distinct (map fst (cat_entries c)) \<and> list_all (vouched ox ops) (cat_entries c)"

lemma list_ex_snoc': "list_ex P (xs @ [x]) \<longleftrightarrow> list_ex P xs \<or> P x"
  by (induction xs) auto

lemma announces_received [simp]: "announces ox i (s\<lparr>dsh_received_at := t\<rparr>) = announces ox i s"
proof
  fix a show "announces ox i (s\<lparr>dsh_received_at := t\<rparr>) a = announces ox i s a" by (cases a) simp_all
qed

lemma vouched_mono: "vouched ox ops e \<Longrightarrow> vouched ox (ops @ [a]) e"
  by (cases e) (simp add: vouched_def list_ex_snoc')

lemma vouched_all: "list_all (vouched ox ops) es \<Longrightarrow> list_all (vouched ox (ops @ [a])) es"
  by (simp add: list_all_iff vouched_mono)

lemma list_all_filter: "list_all P xs \<Longrightarrow> list_all P (filter Q xs)"
  by (simp add: list_all_iff)

lemma distinct_filter_fst: "distinct (map fst xs) \<Longrightarrow> distinct (map fst (filter Q xs))"
  by (induction xs) auto

lemma map_entry_all:
  assumes "list_all P es" "\<And>v. map_of es k = Some v \<Longrightarrow> P (k, v) \<Longrightarrow> P (k, f v)" "distinct (map fst es)"
  shows "list_all P (AList.map_entry k f es)"
  using assms
proof (induction es)
  case (Cons e es)
  obtain k' v where e: "e = (k', v)" by (cases e)
  show ?case
  proof (cases "k' = k")
    case True
    with Cons.prems e show ?thesis by simp
  next
    case False
    with Cons e show ?thesis by simp
  qed
qed simp

lemma update_all: "list_all P al \<Longrightarrow> P (k, v) \<Longrightarrow> list_all P (AList.update k v al)"
  by (induction al) auto

lemma delete_inv: "distinct (map fst al) \<Longrightarrow> distinct (map fst (AList.delete k al))" "list_all P al \<Longrightarrow> list_all P (AList.delete k al)"
  by (induction al) (auto simp: AList.delete_eq)

lemma heard_alive_inv:
  assumes "distinct (map fst es)" "list_all (vouched ox (ops @ [Beacon pk ids now])) es" "set js \<subseteq> set ids"
  shows "distinct (map fst (fold (heard_alive pk now) js es)) \<and> list_all (vouched ox (ops @ [Beacon pk ids now])) (fold (heard_alive pk now) js es)"
  using assms
proof (induction js arbitrary: es)
  case (Cons j js)
  have "list_all (vouched ox (ops @ [Beacon pk ids now])) (heard_alive pk now j es)"
    unfolding heard_alive_def
  proof (rule map_entry_all)
    fix v assume "vouched ox (ops @ [Beacon pk ids now]) (j, v)"
    then show "vouched ox (ops @ [Beacon pk ids now]) (j, if dsh_sender_pubkey v = pk then v\<lparr>dsh_received_at := now\<rparr> else v)"
      using Cons.prems(3) by (auto simp: vouched_def list_ex_snoc')
  qed (use Cons.prems in simp_all)
  moreover have "distinct (map fst (heard_alive pk now j es))" using Cons.prems(1) by (simp add: heard_alive_def distinct_map_entry)
  ultimately show ?case using Cons.IH Cons.prems(3) by simp
qed simp

lemma apply_known:
  assumes "map_of (cat_entries c) (sa_share_id ann) = Some cur" "share_binding_is_valid ox ann"
  shows "snd (apply_verified ox ann now c) = c \<or>
    snd (apply_verified ox ann now c) = c\<lparr>cat_entries := AList.delete (sa_share_id ann) (cat_entries c)\<rparr> \<or>
    (snd (apply_verified ox ann now c) = c\<lparr>cat_entries := AList.map_entry (sa_share_id ann) (\<lambda>cur. cur\<lparr>dsh_received_at := now\<rparr>) (cat_entries c)\<rparr> \<and>
      sa_sender_pubkey ann = dsh_sender_pubkey cur) \<or>
    (snd (apply_verified ox ann now c) = c\<lparr>cat_entries := AList.map_entry (sa_share_id ann) (refreshed ann now) (cat_entries c)\<rparr> \<and>
      sa_sender_pubkey ann = dsh_sender_pubkey cur \<and> \<not> sa_withdraw ann)"
  using assms by (simp add: apply_verified_def catalog_apply_def Let_def)

lemma apply_vouched:
  assumes "catalog_inv ox ttl ops c"
  shows "catalog_inv ox ttl (ops @ [Heard ann now]) (snd (apply_verified ox ann now c))"
proof (cases "share_binding_is_valid ox ann")
  case False
  with assms show ?thesis by (auto simp: apply_verified_def catalog_inv_def vouched_all)
next
  case True
  let ?ops = "ops @ [Heard ann now]" and ?i = "sa_share_id ann" and ?es = "cat_entries c"
  from assms have d: "distinct (map fst ?es)" and v: "list_all (vouched ox ?ops) ?es" and t: "cat_ttl c = ttl"
    by (auto simp: catalog_inv_def vouched_all)
  show ?thesis
  proof (cases "map_of ?es ?i")
    case None
    with True d v t show ?thesis
      by (auto simp: apply_verified_def catalog_apply_def Let_def catalog_inv_def distinct_update vouched_def list_ex_snoc' intro!: update_all)
  next
    case (Some cur)
    with v have "vouched ox ?ops (?i, cur)" by (auto dest!: map_of_SomeD simp: list_all_iff)
    from apply_known [OF Some True, of now] consider (same) "snd (apply_verified ox ann now c) = c"
      | (gone) "snd (apply_verified ox ann now c) = c\<lparr>cat_entries := AList.delete ?i ?es\<rparr>"
      | (again) "snd (apply_verified ox ann now c) = c\<lparr>cat_entries := AList.map_entry ?i (\<lambda>cur. cur\<lparr>dsh_received_at := now\<rparr>) ?es\<rparr>"
        "sa_sender_pubkey ann = dsh_sender_pubkey cur"
      | (changed) "snd (apply_verified ox ann now c) = c\<lparr>cat_entries := AList.map_entry ?i (refreshed ann now) ?es\<rparr>"
        "sa_sender_pubkey ann = dsh_sender_pubkey cur" "\<not> sa_withdraw ann"
      by blast
    then show ?thesis
    proof cases
      case same
      with d v t show ?thesis by (simp add: catalog_inv_def)
    next
      case gone
      with d v t show ?thesis by (simp add: catalog_inv_def delete_inv)
    next
      case again
      have "vouched ox ?ops (?i, cur\<lparr>dsh_received_at := now\<rparr>)"
        using \<open>vouched ox ?ops (?i, cur)\<close> again(2) by (simp add: vouched_def list_ex_snoc')
      then have "list_all (vouched ox ?ops) (AList.map_entry ?i (\<lambda>cur. cur\<lparr>dsh_received_at := now\<rparr>) ?es)" by (intro map_entry_all [OF v _ d]) (simp add: Some)
      then show ?thesis using d t by (simp add: again(1) catalog_inv_def distinct_map_entry)
    next
      case changed
      have "vouched ox ?ops (?i, refreshed ann now cur)"
        using \<open>vouched ox ?ops (?i, cur)\<close> changed(2,3) True by (simp add: vouched_def list_ex_snoc' refreshed_def)
      then have "list_all (vouched ox ?ops) (AList.map_entry ?i (refreshed ann now) ?es)" by (intro map_entry_all [OF v _ d]) (simp add: Some)
      then show ?thesis using d t by (simp add: changed(1) catalog_inv_def distinct_map_entry)
    qed
  qed
qed

lemma catalog_step_inv:
  assumes "catalog_inv ox ttl ops c"
  shows "catalog_inv ox ttl (ops @ [a]) (catalog_step ox a c)"
proof (cases a)
  case (Heard ann now)
  then show ?thesis using apply_vouched [OF assms] by simp
next
  case (Beacon pk ids now)
  with assms heard_alive_inv [of "filter (\<lambda>e. \<not> (case e of (i, s) \<Rightarrow> dsh_sender_pubkey s = pk \<and> i \<notin> set ids)) (cat_entries c)" ox ops pk ids now ids]
  show ?thesis by (simp add: catalog_inv_def reconcile_sharer_def Let_def distinct_filter_fst list_all_filter vouched_all)
qed (use assms in \<open>simp_all add: catalog_inv_def catalog_prune_def catalog_remove_def prune_sharer_def Let_def distinct_filter_fst
    list_all_filter vouched_all delete_inv\<close>)

lemma catalog_run_inv: "catalog_inv ox ttl ops (catalog_run ox ttl ops)"
proof (induction ops rule: rev_induct)
  case (snoc a ops)
  then show ?case using catalog_step_inv [of ox ttl ops "catalog_run ox ttl ops" a] by (simp add: catalog_run_def)
qed (simp add: catalog_run_def catalog_new_def catalog_inv_def)

lemma apply_foreign:
  assumes "map_of (cat_entries c) i = Some s" "map_of (cat_entries (snd (apply_verified ox ann now c))) i \<noteq> Some s"
  shows "share_binding_is_valid ox ann \<and> sa_share_id ann = i \<and> sa_sender_pubkey ann = dsh_sender_pubkey s \<and>
    dsh_announced_unix_ms s \<le> sa_sent_unix_ms ann"
  using assms
  by (auto simp: apply_verified_def catalog_apply_def Let_def map_of_map_entry update_conv' delete_conv' split: if_splits option.splits)

section \<open>The property\<close>


section \<open>A replay\<close>

text \<open>
  An announcement that is heard again refreshes the time of its entry, and one heard after a withdrawal enters it anew:
  replayed within the time to live, it stays.
\<close>

lemma replayed_announcement_stays:
  assumes "share_binding_is_valid ox ann" "\<not> sa_withdraw ann" "map_of (cat_entries c) (sa_share_id ann) = None"
  shows "map_of (cat_entries (snd (apply_verified ox ann t' (snd (apply_verified ox ann t c))))) (sa_share_id ann) =
    Some \<lparr>dsh_share_id = sa_share_id ann, dsh_name = sa_name ann, dsh_rating = sa_rating ann, dsh_sender_handle = sa_sender_handle ann,
      dsh_sender_pubkey = sa_sender_pubkey ann, dsh_announced_unix_ms = sa_sent_unix_ms ann, dsh_received_at = t'\<rparr>"
  using assms by (simp add: apply_verified_def catalog_apply_def Let_def update_conv' map_of_map_entry)

definition demo_share :: "string \<Rightarrow> share_announcement" where
  "demo_share i = \<lparr>sa_room = ''r'', sa_sender_pubkey = [7], sa_sender_handle = ''h'', sa_share_id = i,
     sa_root_commitment = replicate ROOT_COMMITMENT_LEN 1, sa_name = ''n'', sa_rating = ''g'', sa_withdraw = False,
     sa_sent_unix_ms = 5, sa_signature = []\<rparr>"


end
