(* ===== verification/Share_Serve.thy ===== *)
theory Share_Serve
  imports Share_Frame "HOL-Library.AList" "HOL-Library.List_Lexorder"
begin

text \<open>
  The serving of a share: the chunk store in memory (\<open>storage/cas.rs\<close>), the index of a directory, the hash pass over it
  and the chunks read back from disk (\<open>share_serve.rs\<close>). A path is the list of its components below the root of the
  share, a name its bytes; what the walk of the directory finds is an argument, and so is what each file holds when it
  is read (\<open>None\<close> where it cannot be opened or read).
\<close>

section \<open>The chunk store in memory\<close>

definition CHUNK_ADDR_LEN :: nat where "CHUNK_ADDR_LEN = 48"

definition chunk_addr_of :: "oxi \<Rightarrow> byte list \<Rightarrow> oxi_error + chunk_addr" where
  "chunk_addr_of ox chunk = rbind (sha384 ox chunk) (\<lambda>digest. Inr (take CHUNK_ADDR_LEN digest))"

text \<open>A comparison that reads every byte.\<close>

definition ct_eq :: "byte list \<Rightarrow> byte list \<Rightarrow> bool" where
  "ct_eq a b = (if length a \<noteq> length b then False
     else fold (\<lambda>(x, y) diff. or diff (xor x y)) (zip a b) 0 = 0)"

datatype unref = StillReferenced u32 | Dropped

text \<open>\<open>RefOverflow\<close> is the panic of a reference count that overflows: the workspace builds with overflow checks.\<close>

datatype cas_error = CasHash oxi_error | RefOverflow

record mem_entry =
  mem_bytes :: "byte list"
  mem_refs :: u32

type_synonym chunk_store = "(chunk_addr \<times> mem_entry) list"

definition cas_put :: "oxi \<Rightarrow> byte list \<Rightarrow> chunk_store \<Rightarrow> cas_error + chunk_addr \<times> chunk_store" where
  "cas_put ox chunk st =
    rbind (map_err CasHash (chunk_addr_of ox chunk)) (\<lambda>addr.
    case map_of st addr of
      Some e \<Rightarrow> if mem_refs e = 0xFFFFFFFF then Inl RefOverflow
        else Inr (addr, AList.update addr (e\<lparr>mem_refs := mem_refs e + 1\<rparr>) st)
    | None \<Rightarrow> Inr (addr, AList.update addr \<lparr>mem_bytes = chunk, mem_refs = 1\<rparr> st))"

definition cas_get :: "chunk_addr \<Rightarrow> chunk_store \<Rightarrow> byte list option" where
  "cas_get addr st = map_option mem_bytes (map_of st addr)"

definition cas_has :: "chunk_addr \<Rightarrow> chunk_store \<Rightarrow> bool" where
  "cas_has addr st = fold (\<lambda>(key, _) found. found \<or> ct_eq key addr) st False"

definition cas_unref :: "chunk_addr \<Rightarrow> chunk_store \<Rightarrow> unref \<times> chunk_store" where
  "cas_unref addr st =
    (case map_of st addr of
       Some e \<Rightarrow> if mem_refs e > 1
         then (StillReferenced (mem_refs e - 1), AList.update addr (e\<lparr>mem_refs := mem_refs e - 1\<rparr>) st)
         else (Dropped, AList.delete addr st)
     | None \<Rightarrow> (Dropped, st))"

section \<open>Files\<close>

type_synonym dir_path = "byte list list"
type_synonym file_reader = "dir_path \<Rightarrow> byte list option"

definition CHUNK_SIZE :: nat where "CHUNK_SIZE = 1024 * 1024"
definition MANIFEST_FRAME_BUDGET :: nat where "MANIFEST_FRAME_BUDGET = 3500000"

record share_manifest =
  shm_entries :: "manifest_entry list"

definition manifest_frame_len :: "share_manifest \<Rightarrow> nat" where
  "manifest_frame_len m = 1 + 4 + sum_list (map (\<lambda>e. 2 + length (ascii (me_rel_path e)) + 8 + 4 + length (me_chunks e) * CHUNK_ADDR_LEN) (shm_entries m))"

text \<open>The walk yields what is there in the order of its file names; the paths are then sorted.\<close>

definition share_files :: "dir_path list \<Rightarrow> dir_path list" where
  "share_files walk = sort walk"

text \<open>\<open>to_string_lossy\<close> of the standard library leaves a name in UTF-8 as it is.\<close>

definition SLASH :: byte where "SLASH = 47"

fun join_slash :: "byte list list \<Rightarrow> byte list" where
  "join_slash [] = []"
| "join_slash [c] = c"
| "join_slash (c # cs) = c @ SLASH # join_slash cs"

definition share_rel_path :: "(byte list \<Rightarrow> byte list) \<Rightarrow> dir_path \<Rightarrow> string" where
  "share_rel_path lossy p = unascii (join_slash (map lossy p))"

fun split_slash :: "byte list \<Rightarrow> byte list list" where
  "split_slash [] = [[]]"
| "split_slash (b # bs) = (if b = SLASH then [] # split_slash bs
     else case split_slash bs of [] \<Rightarrow> [[b]] | c # cs \<Rightarrow> (b # c) # cs)"

definition join_rel :: "string \<Rightarrow> dir_path" where
  "join_rel rel_path = split_slash (ascii rel_path)"

text \<open>\<open>slice::chunks\<close>.\<close>

function chunks :: "nat \<Rightarrow> 'a list \<Rightarrow> 'a list list" where
  "chunks n xs = (if n = 0 \<or> xs = [] then [] else take n xs # chunks n (drop n xs))"
  by pat_completeness auto
termination by (relation "measure (\<lambda>(n, xs). length xs)") auto

declare chunks.simps [simp del]

text \<open>A reader grants between one byte and what is asked and left; the loop stops at a full buffer or at the end.\<close>

function read_to_fill :: "(nat \<Rightarrow> nat) \<Rightarrow> nat \<Rightarrow> byte list \<Rightarrow> nat \<Rightarrow> nat" where
  "read_to_fill grant len left filled =
    (if filled < len then
       let n = min (max 1 (grant filled)) (min (len - filled) (length left - filled))
       in if n = 0 then filled else read_to_fill grant len left (filled + n)
     else filled)"
  by pat_completeness auto
termination by (relation "measure (\<lambda>(g, len, left, filled). len - filled)") (auto simp: Let_def)

declare read_to_fill.simps [simp del]

lemma read_to_fill_eq: "filled \<le> length left \<Longrightarrow> read_to_fill grant len left filled = max filled (min len (length left))"
proof (induction grant len left filled rule: read_to_fill.induct)
  case (1 grant len left filled)
  define n where "n = min (max 1 (grant filled)) (min (len - filled) (length left - filled))"
  have step: "read_to_fill grant len left filled =
      (if filled < len then if n = 0 then filled else read_to_fill grant len left (filled + n) else filled)"
    by (subst read_to_fill.simps) (simp only: n_def Let_def)
  show ?case
  proof (cases "filled < len \<and> n \<noteq> 0")
    case True
    have le: "filled + n \<le> length left" "filled + n \<le> len" using True by (auto simp: n_def)
    have "read_to_fill grant len left (filled + n) = max (filled + n) (min len (length left))"
      using "1.IH" [OF _ n_def] True le(1) by simp
    with True le show ?thesis unfolding step by (simp add: max_def)
  next
    case False
    with "1.prems" have "len \<le> filled \<or> length left = filled" by (auto simp: n_def)
    with False "1.prems" show ?thesis unfolding step by (auto simp: max_def min_def)
  qed
qed

lemma read_to_fill_all: "read_to_fill grant len left 0 = min len (length left)"
  by (simp add: read_to_fill_eq)

section \<open>The share in memory\<close>

datatype serve_error =
    ServeIo
  | ServeCas cas_error
  | Cancelled
  | UnknownChunk
  | ChunkModified string

record share_content =
  sc_manifest :: "manifest_entry list"
  sc_store :: chunk_store

fun put_chunks :: "oxi \<Rightarrow> byte list list \<Rightarrow> chunk_store \<Rightarrow> cas_error + chunk_addr list \<times> chunk_store" where
  "put_chunks ox [] st = Inr ([], st)"
| "put_chunks ox (c # cs) st =
    rbind (cas_put ox c st) (\<lambda>(a, st). rbind (put_chunks ox cs st) (\<lambda>(as, st). Inr (a # as, st)))"

fun index_files :: "oxi \<Rightarrow> (byte list \<Rightarrow> byte list) \<Rightarrow> file_reader \<Rightarrow> dir_path list \<Rightarrow> chunk_store \<Rightarrow>
    serve_error + manifest_entry list \<times> chunk_store" where
  "index_files ox lossy fs [] st = Inr ([], st)"
| "index_files ox lossy fs (p # ps) st =
    rbind (ok_or ServeIo (fs p)) (\<lambda>bs.
    rbind (map_err ServeCas (put_chunks ox (chunks CHUNK_SIZE bs) st)) (\<lambda>(as, st).
    rbind (index_files ox lossy fs ps st) (\<lambda>(es, st).
    Inr (\<lparr>me_rel_path = share_rel_path lossy p, me_size = word_of_nat (length bs), me_chunks = as\<rparr> # es, st))))"

definition index_dir :: "oxi \<Rightarrow> (byte list \<Rightarrow> byte list) \<Rightarrow> file_reader \<Rightarrow> dir_path list \<Rightarrow> serve_error + share_content" where
  "index_dir ox lossy fs walk =
    rbind (index_files ox lossy fs (share_files walk) []) (\<lambda>(manifest, store). Inr \<lparr>sc_manifest = manifest, sc_store = store\<rparr>)"

section \<open>Answers\<close>

fun source_answer :: "manifest_entry list \<Rightarrow> (chunk_addr \<Rightarrow> byte list option) \<Rightarrow> share_frame \<Rightarrow> share_frame option" where
  "source_answer manifest chunk ManifestRequest = Some (ManifestResponse manifest)"
| "source_answer manifest chunk (ChunkRequest addr) = map_option (ChunkResponse addr) (chunk addr)"
| "source_answer manifest chunk (ManifestResponse es) = None"
| "source_answer manifest chunk (ChunkResponse a d) = None"

definition content_answer :: "share_content \<Rightarrow> share_frame \<Rightarrow> share_frame option" where
  "content_answer sc = source_answer (sc_manifest sc) (\<lambda>addr. cas_get addr (sc_store sc))"

section \<open>The hash pass\<close>

text \<open>\<open>cancel k\<close> is what the \<open>k\<close>-th load of the flag finds; the count of loads is threaded.\<close>

function hash_chunks_loop :: "oxi \<Rightarrow> (nat \<Rightarrow> bool) \<Rightarrow> (nat \<Rightarrow> nat) \<Rightarrow> nat \<Rightarrow> byte list \<Rightarrow> (serve_error + chunk_addr list \<times> nat) \<times> nat" where
  "hash_chunks_loop ox cancel grant k left =
    (if cancel k then (Inl Cancelled, k + 1)
     else let n = read_to_fill grant CHUNK_SIZE left 0 in
       if n = 0 then (Inr ([], 0), k + 1)
       else case chunk_addr_of ox (take n left) of
         Inl e \<Rightarrow> (Inl (ServeCas (CasHash e)), k + 1)
       | Inr a \<Rightarrow>
           if n < CHUNK_SIZE then (Inr ([a], n), k + 1)
           else case hash_chunks_loop ox cancel grant (k + 1) (drop n left) of
             (Inl e, k) \<Rightarrow> (Inl e, k)
           | (Inr (as, sz), k) \<Rightarrow> (Inr (a # as, n + sz), k))"
  by pat_completeness auto
termination
  by (relation "measure (\<lambda>(ox, cancel, grant, k, left). length left)") (auto simp: read_to_fill_all)

declare hash_chunks_loop.simps [simp del]

definition hash_file_chunks :: "oxi \<Rightarrow> (nat \<Rightarrow> bool) \<Rightarrow> (nat \<Rightarrow> nat) \<Rightarrow> file_reader \<Rightarrow> nat \<Rightarrow> dir_path \<Rightarrow>
    (serve_error + chunk_addr list \<times> nat) \<times> nat" where
  "hash_file_chunks ox cancel grant fs k p =
    (case fs p of None \<Rightarrow> (Inl ServeIo, k) | Some bs \<Rightarrow> hash_chunks_loop ox cancel grant k bs)"

fun hash_files :: "oxi \<Rightarrow> (nat \<Rightarrow> bool) \<Rightarrow> (nat \<Rightarrow> nat) \<Rightarrow> (byte list \<Rightarrow> byte list) \<Rightarrow> file_reader \<Rightarrow> nat \<Rightarrow> dir_path list \<Rightarrow>
    serve_error + manifest_entry list" where
  "hash_files ox cancel grant lossy fs k [] = Inr []"
| "hash_files ox cancel grant lossy fs k (p # ps) =
    (if cancel k then Inl Cancelled
     else case hash_file_chunks ox cancel grant fs (k + 1) p of
       (Inl e, k) \<Rightarrow> Inl e
     | (Inr (as, sz), k) \<Rightarrow>
         rbind (hash_files ox cancel grant lossy fs k ps) (\<lambda>es.
         Inr (\<lparr>me_rel_path = share_rel_path lossy p, me_size = word_of_nat sz, me_chunks = as\<rparr> # es)))"

definition hash_share :: "oxi \<Rightarrow> (nat \<Rightarrow> bool) \<Rightarrow> (nat \<Rightarrow> nat) \<Rightarrow> (byte list \<Rightarrow> byte list) \<Rightarrow> file_reader \<Rightarrow> dir_path list \<Rightarrow>
    serve_error + share_manifest" where
  "hash_share ox cancel grant lossy fs walk =
    rbind (hash_files ox cancel grant lossy fs 0 (share_files walk)) (\<lambda>es. Inr \<lparr>shm_entries = es\<rparr>)"

section \<open>The share on disk\<close>

record disk_share_content =
  dk_manifest :: share_manifest
  dk_by_addr :: "(chunk_addr \<times> nat \<times> nat) list"

definition or_insert :: "'k \<Rightarrow> 'v \<Rightarrow> ('k \<times> 'v) list \<Rightarrow> ('k \<times> 'v) list" where
  "or_insert k v m = (if map_of m k = None then AList.update k v m else m)"

definition disk_new :: "share_manifest \<Rightarrow> disk_share_content" where
  "disk_new manifest = \<lparr>dk_manifest = manifest,
     dk_by_addr = fold (\<lambda>(i, entry). fold (\<lambda>(c, addr). or_insert addr (i, c)) (enumerate 0 (me_chunks entry)))
       (enumerate 0 (shm_entries manifest)) []\<rparr>"

text \<open>Sizes and offsets are naturals: in a manifest of the hash pass the offset of a chunk is below the size of its file.\<close>

definition get_chunk :: "disk_share_content \<Rightarrow> file_reader \<Rightarrow> chunk_addr \<Rightarrow> serve_error + byte list" where
  "get_chunk dk fs addr =
    (case map_of (dk_by_addr dk) addr of
       None \<Rightarrow> Inl UnknownChunk
     | Some (i, c) \<Rightarrow>
         let entry = shm_entries (dk_manifest dk) ! i
         in rbind (ok_or ServeIo (fs (join_rel (me_rel_path entry)))) (\<lambda>bs.
            if length bs \<noteq> unat (me_size entry) then Inl (ChunkModified (me_rel_path entry))
            else
              let offset = c * CHUNK_SIZE;
                expected = min (unat (me_size entry) - offset) CHUNK_SIZE
              in if length (drop offset bs) < expected then Inl (ChunkModified (me_rel_path entry))
              else Inr (take expected (drop offset bs))))"

definition disk_chunk :: "disk_share_content \<Rightarrow> file_reader \<Rightarrow> chunk_addr \<Rightarrow> byte list option" where
  "disk_chunk dk fs addr = (case get_chunk dk fs addr of Inr bs \<Rightarrow> Some bs | Inl _ \<Rightarrow> None)"

definition disk_answer :: "disk_share_content \<Rightarrow> file_reader \<Rightarrow> share_frame \<Rightarrow> share_frame option" where
  "disk_answer dk fs = source_answer (shm_entries (dk_manifest dk)) (disk_chunk dk fs)"

section \<open>Chunks and their addresses\<close>

lemma chunks_Nil [simp]: "chunks n [] = []"
  by (simp add: chunks.simps)

lemma chunks_nth:
  "c < length (chunks n xs) \<Longrightarrow> chunks n xs ! c = take n (drop (c * n) xs) \<and> c * n < length xs"
proof (induction n xs arbitrary: c rule: chunks.induct)
  case (1 n xs)
  show ?case
  proof (cases "n = 0 \<or> xs = []")
    case True
    with "1.prems" show ?thesis by (simp add: chunks.simps [of n xs])
  next
    case False
    then have e: "chunks n xs = take n xs # chunks n (drop n xs)" by (simp add: chunks.simps [of n xs])
    show ?thesis
    proof (cases c)
      case 0
      with False e show ?thesis by simp
    next
      case (Suc d)
      with "1.prems" e have "d < length (chunks n (drop n xs))" by simp
      from "1.IH" [OF False this] show ?thesis by (simp add: Suc e add.commute less_diff_conv)
    qed
  qed
qed

lemma concat_of_chunks: "0 < n \<Longrightarrow> concat (chunks n xs) = xs"
proof (induction n xs rule: chunks.induct)
  case (1 n xs)
  then show ?case by (cases "xs = []") (simp_all add: chunks.simps [of n xs])
qed

text \<open>The address of a chunk that has one.\<close>

definition adr :: "oxi \<Rightarrow> byte list \<Rightarrow> chunk_addr" where
  "adr ox ch = (case chunk_addr_of ox ch of Inr a \<Rightarrow> a | Inl _ \<Rightarrow> [])"

definition addressed :: "oxi \<Rightarrow> byte list list \<Rightarrow> bool" where
  "addressed ox cs \<longleftrightarrow> (\<forall>c \<in> set cs. chunk_addr_of ox c = Inr (adr ox c))"

lemma adr_eq: "chunk_addr_of ox c = Inr a \<Longrightarrow> adr ox c = a"
  by (simp add: adr_def)

section \<open>The store\<close>

lemma xor_zero: "xor (x :: byte) y = 0 \<longleftrightarrow> x = y"
  by (metis xor_self_eq bit.xor_left_self xor.right_neutral)

lemma or_zero: "or (x :: byte) y = 0 \<longleftrightarrow> x = 0 \<and> y = 0"
  by (metis or_eq_0_iff)

lemma ct_eq_iff: "ct_eq a b \<longleftrightarrow> a = b"
proof -
  have "fold (\<lambda>(x, y) diff. or diff (xor x y)) (zip a b) d = 0 \<longleftrightarrow> d = 0 \<and> a = b" if "length a = length b" for d :: byte
    using that by (induction a b arbitrary: d rule: list_induct2) (auto simp: or_zero xor_zero)
  then show ?thesis by (auto simp: ct_eq_def)
qed

lemma cas_has_iff: "cas_has a st \<longleftrightarrow> cas_get a st \<noteq> None"
proof -
  have "fold (\<lambda>(key, _) found. found \<or> ct_eq key a) st b \<longleftrightarrow> b \<or> a \<in> fst ` set st" for b
    by (induction st arbitrary: b) (auto simp: ct_eq_iff)
  then show ?thesis by (simp add: cas_has_def cas_get_def map_of_eq_None_iff)
qed

lemma cas_put_Inr:
  assumes "cas_put ox c st = Inr (a, st')"
  shows "a = adr ox c" "chunk_addr_of ox c = Inr (adr ox c)"
    "cas_get x st' = (case cas_get x st of Some b \<Rightarrow> Some b | None \<Rightarrow> if x = adr ox c then Some c else None)"
proof -
  from assms have a: "chunk_addr_of ox c = Inr a" by (auto simp: cas_put_def result_simps split: option.splits if_splits)
  then show "a = adr ox c" "chunk_addr_of ox c = Inr (adr ox c)" by (simp_all add: adr_def)
  show "cas_get x st' = (case cas_get x st of Some b \<Rightarrow> Some b | None \<Rightarrow> if x = adr ox c then Some c else None)"
    using assms a
    by (cases "map_of st a"; cases "map_of st x") (auto simp: cas_put_def cas_get_def adr_def update_conv' split: if_splits)
qed

lemma put_chunks_Inr:
  "put_chunks ox cs st = Inr (as, st') \<Longrightarrow> as = map (adr ox) cs \<and> addressed ox cs \<and>
     cas_get x st' = (case cas_get x st of Some b \<Rightarrow> Some b | None \<Rightarrow> map_of (map (\<lambda>c. (adr ox c, c)) cs) x)"
proof (induction cs arbitrary: as st)
  case Nil
  then show ?case by (simp add: addressed_def split: option.split)
next
  case (Cons c cs)
  from Cons.prems obtain a st1 as1 where p: "cas_put ox c st = Inr (a, st1)" "put_chunks ox cs st1 = Inr (as1, st')" "as = a # as1"
    by (auto simp: result_simps)
  from Cons.IH [OF p(2)] cas_put_Inr [OF p(1)] p(3) show ?case by (auto simp: addressed_def split: option.splits)
qed

section \<open>The index and the hash pass agree\<close>

definition entry_of :: "oxi \<Rightarrow> (byte list \<Rightarrow> byte list) \<Rightarrow> file_reader \<Rightarrow> dir_path \<Rightarrow> manifest_entry" where
  "entry_of ox lossy fs p = \<lparr>me_rel_path = share_rel_path lossy p, me_size = word_of_nat (length (the (fs p))),
     me_chunks = map (adr ox) (chunks CHUNK_SIZE (the (fs p)))\<rparr>"

definition all_chunks :: "file_reader \<Rightarrow> dir_path list \<Rightarrow> byte list list" where
  "all_chunks fs ps = concat (map (\<lambda>p. chunks CHUNK_SIZE (the (fs p))) ps)"

lemma index_files_Inr:
  "index_files ox lossy fs ps st = Inr (es, st') \<Longrightarrow> es = map (entry_of ox lossy fs) ps \<and> (\<forall>p \<in> set ps. fs p \<noteq> None) \<and>
     addressed ox (all_chunks fs ps) \<and>
     cas_get x st' = (case cas_get x st of Some b \<Rightarrow> Some b | None \<Rightarrow> map_of (map (\<lambda>c. (adr ox c, c)) (all_chunks fs ps)) x)"
proof (induction ps arbitrary: es st)
  case Nil
  then show ?case by (simp add: addressed_def all_chunks_def split: option.split)
next
  case (Cons p ps)
  from Cons.prems obtain bs as st1 es1 where p: "fs p = Some bs" "put_chunks ox (chunks CHUNK_SIZE bs) st = Inr (as, st1)"
    "index_files ox lossy fs ps st1 = Inr (es1, st')"
    "es = \<lparr>me_rel_path = share_rel_path lossy p, me_size = word_of_nat (length bs), me_chunks = as\<rparr> # es1"
    by (auto simp: result_simps)
  from Cons.IH [OF p(3)] put_chunks_Inr [OF p(2)] p(1,4) show ?case
    by (auto simp: entry_of_def all_chunks_def addressed_def map_add_def split: option.splits)
qed

lemma hash_chunks_Inr:
  "addressed ox (chunks CHUNK_SIZE bs) \<Longrightarrow> fst (hash_chunks_loop ox (\<lambda>_. False) grant k bs) =
     Inr (map (adr ox) (chunks CHUNK_SIZE bs), length bs)"
proof (induction bs arbitrary: k rule: length_induct)
  case (1 bs)
  have pos: "0 < CHUNK_SIZE" by (simp add: CHUNK_SIZE_def)
  show ?case
  proof (cases "bs = []")
    case True
    then show ?thesis by (simp add: hash_chunks_loop.simps [of ox _ grant k "[]"] read_to_fill_all Let_def)
  next
    case False
    then have c: "chunks CHUNK_SIZE bs = take CHUNK_SIZE bs # chunks CHUNK_SIZE (drop CHUNK_SIZE bs)"
      using pos by (simp add: chunks.simps [of _ bs])
    have t: "take (min CHUNK_SIZE (length bs)) bs = take CHUNK_SIZE bs" by (simp add: min_def)
    have a: "chunk_addr_of ox (take CHUNK_SIZE bs) = Inr (adr ox (take CHUNK_SIZE bs))" "addressed ox (chunks CHUNK_SIZE (drop CHUNK_SIZE bs))"
      using "1.prems" by (simp_all add: c addressed_def)
    show ?thesis
    proof (cases "length bs < CHUNK_SIZE")
      case True
      then show ?thesis using False a(1) t
        by (simp add: hash_chunks_loop.simps [of ox _ grant k bs] read_to_fill_all Let_def c chunks.simps [of _ "[]"] min_def)
    next
      case full: False
      have len: "length (drop CHUNK_SIZE bs) < length bs" using False pos by simp
      obtain k' where h: "hash_chunks_loop ox (\<lambda>_. False) grant (k + 1) (drop CHUNK_SIZE bs) =
        (Inr (map (adr ox) (chunks CHUNK_SIZE (drop CHUNK_SIZE bs)), length (drop CHUNK_SIZE bs)), k')"
        using "1.IH" len a(2) by (metis prod.collapse)
      from full have m: "min CHUNK_SIZE (length bs) = CHUNK_SIZE" by simp
      show ?thesis using full a(1) h pos False
        by (simp add: hash_chunks_loop.simps [of ox _ grant k bs] read_to_fill_all Let_def c m del: length_drop) simp
    qed
  qed
qed

lemma addressed_all: "addressed ox (all_chunks fs (p # ps)) \<longleftrightarrow> addressed ox (chunks CHUNK_SIZE (the (fs p))) \<and> addressed ox (all_chunks fs ps)"
  by (auto simp: addressed_def all_chunks_def)

lemma hash_files_Inr:
  "\<forall>p \<in> set ps. fs p \<noteq> None \<Longrightarrow> addressed ox (all_chunks fs ps) \<Longrightarrow>
     hash_files ox (\<lambda>_. False) grant lossy fs k ps = Inr (map (entry_of ox lossy fs) ps)"
proof (induction ps arbitrary: k)
  case (Cons p ps)
  then obtain bs where bs: "fs p = Some bs" by auto
  with Cons.prems(2) have a: "addressed ox (chunks CHUNK_SIZE bs)" "addressed ox (all_chunks fs ps)" by (simp_all add: addressed_all)
  obtain k' where "hash_chunks_loop ox (\<lambda>_. False) grant (k + 1) bs = (Inr (map (adr ox) (chunks CHUNK_SIZE bs), length bs), k')"
    using hash_chunks_Inr [OF a(1), of grant "k + 1"] by (metis prod.collapse)
  with Cons.IH [OF _ a(2), of k'] Cons.prems(1) bs show ?case by (simp add: hash_file_chunks_def entry_of_def)
qed simp

section \<open>Names\<close>

definition proper :: "(byte list \<Rightarrow> byte list) \<Rightarrow> dir_path \<Rightarrow> bool" where
  "proper lossy p \<longleftrightarrow> p \<noteq> [] \<and> (\<forall>c \<in> set p. SLASH \<notin> set c \<and> lossy c = c)"

lemma split_slash_nonempty [simp]: "split_slash s \<noteq> []"
  by (induction s) (auto split: list.splits)

lemma split_plain: "SLASH \<notin> set c \<Longrightarrow> split_slash c = [c]"
  by (induction c) auto

lemma split_append: "SLASH \<notin> set c \<Longrightarrow> split_slash (c @ SLASH # s) = c # split_slash s"
  by (induction c) auto

lemma split_join: "cs \<noteq> [] \<Longrightarrow> \<forall>c \<in> set cs. SLASH \<notin> set c \<Longrightarrow> split_slash (join_slash cs) = cs"
  by (induction cs rule: join_slash.induct) (simp_all add: split_plain split_append)

lemma join_rel_path: "proper lossy p \<Longrightarrow> join_rel (share_rel_path lossy p) = p"
proof -
  assume p: "proper lossy p"
  then have "map lossy p = p" by (simp add: proper_def map_idI)
  with p split_join [of p] show ?thesis by (simp add: join_rel_def share_rel_path_def proper_def)
qed

section \<open>The first occurrence of an address\<close>

definition placed :: "file_reader \<Rightarrow> nat \<Rightarrow> dir_path list \<Rightarrow> (byte list \<times> nat \<times> nat) list" where
  "placed fs i ps = concat (map (\<lambda>(i, p). map (\<lambda>(c, ch). (ch, (i, c))) (enumerate 0 (chunks CHUNK_SIZE (the (fs p))))) (enumerate i ps))"

lemma map_of_or_insert: "map_of (or_insert k v m) a = (case map_of m a of Some x \<Rightarrow> Some x | None \<Rightarrow> if a = k then Some v else None)"
  by (auto simp: or_insert_def update_conv' split: option.split)

lemma fold_or_insert:
  "map_of (fold (\<lambda>(c, addr). or_insert addr (i, c)) xs m) a =
     (case map_of m a of Some x \<Rightarrow> Some x | None \<Rightarrow> map_of (map (\<lambda>(c, addr). (addr, (i, c))) xs) a)"
proof (induction xs arbitrary: m)
  case (Cons x xs)
  obtain c ad where "x = (c, ad)" by (cases x)
  with Cons.IH [of "or_insert ad (i, c) m"] show ?case by (auto simp: map_of_or_insert split: option.splits)
qed (simp split: option.split)

lemma fold_entries:
  "map_of (fold (\<lambda>(i, entry). fold (\<lambda>(c, addr). or_insert addr (i, c)) (enumerate 0 (me_chunks entry))) xs m) a =
     (case map_of m a of Some x \<Rightarrow> Some x
      | None \<Rightarrow> map_of (concat (map (\<lambda>(i, entry). map (\<lambda>(c, addr). (addr, (i, c))) (enumerate 0 (me_chunks entry))) xs)) a)"
proof (induction xs arbitrary: m)
  case (Cons x xs)
  obtain i e where "x = (i, e)" by (cases x)
  with Cons.IH [of "fold (\<lambda>(c, addr). or_insert addr (i, c)) (enumerate 0 (me_chunks e)) m"] show ?case
    by (auto simp: fold_or_insert map_add_def split: option.splits)
qed (simp split: option.split)

lemma enumerate_of_map: "enumerate n (map f xs) = map (\<lambda>(i, x). (i, f x)) (enumerate n xs)"
  by (induction xs arbitrary: n) simp_all

lemma disk_new_placed:
  "map_of (dk_by_addr (disk_new \<lparr>shm_entries = map (entry_of ox lossy fs) ps\<rparr>)) a =
     map_of (map (\<lambda>(ch, ic). (adr ox ch, ic)) (placed fs 0 ps)) a"
proof -
  have "concat (map (\<lambda>(i, entry). map (\<lambda>(c, addr). (addr, (i, c))) (enumerate 0 (me_chunks entry))) (enumerate k (map (entry_of ox lossy fs) ps))) =
     map (\<lambda>(ch, ic). (adr ox ch, ic)) (placed fs k ps)" for k
    by (induction ps arbitrary: k)
      (simp_all add: placed_def entry_of_def enumerate_of_map comp_def case_prod_unfold)
  then show ?thesis by (simp add: disk_new_def fold_entries)
qed

lemma all_chunks_placed: "all_chunks fs ps = map fst (placed fs k ps)"
proof (induction ps arbitrary: k)
  case (Cons p ps)
  have "map (fst \<circ> (\<lambda>(c, ch). (ch, (k, c)))) (enumerate 0 cs) = cs" for cs :: "byte list list"
    by (simp add: comp_def case_prod_unfold map_snd_enumerate)
  with Cons.IH [of "Suc k"] show ?case by (simp add: all_chunks_def placed_def)
qed (simp add: all_chunks_def placed_def)

lemma placed_member:
  "(ch, (i, c)) \<in> set (placed fs 0 ps) \<Longrightarrow>
     i < length ps \<and> c < length (chunks CHUNK_SIZE (the (fs (ps ! i)))) \<and> ch = chunks CHUNK_SIZE (the (fs (ps ! i))) ! c"
  by (auto simp: placed_def in_set_enumerate_eq)

lemma map_of_find: "map_of (map (\<lambda>x. (f x, g x)) xs) a = map_option g (List.find (\<lambda>x. f x = a) xs)"
  by (induction xs) auto

lemma both_maps:
  "map_of (map (\<lambda>(ch, ic). (adr ox ch, ic)) X) a = map_option snd (List.find (\<lambda>x. adr ox (fst x) = a) X)"
  "map_of (map (\<lambda>c. (adr ox c, c)) (map fst X)) a = map_option fst (List.find (\<lambda>x. adr ox (fst x) = a) X)"
  using map_of_find [of "adr ox \<circ> fst" snd X a] map_of_find [of "adr ox \<circ> fst" fst X a]
  by (simp_all add: comp_def case_prod_unfold)

text \<open>Either both sides miss an address, or it stands for one chunk of one file.\<close>

lemma first_occurrence:
  assumes "index_files ox lossy fs ps [] = Inr (es, st)"
  shows "(map_of (dk_by_addr (disk_new \<lparr>shm_entries = es\<rparr>)) a = None \<and> cas_get a st = None) \<or>
    (\<exists>i c. map_of (dk_by_addr (disk_new \<lparr>shm_entries = es\<rparr>)) a = Some (i, c) \<and> i < length ps \<and>
       c < length (chunks CHUNK_SIZE (the (fs (ps ! i)))) \<and> cas_get a st = Some (chunks CHUNK_SIZE (the (fs (ps ! i))) ! c) \<and>
       adr ox (chunks CHUNK_SIZE (the (fs (ps ! i))) ! c) = a)"
proof -
  note ix = index_files_Inr [OF assms, of a]
  let ?f = "List.find (\<lambda>x. adr ox (fst x) = a) (placed fs 0 ps)"
  from ix have g: "cas_get a st = map_option fst ?f"
    by (simp add: all_chunks_placed [of fs ps 0] both_maps(2) cas_get_def del: map_map)
  from ix have m: "map_of (dk_by_addr (disk_new \<lparr>shm_entries = es\<rparr>)) a = map_option snd ?f"
    by (simp add: disk_new_placed both_maps(1))
  show ?thesis
  proof (cases ?f)
    case None
    with g m show ?thesis by simp
  next
    case (Some x)
    obtain ch i c where x: "x = (ch, (i, c))" by (cases x) auto
    from Some have "x \<in> set (placed fs 0 ps)" "adr ox (fst x) = a" by (auto simp: find_Some_iff)
    with placed_member [of ch i c fs ps] x Some g m show ?thesis by auto
  qed
qed

lemma disk_chunk_of:
  assumes "map_of (dk_by_addr dk) a = Some (i, c)" "dk = disk_new \<lparr>shm_entries = map (entry_of ox lossy fs) ps\<rparr>" "i < length ps"
    "c < length (chunks CHUNK_SIZE (the (fs (ps ! i))))" "proper lossy (ps ! i)" "length (the (fs (ps ! i))) < 2 ^ 64"
  shows "disk_chunk dk fs' a = (case fs' (ps ! i) of None \<Rightarrow> None
    | Some bs \<Rightarrow> if length bs = length (the (fs (ps ! i))) then Some (take CHUNK_SIZE (drop (c * CHUNK_SIZE) bs)) else None)"
proof -
  have e: "shm_entries (dk_manifest dk) ! i = entry_of ox lossy fs (ps ! i)" using assms(2,3) by (simp add: disk_new_def)
  have sz: "unat (me_size (entry_of ox lossy fs (ps ! i))) = length (the (fs (ps ! i)))" using assms(6) by (simp add: entry_of_def unat_of_nat)
  have t: "length bs = L \<Longrightarrow> take (min (L - c * CHUNK_SIZE) CHUNK_SIZE) (drop (c * CHUNK_SIZE) bs) = take CHUNK_SIZE (drop (c * CHUNK_SIZE) bs)" for bs :: "byte list" and L
    by (simp add: min_def)
  have r: "join_rel (me_rel_path (entry_of ox lossy fs (ps ! i))) = ps ! i" using join_rel_path [OF assms(5)] by (simp add: entry_of_def)
  show ?thesis using assms(1)
    by (cases "fs' (ps ! i)") (simp_all add: disk_chunk_def get_chunk_def e sz r Let_def t)
qed

section \<open>The property\<close>


text \<open>Two files, one of them below a directory; one is truncated after the pass.\<close>

definition demo_files :: file_reader where
  "demo_files p = (if p = [[97]] then Some [1, 2] else if p = [[98], [99]] then Some [3] else None)"


end
